(* ===== verification/Prelude.thy ===== *)
theory Prelude
  imports Main "HOL-Library.Word" "HOL-Library.Monad_Syntax"
begin

unbundle bit_operations_syntax

section \<open>Shared vocabulary of the development\<close>

text \<open>
  What every component uses: the names of the machine integers, the array primitives of C
  (\<open>memmove\<close>, element assignment), the reading of a run that has no defined result, and the
  generic lemmas about words, masks and lists that the component proofs share. The collection
  \<open>run_simps\<close> gathers the rules that unfold one step of a run.
\<close>

named_theorems run_simps \<open>unfolding one step of a modelled run\<close>

type_synonym u8 = "8 word"
type_synonym u32 = "32 word"
type_synonym u64 = "64 word"

subsection \<open>Runs\<close>

text \<open>
  A call that may fail to return is a value of \<open>'a option\<close>: \<open>None\<close> is a run without a defined
  result (it does not come back within the given fuel, or the C code leaves its behaviour
  undefined), \<open>Some\<close> is a run that returns. Runs are sequenced with the \<open>do\<close> notation of the
  option monad; the state the code mutates is passed explicitly, under the same name before
  and after.
\<close>

lemma bind_Some_iff [run_simps]:
  "Option.bind m f = Some y \<longleftrightarrow> (\<exists>x. m = Some x \<and> f x = Some y)"
  by (cases m) auto

lemma bind_cong_Some:
  "m = m' \<Longrightarrow> (\<And>x. m' = Some x \<Longrightarrow> f x = g x) \<Longrightarrow> Option.bind m f = Option.bind m' g"
  by (cases m') auto

subsection \<open>Arrays\<close>

text \<open>
  \<open>memmove_list xs dst src cnt\<close> is the array \<open>xs\<close> after
  \<open>memmove(xs + dst, xs + src, cnt)\<close>, counted in elements.
\<close>

definition memmove_list :: "'a list \<Rightarrow> nat \<Rightarrow> nat \<Rightarrow> nat \<Rightarrow> 'a list" where
  "memmove_list xs dst src cnt = take dst xs @ take cnt (drop src xs) @ drop (dst + cnt) xs"

lemma length_memmove_list:
  "dst + cnt \<le> length xs \<Longrightarrow> src + cnt \<le> length xs \<Longrightarrow>
   length (memmove_list xs dst src cnt) = length xs"
  by (simp add: memmove_list_def)

subsection \<open>Machine words\<close>

lemma unat_plus_no_overflow:
  "unat a + unat b < 2 ^ LENGTH('a) \<Longrightarrow> unat (a + b) = unat a + unat b" for a b :: "'a::len word"
  by (simp add: unat_word_ariths)

lemma unat_minus_no_underflow:
  "unat b \<le> unat a \<Longrightarrow> unat (a - b) = unat a - unat b" for a b :: "'a::len word"
  by (simp add: unat_sub word_le_nat_alt)

lemma unat_inject: "unat a = unat b \<longleftrightarrow> a = b" for a b :: "'a::len word"
  by (simp add: word_unat_eq_iff)

lemma unat_u64_less: "unat (a :: u64) < 2 ^ 64"
  using unsigned_less [of a] by simp

end
