(* ===== verification/Xlat_Types.thy ===== *)
theory Xlat_Types
  imports Prelude
begin

section \<open>The data of libaddrxlat (include/libkdumpfile/addrxlat.h.in)\<close>

text \<open>
  The enumerations and structures of the public interface, under the source's names. An
  \<open>addrxlat_addr_t\<close> and an \<open>addrxlat_pte_t\<close> are 64-bit words.
\<close>

type_synonym addr_t = u64
type_synonym pte_t = u64

definition ADDRXLAT_ADDR_MAX :: addr_t where
  "ADDRXLAT_ADDR_MAX = NOT 0"

text \<open>
  \<open>addrxlat_status\<close>. Negative codes are free for user callbacks: they are the last constructor.
\<close>

datatype status =
    ADDRXLAT_OK
  | ADDRXLAT_ERR_NOTIMPL
  | ADDRXLAT_ERR_NOTPRESENT
  | ADDRXLAT_ERR_INVALID
  | ADDRXLAT_ERR_NOMEM
  | ADDRXLAT_ERR_NODATA
  | ADDRXLAT_ERR_NOMETH
  | ADDRXLAT_ERR_CUSTOM nat

definition strerror :: "status \<Rightarrow> string" where
  "strerror status =
     (case status of
        ADDRXLAT_OK \<Rightarrow> ''Success''
      | ADDRXLAT_ERR_NOTIMPL \<Rightarrow> ''Unimplemented feature''
      | ADDRXLAT_ERR_NOTPRESENT \<Rightarrow> ''Page not present''
      | ADDRXLAT_ERR_INVALID \<Rightarrow> ''Invalid address''
      | ADDRXLAT_ERR_NOMEM \<Rightarrow> ''Memory allocation failure''
      | ADDRXLAT_ERR_NODATA \<Rightarrow> ''Data not available''
      | ADDRXLAT_ERR_NOMETH \<Rightarrow> ''No translation method''
      | ADDRXLAT_ERR_CUSTOM _ \<Rightarrow> ''Unknown error'')"

subsection \<open>Addresses\<close>

datatype addrspace =
    ADDRXLAT_KPHYSADDR
  | ADDRXLAT_MACHPHYSADDR
  | ADDRXLAT_KVADDR
  | ADDRXLAT_NOADDR

record fulladdr =
  fa_addr :: addr_t
  fa_as :: addrspace

definition addrspace_name :: "addrspace \<Rightarrow> string" where
  "addrspace_name a =
     (case a of
        ADDRXLAT_KPHYSADDR \<Rightarrow> ''KPHYSADDR''
      | ADDRXLAT_MACHPHYSADDR \<Rightarrow> ''MACHPHYSADDR''
      | ADDRXLAT_KVADDR \<Rightarrow> ''KVADDR''
      | ADDRXLAT_NOADDR \<Rightarrow> ''NOADDR'')"

text \<open>
  Capability masks are sets of address spaces, one bit each. The shift by
  \<open>(unsigned)ADDRXLAT_NOADDR\<close> is undefined in C; the invalid address space has no bit here.
\<close>

definition ADDRXLAT_CAPS :: "addrspace \<Rightarrow> u64" where
  "ADDRXLAT_CAPS a =
     (case a of
        ADDRXLAT_KPHYSADDR \<Rightarrow> 1
      | ADDRXLAT_MACHPHYSADDR \<Rightarrow> 2
      | ADDRXLAT_KVADDR \<Rightarrow> 4
      | ADDRXLAT_NOADDR \<Rightarrow> 0)"

definition has_cap :: "u64 \<Rightarrow> addrspace \<Rightarrow> bool" where
  "has_cap caps a \<longleftrightarrow> caps AND ADDRXLAT_CAPS a \<noteq> 0"

definition ADDR_MASK :: "nat \<Rightarrow> addr_t" where
  "ADDR_MASK bits = push_bit bits 1 - 1"

subsection \<open>Error messages and buffers\<close>

text \<open>
  An error message is a format and its arguments; the error string of a context is the list of
  its messages, the one added last in front, as \<open>err_vadd\<close> prepends them.
\<close>

datatype marg = MStr string | MNum u64

type_synonym msg = "string \<times> marg list"

datatype byte_order = ADDRXLAT_BIG_ENDIAN | ADDRXLAT_LITTLE_ENDIAN | ADDRXLAT_HOST_ENDIAN

text \<open>
  \<open>addrxlat_buffer_t\<close>: the page data is a list of bytes, \<open>None\<close> for a \<open>NULL\<close> pointer, and
  \<open>buf_put\<close> says whether the buffer has a \<open>put_page\<close> function of the callback's own
  (the library presets one that does nothing).
\<close>

record buffer =
  buf_addr :: fulladdr
  buf_ptr :: "u8 list option"
  buf_size :: u64
  buf_order :: byte_order
  buf_put :: bool

subsection \<open>Paging forms\<close>

datatype pte_format =
    ADDRXLAT_PTE_INVALID
  | ADDRXLAT_PTE_NONE
  | ADDRXLAT_PTE_PFN32
  | ADDRXLAT_PTE_PFN64
  | ADDRXLAT_PTE_AARCH64
  | ADDRXLAT_PTE_IA32
  | ADDRXLAT_PTE_IA32_PAE
  | ADDRXLAT_PTE_X86_64
  | ADDRXLAT_PTE_S390X
  | ADDRXLAT_PTE_PPC64_LINUX_RPN30
  | ADDRXLAT_PTE_AARCH64_LPA
  | ADDRXLAT_PTE_AARCH64_LPA2
  | ADDRXLAT_PTE_ARM
  | ADDRXLAT_PTE_RISCV32
  | ADDRXLAT_PTE_RISCV64

definition ADDRXLAT_FIELDS_MAX :: nat where
  "ADDRXLAT_FIELDS_MAX = 8"

record paging_form =
  pf_format :: pte_format
  nfields :: nat
  fieldsz :: "nat list"

subsection \<open>Translation methods and translation systems\<close>

text \<open>\<open>addrxlat_sys_meth_t\<close>: the method slots of a translation system.\<close>

datatype sys_meth =
    ADDRXLAT_SYS_METH_NONE
  | ADDRXLAT_SYS_METH_PGT
  | ADDRXLAT_SYS_METH_UPGT
  | ADDRXLAT_SYS_METH_DIRECT
  | ADDRXLAT_SYS_METH_KTEXT
  | ADDRXLAT_SYS_METH_VMEMMAP
  | ADDRXLAT_SYS_METH_RDIRECT
  | ADDRXLAT_SYS_METH_MACHPHYS_KPHYS
  | ADDRXLAT_SYS_METH_KPHYS_MACHPHYS
  | ADDRXLAT_SYS_METH_CUSTOM nat

record range =
  endoff :: addr_t
  meth :: sys_meth

text \<open>\<open>addrxlat_kind_t\<close>; the last constructor stands for any other value of the enumeration.\<close>

datatype kind =
    ADDRXLAT_NOMETH
  | ADDRXLAT_CUSTOM
  | ADDRXLAT_LINEAR
  | ADDRXLAT_PGT
  | ADDRXLAT_LOOKUP
  | ADDRXLAT_MEMARR
  | ADDRXLAT_KIND_OTHER nat

record lookup_elem =
  orig :: addr_t
  dest :: addr_t

text \<open>
  \<open>addrxlat_meth_t\<close>. The members of its parameter union are kept side by side: \<open>custom\<close> (an
  index into the custom methods), \<open>linear\<close>, \<open>pgt\<close>, \<open>lookup\<close> and \<open>memarr\<close>.
\<close>

record xmeth =
  kind :: kind
  target_as :: addrspace
  custom :: nat
  lin_off :: addr_t
  pgt_root :: fulladdr
  pte_mask :: pte_t
  pgt_pf :: paging_form
  lk_endoff :: addr_t
  lk_tbl :: "lookup_elem list"
  ma_base :: fulladdr
  ma_shift :: nat
  ma_elemsz :: u32
  ma_valsz :: u32

datatype sys_map =
    ADDRXLAT_SYS_MAP_HW
  | ADDRXLAT_SYS_MAP_KV_PHYS
  | ADDRXLAT_SYS_MAP_KPHYS_DIRECT
  | ADDRXLAT_SYS_MAP_MACHPHYS_KPHYS
  | ADDRXLAT_SYS_MAP_KPHYS_MACHPHYS

text \<open>\<open>addrxlat_opt_t\<close>: an option index with the member of the value union it uses.\<close>

datatype opt =
    OPT_NULL
  | OPT_arch string
  | OPT_os_type string
  | OPT_version_code u64
  | OPT_phys_bits u64
  | OPT_virt_bits u64
  | OPT_page_shift u64
  | OPT_phys_base addr_t
  | OPT_rootpgt fulladdr
  | OPT_xen_p2m_mfn u64
  | OPT_xen_xlat u64
  | OPT_unknown nat

subsection \<open>Helpers of addrxlat-priv.h and step.c on paging forms\<close>

definition pteval_shift :: "pte_format \<Rightarrow> int" where
  "pteval_shift fmt =
     (case fmt of
        ADDRXLAT_PTE_PFN32 \<Rightarrow> 2
      | ADDRXLAT_PTE_ARM \<Rightarrow> 2
      | ADDRXLAT_PTE_IA32 \<Rightarrow> 2
      | ADDRXLAT_PTE_PFN64 \<Rightarrow> 3
      | ADDRXLAT_PTE_AARCH64 \<Rightarrow> 3
      | ADDRXLAT_PTE_AARCH64_LPA \<Rightarrow> 3
      | ADDRXLAT_PTE_AARCH64_LPA2 \<Rightarrow> 3
      | ADDRXLAT_PTE_IA32_PAE \<Rightarrow> 3
      | ADDRXLAT_PTE_X86_64 \<Rightarrow> 3
      | ADDRXLAT_PTE_RISCV64 \<Rightarrow> 3
      | ADDRXLAT_PTE_S390X \<Rightarrow> 3
      | ADDRXLAT_PTE_PPC64_LINUX_RPN30 \<Rightarrow> 3
      | _ \<Rightarrow> -1)"

definition pf_page_size :: "paging_form \<Rightarrow> addr_t" where
  "pf_page_size pf = push_bit (fieldsz pf ! 0) 1"

definition pf_page_mask :: "paging_form \<Rightarrow> addr_t" where
  "pf_page_mask pf = pf_page_size pf - 1"

definition pf_table_size :: "paging_form \<Rightarrow> nat \<Rightarrow> addr_t" where
  "pf_table_size pf level = push_bit (fieldsz pf ! level) 1"

fun table_span_loop :: "nat list \<Rightarrow> nat \<Rightarrow> addr_t \<Rightarrow> addr_t" where
  "table_span_loop fs 0 ret = ret"
| "table_span_loop fs (Suc level) ret = table_span_loop fs level (push_bit (fs ! level) ret)"

definition pf_table_span :: "paging_form \<Rightarrow> nat \<Rightarrow> addr_t" where
  "pf_table_span pf level = table_span_loop (fieldsz pf) level 1"

definition pf_table_mask :: "paging_form \<Rightarrow> nat \<Rightarrow> addr_t" where
  "pf_table_mask pf level = pf_table_span pf level - 1"

text \<open>The sum is an \<open>unsigned short\<close>.\<close>

definition vaddr_bits :: "paging_form \<Rightarrow> nat" where
  "vaddr_bits pf = foldl (\<lambda>result i. (result + fieldsz pf ! i) mod 2 ^ 16) 0 [0..<nfields pf]"

definition paging_max_index :: "paging_form \<Rightarrow> addr_t" where
  "paging_max_index pf = (if vaddr_bits pf < 64 then ADDR_MASK (vaddr_bits pf) else ADDRXLAT_ADDR_MAX)"

text \<open>The table of format names, in the order of the enumeration.\<close>

definition pte_format_names :: "(pte_format \<times> string) list" where
  "pte_format_names =
     [(ADDRXLAT_PTE_NONE, ''none''),
      (ADDRXLAT_PTE_PFN32, ''pfn32''),
      (ADDRXLAT_PTE_PFN64, ''pfn64''),
      (ADDRXLAT_PTE_AARCH64, ''aarch64''),
      (ADDRXLAT_PTE_IA32, ''ia32''),
      (ADDRXLAT_PTE_IA32_PAE, ''ia32_pae''),
      (ADDRXLAT_PTE_X86_64, ''x86_64''),
      (ADDRXLAT_PTE_S390X, ''s390x''),
      (ADDRXLAT_PTE_PPC64_LINUX_RPN30, ''ppc64_linux_rpn30''),
      (ADDRXLAT_PTE_AARCH64_LPA, ''aarch64_lpa''),
      (ADDRXLAT_PTE_AARCH64_LPA2, ''aarch64_lpa2''),
      (ADDRXLAT_PTE_ARM, ''arm''),
      (ADDRXLAT_PTE_RISCV32, ''riscv32''),
      (ADDRXLAT_PTE_RISCV64, ''riscv64'')]"

definition pte_format_name :: "pte_format \<Rightarrow> string option" where
  "pte_format_name fmt = map_of pte_format_names fmt"

definition ascii_lower :: "char \<Rightarrow> char" where
  "ascii_lower c =
     (let n = of_char c :: nat in if 65 \<le> n \<and> n \<le> 90 then char_of (n + 32) else c)"

fun pte_format_loop :: "(pte_format \<times> string) list \<Rightarrow> string \<Rightarrow> pte_format" where
  "pte_format_loop [] name = ADDRXLAT_PTE_INVALID"
| "pte_format_loop ((fmt, s) # tbl) name =
     (if map ascii_lower name = map ascii_lower s then fmt else pte_format_loop tbl name)"

definition pte_format_of_name :: "string \<Rightarrow> pte_format" where
  "pte_format_of_name name = pte_format_loop pte_format_names name"

lemma pte_format_loop_miss:
  "fmt \<notin> set (map fst tbl) \<Longrightarrow> fmt \<noteq> ADDRXLAT_PTE_INVALID \<Longrightarrow> pte_format_loop tbl name \<noteq> fmt"
  by (induction tbl) (auto split: if_splits)

lemma pte_format_loop_iff:
  assumes "distinct (map fst tbl)" and "distinct (map (map ascii_lower \<circ> snd) tbl)"
    and "(fmt, s) \<in> set tbl" and "fmt \<noteq> ADDRXLAT_PTE_INVALID"
  shows "pte_format_loop tbl name = fmt \<longleftrightarrow> map ascii_lower name = map ascii_lower s"
  using assms
proof (induction tbl)
  case Nil
  then show ?case by simp
next
  case (Cons e tbl)
  show ?case
  proof (cases "e = (fmt, s)")
    case True
    then show ?thesis
      using Cons.prems(1,4) pte_format_loop_miss [of fmt tbl name] by auto
  next
    case False
    then have mem: "(fmt, s) \<in> set tbl"
      using Cons.prems(3) by simp
    then have "fst e \<noteq> fmt" "map ascii_lower (snd e) \<noteq> map ascii_lower s"
      using Cons.prems(1,2) by (auto simp: rev_image_eqI)
    then show ?thesis
      using Cons.IH Cons.prems mem by (cases e) auto
  qed
qed

lemma pte_format_names_distinct:
  "distinct (map fst pte_format_names)" "distinct (map (map ascii_lower \<circ> snd) pte_format_names)"
  by code_simp+

text \<open>
  C16. Every format except the invalid one has a name, and the names are unambiguous: a string
  denotes a format exactly when it is the name of the format in any capitalisation.
\<close>

theorem pte_format_roundtrip:
  assumes "fmt \<noteq> ADDRXLAT_PTE_INVALID"
  shows "\<exists>s. pte_format_name fmt = Some s
    \<and> (\<forall>name. pte_format_of_name name = fmt \<longleftrightarrow> map ascii_lower name = map ascii_lower s)"
proof -
  obtain s where s: "pte_format_name fmt = Some s"
    using assms by (cases fmt) (auto simp: pte_format_name_def pte_format_names_def)
  then have "(fmt, s) \<in> set pte_format_names"
    by (simp add: pte_format_name_def map_of_SomeD)
  then show ?thesis
    using s pte_format_loop_iff [OF pte_format_names_distinct] assms
    by (auto simp: pte_format_of_name_def)
qed

lemma pte_format_roundtrip_witness:
  "pte_format_of_name ''AArch64_LPA'' = ADDRXLAT_PTE_AARCH64_LPA"
proof -
  have "pte_format_name ADDRXLAT_PTE_AARCH64_LPA = Some ''aarch64_lpa''"
    by code_simp
  moreover have "map ascii_lower ''AArch64_LPA'' = map ascii_lower ''aarch64_lpa''"
    by code_simp
  ultimately show ?thesis
    using pte_format_roundtrip [of ADDRXLAT_PTE_AARCH64_LPA] by auto
qed

end
