(* ===== verification/Xlat_Map.thy ===== *)
theory Xlat_Map
  imports Xlat_Types
begin

section \<open>Address translation maps (src/addrxlat/map.c)\<close>

text \<open>
  A map is an array of ranges that starts at address 0; each range starts right after the
  previous one. The array is a list; the loops of \<open>addrxlat_map_set\<close> work on indices into it,
  as the C code works on pointers, and its addresses are 64-bit words that wrap.
\<close>

record xmap =
  map_refcnt :: nat
  ranges :: "range list"

text \<open>
  Functions that allocate take the outcome of each allocation as a \<open>bool\<close>; a \<open>NULL\<close> result is
  \<open>None\<close>. \<open>map_decref\<close> returns the new count and the object, \<open>None\<close> once it is freed.
\<close>

definition map_new :: "bool \<Rightarrow> xmap option" where
  "map_new allocated = (if allocated then Some \<lparr>map_refcnt = 1, ranges = []\<rparr> else None)"

definition map_clear :: "xmap \<Rightarrow> xmap" where
  "map_clear m = m\<lparr>ranges := []\<rparr>"

definition map_incref :: "xmap \<Rightarrow> nat \<times> xmap" where
  "map_incref m = (map_refcnt m + 1, m\<lparr>map_refcnt := map_refcnt m + 1\<rparr>)"

definition map_decref :: "xmap \<Rightarrow> nat \<times> xmap option" where
  "map_decref m =
     (let n = map_refcnt m - 1
      in if n = 0 then (n, None) else (n, Some (m\<lparr>map_refcnt := n\<rparr>)))"

definition map_len :: "xmap \<Rightarrow> nat" where
  "map_len m = length (ranges m)"

definition map_ranges :: "xmap \<Rightarrow> range list" where
  "map_ranges m = ranges m"

definition map_copy :: "bool \<Rightarrow> bool \<Rightarrow> xmap \<Rightarrow> xmap option" where
  "map_copy allocated allocated_ranges m =
     (case map_new allocated of
        None \<Rightarrow> None
      | Some ret \<Rightarrow> if allocated_ranges then Some (ret\<lparr>ranges := ranges m\<rparr>) else None)"

subsection \<open>Search\<close>

fun map_search_loop :: "range list \<Rightarrow> addr_t \<Rightarrow> addr_t \<Rightarrow> sys_meth" where
  "map_search_loop [] addr raddr = ADDRXLAT_SYS_METH_NONE"
| "map_search_loop (r # rs) addr raddr =
     (if addr \<le> raddr + endoff r then meth r
      else map_search_loop rs addr (raddr + (endoff r + 1)))"

definition map_search :: "xmap \<Rightarrow> addr_t \<Rightarrow> sys_meth" where
  "map_search m addr = map_search_loop (ranges m) addr 0"

subsection \<open>Setting a range\<close>

text \<open>
  The two loops of \<open>addrxlat_map_set\<close>: the first range that reaches \<open>addr\<close>, with its start
  address, and the last range that is needed to reach \<open>end\<close>, with its end address. \<open>left\<close>
  counts the ranges from the current one to the end of the array; \<open>delta\<close> is the number of
  array elements that the new range adds.
\<close>

fun find_first :: "range list \<Rightarrow> addr_t \<Rightarrow> nat \<Rightarrow> nat \<Rightarrow> addr_t \<Rightarrow> nat \<times> addr_t \<times> nat" where
  "find_first rs addr 0 firstp raddr = (firstp, raddr, 0)"
| "find_first rs addr (Suc left) firstp raddr =
     (if addr \<le> raddr + endoff (rs ! firstp) then (firstp, raddr, Suc left)
      else find_first rs addr left (Suc firstp) (raddr + (endoff (rs ! firstp) + 1)))"

fun find_last :: "range list \<Rightarrow> addr_t \<Rightarrow> nat \<Rightarrow> nat \<Rightarrow> addr_t \<Rightarrow> int \<Rightarrow> nat \<times> addr_t \<times> nat \<times> int" where
  "find_last rs endaddr 0 lastp rend delta = (lastp, rend, 0, delta)"
| "find_last rs endaddr (Suc left) lastp rend delta =
     (if endaddr \<le> rend then (lastp, rend, Suc left, delta)
      else find_last rs endaddr left (Suc lastp) (rend + (endoff (rs ! Suc lastp) + 1)) (delta - 1))"

text \<open>
  The second half of the function, from the computation of the final \<open>delta\<close> on: the array is
  grown (\<open>grown\<close> says whether \<open>realloc\<close> succeeds), the ranges behind \<open>lastp\<close> are moved, the
  neighbours are cut to size and the new range is stored. \<open>pos\<close> holds the pointers \<open>firstp\<close> and
  \<open>lastp\<close>, \<open>None\<close> when both are \<open>NULL\<close>; memory that \<open>realloc\<close> adds holds \<open>junk\<close>.
\<close>

definition junk :: range where
  "junk = \<lparr>endoff = 0, meth = ADDRXLAT_SYS_METH_NONE\<rparr>"

definition map_store ::
  "range list \<Rightarrow> nat \<Rightarrow> nat \<Rightarrow> addr_t \<Rightarrow> addr_t \<Rightarrow> addr_t \<Rightarrow> addr_t \<Rightarrow> range \<Rightarrow> range list" where
  "map_store arr firstp lastp addr endaddr raddr rend newrng =
     (let (arr, firstp) =
            (if raddr \<noteq> addr then
               (arr[firstp := (arr ! firstp)\<lparr>endoff := addr - raddr - 1\<rparr>], firstp + 1)
             else (arr, firstp));
          (arr, lastp) =
            (if rend \<noteq> endaddr then
               (arr[lastp := (arr ! lastp)\<lparr>endoff := rend - endaddr - 1\<rparr>], lastp - 1)
             else (arr, lastp))
      in arr[firstp := newrng])"

definition map_move ::
  "range list \<Rightarrow> (nat \<times> nat) option \<Rightarrow> nat \<Rightarrow> int \<Rightarrow> addr_t \<Rightarrow> addr_t \<Rightarrow> addr_t \<Rightarrow> addr_t \<Rightarrow>
   range \<Rightarrow> range list" where
  "map_move rs pos left delta addr endaddr raddr rend newrng =
     (let n = length rs;
          (arr, firstp, lastp, left, delta, n) =
            (case pos of
               None \<Rightarrow>
                 (if delta > 0 then
                    (\<lparr>endoff = ADDRXLAT_ADDR_MAX, meth = ADDRXLAT_SYS_METH_NONE\<rparr>
                       # replicate (nat delta - 1) junk, 0, 0, left + 1, delta - 1, 1)
                  else (rs, 0, 0, left, delta, n))
             | Some (f, l) \<Rightarrow>
                 ((if delta > 0 then rs @ replicate (nat delta) junk else rs),
                  f, l, left, delta, n));
          arr = (if delta \<noteq> 0 then memmove_list arr (nat (int lastp + delta)) lastp left else arr)
      in take (nat (int n + delta))
           (map_store arr firstp (nat (int lastp + delta)) addr endaddr raddr rend newrng))"

definition map_splice ::
  "bool \<Rightarrow> xmap \<Rightarrow> (nat \<times> nat) option \<Rightarrow> nat \<Rightarrow> int \<Rightarrow> addr_t \<Rightarrow> addr_t \<Rightarrow> addr_t \<Rightarrow> addr_t \<Rightarrow>
   addr_t \<Rightarrow> range \<Rightarrow> status \<times> xmap" where
  "map_splice grown m pos left delta addr endaddr raddr rend ext rng =
     (let delta = (if addr = raddr then delta - 1 else delta);
          delta = (if rend = endaddr then delta - 1 else delta)
      in if delta > 0 \<and> \<not> grown then (ADDRXLAT_ERR_NOMEM, m)
      else (ADDRXLAT_OK, m\<lparr>ranges := map_move (ranges m) pos left delta addr endaddr raddr rend
              \<lparr>endoff = endoff rng + ext, meth = meth rng\<rparr>\<rparr>))"

definition map_set :: "bool \<Rightarrow> xmap \<Rightarrow> addr_t \<Rightarrow> range \<Rightarrow> status \<times> xmap" where
  "map_set grown m addr rng =
     (let rs = ranges m; n = length rs; endaddr = addr + endoff rng
      in if n \<noteq> 0 then
        let (firstp, raddr, left) = find_first rs addr n 0 0;
            (firstp, raddr, left) =
              (if raddr \<noteq> 0 \<and> raddr = addr \<and> meth (rs ! (firstp - 1)) = meth rng
               then (firstp - 1, raddr - (endoff (rs ! (firstp - 1)) + 1), left + 1)
               else (firstp, raddr, left));
            (lastp, rend, left, delta) = find_last rs endaddr left firstp (raddr + endoff (rs ! firstp)) 2;
            (lastp, rend, left, delta) =
              (if left > 1 \<and> rend = endaddr \<and> meth (rs ! (lastp + 1)) = meth rng
               then (lastp + 1, rend + (endoff (rs ! (lastp + 1)) + 1), left - 1, delta - 1)
               else (lastp, rend, left, delta));
            (ext, raddr) =
              (if meth (rs ! firstp) = meth rng then (addr - raddr, addr) else (0, raddr));
            (ext, rend) =
              (if meth (rs ! lastp) = meth rng then (ext + (rend - endaddr), endaddr)
               else (ext, rend))
        in map_splice grown m (Some (firstp, lastp)) left delta addr endaddr raddr rend ext rng
      else if meth rng = ADDRXLAT_SYS_METH_NONE then
        map_splice grown m None 0 3 addr endaddr addr endaddr (ADDRXLAT_ADDR_MAX - (endaddr - addr)) rng
      else map_splice grown m None 0 3 addr endaddr 0 ADDRXLAT_ADDR_MAX 0 rng)"

subsection \<open>The abstract view: a map as a function of the address\<close>

text \<open>
  Sizes and start addresses as natural numbers, so that the whole 64-bit space has a size.
  A well-formed map is empty or covers the space exactly once.
\<close>

definition usize :: "range \<Rightarrow> nat" where
  "usize r = unat (endoff r) + 1"

definition span :: "range list \<Rightarrow> nat" where
  "span rs = sum_list (map usize rs)"

fun seg_lookup :: "range list \<Rightarrow> nat \<Rightarrow> sys_meth" where
  "seg_lookup [] x = ADDRXLAT_SYS_METH_NONE"
| "seg_lookup (r # rs) x = (if x < usize r then meth r else seg_lookup rs (x - usize r))"

definition map_wf :: "xmap \<Rightarrow> bool" where
  "map_wf m \<longleftrightarrow> ranges m = [] \<or> span (ranges m) = 2 ^ 64"

definition map_abs :: "xmap \<Rightarrow> addr_t \<Rightarrow> sys_meth" where
  "map_abs m addr = seg_lookup (ranges m) (unat addr)"

lemma span_simps [simp]:
  "span [] = 0" "span (r # rs) = usize r + span rs" "span (as @ bs) = span as + span bs"
  by (simp_all add: span_def)

lemma usize_pos [simp]: "0 < usize r"
  by (simp add: usize_def)

lemma seg_lookup_append:
  "seg_lookup (as @ bs) x = (if x < span as then seg_lookup as x else seg_lookup bs (x - span as))"
  by (induction as arbitrary: x) auto

lemma span_take_Suc: "i < length rs \<Longrightarrow> span (take (Suc i) rs) = span (take i rs) + usize (rs ! i)"
  by (simp add: take_Suc_conv_app_nth)

lemma span_take_drop: "span (take i rs) + span (drop i rs) = span rs"
  by (metis append_take_drop_id span_simps(3))

lemma span_take_le: "span (take i rs) \<le> span rs"
  using span_take_drop [of i rs] by simp

lemma span_take_mono: "i \<le> j \<Longrightarrow> span (take i rs) \<le> span (take j rs)"
  by (metis min.absorb1 span_take_le take_take)

lemma span_take_pos: "0 < i \<Longrightarrow> rs \<noteq> [] \<Longrightarrow> 0 < span (take i rs)"
  by (cases i; cases rs) simp_all

lemma seg_lookup_before: "x < span (take i rs) \<Longrightarrow> seg_lookup rs x = seg_lookup (take i rs) x"
  by (metis append_take_drop_id seg_lookup_append)

lemma seg_lookup_behind:
  "span (take i rs) \<le> x \<Longrightarrow> seg_lookup rs x = seg_lookup (drop i rs) (x - span (take i rs))"
  by (metis append_take_drop_id linorder_not_less seg_lookup_append)

lemma seg_lookup_within:
  assumes "i < length rs" and "span (take i rs) \<le> x" and "x < span (take (Suc i) rs)"
  shows "seg_lookup rs x = meth (rs ! i)"
proof -
  have "drop i rs = rs ! i # drop (Suc i) rs"
    using assms(1) by (simp add: Cons_nth_drop_Suc)
  moreover have "x - span (take i rs) < usize (rs ! i)"
    using assms by (simp add: span_take_Suc less_diff_conv2)
  ultimately show ?thesis
    using assms(2) by (simp add: seg_lookup_behind)
qed

lemma map_search_loop_eq:
  assumes "unat raddr + span rs \<le> 2 ^ 64" and "raddr \<le> addr"
  shows "map_search_loop rs addr raddr = seg_lookup rs (unat addr - unat raddr)"
  using assms
proof (induction rs arbitrary: raddr)
  case Nil
  then show ?case by simp
next
  case (Cons r rs)
  have e: "unat (raddr + endoff r) = unat raddr + unat (endoff r)"
    using Cons.prems(1) by (intro unat_plus_no_overflow) (simp add: usize_def)
  have c: "addr \<le> raddr + endoff r \<longleftrightarrow> unat addr - unat raddr < usize r"
    using Cons.prems(2) by (auto simp: word_le_nat_alt e usize_def)
  show ?case
  proof (cases "addr \<le> raddr + endoff r")
    case False
    then have lt: "unat raddr + usize r \<le> unat addr"
      using c Cons.prems(2) by (simp add: word_le_nat_alt)
    then have "unat raddr + usize r < 2 ^ 64"
      using unat_u64_less [of addr] by simp
    then have u: "unat (raddr + (endoff r + 1)) = unat raddr + usize r"
      using e by (simp add: usize_def unat_plus_no_overflow add.assoc [symmetric])
    have "map_search_loop rs addr (raddr + (endoff r + 1))
        = seg_lookup rs (unat addr - unat (raddr + (endoff r + 1)))"
      using Cons.prems(1) lt by (intro Cons.IH) (simp_all add: u word_le_nat_alt)
    then show ?thesis
      using False c by (simp add: u diff_diff_left)
  qed (use c in simp)
qed

lemma map_search_abs:
  assumes "map_wf m"
  shows "map_search m addr = map_abs m addr"
proof -
  have "map_search_loop (ranges m) addr 0 = seg_lookup (ranges m) (unat addr - unat (0 :: u64))"
    using assms by (intro map_search_loop_eq) (auto simp: map_wf_def)
  then show ?thesis
    by (simp add: map_search_def map_abs_def)
qed

subsection \<open>The two loops find the affected ranges\<close>

lemma find_first_spec:
  assumes "find_first rs addr left firstp raddr = (f, ra, lf)"
    and "span rs = 2 ^ 64" and "firstp + left = length rs"
    and "unat raddr = span (take firstp rs)" and "raddr \<le> addr" and "0 < left"
  shows "f < length rs \<and> f + lf = length rs \<and> unat ra = span (take f rs) \<and> ra \<le> addr
    \<and> unat addr < span (take (Suc f) rs)"
  using assms
proof (induction rs addr left firstp raddr rule: find_first.induct)
  case (1 rs addr firstp raddr)
  then show ?case by simp
next
  case (2 rs addr left firstp raddr)
  have lt: "firstp < length rs"
    using "2.prems"(3) by simp
  have S: "span (take (Suc firstp) rs) = unat raddr + usize (rs ! firstp)"
    using "2.prems"(4) lt by (simp add: span_take_Suc)
  have le: "unat raddr + usize (rs ! firstp) \<le> 2 ^ 64"
    using S span_take_le [of "Suc firstp" rs] "2.prems"(2) by simp
  then have e: "unat (raddr + endoff (rs ! firstp)) = unat raddr + unat (endoff (rs ! firstp))"
    by (intro unat_plus_no_overflow) (simp add: usize_def)
  show ?case
  proof (cases "addr \<le> raddr + endoff (rs ! firstp)")
    case True
    then have "unat addr < span (take (Suc firstp) rs)"
      by (simp add: word_le_nat_alt e S usize_def)
    then show ?thesis
      using True "2.prems" lt by auto
  next
    case False
    then have lt2: "unat raddr + usize (rs ! firstp) \<le> unat addr"
      by (simp add: word_le_nat_alt e usize_def)
    then have u: "unat (raddr + (endoff (rs ! firstp) + 1)) = unat raddr + usize (rs ! firstp)"
      using e unat_u64_less [of addr]
      by (simp add: usize_def unat_plus_no_overflow add.assoc [symmetric])
    have "left \<noteq> 0"
    proof
      assume "left = 0"
      then have "take (Suc firstp) rs = rs"
        using "2.prems"(3) by simp
      then show False
        using S lt2 "2.prems"(2) unat_u64_less [of addr] by simp
    qed
    then show ?thesis
      using False "2.prems" lt2 by (intro "2.IH") (simp_all add: u S word_le_nat_alt)
  qed
qed

lemma find_last_spec:
  assumes "find_last rs e left lastp rend delta = (l, re, lf, dl)"
    and "span rs = 2 ^ 64" and "lastp + left = length rs" and "0 < left"
    and "unat rend + 1 = span (take (Suc lastp) rs)" and "span (take lastp rs) \<le> unat e"
  shows "lastp \<le> l \<and> l < length rs \<and> l + lf = length rs \<and> unat re + 1 = span (take (Suc l) rs)
    \<and> span (take l rs) \<le> unat e \<and> e \<le> re \<and> dl = delta - int (l - lastp)"
  using assms
proof (induction rs e left lastp rend delta rule: find_last.induct)
  case (1 rs e lastp rend delta)
  then show ?case by simp
next
  case (2 rs e left lastp rend delta)
  show ?case
  proof (cases "e \<le> rend")
    case True
    then show ?thesis using "2.prems" by auto
  next
    case False
    then have lt: "unat rend + 1 \<le> unat e"
      by (simp add: word_le_nat_alt)
    have "left \<noteq> 0"
    proof
      assume "left = 0"
      then have "take (Suc lastp) rs = rs"
        using "2.prems"(3) by simp
      then show False
        using "2.prems"(2,5) lt unat_u64_less [of e] by simp
    qed
    then have len: "Suc lastp < length rs"
      using "2.prems"(3) by simp
    have S: "span (take (Suc (Suc lastp)) rs) = unat rend + 1 + usize (rs ! Suc lastp)"
      using "2.prems"(5) len by (simp add: span_take_Suc)
    have "unat rend + 1 + usize (rs ! Suc lastp) \<le> 2 ^ 64"
      using S span_take_le [of "Suc (Suc lastp)" rs] "2.prems"(2) by simp
    then have u: "unat (rend + (endoff (rs ! Suc lastp) + 1)) = unat rend + usize (rs ! Suc lastp)"
      by (simp add: usize_def unat_plus_no_overflow add.assoc [symmetric])
    have "Suc lastp \<le> l \<and> l < length rs \<and> l + lf = length rs
        \<and> unat re + 1 = span (take (Suc l) rs) \<and> span (take l rs) \<le> unat e \<and> e \<le> re
        \<and> dl = delta - 1 - int (l - Suc lastp)"
      using False "2.prems" \<open>left \<noteq> 0\<close> lt by (intro "2.IH") (simp_all add: u S)
    then show ?thesis by auto
  qed
qed

subsection \<open>The array surgery\<close>

lemma map_store_eq:
  assumes "length P = f"
    and "Q = P @ (if raddr = addr then [] else [x]) @ (if rend = e then [] else [z])"
  shows "map_store (Q @ y # D) f (length Q) addr e raddr rend new
    = P @ (if raddr = addr then [] else [x\<lparr>endoff := addr - raddr - 1\<rparr>]) @ [new]
        @ (if rend = e then [] else [y\<lparr>endoff := rend - e - 1\<rparr>]) @ D"
  using assms by (auto simp: map_store_def Let_def nth_append list_update_append)

lemma take_length_append: "take (length xs) (xs @ ys) = xs"
  by simp

text \<open>
  The array after growing and moving: the ranges before \<open>first\<close>, room for as many ranges as the
  cut pieces need, then the last range and everything behind it.
\<close>

lemma moved_array:
  fixes rs :: "range list"
  assumes f: "f \<le> l" "l < length rs"
    and dl: "dl = int k - int (l - f)"
    and arr: "arr = (if dl > 0 then rs @ replicate (nat dl) junk else rs)"
  obtains Q rest where
    "(if dl \<noteq> 0 then memmove_list arr (nat (int l + dl)) l (length rs - l) else arr)
       = (take f rs @ Q) @ (rs ! l) # drop (Suc l) rs @ rest"
    and "length Q = k" and "0 < k \<Longrightarrow> Q ! 0 = rs ! f"
proof -
  define D where "D = drop (Suc l) rs"
  have dropl: "drop l rs = rs ! l # D"
    using f by (simp add: D_def Cons_nth_drop_Suc)
  have lenrs: "length rs - l = Suc (length D)"
    using f by (simp add: D_def)
  have len: "f + k + Suc (length D) \<le> length arr"
    using f by (auto simp: arr dl D_def)
  have pos: "nat (int l + dl) = f + k"
    using f by (simp add: dl)
  have tail: "take (Suc (length D)) (drop l arr) = rs ! l # D"
    using dropl f by (simp add: arr)
  obtain rest where moved:
    "(if dl \<noteq> 0 then memmove_list arr (nat (int l + dl)) l (length rs - l) else arr)
       = take (f + k) arr @ (rs ! l) # D @ rest"
  proof (cases "dl = 0")
    case True
    then have "l = f + k"
      using f by (simp add: dl)
    then have "arr = take (f + k) arr @ take (Suc (length D)) (drop l arr)
        @ drop (Suc (length D)) (drop l arr)"
      by (metis append_take_drop_id)
    then show ?thesis
      using that True tail by simp
  next
    case False
    then show ?thesis
      using that tail by (simp add: memmove_list_def pos lenrs)
  qed
  have "take (f + k) arr = take f rs @ take k (drop f arr)"
    using f by (simp add: take_add arr)
  moreover have "length (take k (drop f arr)) = k"
    using len by simp
  moreover have "0 < k \<Longrightarrow> take k (drop f arr) ! 0 = rs ! f"
    using len f by (simp add: arr nth_append)
  ultimately show ?thesis
    using that moved D_def by auto
qed

lemma map_move_Some:
  assumes f: "f \<le> l" "l < length rs"
    and k: "k = (if addr = raddr then 0 else 1) + (if rend = e then 0 else 1)"
  shows "map_move rs (Some (f, l)) (length rs - l) (int k - int (l - f)) addr e raddr rend new =
    take f rs
      @ (if raddr = addr then [] else [(rs ! f)\<lparr>endoff := addr - raddr - 1\<rparr>]) @ [new]
      @ (if rend = e then [] else [(rs ! l)\<lparr>endoff := rend - e - 1\<rparr>]) @ drop (Suc l) rs"
    (is "_ = ?new")
proof -
  define dl where "dl = int k - int (l - f)"
  define arr where "arr = (if dl > 0 then rs @ replicate (nat dl) junk else rs)"
  obtain Q rest where moved:
    "(if dl \<noteq> 0 then memmove_list arr (nat (int l + dl)) l (length rs - l) else arr)
       = (take f rs @ Q) @ (rs ! l) # drop (Suc l) rs @ rest"
    and Q: "length Q = k" "0 < k \<Longrightarrow> Q ! 0 = rs ! f"
    using moved_array [OF f dl_def arr_def] by auto
  obtain z where Qz: "Q = (if raddr = addr then [] else [rs ! f]) @ (if rend = e then [] else [z])"
    using Q unfolding k
    by (cases "raddr = addr"; cases "rend = e") (auto simp: length_Suc_conv numeral_2_eq_2)
  have store: "map_store ((take f rs @ Q) @ rs ! l # drop (Suc l) rs @ rest) f (f + k)
      addr e raddr rend new = ?new @ rest"
    using map_store_eq [of "take f rs" f "take f rs @ Q" raddr addr "rs ! f" rend e z
        "rs ! l" "drop (Suc l) rs @ rest" new] f Q(1) by (simp add: Qz)
  have pos: "nat (int l + dl) = f + k"
    using f by (simp add: dl_def)
  have "length ?new = f + k + (length rs - l)"
    using f by (auto simp: k)
  then have n: "nat (int (length rs) + dl) = length ?new"
    using f by (simp add: dl_def)
  have "map_move rs (Some (f, l)) (length rs - l) dl addr e raddr rend new
      = take (length ?new) (map_store ((take f rs @ Q) @ rs ! l # drop (Suc l) rs @ rest) f (f + k)
          addr e raddr rend new)"
    by (simp only: map_move_def Let_def option.case prod.case arr_def [symmetric]
        moved [unfolded pos] pos n)
  also have "\<dots> = ?new"
    by (simp only: store take_length_append)
  finally show ?thesis
    by (simp only: dl_def)
qed

lemma map_splice_Some:
  assumes f: "f \<le> l" "l < length (ranges m)"
    and k: "k = (if addr = raddr then 0 else 1) + (if rend = e then 0 else 1)"
    and grown: "grown \<or> k \<le> l - f"
  shows "map_splice grown m (Some (f, l)) (length (ranges m) - l) (2 - int (l - f))
      addr e raddr rend ext rng =
    (ADDRXLAT_OK, m\<lparr>ranges := take f (ranges m)
       @ (if raddr = addr then [] else [(ranges m ! f)\<lparr>endoff := addr - raddr - 1\<rparr>])
       @ [\<lparr>endoff = endoff rng + ext, meth = meth rng\<rparr>]
       @ (if rend = e then [] else [(ranges m ! l)\<lparr>endoff := rend - e - 1\<rparr>])
       @ drop (Suc l) (ranges m)\<rparr>)"
proof -
  have d: "(let delta = (if addr = raddr then 2 - int (l - f) - 1 else 2 - int (l - f))
            in (if rend = e then delta - 1 else delta)) = int k - int (l - f)"
    by (auto simp: k Let_def)
  have ok: "\<not> (int k - int (l - f) > 0 \<and> \<not> grown)"
    using grown by auto
  show ?thesis
    unfolding map_splice_def Let_def
    by (simp only: d [unfolded Let_def] ok if_False map_move_Some [OF f k])
qed

subsection \<open>What the spliced array means\<close>

text \<open>
  \<open>A\<close> and \<open>E\<close> are the first and last address of the new range, \<open>mt\<close> its method; the neighbours
  that have the same method are absorbed (\<open>L\<close> and \<open>R\<close> are then empty and \<open>N\<close> is longer).
\<close>

lemma spliced:
  fixes rs :: "range list"
  defines "S i \<equiv> span (take i rs)"
  assumes fl: "f \<le> l" "l < length rs" and AE: "A \<le> E"
    and A: "S f \<le> A" "A \<le> S (Suc f)" "A = S (Suc f) \<Longrightarrow> meth (rs ! f) = mt"
    and E: "S l \<le> E + 1" "E < S (Suc l)" "S l = E + 1 \<Longrightarrow> meth (rs ! l) = mt"
    and L: "if meth (rs ! f) = mt \<or> A = S f then L = []
            else \<exists>x. L = [x] \<and> usize x = A - S f \<and> meth x = meth (rs ! f)"
    and R: "if meth (rs ! l) = mt \<or> E + 1 = S (Suc l) then R = []
            else \<exists>y. R = [y] \<and> usize y = S (Suc l) - 1 - E \<and> meth y = meth (rs ! l)"
    and N: "meth N = mt"
           "usize N = (E + 1 - A) + (if meth (rs ! f) = mt then A - S f else 0)
              + (if meth (rs ! l) = mt then S (Suc l) - 1 - E else 0)"
    and nw: "nw = take f rs @ L @ [N] @ R @ drop (Suc l) rs"
  shows "span nw = span rs"
    and "seg_lookup nw x = (if A \<le> x \<and> x \<le> E then mt else seg_lookup rs x)"
proof -
  have L': "span L = (if meth (rs ! f) = mt then 0 else A - S f)"
    using L by (auto split: if_splits)
  have R': "span R = (if meth (rs ! l) = mt then 0 else S (Suc l) - 1 - E)"
    using R by (auto split: if_splits)
  have sum: "S f + span L + usize N + span R = S (Suc l)"
    using A E AE by (auto simp: L' R' N)
  have drop: "span (drop (Suc l) rs) = span rs - S (Suc l)"
    using span_take_drop [of "Suc l" rs] by (simp add: S_def)
  have le: "S (Suc l) \<le> span rs"
    unfolding S_def by (rule span_take_le)
  have Sfold: "span (take f rs) = S f"
    by (simp add: S_def)
  show "span nw = span rs"
    using sum drop le by (simp add: Sfold nw)
  have mid: "seg_lookup nw x = (if x - S f < span L then seg_lookup L (x - S f)
        else if x - S f < span L + usize N then mt
        else seg_lookup (R @ drop (Suc l) rs) (x - S f - (span L + usize N)))" if "S f \<le> x"
    using that by (auto simp: nw seg_lookup_append Sfold N(1) diff_diff_left ac_simps)
  consider (before) "x < S f" | (head) "S f \<le> x" "x < A" | (new) "A \<le> x" "x \<le> E"
    | (tail) "E < x" "x < S (Suc l)" | (behind) "S (Suc l) \<le> x"
    by linarith
  then show "seg_lookup nw x = (if A \<le> x \<and> x \<le> E then mt else seg_lookup rs x)"
  proof cases
    case before
    then have "seg_lookup nw x = seg_lookup (take f rs) x"
      by (simp add: nw seg_lookup_append Sfold)
    then show ?thesis
      using before A(1) seg_lookup_before [of x f rs] by (simp add: S_def)
  next
    case head
    have "seg_lookup rs x = meth (rs ! f)"
      using fl A head by (intro seg_lookup_within) (simp_all add: S_def)
    moreover have "seg_lookup nw x = meth (rs ! f)"
    proof (cases "meth (rs ! f) = mt")
      case True
      then have "span L = 0" "x - S f < usize N"
        using head N(2) L' by auto
      then show ?thesis using head True by (simp add: mid)
    next
      case False
      then obtain z where "L = [z]" "meth z = meth (rs ! f)" "usize z = A - S f"
        using L head by auto
      then show ?thesis using head by (simp add: mid diff_less_mono)
    qed
    ultimately show ?thesis using head by simp
  next
    case new
    have "\<not> x - S f < span L" "x - S f < span L + usize N"
      using new A(1) L' N(2) by (simp_all split: if_splits)
    then show ?thesis using new A(1) by (simp add: mid)
  next
    case tail
    have x: "S f \<le> x" "\<not> x - S f < span L"
      using tail A(1) AE L' by auto
    have "seg_lookup rs x = meth (rs ! l)"
      using fl E tail by (intro seg_lookup_within) (simp_all add: S_def)
    moreover have "seg_lookup nw x = meth (rs ! l)"
    proof (cases "meth (rs ! l) = mt")
      case True
      then have "x - S f < span L + usize N"
        using sum R' tail x(1) by auto
      then show ?thesis using True x by (simp add: mid)
    next
      case False
      then obtain z where z: "R = [z]" "meth z = meth (rs ! l)" "usize z = S (Suc l) - 1 - E"
        using R tail by auto
      have "\<not> x - S f < span L + usize N" "x - S f - (span L + usize N) < usize z"
        using False sum z tail x by auto
      then show ?thesis using x z by (simp add: mid)
    qed
    ultimately show ?thesis using tail A AE by simp
  next
    case behind
    have "S f \<le> x" "\<not> x - S f < span L + usize N"
      using behind sum by auto
    then have "seg_lookup nw x = seg_lookup (R @ drop (Suc l) rs) (x - S f - (span L + usize N))"
      by (simp add: mid)
    also have "x - S f - (span L + usize N) = x - S (Suc l) + span R"
      using behind sum by linarith
    also have "seg_lookup (R @ drop (Suc l) rs) (x - S (Suc l) + span R)
        = seg_lookup (drop (Suc l) rs) (x - S (Suc l))"
      by (simp add: seg_lookup_append)
    finally show ?thesis
      using behind E seg_lookup_behind [of "Suc l" rs x] by (simp add: S_def)
  qed
qed

subsection \<open>\<open>addrxlat_map_set\<close> meets its specification\<close>

text \<open>
  On a non-empty well-formed map the search part hands the array surgery the affected ranges
  \<open>f\<close> to \<open>l\<close>, widened over a neighbour of the same method on either side.
\<close>

lemma find_first_merged:
  assumes "find_first rs addr (length rs) 0 0 = (f0, ra0, lf0)" and "span rs = 2 ^ 64"
    and "(f, ra, lf) = (if ra0 \<noteq> 0 \<and> ra0 = addr \<and> meth (rs ! (f0 - 1)) = mt
               then (f0 - 1, ra0 - (endoff (rs ! (f0 - 1)) + 1), lf0 + 1) else (f0, ra0, lf0))"
  shows "f < length rs \<and> f + lf = length rs \<and> unat ra = span (take f rs) \<and> ra \<le> addr
    \<and> unat addr \<le> span (take (Suc f) rs)
    \<and> (unat addr = span (take (Suc f) rs) \<longrightarrow> meth (rs ! f) = mt)
    \<and> (f \<noteq> 0 \<and> ra = addr \<and> meth (rs ! f) \<noteq> mt \<longrightarrow> meth (rs ! (f - 1)) \<noteq> mt)"
proof -
  have ne: "rs \<noteq> []"
    using assms(2) by auto
  then have spec: "f0 < length rs" "f0 + lf0 = length rs" "unat ra0 = span (take f0 rs)"
      "ra0 \<le> addr" "unat addr < span (take (Suc f0) rs)"
    using find_first_spec [OF assms(1) assms(2)] by auto
  show ?thesis
  proof (cases "ra0 \<noteq> 0 \<and> ra0 = addr \<and> meth (rs ! (f0 - 1)) = mt")
    case False
    have "ra0 \<noteq> 0" if "f0 \<noteq> 0"
      using spec(3) span_take_pos [of f0 rs] that ne by auto
    then show ?thesis using False assms(3) spec by auto
  next
    case True
    have "f0 \<noteq> 0"
    proof
      assume "f0 = 0"
      then have "unat ra0 = 0" using spec(3) by simp
      then have "ra0 = 0" by (simp add: unat_eq_0)
      then show False using True by blast
    qed
    then obtain g where g: "f0 = Suc g"
      by (cases f0) auto
    have S: "span (take f0 rs) = span (take g rs) + usize (rs ! g)"
      using g spec(1) by (simp add: span_take_Suc)
    have us: "unat (endoff (rs ! g) + 1) = usize (rs ! g)"
      using S spec(3) unat_u64_less [of ra0]
      by (simp add: usize_def unat_plus_no_overflow)
    then have u: "unat (ra0 - (endoff (rs ! g) + 1)) = span (take g rs)"
      using S spec(3) by (simp add: unat_minus_no_underflow)
    have "f = g" "lf = lf0 + 1" "ra = ra0 - (endoff (rs ! g) + 1)"
      using assms(3) True g by auto
    moreover have "ra0 - (endoff (rs ! g) + 1) \<le> addr"
      using True u S spec(3) by (simp add: word_le_nat_alt)
    ultimately show ?thesis
      using True g S u spec by simp
  qed
qed

lemma find_last_merged:
  assumes "find_last rs e lf f (ra + endoff (rs ! f)) 2 = (l0, re0, lf0, dl0)"
    and "span rs = 2 ^ 64" and "f < length rs" and "f + lf = length rs"
    and "unat ra = span (take f rs)" and "ra \<le> e"
    and "(l, re, lf', dl) = (if lf0 > 1 \<and> re0 = e \<and> meth (rs ! (l0 + 1)) = mt
               then (l0 + 1, re0 + (endoff (rs ! (l0 + 1)) + 1), lf0 - 1, dl0 - 1)
               else (l0, re0, lf0, dl0))"
  shows "f \<le> l \<and> l < length rs \<and> lf' = length rs - l \<and> dl = 2 - int (l - f)
    \<and> unat re + 1 = span (take (Suc l) rs) \<and> e \<le> re
    \<and> span (take l rs) \<le> unat e + 1 \<and> (span (take l rs) = unat e + 1 \<longrightarrow> meth (rs ! l) = mt)
    \<and> (Suc l < length rs \<and> re = e \<and> meth (rs ! l) \<noteq> mt \<longrightarrow> meth (rs ! Suc l) \<noteq> mt)"
proof -
  have S: "span (take (Suc f) rs) = unat ra + usize (rs ! f)"
    using assms(3,5) by (simp add: span_take_Suc)
  have "unat ra + usize (rs ! f) \<le> 2 ^ 64"
    using S span_take_le [of "Suc f" rs] assms(2) by simp
  then have "unat (ra + endoff (rs ! f)) + 1 = span (take (Suc f) rs)"
    by (simp add: S usize_def unat_plus_no_overflow)
  then have spec: "f \<le> l0" "l0 < length rs" "l0 + lf0 = length rs"
      "unat re0 + 1 = span (take (Suc l0) rs)" "span (take l0 rs) \<le> unat e" "e \<le> re0"
      "dl0 = 2 - int (l0 - f)"
    using find_last_spec [OF assms(1,2,4)] assms(3,4,5,6) by (auto simp: word_le_nat_alt)
  show ?thesis
  proof (cases "lf0 > 1 \<and> re0 = e \<and> meth (rs ! (l0 + 1)) = mt")
    case False
    then show ?thesis using assms(7) spec by auto
  next
    case True
    then have len: "Suc l0 < length rs"
      using spec(3) by simp
    have S: "span (take (Suc (Suc l0)) rs) = unat re0 + 1 + usize (rs ! Suc l0)"
      using len spec(4) by (simp add: span_take_Suc)
    have "unat re0 + 1 + usize (rs ! Suc l0) \<le> 2 ^ 64"
      using S span_take_le [of "Suc (Suc l0)" rs] assms(2) by simp
    then have u: "unat (re0 + (endoff (rs ! Suc l0) + 1)) = unat re0 + usize (rs ! Suc l0)"
      by (simp add: usize_def unat_plus_no_overflow add.assoc [symmetric])
    have "l = Suc l0" "re = re0 + (endoff (rs ! Suc l0) + 1)" "lf' = lf0 - 1" "dl = dl0 - 1"
      using assms(7) True by auto
    then show ?thesis
      using True spec len S u by (auto simp: word_le_nat_alt)
  qed
qed

definition affected :: "range list \<Rightarrow> addr_t \<Rightarrow> addr_t \<Rightarrow> sys_meth \<Rightarrow> nat \<Rightarrow> nat \<Rightarrow> addr_t \<Rightarrow> addr_t \<Rightarrow> bool"
where
  "affected rs addr e mt f l ra re \<longleftrightarrow>
    f \<le> l \<and> l < length rs \<and> unat ra = span (take f rs) \<and> ra \<le> addr
    \<and> unat addr \<le> span (take (Suc f) rs)
    \<and> (unat addr = span (take (Suc f) rs) \<longrightarrow> meth (rs ! f) = mt)
    \<and> unat re + 1 = span (take (Suc l) rs) \<and> e \<le> re \<and> span (take l rs) \<le> unat e + 1
    \<and> (span (take l rs) = unat e + 1 \<longrightarrow> meth (rs ! l) = mt)
    \<and> (f \<noteq> 0 \<and> ra = addr \<and> meth (rs ! f) \<noteq> mt \<longrightarrow> meth (rs ! (f - 1)) \<noteq> mt)
    \<and> (Suc l < length rs \<and> re = e \<and> meth (rs ! l) \<noteq> mt \<longrightarrow> meth (rs ! Suc l) \<noteq> mt)"

lemma map_set_splice:
  assumes sp: "span (ranges m) = 2 ^ 64"
    and ov: "unat addr + unat (endoff rng) < 2 ^ 64"
  defines "e \<equiv> addr + endoff rng" and "mt \<equiv> meth rng" and "rs \<equiv> ranges m"
  obtains f l ra re where
    "\<And>grown. map_set grown m addr rng =
       map_splice grown m (Some (f, l)) (length rs - l) (2 - int (l - f))
       addr e (if meth (rs ! f) = mt then addr else ra) (if meth (rs ! l) = mt then e else re)
       ((if meth (rs ! f) = mt then addr - ra else 0) + (if meth (rs ! l) = mt then re - e else 0)) rng"
    and "affected rs addr e mt f l ra re"
proof -
  have ne: "rs \<noteq> []"
    using sp by (auto simp: rs_def)
  obtain f0 ra0 lf0 where f0: "find_first rs addr (length rs) 0 0 = (f0, ra0, lf0)"
    by (metis prod_cases3)
  obtain f ra lf where f: "(f, ra, lf) = (if ra0 \<noteq> 0 \<and> ra0 = addr \<and> meth (rs ! (f0 - 1)) = mt
      then (f0 - 1, ra0 - (endoff (rs ! (f0 - 1)) + 1), lf0 + 1) else (f0, ra0, lf0))"
    by (metis prod_cases3)
  note F = find_first_merged [OF f0 sp [folded rs_def] f]
  obtain l0 re0 lf1 dl0 where l0: "find_last rs e lf f (ra + endoff (rs ! f)) 2 = (l0, re0, lf1, dl0)"
    by (metis prod_cases4)
  obtain l re lf' dl where l: "(l, re, lf', dl) = (if lf1 > 1 \<and> re0 = e \<and> meth (rs ! (l0 + 1)) = mt
      then (l0 + 1, re0 + (endoff (rs ! (l0 + 1)) + 1), lf1 - 1, dl0 - 1) else (l0, re0, lf1, dl0))"
    by (metis prod_cases4)
  have "unat e = unat addr + unat (endoff rng)"
    using ov by (simp add: e_def unat_plus_no_overflow)
  then have "ra \<le> e"
    using F by (simp add: word_le_nat_alt)
  then have L: "f \<le> l \<and> l < length rs \<and> lf' = length rs - l \<and> dl = 2 - int (l - f)
    \<and> unat re + 1 = span (take (Suc l) rs) \<and> e \<le> re
    \<and> span (take l rs) \<le> unat e + 1 \<and> (span (take l rs) = unat e + 1 \<longrightarrow> meth (rs ! l) = mt)
    \<and> (Suc l < length rs \<and> re = e \<and> meth (rs ! l) \<noteq> mt \<longrightarrow> meth (rs ! Suc l) \<noteq> mt)"
    using find_last_merged [OF l0 sp [folded rs_def] _ _ _ _ l] F by blast
  have "map_set grown m addr rng = map_splice grown m (Some (f, l)) lf' dl
       addr e (if meth (rs ! f) = mt then addr else ra) (if meth (rs ! l) = mt then e else re)
       ((if meth (rs ! f) = mt then addr - ra else 0) + (if meth (rs ! l) = mt then re - e else 0)) rng"
    for grown
    using ne unfolding map_set_def
    by (simp add: Let_def e_def [symmetric] rs_def [symmetric] mt_def [symmetric] f0 f [symmetric]
        l0 l [symmetric] del: One_nat_def)
  then have "map_set grown m addr rng =
      map_splice grown m (Some (f, l)) (length rs - l) (2 - int (l - f))
       addr e (if meth (rs ! f) = mt then addr else ra) (if meth (rs ! l) = mt then e else re)
       ((if meth (rs ! f) = mt then addr - ra else 0) + (if meth (rs ! l) = mt then re - e else 0)) rng"
    for grown
    using L by simp
  moreover have "affected rs addr e mt f l ra re"
    using F L unfolding affected_def by blast
  ultimately show ?thesis by (rule that)
qed

subsection \<open>The representation stays minimal\<close>

text \<open>No two adjacent ranges have the same method.\<close>

definition map_canon :: "xmap \<Rightarrow> bool" where
  "map_canon m \<longleftrightarrow> successively (\<lambda>a b. meth a \<noteq> meth b) (ranges m)"

lemma canon_splice:
  fixes rs :: "range list"
  defines "P \<equiv> \<lambda>a b :: range. meth a \<noteq> meth b"
  assumes can: "successively P rs" and fl: "f \<le> l" "l < length rs"
    and L: "if meth (rs ! f) = mt \<or> A then L = [] else \<exists>x. L = [x] \<and> meth x = meth (rs ! f)"
    and R: "if meth (rs ! l) = mt \<or> B then R = [] else \<exists>y. R = [y] \<and> meth y = meth (rs ! l)"
    and N: "meth N = mt"
    and prev: "f \<noteq> 0 \<Longrightarrow> A \<Longrightarrow> meth (rs ! f) \<noteq> mt \<Longrightarrow> meth (rs ! (f - 1)) \<noteq> mt"
    and succ: "Suc l < length rs \<Longrightarrow> B \<Longrightarrow> meth (rs ! l) \<noteq> mt \<Longrightarrow> meth (rs ! Suc l) \<noteq> mt"
  shows "successively P (take f rs @ L @ [N] @ R @ drop (Suc l) rs)"
proof -
  have nth: "P (rs ! i) (rs ! Suc i)" if "Suc i < length rs" for i
    using can that by (simp add: successively_conv_nth)
  have 1: "successively P (take f rs)" "successively P (drop (Suc l) rs)"
    using can by (metis append_take_drop_id successively_append_iff)+
  have lastP: "last (take f rs) = rs ! (f - 1)" if "f \<noteq> 0"
    using that fl by (cases f) (auto simp: take_Suc_conv_app_nth)
  have hdD: "hd (drop (Suc l) rs) = rs ! Suc l" if "Suc l < length rs"
    using that by (simp add: hd_drop_conv_nth)
  have left: "successively P (take f rs @ L @ [N])"
    using 1(1) L N fl lastP nth [of "f - 1"] prev
    by (cases "f = 0"; cases "meth (rs ! f) = mt \<or> A")
       (auto simp: successively_append_iff P_def)
  have right: "successively P ([N] @ R @ drop (Suc l) rs)"
    using 1(2) R N hdD nth [of l] succ
    by (cases "Suc l < length rs"; cases "meth (rs ! l) = mt \<or> B")
       (auto simp: successively_append_iff successively_Cons P_def)
  show ?thesis
    using left right successively_append_iff [of P "take f rs @ L @ [N]" "R @ drop (Suc l) rs"]
    by (auto simp: successively_Cons)
qed

lemma map_splice_cases:
  "map_splice grown m pos left delta addr e raddr rend ext rng = (st, m') \<Longrightarrow>
    st = ADDRXLAT_OK \<and> map_refcnt m' = map_refcnt m
    \<or> st = ADDRXLAT_ERR_NOMEM \<and> m' = m \<and> \<not> grown"
  by (auto simp: map_splice_def Let_def split: if_splits)

lemma map_splice_grown_irrelevant:
  "map_splice grown m pos left delta addr e raddr rend ext rng = (ADDRXLAT_OK, m') \<Longrightarrow>
   map_splice True m pos left delta addr e raddr rend ext rng = (ADDRXLAT_OK, m')"
  by (auto simp: map_splice_def Let_def split: if_splits)

lemma usize_cut:
  assumes "a < b"
  shows "usize (r\<lparr>endoff := b - a - 1\<rparr>) = unat b - unat a"
proof -
  have "unat (b - a) = unat b - unat a"
    using assms by (intro unat_minus_no_underflow) (simp add: word_less_nat_alt)
  moreover have "unat (b - a - 1) = unat (b - a) - 1"
    using assms calculation by (subst unat_minus_no_underflow) (simp_all add: word_less_nat_alt)
  ultimately show ?thesis
    using assms by (simp add: usize_def word_less_nat_alt)
qed

lemma usize_new:
  assumes "unat addr + unat off < 2 ^ 64" and "ra \<le> addr" and "addr + off \<le> re"
  shows "usize \<lparr>endoff = off + ((if P then addr - ra else 0) + (if Q then re - (addr + off) else 0)),
      meth = mt\<rparr>
    = (unat (addr + off) + 1 - unat addr) + (if P then unat addr - unat ra else 0)
      + (if Q then unat re - unat (addr + off) else 0)"
proof -
  have e: "unat (addr + off) = unat addr + unat off"
    using assms(1) by (simp add: unat_plus_no_overflow)
  have a: "unat (addr - ra) = unat addr - unat ra" "unat ra \<le> unat addr"
    using assms(2) by (simp_all add: unat_minus_no_underflow word_le_nat_alt)
  have r: "unat (re - (addr + off)) = unat re - (unat addr + unat off)"
      "unat addr + unat off \<le> unat re"
    using assms(3) e by (simp_all add: unat_minus_no_underflow word_le_nat_alt)
  have "unat (re - ra) = unat re - unat ra" "unat (re - addr) = unat re - unat addr"
    using a(2) r(2) by (simp_all add: unat_minus_no_underflow)
  moreover have "unat (off + (addr - ra)) = unat off + (unat addr - unat ra)"
    using a assms(1) by (simp add: unat_plus_no_overflow del: add_diff_eq)
  ultimately show ?thesis
    using e a r by (cases P; cases Q) (auto simp: usize_def)
qed

lemma map_set_spec_nonempty:
  assumes sp: "span (ranges m) = 2 ^ 64"
    and ov: "unat addr + unat (endoff rng) < 2 ^ 64"
    and set: "map_set grown m addr rng = (ADDRXLAT_OK, m')"
  shows "span (ranges m') = 2 ^ 64"
    and "seg_lookup (ranges m') x = (if unat addr \<le> x \<and> x \<le> unat addr + unat (endoff rng)
           then meth rng else seg_lookup (ranges m) x)"
    and "map_canon m \<Longrightarrow> map_canon m'"
proof -
  define e where "e = addr + endoff rng"
  define mt where "mt = meth rng"
  define rs where "rs = ranges m"
  define S where "S = (\<lambda>i. span (take i rs))"
  have e: "unat e = unat addr + unat (endoff rng)"
    using ov by (simp add: e_def unat_plus_no_overflow)
  obtain f l ra re where spl:
    "\<And>grown. map_set grown m addr rng =
       map_splice grown m (Some (f, l)) (length rs - l) (2 - int (l - f))
       addr e (if meth (rs ! f) = mt then addr else ra) (if meth (rs ! l) = mt then e else re)
       ((if meth (rs ! f) = mt then addr - ra else 0) + (if meth (rs ! l) = mt then re - e else 0)) rng"
    and aff: "affected rs addr e mt f l ra re"
    using map_set_splice [OF sp ov] unfolding e_def mt_def rs_def by blast
  have fl: "f \<le> l" "l < length rs" and ra: "unat ra = S f" "ra \<le> addr" "unat addr \<le> S (Suc f)"
      "unat addr = S (Suc f) \<Longrightarrow> meth (rs ! f) = mt"
    and re: "unat re + 1 = S (Suc l)" "e \<le> re" "S l \<le> unat e + 1"
      "S l = unat e + 1 \<Longrightarrow> meth (rs ! l) = mt"
    using aff unfolding affected_def S_def by simp_all
  define ra' where "ra' = (if meth (rs ! f) = mt then addr else ra)"
  define re' where "re' = (if meth (rs ! l) = mt then e else re)"
  define ext where "ext = (if meth (rs ! f) = mt then addr - ra else 0)
    + (if meth (rs ! l) = mt then re - e else 0)"
  define L where "L = (if addr = ra' then [] else [(rs ! f)\<lparr>endoff := addr - ra' - 1\<rparr>])"
  define R where "R = (if re' = e then [] else [(rs ! l)\<lparr>endoff := re' - e - 1\<rparr>])"
  define N where "N = \<lparr>endoff = endoff rng + ext, meth = mt\<rparr>"
  have "map_splice True m (Some (f, l)) (length rs - l) (2 - int (l - f)) addr e ra' re' ext rng
      = (ADDRXLAT_OK, m')"
    using set spl map_splice_grown_irrelevant by (simp add: ra'_def re'_def ext_def)
  then have m': "ranges m' = take f rs @ L @ [N] @ R @ drop (Suc l) rs"
    using map_splice_Some [of f l m _ addr ra' re' e True ext rng] fl
    by (auto simp: rs_def L_def R_def N_def mt_def)
  have le: "S (Suc l) \<le> 2 ^ 64"
    using span_take_le [of "Suc l" rs] sp by (simp add: S_def rs_def)
  have Sl: "S (Suc l) - 1 = unat re"
    using re(1) by simp
  have L: "if meth (rs ! f) = mt \<or> unat addr = S f then L = []
      else \<exists>x. L = [x] \<and> usize x = unat addr - S f \<and> meth x = meth (rs ! f)"
    using ra(1,2) usize_cut [of ra addr] by (auto simp: L_def ra'_def word_unat_eq_iff order_less_le)
  have R: "if meth (rs ! l) = mt \<or> unat e + 1 = S (Suc l) then R = []
      else \<exists>y. R = [y] \<and> usize y = S (Suc l) - 1 - unat e \<and> meth y = meth (rs ! l)"
    using re(1,2) usize_cut [of e re] by (auto simp: R_def re'_def word_unat_eq_iff order_less_le)
  have N: "usize N = (unat e + 1 - unat addr) + (if meth (rs ! f) = mt then unat addr - S f else 0)
      + (if meth (rs ! l) = mt then S (Suc l) - 1 - unat e else 0)"
    unfolding Sl N_def ext_def e_def ra(1) [symmetric]
    using ov ra(2) re(2) by (intro usize_new) (simp_all add: e_def)
  have AE: "unat addr \<le> unat e" "S f \<le> unat addr" "unat e < S (Suc l)" "meth N = mt"
    using e ra(1,2) re(1,2) by (simp_all add: word_le_nat_alt N_def)
  note sb = spliced [OF fl AE(1) AE(2) [unfolded S_def] ra(3,4) [unfolded S_def]
      re(3) [unfolded S_def] AE(3) [unfolded S_def] re(4) [unfolded S_def]
      L [unfolded S_def] R [unfolded S_def] AE(4) N [unfolded S_def] m']
  show "span (ranges m') = 2 ^ 64"
    using sb(1) sp by (simp add: rs_def)
  show "seg_lookup (ranges m') x = (if unat addr \<le> x \<and> x \<le> unat addr + unat (endoff rng)
           then meth rng else seg_lookup (ranges m) x)"
    using sb(2) by (simp add: e mt_def rs_def)
  show "map_canon m'" if "map_canon m"
  proof -
    have "successively (\<lambda>a b. meth a \<noteq> meth b) (take f rs @ L @ [N] @ R @ drop (Suc l) rs)"
    proof (rule canon_splice [where mt = mt and A = "ra = addr" and B = "re = e", OF _ fl])
      show "successively (\<lambda>a b. meth a \<noteq> meth b) rs"
        using that by (simp add: map_canon_def rs_def)
      show "if meth (rs ! f) = mt \<or> ra = addr then L = [] else \<exists>x. L = [x] \<and> meth x = meth (rs ! f)"
        by (auto simp: L_def ra'_def)
      show "if meth (rs ! l) = mt \<or> re = e then R = [] else \<exists>y. R = [y] \<and> meth y = meth (rs ! l)"
        by (auto simp: R_def re'_def)
      show "meth N = mt"
        by (rule AE(4))
    qed (use aff in \<open>simp_all add: affected_def\<close>)
    then show ?thesis
      by (simp add: map_canon_def m')
  qed
qed

text \<open>
  An empty map behaves as one range without a method over the whole space, which is how the
  code starts it.
\<close>

definition whole :: range where
  "whole = \<lparr>endoff = ADDRXLAT_ADDR_MAX, meth = ADDRXLAT_SYS_METH_NONE\<rparr>"

lemma ADDR_MAX_top [simp]: "x \<le> ADDRXLAT_ADDR_MAX"
  by (simp add: ADDRXLAT_ADDR_MAX_def)

lemma usize_whole: "usize whole = 2 ^ 64"
  by (simp add: usize_def whole_def ADDRXLAT_ADDR_MAX_def unsigned_minus_1_eq_mask mask_eq_exp_minus_1)

lemma map_move_None:
  "0 < delta \<Longrightarrow> map_move [] None 0 delta addr e raddr rend new =
     map_move [whole] (Some (0, 0)) 1 (delta - 1) addr e raddr rend new"
  by (auto simp: map_move_def Let_def whole_def nat_diff_distrib)

lemma map_set_empty:
  assumes "ranges m = []"
  shows "map_set True m addr rng = map_set True (m\<lparr>ranges := [whole]\<rparr>) addr rng"
proof -
  have "map_set True (m\<lparr>ranges := [whole]\<rparr>) addr rng =
    (let e = addr + endoff rng in
     map_splice True (m\<lparr>ranges := [whole]\<rparr>) (Some (0, 0)) 1 2 addr e
       (if meth rng = ADDRXLAT_SYS_METH_NONE then addr else 0)
       (if meth rng = ADDRXLAT_SYS_METH_NONE then e else ADDRXLAT_ADDR_MAX)
       (if meth rng = ADDRXLAT_SYS_METH_NONE then addr + (ADDRXLAT_ADDR_MAX - e) else 0) rng)"
    by (simp add: map_set_def whole_def Let_def)
  then show ?thesis
    using assms
    by (simp add: map_set_def map_splice_def Let_def map_move_None algebra_simps)
qed

text \<open>Whether \<open>realloc\<close> succeeds only matters to the array surgery.\<close>

lemma map_set_is_splice:
  obtains pos left delta e raddr rend ext
  where "\<And>grown. map_set grown m addr rng = map_splice grown m pos left delta addr e raddr rend ext rng"
proof (cases "ranges m = []")
  case True
  then show ?thesis
    using that by (cases "meth rng = ADDRXLAT_SYS_METH_NONE") (simp_all add: map_set_def Let_def)
next
  case False
  define rs where "rs = ranges m"
  define e where "e = addr + endoff rng"
  obtain f0 ra0 lf0 where f0: "find_first rs addr (length rs) 0 0 = (f0, ra0, lf0)"
    by (metis prod_cases3)
  obtain f ra lf where f: "(f, ra, lf) = (if ra0 \<noteq> 0 \<and> ra0 = addr \<and> meth (rs ! (f0 - 1)) = meth rng
      then (f0 - 1, ra0 - (endoff (rs ! (f0 - 1)) + 1), lf0 + 1) else (f0, ra0, lf0))"
    by (metis prod_cases3)
  obtain l0 re0 lf1 dl0 where l0: "find_last rs e lf f (ra + endoff (rs ! f)) 2 = (l0, re0, lf1, dl0)"
    by (metis prod_cases4)
  obtain l re lf' dl where l: "(l, re, lf', dl) = (if lf1 > 1 \<and> re0 = e \<and> meth (rs ! (l0 + 1)) = meth rng
      then (l0 + 1, re0 + (endoff (rs ! (l0 + 1)) + 1), lf1 - 1, dl0 - 1) else (l0, re0, lf1, dl0))"
    by (metis prod_cases4)
  have "map_set grown m addr rng = map_splice grown m (Some (f, l)) lf' dl
       addr e (if meth (rs ! f) = meth rng then addr else ra) (if meth (rs ! l) = meth rng then e else re)
       ((if meth (rs ! f) = meth rng then addr - ra else 0)
         + (if meth (rs ! l) = meth rng then re - e else 0)) rng" for grown
    using False unfolding map_set_def
    by (simp add: Let_def e_def [symmetric] rs_def [symmetric] f0 f [symmetric]
        l0 l [symmetric] del: One_nat_def)
  then show ?thesis by (rule that)
qed

lemma map_set_ok_grown:
  assumes "map_set grown m addr rng = (ADDRXLAT_OK, m')"
  shows "map_set True m addr rng = (ADDRXLAT_OK, m')"
  using assms map_splice_grown_irrelevant by (rule_tac map_set_is_splice [of m addr rng]) metis

lemma map_set_cases:
  "map_set grown m addr rng = (st, m') \<Longrightarrow>
    st = ADDRXLAT_OK \<and> map_refcnt m' = map_refcnt m
    \<or> st = ADDRXLAT_ERR_NOMEM \<and> m' = m \<and> \<not> grown"
  using map_splice_cases by (rule_tac map_set_is_splice [of m addr rng]) metis

lemma map_set_spec:
  assumes wf: "map_wf m"
    and ov: "unat addr + unat (endoff rng) < 2 ^ 64"
    and set: "map_set grown m addr rng = (ADDRXLAT_OK, m')"
  shows "span (ranges m') = 2 ^ 64"
    and "map_abs m' x = (if addr \<le> x \<and> x \<le> addr + endoff rng then meth rng else map_abs m x)"
    and "map_canon m \<Longrightarrow> map_canon m'"
proof -
  define m0 where "m0 = (if ranges m = [] then m\<lparr>ranges := [whole]\<rparr> else m)"
  have sp: "span (ranges m0) = 2 ^ 64"
    using wf by (auto simp: m0_def map_wf_def usize_whole)
  have abs0: "seg_lookup (ranges m0) (unat x) = map_abs m x"
    using unat_u64_less [of x] by (simp add: m0_def map_abs_def usize_whole whole_def)
  have set0: "map_set True m0 addr rng = (ADDRXLAT_OK, m')"
    using map_set_ok_grown [OF set] map_set_empty [of m addr rng] by (simp add: m0_def)
  show "span (ranges m') = 2 ^ 64"
    by (rule map_set_spec_nonempty(1) [OF sp ov set0])
  have "unat (addr + endoff rng) = unat addr + unat (endoff rng)"
    using ov by (simp add: unat_plus_no_overflow)
  then show "map_abs m' x = (if addr \<le> x \<and> x \<le> addr + endoff rng then meth rng else map_abs m x)"
    using map_set_spec_nonempty(2) [OF sp ov set0, of "unat x"] abs0
    by (simp add: map_abs_def word_le_nat_alt)
  show "map_canon m'" if "map_canon m"
    using map_set_spec_nonempty(3) [OF sp ov set0] that by (simp add: m0_def map_canon_def)
qed

subsection \<open>The interface of a translation map\<close>

text \<open>
  What the layout code of the translation systems relies on: a map is searched and updated
  through two operations, and an update either happens as a whole or not at all.
\<close>

locale translation_map =
  fixes wf :: "'m \<Rightarrow> bool"
    and search :: "'m \<Rightarrow> addr_t \<Rightarrow> sys_meth"
    and update :: "bool \<Rightarrow> 'm \<Rightarrow> addr_t \<Rightarrow> range \<Rightarrow> status \<times> 'm"
  assumes update_ok:
    "wf m \<Longrightarrow> unat addr + unat (endoff rng) < 2 ^ 64 \<Longrightarrow> update grown m addr rng = (ADDRXLAT_OK, m') \<Longrightarrow>
     wf m' \<and> search m' x = (if addr \<le> x \<and> x \<le> addr + endoff rng then meth rng else search m x)"
    and update_fail:
    "update grown m addr rng = (st, m') \<Longrightarrow> st \<noteq> ADDRXLAT_OK \<Longrightarrow>
     st = ADDRXLAT_ERR_NOMEM \<and> m' = m \<and> \<not> grown"
begin

lemma update_total: "\<exists>m'. update True m addr rng = (ADDRXLAT_OK, m')"
  using update_fail [of True m addr rng] by (cases "update True m addr rng") blast

lemma update_wf:
  "wf m \<Longrightarrow> unat addr + unat (endoff rng) < 2 ^ 64 \<Longrightarrow> wf (snd (update grown m addr rng))"
  using update_ok [of m addr rng grown] update_fail [of grown m addr rng]
  by (cases "update grown m addr rng") auto

lemma update_commute:
  assumes "wf m" and "unat a + unat (endoff r) < 2 ^ 64" and "unat b + unat (endoff q) < 2 ^ 64"
    and "a + endoff r < b \<or> b + endoff q < a"
    and "update g1 m a r = (ADDRXLAT_OK, m1)" and "update g2 m1 b q = (ADDRXLAT_OK, m2)"
    and "update h1 m b q = (ADDRXLAT_OK, n1)" and "update h2 n1 a r = (ADDRXLAT_OK, n2)"
  shows "search m2 x = search n2 x"
proof -
  have "wf m1" "wf n1"
    using update_ok assms(1-3,5,7) by blast+
  then show ?thesis
    using update_ok [OF assms(1,2,5)] update_ok [OF _ assms(3,6)] update_ok [OF assms(1,3,7)]
      update_ok [OF _ assms(2,8)] assms(4) by auto
qed

end

interpretation xm: translation_map map_wf map_search map_set
proof
  fix m addr rng grown m' x
  assume wf: "map_wf m" and ov: "unat addr + unat (endoff rng) < 2 ^ 64"
    and set: "map_set grown m addr rng = (ADDRXLAT_OK, m')"
  have "map_wf m'"
    using map_set_spec(1) [OF wf ov set] by (simp add: map_wf_def)
  then show "map_wf m' \<and> map_search m' x
      = (if addr \<le> x \<and> x \<le> addr + endoff rng then meth rng else map_search m x)"
    using map_set_spec(2) [OF wf ov set] wf by (simp add: map_search_abs)
qed (use map_set_cases in blast)

subsection \<open>Properties of the maps\<close>

text \<open>
  C3. After a successful \<open>addrxlat_map_set\<close> of a range that does not wrap, the map still covers
  the address space exactly once, and \<open>addrxlat_map_search\<close> finds the new method exactly
  inside the range and what it found before everywhere else.
\<close>

theorem map_search_after_set:
  assumes "map_wf m" and "unat addr + unat (endoff rng) < 2 ^ 64"
    and "map_set grown m addr rng = (ADDRXLAT_OK, m')"
  shows "map_wf m' \<and> map_search m' x
    = (if addr \<le> x \<and> x \<le> addr + endoff rng then meth rng else map_search m x)"
  using assms by (rule xm.update_ok)

definition example_map :: xmap where
  "example_map = \<lparr>map_refcnt = 1, ranges =
     [\<lparr>endoff = 0xfff, meth = ADDRXLAT_SYS_METH_NONE\<rparr>,
      \<lparr>endoff = 0xfff, meth = ADDRXLAT_SYS_METH_DIRECT\<rparr>,
      \<lparr>endoff = 0xffffffffffffdfff, meth = ADDRXLAT_SYS_METH_NONE\<rparr>]\<rparr>"

lemma example_map_wf: "map_wf example_map"
  by (simp add: example_map_def map_wf_def usize_def)

lemma map_search_after_set_witness:
  "map_search (snd (map_set True example_map 0x1800
      \<lparr>endoff = 0xfff, meth = ADDRXLAT_SYS_METH_PGT\<rparr>)) 0x17ff = ADDRXLAT_SYS_METH_DIRECT"
proof -
  let ?r = "\<lparr>endoff = 0xfff, meth = ADDRXLAT_SYS_METH_PGT\<rparr>"
  have ok: "map_set True example_map 0x1800 ?r =
      (ADDRXLAT_OK, snd (map_set True example_map 0x1800 ?r))"
    by code_simp
  show ?thesis
    using map_search_after_set [where x = "0x17ff", OF example_map_wf _ ok]
    by (simp add: example_map_def map_search_def)
qed

text \<open>
  C14. \<open>addrxlat_map_set\<close> keeps the representation minimal: if no two adjacent ranges have the
  same method before the call, none have after it.
\<close>

theorem map_set_canonical:
  assumes "map_wf m" and "map_canon m" and "unat addr + unat (endoff rng) < 2 ^ 64"
    and "map_set grown m addr rng = (ADDRXLAT_OK, m')"
  shows "map_canon m'"
  using map_set_spec(3) [OF assms(1,3,4)] assms(2) by blast

lemma map_set_canonical_witness:
  "map_canon (snd (map_set True example_map 0x1800
      \<lparr>endoff = 0x7ff, meth = ADDRXLAT_SYS_METH_NONE\<rparr>))"
proof -
  let ?r = "\<lparr>endoff = 0x7ff, meth = ADDRXLAT_SYS_METH_NONE\<rparr>"
  have ok: "map_set True example_map 0x1800 ?r =
      (ADDRXLAT_OK, snd (map_set True example_map 0x1800 ?r))"
    by code_simp
  have "map_canon example_map"
    by (simp add: map_canon_def example_map_def)
  then show ?thesis
    using map_set_canonical [OF example_map_wf _ _ ok] by simp
qed

text \<open>
  C15. A failing \<open>addrxlat_map_set\<close> has run out of memory and has changed nothing; it cannot fail
  while \<open>realloc\<close> succeeds.
\<close>

theorem map_set_all_or_nothing:
  assumes "map_set grown m addr rng = (st, m')" and "st \<noteq> ADDRXLAT_OK"
  shows "st = ADDRXLAT_ERR_NOMEM \<and> m' = m \<and> \<not> grown"
  using assms by (rule xm.update_fail)

lemma map_set_all_or_nothing_witness:
  "map_set False example_map 0x1800 \<lparr>endoff = 0xf, meth = ADDRXLAT_SYS_METH_PGT\<rparr>
     = (ADDRXLAT_ERR_NOMEM, example_map)"
proof -
  let ?s = "map_set False example_map 0x1800 \<lparr>endoff = 0xf, meth = ADDRXLAT_SYS_METH_PGT\<rparr>"
  have "fst ?s \<noteq> ADDRXLAT_OK"
    by code_simp
  then show ?thesis
    using map_set_all_or_nothing [where st = "fst ?s" and m' = "snd ?s"]
    by (metis prod.collapse)
qed

end
