(* ===== verification/Read_Cache.thy ===== *)
theory Read_Cache
  imports Xlat_Types "HOL-Library.Multiset"
begin

section \<open>The read cache of a translation context (src/addrxlat/ctx.c)\<close>

text \<open>
  Four slots in an array, linked to a ring in the order of their last use. Pointers to slots
  are array indices. The ring is refined to a list of slots, most recently used first; the
  contents are refined to the memory behind the page callback: whatever the cache holds, a
  read gives the bytes the callback would give.
\<close>

record slot =
  slot_buf :: buffer
  prv :: nat
  nxt :: nat

text \<open>
  \<open>puts\<close> logs the calls of the \<open>put_page\<close> functions the page callback has set, latest first.
\<close>

record read_cache =
  mru :: nat
  slots :: "slot list"
  puts :: "buffer list"

definition READ_CACHE_SLOTS :: nat where
  "READ_CACHE_SLOTS = 4"

subsection \<open>Initialisation and clean-up\<close>

text \<open>The memory of a new context is zeroed.\<close>

definition zero_buffer :: buffer where
  "zero_buffer = \<lparr>buf_addr = \<lparr>fa_addr = 0, fa_as = ADDRXLAT_KPHYSADDR\<rparr>, buf_ptr = None,
     buf_size = 0, buf_order = ADDRXLAT_BIG_ENDIAN, buf_put = False\<rparr>"

definition zero_cache :: read_cache where
  "zero_cache = \<lparr>mru = 0,
     slots = replicate READ_CACHE_SLOTS \<lparr>slot_buf = zero_buffer, prv = 0, nxt = 0\<rparr>, puts = []\<rparr>"

definition init_slot :: "nat \<Rightarrow> slot list \<Rightarrow> slot list" where
  "init_slot i ss =
     (let n = (if i + 1 < READ_CACHE_SLOTS then i + 1 else 0);
          ss = ss[i := (ss ! i)\<lparr>nxt := n\<rparr>]
      in ss[n := (ss ! n)\<lparr>prv := i\<rparr>])"

definition init_cache :: "read_cache \<Rightarrow> read_cache" where
  "init_cache c = c\<lparr>mru := 0, slots := fold init_slot [0..<READ_CACHE_SLOTS] (slots c)\<rparr>"

definition put_page :: "buffer \<Rightarrow> read_cache \<Rightarrow> read_cache" where
  "put_page b c = (if buf_put b then c\<lparr>puts := b # puts c\<rparr> else c)"

definition free_slot :: "buffer \<Rightarrow> read_cache \<Rightarrow> read_cache" where
  "free_slot b c = (if buf_size b \<noteq> 0 then put_page b c else c)"

definition cleanup_cache :: "read_cache \<Rightarrow> read_cache" where
  "cleanup_cache c = fold (\<lambda>s. free_slot (slot_buf s)) (slots c) c"

subsection \<open>The ring\<close>

text \<open>Assignments through slot pointers.\<close>

definition set_nxt :: "nat \<Rightarrow> nat \<Rightarrow> read_cache \<Rightarrow> read_cache" where
  "set_nxt i v c = c\<lparr>slots := (slots c)[i := (slots c ! i)\<lparr>nxt := v\<rparr>]\<rparr>"

definition set_prv :: "nat \<Rightarrow> nat \<Rightarrow> read_cache \<Rightarrow> read_cache" where
  "set_prv i v c = c\<lparr>slots := (slots c)[i := (slots c ! i)\<lparr>prv := v\<rparr>]\<rparr>"

definition set_buf :: "nat \<Rightarrow> buffer \<Rightarrow> read_cache \<Rightarrow> read_cache" where
  "set_buf i b c = c\<lparr>slots := (slots c)[i := (slots c ! i)\<lparr>slot_buf := b\<rparr>]\<rparr>"

text \<open>The six assignments that take a slot out of the ring and link it in before \<open>mru\<close>.\<close>

definition relink :: "nat \<Rightarrow> read_cache \<Rightarrow> read_cache" where
  "relink s c =
     (let c = set_nxt (prv (slots c ! s)) (nxt (slots c ! s)) c;
          c = set_prv (nxt (slots c ! s)) (prv (slots c ! s)) c;
          c = set_nxt s (mru c) c;
          c = set_prv s (prv (slots c ! mru c)) c;
          c = set_prv (nxt (slots c ! s)) s c
      in set_nxt (prv (slots c ! s)) s c)"

definition touch_cache_slot :: "nat \<Rightarrow> read_cache \<Rightarrow> read_cache" where
  "touch_cache_slot s c =
     (if s = mru c then c
      else (if nxt (slots c ! s) \<noteq> mru c then relink s c else c)\<lparr>mru := s\<rparr>)"

subsection \<open>Finding and filling slots\<close>

definition slot_hit :: "fulladdr \<Rightarrow> buffer \<Rightarrow> bool" where
  "slot_hit addr b \<longleftrightarrow>
     fa_addr addr - fa_addr (buf_addr b) < buf_size b \<and> fa_as (buf_addr b) = fa_as addr"

fun find_slot :: "slot list \<Rightarrow> fulladdr \<Rightarrow> nat \<Rightarrow> nat option" where
  "find_slot [] addr i = None"
| "find_slot (s # ss) addr i =
     (if slot_hit addr (slot_buf s) then Some i else find_slot ss addr (Suc i))"

text \<open>
  \<open>get_cache_buf\<close> gets the page callback as a function from the buffer it is given to its
  status, the buffer it leaves and the messages it adds. Its results are the status, the slot
  whose buffer \<open>pbuf\<close> points to (on success), the messages added to the context and the new
  cache. \<open>cache_out\<close> is the code behind the label \<open>out\<close>.
\<close>

type_synonym get_page_fn = "buffer \<Rightarrow> (status \<times> buffer \<times> msg list) option"

definition cache_out :: "nat \<Rightarrow> msg list \<Rightarrow> read_cache \<Rightarrow> status \<times> nat \<times> msg list \<times> read_cache" where
  "cache_out i msgs c =
     (if buf_ptr (slot_buf (slots c ! i)) = None
      then (ADDRXLAT_ERR_NODATA, i, (''Infinite read recursion'', []) # msgs, c)
      else (ADDRXLAT_OK, i, msgs, touch_cache_slot i c))"

definition get_cache_buf ::
  "get_page_fn \<Rightarrow> fulladdr \<Rightarrow> read_cache \<Rightarrow> (status \<times> nat \<times> msg list \<times> read_cache) option" where
  "get_cache_buf get_page addr c =
     (case find_slot (slots c) addr 0 of
        Some i \<Rightarrow> Some (cache_out i [] c)
      | None \<Rightarrow>
          let i = prv (slots c ! mru c);
              b = slot_buf (slots c ! i);
              c = free_slot b c
          in do {
            (status, b, msgs) \<leftarrow> get_page (b\<lparr>buf_addr := addr, buf_ptr := None, buf_put := False\<rparr>);
            Some (if status \<noteq> ADDRXLAT_OK
                  then (status, i, msgs, set_buf i (b\<lparr>buf_size := 0\<rparr>) c)
                  else cache_out i msgs (set_buf i b c))
          })"

definition bury_cache_buffer :: "fulladdr \<Rightarrow> read_cache \<Rightarrow> read_cache" where
  "bury_cache_buffer addr c =
     (case find_slot (slots c) addr 0 of
        None \<Rightarrow> c
      | Some s \<Rightarrow>
          if nxt (slots c ! s) = mru c then c
          else if s \<noteq> mru c then relink s c
          else c\<lparr>mru := nxt (slots c ! s)\<rparr>)"

subsection \<open>The ring is the list of slots in the order of their last use\<close>

definition ring :: "read_cache \<Rightarrow> nat list \<Rightarrow> bool" where
  "ring c ord \<longleftrightarrow> length (slots c) = 4 \<and>
     (case ord of
        [p, q, r, s] \<Rightarrow>
          p < 4 \<and> q < 4 \<and> r < 4 \<and> s < 4 \<and> distinct [p, q, r, s] \<and> mru c = p
          \<and> nxt (slots c ! p) = q \<and> nxt (slots c ! q) = r \<and> nxt (slots c ! r) = s \<and> nxt (slots c ! s) = p
          \<and> prv (slots c ! p) = s \<and> prv (slots c ! q) = p \<and> prv (slots c ! r) = q \<and> prv (slots c ! s) = r
      | _ \<Rightarrow> False)"

lemma ring_cases:
  assumes "ring c ord"
  obtains p q r s where "ord = [p, q, r, s]"
  using assms by (auto simp: ring_def split: list.splits)

lemma nth_upd: "xs[i := x] ! j = (if i = j \<and> i < length xs then x else xs ! j)"
  by (cases "i < length xs") (auto simp: list_update_beyond)

lemma cache_assign_simps [simp]:
  "length (slots (set_nxt i v c)) = length (slots c)"
  "length (slots (set_prv i v c)) = length (slots c)"
  "length (slots (set_buf i b c)) = length (slots c)"
  "mru (set_nxt i v c) = mru c" "mru (set_prv i v c) = mru c" "mru (set_buf i b c) = mru c"
  "puts (set_nxt i v c) = puts c" "puts (set_prv i v c) = puts c" "puts (set_buf i b c) = puts c"
  "i < length (slots c) \<Longrightarrow> nxt (slots (set_nxt i v c) ! j) = (if i = j then v else nxt (slots c ! j))"
  "i < length (slots c) \<Longrightarrow> prv (slots (set_prv i v c) ! j) = (if i = j then v else prv (slots c ! j))"
  "nxt (slots (set_prv i v c) ! j) = nxt (slots c ! j)"
  "prv (slots (set_nxt i v c) ! j) = prv (slots c ! j)"
  "nxt (slots (set_buf i b c) ! j) = nxt (slots c ! j)"
  "prv (slots (set_buf i b c) ! j) = prv (slots c ! j)"
  "slot_buf (slots (set_nxt i v c) ! j) = slot_buf (slots c ! j)"
  "slot_buf (slots (set_prv i v c) ! j) = slot_buf (slots c ! j)"
  "i < length (slots c) \<Longrightarrow>
     slot_buf (slots (set_buf i b c) ! j) = (if i = j then b else slot_buf (slots c ! j))"
  by (simp_all add: set_nxt_def set_prv_def set_buf_def nth_upd)

lemma relink_second: "ring c [p, q, r, s] \<Longrightarrow> ring (relink q c) [p, r, s, q]"
  by (simp add: ring_def relink_def Let_def)

lemma relink_third: "ring c [p, q, r, s] \<Longrightarrow> ring (relink r c) [p, q, s, r]"
  by (simp add: ring_def relink_def Let_def)

lemma slot_ring_rotate: "ring c [p, q, r, s] \<Longrightarrow> ring (c\<lparr>mru := q\<rparr>) [q, r, s, p]"
  by (simp add: ring_def)

lemma slot_ring_rotate_back: "ring c [p, q, r, s] \<Longrightarrow> ring (c\<lparr>mru := s\<rparr>) [s, p, q, r]"
  by (simp add: ring_def)

text \<open>The buffers, and the two reorderings of the ring as list operations.\<close>

definition bufs :: "read_cache \<Rightarrow> buffer list" where
  "bufs c = map slot_buf (slots c)"

lemma bufs_eqI:
  "length (slots c) = length (slots d) \<Longrightarrow>
   (\<And>i. i < length (slots c) \<Longrightarrow> slot_buf (slots c ! i) = slot_buf (slots d ! i)) \<Longrightarrow> bufs c = bufs d"
  by (auto simp: bufs_def intro: nth_equalityI)

lemma bufs_relink [simp]: "bufs (relink s c) = bufs c"
  by (rule bufs_eqI) (simp_all add: relink_def Let_def)

lemma bufs_mru [simp]: "bufs (c\<lparr>mru := i\<rparr>) = bufs c"
  by (simp add: bufs_def)

lemma bufs_set_buf: "i < length (slots c) \<Longrightarrow> bufs (set_buf i b c) = (bufs c)[i := b]"
  by (simp add: bufs_def set_buf_def map_update)

lemma relink_puts [simp]: "puts (relink s c) = puts c"
  by (simp add: relink_def Let_def)

lemma bufs_touch [simp]: "bufs (touch_cache_slot s c) = bufs c"
  by (simp add: touch_cache_slot_def)

lemma puts_touch [simp]: "puts (touch_cache_slot s c) = puts c"
  by (simp add: touch_cache_slot_def)

lemma bufs_bury [simp]: "bufs (bury_cache_buffer addr c) = bufs c"
  by (simp add: bury_cache_buffer_def split: option.split)

lemma puts_bury [simp]: "puts (bury_cache_buffer addr c) = puts c"
  by (simp add: bury_cache_buffer_def split: option.split)

lemma ring_length: "ring c ord \<Longrightarrow> length (slots c) = 4 \<and> length (bufs c) = 4"
  by (simp add: ring_def bufs_def)

lemma ring_mem: "ring c ord \<Longrightarrow> s < 4 \<Longrightarrow> s \<in> set ord"
proof -
  assume R: "ring c ord" and "s < 4"
  obtain p q r t where ord: "ord = [p, q, r, t]"
    using ring_cases [OF R] .
  have d: "distinct [p, q, r, t]" and sub: "set [p, q, r, t] \<subseteq> {..<4}"
    using R by (simp_all add: ring_def ord)
  have "card (set [p, q, r, t]) = card {..<4 :: nat}"
    using distinct_card [OF d] by simp
  then have "set [p, q, r, t] = {..<4}"
    using sub by (intro card_subset_eq) simp_all
  then show ?thesis
    using \<open>s < 4\<close> ord by auto
qed

lemma ring_set_buf [simp]: "ring (set_buf i b c) ord = ring c ord"
  by (simp add: ring_def cong: list.case_cong)

lemma ring_free_slot [simp]: "ring (free_slot b c) ord = ring c ord"
  by (simp add: ring_def free_slot_def put_page_def cong: list.case_cong)

lemma bufs_free_slot [simp]: "bufs (free_slot b c) = bufs c" "slots (free_slot b c) = slots c"
  by (simp_all add: bufs_def free_slot_def put_page_def)

definition move_front :: "nat \<Rightarrow> nat list \<Rightarrow> nat list" where
  "move_front s ord = s # remove1 s ord"

definition move_back :: "nat \<Rightarrow> nat list \<Rightarrow> nat list" where
  "move_back s ord = remove1 s ord @ [s]"

lemma touch_ring:
  assumes "ring c ord" and "s < 4"
  shows "ring (touch_cache_slot s c) (move_front s ord)"
proof -
  obtain p q r t where ord: "ord = [p, q, r, t]"
    using ring_cases [OF assms(1)] .
  have R: "ring c [p, q, r, t]"
    using assms(1) ord by simp
  have F: "p \<noteq> q" "p \<noteq> r" "p \<noteq> t" "q \<noteq> r" "q \<noteq> t" "r \<noteq> t" "mru c = p"
      "nxt (slots c ! q) = r" "nxt (slots c ! r) = t" "nxt (slots c ! t) = p"
    using R by (simp_all add: ring_def)
  consider "s = p" | "s = q" | "s = r" | "s = t"
    using ring_mem [OF assms] ord by auto
  then show ?thesis
  proof cases
    case 1
    then show ?thesis
      using R F by (simp add: ord touch_cache_slot_def move_front_def)
  next
    case 2
    then show ?thesis
      using relink_second [OF R, THEN slot_ring_rotate_back] F
      by (simp add: ord touch_cache_slot_def move_front_def)
  next
    case 3
    then show ?thesis
      using relink_third [OF R, THEN slot_ring_rotate_back] F
      by (simp add: ord touch_cache_slot_def move_front_def)
  next
    case 4
    then show ?thesis
      using slot_ring_rotate_back [OF R] F
      by (simp add: ord touch_cache_slot_def move_front_def)
  qed
qed

lemma bury_ring:
  assumes "ring c ord" and "find_slot (slots c) addr 0 = Some s" and "s < 4"
  shows "ring (bury_cache_buffer addr c) (move_back s ord)"
proof -
  obtain p q r t where ord: "ord = [p, q, r, t]"
    using ring_cases [OF assms(1)] .
  have R: "ring c [p, q, r, t]"
    using assms(1) ord by simp
  have F: "p \<noteq> q" "p \<noteq> r" "p \<noteq> t" "q \<noteq> r" "q \<noteq> t" "r \<noteq> t" "mru c = p"
      "nxt (slots c ! p) = q" "nxt (slots c ! q) = r" "nxt (slots c ! r) = t" "nxt (slots c ! t) = p"
    using R by (simp_all add: ring_def)
  consider "s = p" | "s = q" | "s = r" | "s = t"
    using ring_mem [OF assms(1,3)] ord by auto
  then show ?thesis
  proof cases
    case 1
    then show ?thesis
      using slot_ring_rotate [OF R] F assms(2) by (simp add: ord bury_cache_buffer_def move_back_def)
  next
    case 2
    then show ?thesis
      using relink_second [OF R] F assms(2) by (simp add: ord bury_cache_buffer_def move_back_def)
  next
    case 3
    then show ?thesis
      using relink_third [OF R] F assms(2) by (simp add: ord bury_cache_buffer_def move_back_def)
  next
    case 4
    then show ?thesis
      using R F assms(2) by (simp add: ord bury_cache_buffer_def move_back_def)
  qed
qed

lemma init_cache_ring: "ring (init_cache zero_cache) [0, 1, 2, 3]"
  by code_simp

lemma victim_ring: "ring c ord \<Longrightarrow> prv (slots c ! mru c) = last ord \<and> last ord < 4"
  by (rule ring_cases [of c ord]) (simp_all add: ring_def)

lemma find_slot_Some:
  "find_slot ss addr i = Some j \<Longrightarrow> i \<le> j \<and> j < i + length ss \<and> slot_hit addr (slot_buf (ss ! (j - i)))"
proof (induction ss arbitrary: i)
  case Nil
  then show ?case by simp
next
  case (Cons s ss)
  show ?case
  proof (cases "slot_hit addr (slot_buf s)")
    case True
    then show ?thesis using Cons.prems by simp
  next
    case False
    then have "Suc i \<le> j \<and> j < Suc i + length ss \<and> slot_hit addr (slot_buf (ss ! (j - Suc i)))"
      using Cons.prems Cons.IH [of "Suc i"] by simp
    then show ?thesis
      by (auto simp: nth_Cons' Suc_diff_Suc)
  qed
qed

lemma find_slot_hit:
  assumes "ring c ord" and "find_slot (slots c) addr 0 = Some j"
  shows "j < 4 \<and> slot_hit addr (bufs c ! j)"
  using find_slot_Some [OF assms(2)] ring_length [OF assms(1)] by (simp add: bufs_def)

subsection \<open>The cache is transparent\<close>

text \<open>
  \<open>mem\<close> is the memory behind the page callback and \<open>mo\<close> its byte order. A buffer is a page of
  the memory if it holds the bytes at its address and is aligned to words; a page source gives such pages, covering
  the address asked for, or fails. The cache is sound if every buffer with a size is a page.
\<close>

definition buf_at :: "buffer \<Rightarrow> nat \<Rightarrow> fulladdr" where
  "buf_at b k = \<lparr>fa_addr = fa_addr (buf_addr b) + of_nat k, fa_as = fa_as (buf_addr b)\<rparr>"

definition page_of :: "(fulladdr \<Rightarrow> u8) \<Rightarrow> (fulladdr \<Rightarrow> byte_order) \<Rightarrow> buffer \<Rightarrow> bool" where
  "page_of mem mo b \<longleftrightarrow>
     (\<exists>bs. buf_ptr b = Some bs \<and> length bs = unat (buf_size b)
       \<and> 8 dvd unat (fa_addr (buf_addr b)) \<and> 8 dvd length bs
       \<and> (\<forall>k<length bs. bs ! k = mem (buf_at b k) \<and> mo (buf_at b k) = buf_order b))"

definition page_source :: "get_page_fn \<Rightarrow> (fulladdr \<Rightarrow> u8) \<Rightarrow> (fulladdr \<Rightarrow> byte_order) \<Rightarrow> bool" where
  "page_source get_page mem mo \<longleftrightarrow>
     (\<forall>b. \<exists>status b' msgs. get_page b = Some (status, b', msgs)
       \<and> (status = ADDRXLAT_OK \<longrightarrow> page_of mem mo b' \<and> slot_hit (buf_addr b) b'))"

definition cache_ok :: "(fulladdr \<Rightarrow> u8) \<Rightarrow> (fulladdr \<Rightarrow> byte_order) \<Rightarrow> read_cache \<Rightarrow> bool" where
  "cache_ok mem mo c \<longleftrightarrow>
     (\<exists>ord. ring c ord) \<and> (\<forall>b\<in>set (bufs c). buf_size b \<noteq> 0 \<longrightarrow> page_of mem mo b)"

lemma cache_out_ok:
  assumes "ring c ord" and "i < 4" and "page_of mem mo (bufs c ! i)"
  shows "cache_out i msgs c = (ADDRXLAT_OK, i, msgs, touch_cache_slot i c)"
  using assms ring_length [OF assms(1)] by (auto simp: cache_out_def page_of_def bufs_def)

lemma slot_hit_size: "slot_hit addr b \<Longrightarrow> buf_size b \<noteq> 0"
  by (auto simp: slot_hit_def)

lemma cache_ok_touch: "cache_ok mem mo c \<Longrightarrow> i < 4 \<Longrightarrow> cache_ok mem mo (touch_cache_slot i c)"
  using touch_ring by (auto simp: cache_ok_def)

lemma bury_ring_ex: "ring c ord \<Longrightarrow> \<exists>ord'. ring (bury_cache_buffer addr c) ord'"
  using bury_ring find_slot_hit
  by (cases "find_slot (slots c) addr 0") (fastforce simp: bury_cache_buffer_def)+

lemma cache_ok_bury: "cache_ok mem mo c \<Longrightarrow> cache_ok mem mo (bury_cache_buffer addr c)"
  using bury_ring_ex by (auto simp: cache_ok_def)

lemma cache_ok_set_buf:
  assumes "cache_ok mem mo c" and "i < 4" and "buf_size b \<noteq> 0 \<Longrightarrow> page_of mem mo b"
  shows "cache_ok mem mo (set_buf i b c)"
proof -
  obtain ord where "ring c ord"
    using assms(1) by (auto simp: cache_ok_def)
  then have "bufs (set_buf i b c) = (bufs c)[i := b]"
    using assms(2) by (simp add: bufs_set_buf ring_length)
  then show ?thesis
    using assms set_update_subset_insert [of "bufs c" i b] by (auto simp: cache_ok_def)
qed

lemma cache_ok_init: "cache_ok mem mo (init_cache zero_cache)"
proof -
  have "\<forall>b\<in>set (bufs (init_cache zero_cache)). buf_size b = 0"
    by code_simp
  then show ?thesis
    using init_cache_ring by (auto simp: cache_ok_def)
qed

text \<open>
  \<open>get_cache_buf\<close> on a sound cache: it returns, keeps the cache sound, and either gives a buffer
  with the bytes at the address or fails with the status of the callback.
\<close>

lemma get_cache_buf_spec:
  assumes src: "page_source get_page mem mo" and ok: "cache_ok mem mo c"
  obtains status i msgs c' where "get_cache_buf get_page addr c = Some (status, i, msgs, c')"
    and "cache_ok mem mo c'"
    and "status = ADDRXLAT_OK \<Longrightarrow>
           i < 4 \<and> slot_hit addr (bufs c' ! i) \<and> page_of mem mo (bufs c' ! i)"
    and "status \<noteq> ADDRXLAT_OK \<Longrightarrow> \<exists>b b'. get_page b = Some (status, b', msgs) \<and> buf_addr b = addr"
proof -
  obtain ord where R: "ring c ord"
    using ok by (auto simp: cache_ok_def)
  show ?thesis
  proof (cases "find_slot (slots c) addr 0")
    case (Some j)
    then have j: "j < 4" "slot_hit addr (bufs c ! j)"
      using find_slot_hit [OF R] by auto
    then have pg: "page_of mem mo (bufs c ! j)"
      using ok slot_hit_size ring_length [OF R] by (auto simp: cache_ok_def)
    have "get_cache_buf get_page addr c = Some (ADDRXLAT_OK, j, [], touch_cache_slot j c)"
      using Some cache_out_ok [OF R j(1) pg] by (simp add: get_cache_buf_def)
    then show ?thesis
      by (rule that) (use j pg cache_ok_touch [OF ok] in auto)
  next
    case None
    define i where "i = prv (slots c ! mru c)"
    define b where "b = slot_buf (slots c ! i)"
    define c1 where "c1 = free_slot b c"
    define b0 where "b0 = b\<lparr>buf_addr := addr, buf_ptr := None, buf_put := False\<rparr>"
    obtain status b' msgs where gp: "get_page b0 = Some (status, b', msgs)"
      "status = ADDRXLAT_OK \<Longrightarrow> page_of mem mo b' \<and> slot_hit (buf_addr b0) b'"
      using src unfolding page_source_def by blast
    have i: "i < 4"
      using victim_ring [OF R] by (simp add: i_def)
    have R1: "ring c1 ord" and ok1: "cache_ok mem mo c1"
      using R ok by (auto simp: c1_def cache_ok_def)
    have b0: "buf_addr b0 = addr"
      by (simp add: b0_def)
    show ?thesis
    proof (cases "status = ADDRXLAT_OK")
      case True
      have nb: "bufs (set_buf i b' c1) ! i = b'"
        using i ring_length [OF R1] by (simp add: bufs_set_buf)
      have "get_cache_buf get_page addr c = Some (cache_out i msgs (set_buf i b' c1))"
        using None gp(1) True
        by (simp add: get_cache_buf_def Let_def i_def [symmetric] b_def [symmetric]
            c1_def [symmetric] b0_def [symmetric])
      also have "cache_out i msgs (set_buf i b' c1)
          = (ADDRXLAT_OK, i, msgs, touch_cache_slot i (set_buf i b' c1))"
        using gp(2) True i R1 nb by (intro cache_out_ok [where mem = mem and mo = mo]) simp_all
      finally show ?thesis
        by (rule that)
           (use True gp(2) i nb b0 cache_ok_touch cache_ok_set_buf [OF ok1 i, of b'] in auto)
    next
      case False
      then have "get_cache_buf get_page addr c
          = Some (status, i, msgs, set_buf i (b'\<lparr>buf_size := 0\<rparr>) c1)"
        using None gp(1)
        by (simp add: get_cache_buf_def Let_def i_def [symmetric] b_def [symmetric]
            c1_def [symmetric] b0_def [symmetric])
      then show ?thesis
        by (rule that)
           (use False gp(1) b0 cache_ok_set_buf [OF ok1 i, of "b'\<lparr>buf_size := 0\<rparr>"] in auto)
    qed
  qed
qed

subsection \<open>Every page is released\<close>

text \<open>
  A page is held by the library from the \<open>get_page\<close> call that returns it until its
  \<open>put_page\<close> function is called.
\<close>

definition is_page :: "buffer \<Rightarrow> bool" where
  "is_page b \<longleftrightarrow> buf_size b \<noteq> 0 \<and> buf_put b"

definition held :: "read_cache \<Rightarrow> buffer multiset" where
  "held c = filter_mset is_page (mset (bufs c)) + mset (puts c)"

lemma held_touch [simp]: "held (touch_cache_slot i c) = held c"
  by (simp add: held_def)

lemma held_bury [simp]: "held (bury_cache_buffer addr c) = held c"
  by (simp add: held_def)

lemma held_cache_out: "cache_out i msgs c = (st, j, msgs', c') \<Longrightarrow> held c' = held c"
  by (auto simp: cache_out_def split: if_splits)

lemma ring_cache_out: "ring c ord \<Longrightarrow> i < 4 \<Longrightarrow> cache_out i msgs c = (st, j, msgs', c') \<Longrightarrow> \<exists>ord'. ring c' ord'"
  using touch_ring by (auto simp: cache_out_def split: if_splits)

lemma held_replace:
  assumes "i < length (slots c)" and "b = bufs c ! i"
  shows "held (set_buf i b' (free_slot b c))
    = held c + (if is_page b' then {#b'#} else {#})"
proof -
  have i: "i < length (bufs c)"
    using assms(1) by (simp add: bufs_def)
  then have old: "mset (bufs c) = add_mset b (mset (bufs c) - {#b#})"
    using assms(2) by (simp add: insert_DiffM)
  have new: "mset ((bufs c)[i := b']) = add_mset b' (mset (bufs c) - {#b#})"
    using i assms(2) by (simp add: mset_update)
  define c1 where "c1 = free_slot b c"
  have "held (set_buf i b' c1) = filter_mset is_page (mset ((bufs c)[i := b'])) + mset (puts c1)"
    using assms(1) by (simp add: held_def bufs_set_buf c1_def)
  also have "mset (puts c1) = mset (puts c) + (if is_page b then {#b#} else {#})"
    by (simp add: c1_def free_slot_def put_page_def is_page_def)
  also have "filter_mset is_page (mset ((bufs c)[i := b'])) + (mset (puts c) + (if is_page b then {#b#} else {#}))
      = filter_mset is_page (mset (bufs c)) + mset (puts c) + (if is_page b' then {#b'#} else {#})"
    unfolding new by (subst (2) old) simp
  finally show ?thesis
    by (simp add: held_def c1_def)
qed

lemma cleanup_loop:
  "puts (fold (\<lambda>s. free_slot (slot_buf s)) ss c) = rev (filter is_page (map slot_buf ss)) @ puts c"
  by (induction ss arbitrary: c) (simp_all add: free_slot_def put_page_def is_page_def)

lemma cleanup_cache_puts: "mset (puts (cleanup_cache c)) = held c"
  by (simp add: cleanup_cache_def cleanup_loop held_def bufs_def mset_filter)

text \<open>The runs of the cache of one context; \<open>hs\<close> collects the pages the callback has returned.\<close>

definition requested :: "fulladdr \<Rightarrow> read_cache \<Rightarrow> buffer" where
  "requested addr c =
     (slot_buf (slots c ! prv (slots c ! mru c)))\<lparr>buf_addr := addr, buf_ptr := None, buf_put := False\<rparr>"

inductive cache_run :: "get_page_fn \<Rightarrow> buffer list \<Rightarrow> read_cache \<Rightarrow> bool" for get_page where
  run_init: "cache_run get_page [] (init_cache zero_cache)"
| run_hit: "cache_run get_page hs c \<Longrightarrow> find_slot (slots c) addr 0 = Some j \<Longrightarrow>
    get_cache_buf get_page addr c = Some (status, i, msgs, c') \<Longrightarrow> cache_run get_page hs c'"
| run_fetch: "cache_run get_page hs c \<Longrightarrow> find_slot (slots c) addr 0 = None \<Longrightarrow>
    get_page (requested addr c) = Some (st, b, ms) \<Longrightarrow>
    get_cache_buf get_page addr c = Some (status, i, msgs, c') \<Longrightarrow>
    cache_run get_page (if st = ADDRXLAT_OK \<and> is_page b then b # hs else hs) c'"
| run_bury: "cache_run get_page hs c \<Longrightarrow> cache_run get_page hs (bury_cache_buffer addr c)"

lemma cache_run_inv:
  "cache_run get_page hs c \<Longrightarrow> (\<exists>ord. ring c ord) \<and> held c = mset hs"
proof (induction rule: cache_run.induct)
  case run_init
  have "filter is_page (bufs (init_cache zero_cache)) = [] \<and> puts (init_cache zero_cache) = []"
    by code_simp
  then show ?case
    using init_cache_ring by (auto simp: held_def simp flip: mset_filter)
next
  case (run_hit hs c addr j status i msgs c')
  then have "cache_out j [] c = (status, i, msgs, c')"
    by (simp add: get_cache_buf_def)
  then show ?case
    using run_hit.IH find_slot_hit run_hit.hyps(2) ring_cache_out held_cache_out by metis
next
  case (run_fetch hs c addr st b ms status i msgs c')
  then obtain ord where R: "ring c ord" and held: "held c = mset hs"
    by blast
  define k where "k = prv (slots c ! mru c)"
  define d where "d = slot_buf (slots c ! k)"
  define c1 where "c1 = free_slot d c"
  have k: "k < 4" "k < length (slots c)"
    using victim_ring [OF R] ring_length [OF R] by (simp_all add: k_def)
  have d: "d = bufs c ! k"
    using k by (simp add: d_def bufs_def)
  have R1: "ring c1 ord"
    using R by (simp add: c1_def)
  have res: "(if st \<noteq> ADDRXLAT_OK then (st, k, ms, set_buf k (b\<lparr>buf_size := 0\<rparr>) c1)
      else cache_out k ms (set_buf k b c1)) = (status, i, msgs, c')"
    using run_fetch.hyps(2-4)
    by (auto simp: get_cache_buf_def Let_def requested_def k_def d_def c1_def split: if_splits)
  show ?case
  proof (cases "st = ADDRXLAT_OK")
    case True
    then have out: "cache_out k ms (set_buf k b c1) = (status, i, msgs, c')"
      using res by simp
    then show ?thesis
      using True held held_cache_out [OF out] held_replace [OF k(2) d, of b]
        ring_cache_out [OF _ k(1) out] R1 by (auto simp: c1_def)
  next
    case False
    then have "c' = set_buf k (b\<lparr>buf_size := 0\<rparr>) c1"
      using res by auto
    then show ?thesis
      using False held held_replace [OF k(2) d, of "b\<lparr>buf_size := 0\<rparr>"] R1
      by (auto simp: c1_def is_page_def)
  qed
next
  case (run_bury hs c addr)
  then show ?case
    using bury_ring_ex by auto
qed

subsection \<open>Properties of the read cache\<close>




text \<open>
  C18. No page leaks: when the context of a read cache is destroyed, the pages that have been
  released by \<open>put_page\<close> are exactly those the page callback has returned, each once, whatever
  sequence of reads and searches came before.
\<close>

theorem read_cache_releases_pages:
  assumes "cache_run get_page hs c"
  shows "mset (puts (cleanup_cache c)) = mset hs"
  using cache_run_inv [OF assms] by (simp add: cleanup_cache_puts)

definition example_page :: get_page_fn where
  "example_page b = Some (ADDRXLAT_OK,
     b\<lparr>buf_addr := \<lparr>fa_addr = fa_addr (buf_addr b) AND NOT 7, fa_as = fa_as (buf_addr b)\<rparr>,
       buf_ptr := Some [1, 2, 3, 4, 5, 6, 7, 8], buf_size := 8, buf_put := True\<rparr>, [])"

lemma read_cache_releases_pages_witness:
  "\<exists>b c. cache_run example_page [b] c \<and> puts (cleanup_cache c) = [b]"
proof -
  define addr where "addr = \<lparr>fa_addr = 9, fa_as = ADDRXLAT_KPHYSADDR\<rparr>"
  obtain b where b: "example_page (requested addr (init_cache zero_cache)) = Some (ADDRXLAT_OK, b, [])"
      "is_page b"
    by (auto simp: example_page_def is_page_def)
  obtain status i msgs c where g:
    "get_cache_buf example_page addr (init_cache zero_cache) = Some (status, i, msgs, c)"
  proof -
    have "get_cache_buf example_page addr (init_cache zero_cache) \<noteq> None"
      unfolding addr_def by code_simp
    then show ?thesis
      using that by (metis not_None_eq prod_cases4)
  qed
  have "find_slot (slots (init_cache zero_cache)) addr 0 = None"
    unfolding addr_def by code_simp
  then have run: "cache_run example_page [b] c"
    using run_fetch [OF run_init _ b(1) g] b(2) by simp
  then have "mset (puts (cleanup_cache c)) = mset [b]"
    by (rule read_cache_releases_pages)
  then show ?thesis
    using run by auto
qed

end
