(* ===== verification/Xlat_Ctx.thy ===== *)
theory Xlat_Ctx
  imports Read_Cache
begin

section \<open>The address translation context (src/addrxlat/ctx.c)\<close>

text \<open>
  The context of a translation: the chain of callback definitions, the translations in
  flight, the read cache and the error messages. Callbacks are code of the library's user;
  they are functions of their arguments and of the \<open>priv\<close> pointer of the definition they are
  called with.
\<close>

subsection \<open>Callback definitions\<close>

text \<open>
  An entry of a callback definition is the default (\<open>def_*_cb\<close>), a call of the next definition
  in the chain (\<open>next_*_cb\<close>), or a function of the user. A \<open>priv\<close> pointer is \<open>NULL\<close>, the
  context itself (in the default definitions) or the user's.
\<close>

datatype 'f cbfn = DEF_CB | NEXT_CB | USER_CB 'f

datatype privp = PRIV_NULL | PRIV_CTX | PRIV_USER nat

type_synonym value_fn = "privp \<Rightarrow> string \<Rightarrow> status \<times> addr_t \<times> msg list"

record cb =
  cb_priv :: privp
  get_page :: "(privp \<Rightarrow> buffer \<Rightarrow> status \<times> buffer \<times> msg list) cbfn"
  read_caps :: "(privp \<Rightarrow> u64) cbfn"
  reg_value :: "value_fn cbfn"
  sym_value :: "value_fn cbfn"
  sym_sizeof :: "value_fn cbfn"
  sym_offsetof :: "(privp \<Rightarrow> string \<Rightarrow> string \<Rightarrow> status \<times> addr_t \<times> msg list) cbfn"
  num_value :: "value_fn cbfn"

text \<open>
  A pointer to a callback definition is the chain that starts with it. \<open>no_callback\<close> takes the
  context from the \<open>priv\<close> pointer of the definition it gets: anything but the context is
  undefined.
\<close>

definition no_callback :: "cb list \<Rightarrow> string \<Rightarrow> (status \<times> msg list) option" where
  "no_callback cb name =
     (case cb of
        [] \<Rightarrow> None
      | c # _ \<Rightarrow>
          if cb_priv c = PRIV_CTX
          then Some (ADDRXLAT_ERR_NODATA, [(''No %s callback'', [MStr name])]) else None)"

fun call_get_page :: "cb list \<Rightarrow> buffer \<Rightarrow> (status \<times> buffer \<times> msg list) option" where
  "call_get_page [] b = None"
| "call_get_page (c # cs) b =
     (case get_page c of
        DEF_CB \<Rightarrow>
          do { (status, msgs) \<leftarrow> no_callback (c # cs) ''get_page''; Some (status, b, msgs) }
      | NEXT_CB \<Rightarrow> call_get_page cs b
      | USER_CB f \<Rightarrow> Some (f (cb_priv c) b))"

fun call_read_caps :: "cb list \<Rightarrow> u64 option" where
  "call_read_caps [] = None"
| "call_read_caps (c # cs) =
     (case read_caps c of
        DEF_CB \<Rightarrow> Some 0
      | NEXT_CB \<Rightarrow> call_read_caps cs
      | USER_CB f \<Rightarrow> Some (f (cb_priv c)))"

text \<open>
  The other five entries. \<open>callee\<close> is the definition whose function pointer is called and \<open>cb\<close>
  the definition it gets as its first argument: \<open>next_reg_value_cb\<close> and its siblings call the
  function of \<open>cb->next\<close>, but pass \<open>cb\<close> on.
\<close>

partial_function (option) call_value ::
  "(cb \<Rightarrow> (privp \<Rightarrow> 'a \<Rightarrow> status \<times> addr_t \<times> msg list) cbfn) \<Rightarrow> string \<Rightarrow> cb list \<Rightarrow> cb list \<Rightarrow> 'a \<Rightarrow>
   (status \<times> addr_t \<times> msg list) option" where
  "call_value entry defname callee cb arg =
     (case callee of
        [] \<Rightarrow> None
      | c # _ \<Rightarrow>
          (case entry c of
             DEF_CB \<Rightarrow>
               do { (status, msgs) \<leftarrow> no_callback cb defname; Some (status, 0, msgs) }
           | NEXT_CB \<Rightarrow> call_value entry defname (tl cb) cb arg
           | USER_CB f \<Rightarrow> (case cb of [] \<Rightarrow> None | d # _ \<Rightarrow> Some (f (cb_priv d) arg))))"

definition def_cb :: cb where
  "def_cb = \<lparr>cb_priv = PRIV_CTX, get_page = DEF_CB, read_caps = DEF_CB, reg_value = DEF_CB,
     sym_value = DEF_CB, sym_sizeof = DEF_CB, sym_offsetof = DEF_CB, num_value = DEF_CB\<rparr>"

definition next_cb :: cb where
  "next_cb = \<lparr>cb_priv = PRIV_NULL, get_page = NEXT_CB, read_caps = NEXT_CB, reg_value = NEXT_CB,
     sym_value = NEXT_CB, sym_sizeof = NEXT_CB, sym_offsetof = NEXT_CB, num_value = NEXT_CB\<rparr>"

subsection \<open>The context\<close>

text \<open>The translation chains of sys.c, by the names of the constants that hold them.\<close>

datatype xlat_chain = KV2PHYS | KPHYS2MACHPHYS | KPHYS2DIRECT | KPHYS2ANY | MACHPHYS2DIRECT

text \<open>
  \<open>ctx_cb\<close> is the chain of callback definitions, the active one first and \<open>def_cb\<close> last;
  \<open>inflight\<close> is the list of translations in flight, latest first. \<open>host_order\<close> is the byte order
  of the machine the library runs on.
\<close>

record xctx =
  ctx_refcnt :: nat
  noerr_notpresent :: bool
  ctx_cb :: "cb list"
  inflight :: "(fulladdr \<times> xlat_chain) list"
  cache :: read_cache
  err :: "msg list"
  host_order :: byte_order

definition ctx_new :: "byte_order \<Rightarrow> bool \<Rightarrow> xctx option" where
  "ctx_new host allocated =
     (if allocated
      then Some \<lparr>ctx_refcnt = 1, noerr_notpresent = False, ctx_cb = [def_cb], inflight = [],
             cache = init_cache zero_cache, err = [], host_order = host\<rparr>
      else None)"

definition ctx_incref :: "xctx \<Rightarrow> nat \<times> xctx" where
  "ctx_incref ctx = (ctx_refcnt ctx + 1, ctx\<lparr>ctx_refcnt := ctx_refcnt ctx + 1\<rparr>)"

text \<open>
  The last \<open>ctx_decref\<close> releases the pages of the read cache and frees the context; what is left
  then is the final state of the cache.
\<close>

definition ctx_decref :: "xctx \<Rightarrow> nat \<times> (xctx + read_cache)" where
  "ctx_decref ctx =
     (let n = ctx_refcnt ctx - 1
      in if n = 0 then (n, Inr (cleanup_cache (cache ctx))) else (n, Inl (ctx\<lparr>ctx_refcnt := n\<rparr>)))"

definition clear_error :: "xctx \<Rightarrow> xctx" where
  "clear_error ctx = ctx\<lparr>err := []\<rparr>"

definition set_error :: "xctx \<Rightarrow> status \<Rightarrow> string \<Rightarrow> marg list \<Rightarrow> status \<times> xctx" where
  "set_error ctx status fmt args =
     (status, if status \<noteq> ADDRXLAT_OK then ctx\<lparr>err := (fmt, args) # err ctx\<rparr> else ctx)"

definition ctx_get_err :: "xctx \<Rightarrow> msg list" where
  "ctx_get_err ctx = err ctx"

definition bad_phys_bits :: "xctx \<Rightarrow> u64 \<Rightarrow> status \<times> xctx" where
  "bad_phys_bits ctx bits = set_error ctx ADDRXLAT_ERR_NOTIMPL
     ''%lu-bit %s addresses not implemented'' [MNum bits, MStr ''physical'']"

definition bad_virt_bits :: "xctx \<Rightarrow> u64 \<Rightarrow> status \<times> xctx" where
  "bad_virt_bits ctx bits = set_error ctx ADDRXLAT_ERR_NOTIMPL
     ''%lu-bit %s addresses not implemented'' [MNum bits, MStr ''virtual'']"

text \<open>
  \<open>ctx_add_cb\<close> puts a definition that forwards every call in front of the chain; the caller then
  sets the entries it wants to implement. A definition to delete is given by its position;
  deleting the default definition would free memory that was not allocated.
\<close>

definition ctx_add_cb :: "bool \<Rightarrow> xctx \<Rightarrow> xctx option" where
  "ctx_add_cb allocated ctx =
     (if allocated then Some (ctx\<lparr>ctx_cb := next_cb # ctx_cb ctx\<rparr>) else None)"

definition ctx_del_cb :: "nat \<Rightarrow> xctx \<Rightarrow> xctx option" where
  "ctx_del_cb i ctx =
     (if i < length (ctx_cb ctx) then
        if Suc i = length (ctx_cb ctx) then None
        else Some (ctx\<lparr>ctx_cb := take i (ctx_cb ctx) @ drop (Suc i) (ctx_cb ctx)\<rparr>)
      else Some ctx)"

subsection \<open>Reading through the cache\<close>

definition ctx_cache_buf :: "fulladdr \<Rightarrow> xctx \<Rightarrow> (status \<times> nat \<times> xctx) option" where
  "ctx_cache_buf addr ctx = do {
     (status, i, msgs, c) \<leftarrow> get_cache_buf (call_get_page (ctx_cb ctx)) addr (cache ctx);
     Some (status, i, ctx\<lparr>cache := c, err := msgs @ err ctx\<rparr>)
   }"

definition direct_read_ok :: "fulladdr \<Rightarrow> xctx \<Rightarrow> (bool \<times> xctx) option" where
  "direct_read_ok addr ctx = do {
     caps \<leftarrow> call_read_caps (ctx_cb ctx);
     if \<not> has_cap caps (fa_as addr) then Some (False, ctx)
     else do {
       (status, i, ctx) \<leftarrow> ctx_cache_buf addr ctx;
       Some (if status \<noteq> ADDRXLAT_OK then (False, clear_error ctx) else (True, ctx))
     }
   }"

text \<open>
  The value of the bytes at a pointer, in the order of the buffer. A load that leaves the
  buffer is undefined.
\<close>

definition load_le :: "u8 list \<Rightarrow> u64" where
  "load_le bs = foldr (\<lambda>b v. ucast b OR push_bit 8 v) bs 0"

definition load_be :: "u8 list \<Rightarrow> u64" where
  "load_be bs = load_le (rev bs)"

definition load :: "byte_order \<Rightarrow> byte_order \<Rightarrow> u8 list \<Rightarrow> u64" where
  "load host bo bs =
     (case bo of
        ADDRXLAT_BIG_ENDIAN \<Rightarrow> load_be bs
      | ADDRXLAT_LITTLE_ENDIAN \<Rightarrow> load_le bs
      | ADDRXLAT_HOST_ENDIAN \<Rightarrow> (if host = ADDRXLAT_BIG_ENDIAN then load_be bs else load_le bs))"

definition load_at :: "byte_order \<Rightarrow> nat \<Rightarrow> fulladdr \<Rightarrow> buffer \<Rightarrow> u64 option" where
  "load_at host n addr b =
     (let off = unat (fa_addr addr - fa_addr (buf_addr b))
      in case buf_ptr b of
           None \<Rightarrow> None
         | Some bs \<Rightarrow>
             if off + n \<le> length bs then Some (load host (buf_order b) (take n (drop off bs))) else None)"

text \<open>\<open>do_read32\<close> and \<open>do_read64\<close> differ in the number of bytes; a failing read leaves no value.\<close>

definition do_read :: "nat \<Rightarrow> fulladdr \<Rightarrow> xctx \<Rightarrow> (status \<times> u64 \<times> xctx) option" where
  "do_read n addr ctx = do {
     (status, i, ctx) \<leftarrow> ctx_cache_buf addr ctx;
     if status \<noteq> ADDRXLAT_OK then Some (status, 0, ctx)
     else do {
       v \<leftarrow> load_at (host_order ctx) n addr (slot_buf (slots (cache ctx) ! i));
       Some (ADDRXLAT_OK, v, ctx)
     }
   }"

definition do_read32 :: "fulladdr \<Rightarrow> xctx \<Rightarrow> (status \<times> u64 \<times> xctx) option" where
  "do_read32 addr ctx = do_read 4 addr ctx"

definition do_read64 :: "fulladdr \<Rightarrow> xctx \<Rightarrow> (status \<times> u64 \<times> xctx) option" where
  "do_read64 addr ctx = do_read 8 addr ctx"

subsection \<open>Values from the callbacks\<close>

definition get_value ::
  "(cb \<Rightarrow> (privp \<Rightarrow> 'a \<Rightarrow> status \<times> addr_t \<times> msg list) cbfn) \<Rightarrow> string \<Rightarrow> string \<Rightarrow> ('a \<Rightarrow> marg list) \<Rightarrow>
   'a \<Rightarrow> xctx \<Rightarrow> (status \<times> addr_t \<times> xctx) option" where
  "get_value entry defname fmt margs arg ctx = do {
     (status, v, msgs) \<leftarrow> call_value entry defname (ctx_cb ctx) (ctx_cb ctx) arg;
     let (status, ctx) = set_error (ctx\<lparr>err := msgs @ err ctx\<rparr>) status fmt (margs arg);
     Some (status, v, ctx)
   }"

definition get_reg :: "string \<Rightarrow> xctx \<Rightarrow> (status \<times> addr_t \<times> xctx) option" where
  "get_reg name ctx =
     get_value reg_value ''reg_value'' ''Cannot read register \"%s\"'' (\<lambda>s. [MStr s]) name ctx"

definition get_symval :: "string \<Rightarrow> xctx \<Rightarrow> (status \<times> addr_t \<times> xctx) option" where
  "get_symval name ctx =
     get_value sym_value ''sym_value'' ''Cannot resolve \"%s\"'' (\<lambda>s. [MStr s]) name ctx"

definition get_sizeof :: "string \<Rightarrow> xctx \<Rightarrow> (status \<times> addr_t \<times> xctx) option" where
  "get_sizeof name ctx =
     get_value sym_sizeof ''sym_sizeof'' ''Cannot get sizeof(%s)'' (\<lambda>s. [MStr s]) name ctx"

definition get_offsetof :: "string \<Rightarrow> string \<Rightarrow> xctx \<Rightarrow> (status \<times> addr_t \<times> xctx) option" where
  "get_offsetof type memb ctx =
     get_value (\<lambda>c. case sym_offsetof c of
                   DEF_CB \<Rightarrow> DEF_CB | NEXT_CB \<Rightarrow> NEXT_CB | USER_CB f \<Rightarrow> USER_CB (\<lambda>p (t, m). f p t m))
       ''sym_offsetof'' ''Cannot get offsetof(%s, %s)'' (\<lambda>(t, m). [MStr t, MStr m]) (type, memb) ctx"

text \<open>The default of the number callback reports the name of another callback.\<close>

definition get_number :: "string \<Rightarrow> xctx \<Rightarrow> (status \<times> addr_t \<times> xctx) option" where
  "get_number name ctx =
     get_value num_value ''sym_offsetof'' ''Cannot get number(%s)'' (\<lambda>s. [MStr s]) name ctx"

subsection \<open>What an operation leaves alone\<close>

text \<open>
  Reads and translations change the cache and the error messages of a context; they restore
  the list of translations in flight and touch nothing else.
\<close>

definition same_frame :: "xctx \<Rightarrow> xctx \<Rightarrow> bool" where
  "same_frame ctx ctx' \<longleftrightarrow> ctx_cb ctx' = ctx_cb ctx \<and> inflight ctx' = inflight ctx
     \<and> noerr_notpresent ctx' = noerr_notpresent ctx \<and> host_order ctx' = host_order ctx
     \<and> ctx_refcnt ctx' = ctx_refcnt ctx"

lemma same_frame_refl [simp]: "same_frame ctx ctx"
  by (simp add: same_frame_def)

lemma same_frame_trans: "same_frame a b \<Longrightarrow> same_frame b c \<Longrightarrow> same_frame a c"
  by (simp add: same_frame_def)

text \<open>
  A context is sound for a memory if its page callback is a source of pages of this memory,
  the capabilities can be read, and the cache is sound.
\<close>

definition ctx_ok :: "(fulladdr \<Rightarrow> u8) \<Rightarrow> (fulladdr \<Rightarrow> byte_order) \<Rightarrow> xctx \<Rightarrow> bool" where
  "ctx_ok mem mo ctx \<longleftrightarrow> page_source (call_get_page (ctx_cb ctx)) mem mo
     \<and> call_read_caps (ctx_cb ctx) \<noteq> None \<and> cache_ok mem mo (cache ctx)"

lemma frame_clear_error [simp]: "same_frame ctx (clear_error ctx)"
  by (simp add: same_frame_def clear_error_def)

lemma ctx_ok_clear_error [simp]: "ctx_ok mem mo (clear_error ctx) = ctx_ok mem mo ctx"
  by (simp add: ctx_ok_def clear_error_def)

lemma set_error_frame:
  "set_error ctx st fmt args = (st', ctx') \<Longrightarrow>
   st' = st \<and> same_frame ctx ctx' \<and> cache ctx' = cache ctx \<and> (ctx_ok mem mo ctx \<longrightarrow> ctx_ok mem mo ctx')"
  by (auto simp: set_error_def same_frame_def ctx_ok_def split: if_splits)

lemma ctx_cache_buf_spec:
  assumes "ctx_ok mem mo ctx"
  obtains status i ctx' where "ctx_cache_buf addr ctx = Some (status, i, ctx')"
    and "ctx_ok mem mo ctx'" and "same_frame ctx ctx'"
    and "status = ADDRXLAT_OK \<Longrightarrow> i < 4 \<and> slot_hit addr (slot_buf (slots (cache ctx') ! i))
           \<and> page_of mem mo (slot_buf (slots (cache ctx') ! i))"
proof -
  have src: "page_source (call_get_page (ctx_cb ctx)) mem mo" and ok: "cache_ok mem mo (cache ctx)"
    using assms by (simp_all add: ctx_ok_def)
  obtain status i msgs c where g:
      "get_cache_buf (call_get_page (ctx_cb ctx)) addr (cache ctx) = Some (status, i, msgs, c)"
      "cache_ok mem mo c"
      "status = ADDRXLAT_OK \<Longrightarrow> i < 4 \<and> slot_hit addr (bufs c ! i) \<and> page_of mem mo (bufs c ! i)"
    using get_cache_buf_spec [OF src ok, of addr] by metis
  have len: "length (slots c) = 4"
    using g(2) by (auto simp: cache_ok_def ring_def)
  show ?thesis
    by (rule that [of status i "ctx\<lparr>cache := c, err := msgs @ err ctx\<rparr>"])
       (use g assms len in \<open>auto simp: ctx_cache_buf_def ctx_ok_def same_frame_def bufs_def\<close>)
qed

subsection \<open>A read gives the bytes of the memory\<close>

definition mem_value ::
  "byte_order \<Rightarrow> (fulladdr \<Rightarrow> u8) \<Rightarrow> (fulladdr \<Rightarrow> byte_order) \<Rightarrow> nat \<Rightarrow> fulladdr \<Rightarrow> u64" where
  "mem_value host mem mo n addr =
     load host (mo addr) (map (\<lambda>k. mem (addr\<lparr>fa_addr := fa_addr addr + of_nat k\<rparr>)) [0..<n])"

lemma dvd_unat_minus:
  fixes a b :: u64
  assumes "n dvd 8" and "n dvd unat a" and "8 dvd unat b"
  shows "n dvd unat (a - b)"
proof -
  have b: "n dvd unat b"
    using assms(1,3) dvd_trans by blast
  have n: "n dvd 2 ^ 64"
    using assms(1) by (rule dvd_trans) simp
  show ?thesis
  proof (cases "b \<le> a")
    case True
    then show ?thesis
      using assms(2) b by (simp add: unat_sub dvd_diff_nat)
  next
    case False
    then have "unat (a - b) = 2 ^ 64 + unat a - unat b"
      by (simp add: unat_sub_if_size word_size word_le_nat_alt)
    then show ?thesis
      using assms(2) b n by (simp add: dvd_diff_nat)
  qed
qed

lemma load_at_page:
  assumes pg: "page_of mem mo b" and hit: "slot_hit addr b"
    and n: "n dvd 8" "n dvd unat (fa_addr addr)"
  shows "load_at host n addr b = Some (mem_value host mem mo n addr)"
proof -
  define off where "off = unat (fa_addr addr - fa_addr (buf_addr b))"
  obtain bs where bs: "buf_ptr b = Some bs" "length bs = unat (buf_size b)"
      "8 dvd unat (fa_addr (buf_addr b))" "8 dvd length bs"
      "\<And>k. k < length bs \<Longrightarrow> bs ! k = mem (buf_at b k) \<and> mo (buf_at b k) = buf_order b"
    using pg by (auto simp: page_of_def)
  have off: "off < length bs"
    using hit bs(2) by (simp add: off_def slot_hit_def word_less_nat_alt)
  have "n dvd off"
    unfolding off_def using n bs(3) by (intro dvd_unat_minus)
  moreover have "n dvd length bs"
    using n(1) bs(4) dvd_trans by blast
  ultimately have "n dvd length bs - off"
    by (simp add: dvd_diff_nat)
  then have le: "off + n \<le> length bs"
    using off dvd_imp_le [of n "length bs - off"] by linarith
  have at: "buf_at b (off + k) = addr\<lparr>fa_addr := fa_addr addr + of_nat k\<rparr>" for k
    using hit by (simp add: buf_at_def off_def slot_hit_def add.assoc [symmetric])
  have "take n (drop off bs) = map (\<lambda>k. mem (addr\<lparr>fa_addr := fa_addr addr + of_nat k\<rparr>)) [0..<n]"
    using le bs(5) at by (intro nth_equalityI) auto
  moreover have "mo addr = buf_order b"
    using bs(5) [OF off] at [of 0] by simp
  ultimately show ?thesis
    using bs(1) le by (simp add: load_at_def mem_value_def off_def [symmetric] Let_def)
qed

lemma do_read_spec:
  assumes ok: "ctx_ok mem mo ctx" and n: "n dvd 8" "n dvd unat (fa_addr addr)"
  obtains status v ctx' where "do_read n addr ctx = Some (status, v, ctx')"
    and "ctx_ok mem mo ctx'" and "same_frame ctx ctx'"
    and "status = ADDRXLAT_OK \<Longrightarrow> v = mem_value (host_order ctx) mem mo n addr"
proof -
  obtain status i ctx1 where c: "ctx_cache_buf addr ctx = Some (status, i, ctx1)"
      "ctx_ok mem mo ctx1" "same_frame ctx ctx1"
      "status = ADDRXLAT_OK \<Longrightarrow> i < 4 \<and> slot_hit addr (slot_buf (slots (cache ctx1) ! i))
         \<and> page_of mem mo (slot_buf (slots (cache ctx1) ! i))"
    using ctx_cache_buf_spec [OF ok] by metis
  show ?thesis
  proof (cases "status = ADDRXLAT_OK")
    case True
    then have "load_at (host_order ctx1) n addr (slot_buf (slots (cache ctx1) ! i))
        = Some (mem_value (host_order ctx1) mem mo n addr)"
      using c(4) n by (intro load_at_page) auto
    then show ?thesis
      using that [of ADDRXLAT_OK "mem_value (host_order ctx1) mem mo n addr" ctx1] c True
      by (simp add: do_read_def same_frame_def)
  next
    case False
    then show ?thesis
      using that [of status 0 ctx1] c by (simp add: do_read_def)
  qed
qed

subsection \<open>Properties of the context\<close>

text \<open>
  C19. Reading through the cache is reading the memory: whatever pages the cache of a sound context
  holds, an aligned 64-bit read returns, and its value, if it succeeds, consists of the eight
  bytes that the page callback serves for the address, in the byte order of the page. The
  context stays sound.
\<close>

theorem do_read64_transparent:
  assumes "ctx_ok mem mo ctx" and "8 dvd unat (fa_addr addr)"
  shows "\<exists>status v ctx'. do_read64 addr ctx = Some (status, v, ctx') \<and> ctx_ok mem mo ctx'
    \<and> same_frame ctx ctx' \<and> (status = ADDRXLAT_OK \<longrightarrow> v = mem_value (host_order ctx) mem mo 8 addr)"
proof -
  obtain status v ctx' where "do_read 8 addr ctx = Some (status, v, ctx')" "ctx_ok mem mo ctx'"
      "same_frame ctx ctx'" "status = ADDRXLAT_OK \<Longrightarrow> v = mem_value (host_order ctx) mem mo 8 addr"
    using do_read_spec [OF assms(1) dvd_refl assms(2)] by metis
  then show ?thesis
    by (auto simp: do_read64_def)
qed

text \<open>A page callback that serves a single page of eight bytes in two address spaces.\<close>

definition example_get_page :: "privp \<Rightarrow> buffer \<Rightarrow> status \<times> buffer \<times> msg list" where
  "example_get_page p b =
     (if fa_addr (buf_addr b) < 8 \<and> fa_as (buf_addr b) = ADDRXLAT_KPHYSADDR
      then (ADDRXLAT_OK,
        b\<lparr>buf_addr := (buf_addr b)\<lparr>fa_addr := 0\<rparr>, buf_ptr := Some [1, 2, 3, 4, 5, 6, 7, 8],
          buf_size := 8, buf_order := ADDRXLAT_LITTLE_ENDIAN, buf_put := True\<rparr>, [])
      else (ADDRXLAT_ERR_NODATA, b, []))"

definition example_ctx :: xctx where
  "example_ctx = (the (ctx_new ADDRXLAT_LITTLE_ENDIAN True))
     \<lparr>ctx_cb := [next_cb\<lparr>get_page := USER_CB example_get_page, read_caps := USER_CB (\<lambda>p. 1)\<rparr>, def_cb]\<rparr>"

definition example_mem :: "fulladdr \<Rightarrow> u8" where
  "example_mem addr = of_nat (unat (fa_addr addr) + 1)"

definition example_order :: "fulladdr \<Rightarrow> byte_order" where
  "example_order addr = ADDRXLAT_LITTLE_ENDIAN"

lemma example_ctx_ok: "ctx_ok example_mem example_order example_ctx"
proof -
  have dvd: "8 dvd length [1, 2, 3, 4, 5, 6, 7, 8 :: u8]"
    by code_simp
  have all: "\<forall>k<length [1, 2, 3, 4, 5, 6, 7, 8 :: u8]. [1, 2, 3, 4, 5, 6, 7, 8 :: u8] ! k = of_nat (k + 1)"
    by code_simp
  have "page_of example_mem example_order
      (b\<lparr>buf_addr := (buf_addr b)\<lparr>fa_addr := 0\<rparr>, buf_ptr := Some [1, 2, 3, 4, 5, 6, 7, 8],
         buf_size := 8, buf_order := ADDRXLAT_LITTLE_ENDIAN, buf_put := True\<rparr>)" for b
    unfolding page_of_def
    by (rule exI [of _ "[1, 2, 3, 4, 5, 6, 7, 8]"])
       (use dvd all in \<open>auto simp: example_mem_def example_order_def buf_at_def unat_of_nat\<close>)
  then have "page_source (call_get_page (ctx_cb example_ctx)) example_mem example_order"
    by (auto simp: page_source_def example_ctx_def example_get_page_def slot_hit_def ctx_new_def)
  then show ?thesis
    by (simp add: ctx_ok_def example_ctx_def ctx_new_def cache_ok_init)
qed

lemma do_read64_transparent_witness:
  "\<exists>status v ctx. do_read64 \<lparr>fa_addr = 0, fa_as = ADDRXLAT_KPHYSADDR\<rparr> example_ctx = Some (status, v, ctx)
    \<and> status = ADDRXLAT_OK \<and> v = 0x0807060504030201"
proof -
  let ?a = "\<lparr>fa_addr = 0, fa_as = ADDRXLAT_KPHYSADDR\<rparr>"
  obtain status v ctx where r: "do_read64 ?a example_ctx = Some (status, v, ctx)"
      "status = ADDRXLAT_OK \<longrightarrow> v = mem_value (host_order example_ctx) example_mem example_order 8 ?a"
    using do_read64_transparent [OF example_ctx_ok, of ?a] by auto
  have "map_option fst (do_read64 ?a example_ctx) = Some ADDRXLAT_OK"
    by code_simp
  moreover have "mem_value (host_order example_ctx) example_mem example_order 8 ?a = 0x0807060504030201"
    by code_simp
  ultimately show ?thesis
    using r by auto
qed

lemma call_value_loops:
  "call_value entry nm callee cb arg = Some r \<Longrightarrow>
   \<not> ((\<exists>c cs. callee = c # cs \<and> entry c = NEXT_CB) \<and> (\<exists>c cs. tl cb = c # cs \<and> entry c = NEXT_CB))"
  by (rule call_value.raw_induct [of "\<lambda>entry nm callee cb arg r. \<not> ((\<exists>c cs. callee = c # cs \<and> entry c = NEXT_CB)
        \<and> (\<exists>c cs. tl cb = c # cs \<and> entry c = NEXT_CB))"])
     (auto, (blast | metis)+)

text \<open>
  C20. A new callback definition is meant to forward every call to the one below it. It does for pages and
  read capabilities. The other five entries call the function of the next definition, but with
  their own definition as its argument: right after \<open>addrxlat_ctx_add_cb\<close>, a function of the user
  below gets the \<open>priv\<close> pointer of the new definition (\<open>NULL\<close>), the default function has no
  context to report its error to, and a second forwarding definition below never returns.
\<close>

theorem added_callbacks_forward:
  assumes "ctx_add_cb True ctx = Some ctx'"
  shows "call_get_page (ctx_cb ctx') b = call_get_page (ctx_cb ctx) b
    \<and> call_read_caps (ctx_cb ctx') = call_read_caps (ctx_cb ctx)
    \<and> get_symval name ctx' =
        (case ctx_cb ctx of
           [] \<Rightarrow> None
         | c # _ \<Rightarrow>
             (case sym_value c of
                DEF_CB \<Rightarrow> None
              | NEXT_CB \<Rightarrow> None
              | USER_CB f \<Rightarrow>
                  (let (st, v, ms) = f PRIV_NULL name;
                       (st, ctx) = set_error (ctx'\<lparr>err := ms @ err ctx'\<rparr>) st
                          ''Cannot resolve \"%s\"'' [MStr name]
                   in Some (st, v, ctx))))"
proof -
  have ctx': "ctx_cb ctx' = next_cb # ctx_cb ctx"
    using assms by (auto simp: ctx_add_cb_def)
  have "call_value sym_value nm (next_cb # cs) (next_cb # cs) name
      = (case cs of [] \<Rightarrow> None | c # _ \<Rightarrow>
           (case sym_value c of DEF_CB \<Rightarrow> None | NEXT_CB \<Rightarrow> None | USER_CB f \<Rightarrow> Some (f PRIV_NULL name)))"
    for cs nm
  proof (cases cs)
    case Nil
    then show ?thesis
      by (simp add: call_value.simps next_cb_def)
  next
    case (Cons c cs')
    have step: "call_value sym_value nm (next_cb # cs) (next_cb # cs) name
        = call_value sym_value nm cs (next_cb # cs) name"
      by (subst call_value.simps) (simp add: next_cb_def)
    show ?thesis
    proof (cases "sym_value c")
      case DEF_CB
      then show ?thesis
        using step Cons by (simp add: call_value.simps [of _ _ "c # cs'"] no_callback_def next_cb_def)
    next
      case NEXT_CB
      then show ?thesis
        using step Cons call_value_loops [of sym_value nm "c # cs'" "next_cb # cs" name]
        by (cases "call_value sym_value nm (c # cs') (next_cb # cs) name") auto
    next
      case (USER_CB f)
      then show ?thesis
        using step Cons by (simp add: call_value.simps [of _ _ "c # cs'"] next_cb_def)
    qed
  qed
  then show ?thesis
    by (auto simp: ctx' get_symval_def get_value_def Let_def next_cb_def [THEN arg_cong [of _ _ get_page]]
        next_cb_def [THEN arg_cong [of _ _ read_caps]] split: list.split cbfn.split prod.split)
qed

lemma added_callbacks_forward_witness:
  "get_symval ''_stext'' (the (ctx_add_cb True example_ctx)) = None"
  using added_callbacks_forward [of example_ctx "the (ctx_add_cb True example_ctx)" _ "''_stext''"]
  by (simp add: ctx_add_cb_def example_ctx_def next_cb_def)

end
