(* ===== verification/Xlat_Step.thy ===== *)
theory Xlat_Step
  imports Xlat_Map Xlat_Ctx
begin

section \<open>Translation steps (src/addrxlat/step.c, addrxlat-priv.h)\<close>

text \<open>
  The state of a translation and the steps that do not depend on a page table format: the
  initialisation of a step state for every kind of method, the raw reads of page table
  entries, and the shortcut for huge pages.
\<close>

subsection \<open>Translation systems and step states\<close>

record xsys =
  sys_refcnt :: nat
  sys_maps :: "sys_map \<Rightarrow> xmap option"
  sys_meths :: "sys_meth \<Rightarrow> xmeth"

text \<open>
  \<open>addrxlat_step_t\<close> without its context, which is passed along explicitly. \<open>raw\<close> is the value
  of the page table entry or array element; \<open>idx\<close> has one element more than there may be
  address fields.
\<close>

record step =
  step_sys :: "xsys option"
  step_meth :: xmeth
  remain :: nat
  elemsz :: u32
  base :: fulladdr
  raw :: u64
  idx :: "u64 list"

type_synonym step_fn = "step \<Rightarrow> xctx \<Rightarrow> (status \<times> step \<times> xctx) option"

text \<open>
  The functions \<open>read32\<close> and \<open>read64\<close> of ctx.c, which translate the address they read if
  necessary, as the translation steps see them: from the translation system, the address, the
  name of the object and the context to a status, a value and the context.
\<close>

type_synonym reader = "xsys option \<Rightarrow> fulladdr \<Rightarrow> string \<Rightarrow> xctx \<Rightarrow> (status \<times> u64 \<times> xctx) option"

text \<open>
  The step functions of custom methods are code of the user, selected by the field \<open>custom\<close> of
  the method.
\<close>

record customs =
  custom_first :: "nat \<Rightarrow> addr_t \<Rightarrow> step_fn"
  custom_next :: "nat \<Rightarrow> step_fn"

record readers =
  rd32 :: reader
  rd64 :: reader
  customs :: customs

definition read_pte :: "reader \<Rightarrow> step \<Rightarrow> xctx \<Rightarrow> (status \<times> pte_t \<times> step \<times> xctx) option" where
  "read_pte rd st ctx = do {
     (status, v, ctx) \<leftarrow> rd (step_sys st) (base st) ''PTE'' ctx;
     Some (if status = ADDRXLAT_OK
           then (ADDRXLAT_OK, v AND NOT (pte_mask (step_meth st)), st\<lparr>raw := v\<rparr>, ctx)
           else (status, 0, st, ctx))
   }"

definition read_pte32 :: "readers \<Rightarrow> step \<Rightarrow> xctx \<Rightarrow> (status \<times> pte_t \<times> step \<times> xctx) option" where
  "read_pte32 R = read_pte (rd32 R)"

definition read_pte64 :: "readers \<Rightarrow> step \<Rightarrow> xctx \<Rightarrow> (status \<times> pte_t \<times> step \<times> xctx) option" where
  "read_pte64 R = read_pte (rd64 R)"

subsection \<open>Errors of a step\<close>

definition step_error :: "step \<Rightarrow> xctx \<Rightarrow> status \<Rightarrow> string \<Rightarrow> marg list \<Rightarrow> status \<times> step \<times> xctx" where
  "step_error st ctx status fmt args =
     (let (status, ctx) = set_error ctx status fmt args in (status, st, ctx))"

definition unsigned_int :: "u64 \<Rightarrow> u64" where
  "unsigned_int v = v AND 0xffffffff"

text \<open>
  Every page table format reports a missing entry this way, with its own names of tables and
  entries, unless the context asks for silence.
\<close>

definition not_present :: "string list \<Rightarrow> string list \<Rightarrow> step \<Rightarrow> xctx \<Rightarrow> status \<times> step \<times> xctx" where
  "not_present pgt_full_name pte_name st ctx =
     (if \<not> noerr_notpresent ctx
      then step_error st ctx ADDRXLAT_ERR_NOTPRESENT ''%s not present: %s[%u] = 0x%lx''
             [MStr (pgt_full_name ! (remain st - 1)), MStr (pte_name ! (remain st - 1)),
              MNum (unsigned_int (idx st ! remain st)), MNum (raw st)]
      else (ADDRXLAT_ERR_NOTPRESENT, st, ctx))"

definition pte_invalid :: "string list \<Rightarrow> string list \<Rightarrow> step \<Rightarrow> xctx \<Rightarrow> status \<times> step \<times> xctx" where
  "pte_invalid pgt_full_name pte_name st ctx =
     step_error st ctx ADDRXLAT_ERR_INVALID ''Invalid %s entry: %s[%u] = 0x%lx''
       [MStr (pgt_full_name ! remain st), MStr (pte_name ! (remain st - 1)),
        MNum (unsigned_int (idx st ! remain st)), MNum (raw st)]"

subsection \<open>Huge pages\<close>

text \<open>The byte offset that the remaining indices make below the current table.\<close>

fun index_offset :: "nat \<Rightarrow> nat list \<Rightarrow> u64 list \<Rightarrow> u64 \<Rightarrow> u64" where
  "index_offset (Suc (Suc r)) fs ix off =
     index_offset (Suc r) fs ix (push_bit (fs ! r) (off OR ix ! Suc r))"
| "index_offset r fs ix off = off"

definition pgt_huge_page :: "step \<Rightarrow> xctx \<Rightarrow> status \<times> step \<times> xctx" where
  "pgt_huge_page st ctx =
     (let off = index_offset (remain st) (fieldsz (pgt_pf (step_meth st))) (idx st) 0;
          st = st\<lparr>remain := min 1 (remain st), elemsz := 1\<rparr>
      in (ADDRXLAT_OK, st\<lparr>idx := (idx st)[0 := idx st ! 0 OR off]\<rparr>, ctx))"

subsection \<open>First steps\<close>

definition first_step_linear :: "step \<Rightarrow> addr_t \<Rightarrow> xctx \<Rightarrow> status \<times> step \<times> xctx" where
  "first_step_linear st addr ctx =
     (ADDRXLAT_OK,
      st\<lparr>base := \<lparr>fa_addr = lin_off (step_meth st), fa_as = target_as (step_meth st)\<rparr>,
         remain := 1, elemsz := 1, idx := (idx st)[0 := addr]\<rparr>,
      ctx)"

text \<open>
  The loop that splits an address into its fields; the last index takes what is left.
\<close>

fun split_loop :: "nat list \<Rightarrow> nat \<Rightarrow> nat \<Rightarrow> addr_t \<Rightarrow> u64 list \<Rightarrow> u64 list" where
  "split_loop fs i 0 addr ix = ix[i := addr]"
| "split_loop fs i (Suc n) addr ix =
     (let bits = fs ! i;
          mask = (if bits < 64 then push_bit bits 1 - 1 else NOT 0)
      in split_loop fs (Suc i) n (drop_bit bits addr) (ix[i := addr AND mask]))"

definition first_step_pgt_generic :: "step \<Rightarrow> addr_t \<Rightarrow> xctx \<Rightarrow> status \<times> step \<times> xctx" where
  "first_step_pgt_generic st addr ctx =
     (let m = step_meth st; pf = pgt_pf m
      in if fa_as (pgt_root m) = ADDRXLAT_NOADDR
         then step_error st ctx ADDRXLAT_ERR_NODATA ''Page table address not specified'' []
         else (ADDRXLAT_OK,
           st\<lparr>base := pgt_root m, remain := nfields pf,
              elemsz := (if nfields pf > 1 then push_bit (nat (pteval_shift (pf_format pf))) 1 else 1),
              idx := split_loop (fieldsz pf) 0 (nfields pf) addr (idx st)\<rparr>,
           ctx))"

definition step_check_uaddr :: "step \<Rightarrow> xctx \<Rightarrow> status \<times> step \<times> xctx" where
  "step_check_uaddr st ctx =
     (if idx st ! nfields (pgt_pf (step_meth st)) \<noteq> 0
      then step_error st ctx ADDRXLAT_ERR_INVALID ''Virtual address too big'' []
      else (ADDRXLAT_OK, st, ctx))"

definition first_step_uaddr :: "step \<Rightarrow> addr_t \<Rightarrow> xctx \<Rightarrow> status \<times> step \<times> xctx" where
  "first_step_uaddr st addr ctx =
     (let (status, st, ctx) = first_step_pgt_generic st addr ctx
      in if status \<noteq> ADDRXLAT_OK then (status, st, ctx) else step_check_uaddr st ctx)"

text \<open>
  A bit field of width one and type \<open>int\<close> holds 0 or -1: the sign bit of the address, spread
  over the bits above the address fields.
\<close>

definition step_check_saddr :: "step \<Rightarrow> xctx \<Rightarrow> status \<times> step \<times> xctx" where
  "step_check_saddr st ctx =
     (let pf = pgt_pf (step_meth st);
          lvl = nfields pf;
          bit = drop_bit (fieldsz pf ! (lvl - 1) - 1) (idx st ! (lvl - 1)) AND 1;
          signext = (if bit = 1 then NOT 0 else 0) AND drop_bit (vaddr_bits pf) ADDRXLAT_ADDR_MAX
      in if idx st ! lvl \<noteq> signext
         then step_error st ctx ADDRXLAT_ERR_INVALID ''Virtual address too big'' []
         else (ADDRXLAT_OK, st, ctx))"

definition first_step_saddr :: "step \<Rightarrow> addr_t \<Rightarrow> xctx \<Rightarrow> status \<times> step \<times> xctx" where
  "first_step_saddr st addr ctx =
     (let (status, st, ctx) = first_step_pgt_generic st addr ctx
      in if status \<noteq> ADDRXLAT_OK then (status, st, ctx) else step_check_saddr st ctx)"

definition first_step_pgt :: "step \<Rightarrow> addr_t \<Rightarrow> xctx \<Rightarrow> status \<times> step \<times> xctx" where
  "first_step_pgt st addr ctx =
     (case pf_format (pgt_pf (step_meth st)) of
        ADDRXLAT_PTE_NONE \<Rightarrow> first_step_pgt_generic st addr ctx
      | ADDRXLAT_PTE_AARCH64 \<Rightarrow> first_step_pgt_generic st addr ctx
      | ADDRXLAT_PTE_AARCH64_LPA \<Rightarrow> first_step_pgt_generic st addr ctx
      | ADDRXLAT_PTE_AARCH64_LPA2 \<Rightarrow> first_step_pgt_generic st addr ctx
      | ADDRXLAT_PTE_ARM \<Rightarrow> first_step_pgt_generic st addr ctx
      | ADDRXLAT_PTE_PPC64_LINUX_RPN30 \<Rightarrow> first_step_pgt_generic st addr ctx
      | ADDRXLAT_PTE_PFN32 \<Rightarrow> first_step_uaddr st addr ctx
      | ADDRXLAT_PTE_PFN64 \<Rightarrow> first_step_uaddr st addr ctx
      | ADDRXLAT_PTE_IA32 \<Rightarrow> first_step_uaddr st addr ctx
      | ADDRXLAT_PTE_IA32_PAE \<Rightarrow> first_step_uaddr st addr ctx
      | ADDRXLAT_PTE_S390X \<Rightarrow> first_step_uaddr st addr ctx
      | ADDRXLAT_PTE_RISCV64 \<Rightarrow> first_step_saddr st addr ctx
      | ADDRXLAT_PTE_X86_64 \<Rightarrow> first_step_saddr st addr ctx
      | _ \<Rightarrow> step_error st ctx ADDRXLAT_ERR_NOTIMPL ''Unknown PTE format'' [])"

fun lookup_loop :: "lookup_elem list \<Rightarrow> addr_t \<Rightarrow> addr_t \<Rightarrow> lookup_elem option" where
  "lookup_loop [] endo addr = None"
| "lookup_loop (e # es) endo addr =
     (if orig e \<le> addr \<and> addr \<le> orig e + endo then Some e else lookup_loop es endo addr)"

definition first_step_lookup :: "step \<Rightarrow> addr_t \<Rightarrow> xctx \<Rightarrow> status \<times> step \<times> xctx" where
  "first_step_lookup st addr ctx =
     (let m = step_meth st
      in case lookup_loop (lk_tbl m) (lk_endoff m) addr of
           Some e \<Rightarrow>
             (ADDRXLAT_OK,
              st\<lparr>base := \<lparr>fa_addr = dest e, fa_as = target_as m\<rparr>, remain := 1, elemsz := 1,
                 idx := (idx st)[0 := addr - orig e]\<rparr>,
              ctx)
         | None \<Rightarrow> step_error st ctx ADDRXLAT_ERR_NOTPRESENT ''Not mapped'' [])"

definition first_step_memarr :: "step \<Rightarrow> addr_t \<Rightarrow> xctx \<Rightarrow> status \<times> step \<times> xctx" where
  "first_step_memarr st addr ctx =
     (let m = step_meth st
      in (ADDRXLAT_OK,
          st\<lparr>base := ma_base m, remain := 2, elemsz := ma_elemsz m,
             idx := (idx st)[0 := addr AND (push_bit (ma_shift m) 1 - 1),
                             1 := drop_bit (ma_shift m) addr]\<rparr>,
          ctx))"

definition next_step_memarr :: "readers \<Rightarrow> step_fn" where
  "next_step_memarr R st ctx =
     (let m = step_meth st
      in if ma_valsz m = 4 \<or> ma_valsz m = 8 then do {
           (status, v, ctx) \<leftarrow> (if ma_valsz m = 4 then rd32 R else rd64 R)
              (step_sys st) (base st) ''memory array element'' ctx;
           let st = st\<lparr>raw := v\<rparr>;
           Some (if status = ADDRXLAT_OK
                 then (ADDRXLAT_OK,
                   st\<lparr>base := \<lparr>fa_addr = push_bit (ma_shift m) v, fa_as = target_as m\<rparr>, elemsz := 1\<rparr>,
                   ctx)
                 else (status, st, ctx))
         }
         else Some (step_error st ctx ADDRXLAT_ERR_NOTIMPL ''Unsupported value size: %u''
                      [MNum (ucast (ma_valsz m))]))"

end
