(* ===== verification/Pgt_Formats.thy ===== *)
theory Pgt_Formats
  imports Xlat_Step
begin

section \<open>Page table formats (the \<open>pgt_*\<close> functions of the architecture files)\<close>

text \<open>
  For every page table format the step that reads an entry and decodes it. The part behind the
  read is a function of the entry, the decoder of the format: all decoders meet one contract,
  stated as a locale below. A decoder returns \<open>None\<close> where the C code is undefined.
\<close>

type_synonym decoder = "pte_t \<Rightarrow> step \<Rightarrow> xctx \<Rightarrow> (status \<times> step \<times> xctx) option"

definition with_pte :: "reader \<Rightarrow> decoder \<Rightarrow> step_fn" where
  "with_pte rd decode st ctx = do {
     (status, pte, st, ctx) \<leftarrow> read_pte rd st ctx;
     if status \<noteq> ADDRXLAT_OK then Some (status, st, ctx) else decode pte st ctx
   }"

definition PTE_MASK :: "nat \<Rightarrow> u64" where
  "PTE_MASK bits = push_bit bits 1 - 1"

definition PTE_VAL :: "u64 \<Rightarrow> nat \<Rightarrow> nat \<Rightarrow> u64" where
  "PTE_VAL x shift bits = drop_bit shift x AND PTE_MASK bits"

text \<open>The end that most formats share: mask the page offset off, stop at the last level.\<close>

definition next_table :: "addr_t \<Rightarrow> step \<Rightarrow> xctx \<Rightarrow> status \<times> step \<times> xctx" where
  "next_table page_mask st ctx =
     (let st = st\<lparr>base := (base st)\<lparr>fa_addr := fa_addr (base st) AND NOT page_mask\<rparr>\<rparr>
      in (ADDRXLAT_OK, if remain st = 1 then st\<lparr>elemsz := 1\<rparr> else st, ctx))"

definition set_base :: "addr_t \<Rightarrow> step \<Rightarrow> step" where
  "set_base addr st = st\<lparr>base := \<lparr>fa_addr = addr, fa_as = target_as (step_meth st)\<rparr>\<rparr>"

subsection \<open>Page frame numbers (step.c)\<close>

definition next_step_pfn_common :: decoder where
  "next_step_pfn_common pte st ctx =
     Some (if pte = 0
       then step_error st ctx ADDRXLAT_ERR_NOTPRESENT ''Level-%u PFN not present'' [MNum (of_nat (remain st))]
       else
         let st = set_base (push_bit (fieldsz (pgt_pf (step_meth st)) ! 0) pte) st
         in (ADDRXLAT_OK, if remain st = 1 then st\<lparr>elemsz := 1\<rparr> else st, ctx))"

definition next_step_pfn32 :: "readers \<Rightarrow> step_fn" where
  "next_step_pfn32 R = with_pte (rd32 R) next_step_pfn_common"

definition next_step_pfn64 :: "readers \<Rightarrow> step_fn" where
  "next_step_pfn64 R = with_pte (rd64 R) next_step_pfn_common"

subsection \<open>Arm AArch64 (aarch64.c)\<close>

definition aarch64_pgt_full_name :: "string list" where
  "aarch64_pgt_full_name = [''Page'', ''Level 3 table'', ''Level 2 table'', ''Level 1 table'',
     ''Level 0 table'', ''Level -1 table'']"

definition aarch64_pte_name :: "string list" where
  "aarch64_pte_name = [''pte'', ''pmd'', ''pud'', ''p4d'', ''pgd'']"

text \<open>
  The three AArch64 functions differ in how the output address is put together and in the
  largest region a block descriptor may map.
\<close>

definition decode_aarch64_desc :: "(pte_t \<Rightarrow> addr_t) \<Rightarrow> addr_t \<Rightarrow> decoder" where
  "decode_aarch64_desc out_addr max_region pte st ctx =
     Some (if PTE_VAL pte 0 1 = 0 then not_present aarch64_pgt_full_name aarch64_pte_name st ctx
       else
         let st = set_base (out_addr pte) st; pf = pgt_pf (step_meth st)
         in if PTE_VAL pte 0 2 = 1 then
              let tblmask = pf_table_mask pf (remain st)
              in if remain st = 1 \<or> tblmask > max_region
                 then pte_invalid aarch64_pgt_full_name aarch64_pte_name st ctx
                 else pgt_huge_page (set_base (fa_addr (base st) AND NOT tblmask) st) ctx
            else next_table (pf_page_mask pf) st ctx)"

definition decode_aarch64 :: decoder where
  "decode_aarch64 = decode_aarch64_desc (\<lambda>pte. pte AND ADDR_MASK 48) (ADDR_MASK 30)"

definition decode_aarch64_lpa :: decoder where
  "decode_aarch64_lpa =
     decode_aarch64_desc (\<lambda>pte. PTE_VAL pte 0 47 OR push_bit 48 (PTE_VAL pte 12 4)) (ADDR_MASK 42)"

definition decode_aarch64_lpa2 :: decoder where
  "decode_aarch64_lpa2 =
     decode_aarch64_desc (\<lambda>pte. PTE_VAL pte 0 49 OR push_bit 50 (PTE_VAL pte 8 2)) (ADDR_MASK 39)"

definition pgt_aarch64 :: "readers \<Rightarrow> step_fn" where
  "pgt_aarch64 R = with_pte (rd64 R) decode_aarch64"

definition pgt_aarch64_lpa :: "readers \<Rightarrow> step_fn" where
  "pgt_aarch64_lpa R = with_pte (rd64 R) decode_aarch64_lpa"

definition pgt_aarch64_lpa2 :: "readers \<Rightarrow> step_fn" where
  "pgt_aarch64_lpa2 R = with_pte (rd64 R) decode_aarch64_lpa2"

subsection \<open>Arm AArch32 with short descriptors (arm.c)\<close>

definition arm_pgt_full_name :: "string list" where
  "arm_pgt_full_name = [''Page'', ''Level 2 table'', ''Level 1 table'']"

definition arm_pte_name :: "string list" where
  "arm_pte_name = [''pte'', ''pgd'']"

definition add_overlap :: "nat \<Rightarrow> step \<Rightarrow> step" where
  "add_overlap bits st =
     (let i = remain st - 1; shift = fieldsz (pgt_pf (step_meth st)) ! i
      in st\<lparr>idx := (idx st)[i := idx st ! i + push_bit shift (idx st ! remain st AND ADDR_MASK bits)]\<rparr>)"

definition decode_arm :: decoder where
  "decode_arm pte st ctx =
     Some (let type = PTE_VAL pte 0 2
       in if type = 0 then not_present arm_pgt_full_name arm_pte_name st ctx
       else if remain st > 1 then
         if type \<noteq> 1 then
           if PTE_VAL pte 18 1 \<noteq> 0 then
             pgt_huge_page (set_base ((pte AND NOT (PTE_MASK 24)) OR push_bit 32 (PTE_VAL pte 20 4)
                 OR push_bit 36 (PTE_VAL pte 5 4)) (add_overlap 4 st)) ctx
           else pgt_huge_page (set_base (pte AND NOT (PTE_MASK 20)) st) ctx
         else (ADDRXLAT_OK, set_base (pte AND NOT (PTE_MASK 10)) st, ctx)
       else if type = 1 then
         (ADDRXLAT_OK, (set_base (pte AND NOT (PTE_MASK 16)) (add_overlap 4 st))\<lparr>elemsz := 1\<rparr>, ctx)
       else (ADDRXLAT_OK, (set_base (pte AND NOT (PTE_MASK 12)) st)\<lparr>elemsz := 1\<rparr>, ctx))"

definition pgt_arm :: "readers \<Rightarrow> step_fn" where
  "pgt_arm R = with_pte (rd32 R) decode_arm"

subsection \<open>Intel IA32, with and without PAE (ia32.c)\<close>

definition PAGE_PRESENT :: u64 where "PAGE_PRESENT = 1"

definition PAGE_PSE :: u64 where "PAGE_PSE = push_bit 7 1"

definition pgd_pse_high :: "u64 \<Rightarrow> u64" where
  "pgd_pse_high pgd = push_bit 32 (drop_bit 13 pgd AND ADDR_MASK 8)"

definition decode_ia32 :: decoder where
  "decode_ia32 pte st ctx =
     Some (if pte AND PAGE_PRESENT = 0
       then not_present [''Page'', ''Page table''] [''pte'', ''pgd''] st ctx
       else if remain st = 2 \<and> pte AND PAGE_PSE \<noteq> 0
       then pgt_huge_page (set_base ((pte AND NOT (ADDR_MASK 22)) OR pgd_pse_high pte) st) ctx
       else next_table (ADDR_MASK 12) (set_base pte st) ctx)"

definition pgt_ia32 :: "readers \<Rightarrow> step_fn" where
  "pgt_ia32 R = with_pte (rd32 R) decode_ia32"

definition decode_ia32_pae :: decoder where
  "decode_ia32_pae pte st ctx =
     Some (if pte AND PAGE_PRESENT = 0
       then not_present [''Page'', ''Page table'', ''Page directory''] [''pte'', ''pmd'', ''pgd''] st ctx
       else let st = set_base (pte AND ADDR_MASK 52) st
         in if remain st = 2 \<and> pte AND PAGE_PSE \<noteq> 0
            then pgt_huge_page (set_base (fa_addr (base st) AND NOT (ADDR_MASK 21)) st) ctx
            else next_table (ADDR_MASK 12) st ctx)"

definition pgt_ia32_pae :: "readers \<Rightarrow> step_fn" where
  "pgt_ia32_pae R = with_pte (rd64 R) decode_ia32_pae"

subsection \<open>AMD64 (x86_64.c)\<close>

definition decode_x86_64 :: decoder where
  "decode_x86_64 pte st ctx =
     Some (if pte AND PAGE_PRESENT = 0
       then not_present [''Page'', ''Page table'', ''Page directory'', ''PDPT table'', ''PML4 table'']
              [''pte'', ''pmd'', ''pud'', ''p4d'', ''pgd''] st ctx
       else let st = set_base (pte AND ADDR_MASK 52) st
         in if remain st = 3 \<and> pte AND PAGE_PSE \<noteq> 0
            then pgt_huge_page (set_base (fa_addr (base st) AND NOT (ADDR_MASK 30)) st) ctx
            else if remain st = 2 \<and> pte AND PAGE_PSE \<noteq> 0
            then pgt_huge_page (set_base (fa_addr (base st) AND NOT (ADDR_MASK 21)) st) ctx
            else next_table (ADDR_MASK 12) st ctx)"

definition pgt_x86_64 :: "readers \<Rightarrow> step_fn" where
  "pgt_x86_64 R = with_pte (rd64 R) decode_x86_64"

subsection \<open>RISC-V (riscv64.c)\<close>

definition riscv64_pgt_full_name :: "string list" where
  "riscv64_pgt_full_name =
     [''Page'', ''Level 0 table'', ''Level 1 table'', ''Level 2 table'', ''Level 3 table'']"

definition decode_riscv64 :: decoder where
  "decode_riscv64 pte st ctx =
     Some (let pte_name = [''pte'', ''pmd'', ''pud'', ''p4d'', ''pgd'']; perm = PTE_VAL pte 1 3
       in if PTE_VAL pte 0 1 = 0 then not_present riscv64_pgt_full_name pte_name st ctx
       else let st = set_base (push_bit 12 (PTE_VAL pte 10 44)) st
         in if remain st > 1 \<and> perm \<noteq> 0
            then pgt_huge_page (set_base (fa_addr (base st) AND
                   NOT (pf_table_mask (pgt_pf (step_meth st)) (remain st))) st) ctx
            else if remain st = 1 \<and> perm = 0 then pte_invalid riscv64_pgt_full_name pte_name st ctx
            else next_table (ADDR_MASK 12) st ctx)"

definition pgt_riscv64 :: "readers \<Rightarrow> step_fn" where
  "pgt_riscv64 R = with_pte (rd64 R) decode_riscv64"

subsection \<open>IBM z/Architecture (s390x.c)\<close>

definition TE_VAL :: "u64 \<Rightarrow> nat \<Rightarrow> nat \<Rightarrow> u64" where
  "TE_VAL x shift bits = drop_bit (64 - shift - bits) x AND (push_bit bits 1 - 1)"

definition RSTE_FC :: "u64 \<Rightarrow> u64" where "RSTE_FC x = TE_VAL x 53 1"
definition RSTE_I :: "u64 \<Rightarrow> u64" where "RSTE_I x = TE_VAL x 58 1"
definition RSTE_TF :: "u64 \<Rightarrow> u64" where "RSTE_TF x = TE_VAL x 56 2"
definition RSTE_TT :: "u64 \<Rightarrow> u64" where "RSTE_TT x = TE_VAL x 60 2"
definition RSTE_TL :: "u64 \<Rightarrow> u64" where "RSTE_TL x = TE_VAL x 62 2"
definition PTE_I :: "u64 \<Rightarrow> u64" where "PTE_I x = TE_VAL x 53 1"

definition s390x_pgt_full_name :: "string list" where
  "s390x_pgt_full_name = [''Page'', ''Page table'', ''Segment table'', ''Region 3 table'',
     ''Region 2 table'', ''Region 1 table'']"

text \<open>
  The shift count that selects the part of a region or segment table is computed from the
  paging form as an \<open>int\<close>; a negative count, or one of 64 or more, is undefined.
\<close>

definition shift_right :: "u64 \<Rightarrow> int \<Rightarrow> u64 option" where
  "shift_right x n = (if 0 \<le> n \<and> n < 64 then Some (drop_bit (nat n) x) else None)"

definition decode_s390x :: decoder where
  "decode_s390x pte st ctx =
     (let pte_name = [''pte'', ''pmd'', ''pud'', ''pgd'', ''rg1'']; fs = fieldsz (pgt_pf (step_meth st));
          r = remain st
      in if (r > 1 \<and> RSTE_I pte \<noteq> 0) \<or> (r = 1 \<and> PTE_I pte \<noteq> 0)
         then Some (not_present s390x_pgt_full_name pte_name st ctx)
         else if r \<ge> 2 \<and> unat (RSTE_TT pte) \<noteq> r - 2
         then Some (step_error st ctx ADDRXLAT_ERR_INVALID ''Table type field %u in %s''
                [MNum (RSTE_TT pte), MStr (s390x_pgt_full_name ! r)])
         else let st = set_base pte st
         in if r = 3 \<and> RSTE_FC pte \<noteq> 0
            then Some (pgt_huge_page (set_base (pte AND NOT (ADDR_MASK 31)) st) ctx)
            else if r = 2 \<and> RSTE_FC pte \<noteq> 0
            then Some (pgt_huge_page (set_base (pte AND NOT (ADDR_MASK 20)) st) ctx)
            else do {
              pgidx \<leftarrow> (if r \<ge> 3
                 then map_option unsigned_int
                   (shift_right (idx st ! (r - 1)) (int (fs ! (r - 1)) - int (fs ! 0)))
                 else Some 0);
              Some (if r \<ge> 3 \<and> (pgidx < RSTE_TF pte \<or> pgidx > RSTE_TL pte)
                then (if \<not> noerr_notpresent ctx
                  then step_error st ctx ADDRXLAT_ERR_NOTPRESENT ''%s index %u not within %u and %u''
                    [MStr (s390x_pgt_full_name ! (r - 1)), MNum (unsigned_int (idx st ! (r - 1))),
                     MNum (RSTE_TF pte), MNum (RSTE_TL pte)]
                  else (ADDRXLAT_ERR_NOTPRESENT, st, ctx))
                else next_table (if r = 2 then ADDR_MASK 11 else ADDR_MASK 12) st ctx)
            })"

definition pgt_s390x :: "readers \<Rightarrow> step_fn" where
  "pgt_s390x R = with_pte (rd64 R) decode_s390x"

subsection \<open>IBM POWER under Linux (ppc64.c)\<close>

definition PD_HUGE :: pte_t where "PD_HUGE = push_bit 63 1"

definition mmu_pshift :: "nat list" where
  "mmu_pshift = [12, 14, 16, 16, 18, 20, 22, 23, 24, 26, 28, 30, 34, 36]"

definition is_hugepd_linux :: "pte_t \<Rightarrow> bool" where
  "is_hugepd_linux pte \<longleftrightarrow> pte AND PD_HUGE = 0"

definition hugepd_shift :: "pte_t \<Rightarrow> nat" where
  "hugepd_shift hpde =
     (let mmu_psize = unat (drop_bit 2 (hpde AND 0x3f))
      in if mmu_psize < length mmu_pshift then mmu_pshift ! mmu_psize else 0)"

definition huge_pd_linux :: "pte_t \<Rightarrow> step \<Rightarrow> xctx \<Rightarrow> status \<times> step \<times> xctx" where
  "huge_pd_linux pte st ctx =
     (let pdshift = hugepd_shift pte
      in if pdshift = 0 then step_error st ctx ADDRXLAT_ERR_INVALID ''Invalid hugepd shift'' []
      else
        let st = st\<lparr>base := \<lparr>fa_addr = (pte AND NOT 0x3f) OR PD_HUGE, fa_as = ADDRXLAT_KVADDR\<rparr>\<rparr>;
            off = index_offset (remain st) (fieldsz (pgt_pf (step_meth st))) (idx st) 0;
            ix = (idx st)[1 := drop_bit pdshift off]
        in (ADDRXLAT_OK,
            st\<lparr>idx := ix[0 := ix ! 0 OR (off AND (push_bit pdshift 1 - 1))], remain := 2\<rparr>, ctx))"

definition is_hugepte_linux :: "pte_t \<Rightarrow> bool" where
  "is_hugepte_linux pte \<longleftrightarrow> pte AND 3 \<noteq> 0"

definition huge_page_linux :: "pte_t \<Rightarrow> nat \<Rightarrow> step \<Rightarrow> xctx \<Rightarrow> status \<times> step \<times> xctx" where
  "huge_page_linux pte rpn_shift st ctx =
     pgt_huge_page (set_base (push_bit (fieldsz (pgt_pf (step_meth st)) ! 0) (drop_bit rpn_shift pte)) st) ctx"

definition decode_ppc64_linux :: "nat \<Rightarrow> decoder" where
  "decode_ppc64_linux rpn_shift pte st ctx =
     Some (let pte_name = [''pte'', ''pmd'', ''pud'', ''pgd'']; pf = pgt_pf (step_meth st)
       in if pte = 0 then
            (if \<not> noerr_notpresent ctx
             then step_error st ctx ADDRXLAT_ERR_NOTPRESENT ''%s[%u] is none''
               [MStr (pte_name ! (remain st - 1)), MNum (unsigned_int (idx st ! remain st))]
             else (ADDRXLAT_ERR_NOTPRESENT, st, ctx))
          else if remain st > 1 then
            if is_hugepte_linux pte then huge_page_linux pte rpn_shift st ctx
            else if is_hugepd_linux pte then huge_pd_linux pte st ctx
            else
              let table_size = push_bit (fieldsz pf ! (remain st - 1)) (push_bit 3 1)
              in (ADDRXLAT_OK,
                  st\<lparr>base := \<lparr>fa_addr = pte AND NOT (table_size - 1), fa_as = ADDRXLAT_KVADDR\<rparr>\<rparr>, ctx)
          else
            (ADDRXLAT_OK,
             (set_base (push_bit (fieldsz pf ! 0) (drop_bit rpn_shift pte)) st)\<lparr>elemsz := 1\<rparr>, ctx))"

definition pgt_ppc64_linux :: "nat \<Rightarrow> readers \<Rightarrow> step_fn" where
  "pgt_ppc64_linux rpn_shift R = with_pte (rd64 R) (decode_ppc64_linux rpn_shift)"

definition pgt_ppc64_linux_rpn30 :: "readers \<Rightarrow> step_fn" where
  "pgt_ppc64_linux_rpn30 = pgt_ppc64_linux 30"

subsection \<open>The contract of the decoders\<close>

text \<open>
  A step leaves the method, the translation system and the size of the index array alone and
  restores the frame of the context; if it succeeds, the walk is still under way and has not
  moved up.
\<close>

definition step_keeps :: "step \<Rightarrow> xctx \<Rightarrow> status \<times> step \<times> xctx \<Rightarrow> bool" where
  "step_keeps st ctx r \<longleftrightarrow>
     (case r of (status, st', ctx') \<Rightarrow>
        same_frame ctx ctx' \<and> step_meth st' = step_meth st \<and> step_sys st' = step_sys st
        \<and> length (idx st') = length (idx st)
        \<and> (status = ADDRXLAT_OK \<longrightarrow> 0 < remain st' \<and> remain st' \<le> remain st))"

definition result_cache :: "status \<times> step \<times> xctx \<Rightarrow> read_cache" where
  "result_cache r = cache (snd (snd r))"

text \<open>
  An invariant of the context is a property that the messages do not matter to. A reader keeps
  it if it holds again after every read.
\<close>

definition inv_closed :: "(xctx \<Rightarrow> bool) \<Rightarrow> bool" where
  "inv_closed Inv \<longleftrightarrow> (\<forall>ctx ctx'. Inv ctx \<and> same_frame ctx ctx' \<and> cache ctx' = cache ctx \<longrightarrow> Inv ctx')"

definition reader_keeps :: "(xctx \<Rightarrow> bool) \<Rightarrow> reader \<Rightarrow> bool" where
  "reader_keeps Inv rd \<longleftrightarrow>
     (\<forall>sys a what ctx status v ctx'. Inv ctx \<and> rd sys a what ctx = Some (status, v, ctx') \<longrightarrow>
        Inv ctx' \<and> same_frame ctx ctx')"

definition reader_total :: "(xctx \<Rightarrow> bool) \<Rightarrow> reader \<Rightarrow> bool" where
  "reader_total Inv rd \<longleftrightarrow> (\<forall>sys a what ctx. Inv ctx \<longrightarrow> rd sys a what ctx \<noteq> None)"

definition readers_keep :: "(xctx \<Rightarrow> bool) \<Rightarrow> readers \<Rightarrow> bool" where
  "readers_keep Inv R \<longleftrightarrow> reader_keeps Inv (rd32 R) \<and> reader_keeps Inv (rd64 R)"

definition readers_total :: "(xctx \<Rightarrow> bool) \<Rightarrow> readers \<Rightarrow> bool" where
  "readers_total Inv R \<longleftrightarrow> reader_total Inv (rd32 R) \<and> reader_total Inv (rd64 R)"

lemma read_pte_keeps:
  assumes "reader_keeps Inv rd" and "Inv ctx" and "read_pte rd st ctx = Some (status, pte, st', ctx')"
  shows "Inv ctx' \<and> same_frame ctx ctx' \<and> step_meth st' = step_meth st \<and> step_sys st' = step_sys st
    \<and> length (idx st') = length (idx st) \<and> remain st' = remain st \<and> idx st' = idx st"
  using assms by (auto simp: read_pte_def reader_keeps_def bind_Some_iff split: if_splits)

lemma read_pte_total: "reader_total Inv rd \<Longrightarrow> Inv ctx \<Longrightarrow> read_pte rd st ctx \<noteq> None"
  unfolding reader_total_def read_pte_def
  by (cases "rd (step_sys st) (base st) ''PTE'' ctx") (metis, auto)

locale pte_decoder =
  fixes decode :: decoder
  assumes decode_keeps:
    "0 < remain st \<Longrightarrow> decode pte st ctx = Some r \<Longrightarrow> step_keeps st ctx r \<and> result_cache r = cache ctx"
begin

lemma with_pte_keeps:
  assumes "inv_closed Inv" and "reader_keeps Inv rd" and "Inv ctx" and "0 < remain st"
    and "with_pte rd decode st ctx = Some r"
  shows "step_keeps st ctx r \<and> Inv (snd (snd r))"
proof -
  obtain status pte st1 ctx1 where rp: "read_pte rd st ctx = Some (status, pte, st1, ctx1)"
      "(if status \<noteq> ADDRXLAT_OK then Some (status, st1, ctx1) else decode pte st1 ctx1) = Some r"
    using assms(5) by (auto simp: with_pte_def bind_Some_iff)
  note k = read_pte_keeps [OF assms(2,3) rp(1)]
  show ?thesis
  proof (cases "status = ADDRXLAT_OK")
    case False
    then show ?thesis
      using rp(2) k by (auto simp: step_keeps_def)
  next
    case True
    then have "step_keeps st1 ctx1 r \<and> result_cache r = cache ctx1"
      using rp(2) k assms(4) by (intro decode_keeps) simp_all
    moreover have "Inv (snd (snd r))" if "same_frame ctx1 (snd (snd r))" "result_cache r = cache ctx1"
      using that k assms(1) unfolding inv_closed_def result_cache_def by blast
    ultimately show ?thesis
      using k by (cases r) (auto simp: step_keeps_def intro: same_frame_trans)
  qed
qed

end

locale total_decoder = pte_decoder +
  assumes decode_total: "decode pte st ctx \<noteq> None"
begin

lemma with_pte_total:
  assumes "reader_total Inv rd" and "Inv ctx"
  shows "with_pte rd decode st ctx \<noteq> None"
proof -
  obtain status pte st1 ctx1 where "read_pte rd st ctx = Some (status, pte, st1, ctx1)"
    using read_pte_total [OF assms, of st] by (cases "read_pte rd st ctx") auto
  then show ?thesis
    using decode_total [of pte st1 ctx1] by (auto simp: with_pte_def)
qed

end

text \<open>The building blocks of the decoders meet the contract.\<close>

definition keeps_all :: "step \<Rightarrow> xctx \<Rightarrow> status \<times> step \<times> xctx \<Rightarrow> bool" where
  "keeps_all st ctx r \<longleftrightarrow> step_keeps st ctx r \<and> result_cache r = cache ctx"

lemma keeps_set_base:
  "keeps_all (set_base a st) ctx r = keeps_all st ctx r"
  "keeps_all (st\<lparr>base := b\<rparr>) ctx r = keeps_all st ctx r"
  "keeps_all (st\<lparr>elemsz := e\<rparr>) ctx r = keeps_all st ctx r"
  "keeps_all (add_overlap n st) ctx r = keeps_all st ctx r"
  by (simp_all add: keeps_all_def step_keeps_def set_base_def add_overlap_def Let_def)

lemma keeps_step_error:
  "status \<noteq> ADDRXLAT_OK \<Longrightarrow> keeps_all st ctx (step_error st ctx status fmt args)"
  by (simp add: keeps_all_def step_keeps_def step_error_def set_error_def same_frame_def result_cache_def)

lemma keeps_not_present: "keeps_all st ctx (not_present names entries st ctx)"
  by (simp add: not_present_def keeps_step_error)
     (simp add: keeps_all_def step_keeps_def result_cache_def)

lemma keeps_pte_invalid: "keeps_all st ctx (pte_invalid names entries st ctx)"
  by (simp add: pte_invalid_def keeps_step_error)

lemma keeps_huge_page: "0 < remain st \<Longrightarrow> keeps_all st ctx (pgt_huge_page st ctx)"
  by (simp add: keeps_all_def step_keeps_def result_cache_def pgt_huge_page_def Let_def min_def)

lemma keeps_next_table: "0 < remain st \<Longrightarrow> keeps_all st ctx (next_table msk st ctx)"
  by (simp add: keeps_all_def step_keeps_def result_cache_def next_table_def Let_def)

lemma keeps_silent: "status \<noteq> ADDRXLAT_OK \<Longrightarrow> keeps_all st ctx (status, st, ctx)"
  by (simp add: keeps_all_def step_keeps_def result_cache_def)

lemma keeps_ok: "0 < remain st \<Longrightarrow> keeps_all st ctx (ADDRXLAT_OK, st, ctx)"
  by (simp add: keeps_all_def step_keeps_def result_cache_def)

lemma remain_set_base [simp]:
  "remain (set_base a st) = remain st" "remain (add_overlap n st) = remain st"
  "idx (set_base a st) = idx st" "step_meth (set_base a st) = step_meth st"
  by (simp_all add: set_base_def add_overlap_def Let_def)

lemma keeps_derived:
  "0 < remain st \<Longrightarrow> keeps_all st ctx (pgt_huge_page (set_base a st) ctx)"
  "0 < remain st \<Longrightarrow> keeps_all st ctx (pgt_huge_page (set_base a (set_base b st)) ctx)"
  "0 < remain st \<Longrightarrow> keeps_all st ctx (pgt_huge_page (set_base a (add_overlap n st)) ctx)"
  "0 < remain st \<Longrightarrow> keeps_all st ctx (next_table msk (set_base a st) ctx)"
  "keeps_all st ctx (pte_invalid names entries (set_base a st) ctx)"
  using keeps_huge_page [of "set_base a st" ctx] keeps_next_table [of "set_base a st" ctx msk]
    keeps_huge_page [of "set_base a (set_base b st)" ctx]
    keeps_huge_page [of "set_base a (add_overlap n st)" ctx]
    keeps_pte_invalid [of "set_base a st" ctx names entries]
  by (simp_all add: keeps_set_base)

lemma keeps_ok_derived:
  "0 < remain st \<Longrightarrow> keeps_all st ctx (ADDRXLAT_OK, set_base a st, ctx)"
  "0 < remain st \<Longrightarrow> keeps_all st ctx (ADDRXLAT_OK, (set_base a st)\<lparr>elemsz := e\<rparr>, ctx)"
  "0 < remain st \<Longrightarrow> keeps_all st ctx (ADDRXLAT_OK, (set_base a (add_overlap n st))\<lparr>elemsz := e\<rparr>, ctx)"
  "0 < remain st \<Longrightarrow> keeps_all st ctx (ADDRXLAT_OK, st\<lparr>base := b\<rparr>, ctx)"
  by (simp_all add: keeps_all_def step_keeps_def result_cache_def set_base_def add_overlap_def Let_def)

lemma keeps_huge_pd: "1 < remain st \<Longrightarrow> keeps_all st ctx (huge_pd_linux pte st ctx)"
  by (simp add: huge_pd_linux_def keeps_step_error Let_def)
     (simp add: keeps_all_def step_keeps_def result_cache_def)

lemmas keeps_intros = keeps_ok_derived keeps_huge_pd keeps_derived keeps_step_error keeps_not_present keeps_pte_invalid
  keeps_huge_page keeps_next_table keeps_silent keeps_ok

lemma pte_decoderI:
  "(\<And>pte st ctx r. 0 < remain st \<Longrightarrow> decode pte st ctx = Some r \<Longrightarrow> keeps_all st ctx r) \<Longrightarrow> pte_decoder decode"
  by (simp add: pte_decoder_def keeps_all_def)

lemma total_decoderI:
  "(\<And>pte st ctx. 0 < remain st \<Longrightarrow> keeps_all st ctx (f pte st ctx)) \<Longrightarrow>
   (\<And>pte st ctx. decode pte st ctx = Some (f pte st ctx)) \<Longrightarrow> total_decoder decode"
  by (simp add: total_decoder_def total_decoder_axioms_def pte_decoder_def keeps_all_def)

text \<open>Every format meets the contract; all but the one of the z/Architecture are always defined.\<close>

lemma keeps_aarch64: "0 < remain st \<Longrightarrow> keeps_all st ctx (the (decode_aarch64_desc out_addr mx pte st ctx))"
  by (simp add: decode_aarch64_desc_def Let_def keeps_intros)

lemma keeps_decoders:
  assumes "0 < remain st"
  shows "keeps_all st ctx (the (next_step_pfn_common pte st ctx))"
    and "keeps_all st ctx (the (decode_arm pte st ctx))"
    and "keeps_all st ctx (the (decode_ia32 pte st ctx))"
    and "keeps_all st ctx (the (decode_ia32_pae pte st ctx))"
    and "keeps_all st ctx (the (decode_x86_64 pte st ctx))"
    and "keeps_all st ctx (the (decode_riscv64 pte st ctx))"
    and "keeps_all st ctx (the (decode_ppc64_linux n pte st ctx))"
  using assms
  by (simp_all add: next_step_pfn_common_def decode_arm_def decode_ia32_def decode_ia32_pae_def
      decode_x86_64_def decode_riscv64_def decode_ppc64_linux_def huge_page_linux_def Let_def keeps_intros)

interpretation pfn: total_decoder next_step_pfn_common
  by (rule total_decoderI [OF keeps_decoders(1)]) (simp_all add: next_step_pfn_common_def)

interpretation aarch64: total_decoder decode_aarch64
  unfolding decode_aarch64_def
  by (rule total_decoderI [OF keeps_aarch64]) (simp_all add: decode_aarch64_desc_def Let_def)

interpretation aarch64_lpa: total_decoder decode_aarch64_lpa
  unfolding decode_aarch64_lpa_def
  by (rule total_decoderI [OF keeps_aarch64]) (simp_all add: decode_aarch64_desc_def Let_def)

interpretation aarch64_lpa2: total_decoder decode_aarch64_lpa2
  unfolding decode_aarch64_lpa2_def
  by (rule total_decoderI [OF keeps_aarch64]) (simp_all add: decode_aarch64_desc_def Let_def)

interpretation arm: total_decoder decode_arm
  by (rule total_decoderI [OF keeps_decoders(2)]) (simp_all add: decode_arm_def)

interpretation ia32: total_decoder decode_ia32
  by (rule total_decoderI [OF keeps_decoders(3)]) (simp_all add: decode_ia32_def)

interpretation ia32_pae: total_decoder decode_ia32_pae
  by (rule total_decoderI [OF keeps_decoders(4)]) (simp_all add: decode_ia32_pae_def)

interpretation x86_64: total_decoder decode_x86_64
  by (rule total_decoderI [OF keeps_decoders(5)]) (simp_all add: decode_x86_64_def)

interpretation riscv64: total_decoder decode_riscv64
  by (rule total_decoderI [OF keeps_decoders(6)]) (simp_all add: decode_riscv64_def)

interpretation ppc64: total_decoder "decode_ppc64_linux rpn_shift"
  by (rule total_decoderI [OF keeps_decoders(7)]) (simp_all add: decode_ppc64_linux_def)

interpretation s390x: pte_decoder decode_s390x
proof (rule pte_decoderI)
  fix pte st ctx r
  assume "0 < remain st" and "decode_s390x pte st ctx = Some r"
  then show "keeps_all st ctx r"
    using keeps_silent [of ADDRXLAT_ERR_NOTPRESENT "set_base pte st" ctx]
      keeps_step_error [of ADDRXLAT_ERR_NOTPRESENT "set_base pte st" ctx]
    by (auto simp: decode_s390x_def Let_def keeps_intros keeps_set_base bind_Some_iff split: if_splits)
qed

end
