(* ===== verification/Xlat_Walk.thy ===== *)
theory Xlat_Walk
  imports Pgt_Formats
begin

section \<open>Launching, stepping and walking (src/addrxlat/step.c)\<close>

text \<open>
  The dispatch over page table formats and kinds of methods, and the three ways to run a
  translation. A walk that never ends, or that runs into undefined behaviour, has no result.
\<close>

definition next_step_pgt :: "readers \<Rightarrow> step_fn" where
  "next_step_pgt R st ctx =
     (case pf_format (pgt_pf (step_meth st)) of
        ADDRXLAT_PTE_NONE \<Rightarrow> Some (ADDRXLAT_OK, st, ctx)
      | ADDRXLAT_PTE_PFN32 \<Rightarrow> next_step_pfn32 R st ctx
      | ADDRXLAT_PTE_PFN64 \<Rightarrow> next_step_pfn64 R st ctx
      | ADDRXLAT_PTE_AARCH64 \<Rightarrow> pgt_aarch64 R st ctx
      | ADDRXLAT_PTE_AARCH64_LPA \<Rightarrow> pgt_aarch64_lpa R st ctx
      | ADDRXLAT_PTE_AARCH64_LPA2 \<Rightarrow> pgt_aarch64_lpa2 R st ctx
      | ADDRXLAT_PTE_ARM \<Rightarrow> pgt_arm R st ctx
      | ADDRXLAT_PTE_IA32 \<Rightarrow> pgt_ia32 R st ctx
      | ADDRXLAT_PTE_IA32_PAE \<Rightarrow> pgt_ia32_pae R st ctx
      | ADDRXLAT_PTE_RISCV64 \<Rightarrow> pgt_riscv64 R st ctx
      | ADDRXLAT_PTE_X86_64 \<Rightarrow> pgt_x86_64 R st ctx
      | ADDRXLAT_PTE_S390X \<Rightarrow> pgt_s390x R st ctx
      | ADDRXLAT_PTE_PPC64_LINUX_RPN30 \<Rightarrow> pgt_ppc64_linux_rpn30 R st ctx
      | _ \<Rightarrow> Some (step_error st ctx ADDRXLAT_ERR_NOTIMPL ''Unknown PTE format'' []))"

definition first_step :: "readers \<Rightarrow> addr_t \<Rightarrow> step_fn" where
  "first_step R addr st ctx =
     (case kind (step_meth st) of
        ADDRXLAT_NOMETH \<Rightarrow> Some (step_error st ctx ADDRXLAT_ERR_NOMETH ''Null translation method'' [])
      | ADDRXLAT_CUSTOM \<Rightarrow> custom_first (customs R) (custom (step_meth st)) addr st ctx
      | ADDRXLAT_LINEAR \<Rightarrow> Some (first_step_linear st addr ctx)
      | ADDRXLAT_PGT \<Rightarrow> Some (first_step_pgt st addr ctx)
      | ADDRXLAT_LOOKUP \<Rightarrow> Some (first_step_lookup st addr ctx)
      | ADDRXLAT_MEMARR \<Rightarrow> Some (first_step_memarr st addr ctx)
      | ADDRXLAT_KIND_OTHER _ \<Rightarrow>
          Some (step_error st ctx ADDRXLAT_ERR_NOTIMPL ''Unknown translation kind'' []))"

definition next_step :: "readers \<Rightarrow> step_fn" where
  "next_step R st ctx =
     (case kind (step_meth st) of
        ADDRXLAT_NOMETH \<Rightarrow> Some (step_error st ctx ADDRXLAT_ERR_NOMETH ''Null translation method'' [])
      | ADDRXLAT_CUSTOM \<Rightarrow> custom_next (customs R) (custom (step_meth st)) st ctx
      | ADDRXLAT_LINEAR \<Rightarrow> Some (ADDRXLAT_OK, st, ctx)
      | ADDRXLAT_LOOKUP \<Rightarrow> Some (ADDRXLAT_OK, st, ctx)
      | ADDRXLAT_PGT \<Rightarrow> next_step_pgt R st ctx
      | ADDRXLAT_MEMARR \<Rightarrow> next_step_memarr R st ctx
      | ADDRXLAT_KIND_OTHER _ \<Rightarrow>
          Some (step_error st ctx ADDRXLAT_ERR_NOTIMPL ''Unknown translation kind'' []))"

definition launch :: "readers \<Rightarrow> addr_t \<Rightarrow> step_fn" where
  "launch R addr st ctx = first_step R addr st (clear_error ctx)"

text \<open>
  Both ways to move on add the index of the next level to the base address; at the last level
  the base is the result of the translation.
\<close>

definition advance :: "step \<Rightarrow> step" where
  "advance st =
     st\<lparr>base := (base st)\<lparr>fa_addr := fa_addr (base st) + idx st ! remain st * ucast (elemsz st)\<rparr>\<rparr>"

definition finish :: "step \<Rightarrow> step" where
  "finish st = st\<lparr>base := (base st)\<lparr>fa_as := target_as (step_meth st)\<rparr>, elemsz := 0\<rparr>"

definition xlat_step :: "readers \<Rightarrow> step_fn" where
  "xlat_step R st ctx =
     (let ctx = clear_error ctx
      in if remain st = 0 then Some (ADDRXLAT_OK, st, ctx)
      else
        let st = advance (st\<lparr>remain := remain st - 1\<rparr>)
        in if remain st = 0 then Some (ADDRXLAT_OK, finish st, ctx) else next_step R st ctx)"

text \<open>
  The loop of \<open>addrxlat_walk\<close>. A custom step that leaves no remaining steps makes the counter
  wrap and the walk leave the index array: no result.
\<close>

partial_function (option) walk_loop :: "readers \<Rightarrow> step \<Rightarrow> xctx \<Rightarrow> (status \<times> step \<times> xctx) option" where
  "walk_loop R st ctx =
     (if remain st = 0 then None
      else
        let st = advance (st\<lparr>remain := remain st - 1\<rparr>)
        in if remain st = 0 then Some (ADDRXLAT_OK, finish st, ctx)
        else do {
          (status, st, ctx) \<leftarrow> next_step R st ctx;
          if status \<noteq> ADDRXLAT_OK then Some (status, st, ctx) else walk_loop R st ctx
        })"

definition walk :: "readers \<Rightarrow> step_fn" where
  "walk R st ctx = do {
     (status, st, ctx) \<leftarrow> first_step R (fa_addr (base st)) st (clear_error ctx);
     if status \<noteq> ADDRXLAT_OK \<or> remain st = 0 then Some (status, st, ctx) else walk_loop R st ctx
   }"

subsection \<open>Steps keep the frame of the context\<close>

definition customs_keep :: "(xctx \<Rightarrow> bool) \<Rightarrow> customs \<Rightarrow> bool" where
  "customs_keep Inv C \<longleftrightarrow>
     (\<forall>i a st ctx status st' ctx'. Inv ctx \<longrightarrow>
        (custom_first C i a st ctx = Some (status, st', ctx') \<longrightarrow> Inv ctx' \<and> same_frame ctx ctx')
        \<and> (custom_next C i st ctx = Some (status, st', ctx') \<longrightarrow> Inv ctx' \<and> same_frame ctx ctx'))"

definition env_keeps :: "(xctx \<Rightarrow> bool) \<Rightarrow> readers \<Rightarrow> bool" where
  "env_keeps Inv R \<longleftrightarrow> inv_closed Inv \<and> readers_keep Inv R \<and> customs_keep Inv (customs R)"

definition keeps_frame :: "(xctx \<Rightarrow> bool) \<Rightarrow> xctx \<Rightarrow> status \<times> step \<times> xctx \<Rightarrow> bool" where
  "keeps_frame Inv ctx r \<longleftrightarrow> same_frame ctx (snd (snd r)) \<and> Inv (snd (snd r))"

lemma customs_keepD:
  assumes "customs_keep Inv C" and "Inv ctx"
  shows "custom_first C i a st ctx = Some r \<Longrightarrow> keeps_frame Inv ctx r"
    and "custom_next C i st ctx = Some r \<Longrightarrow> keeps_frame Inv ctx r"
  using assms unfolding customs_keep_def keeps_frame_def by (metis prod.collapse)+

lemma inv_closedD:
  "inv_closed Inv \<Longrightarrow> Inv ctx \<Longrightarrow> same_frame ctx ctx' \<Longrightarrow> cache ctx' = cache ctx \<Longrightarrow> Inv ctx'"
  unfolding inv_closed_def by blast

lemma keeps_frame_step_error:
  "inv_closed Inv \<Longrightarrow> Inv ctx \<Longrightarrow> keeps_frame Inv ctx (step_error st ctx status fmt args)"
  unfolding keeps_frame_def step_error_def set_error_def
  by (auto simp: same_frame_def intro: inv_closedD)

lemma keeps_frame_same: "Inv ctx \<Longrightarrow> keeps_frame Inv ctx (status, st, ctx)"
  by (simp add: keeps_frame_def)

lemma step_keeps_frame: "step_keeps st ctx r \<and> Inv (snd (snd r)) \<Longrightarrow> keeps_frame Inv ctx r"
  by (auto simp: step_keeps_def keeps_frame_def)

lemma decoded_pte_keeps:
  assumes "pte_decoder decode" and "inv_closed Inv" and "reader_keeps Inv rd" and "Inv ctx"
    and "0 < remain st" and "with_pte rd decode st ctx = Some r"
  shows "step_keeps st ctx r \<and> Inv (snd (snd r))"
  using pte_decoder.with_pte_keeps [OF assms] .

lemmas pgt_defs = next_step_pfn32_def next_step_pfn64_def pgt_aarch64_def pgt_aarch64_lpa_def
  pgt_aarch64_lpa2_def pgt_arm_def pgt_ia32_def pgt_ia32_pae_def pgt_riscv64_def pgt_x86_64_def
  pgt_s390x_def pgt_ppc64_linux_rpn30_def pgt_ppc64_linux_def

lemmas decoders = pfn.pte_decoder_axioms aarch64.pte_decoder_axioms aarch64_lpa.pte_decoder_axioms
  aarch64_lpa2.pte_decoder_axioms arm.pte_decoder_axioms ia32.pte_decoder_axioms
  ia32_pae.pte_decoder_axioms riscv64.pte_decoder_axioms x86_64.pte_decoder_axioms
  s390x.pte_decoder_axioms ppc64.pte_decoder_axioms

lemma next_step_pgt_keeps:
  assumes "inv_closed Inv" and "readers_keep Inv R" and "Inv ctx" and "0 < remain st"
    and "next_step_pgt R st ctx = Some r"
  shows "step_keeps st ctx r \<and> Inv (snd (snd r))"
proof -
  have rd: "reader_keeps Inv (rd32 R)" "reader_keeps Inv (rd64 R)"
    using assms(2) by (simp_all add: readers_keep_def)
  have silent: "step_keeps st ctx (ADDRXLAT_OK, st, ctx)"
    using assms(4) by (simp add: step_keeps_def)
  have err: "step_keeps st ctx (step_error st ctx ADDRXLAT_ERR_NOTIMPL fmt args)
      \<and> Inv (snd (snd (step_error st ctx ADDRXLAT_ERR_NOTIMPL fmt args)))" for fmt args
    using keeps_step_error [of ADDRXLAT_ERR_NOTIMPL st ctx fmt args]
      keeps_frame_step_error [OF assms(1,3), of st ADDRXLAT_ERR_NOTIMPL fmt args]
    by (simp add: keeps_all_def keeps_frame_def)
  note w = decoded_pte_keeps [OF _ assms(1) _ assms(3,4)]
  note run = assms(5) [unfolded next_step_pgt_def pgt_defs]
  show ?thesis
  proof (cases "pf_format (pgt_pf (step_meth st))")
    case ADDRXLAT_PTE_PFN32
    then show ?thesis
      using run by (intro w [OF pfn.pte_decoder_axioms rd(1)]) simp
  next
    case ADDRXLAT_PTE_PFN64
    then show ?thesis
      using run by (intro w [OF pfn.pte_decoder_axioms rd(2)]) simp
  next
    case ADDRXLAT_PTE_AARCH64
    then show ?thesis
      using run by (intro w [OF aarch64.pte_decoder_axioms rd(2)]) simp
  next
    case ADDRXLAT_PTE_AARCH64_LPA
    then show ?thesis
      using run by (intro w [OF aarch64_lpa.pte_decoder_axioms rd(2)]) simp
  next
    case ADDRXLAT_PTE_AARCH64_LPA2
    then show ?thesis
      using run by (intro w [OF aarch64_lpa2.pte_decoder_axioms rd(2)]) simp
  next
    case ADDRXLAT_PTE_ARM
    then show ?thesis
      using run by (intro w [OF arm.pte_decoder_axioms rd(1)]) simp
  next
    case ADDRXLAT_PTE_IA32
    then show ?thesis
      using run by (intro w [OF ia32.pte_decoder_axioms rd(1)]) simp
  next
    case ADDRXLAT_PTE_IA32_PAE
    then show ?thesis
      using run by (intro w [OF ia32_pae.pte_decoder_axioms rd(2)]) simp
  next
    case ADDRXLAT_PTE_X86_64
    then show ?thesis
      using run by (intro w [OF x86_64.pte_decoder_axioms rd(2)]) simp
  next
    case ADDRXLAT_PTE_RISCV64
    then show ?thesis
      using run by (intro w [OF riscv64.pte_decoder_axioms rd(2)]) simp
  next
    case ADDRXLAT_PTE_S390X
    then show ?thesis
      using run by (intro w [OF s390x.pte_decoder_axioms rd(2)]) simp
  next
    case ADDRXLAT_PTE_PPC64_LINUX_RPN30
    then show ?thesis
      using run by (intro w [OF ppc64.pte_decoder_axioms rd(2)]) simp
  qed (use run silent err assms(3) in auto)
qed

lemma next_step_keeps:
  assumes "env_keeps Inv R" and "Inv ctx" and "0 < remain st" and "next_step R st ctx = Some r"
  shows "keeps_frame Inv ctx r"
proof -
  have ic: "inv_closed Inv" and rk: "readers_keep Inv R" and ck: "customs_keep Inv (customs R)"
    using assms(1) by (simp_all add: env_keeps_def)
  have memarr: "keeps_frame Inv ctx r" if mem: "next_step_memarr R st ctx = Some r"
  proof (cases "ma_valsz (step_meth st) = 4 \<or> ma_valsz (step_meth st) = 8")
    case True
    define rd where "rd = (if ma_valsz (step_meth st) = 4 then rd32 R else rd64 R)"
    obtain status v ctx1 where
        "rd (step_sys st) (base st) ''memory array element'' ctx = Some (status, v, ctx1)"
        "snd (snd r) = ctx1"
      using mem True by (auto simp: next_step_memarr_def Let_def rd_def bind_Some_iff split: if_splits)
    moreover have "reader_keeps Inv rd"
      using rk by (simp add: rd_def readers_keep_def)
    ultimately show ?thesis
      using assms(2) unfolding reader_keeps_def keeps_frame_def by blast
  next
    case False
    then show ?thesis
      using mem keeps_frame_step_error [OF ic assms(2)] by (auto simp: next_step_memarr_def Let_def)
  qed
  show ?thesis
  proof (cases "kind (step_meth st)")
    case ADDRXLAT_CUSTOM
    then show ?thesis
      using assms(4) customs_keepD(2) [OF ck assms(2)] by (simp add: next_step_def)
  next
    case ADDRXLAT_PGT
    then show ?thesis
      using assms(4) next_step_pgt_keeps [OF ic rk assms(2,3)] step_keeps_frame
      by (simp add: next_step_def)
  qed (use assms(2,4) memarr keeps_frame_step_error [OF ic assms(2)] in
        \<open>auto simp: next_step_def keeps_frame_same\<close>)
qed

lemma first_step_keeps:
  assumes "env_keeps Inv R" and "Inv ctx" and "first_step R addr st ctx = Some r"
  shows "keeps_frame Inv ctx r"
proof -
  have ic: "inv_closed Inv" and ck: "customs_keep Inv (customs R)"
    using assms(1) by (simp_all add: env_keeps_def)
  note err = keeps_frame_step_error [OF ic assms(2)] keeps_frame_same [of Inv ctx, OF assms(2)]
  have gen: "keeps_frame Inv ctx (first_step_pgt_generic st addr ctx)"
    using err by (simp add: first_step_pgt_generic_def Let_def)
  have chk: "keeps_frame Inv ctx (step_check_uaddr st' ctx')"
      "keeps_frame Inv ctx (step_check_saddr st' ctx')"
    if "first_step_pgt_generic st addr ctx = (ADDRXLAT_OK, st', ctx')" for st' ctx'
  proof -
    have "ctx' = ctx"
      using that by (auto simp: first_step_pgt_generic_def step_error_def set_error_def Let_def split: if_splits)
    then show "keeps_frame Inv ctx (step_check_uaddr st' ctx')"
      "keeps_frame Inv ctx (step_check_saddr st' ctx')"
      using err by (simp_all add: step_check_uaddr_def step_check_saddr_def Let_def)
  qed
  have addrs: "keeps_frame Inv ctx (first_step_uaddr st addr ctx)"
      "keeps_frame Inv ctx (first_step_saddr st addr ctx)"
    using gen chk unfolding first_step_uaddr_def first_step_saddr_def
    by (cases "first_step_pgt_generic st addr ctx"; simp)+
  have pgt: "keeps_frame Inv ctx (first_step_pgt st addr ctx)"
    unfolding first_step_pgt_def by (simp add: gen addrs err split: pte_format.split)
  have lookup: "keeps_frame Inv ctx (first_step_lookup st addr ctx)"
    by (simp add: first_step_lookup_def Let_def err split: option.split)
  note run = assms(3) [unfolded first_step_def]
  show ?thesis
  proof (cases "kind (step_meth st)")
    case ADDRXLAT_CUSTOM
    then show ?thesis
      using run customs_keepD(1) [OF ck assms(2)] by simp
  next
    case ADDRXLAT_PGT
    then show ?thesis using run pgt by simp
  next
    case ADDRXLAT_LOOKUP
    then show ?thesis using run lookup by simp
  next
    case ADDRXLAT_LINEAR
    then show ?thesis using run err(2) by (auto simp: first_step_linear_def)
  next
    case ADDRXLAT_MEMARR
    then show ?thesis using run err(2) by (auto simp: first_step_memarr_def Let_def)
  next
    case ADDRXLAT_NOMETH
    then show ?thesis using run err(1) by auto
  next
    case (ADDRXLAT_KIND_OTHER n)
    then show ?thesis using run err(1) by auto
  qed
qed

lemma keeps_frame_trans:
  "keeps_frame Inv ctx (status, st, ctx1) \<Longrightarrow> keeps_frame Inv ctx1 r \<Longrightarrow> keeps_frame Inv ctx r"
  by (auto simp: keeps_frame_def intro: same_frame_trans)

lemma walk_loop_keeps:
  assumes "walk_loop R st ctx = Some r" and "env_keeps Inv R" and "Inv ctx"
  shows "keeps_frame Inv ctx r"
proof -
  have "env_keeps Inv R \<longrightarrow> Inv ctx \<longrightarrow> keeps_frame Inv ctx r"
  proof (rule walk_loop.raw_induct
      [of "\<lambda>R st ctx r. env_keeps Inv R \<longrightarrow> Inv ctx \<longrightarrow> keeps_frame Inv ctx r", OF _ assms(1)], intro impI)
    fix walk_loop R st ctx r
    assume IH: "\<And>R st ctx r. walk_loop R st ctx = Some r \<Longrightarrow>
          env_keeps Inv R \<longrightarrow> Inv ctx \<longrightarrow> keeps_frame Inv ctx r"
      and body: "(if remain st = 0 then None
          else let st = advance (st\<lparr>remain := remain st - 1\<rparr>)
            in if remain st = 0 then Some (ADDRXLAT_OK, finish st, ctx)
              else next_step R st ctx \<bind>
                (\<lambda>(status, st, ctx). if status \<noteq> ADDRXLAT_OK then Some (status, st, ctx)
                   else walk_loop R st ctx)) = Some r"
      and env: "env_keeps Inv R" and inv: "Inv ctx"
    define st1 where "st1 = advance (st\<lparr>remain := remain st - 1\<rparr>)"
    show "keeps_frame Inv ctx r"
    proof (cases "remain st1 = 0")
      case True
      then show ?thesis
        using body inv by (auto simp: st1_def Let_def keeps_frame_def split: if_splits)
    next
      case False
      then obtain status st2 ctx2 where n: "next_step R st1 ctx = Some (status, st2, ctx2)"
          "(if status \<noteq> ADDRXLAT_OK then Some (status, st2, ctx2) else walk_loop R st2 ctx2) = Some r"
        using body by (auto simp: st1_def Let_def bind_Some_iff split: if_splits)
      then have k: "keeps_frame Inv ctx (status, st2, ctx2)"
        using next_step_keeps [OF env inv _ n(1)] False by simp
      show ?thesis
        using n(2) k IH [of R st2 ctx2 r] env keeps_frame_trans [OF k]
        by (auto simp: keeps_frame_def split: if_splits)
    qed
  qed
  then show ?thesis
    using assms by blast
qed

lemma walk_keeps:
  assumes "walk R st ctx = Some r" and "env_keeps Inv R" and "Inv ctx"
  shows "keeps_frame Inv ctx r"
proof -
  have inv: "Inv (clear_error ctx)" "same_frame ctx (clear_error ctx)"
    using assms(2,3) by (auto simp: env_keeps_def clear_error_def same_frame_def intro: inv_closedD)
  obtain status st1 ctx1 where f:
      "first_step R (fa_addr (base st)) st (clear_error ctx) = Some (status, st1, ctx1)"
      "(if status \<noteq> ADDRXLAT_OK \<or> remain st1 = 0 then Some (status, st1, ctx1)
        else walk_loop R st1 ctx1) = Some r"
    using assms(1) by (auto simp: walk_def bind_Some_iff)
  have "keeps_frame Inv (clear_error ctx) (status, st1, ctx1)"
    by (rule first_step_keeps [OF assms(2) inv(1) f(1)])
  then have k: "keeps_frame Inv ctx (status, st1, ctx1)"
    using same_frame_trans [OF inv(2)] by (simp add: keeps_frame_def)
  then have "Inv ctx1"
    by (simp add: keeps_frame_def)
  then show ?thesis
    using f(2) k keeps_frame_trans [OF k] walk_loop_keeps [OF _ assms(2), of st1 ctx1 r]
    by (cases "status \<noteq> ADDRXLAT_OK \<or> remain st1 = 0") auto
qed

subsection \<open>Walks with equal readers are equal\<close>

text \<open>
  Two environments agree on an invariant if they read the same and run the same custom steps
  in every context where it holds. Then they make the same walks.
\<close>

definition agree :: "(xctx \<Rightarrow> bool) \<Rightarrow> readers \<Rightarrow> readers \<Rightarrow> bool" where
  "agree Inv R S \<longleftrightarrow> customs R = customs S \<and>
     (\<forall>sys a what ctx. Inv ctx \<longrightarrow>
        rd32 R sys a what ctx = rd32 S sys a what ctx \<and> rd64 R sys a what ctx = rd64 S sys a what ctx)"

lemma with_pte_agree:
  "(\<And>sys a what. rd sys a what ctx = rd' sys a what ctx) \<Longrightarrow>
   with_pte rd decode st ctx = with_pte rd' decode st ctx"
  by (simp add: with_pte_def read_pte_def)

lemma next_step_agree:
  assumes "agree Inv R S" and "Inv ctx"
  shows "next_step R st ctx = next_step S st ctx"
proof -
  have rd: "rd32 R sys a what ctx = rd32 S sys a what ctx"
      "rd64 R sys a what ctx = rd64 S sys a what ctx" for sys a what
    using assms by (simp_all add: agree_def)
  note w = with_pte_agree [of "rd32 R" ctx "rd32 S", OF rd(1)]
    with_pte_agree [of "rd64 R" ctx "rd64 S", OF rd(2)]
  have "next_step_pgt R st ctx = next_step_pgt S st ctx"
    unfolding next_step_pgt_def pgt_defs by (simp add: w split: pte_format.split)
  moreover have "next_step_memarr R st ctx = next_step_memarr S st ctx"
    by (simp add: next_step_memarr_def rd Let_def)
  ultimately show ?thesis
    using assms(1) by (simp add: next_step_def agree_def split: kind.split)
qed

lemma walk_loop_agree:
  assumes "walk_loop R st ctx = Some r" and "agree Inv R S" and "env_keeps Inv R" and "Inv ctx"
  shows "walk_loop S st ctx = Some r"
proof -
  have "agree Inv R S \<longrightarrow> env_keeps Inv R \<longrightarrow> Inv ctx \<longrightarrow> walk_loop S st ctx = Some r"
  proof (rule walk_loop.raw_induct [of "\<lambda>R st ctx r. agree Inv R S \<longrightarrow> env_keeps Inv R \<longrightarrow> Inv ctx \<longrightarrow>
        walk_loop S st ctx = Some r", OF _ assms(1)], intro impI)
    fix wl R st ctx r
    assume IH: "\<And>R st ctx r. wl R st ctx = Some r \<Longrightarrow>
          agree Inv R S \<longrightarrow> env_keeps Inv R \<longrightarrow> Inv ctx \<longrightarrow> walk_loop S st ctx = Some r"
      and body: "(if remain st = 0 then None
          else let st = advance (st\<lparr>remain := remain st - 1\<rparr>)
            in if remain st = 0 then Some (ADDRXLAT_OK, finish st, ctx)
              else next_step R st ctx \<bind>
                (\<lambda>(status, st, ctx). if status \<noteq> ADDRXLAT_OK then Some (status, st, ctx)
                   else wl R st ctx)) = Some r"
      and ag: "agree Inv R S" and env: "env_keeps Inv R" and inv: "Inv ctx"
    define st1 where "st1 = advance (st\<lparr>remain := remain st - 1\<rparr>)"
    note eq = next_step_agree [OF ag inv, of st1]
    have nz: "remain st \<noteq> 0"
      using body by (auto split: if_splits)
    show "walk_loop S st ctx = Some r"
    proof (cases "remain st1 = 0")
      case True
      then show ?thesis
        using body nz by (subst walk_loop.simps) (simp add: st1_def Let_def)
    next
      case False
      then obtain status st2 ctx2 where n: "next_step R st1 ctx = Some (status, st2, ctx2)"
          "(if status \<noteq> ADDRXLAT_OK then Some (status, st2, ctx2) else wl R st2 ctx2) = Some r"
        using body nz by (auto simp: st1_def Let_def bind_Some_iff split: if_splits)
      have "Inv ctx2"
        using next_step_keeps [OF env inv _ n(1)] False by (simp add: keeps_frame_def)
      then have "(if status \<noteq> ADDRXLAT_OK then Some (status, st2, ctx2) else walk_loop S st2 ctx2) = Some r"
        using n(2) IH [of R st2 ctx2 r] ag env by (auto split: if_splits)
      then show ?thesis
        using nz False n(1) [unfolded eq] unfolding st1_def by (subst walk_loop.simps) (simp add: Let_def)
    qed
  qed
  then show ?thesis
    using assms by blast
qed

lemma agree_sym: "agree Inv R S \<Longrightarrow> agree Inv S R"
  by (auto simp: agree_def)

lemma walk_agree:
  assumes ag: "agree Inv R S" and R: "env_keeps Inv R" and S: "env_keeps Inv S" and inv: "Inv ctx"
  shows "walk R st ctx = walk S st ctx"
proof -
  have inv': "Inv (clear_error ctx)"
    using R inv by (auto simp: env_keeps_def clear_error_def same_frame_def intro: inv_closedD)
  have loop: "walk_loop R st1 ctx1 = walk_loop S st1 ctx1" if "Inv ctx1" for st1 ctx1
    using walk_loop_agree [OF _ ag R that] walk_loop_agree [OF _ agree_sym [OF ag] S that]
    by (metis not_None_eq)
  have first: "first_step R a st' ctx' = first_step S a st' ctx'" for a st' ctx'
    using ag by (simp add: first_step_def agree_def split: kind.split)
  show ?thesis
    unfolding walk_def first
  proof (rule bind_cong_Some [OF refl])
    fix x
    assume x: "first_step S (fa_addr (base st)) st (clear_error ctx) = Some x"
    then have "Inv (snd (snd x))"
      using first_step_keeps [OF S inv' x] by (simp add: keeps_frame_def)
    then show "(case x of (status, st, ctx) \<Rightarrow>
          if status \<noteq> ADDRXLAT_OK \<or> remain st = 0 then Some (status, st, ctx) else walk_loop R st ctx)
        = (case x of (status, st, ctx) \<Rightarrow>
          if status \<noteq> ADDRXLAT_OK \<or> remain st = 0 then Some (status, st, ctx) else walk_loop S st ctx)"
      using loop by (cases x) auto
  qed
qed

end
