(* ===== verification/Xlat_Op.thy ===== *)
theory Xlat_Op
  imports Xlat_Walk
begin

section \<open>Operations on translated addresses (src/addrxlat/sys.c, ctx.c)\<close>

text \<open>
  \<open>addrxlat_op\<close> tries the maps of a translation system, in the order of a chain, until it has
  an address the caller can use. A page table walk reads its entries by such an operation
  again, so translations nest. The nesting is the fuel of the readers: the list of
  translations in flight bounds it, and with more fuel than there are translations nothing
  changes.
\<close>

subsection \<open>The chains\<close>

definition chain_alts :: "xlat_chain \<Rightarrow> sys_map list list" where
  "chain_alts chain =
     (case chain of
        KV2PHYS \<Rightarrow> [[ADDRXLAT_SYS_MAP_KV_PHYS, ADDRXLAT_SYS_MAP_HW],
                    [ADDRXLAT_SYS_MAP_MACHPHYS_KPHYS, ADDRXLAT_SYS_MAP_KPHYS_MACHPHYS]]
      | KPHYS2MACHPHYS \<Rightarrow> [[ADDRXLAT_SYS_MAP_KPHYS_MACHPHYS]]
      | KPHYS2DIRECT \<Rightarrow> [[ADDRXLAT_SYS_MAP_KPHYS_DIRECT]]
      | KPHYS2ANY \<Rightarrow> [[ADDRXLAT_SYS_MAP_KPHYS_MACHPHYS, ADDRXLAT_SYS_MAP_KPHYS_DIRECT]]
      | MACHPHYS2DIRECT \<Rightarrow> [[ADDRXLAT_SYS_MAP_MACHPHYS_KPHYS], [ADDRXLAT_SYS_MAP_KPHYS_DIRECT]])"

definition map_expect_as :: "sys_map \<Rightarrow> addrspace" where
  "map_expect_as i =
     (case i of
        ADDRXLAT_SYS_MAP_HW \<Rightarrow> ADDRXLAT_KVADDR
      | ADDRXLAT_SYS_MAP_KV_PHYS \<Rightarrow> ADDRXLAT_KVADDR
      | ADDRXLAT_SYS_MAP_KPHYS_DIRECT \<Rightarrow> ADDRXLAT_KPHYSADDR
      | ADDRXLAT_SYS_MAP_MACHPHYS_KPHYS \<Rightarrow> ADDRXLAT_MACHPHYSADDR
      | ADDRXLAT_SYS_MAP_KPHYS_MACHPHYS \<Rightarrow> ADDRXLAT_KPHYSADDR)"

subsection \<open>The operation\<close>

text \<open>
  \<open>addrxlat_op_ctl_t\<close> without the context, which is passed along. \<open>data\<close> is the state the
  operation may change: the operation gets and returns it.
\<close>

type_synonym 'd op_fn = "'d \<Rightarrow> fulladdr \<Rightarrow> xctx \<Rightarrow> (status \<times> 'd \<times> xctx) option"

record 'd op_ctl =
  ctl_sys :: "xsys option"
  ctl_op :: "'d op_fn"
  ctl_caps :: u64

text \<open>
  The step state on the stack of \<open>do_op\<close>. The members that C leaves uninitialised are zero
  here; the first step of every built-in method assigns all it uses.
\<close>

definition init_step :: "xsys option \<Rightarrow> xmeth \<Rightarrow> addr_t \<Rightarrow> step" where
  "init_step sys m addr = \<lparr>step_sys = sys, step_meth = m, remain = 0, elemsz = 0,
     base = \<lparr>fa_addr = addr, fa_as = ADDRXLAT_NOADDR\<rparr>, raw = 0,
     idx = replicate (ADDRXLAT_FIELDS_MAX + 1) 0\<rparr>"

text \<open>
  The inner loop of \<open>do_op\<close>: \<open>Inl\<close> is a return from the function, \<open>Inr\<close> the address that the
  next link of the chain starts from.
\<close>

fun try_alts ::
  "readers \<Rightarrow> 'd op_ctl \<Rightarrow> xsys \<Rightarrow> sys_map list \<Rightarrow> fulladdr \<Rightarrow> 'd \<Rightarrow> xctx \<Rightarrow>
   ((status \<times> 'd \<times> xctx) + (fulladdr \<times> xctx)) option" where
  "try_alts R ctl sys [] paddr d ctx = Some (Inr (paddr, ctx))"
| "try_alts R ctl sys (mapidx # alts) paddr d ctx =
     (if fa_as paddr \<noteq> map_expect_as mapidx then try_alts R ctl sys alts paddr d ctx
      else
        case sys_maps sys mapidx of
          None \<Rightarrow> try_alts R ctl sys alts paddr d ctx
        | Some m \<Rightarrow>
            let ctx = clear_error ctx; methidx = map_search m (fa_addr paddr)
            in if methidx = ADDRXLAT_SYS_METH_NONE then try_alts R ctl sys alts paddr d ctx
            else
              let mt = sys_meths sys methidx
              in if kind mt = ADDRXLAT_LINEAR then
                   let lastbase = \<lparr>fa_addr = fa_addr paddr + lin_off mt, fa_as = target_as mt\<rparr>
                   in if has_cap (ctl_caps ctl) (fa_as lastbase)
                      then map_option Inl (ctl_op ctl d lastbase ctx)
                      else Some (Inr (lastbase, ctx))
                 else do {
                   (status, st, ctx) \<leftarrow> walk R (init_step (Some sys) mt (fa_addr paddr)) ctx;
                   if status = ADDRXLAT_OK then
                     (if has_cap (ctl_caps ctl) (fa_as (base st))
                      then map_option Inl (ctl_op ctl d (base st) ctx)
                      else Some (Inr (base st, ctx)))
                   else if status \<noteq> ADDRXLAT_ERR_NOMETH \<and> status \<noteq> ADDRXLAT_ERR_NODATA
                   then Some (Inl (status, d, ctx))
                   else try_alts R ctl sys alts paddr d ctx
                 })"

fun run_chain ::
  "readers \<Rightarrow> 'd op_ctl \<Rightarrow> xsys \<Rightarrow> sys_map list list \<Rightarrow> fulladdr \<Rightarrow> 'd \<Rightarrow> xctx \<Rightarrow>
   (status \<times> 'd \<times> xctx) option" where
  "run_chain R ctl sys [] paddr d ctx =
     (let (status, ctx) = set_error ctx ADDRXLAT_ERR_NOMETH ''No way to translate'' []
      in Some (status, d, ctx))"
| "run_chain R ctl sys (alts # chain) paddr d ctx = do {
     r \<leftarrow> try_alts R ctl sys alts paddr d ctx;
     case r of
       Inl result \<Rightarrow> Some result
     | Inr (paddr, ctx) \<Rightarrow> run_chain R ctl sys chain paddr d ctx
   }"

definition do_op ::
  "readers \<Rightarrow> 'd op_ctl \<Rightarrow> xsys \<Rightarrow> fulladdr \<Rightarrow> xlat_chain \<Rightarrow> 'd \<Rightarrow> xctx \<Rightarrow> (status \<times> 'd \<times> xctx) option"
where
  "do_op R ctl sys paddr chain d ctx = run_chain R ctl sys (chain_alts chain) paddr d ctx"

definition op_chain :: "u64 \<Rightarrow> addrspace \<Rightarrow> xlat_chain option" where
  "op_chain caps a =
     (case a of
        ADDRXLAT_KVADDR \<Rightarrow> Some KV2PHYS
      | ADDRXLAT_KPHYSADDR \<Rightarrow>
          Some (if has_cap caps ADDRXLAT_MACHPHYSADDR
                then if has_cap caps ADDRXLAT_KVADDR then KPHYS2ANY else KPHYS2MACHPHYS
                else KPHYS2DIRECT)
      | ADDRXLAT_MACHPHYSADDR \<Rightarrow> Some MACHPHYS2DIRECT
      | ADDRXLAT_NOADDR \<Rightarrow> None)"

definition op_error :: "'d \<Rightarrow> xctx \<Rightarrow> status \<Rightarrow> string \<Rightarrow> status \<times> 'd \<times> xctx" where
  "op_error d ctx status fmt = (let (status, ctx) = set_error ctx status fmt [] in (status, d, ctx))"

definition xlat_op :: "readers \<Rightarrow> 'd op_ctl \<Rightarrow> fulladdr \<Rightarrow> 'd \<Rightarrow> xctx \<Rightarrow> (status \<times> 'd \<times> xctx) option" where
  "xlat_op R ctl paddr d ctx =
     (let ctx = clear_error ctx; caps = ctl_caps ctl
      in if has_cap caps (fa_as paddr) then ctl_op ctl d paddr ctx
      else if caps AND (ADDRXLAT_CAPS ADDRXLAT_KVADDR OR ADDRXLAT_CAPS ADDRXLAT_KPHYSADDR
                         OR ADDRXLAT_CAPS ADDRXLAT_MACHPHYSADDR) = 0
      then Some (op_error d ctx ADDRXLAT_ERR_NOMETH ''No suitable capabilities'')
      else
        case ctl_sys ctl of
          None \<Rightarrow> Some (op_error d ctx ADDRXLAT_ERR_NOMETH ''No translation system'')
        | Some sys \<Rightarrow>
            (case op_chain caps (fa_as paddr) of
               None \<Rightarrow> Some (op_error d ctx ADDRXLAT_ERR_NOTIMPL ''Unrecognized address space'')
             | Some chain \<Rightarrow>
                 if (paddr, chain) \<in> set (inflight ctx)
                 then Some (op_error d ctx ADDRXLAT_ERR_NOMETH ''Infinite recursion loop'')
                 else do {
                   let saved = inflight ctx;
                   (status, d, ctx) \<leftarrow>
                     do_op R ctl sys paddr chain d (ctx\<lparr>inflight := (paddr, chain) # saved\<rparr>);
                   Some (status, d, ctx\<lparr>inflight := saved\<rparr>)
                 }))"

definition storeaddr :: "fulladdr op_fn" where
  "storeaddr d paddr ctx = Some (ADDRXLAT_OK, paddr, ctx)"

definition fulladdr_conv ::
  "readers \<Rightarrow> fulladdr \<Rightarrow> addrspace \<Rightarrow> xsys option \<Rightarrow> xctx \<Rightarrow> (status \<times> fulladdr \<times> xctx) option" where
  "fulladdr_conv R faddr a sys ctx =
     xlat_op R \<lparr>ctl_sys = sys, ctl_op = storeaddr, ctl_caps = ADDRXLAT_CAPS a\<rparr> faddr faddr ctx"

subsection \<open>Reads that translate their address\<close>

definition read_op :: "nat \<Rightarrow> u64 op_fn" where
  "read_op n d addr ctx = do_read n addr ctx"

text \<open>\<open>read32\<close> and \<open>read64\<close> differ in the number of bytes.\<close>

definition xlat_read :: "nat \<Rightarrow> readers \<Rightarrow> reader" where
  "xlat_read n R sys addr what ctx = do {
     caps \<leftarrow> call_read_caps (ctx_cb ctx);
     (status, v, ctx) \<leftarrow>
       (if has_cap caps (fa_as addr) then do_read n addr ctx
        else xlat_op R \<lparr>ctl_sys = sys, ctl_op = read_op n, ctl_caps = caps\<rparr> addr 0 ctx);
     let (status, ctx) = set_error ctx status ''Cannot read %d-bit %s at %s:0x%lx''
       [MNum (of_nat (8 * n)), MStr what, MStr (addrspace_name (fa_as addr)), MNum (fa_addr addr)];
     Some (status, v, ctx)
   }"

definition read32 :: "readers \<Rightarrow> reader" where
  "read32 R = xlat_read 4 R"

definition read64 :: "readers \<Rightarrow> reader" where
  "read64 R = xlat_read 8 R"

text \<open>
  Readers that allow \<open>n\<close> levels of nested translations. \<open>lib_readers\<close> are the functions of the
  library: the fuel exceeds the number of translations that can be in flight at a time.
\<close>

primrec fuel_readers :: "customs \<Rightarrow> nat \<Rightarrow> readers" where
  "fuel_readers C 0 = \<lparr>rd32 = \<lambda>sys a what ctx. None, rd64 = \<lambda>sys a what ctx. None, customs = C\<rparr>"
| "fuel_readers C (Suc n) =
     \<lparr>rd32 = read32 (fuel_readers C n), rd64 = read64 (fuel_readers C n), customs = C\<rparr>"

definition MAX_INFLIGHT :: nat where
  "MAX_INFLIGHT = 2 ^ 64 * 20"

definition lib_readers :: "customs \<Rightarrow> readers" where
  "lib_readers C = fuel_readers C (Suc MAX_INFLIGHT)"

subsection \<open>Operations restore the frame of the context\<close>

text \<open>An operation of the caller that restores the frame, and an invariant of frames.\<close>

definition op_keeps :: "'d op_fn \<Rightarrow> bool" where
  "op_keeps f \<longleftrightarrow> (\<forall>d a ctx status d' ctx'. f d a ctx = Some (status, d', ctx') \<longrightarrow> same_frame ctx ctx')"

definition frame_inv :: "(xctx \<Rightarrow> bool) \<Rightarrow> bool" where
  "frame_inv Inv \<longleftrightarrow> (\<forall>ctx ctx'. Inv ctx \<and> same_frame ctx ctx' \<longrightarrow> Inv ctx')"

abbreviation frames :: "readers \<Rightarrow> bool" where
  "frames R \<equiv> env_keeps (\<lambda>ctx. True) R"

lemma frame_inv_closed: "frame_inv Inv \<Longrightarrow> inv_closed Inv"
  by (auto simp: frame_inv_def inv_closed_def)

lemma frames_keep:
  assumes "frames R" and "frame_inv Inv"
  shows "env_keeps Inv R"
proof -
  have inv: "\<And>ctx ctx'. Inv ctx \<Longrightarrow> same_frame ctx ctx' \<Longrightarrow> Inv ctx'"
    using assms(2) unfolding frame_inv_def by blast
  show ?thesis
    using assms(1) frame_inv_closed [OF assms(2)]
    unfolding env_keeps_def readers_keep_def reader_keeps_def customs_keep_def
    by (intro conjI allI impI; meson inv)
qed

lemma frame_inv_True: "frame_inv (\<lambda>ctx. True)"
  by (simp add: frame_inv_def)

lemma frame_inv_same: "frame_inv (same_frame ctx)"
  by (auto simp: frame_inv_def intro: same_frame_trans)

lemma same_frame_set_error [simp]: "same_frame ctx (snd (set_error ctx status fmt args))"
  by (simp add: set_error_def same_frame_def)

lemma do_read_frame: "do_read n addr ctx = Some (status, v, ctx') \<Longrightarrow> same_frame ctx ctx'"
  by (auto simp: do_read_def ctx_cache_buf_def bind_Some_iff same_frame_def split: if_splits)

lemma op_keeps_read: "op_keeps (read_op n)"
  by (auto simp: op_keeps_def read_op_def dest: do_read_frame)

lemma op_keeps_storeaddr: "op_keeps storeaddr"
  by (simp add: op_keeps_def storeaddr_def)

text \<open>The context that a run of the inner loop leaves.\<close>

definition alts_ctx :: "(status \<times> 'd \<times> xctx) + (fulladdr \<times> xctx) \<Rightarrow> xctx" where
  "alts_ctx r = (case r of Inl (status, d, ctx) \<Rightarrow> ctx | Inr (a, ctx) \<Rightarrow> ctx)"

lemma try_alts_keeps:
  assumes R: "frames R" and op: "op_keeps (ctl_op ctl)"
    and "try_alts R ctl sys alts paddr d ctx = Some r"
  shows "same_frame ctx (alts_ctx r)"
  using assms(3)
proof (induction alts arbitrary: ctx)
  case Nil
  then show ?case by (auto simp: alts_ctx_def)
next
  case (Cons i alts)
  show ?case
  proof (cases "fa_as paddr \<noteq> map_expect_as i \<or> sys_maps sys i = None")
    case True
    then have "try_alts R ctl sys alts paddr d ctx = Some r"
      using Cons.prems by (cases "fa_as paddr = map_expect_as i") auto
    then show ?thesis
      by (rule Cons.IH)
  next
    case False
    then obtain m where m: "sys_maps sys i = Some m" by auto
    define mt where "mt = sys_meths sys (map_search m (fa_addr paddr))"
    define ctx1 where "ctx1 = clear_error ctx"
    have f1: "same_frame ctx ctx1" by (simp add: ctx1_def)
    have called: "same_frame ctx2 (alts_ctx r)"
      if "map_option Inl (ctl_op ctl d a ctx2) = Some r" for a ctx2
      using that op by (auto simp: op_keeps_def alts_ctx_def)
    consider (none) "map_search m (fa_addr paddr) = ADDRXLAT_SYS_METH_NONE"
      | (linear) "map_search m (fa_addr paddr) \<noteq> ADDRXLAT_SYS_METH_NONE" "kind mt = ADDRXLAT_LINEAR"
      | (walk) "map_search m (fa_addr paddr) \<noteq> ADDRXLAT_SYS_METH_NONE" "kind mt \<noteq> ADDRXLAT_LINEAR"
      by blast
    then show ?thesis
    proof cases
      case none
      then have "same_frame ctx1 (alts_ctx r)"
        using Cons.prems False m by (intro Cons.IH) (simp add: ctx1_def)
      then show ?thesis using f1 same_frame_trans by blast
    next
      case linear
      then have "same_frame ctx1 (alts_ctx r)"
        using Cons.prems False m called [of _ ctx1]
        by (auto simp: mt_def [symmetric] ctx1_def [symmetric] Let_def alts_ctx_def split: if_splits)
      then show ?thesis using f1 same_frame_trans by blast
    next
      case walk
      then obtain status st ctx2 where w:
          "walk R (init_step (Some sys) mt (fa_addr paddr)) ctx1 = Some (status, st, ctx2)"
          "(if status = ADDRXLAT_OK then
              (if has_cap (ctl_caps ctl) (fa_as (base st)) then map_option Inl (ctl_op ctl d (base st) ctx2)
               else Some (Inr (base st, ctx2)))
            else if status \<noteq> ADDRXLAT_ERR_NOMETH \<and> status \<noteq> ADDRXLAT_ERR_NODATA
            then Some (Inl (status, d, ctx2)) else try_alts R ctl sys alts paddr d ctx2) = Some r"
        using Cons.prems False m
        by (auto simp: mt_def [symmetric] ctx1_def [symmetric] Let_def bind_Some_iff)
      have "same_frame ctx1 ctx2"
        using walk_keeps [OF w(1) R] by (simp add: keeps_frame_def)
      moreover have "same_frame ctx2 (alts_ctx r)"
        using w(2) called [of _ ctx2] Cons.IH [of ctx2] by (auto simp: alts_ctx_def split: if_splits)
      ultimately show ?thesis using f1 same_frame_trans by blast
    qed
  qed
qed

lemma run_chain_keeps:
  assumes "frames R" and "op_keeps (ctl_op ctl)"
    and "run_chain R ctl sys chain paddr d ctx = Some (status, d', ctx')"
  shows "same_frame ctx ctx'"
  using assms(3)
proof (induction chain arbitrary: paddr ctx)
  case Nil
  then show ?case by (auto simp: set_error_def same_frame_def)
next
  case (Cons alts chain)
  then obtain r where r: "try_alts R ctl sys alts paddr d ctx = Some r"
      "(case r of Inl result \<Rightarrow> Some result | Inr (paddr, ctx) \<Rightarrow> run_chain R ctl sys chain paddr d ctx)
        = Some (status, d', ctx')"
    by (auto simp: bind_Some_iff)
  note k = try_alts_keeps [OF assms(1,2) r(1)]
  show ?case
    using r(2) k Cons.IH by (auto simp: alts_ctx_def split: sum.splits intro: same_frame_trans)
qed

lemma same_frame_inflight:
  "same_frame (ctx\<lparr>inflight := fl\<rparr>) ctx' \<Longrightarrow> same_frame ctx (ctx'\<lparr>inflight := inflight ctx\<rparr>)"
  by (simp add: same_frame_def)

text \<open>What is left of an operation when nothing is wrong with its arguments.\<close>

lemma xlat_op_cases:
  assumes "xlat_op R ctl paddr d ctx = Some (status, d', ctx')"
  obtains (direct) "has_cap (ctl_caps ctl) (fa_as paddr)"
      "ctl_op ctl d paddr (clear_error ctx) = Some (status, d', ctx')"
  | (error) fmt where "status \<in> {ADDRXLAT_ERR_NOMETH, ADDRXLAT_ERR_NOTIMPL}"
      "op_error d (clear_error ctx) status fmt = (status, d', ctx')"
  | (translated) sys chain ctx1 where "ctl_sys ctl = Some sys"
      "op_chain (ctl_caps ctl) (fa_as paddr) = Some chain" "(paddr, chain) \<notin> set (inflight ctx)"
      "do_op R ctl sys paddr chain d ((clear_error ctx)\<lparr>inflight := (paddr, chain) # inflight ctx\<rparr>)
        = Some (status, d', ctx1)"
      "ctx' = ctx1\<lparr>inflight := inflight ctx\<rparr>"
proof -
  have fl: "inflight (clear_error ctx) = inflight ctx"
    by (simp add: clear_error_def)
  have err: thesis if "op_error d (clear_error ctx) st fmt = (status, d', ctx')"
      and "st \<in> {ADDRXLAT_ERR_NOMETH, ADDRXLAT_ERR_NOTIMPL}" for st fmt
    using error [of fmt] that by (auto simp: op_error_def set_error_def)
  show ?thesis
    using assms direct translated err
    unfolding xlat_op_def Let_def fl
    by (auto simp: bind_Some_iff split: if_splits option.splits)
qed

lemma xlat_op_keeps:
  assumes "frames R" and "op_keeps (ctl_op ctl)"
    and "xlat_op R ctl paddr d ctx = Some (status, d', ctx')"
  shows "same_frame ctx ctx'"
  using assms(3)
proof (cases rule: xlat_op_cases)
  case direct
  then show ?thesis
    using assms(2) same_frame_trans [OF frame_clear_error] by (auto simp: op_keeps_def)
next
  case (error fmt)
  then show ?thesis
    by (auto simp: op_error_def set_error_def clear_error_def same_frame_def)
next
  case (translated sys chain ctx1)
  then have "same_frame ((clear_error ctx)\<lparr>inflight := (paddr, chain) # inflight ctx\<rparr>) ctx1"
    using run_chain_keeps [OF assms(1,2)] by (simp add: do_op_def)
  then show ?thesis
    using translated(5) by (simp add: same_frame_def clear_error_def)
qed

lemma set_error_msgs: "set_error ctx status fmt args = (status, snd (set_error ctx status fmt args))"
  by (simp add: set_error_def)

lemma xlat_read_cases:
  assumes "xlat_read n R sys addr what ctx = Some (status, v, ctx')"
  obtains caps ctx1 where "call_read_caps (ctx_cb ctx) = Some caps" "same_frame ctx1 ctx'"
    "(if has_cap caps (fa_as addr) then do_read n addr ctx
      else xlat_op R \<lparr>ctl_sys = sys, ctl_op = read_op n, ctl_caps = caps\<rparr> addr 0 ctx) = Some (status, v, ctx1)"
proof -
  obtain caps b where b: "call_read_caps (ctx_cb ctx) = Some caps"
      "(if has_cap caps (fa_as addr) then do_read n addr ctx
        else xlat_op R \<lparr>ctl_sys = sys, ctl_op = read_op n, ctl_caps = caps\<rparr> addr 0 ctx) = Some (status, v, b)"
      "ctx' = snd (set_error b status ''Cannot read %d-bit %s at %s:0x%lx''
        [MNum (of_nat (8 * n)), MStr what, MStr (addrspace_name (fa_as addr)), MNum (fa_addr addr)])"
    using assms unfolding xlat_read_def by (subst (asm) set_error_msgs) (auto simp: bind_Some_iff)
  then show ?thesis
    using that [of caps b] by simp
qed

lemma xlat_read_keeps:
  assumes "frames R" and "xlat_read n R sys addr what ctx = Some (status, v, ctx')"
  shows "same_frame ctx ctx'"
  using assms(2)
proof (cases rule: xlat_read_cases)
  case (1 caps ctx1)
  then have "same_frame ctx ctx1"
    using do_read_frame xlat_op_keeps [OF assms(1), of "\<lparr>ctl_sys = sys, ctl_op = read_op n, ctl_caps = caps\<rparr>"]
      op_keeps_read by (auto split: if_splits)
  then show ?thesis
    using 1(2) by (rule same_frame_trans)
qed

lemma fuel_readers_frames:
  assumes "customs_keep (\<lambda>ctx. True) C"
  shows "frames (fuel_readers C n)"
proof (induction n)
  case 0
  then show ?case
    using assms frame_inv_closed [OF frame_inv_True]
    by (simp add: env_keeps_def readers_keep_def reader_keeps_def)
next
  case (Suc n)
  then show ?case
    using assms frame_inv_closed [OF frame_inv_True] xlat_read_keeps [OF Suc]
    by (auto simp: env_keeps_def readers_keep_def reader_keeps_def read32_def read64_def)
qed

subsection \<open>The nesting of translations is bounded\<close>

lemma inflight_bound:
  fixes fl :: "(fulladdr \<times> xlat_chain) list"
  assumes "distinct fl"
  shows "length fl \<le> MAX_INFLIGHT"
proof -
  let ?f = "\<lambda>(a, c :: xlat_chain). (fa_addr a, fa_as a, c)"
  let ?S = "{ADDRXLAT_KPHYSADDR, ADDRXLAT_MACHPHYSADDR, ADDRXLAT_KVADDR, ADDRXLAT_NOADDR}"
  let ?C = "{KV2PHYS, KPHYS2MACHPHYS, KPHYS2DIRECT, KPHYS2ANY, MACHPHYS2DIRECT}"
  have all: "a \<in> ?S" "c \<in> ?C" for a c
    by (cases a; simp) (cases c; simp)
  have inj: "inj_on ?f (set fl)"
    by (auto intro!: inj_onI fulladdr.equality)
  have "length fl = card (?f ` set fl)"
    using assms inj by (simp add: card_image distinct_card)
  also have "\<dots> \<le> card ((UNIV :: u64 set) \<times> ?S \<times> ?C)"
  proof (rule card_mono)
    show "?f ` set fl \<subseteq> UNIV \<times> ?S \<times> ?C"
      using all by (simp only: image_subset_iff split_beta mem_Sigma_iff UNIV_I simp_thms ball_triv)
  qed simp
  also have "\<dots> = MAX_INFLIGHT"
  proof -
    have "card (UNIV :: u64 set) = 2 ^ 64" "card ?S = 4" "card ?C = 5"
      by (simp_all add: card_word)
    then show ?thesis
      by (simp only: card_cartesian_product MAX_INFLIGHT_def)
  qed
  finally show ?thesis .
qed

text \<open>The contexts in which \<open>n\<close> more levels of nesting are enough.\<close>

definition nest_inv :: "nat \<Rightarrow> xctx \<Rightarrow> bool" where
  "nest_inv n ctx \<longleftrightarrow> distinct (inflight ctx) \<and> MAX_INFLIGHT < n + length (inflight ctx)"

lemma nest_inv_frame: "frame_inv (nest_inv n)"
  by (simp add: frame_inv_def nest_inv_def same_frame_def)

lemma nest_inv_0: "\<not> nest_inv 0 ctx"
  using inflight_bound [of "inflight ctx"] by (auto simp: nest_inv_def)

lemma nest_inv_push:
  "nest_inv (Suc n) ctx \<Longrightarrow> p \<notin> set (inflight ctx) \<Longrightarrow> nest_inv n (ctx\<lparr>inflight := p # inflight ctx\<rparr>)"
  by (simp add: nest_inv_def)

lemma frame_invD: "frame_inv Inv \<Longrightarrow> Inv ctx \<Longrightarrow> same_frame ctx ctx' \<Longrightarrow> Inv ctx'"
  unfolding frame_inv_def by blast

lemma try_alts_agree:
  assumes ag: "agree Inv R S" and R: "frames R" and S: "frames S" and fr: "frame_inv Inv"
  shows "Inv ctx \<Longrightarrow> try_alts R ctl sys alts paddr d ctx = try_alts S ctl sys alts paddr d ctx"
proof (induction alts arbitrary: ctx)
  case (Cons i alts)
  define ctx1 where "ctx1 = clear_error ctx"
  have inv: "Inv ctx1"
    using frame_invD [OF fr Cons.prems] by (simp add: ctx1_def)
  have walks: "walk R st ctx1 = walk S st ctx1" for st
    by (rule walk_agree [OF ag frames_keep [OF R fr] frames_keep [OF S fr] inv])
  have rest: "try_alts R ctl sys alts paddr d ctx2 = try_alts S ctl sys alts paddr d ctx2"
    if "walk S st ctx1 = Some (status, st', ctx2)" for st status st' ctx2
    using walk_keeps [OF that frames_keep [OF S fr] inv] by (intro Cons.IH) (simp add: keeps_frame_def)
  have bind: "(walk R st ctx1 \<bind> (\<lambda>(status, st, ctx). f status st ctx (try_alts R ctl sys alts paddr d ctx)))
      = (walk S st ctx1 \<bind> (\<lambda>(status, st, ctx). f status st ctx (try_alts S ctl sys alts paddr d ctx)))"
    for f :: "status \<Rightarrow> step \<Rightarrow> xctx \<Rightarrow> _ \<Rightarrow> _" and st
    unfolding walks using rest by (intro bind_cong_Some) auto
  show ?case
    using Cons.IH [OF Cons.prems] Cons.IH [OF inv] bind
    by (auto simp: Let_def ctx1_def split: option.split)
qed simp

lemma run_chain_agree:
  assumes ag: "agree Inv R S" and R: "frames R" and S: "frames S" and fr: "frame_inv Inv"
    and op: "op_keeps (ctl_op ctl)"
  shows "Inv ctx \<Longrightarrow> run_chain R ctl sys chain paddr d ctx = run_chain S ctl sys chain paddr d ctx"
proof (induction chain arbitrary: paddr ctx)
  case (Cons alts chain)
  have "Inv ctx2" if "try_alts S ctl sys alts paddr d ctx = Some (Inr (a, ctx2))" for a ctx2
    using try_alts_keeps [OF S op that] frame_invD [OF fr Cons.prems] by (simp add: alts_ctx_def)
  then show ?case
    unfolding run_chain.simps try_alts_agree [OF ag R S fr Cons.prems]
    by (intro bind_cong_Some refl) (auto intro: Cons.IH split: sum.split)
qed simp

lemma xlat_op_agree:
  assumes ag: "agree (nest_inv n) R S" and R: "frames R" and S: "frames S"
    and op: "op_keeps (ctl_op ctl)" and inv: "nest_inv (Suc n) ctx"
  shows "xlat_op R ctl paddr d ctx = xlat_op S ctl paddr d ctx"
proof -
  have "do_op R ctl sys paddr chain d ((clear_error ctx)\<lparr>inflight := (paddr, chain) # inflight ctx\<rparr>)
      = do_op S ctl sys paddr chain d ((clear_error ctx)\<lparr>inflight := (paddr, chain) # inflight ctx\<rparr>)"
    if "(paddr, chain) \<notin> set (inflight ctx)" for sys chain
    unfolding do_op_def using nest_inv_push [OF inv that]
    by (intro run_chain_agree [OF ag R S nest_inv_frame op]) (simp add: nest_inv_def)
  then show ?thesis
    by (simp add: xlat_op_def Let_def clear_error_def split: option.split)
qed

lemma xlat_read_agree:
  assumes "agree (nest_inv n) R S" and "frames R" and "frames S" and "nest_inv (Suc n) ctx"
  shows "xlat_read k R sys addr what ctx = xlat_read k S sys addr what ctx"
proof -
  have "xlat_op R \<lparr>ctl_sys = sys, ctl_op = read_op k, ctl_caps = caps\<rparr> addr 0 ctx
      = xlat_op S \<lparr>ctl_sys = sys, ctl_op = read_op k, ctl_caps = caps\<rparr> addr 0 ctx" for caps
    by (rule xlat_op_agree [OF assms(1-3) _ assms(4)]) (simp add: op_keeps_read)
  then show ?thesis
    by (simp add: xlat_read_def cong: if_cong)
qed

lemma fuel_readers_agree:
  assumes C: "customs_keep (\<lambda>ctx. True) C"
  shows "n \<le> m \<Longrightarrow> agree (nest_inv n) (fuel_readers C n) (fuel_readers C m)"
proof (induction n arbitrary: m)
  case 0
  then show ?case
    by (cases m) (simp_all add: agree_def nest_inv_0)
next
  case (Suc n)
  then obtain k where m: "m = Suc k" "n \<le> k"
    by (cases m) auto
  show ?case
    using xlat_read_agree [OF Suc.IH [OF m(2)] fuel_readers_frames [OF C] fuel_readers_frames [OF C]]
    by (simp add: m(1) agree_def read32_def read64_def)
qed

subsection \<open>Properties of operations\<close>

text \<open>
  C21. Translations nest to a bounded depth. The reads of page table entries and array elements that
  translate their own address are a recursion through \<open>addrxlat_op\<close>; with fuel for as many
  levels as there are translations that can be in flight, more fuel changes no read and no
  operation. So the check for infinite recursion is complete: no run is cut off by the fuel.
\<close>

theorem nesting_is_bounded:
  assumes "customs_keep (\<lambda>ctx. True) C" and "distinct (inflight ctx)" and "op_keeps (ctl_op ctl)"
  shows "xlat_op (fuel_readers C (MAX_INFLIGHT + k)) ctl paddr d ctx
      = xlat_op (fuel_readers C MAX_INFLIGHT) ctl paddr d ctx
    \<and> rd32 (fuel_readers C (Suc (MAX_INFLIGHT + k))) sys a what ctx = rd32 (lib_readers C) sys a what ctx
    \<and> rd64 (fuel_readers C (Suc (MAX_INFLIGHT + k))) sys a what ctx = rd64 (lib_readers C) sys a what ctx"
proof -
  have inv: "nest_inv (Suc MAX_INFLIGHT) ctx"
    using assms(2) by (simp add: nest_inv_def)
  note ag = fuel_readers_agree [OF assms(1), of MAX_INFLIGHT "MAX_INFLIGHT + k"]
    fuel_readers_frames [OF assms(1)] fuel_readers_frames [OF assms(1)]
  show ?thesis
    using xlat_op_agree [OF ag assms(3) inv] xlat_read_agree [OF ag inv]
    by (simp add: lib_readers_def read32_def read64_def)
qed

text \<open>An example: a system whose kernel virtual addresses are mapped linearly, and no custom steps.\<close>

definition no_customs :: customs where
  "no_customs = \<lparr>custom_first = \<lambda>i a st ctx. None, custom_next = \<lambda>i st ctx. None\<rparr>"

definition no_meth :: xmeth where
  "no_meth = \<lparr>kind = ADDRXLAT_NOMETH, target_as = ADDRXLAT_KPHYSADDR, custom = 0, lin_off = 0,
     pgt_root = \<lparr>fa_addr = 0, fa_as = ADDRXLAT_KPHYSADDR\<rparr>, pte_mask = 0,
     pgt_pf = \<lparr>pf_format = ADDRXLAT_PTE_NONE, nfields = 0, fieldsz = replicate ADDRXLAT_FIELDS_MAX 0\<rparr>,
     lk_endoff = 0, lk_tbl = [], ma_base = \<lparr>fa_addr = 0, fa_as = ADDRXLAT_KPHYSADDR\<rparr>,
     ma_shift = 0, ma_elemsz = 0, ma_valsz = 0\<rparr>"

definition example_sys :: xsys where
  "example_sys = \<lparr>sys_refcnt = 1,
     sys_maps = [ADDRXLAT_SYS_MAP_KV_PHYS \<mapsto> \<lparr>map_refcnt = 1,
        ranges = [\<lparr>endoff = ADDRXLAT_ADDR_MAX, meth = ADDRXLAT_SYS_METH_DIRECT\<rparr>]\<rparr>],
     sys_meths = (\<lambda>m. no_meth)(ADDRXLAT_SYS_METH_DIRECT :=
        no_meth\<lparr>kind := ADDRXLAT_LINEAR, lin_off := 0x1000\<rparr>)\<rparr>"

lemma no_customs_keep: "customs_keep Inv no_customs"
  by (simp add: customs_keep_def no_customs_def)

lemma nesting_is_bounded_witness:
  "rd64 (fuel_readers no_customs (Suc (MAX_INFLIGHT + 7))) (Some example_sys)
     \<lparr>fa_addr = 0x1000, fa_as = ADDRXLAT_KVADDR\<rparr> ''PTE'' example_ctx
   = rd64 (lib_readers no_customs) (Some example_sys)
     \<lparr>fa_addr = 0x1000, fa_as = ADDRXLAT_KVADDR\<rparr> ''PTE'' example_ctx"
  using nesting_is_bounded [OF no_customs_keep, of example_ctx
      "\<lparr>ctl_sys = None, ctl_op = storeaddr, ctl_caps = 0\<rparr>" 7]
  by (simp add: example_ctx_def ctx_new_def op_keeps_storeaddr)

text \<open>
  C22. Whatever the path through the chains, \<open>addrxlat_op\<close> leaves the context as it found it but for
  the read cache and the error messages; in particular it takes itself off the list of
  translations in flight again, also when it fails. The readers of the library do the same.
\<close>

theorem op_restores_context:
  assumes "customs_keep (\<lambda>ctx. True) C" and "op_keeps (ctl_op ctl)"
    and "xlat_op (lib_readers C) ctl paddr d ctx = Some (status, d', ctx')"
  shows "ctx_cb ctx' = ctx_cb ctx \<and> inflight ctx' = inflight ctx
    \<and> noerr_notpresent ctx' = noerr_notpresent ctx \<and> ctx_refcnt ctx' = ctx_refcnt ctx"
  using xlat_op_keeps [OF fuel_readers_frames [OF assms(1)] assms(2), of _ paddr d ctx] assms(3)
  unfolding lib_readers_def same_frame_def by blast

lemma op_restores_context_witness:
  "\<exists>status d ctx. xlat_op (lib_readers no_customs) \<lparr>ctl_sys = Some example_sys, ctl_op = storeaddr, ctl_caps = 1\<rparr>
       \<lparr>fa_addr = 4, fa_as = ADDRXLAT_KVADDR\<rparr> \<lparr>fa_addr = 4, fa_as = ADDRXLAT_KVADDR\<rparr> example_ctx
       = Some (status, d, ctx) \<and> inflight ctx = inflight example_ctx"
proof -
  let ?op = "xlat_op (lib_readers no_customs) \<lparr>ctl_sys = Some example_sys, ctl_op = storeaddr, ctl_caps = 1\<rparr>
       \<lparr>fa_addr = 4, fa_as = ADDRXLAT_KVADDR\<rparr> \<lparr>fa_addr = 4, fa_as = ADDRXLAT_KVADDR\<rparr> example_ctx"
  have "?op \<noteq> None"
    by (simp add: xlat_op_def do_op_def chain_alts_def example_sys_def map_expect_as_def map_search_def
        no_meth_def has_cap_def ADDRXLAT_CAPS_def storeaddr_def op_chain_def op_error_def Let_def
        example_ctx_def ctx_new_def clear_error_def)
  then obtain status d ctx where run: "?op = Some (status, d, ctx)"
    by auto
  then show ?thesis
    using op_restores_context [OF no_customs_keep _ run] by (auto simp: op_keeps_storeaddr)
qed

text \<open>
  An operation is only called on addresses in its capabilities: what holds of the results of such
  calls and of failures holds of \<open>addrxlat_op\<close>.
\<close>

lemma try_alts_result:
  assumes "\<And>a ctx st d' ctx'. has_cap (ctl_caps ctl) (fa_as a) \<Longrightarrow>
      ctl_op ctl d a ctx = Some (st, d', ctx') \<Longrightarrow> Q st d'"
    and "\<And>st. st \<noteq> ADDRXLAT_OK \<Longrightarrow> Q st d"
  shows "try_alts R ctl sys alts paddr d ctx = Some (Inl (st, d', ctx')) \<Longrightarrow> Q st d'"
proof (induction alts arbitrary: ctx)
  case (Cons i alts)
  have linear: "has_cap (ctl_caps ctl) b \<Longrightarrow> ctl_op ctl d \<lparr>fa_addr = a, fa_as = b\<rparr> ctx = Some (st, d', ctx') \<Longrightarrow> Q st d'"
    for a b ctx ctx'
    using assms(1) [of "\<lparr>fa_addr = a, fa_as = b\<rparr>" ctx] by simp
  show ?case
    using Cons.prems Cons.IH linear assms
    by (auto simp: Let_def bind_Some_iff split: if_splits option.splits)
qed simp

lemma run_chain_result:
  assumes "\<And>a ctx st d' ctx'. has_cap (ctl_caps ctl) (fa_as a) \<Longrightarrow>
      ctl_op ctl d a ctx = Some (st, d', ctx') \<Longrightarrow> Q st d'"
    and "\<And>st. st \<noteq> ADDRXLAT_OK \<Longrightarrow> Q st d"
  shows "run_chain R ctl sys chain paddr d ctx = Some (st, d', ctx') \<Longrightarrow> Q st d'"
proof (induction chain arbitrary: paddr ctx)
  case Nil
  then show ?case
    using assms(2) by (auto simp: set_error_def)
next
  case (Cons alts chain)
  then obtain r where r: "try_alts R ctl sys alts paddr d ctx = Some r"
      "(case r of Inl result \<Rightarrow> Some result | Inr (paddr, ctx) \<Rightarrow> run_chain R ctl sys chain paddr d ctx)
        = Some (st, d', ctx')"
    by (auto simp: bind_Some_iff)
  then show ?case
    using try_alts_result [of ctl d Q R sys alts paddr ctx st d' ctx', OF assms] Cons.IH
    by (auto split: sum.splits)
qed

lemma xlat_op_result:
  assumes "xlat_op R ctl paddr d ctx = Some (status, d', ctx')"
    and called: "\<And>a ctx st d' ctx'. has_cap (ctl_caps ctl) (fa_as a) \<Longrightarrow>
      ctl_op ctl d a ctx = Some (st, d', ctx') \<Longrightarrow> Q st d'"
    and failed: "\<And>st. st \<noteq> ADDRXLAT_OK \<Longrightarrow> Q st d"
  shows "Q status d'"
  using assms(1)
proof (cases rule: xlat_op_cases)
  case (error fmt)
  then show ?thesis
    using failed by (auto simp: op_error_def set_error_def)
next
  case (translated sys chain ctx1)
  then show ?thesis
    using run_chain_result [where Q = Q, OF called failed] by (auto simp: do_op_def)
qed (rule called)

lemma has_cap_CAPS: "has_cap (ADDRXLAT_CAPS a) b \<Longrightarrow> b = a"
  by (cases a; cases b) (simp_all add: has_cap_def ADDRXLAT_CAPS_def)

text \<open>
  C23. \<open>addrxlat_fulladdr_conv\<close> that succeeds leaves an address in the requested address space, and
  one that fails leaves the address as it was.
\<close>

theorem fulladdr_conv_target:
  assumes "fulladdr_conv R faddr a sys ctx = Some (status, faddr', ctx')"
  shows "(status = ADDRXLAT_OK \<and> fa_as faddr' = a) \<or> (status \<noteq> ADDRXLAT_OK \<and> faddr' = faddr)"
  using assms unfolding fulladdr_conv_def
  by (rule xlat_op_result [where Q = "\<lambda>status faddr'. (status = ADDRXLAT_OK \<and> fa_as faddr' = a)
        \<or> (status \<noteq> ADDRXLAT_OK \<and> faddr' = faddr)"])
     (auto simp: storeaddr_def dest: has_cap_CAPS)

lemma fulladdr_conv_target_witness:
  "\<exists>faddr ctx. fulladdr_conv (lib_readers no_customs) \<lparr>fa_addr = 4, fa_as = ADDRXLAT_KVADDR\<rparr>
      ADDRXLAT_KPHYSADDR (Some example_sys) example_ctx = Some (ADDRXLAT_OK, faddr, ctx)
    \<and> fa_as faddr = ADDRXLAT_KPHYSADDR"
proof -
  let ?r = "fulladdr_conv (lib_readers no_customs) \<lparr>fa_addr = 4, fa_as = ADDRXLAT_KVADDR\<rparr>
      ADDRXLAT_KPHYSADDR (Some example_sys) example_ctx"
  have "map_option fst ?r = Some ADDRXLAT_OK"
    by (simp add: fulladdr_conv_def xlat_op_def do_op_def chain_alts_def example_sys_def map_expect_as_def
        map_search_def no_meth_def has_cap_def ADDRXLAT_CAPS_def storeaddr_def op_chain_def op_error_def
        Let_def example_ctx_def ctx_new_def clear_error_def)
  then obtain faddr ctx where run: "?r = Some (ADDRXLAT_OK, faddr, ctx)"
    by auto
  then show ?thesis
    using fulladdr_conv_target [OF run] by auto
qed

end
