(* ===== verification/Pgt_Scan.thy ===== *)
theory Pgt_Scan
  imports Xlat_Op
begin

section \<open>Searching page tables (src/addrxlat/step.c)\<close>

text \<open>
  The searches for the next mapped or unmapped address, which the layout code uses to find out
  what a kernel has mapped. Each goes over the entries of one table and calls itself for the
  tables below. The loop over the entries is the recursive function: \<open>mystep\<close> is the copy of
  the step state that the C function keeps, \<open>st\<close> the state behind its \<open>step\<close> pointer; a call for
  the table below starts a loop with a copy of its own.
\<close>

subsection \<open>Moving to the next entry\<close>

text \<open>
  The results are the status, the step state, the address and the context. A table index is an
  element of the array of the remaining levels; without a remaining level the size of the table
  is not defined.
\<close>

type_synonym scan_result = "(status \<times> step \<times> addr_t \<times> xctx) option"

definition bury :: "fulladdr \<Rightarrow> xctx \<Rightarrow> xctx" where
  "bury addr ctx = ctx\<lparr>cache := bury_cache_buffer addr (cache ctx)\<rparr>"

definition scan_level :: "step \<Rightarrow> nat" where
  "scan_level mystep = remain mystep - 1"

definition scan_mask :: "step \<Rightarrow> addr_t" where
  "scan_mask mystep = pf_table_mask (pgt_pf (step_meth mystep)) (scan_level mystep)"

definition scan_nelem :: "step \<Rightarrow> addr_t" where
  "scan_nelem mystep = pf_table_size (pgt_pf (step_meth mystep)) (scan_level mystep)"

definition next_entry :: "step \<Rightarrow> step" where
  "next_entry mystep =
     (let i = scan_level mystep; ix = fold (\<lambda>k ix. ix[k := 0]) [0..<i] (idx mystep)
      in mystep\<lparr>idx := ix[i := ix ! i + 1]\<rparr>)"

definition prev_entry :: "step \<Rightarrow> step" where
  "prev_entry mystep =
     (let i = scan_level mystep; pf = pgt_pf (step_meth mystep);
          ix = fold (\<lambda>k ix. ix[k := pf_table_size pf k - 1]) [0..<i] (idx mystep)
      in mystep\<lparr>idx := ix[i := ix ! i - 1]\<rparr>)"

subsection \<open>The lowest mapped address\<close>

partial_function (option) lowest_mapped_tbl ::
  "readers \<Rightarrow> addr_t \<Rightarrow> step \<Rightarrow> step \<Rightarrow> addr_t \<Rightarrow> xctx \<Rightarrow> scan_result" where
  "lowest_mapped_tbl R limit mystep st addr ctx =
     (if remain mystep = 0 then None
      else if addr > limit then Some (ADDRXLAT_ERR_NOTPRESENT, st, addr, ctx)
      else do {
        (status, st, ctx) \<leftarrow> xlat_step R st ctx;
        if status = ADDRXLAT_OK \<and> remain st \<le> 1 then do {
          (status, st, ctx) \<leftarrow> xlat_step R st ctx;
          Some (status, st, addr, ctx)
        }
        else if status \<noteq> ADDRXLAT_OK \<and> status \<noteq> ADDRXLAT_ERR_NOTPRESENT
        then Some (status, st, addr, ctx)
        else do {
          (status, st, addr, ctx) \<leftarrow>
            (if status = ADDRXLAT_OK then lowest_mapped_tbl R limit st st addr ctx
             else Some (ADDRXLAT_ERR_NOTPRESENT, st, (addr OR scan_mask mystep) + 1, clear_error ctx));
          if status \<noteq> ADDRXLAT_ERR_NOTPRESENT then Some (status, st, addr, ctx)
          else
            let mystep = next_entry mystep
            in if idx mystep ! scan_level mystep \<ge> scan_nelem mystep
               then Some (ADDRXLAT_ERR_NOTPRESENT, st, addr, bury (base mystep) ctx)
               else lowest_mapped_tbl R limit mystep mystep addr ctx
        }
      })"

definition lowest_mapped :: "readers \<Rightarrow> step \<Rightarrow> addr_t \<Rightarrow> addr_t \<Rightarrow> xctx \<Rightarrow> scan_result" where
  "lowest_mapped R st addr limit ctx = do {
     let addr = addr AND NOT (pf_page_mask (pgt_pf (step_meth st)));
     (status, st, ctx) \<leftarrow> launch R addr st ctx;
     if status \<noteq> ADDRXLAT_OK then Some (status, st, addr, ctx)
     else do {
       let savednoerr = noerr_notpresent ctx;
       (status, st, addr, ctx) \<leftarrow>
         lowest_mapped_tbl R limit st st addr (ctx\<lparr>noerr_notpresent := True\<rparr>);
       Some (status, st, addr, ctx\<lparr>noerr_notpresent := savednoerr\<rparr>)
     }
   }"

subsection \<open>The highest mapped address\<close>

partial_function (option) highest_mapped_tbl ::
  "readers \<Rightarrow> addr_t \<Rightarrow> step \<Rightarrow> step \<Rightarrow> addr_t \<Rightarrow> xctx \<Rightarrow> scan_result" where
  "highest_mapped_tbl R limit mystep st addr ctx =
     (if remain mystep = 0 then None
      else if addr < limit then Some (ADDRXLAT_ERR_NOTPRESENT, st, addr, ctx)
      else do {
        (status, st, ctx) \<leftarrow> xlat_step R st ctx;
        if status = ADDRXLAT_OK \<and> remain st \<le> 1 then do {
          (status, st, ctx) \<leftarrow> xlat_step R st ctx;
          Some (status, st, addr, ctx)
        }
        else if status \<noteq> ADDRXLAT_OK \<and> status \<noteq> ADDRXLAT_ERR_NOTPRESENT
        then Some (status, st, addr, ctx)
        else do {
          (status, st, addr, ctx) \<leftarrow>
            (if status = ADDRXLAT_OK then highest_mapped_tbl R limit st st addr ctx
             else Some (ADDRXLAT_ERR_NOTPRESENT, st, (addr AND NOT (scan_mask mystep)) - 1, clear_error ctx));
          if status \<noteq> ADDRXLAT_ERR_NOTPRESENT then Some (status, st, addr, ctx)
          else if idx mystep ! scan_level mystep = 0
          then Some (ADDRXLAT_ERR_NOTPRESENT, st, addr, bury (base mystep) ctx)
          else
            let mystep = prev_entry mystep
            in highest_mapped_tbl R limit mystep mystep addr ctx
        }
      })"

definition highest_mapped :: "readers \<Rightarrow> step \<Rightarrow> addr_t \<Rightarrow> addr_t \<Rightarrow> xctx \<Rightarrow> scan_result" where
  "highest_mapped R st addr limit ctx = do {
     let addr = addr OR pf_page_mask (pgt_pf (step_meth st));
     (status, st, ctx) \<leftarrow> launch R addr st ctx;
     if status \<noteq> ADDRXLAT_OK then Some (status, st, addr, ctx)
     else do {
       let savednoerr = noerr_notpresent ctx;
       (status, st, addr, ctx) \<leftarrow>
         highest_mapped_tbl R limit st st addr (ctx\<lparr>noerr_notpresent := True\<rparr>);
       Some (status, st, addr, ctx\<lparr>noerr_notpresent := savednoerr\<rparr>)
     }
   }"

subsection \<open>The lowest unmapped address\<close>

partial_function (option) lowest_unmapped_tbl ::
  "readers \<Rightarrow> addr_t \<Rightarrow> step \<Rightarrow> step \<Rightarrow> addr_t \<Rightarrow> xctx \<Rightarrow> scan_result" where
  "lowest_unmapped_tbl R limit mystep st addr ctx =
     (if remain mystep = 0 then None
      else if addr > limit then Some (ADDRXLAT_ERR_NOTPRESENT, st, addr, ctx)
      else do {
        (status, st, ctx) \<leftarrow> xlat_step R st ctx;
        if status = ADDRXLAT_ERR_NOTPRESENT then Some (ADDRXLAT_OK, st, addr, clear_error ctx)
        else if status \<noteq> ADDRXLAT_OK then Some (status, st, addr, ctx)
        else do {
          (status, st, addr, ctx) \<leftarrow>
            (if remain st > 1 then lowest_unmapped_tbl R limit st st addr ctx
             else Some (ADDRXLAT_ERR_NOTPRESENT, st, (addr OR scan_mask mystep) + 1, ctx));
          if status \<noteq> ADDRXLAT_ERR_NOTPRESENT then Some (status, st, addr, ctx)
          else
            let mystep = next_entry mystep
            in if idx mystep ! scan_level mystep \<ge> scan_nelem mystep
               then Some (ADDRXLAT_ERR_NOTPRESENT, st, addr, bury (base mystep) ctx)
               else lowest_unmapped_tbl R limit mystep mystep addr ctx
        }
      })"

definition lowest_unmapped :: "readers \<Rightarrow> step \<Rightarrow> addr_t \<Rightarrow> addr_t \<Rightarrow> xctx \<Rightarrow> scan_result" where
  "lowest_unmapped R st addr limit ctx = do {
     let addr = addr AND NOT (pf_page_mask (pgt_pf (step_meth st)));
     (status, st, ctx) \<leftarrow> launch R addr st ctx;
     if status \<noteq> ADDRXLAT_OK then Some (status, st, addr, ctx)
     else lowest_unmapped_tbl R limit st st addr ctx
   }"

subsection \<open>The highest linear mapping\<close>

definition linear_end :: "status \<Rightarrow> status \<Rightarrow> status" where
  "linear_end status ret =
     (if status = ADDRXLAT_OK \<or> status = ADDRXLAT_ERR_NOTPRESENT then ret else status)"

partial_function (option) highest_linear_loop ::
  "readers \<Rightarrow> addr_t \<Rightarrow> addr_t \<Rightarrow> step \<Rightarrow> addr_t \<Rightarrow> addr_t \<Rightarrow> status \<Rightarrow> xctx \<Rightarrow> scan_result" where
  "highest_linear_loop R limit off st nextaddr addr ret ctx = do {
     (status, st, nextaddr, ctx) \<leftarrow> lowest_mapped R st nextaddr limit ctx;
     if status \<noteq> ADDRXLAT_OK then Some (linear_end status ret, st, addr, ctx)
     else do {
       (status, faddr, ctx) \<leftarrow> fulladdr_conv R \<lparr>fa_addr = nextaddr, fa_as = ADDRXLAT_KVADDR\<rparr>
          ADDRXLAT_KPHYSADDR (step_sys st) ctx;
       if status \<noteq> ADDRXLAT_OK then Some (status, st, addr, ctx)
       else if fa_addr faddr - nextaddr \<noteq> off then Some (linear_end status ret, st, addr, ctx)
       else do {
         (status, st, nextaddr, ctx) \<leftarrow> lowest_unmapped R st nextaddr limit ctx;
         if status \<noteq> ADDRXLAT_OK \<and> status \<noteq> ADDRXLAT_ERR_NOTPRESENT then Some (status, st, addr, ctx)
         else highest_linear_loop R limit off st nextaddr (nextaddr - 1) ADDRXLAT_OK ctx
       }
     }
   }"

definition highest_linear :: "readers \<Rightarrow> step \<Rightarrow> addr_t \<Rightarrow> addr_t \<Rightarrow> addr_t \<Rightarrow> xctx \<Rightarrow> scan_result" where
  "highest_linear R st addr limit off ctx =
     highest_linear_loop R limit off st addr addr ADDRXLAT_ERR_NOTPRESENT ctx"

end
