(* ===== verification/Sys_Layout.thy ===== *)
theory Sys_Layout
  imports Pgt_Scan
begin

section \<open>Translation systems and their layout (src/addrxlat/sys.c, addrxlat-priv.h)\<close>

text \<open>
  The life cycle of a translation system, the parser of the options of \<open>addrxlat_sys_os_init\<close>
  and the set-up of maps from layout tables. The data of an initialisation is passed from step
  to step; a step ends with a value or with the status of an early return.
\<close>

subsection \<open>Translation systems\<close>

definition all_sys_maps :: "sys_map list" where
  "all_sys_maps = [ADDRXLAT_SYS_MAP_HW, ADDRXLAT_SYS_MAP_KV_PHYS, ADDRXLAT_SYS_MAP_KPHYS_DIRECT,
     ADDRXLAT_SYS_MAP_MACHPHYS_KPHYS, ADDRXLAT_SYS_MAP_KPHYS_MACHPHYS]"

text \<open>
  A new system is zeroed memory: no maps, and methods of kind \<open>ADDRXLAT_NOMETH\<close>, see
  \<open>no_meth\<close>.
\<close>

definition sys_new :: "bool \<Rightarrow> xsys option" where
  "sys_new allocated =
     (if allocated
      then Some \<lparr>sys_refcnt = 1, sys_maps = \<lambda>i. None, sys_meths = \<lambda>i. no_meth\<rparr> else None)"

definition sys_incref :: "xsys \<Rightarrow> nat \<times> xsys" where
  "sys_incref sys = (sys_refcnt sys + 1, sys\<lparr>sys_refcnt := sys_refcnt sys + 1\<rparr>)"

text \<open>
  The clean-up drops the references to all maps. Its second result lists the dropped maps that
  stay alive because somebody else refers to them.
\<close>

definition drop_map :: "xmap option \<Rightarrow> xmap option" where
  "drop_map m = (case m of None \<Rightarrow> None | Some m \<Rightarrow> snd (map_decref m))"

definition sys_cleanup :: "xsys \<Rightarrow> xsys \<times> xmap list" where
  "sys_cleanup sys =
     (sys\<lparr>sys_maps := fold (\<lambda>i maps. maps(i := None)) all_sys_maps (sys_maps sys)\<rparr>,
      List.map_filter (\<lambda>i. drop_map (sys_maps sys i)) all_sys_maps)"

definition sys_decref :: "xsys \<Rightarrow> nat \<times> (xsys + xmap list)" where
  "sys_decref sys =
     (let n = sys_refcnt sys - 1
      in if n = 0 then (n, Inr (snd (sys_cleanup sys))) else (n, Inl (sys\<lparr>sys_refcnt := n\<rparr>)))"

definition sys_set_map :: "xsys \<Rightarrow> sys_map \<Rightarrow> xmap option \<Rightarrow> xsys \<times> xmap option" where
  "sys_set_map sys i m =
     (sys\<lparr>sys_maps := (sys_maps sys)(i := map_option (\<lambda>m. snd (map_incref m)) m)\<rparr>,
      drop_map (sys_maps sys i))"

definition sys_get_map :: "xsys \<Rightarrow> sys_map \<Rightarrow> xmap option" where
  "sys_get_map sys i = sys_maps sys i"

definition sys_set_meth :: "xsys \<Rightarrow> sys_meth \<Rightarrow> xmeth \<Rightarrow> xsys" where
  "sys_set_meth sys i m = sys\<lparr>sys_meths := (sys_meths sys)(i := m)\<rparr>"

definition sys_get_meth :: "xsys \<Rightarrow> sys_meth \<Rightarrow> xmeth" where
  "sys_get_meth sys i = sys_meths sys i"

subsection \<open>Initialisation data\<close>

datatype os_type = OS_UNKNOWN | OS_LINUX | OS_XEN

text \<open>
  \<open>struct parsed_opts\<close>: an option that is set is \<open>Some\<close> value; the fields of the others are not
  initialised in C.
\<close>

record parsed_opts =
  po_arch :: "string option"
  po_os_type :: "string option"
  po_version_code :: "u64 option"
  po_phys_bits :: "u64 option"
  po_virt_bits :: "u64 option"
  po_page_shift :: "u64 option"
  po_phys_base :: "addr_t option"
  po_rootpgt :: "fulladdr option"
  po_xen_p2m_mfn :: "u64 option"
  po_xen_xlat :: "bool option"

definition no_opts :: parsed_opts where
  "no_opts = \<lparr>po_arch = None, po_os_type = None, po_version_code = None, po_phys_bits = None,
     po_virt_bits = None, po_page_shift = None, po_phys_base = None, po_rootpgt = None,
     po_xen_p2m_mfn = None, po_xen_xlat = None\<rparr>"

definition parse_opt :: "parsed_opts \<Rightarrow> opt \<Rightarrow> parsed_opts option" where
  "parse_opt popt opt =
     (case opt of
        OPT_NULL \<Rightarrow> Some popt
      | OPT_arch s \<Rightarrow> Some (popt\<lparr>po_arch := Some s\<rparr>)
      | OPT_os_type s \<Rightarrow> Some (popt\<lparr>po_os_type := Some s\<rparr>)
      | OPT_version_code n \<Rightarrow> Some (popt\<lparr>po_version_code := Some n\<rparr>)
      | OPT_phys_bits n \<Rightarrow> Some (popt\<lparr>po_phys_bits := Some n\<rparr>)
      | OPT_virt_bits n \<Rightarrow> Some (popt\<lparr>po_virt_bits := Some n\<rparr>)
      | OPT_page_shift n \<Rightarrow> Some (popt\<lparr>po_page_shift := Some n\<rparr>)
      | OPT_phys_base a \<Rightarrow> Some (popt\<lparr>po_phys_base := Some a\<rparr>)
      | OPT_rootpgt a \<Rightarrow> Some (popt\<lparr>po_rootpgt := Some a\<rparr>)
      | OPT_xen_p2m_mfn n \<Rightarrow> Some (popt\<lparr>po_xen_p2m_mfn := Some n\<rparr>)
      | OPT_xen_xlat n \<Rightarrow> Some (popt\<lparr>po_xen_xlat := Some (n \<noteq> 0)\<rparr>)
      | OPT_unknown n \<Rightarrow> None)"

definition opt_index :: "opt \<Rightarrow> nat" where
  "opt_index opt =
     (case opt of
        OPT_NULL \<Rightarrow> 0 | OPT_arch s \<Rightarrow> 1 | OPT_os_type s \<Rightarrow> 2 | OPT_version_code n \<Rightarrow> 3
      | OPT_phys_bits n \<Rightarrow> 4 | OPT_virt_bits n \<Rightarrow> 5 | OPT_page_shift n \<Rightarrow> 6 | OPT_phys_base a \<Rightarrow> 7
      | OPT_rootpgt a \<Rightarrow> 8 | OPT_xen_p2m_mfn n \<Rightarrow> 9 | OPT_xen_xlat n \<Rightarrow> 10 | OPT_unknown n \<Rightarrow> 11 + n)"

fun parse_opts_loop :: "parsed_opts \<Rightarrow> xctx \<Rightarrow> opt list \<Rightarrow> (status + parsed_opts) \<times> xctx" where
  "parse_opts_loop popt ctx [] = (Inr popt, ctx)"
| "parse_opts_loop popt ctx (opt # opts) =
     (case parse_opt popt opt of
        None \<Rightarrow>
          let (status, ctx) = set_error ctx ADDRXLAT_ERR_NOTIMPL ''Unknown option: %u''
                [MNum (of_nat (opt_index opt))]
          in (Inl status, ctx)
      | Some popt \<Rightarrow> parse_opts_loop popt ctx opts)"

definition parse_opts :: "xctx \<Rightarrow> opt list \<Rightarrow> (status + parsed_opts) \<times> xctx" where
  "parse_opts ctx opts = parse_opts_loop no_opts ctx opts"

text \<open>\<open>struct os_init_data\<close>; \<open>oi_alloc\<close> holds the outcomes of the allocations to come.\<close>

record os_init =
  oi_sys :: xsys
  oi_ctx :: xctx
  oi_popt :: parsed_opts
  oi_os :: os_type
  oi_alloc :: "bool list"

subsection \<open>Steps of an initialisation\<close>

text \<open>
  A step returns a value or the status of a failure; \<open>None\<close> is a run without a defined result.
\<close>

type_synonym 'a oi = "os_init \<Rightarrow> ((status + 'a) \<times> os_init) option"

definition oi_ok :: "'a \<Rightarrow> 'a oi" where
  "oi_ok v c = Some (Inr v, c)"

definition oi_fail :: "status \<Rightarrow> 'a oi" where
  "oi_fail status c = Some (Inl status, c)"

definition oi_bind :: "'a oi \<Rightarrow> ('a \<Rightarrow> 'b oi) \<Rightarrow> 'b oi" where
  "oi_bind f g c = do {
     (r, c) \<leftarrow> f c;
     case r of Inl status \<Rightarrow> Some (Inl status, c) | Inr v \<Rightarrow> g v c
   }"

text \<open>\<open>oi_try\<close> hands the status of a failed step to its continuation instead of returning it.\<close>

definition oi_try :: "'a oi \<Rightarrow> (status + 'a \<Rightarrow> 'b oi) \<Rightarrow> 'b oi" where
  "oi_try f g c = do { (r, c) \<leftarrow> f c; g r c }"

fun oi_steps :: "unit oi list \<Rightarrow> unit oi" where
  "oi_steps [] = oi_ok ()"
| "oi_steps (f # fs) = oi_bind f (\<lambda>u. oi_steps fs)"

definition oi_upd :: "(os_init \<Rightarrow> os_init) \<Rightarrow> unit oi" where
  "oi_upd f c = Some (Inr (), f c)"

definition oi_get :: "(os_init \<Rightarrow> 'a) \<Rightarrow> 'a oi" where
  "oi_get f c = Some (Inr (f c), c)"

text \<open>\<open>return set_error(ctl->ctx, ...)\<close>, and the operations on the context.\<close>

definition oi_error :: "status \<Rightarrow> string \<Rightarrow> marg list \<Rightarrow> 'a oi" where
  "oi_error status fmt args c =
     (let (status, ctx) = set_error (oi_ctx c) status fmt args in Some (Inl status, c\<lparr>oi_ctx := ctx\<rparr>))"

definition oi_or_error :: "'a oi \<Rightarrow> string \<Rightarrow> marg list \<Rightarrow> 'a oi" where
  "oi_or_error f fmt args =
     oi_try f (\<lambda>r. case r of Inl status \<Rightarrow> oi_error status fmt args | Inr v \<Rightarrow> oi_ok v)"

definition oi_clear_error :: "unit oi" where
  "oi_clear_error c = Some (Inr (), c\<lparr>oi_ctx := clear_error (oi_ctx c)\<rparr>)"

definition oi_call :: "(xctx \<Rightarrow> (status \<times> 'a \<times> xctx) option) \<Rightarrow> 'a oi" where
  "oi_call f c = do {
     (status, v, ctx) \<leftarrow> f (oi_ctx c);
     Some (if status = ADDRXLAT_OK then Inr v else Inl status, c\<lparr>oi_ctx := ctx\<rparr>)
   }"

text \<open>
  A search of a page table leaves a step state and an address. An option that is not set has no
  defined value.
\<close>

definition oi_scan :: "(xctx \<Rightarrow> scan_result) \<Rightarrow> (step \<times> addr_t) oi" where
  "oi_scan f = oi_call (\<lambda>ctx. do {
     (status, st, addr, ctx) \<leftarrow> f ctx;
     Some (status, (st, addr), ctx)
   })"

definition oi_opt :: "(parsed_opts \<Rightarrow> 'a option) \<Rightarrow> 'a oi" where
  "oi_opt sel c = (case sel (oi_popt c) of None \<Rightarrow> None | Some v \<Rightarrow> Some (Inr v, c))"

text \<open>An allocation takes the next outcome; without further outcomes it succeeds.\<close>

definition oi_allocate :: "bool oi" where
  "oi_allocate c =
     (case oi_alloc c of
        [] \<Rightarrow> Some (Inr True, c)
      | b # bs \<Rightarrow> Some (Inr b, c\<lparr>oi_alloc := bs\<rparr>))"

definition put_map :: "sys_map \<Rightarrow> xmap option \<Rightarrow> os_init \<Rightarrow> os_init" where
  "put_map i m c = c\<lparr>oi_sys := (oi_sys c)\<lparr>sys_maps := (sys_maps (oi_sys c))(i := m)\<rparr>\<rparr>"

definition put_meth :: "sys_meth \<Rightarrow> (xmeth \<Rightarrow> xmeth) \<Rightarrow> os_init \<Rightarrow> os_init" where
  "put_meth i f c =
     c\<lparr>oi_sys := (oi_sys c)\<lparr>sys_meths := (sys_meths (oi_sys c))(i := f (sys_meths (oi_sys c) i))\<rparr>\<rparr>"

definition oi_map :: "os_init \<Rightarrow> sys_map \<Rightarrow> xmap option" where
  "oi_map c i = sys_maps (oi_sys c) i"

definition oi_meth :: "os_init \<Rightarrow> sys_meth \<Rightarrow> xmeth" where
  "oi_meth c i = sys_meths (oi_sys c) i"

text \<open>\<open>internal_map_set\<close> on a map of the system; a \<open>NULL\<close> pointer is undefined behaviour.\<close>

definition oi_map_set :: "sys_map \<Rightarrow> addr_t \<Rightarrow> range \<Rightarrow> unit oi" where
  "oi_map_set i addr rng = oi_bind oi_allocate (\<lambda>grown c.
     case oi_map c i of
       None \<Rightarrow> None
     | Some m \<Rightarrow>
         let (status, m) = map_set grown m addr rng
         in Some (if status = ADDRXLAT_OK then Inr () else Inl status, put_map i (Some m) c))"

text \<open>\<open>read32\<close> and \<open>read64\<close> with a step that only holds the context and the system.\<close>

definition oi_read32 :: "readers \<Rightarrow> fulladdr \<Rightarrow> string \<Rightarrow> u64 oi" where
  "oi_read32 R addr what c = oi_call (rd32 R (Some (oi_sys c)) addr what) c"

definition oi_read64 :: "readers \<Rightarrow> fulladdr \<Rightarrow> string \<Rightarrow> u64 oi" where
  "oi_read64 R addr what c = oi_call (rd64 R (Some (oi_sys c)) addr what) c"

definition oi_map_clear :: "sys_map \<Rightarrow> unit oi" where
  "oi_map_clear i c =
     (case oi_map c i of None \<Rightarrow> None | Some m \<Rightarrow> Some (Inr (), put_map i (Some (map_clear m)) c))"

text \<open>
  The root of the page table is changed in place, also when the function fails half-way.
\<close>

definition put_root :: "fulladdr \<Rightarrow> os_init \<Rightarrow> os_init" where
  "put_root root = put_meth ADDRXLAT_SYS_METH_PGT (\<lambda>m. m\<lparr>pgt_root := root\<rparr>)"

text \<open>
  Try to get the root of the page table from a register or a symbol; without data for it, go on
  with the next source.
\<close>

definition try_root ::
  "(xctx \<Rightarrow> (status \<times> addr_t \<times> xctx) option) \<Rightarrow> string \<Rightarrow> addrspace \<Rightarrow> unit oi \<Rightarrow> unit oi" where
  "try_root get name a next =
     oi_try (oi_call get) (\<lambda>r.
       case r of
         Inr addr \<Rightarrow> oi_upd (put_root \<lparr>fa_addr = addr, fa_as = a\<rparr>)
       | Inl status \<Rightarrow>
           if status \<noteq> ADDRXLAT_ERR_NODATA then oi_error status ''Cannot resolve \"%s\"'' [MStr name]
           else oi_bind oi_clear_error (\<lambda>u. next))"

text \<open>Make a map of the system a copy of another one, or a new map.\<close>

definition oi_copy_map :: "sys_map \<Rightarrow> sys_map \<Rightarrow> string \<Rightarrow> unit oi" where
  "oi_copy_map src dst fmt =
     oi_bind oi_allocate (\<lambda>a. oi_bind oi_allocate (\<lambda>a' c.
       case oi_map c src of
         None \<Rightarrow> None
       | Some m \<Rightarrow>
           (case map_copy a a' m of
              None \<Rightarrow> oi_error ADDRXLAT_ERR_NOMEM fmt [] c
            | Some m' \<Rightarrow> Some (Inr (), put_map dst (Some m') c))))"

definition oi_new_map :: "sys_map \<Rightarrow> string \<Rightarrow> unit oi" where
  "oi_new_map i fmt =
     oi_bind oi_allocate (\<lambda>a.
       case map_new a of
         None \<Rightarrow> oi_error ADDRXLAT_ERR_NOMEM fmt []
       | Some m \<Rightarrow> oi_upd (put_map i (Some m)))"

definition oi_direct_read_ok :: "fulladdr \<Rightarrow> bool oi" where
  "oi_direct_read_ok addr = oi_call (\<lambda>ctx. do {
     (ok, ctx) \<leftarrow> direct_read_ok addr ctx;
     Some (ADDRXLAT_OK, ok, ctx)
   })"

definition oi_bad_virt_bits :: "u64 \<Rightarrow> 'a oi" where
  "oi_bad_virt_bits bits c =
     (let (status, ctx) = bad_virt_bits (oi_ctx c) bits in Some (Inl status, c\<lparr>oi_ctx := ctx\<rparr>))"

subsection \<open>Layouts\<close>

datatype sys_action =
    SYS_ACT_NONE
  | SYS_ACT_DIRECT
  | SYS_ACT_RDIRECT
  | SYS_ACT_IDENT_KPHYS
  | SYS_ACT_IDENT_MACHPHYS

text \<open>A layout table is the list of its regions without the end marker.\<close>

record sys_region =
  reg_first :: addr_t
  reg_last :: addr_t
  reg_meth :: sys_meth
  reg_act :: sys_action

definition linear_meth :: "addrspace \<Rightarrow> addr_t \<Rightarrow> xmeth \<Rightarrow> xmeth" where
  "linear_meth a off m = m\<lparr>kind := ADDRXLAT_LINEAR, target_as := a, lin_off := off\<rparr>"

definition act_rdirect :: "sys_region \<Rightarrow> os_init \<Rightarrow> os_init" where
  "act_rdirect region c =
     put_meth (reg_meth region)
       (linear_meth ADDRXLAT_KVADDR (- lin_off (oi_meth c ADDRXLAT_SYS_METH_DIRECT))) c"

definition act_ident_kphys :: "sys_region \<Rightarrow> os_init \<Rightarrow> os_init" where
  "act_ident_kphys region c = put_meth (reg_meth region) (linear_meth ADDRXLAT_KPHYSADDR 0) c"

definition act_ident_machphys :: "sys_region \<Rightarrow> os_init \<Rightarrow> os_init" where
  "act_ident_machphys region c = put_meth (reg_meth region) (linear_meth ADDRXLAT_MACHPHYSADDR 0) c"

text \<open>
  \<open>sys_set_layout\<close> with the function for \<open>SYS_ACT_DIRECT\<close> as an argument: this action sets a
  layout again, one that holds no such action.
\<close>

fun layout_loop :: "(sys_region \<Rightarrow> unit oi) \<Rightarrow> sys_map \<Rightarrow> sys_region list \<Rightarrow> unit oi" where
  "layout_loop direct i [] = oi_ok ()"
| "layout_loop direct i (region # layout) =
     oi_steps
       [(case reg_act region of
           SYS_ACT_NONE \<Rightarrow> oi_ok ()
         | SYS_ACT_DIRECT \<Rightarrow> direct region
         | SYS_ACT_RDIRECT \<Rightarrow> oi_upd (act_rdirect region)
         | SYS_ACT_IDENT_KPHYS \<Rightarrow> oi_upd (act_ident_kphys region)
         | SYS_ACT_IDENT_MACHPHYS \<Rightarrow> oi_upd (act_ident_machphys region)),
        oi_or_error
          (oi_map_set i (reg_first region)
             \<lparr>endoff = reg_last region - reg_first region, meth = reg_meth region\<rparr>)
          ''Cannot set up mapping for 0x%lx-0x%lx'' [MNum (reg_first region), MNum (reg_last region)],
        layout_loop direct i layout]"

definition set_layout_with :: "(sys_region \<Rightarrow> unit oi) \<Rightarrow> sys_map \<Rightarrow> sys_region list \<Rightarrow> unit oi" where
  "set_layout_with direct i layout c =
     oi_steps
       [(if oi_map c i = None then oi_new_map i ''Cannot allocate translation map'' else oi_ok ()),
        layout_loop direct i layout] c"

definition act_direct :: "sys_region \<Rightarrow> unit oi" where
  "act_direct region =
     oi_steps
       [oi_upd (put_meth (reg_meth region) (linear_meth ADDRXLAT_KPHYSADDR (- reg_first region))),
        set_layout_with (\<lambda>r c. None) ADDRXLAT_SYS_MAP_KPHYS_DIRECT
          [\<lparr>reg_first = 0, reg_last = reg_last region - reg_first region,
             reg_meth = ADDRXLAT_SYS_METH_RDIRECT, reg_act = SYS_ACT_RDIRECT\<rparr>]]"

definition sys_set_layout :: "sys_map \<Rightarrow> sys_region list \<Rightarrow> unit oi" where
  "sys_set_layout i layout = set_layout_with act_direct i layout"

definition sys_set_physmaps :: "addr_t \<Rightarrow> unit oi" where
  "sys_set_physmaps maxaddr =
     oi_steps
       [sys_set_layout ADDRXLAT_SYS_MAP_MACHPHYS_KPHYS
          [\<lparr>reg_first = 0, reg_last = maxaddr, reg_meth = ADDRXLAT_SYS_METH_MACHPHYS_KPHYS,
             reg_act = SYS_ACT_IDENT_KPHYS\<rparr>],
        sys_set_layout ADDRXLAT_SYS_MAP_KPHYS_MACHPHYS
          [\<lparr>reg_first = 0, reg_last = maxaddr, reg_meth = ADDRXLAT_SYS_METH_KPHYS_MACHPHYS,
             reg_act = SYS_ACT_IDENT_MACHPHYS\<rparr>]]"

text \<open>What the set-up functions of several architectures do alike.\<close>

definition root_or_none :: "parsed_opts \<Rightarrow> fulladdr \<Rightarrow> fulladdr" where
  "root_or_none popt old =
     (case po_rootpgt popt of Some root \<Rightarrow> root | None \<Rightarrow> old\<lparr>fa_as := ADDRXLAT_NOADDR\<rparr>)"

definition set_nfields :: "nat \<Rightarrow> os_init \<Rightarrow> os_init" where
  "set_nfields n = put_meth ADDRXLAT_SYS_METH_PGT (\<lambda>m. m\<lparr>pgt_pf := (pgt_pf m)\<lparr>nfields := n\<rparr>\<rparr>)"

definition map_direct :: "addr_t \<Rightarrow> addr_t \<Rightarrow> addr_t \<Rightarrow> unit oi" where
  "map_direct first lastaddr off =
     oi_steps
       [oi_upd (put_meth ADDRXLAT_SYS_METH_DIRECT (linear_meth ADDRXLAT_KPHYSADDR off)),
        sys_set_layout ADDRXLAT_SYS_MAP_KV_PHYS
          [\<lparr>reg_first = first, reg_last = lastaddr, reg_meth = ADDRXLAT_SYS_METH_DIRECT,
             reg_act = SYS_ACT_NONE\<rparr>],
        sys_set_layout ADDRXLAT_SYS_MAP_KPHYS_DIRECT
          [\<lparr>reg_first = first + off, reg_last = lastaddr + off, reg_meth = ADDRXLAT_SYS_METH_RDIRECT,
             reg_act = SYS_ACT_RDIRECT\<rparr>]]"

end
