(* ===== verification/Sys_Aarch64.thy ===== *)
theory Sys_Aarch64
  imports Sys_Layout
begin

section \<open>Set-up of AArch64 systems (src/addrxlat/aarch64.c)\<close>

text \<open>\<open>KERNEL_VERSION (5, 4, 0)\<close> of the system header \<open>linux/version.h\<close>.\<close>

definition KERNEL_VERSION_5_4_0 :: u64 where
  "KERNEL_VERSION_5_4_0 = 0x050400"

definition VA_MAX_BITS :: u64 where
  "VA_MAX_BITS = 52"

definition PHYSADDR_MASK_aarch64 :: addr_t where
  "PHYSADDR_MASK_aarch64 = ADDR_MASK 52"

definition get_linux_pgtroot_aarch64 :: "unit oi" where
  "get_linux_pgtroot_aarch64 =
     oi_bind (oi_or_error (oi_call (get_symval ''swapper_pg_dir''))
                ''Cannot determine page table virtual address'' []) (\<lambda>addr.
     oi_bind (oi_upd (put_root \<lparr>fa_addr = addr, fa_as = ADDRXLAT_KVADDR\<rparr>)) (\<lambda>u.
     oi_bind (oi_direct_read_ok \<lparr>fa_addr = addr, fa_as = ADDRXLAT_KVADDR\<rparr>) (\<lambda>direct.
       if direct then oi_ok ()
       else
         oi_bind (oi_or_error (oi_call (get_number ''kimage_voffset''))
                    ''Cannot determine kimage_voffset'' []) (\<lambda>kimage_voffset.
         oi_upd (put_root \<lparr>fa_addr = addr - kimage_voffset, fa_as = ADDRXLAT_KPHYSADDR\<rparr>)))))"

definition linux_page_offset :: "nat \<Rightarrow> addr_t oi" where
  "linux_page_offset va_bits =
     (let top = NOT (ADDR_MASK va_bits); half = NOT (ADDR_MASK (va_bits - 1))
      in oi_try (oi_call (get_symval ''_stext'')) (\<lambda>r.
           case r of
             Inr stext \<Rightarrow> oi_ok (if half \<le> stext then top else half)
           | Inl status \<Rightarrow>
               if status = ADDRXLAT_ERR_NODATA then
                 oi_bind oi_clear_error (\<lambda>u.
                 oi_bind (oi_get (\<lambda>c. po_version_code (oi_popt c))) (\<lambda>version_code.
                   case version_code of
                     None \<Rightarrow> oi_fail status
                   | Some v \<Rightarrow> oi_ok (if KERNEL_VERSION_5_4_0 \<le> v then top else half)))
               else oi_fail status))"

definition add_linux_linear_map_aarch64 :: "readers \<Rightarrow> unit oi" where
  "add_linux_linear_map_aarch64 R =
     oi_bind (oi_opt po_virt_bits) (\<lambda>virt_bits.
     oi_bind (linux_page_offset (unat virt_bits)) (\<lambda>first.
     oi_bind (oi_get (\<lambda>c. init_step (Some (oi_sys c)) (oi_meth c ADDRXLAT_SYS_METH_PGT) 0)) (\<lambda>st.
     let last = first OR ADDR_MASK (unat virt_bits - 1)
     in oi_bind (oi_scan (lowest_mapped R st first last)) (\<lambda>(st, first).
        let phys = fa_addr (base st)
        in oi_bind (oi_scan (highest_mapped R st last first)) (\<lambda>(st, last).
           if fa_addr (base st) - phys \<noteq> last - first then oi_fail ADDRXLAT_ERR_NOTIMPL
           else oi_steps
             [oi_upd (put_meth ADDRXLAT_SYS_METH_DIRECT (linear_meth ADDRXLAT_KPHYSADDR (phys - first))),
              sys_set_layout ADDRXLAT_SYS_MAP_KV_PHYS
                [\<lparr>reg_first = first, reg_last = last, reg_meth = ADDRXLAT_SYS_METH_DIRECT,
                   reg_act = SYS_ACT_NONE\<rparr>],
              sys_set_layout ADDRXLAT_SYS_MAP_KPHYS_DIRECT
                [\<lparr>reg_first = phys, reg_last = fa_addr (base st), reg_meth = ADDRXLAT_SYS_METH_RDIRECT,
                   reg_act = SYS_ACT_RDIRECT\<rparr>]])))))"

definition map_linux_aarch64 :: "readers \<Rightarrow> unit oi" where
  "map_linux_aarch64 R =
     oi_steps
       [oi_bind (oi_get (\<lambda>c. po_rootpgt (oi_popt c))) (\<lambda>rootpgt.
          case rootpgt of Some root \<Rightarrow> oi_upd (put_root root) | None \<Rightarrow> get_linux_pgtroot_aarch64),
        sys_set_physmaps PHYSADDR_MASK_aarch64,
        oi_try (add_linux_linear_map_aarch64 R) (\<lambda>r. oi_clear_error)]"

definition determine_virt_bits :: "unit oi" where
  "determine_virt_bits c =
     (if po_virt_bits (oi_popt c) \<noteq> None then oi_ok () c
      else
        oi_bind
          (oi_or_error
             (if oi_os c = OS_LINUX then
                oi_try (oi_call (get_number ''TCR_EL1_T1SZ'')) (\<lambda>r.
                  case r of
                    Inr num \<Rightarrow> oi_ok (64 - num)
                  | Inl status \<Rightarrow>
                      if status = ADDRXLAT_ERR_NODATA
                      then oi_bind oi_clear_error (\<lambda>u. oi_call (get_number ''VA_BITS''))
                      else oi_fail status)
              else oi_error ADDRXLAT_ERR_NOTIMPL ''Unsupported OS type'' [])
             ''Cannot determine VA_BITS'' [])
          (\<lambda>num. oi_upd (\<lambda>c. c\<lparr>oi_popt := (oi_popt c)\<lparr>po_virt_bits := Some num\<rparr>\<rparr>)) c)"

text \<open>
  The loop that splits the virtual address into fields, on \<open>unsigned\<close> numbers. Writing past the
  last of the eight fields is undefined.
\<close>

function pgt_fields :: "u32 \<Rightarrow> u32 \<Rightarrow> u32 \<Rightarrow> nat list \<Rightarrow> nat list option" where
  "pgt_fields page_bits num_bits field_bits fs =
     (if num_bits = 0 then Some fs
      else if ADDRXLAT_FIELDS_MAX \<le> length fs then None
      else
        let num_bits = num_bits - field_bits;
            fb = page_bits - 3;
            fb = (if fb > num_bits then num_bits else fb)
        in pgt_fields page_bits num_bits fb (fs @ [unat field_bits mod 2 ^ 16]))"
  by pat_completeness auto

termination
  by (relation "measure (\<lambda>(p, n, f, fs). ADDRXLAT_FIELDS_MAX - length fs)") auto

declare pgt_fields.simps [simp del]

definition init_pgt_meth_aarch64 :: "unit oi" where
  "init_pgt_meth_aarch64 =
     oi_bind (oi_opt po_page_shift) (\<lambda>page_shift.
     oi_bind (oi_opt po_virt_bits) (\<lambda>virt_bits c.
     let page_bits = ucast page_shift; num_bits = ucast virt_bits;
         fmt = (if num_bits \<le> 48 then ADDRXLAT_PTE_AARCH64
                else if page_bits = 16 then ADDRXLAT_PTE_AARCH64_LPA else ADDRXLAT_PTE_AARCH64_LPA2)
     in case pgt_fields page_bits num_bits page_bits [] of
          None \<Rightarrow> None
        | Some fs \<Rightarrow>
            oi_steps
              [oi_upd (put_meth ADDRXLAT_SYS_METH_PGT (\<lambda>m. m\<lparr>
                 kind := ADDRXLAT_PGT, target_as := ADDRXLAT_MACHPHYSADDR,
                 pgt_root := (pgt_root m)\<lparr>fa_as := ADDRXLAT_NOADDR\<rparr>, pte_mask := 0,
                 pgt_pf := \<lparr>pf_format = fmt, nfields = length fs,
                   fieldsz = fs @ drop (length fs) (fieldsz (pgt_pf m))\<rparr>\<rparr>)),
               oi_upd (\<lambda>c. put_meth ADDRXLAT_SYS_METH_UPGT (\<lambda>m. oi_meth c ADDRXLAT_SYS_METH_PGT) c)] c))"

definition init_hw_map_aarch64 :: "unit oi" where
  "init_hw_map_aarch64 =
     oi_bind (oi_opt po_virt_bits) (\<lambda>virt_bits.
     let off = ADDR_MASK (unat virt_bits)
     in sys_set_layout ADDRXLAT_SYS_MAP_HW
          [\<lparr>reg_first = 0, reg_last = off, reg_meth = ADDRXLAT_SYS_METH_UPGT, reg_act = SYS_ACT_NONE\<rparr>,
           \<lparr>reg_first = NOT 0 - off, reg_last = NOT 0, reg_meth = ADDRXLAT_SYS_METH_PGT,
             reg_act = SYS_ACT_NONE\<rparr>])"

definition check_virt_bits_aarch64 :: "unit oi" where
  "check_virt_bits_aarch64 =
     oi_bind (oi_opt po_page_shift) (\<lambda>page_shift.
     oi_bind (oi_opt po_virt_bits) (\<lambda>virt_bits.
     let va_min_bits = (if 16 \<le> page_shift then page_shift + 1 else 16)
     in if virt_bits < va_min_bits \<or> virt_bits > VA_MAX_BITS then oi_bad_virt_bits virt_bits
        else oi_ok ()))"

definition sys_aarch64 :: "readers \<Rightarrow> unit oi" where
  "sys_aarch64 R c =
     (if po_page_shift (oi_popt c) = None
      then oi_error ADDRXLAT_ERR_NODATA ''Cannot determine page size'' [] c
      else oi_steps
        [determine_virt_bits,
         check_virt_bits_aarch64,
         init_pgt_meth_aarch64,
         init_hw_map_aarch64,
         oi_copy_map ADDRXLAT_SYS_MAP_HW ADDRXLAT_SYS_MAP_KV_PHYS ''Cannot duplicate hardware mapping'',
         (if oi_os c = OS_LINUX then map_linux_aarch64 R else oi_ok ())] c)"

end
