(* ===== verification/Sys_Arm.thy ===== *)
theory Sys_Arm
  imports Sys_Layout
begin

section \<open>Set-up of 32-bit Arm systems (src/addrxlat/arm.c)\<close>

text \<open>
  The set-up of a 32-bit Arm system: the paging form, the direct mapping and the root page table of
  Linux, found by symbol or by the TTBR registers, and the hardware map.
\<close>

definition PHYSADDR_MASK_arm :: addr_t where
  "PHYSADDR_MASK_arm = ADDR_MASK 40"

definition VIRTADDR_MAX_32 :: addr_t where
  "VIRTADDR_MAX_32 = 0xffffffff"

definition LINUX_KVBASE_MASK :: addr_t where
  "LINUX_KVBASE_MASK = ADDR_MASK 25"

definition arm_pf :: "nat \<Rightarrow> paging_form" where
  "arm_pf ttbcr_n = \<lparr>pf_format = ADDRXLAT_PTE_ARM, nfields = 3,
     fieldsz = [12, 8, 12 - ttbcr_n, 0, 0, 0, 0, 0]\<rparr>"

definition init_pgt_meth_arm :: "nat \<Rightarrow> os_init \<Rightarrow> os_init" where
  "init_pgt_meth_arm ttbcr_n c =
     put_meth ADDRXLAT_SYS_METH_PGT (\<lambda>m. m\<lparr>kind := ADDRXLAT_PGT, target_as := ADDRXLAT_MACHPHYSADDR,
       pgt_root := root_or_none (oi_popt c) (pgt_root m), pte_mask := 0, pgt_pf := arm_pf ttbcr_n\<rparr>) c"

definition set_linux_direct :: "readers \<Rightarrow> addr_t \<Rightarrow> unit oi" where
  "set_linux_direct R start =
     oi_bind (oi_get (\<lambda>c. init_step (Some (oi_sys c)) (oi_meth c ADDRXLAT_SYS_METH_PGT) start)) (\<lambda>st.
     oi_bind (oi_get (\<lambda>c. po_phys_base (oi_popt c))) (\<lambda>opt_base.
     oi_bind
       (case opt_base of
          Some phys_base \<Rightarrow> oi_ok (phys_base, st)
        | None \<Rightarrow> oi_call (\<lambda>ctx. do {
            (status, st, ctx) \<leftarrow> walk R st ctx;
            Some (status, (fa_addr (base st), st), ctx)
          }))
       (\<lambda>(phys_base, st).
     oi_bind (oi_scan (highest_linear R st start VIRTADDR_MAX_32 (phys_base - start))) (\<lambda>(st, last).
       map_direct start last (phys_base - start)))))"

definition get_linux_pgtroot_arm :: "unit oi" where
  "get_linux_pgtroot_arm =
     oi_bind (oi_or_error (oi_call (get_symval ''swapper_pg_dir''))
                ''Cannot determine page table virtual address'' [])
       (\<lambda>addr. oi_upd (put_root \<lparr>fa_addr = addr, fa_as = ADDRXLAT_KVADDR\<rparr>))"

text \<open>
  The temporary mapping of the root page table. \<open>page_base\<close> is \<open>Inl\<close> the status of a failed
  lookup of \<open>_stext\<close>.
\<close>

definition map_pgt_root_arm :: "status + addr_t \<Rightarrow> unit oi" where
  "map_pgt_root_arm page_base =
     oi_bind (oi_get (\<lambda>c. oi_meth c ADDRXLAT_SYS_METH_PGT)) (\<lambda>m.
     oi_bind (oi_direct_read_ok (pgt_root m)) (\<lambda>direct.
     oi_bind (oi_get (\<lambda>c. po_phys_base (oi_popt c))) (\<lambda>opt_base.
       case opt_base of
         None \<Rightarrow> oi_ok ()
       | Some phys_base \<Rightarrow>
           if direct then oi_ok ()
           else
             case page_base of
               Inl status \<Rightarrow> oi_error status ''Cannot determine PAGE_BASE'' []
             | Inr pb \<Rightarrow>
                 let pgtvaddr = fa_addr (pgt_root m)
                       + (if fa_as (pgt_root m) = ADDRXLAT_MACHPHYSADDR then pb - phys_base else 0);
                     pgd_size = push_bit (nat (pteval_shift ADDRXLAT_PTE_ARM))
                       (pf_table_size (pgt_pf m) (nfields (pgt_pf m) - 1))
                 in map_direct pgtvaddr (pgtvaddr + pgd_size - 1) (phys_base - pb))))"

definition map_linux_arm :: "readers \<Rightarrow> unit oi" where
  "map_linux_arm R =
     oi_steps
       [oi_upd (init_pgt_meth_arm 0),
        oi_bind (oi_get (\<lambda>c. fa_as (pgt_root (oi_meth c ADDRXLAT_SYS_METH_PGT)))) (\<lambda>a.
          if a = ADDRXLAT_NOADDR then get_linux_pgtroot_arm else oi_ok ()),
        oi_try (oi_call (get_symval ''_stext'')) (\<lambda>r.
          let page_base = (case r of Inl status \<Rightarrow> Inl status
                           | Inr stext \<Rightarrow> Inr (stext AND NOT LINUX_KVBASE_MASK))
          in oi_steps
            [map_pgt_root_arm page_base,
             (case page_base of
                Inl status \<Rightarrow> oi_ok ()
              | Inr pb \<Rightarrow>
                  oi_try (set_linux_direct R pb) (\<lambda>r.
                    case r of Inl status \<Rightarrow> oi_clear_error | Inr u \<Rightarrow> oi_ok ()))])]"

definition sys_arm :: "readers \<Rightarrow> unit oi" where
  "sys_arm R c =
     oi_steps
       [sys_set_physmaps PHYSADDR_MASK_arm,
        oi_new_map ADDRXLAT_SYS_MAP_HW ''Cannot set up hardware mapping'',
        oi_or_error
          (oi_map_set ADDRXLAT_SYS_MAP_HW 0 \<lparr>endoff = VIRTADDR_MAX_32, meth = ADDRXLAT_SYS_METH_PGT\<rparr>)
          ''Cannot set up hardware mapping'' [],
        oi_copy_map ADDRXLAT_SYS_MAP_HW ADDRXLAT_SYS_MAP_KV_PHYS ''Cannot set up virt-to-phys mapping'',
        (if oi_os c = OS_LINUX then map_linux_arm R
         else oi_error ADDRXLAT_ERR_NOTIMPL ''OS type not implemented'' [])] c"

end
