(* ===== verification/Sys_Riscv64.thy ===== *)
theory Sys_Riscv64
  imports Sys_Layout
begin

section \<open>Set-up of RISC-V systems (src/addrxlat/riscv64.c)\<close>

text \<open>
  The set-up of a RISC-V system: the number of virtual address bits, the root page table, the linear
  mapping of Linux and the hardware map.
\<close>

definition PHYSADDR_MASK_riscv64 :: addr_t where
  "PHYSADDR_MASK_riscv64 = ADDR_MASK 56"

definition get_linux_pgtroot_riscv64 :: "unit oi" where
  "get_linux_pgtroot_riscv64 =
     oi_bind (oi_or_error (oi_call (get_symval ''swapper_pg_dir''))
                ''Cannot determine page table virtual address'' []) (\<lambda>addr.
     oi_bind (oi_upd (put_root \<lparr>fa_addr = addr, fa_as = ADDRXLAT_KVADDR\<rparr>)) (\<lambda>u.
     oi_bind (oi_direct_read_ok \<lparr>fa_addr = addr, fa_as = ADDRXLAT_KVADDR\<rparr>) (\<lambda>direct.
       if direct then oi_ok ()
       else
         oi_bind (oi_or_error (oi_call (get_number ''va_kernel_pa_offset''))
                    ''Cannot determine va_kernel_pa_offset'' []) (\<lambda>va_pa_offset.
         oi_upd (put_root \<lparr>fa_addr = addr - va_pa_offset, fa_as = ADDRXLAT_KPHYSADDR\<rparr>)))))"

definition add_linux_linear_map_riscv64 :: "readers \<Rightarrow> unit oi" where
  "add_linux_linear_map_riscv64 R =
     oi_bind (oi_call (get_number ''PAGE_OFFSET'')) (\<lambda>first.
     oi_bind (oi_get (\<lambda>c. init_step (Some (oi_sys c)) (oi_meth c ADDRXLAT_SYS_METH_PGT) 0)) (\<lambda>st.
     oi_bind (oi_scan (lowest_mapped R st first (NOT 0))) (\<lambda>(st, first).
     let off = fa_addr (base st) - first
     in oi_bind (oi_scan (highest_linear R st first (NOT 0) off)) (\<lambda>(st, last).
          map_direct first last off))))"

definition map_linux_riscv64 :: "readers \<Rightarrow> unit oi" where
  "map_linux_riscv64 R =
     oi_steps
       [oi_bind (oi_get (\<lambda>c. po_rootpgt (oi_popt c))) (\<lambda>rootpgt.
          case rootpgt of Some root \<Rightarrow> oi_upd (put_root root) | None \<Rightarrow> get_linux_pgtroot_riscv64),
        oi_try (add_linux_linear_map_riscv64 R) (\<lambda>r. oi_clear_error)]"

definition get_virt_bits_riscv64 :: "unit oi" where
  "get_virt_bits_riscv64 c =
     (if po_virt_bits (oi_popt c) \<noteq> None then oi_ok () c
      else
        oi_bind
          (oi_or_error
             (if oi_os c = OS_LINUX then oi_call (get_number ''VA_BITS'')
              else oi_error ADDRXLAT_ERR_NOTIMPL ''Unsupported OS type'' [])
             ''Cannot determine VA_BITS'' [])
          (\<lambda>num. oi_upd (\<lambda>c. c\<lparr>oi_popt := (oi_popt c)\<lparr>po_virt_bits := Some num\<rparr>\<rparr>)) c)"

definition riscv64_pf :: paging_form where
  "riscv64_pf = \<lparr>pf_format = ADDRXLAT_PTE_RISCV64, nfields = 5, fieldsz = [12, 9, 9, 9, 9, 9, 0, 0]\<rparr>"

definition init_pgt_meth_riscv64 :: "unit oi" where
  "init_pgt_meth_riscv64 =
     oi_steps
       [oi_upd (\<lambda>c. put_meth ADDRXLAT_SYS_METH_PGT (\<lambda>m. m\<lparr>kind := ADDRXLAT_PGT,
          target_as := ADDRXLAT_MACHPHYSADDR, pgt_root := root_or_none (oi_popt c) (pgt_root m),
          pte_mask := 0, pgt_pf := riscv64_pf\<rparr>) c),
        get_virt_bits_riscv64,
        oi_bind (oi_opt po_virt_bits) (\<lambda>virt_bits.
          if virt_bits = 39 then oi_upd (set_nfields 4)
          else if virt_bits = 48 then oi_upd (set_nfields 5)
          else if virt_bits = 57 then oi_upd (set_nfields 6)
          else oi_bad_virt_bits virt_bits)]"

definition init_hw_map_riscv64 :: "unit oi" where
  "init_hw_map_riscv64 =
     oi_bind (oi_opt po_virt_bits) (\<lambda>virt_bits.
     let off = ADDR_MASK (unat virt_bits - 1)
     in sys_set_layout ADDRXLAT_SYS_MAP_HW
          [\<lparr>reg_first = 0, reg_last = off, reg_meth = ADDRXLAT_SYS_METH_PGT, reg_act = SYS_ACT_NONE\<rparr>,
           \<lparr>reg_first = NOT 0 - off, reg_last = NOT 0, reg_meth = ADDRXLAT_SYS_METH_PGT,
             reg_act = SYS_ACT_NONE\<rparr>])"

definition sys_riscv64 :: "readers \<Rightarrow> unit oi" where
  "sys_riscv64 R c =
     oi_steps
       [init_pgt_meth_riscv64,
        init_hw_map_riscv64,
        oi_copy_map ADDRXLAT_SYS_MAP_HW ADDRXLAT_SYS_MAP_KV_PHYS ''Cannot duplicate hardware mapping'',
        sys_set_physmaps PHYSADDR_MASK_riscv64,
        (if oi_os c = OS_LINUX then map_linux_riscv64 R else oi_ok ())] c"

end
