(* ===== verification/Sys_S390x.thy ===== *)
theory Sys_S390x
  imports Sys_Layout
begin

section \<open>Set-up of z/Architecture systems (src/addrxlat/s390x.c)\<close>

text \<open>
  The set-up of a z/Architecture system: the root page table, the number of address bits that its
  region tables give, and the paging form.
\<close>

definition SFAA_BITS :: nat where "SFAA_BITS = 20"

definition REGTBL_BITS :: nat where "REGTBL_BITS = 11"

definition ROOT_PGT_LEN :: nat where "ROOT_PGT_LEN = 2048"

definition get_pgtroot :: "unit oi" where
  "get_pgtroot c =
     (let old = pgt_root (oi_meth c ADDRXLAT_SYS_METH_PGT); root = root_or_none (oi_popt c) old;
          c = put_root root c
      in if fa_as root \<noteq> ADDRXLAT_NOADDR then oi_ok () c
      else
        oi_or_error
          (if po_os_type (oi_popt c) = None then oi_fail ADDRXLAT_ERR_NODATA
           else if oi_os c = OS_LINUX then
             oi_bind (oi_call (get_symval ''swapper_pg_dir'')) (\<lambda>addr.
               oi_upd (put_root \<lparr>fa_addr = addr, fa_as = ADDRXLAT_KPHYSADDR\<rparr>))
           else oi_fail ADDRXLAT_ERR_NOTIMPL)
          ''Cannot determine page table root address'' [] c)"

fun virt_bits_loop :: "readers \<Rightarrow> nat \<Rightarrow> fulladdr \<Rightarrow> u64 oi" where
  "virt_bits_loop R 0 ptr = oi_error ADDRXLAT_ERR_NOTPRESENT ''Empty top-level page table'' []"
| "virt_bits_loop R (Suc n) ptr =
     oi_bind (oi_read64 R ptr ''page table'') (\<lambda>entry.
       if RSTE_I entry = 0 then oi_ok (of_nat SFAA_BITS + of_nat REGTBL_BITS * (RSTE_TT entry + 1))
       else virt_bits_loop R n (ptr\<lparr>fa_addr := fa_addr ptr + 8\<rparr>))"

definition get_virt_bits_from_pgt :: "readers \<Rightarrow> unit oi" where
  "get_virt_bits_from_pgt R =
     oi_bind (oi_get (\<lambda>c. pgt_root (oi_meth c ADDRXLAT_SYS_METH_PGT))) (\<lambda>ptr.
     oi_bind (virt_bits_loop R ROOT_PGT_LEN ptr) (\<lambda>bits.
     oi_upd (\<lambda>c. c\<lparr>oi_popt := (oi_popt c)\<lparr>po_virt_bits := Some bits\<rparr>\<rparr>)))"

definition s390x_pf :: "nat \<Rightarrow> paging_form" where
  "s390x_pf n = \<lparr>pf_format = ADDRXLAT_PTE_S390X, nfields = n, fieldsz = [12, 8, 11, 11, 11, 11, 0, 0]\<rparr>"

text \<open>The number of virtual address bits is compared and divided as a \<open>long\<close>.\<close>

definition init_paging_form :: "readers \<Rightarrow> unit oi" where
  "init_paging_form R =
     oi_steps
       [get_pgtroot,
        oi_bind (oi_get (\<lambda>c. po_virt_bits (oi_popt c))) (\<lambda>bits.
          if bits = None then get_virt_bits_from_pgt R else oi_ok ()),
        oi_bind (oi_opt po_virt_bits) (\<lambda>bits.
          let virt_bits = sint bits
          in if virt_bits < 31 \<or> virt_bits > 64 \<or> (virt_bits - int SFAA_BITS) mod int REGTBL_BITS \<noteq> 0
             then oi_bad_virt_bits bits
             else oi_upd (put_meth ADDRXLAT_SYS_METH_PGT (\<lambda>m. m\<lparr>kind := ADDRXLAT_PGT,
               target_as := ADDRXLAT_MACHPHYSADDR, pte_mask := 0,
               pgt_pf := s390x_pf (2 + nat ((virt_bits - int SFAA_BITS) div int REGTBL_BITS))\<rparr>)))]"

definition sys_s390x :: "readers \<Rightarrow> unit oi" where
  "sys_s390x R =
     oi_bind (sys_set_physmaps (NOT 0)) (\<lambda>u.
     oi_try (init_paging_form R) (\<lambda>r.
       case r of
         Inl status \<Rightarrow> if status = ADDRXLAT_ERR_NODATA then oi_clear_error else oi_fail status
       | Inr u \<Rightarrow> oi_steps
           [oi_new_map ADDRXLAT_SYS_MAP_HW ''Cannot set up hardware mapping'',
            oi_bind (oi_get (\<lambda>c. paging_max_index (pgt_pf (oi_meth c ADDRXLAT_SYS_METH_PGT)))) (\<lambda>off.
              oi_or_error
                (oi_map_set ADDRXLAT_SYS_MAP_HW 0 \<lparr>endoff = off, meth = ADDRXLAT_SYS_METH_PGT\<rparr>)
                ''Cannot set up hardware mapping'' []),
            oi_copy_map ADDRXLAT_SYS_MAP_HW ADDRXLAT_SYS_MAP_KV_PHYS
              ''Cannot duplicate hardware mapping'']))"

end
