(* ===== verification/Sys_Ppc64.thy ===== *)
theory Sys_Ppc64
  imports Sys_Layout
begin

section \<open>Set-up of 64-bit POWER systems (src/addrxlat/ppc64.c)\<close>

text \<open>
  The set-up of a 64-bit POWER system: the fixed layout of Linux and the lookup table of the virtual
  memory map, which is filled from a linked list in the memory of the dump.
\<close>

definition PAGE_SHIFT_64K :: u64 where "PAGE_SHIFT_64K = 16"

definition linux_layout :: "sys_region list" where
  "linux_layout =
     [\<lparr>reg_first = 0x0000000000000000, reg_last = 0x00000fffffffffff,
        reg_meth = ADDRXLAT_SYS_METH_UPGT, reg_act = SYS_ACT_NONE\<rparr>,
      \<lparr>reg_first = 0xc000000000000000, reg_last = 0xcfffffffffffffff,
        reg_meth = ADDRXLAT_SYS_METH_DIRECT, reg_act = SYS_ACT_DIRECT\<rparr>,
      \<lparr>reg_first = 0xd000000000000000, reg_last = 0xd00007ffffffffff,
        reg_meth = ADDRXLAT_SYS_METH_PGT, reg_act = SYS_ACT_NONE\<rparr>,
      \<lparr>reg_first = 0xd000080000000000, reg_last = 0xd0000fffffffffff,
        reg_meth = ADDRXLAT_SYS_METH_PGT, reg_act = SYS_ACT_NONE\<rparr>,
      \<lparr>reg_first = 0xf000000000000000, reg_last = 0xffffffffffffffff,
        reg_meth = ADDRXLAT_SYS_METH_VMEMMAP, reg_act = SYS_ACT_NONE\<rparr>]"

text \<open>
  The list of memory map blocks is read twice: to count its elements (an \<open>unsigned\<close> number),
  and to fill the table. A cyclic list is never left. A list that grows between the passes
  overflows the table, and one that shrinks leaves elements uninitialised: no defined result.
\<close>

definition kvaddr :: "addr_t \<Rightarrow> fulladdr" where
  "kvaddr a = \<lparr>fa_addr = a, fa_as = ADDRXLAT_KVADDR\<rparr>"

partial_function (option) vmemmap_count ::
  "readers \<Rightarrow> addr_t \<Rightarrow> addr_t \<Rightarrow> nat \<Rightarrow> os_init \<Rightarrow> ((status + nat) \<times> os_init) option" where
  "vmemmap_count R off_list elem cnt c =
     (if elem = 0 then Some (Inr cnt, c)
      else do {
        (r, c) \<leftarrow> oi_read64 R (kvaddr (elem + off_list)) ''vmemmap list'' c;
        case r of
          Inl status \<Rightarrow> Some (Inl status, c)
        | Inr data \<Rightarrow> vmemmap_count R off_list data ((cnt + 1) mod 2 ^ 32) c
      })"

definition vmemmap_elem :: "readers \<Rightarrow> addr_t \<Rightarrow> addr_t \<Rightarrow> addr_t \<Rightarrow> addr_t \<Rightarrow> (lookup_elem \<times> addr_t) oi" where
  "vmemmap_elem R off_list off_phys off_virt elem =
     oi_bind (oi_read64 R (kvaddr (elem + off_phys)) ''vmemmap phys'') (\<lambda>phys.
     oi_bind (oi_read64 R (kvaddr (elem + off_virt)) ''vmemmap virt'') (\<lambda>virt.
     oi_bind (oi_read64 R (kvaddr (elem + off_list)) ''vmemmap list'') (\<lambda>data.
     oi_ok (\<lparr>orig = phys, dest = virt\<rparr>, data))))"

partial_function (option) vmemmap_fill ::
  "readers \<Rightarrow> addr_t \<Rightarrow> addr_t \<Rightarrow> addr_t \<Rightarrow> nat \<Rightarrow> addr_t \<Rightarrow> lookup_elem list \<Rightarrow> os_init \<Rightarrow>
   ((status + lookup_elem list) \<times> os_init) option" where
  "vmemmap_fill R off_list off_phys off_virt cnt elem tbl c =
     (if elem = 0 then (if length tbl = cnt then Some (Inr tbl, c) else None)
      else if cnt \<le> length tbl then None
      else do {
        (r, c) \<leftarrow> vmemmap_elem R off_list off_phys off_virt elem c;
        case r of
          Inl status \<Rightarrow> Some (Inl status, c)
        | Inr (e, data) \<Rightarrow> vmemmap_fill R off_list off_phys off_virt cnt data (tbl @ [e]) c
      })"

definition get_vmemmap_param :: "readers \<Rightarrow> unit oi" where
  "get_vmemmap_param R =
     oi_bind (oi_call (get_symval ''vmemmap_list'')) (\<lambda>vmemmap_list.
     oi_bind (oi_call (get_offsetof ''vmemmap_backing'' ''list'')) (\<lambda>off_list.
     oi_bind (oi_call (get_offsetof ''vmemmap_backing'' ''phys'')) (\<lambda>off_phys.
     oi_bind (oi_call (get_offsetof ''vmemmap_backing'' ''virt_addr'')) (\<lambda>off_virt.
     oi_bind (oi_read64 R (kvaddr vmemmap_list) ''vmemmap_list'') (\<lambda>first_elem.
     oi_bind (vmemmap_count R off_list first_elem 0) (\<lambda>cnt.
     oi_bind oi_allocate (\<lambda>allocated.
       if \<not> allocated then oi_error ADDRXLAT_ERR_NOMEM ''Cannot allocate VMEMMAP translation'' []
       else
         oi_bind (vmemmap_fill R off_list off_phys off_virt cnt first_elem []) (\<lambda>tbl.
         oi_upd (put_meth ADDRXLAT_SYS_METH_VMEMMAP (\<lambda>m. m\<lparr>lk_tbl := tbl\<rparr>))))))))))"

definition ppc64_pf_64k :: paging_form where
  "ppc64_pf_64k = \<lparr>pf_format = ADDRXLAT_PTE_PPC64_LINUX_RPN30, nfields = 4,
     fieldsz = [16, 12, 12, 4, 0, 0, 0, 0]\<rparr>"

definition map_linux_ppc64 :: "readers \<Rightarrow> unit oi" where
  "map_linux_ppc64 R c =
     (let page_shift = (case po_page_shift (oi_popt c) of Some s \<Rightarrow> s | None \<Rightarrow> PAGE_SHIFT_64K)
      in if page_shift \<noteq> PAGE_SHIFT_64K
         then oi_error ADDRXLAT_ERR_NOTIMPL ''Unsupported page shift: %lu'' [MNum page_shift] c
         else oi_steps
           [sys_set_physmaps (push_bit (64 - 30 + 16) 1 - 1),
            sys_set_layout ADDRXLAT_SYS_MAP_KV_PHYS linux_layout,
            oi_upd (put_meth ADDRXLAT_SYS_METH_UPGT (\<lambda>m. m\<lparr>kind := ADDRXLAT_PGT,
              target_as := ADDRXLAT_MACHPHYSADDR, pte_mask := 0,
              pgt_root := (pgt_root m)\<lparr>fa_as := ADDRXLAT_NOADDR\<rparr>, pgt_pf := ppc64_pf_64k\<rparr>)),
            oi_upd (\<lambda>c. put_meth ADDRXLAT_SYS_METH_PGT (\<lambda>m. oi_meth c ADDRXLAT_SYS_METH_UPGT) c),
            oi_try (oi_call (get_symval ''swapper_pg_dir'')) (\<lambda>r.
              case r of Inr addr \<Rightarrow> oi_upd (put_root (kvaddr addr)) | Inl status \<Rightarrow> oi_clear_error),
            oi_try (get_vmemmap_param R) (\<lambda>r.
              case r of
                Inl status \<Rightarrow> if status = ADDRXLAT_ERR_NODATA then oi_clear_error else oi_fail status
              | Inr u \<Rightarrow> oi_upd (put_meth ADDRXLAT_SYS_METH_VMEMMAP (\<lambda>m. m\<lparr>kind := ADDRXLAT_LOOKUP,
                  target_as := ADDRXLAT_KPHYSADDR, lk_endoff := ADDR_MASK (unat page_shift)\<rparr>)))] c)"

definition sys_ppc64 :: "readers \<Rightarrow> unit oi" where
  "sys_ppc64 R c =
     (if oi_os c = OS_LINUX then map_linux_ppc64 R c
      else oi_error ADDRXLAT_ERR_NOTIMPL ''OS type not implemented'' [] c)"

end
