(* ===== verification/Sys_Ia32.thy ===== *)
theory Sys_Ia32
  imports Sys_Layout
begin

section \<open>Set-up of IA32 systems (src/addrxlat/ia32.c)\<close>

text \<open>
  The set-up of an IA32 system: paging with and without PAE, the probe that tells them apart, and the
  direct mapping of Linux up to the start of the vmalloc area.
\<close>

definition PHYSADDR_BITS_MAX_NONPAE :: nat where "PHYSADDR_BITS_MAX_NONPAE = 32"

definition PHYSADDR_BITS_MAX_PAE :: nat where "PHYSADDR_BITS_MAX_PAE = 52"

definition LINUX_DIRECTMAP_ia32 :: addr_t where "LINUX_DIRECTMAP_ia32 = 0xc0000000"

definition XEN_DIRECTMAP_ia32 :: addr_t where "XEN_DIRECTMAP_ia32 = 0xff000000"

definition VIRTADDR_MAX_ia32 :: addr_t where "VIRTADDR_MAX_ia32 = 0xffffffff"

definition ia32_pf :: paging_form where
  "ia32_pf = \<lparr>pf_format = ADDRXLAT_PTE_IA32, nfields = 3, fieldsz = [12, 10, 10, 0, 0, 0, 0, 0]\<rparr>"

definition ia32_pf_pae :: paging_form where
  "ia32_pf_pae = \<lparr>pf_format = ADDRXLAT_PTE_IA32_PAE, nfields = 4, fieldsz = [12, 9, 9, 2, 0, 0, 0, 0]\<rparr>"

text \<open>
  One attempt of \<open>check_pae\<close>: does a walk of the page table with this paging form take the start
  of the direct mapping to physical address 0?
\<close>

definition probe_pf :: "readers \<Rightarrow> fulladdr \<Rightarrow> addr_t \<Rightarrow> paging_form \<Rightarrow> nat \<Rightarrow> unit oi \<Rightarrow> unit oi" where
  "probe_pf R root direct pf bits next =
     oi_steps
       [oi_or_error (sys_set_physmaps (ADDR_MASK bits)) ''Cannot set up physical mappings'' [],
        oi_bind (oi_get (\<lambda>c. init_step (Some (oi_sys c))
            (no_meth\<lparr>kind := ADDRXLAT_PGT, target_as := ADDRXLAT_MACHPHYSADDR, pgt_root := root,
               pte_mask := 0, pgt_pf := pf\<rparr>) direct)) (\<lambda>st.
        oi_try (oi_call (walk R st)) (\<lambda>r.
          if (case r of Inr st \<Rightarrow> fa_addr (base st) = 0 | Inl status \<Rightarrow> False)
          then oi_upd (\<lambda>c. c\<lparr>oi_popt := (oi_popt c)\<lparr>po_phys_bits := Some (of_nat bits)\<rparr>\<rparr>)
          else oi_steps
            [oi_clear_error,
             oi_map_clear ADDRXLAT_SYS_MAP_MACHPHYS_KPHYS,
             oi_map_clear ADDRXLAT_SYS_MAP_KPHYS_MACHPHYS,
             next]))]"

definition check_pae :: "readers \<Rightarrow> fulladdr \<Rightarrow> addr_t \<Rightarrow> unit oi" where
  "check_pae R root direct =
     probe_pf R root direct ia32_pf_pae PHYSADDR_BITS_MAX_PAE
       (probe_pf R root direct ia32_pf PHYSADDR_BITS_MAX_NONPAE
          (oi_error ADDRXLAT_ERR_NOTIMPL ''Neither %s nor %s directmap found''
             [MStr ''PAE'', MStr ''non-PAE'']))"

definition check_pae_sym :: "readers \<Rightarrow> unit oi" where
  "check_pae_sym R c =
     (if oi_os c \<noteq> OS_LINUX then oi_error ADDRXLAT_ERR_NOTIMPL ''Unsupported OS'' [] c
      else
        oi_bind (oi_call (get_symval ''swapper_pg_dir'')) (\<lambda>addr.
          check_pae R \<lparr>fa_addr = addr, fa_as = ADDRXLAT_KVADDR\<rparr> LINUX_DIRECTMAP_ia32) c)"

definition init_ia32 :: "nat \<Rightarrow> paging_form \<Rightarrow> unit oi" where
  "init_ia32 bits pf =
     oi_steps
       [sys_set_physmaps (ADDR_MASK bits),
        oi_upd (\<lambda>c. put_meth ADDRXLAT_SYS_METH_PGT (\<lambda>m. m\<lparr>kind := ADDRXLAT_PGT,
          target_as := ADDRXLAT_MACHPHYSADDR, pgt_root := root_or_none (oi_popt c) (pgt_root m),
          pte_mask := 0, pgt_pf := pf\<rparr>) c)]"

definition sys_ia32_nonpae :: "unit oi" where
  "sys_ia32_nonpae = init_ia32 PHYSADDR_BITS_MAX_NONPAE ia32_pf"

definition sys_ia32_pae :: "unit oi" where
  "sys_ia32_pae = init_ia32 PHYSADDR_BITS_MAX_PAE ia32_pf_pae"

definition try_vmap_area_list :: "readers \<Rightarrow> addr_t oi" where
  "try_vmap_area_list R =
     oi_bind (oi_call (get_symval ''vmap_area_list'')) (\<lambda>addr.
     oi_bind (oi_call (get_offsetof ''vmap_area'' ''va_start'')) (\<lambda>va_start.
     oi_bind (oi_call (get_offsetof ''vmap_area'' ''list'')) (\<lambda>va_list.
     oi_bind (oi_call (get_offsetof ''list_head'' ''next'')) (\<lambda>list_next.
     oi_bind (oi_read32 R \<lparr>fa_addr = addr + list_next, fa_as = ADDRXLAT_KVADDR\<rparr>
                ''vmap_area_list node'') (\<lambda>val.
     oi_read32 R \<lparr>fa_addr = val - va_list + va_start, fa_as = ADDRXLAT_KVADDR\<rparr>
       ''vmap_area start address'')))))"

definition try_vmlist :: "readers \<Rightarrow> addr_t oi" where
  "try_vmlist R =
     oi_bind (oi_call (get_symval ''vmlist'')) (\<lambda>addr.
     oi_bind (oi_call (get_offsetof ''vm_struct'' ''addr'')) (\<lambda>vm_addr.
     oi_bind (oi_read32 R \<lparr>fa_addr = addr, fa_as = ADDRXLAT_KVADDR\<rparr> ''vmlist'') (\<lambda>val.
     oi_read32 R \<lparr>fa_addr = val + vm_addr, fa_as = ADDRXLAT_KVADDR\<rparr> ''vmlist address'')))"

text \<open>
  \<open>vtop\<close> is a map that is not part of the system yet. The result of the search for the start of
  the \<open>vmalloc\<close> area is \<open>None\<close> when there is no data for it.
\<close>

definition local_map_set :: "xmap \<Rightarrow> addr_t \<Rightarrow> range \<Rightarrow> xmap oi" where
  "local_map_set m addr rng =
     oi_bind oi_allocate (\<lambda>grown.
       let (status, m) = map_set grown m addr rng
       in if status = ADDRXLAT_OK then oi_ok m else oi_fail status)"

definition find_vmalloc_start :: "readers \<Rightarrow> addr_t option oi" where
  "find_vmalloc_start R =
     oi_try (try_vmap_area_list R) (\<lambda>r.
       case r of
         Inr v \<Rightarrow> oi_ok (Some v)
       | Inl status \<Rightarrow>
           if status \<noteq> ADDRXLAT_ERR_NODATA then oi_fail status
           else oi_bind oi_clear_error (\<lambda>u.
             oi_try (try_vmlist R) (\<lambda>r.
               case r of
                 Inr v \<Rightarrow> oi_ok (Some v)
               | Inl status \<Rightarrow>
                   if status \<noteq> ADDRXLAT_ERR_NODATA then oi_fail status
                   else oi_bind oi_clear_error (\<lambda>u. oi_ok None))))"

definition set_linux_directmap :: "readers \<Rightarrow> xmap \<Rightarrow> xmap oi" where
  "set_linux_directmap R vtop =
     oi_bind (oi_or_error (find_vmalloc_start R) ''Cannot determine VMALLOC start'' []) (\<lambda>r.
       case r of
         None \<Rightarrow> oi_ok vtop
       | Some vmalloc_start \<Rightarrow>
           if vmalloc_start \<le> LINUX_DIRECTMAP_ia32
           then oi_error ADDRXLAT_ERR_INVALID ''Invalid VMALLOC start: %lx'' [MNum vmalloc_start]
           else
             oi_bind
               (oi_or_error
                  (oi_map_set ADDRXLAT_SYS_MAP_KPHYS_DIRECT (vmalloc_start - LINUX_DIRECTMAP_ia32)
                     \<lparr>endoff = ADDRXLAT_ADDR_MAX - (vmalloc_start - LINUX_DIRECTMAP_ia32),
                       meth = ADDRXLAT_SYS_METH_NONE\<rparr>)
                  ''Cannot update reverse directmap'' [])
               (\<lambda>u. oi_or_error
                  (local_map_set vtop LINUX_DIRECTMAP_ia32
                     \<lparr>endoff = vmalloc_start - 1 - LINUX_DIRECTMAP_ia32, meth = ADDRXLAT_SYS_METH_DIRECT\<rparr>)
                  ''Cannot set up directmap'' []))"

definition linux_directmap_ia32 :: "sys_region list" where
  "linux_directmap_ia32 =
     [\<lparr>reg_first = LINUX_DIRECTMAP_ia32, reg_last = VIRTADDR_MAX_ia32,
        reg_meth = ADDRXLAT_SYS_METH_DIRECT, reg_act = SYS_ACT_DIRECT\<rparr>]"

definition get_linux_pgt_root_ia32 :: "unit oi" where
  "get_linux_pgt_root_ia32 c =
     (if fa_as (pgt_root (oi_meth c ADDRXLAT_SYS_METH_PGT)) \<noteq> ADDRXLAT_NOADDR then oi_ok () c
      else
        try_root (get_reg ''cr3'') ''cr3'' ADDRXLAT_MACHPHYSADDR
          (try_root (get_symval ''swapper_pg_dir'') ''swapper_pg_dir'' ADDRXLAT_KVADDR (oi_ok ())) c)"

definition ia32_pae_state :: "readers \<Rightarrow> unit oi" where
  "ia32_pae_state R c =
     (if po_phys_bits (oi_popt c) \<noteq> None then oi_ok () c
      else
        case po_rootpgt (oi_popt c) of
          None \<Rightarrow> check_pae_sym R c
        | Some root \<Rightarrow>
            if oi_os c = OS_LINUX then check_pae R root LINUX_DIRECTMAP_ia32 c
            else if oi_os c = OS_XEN then check_pae R root XEN_DIRECTMAP_ia32 c
            else oi_fail ADDRXLAT_ERR_NOTIMPL c)"

definition ia32_virt_map :: "readers \<Rightarrow> xmap oi" where
  "ia32_virt_map R =
     oi_bind oi_allocate (\<lambda>a.
       case map_new a of
         None \<Rightarrow> oi_error ADDRXLAT_ERR_NOMEM ''Cannot set up virt-to-phys mapping'' []
       | Some newmap \<Rightarrow>
           oi_bind
             (oi_or_error
                (local_map_set newmap 0 \<lparr>endoff = VIRTADDR_MAX_ia32, meth = ADDRXLAT_SYS_METH_PGT\<rparr>)
                ''Cannot set up virt-to-phys mapping'' [])
             (\<lambda>newmap c.
                if oi_os c = OS_LINUX then
                  oi_bind (oi_or_error get_linux_pgt_root_ia32 ''Cannot determine root page table'' [])
                    (\<lambda>u. set_linux_directmap R newmap) c
                else oi_ok newmap c))"

definition sys_ia32 :: "readers \<Rightarrow> unit oi" where
  "sys_ia32 R c =
     oi_steps
       [(if oi_os c = OS_LINUX then
           oi_or_error (sys_set_layout ADDRXLAT_SYS_MAP_KV_PHYS linux_directmap_ia32)
             ''Cannot set up directmap'' []
         else oi_ok ()),
        oi_or_error (ia32_pae_state R) ''Cannot determine PAE state'' [],
        oi_new_map ADDRXLAT_SYS_MAP_HW ''Cannot set up hardware mapping'',
        oi_or_error
          (oi_map_set ADDRXLAT_SYS_MAP_HW 0 \<lparr>endoff = VIRTADDR_MAX_ia32, meth = ADDRXLAT_SYS_METH_PGT\<rparr>)
          ''Cannot set up hardware mapping'' [],
        oi_bind (oi_opt po_phys_bits) (\<lambda>phys_bits.
          if phys_bits = of_nat PHYSADDR_BITS_MAX_NONPAE then sys_ia32_nonpae
          else if phys_bits = of_nat PHYSADDR_BITS_MAX_PAE then sys_ia32_pae
          else (\<lambda>c. let (status, ctx) = bad_phys_bits (oi_ctx c) phys_bits
                    in Some (Inl status, c\<lparr>oi_ctx := ctx\<rparr>))),
        oi_bind (ia32_virt_map R) (\<lambda>newmap. oi_upd (put_map ADDRXLAT_SYS_MAP_KV_PHYS (Some newmap)))] c"

end
