(* ===== verification/Sys_X86_64.thy ===== *)
theory Sys_X86_64
  imports Sys_Layout
begin

section \<open>Set-up of AMD64 systems (src/addrxlat/x86_64.c)\<close>

text \<open>
  The set-up of an AMD64 system. Linux: the direct mapping by kernel version or by a search of the
  page tables, the kernel text and its offset, page table isolation. Xen: layouts by version, the text
  of the hypervisor, the machine-to-physical mapping.
\<close>

subsection \<open>Constants\<close>

definition PHYSADDR_MASK_x86_64 :: addr_t where
  "PHYSADDR_MASK_x86_64 = ADDR_MASK 52"

definition VIRTADDR_BITS_MAX :: nat where "VIRTADDR_BITS_MAX = 48"

definition VIRTADDR_5L_BITS_MAX :: nat where "VIRTADDR_5L_BITS_MAX = 57"

definition CR4_LA57_ISSET :: "u64 \<Rightarrow> bool" where
  "CR4_LA57_ISSET val \<longleftrightarrow> val AND push_bit 12 1 \<noteq> 0"

definition NONCANONICAL_START :: "nat \<Rightarrow> addr_t" where
  "NONCANONICAL_START bits = push_bit (bits - 1) 1"

definition NONCANONICAL_END :: "nat \<Rightarrow> addr_t" where
  "NONCANONICAL_END bits = NOT (NONCANONICAL_START bits)"

definition XEN_MACH2PHYS_ADDR :: addr_t where "XEN_MACH2PHYS_ADDR = 0xffff800000000000"

definition LINUX_KTEXT_START :: addr_t where "LINUX_KTEXT_START = 0xffffffff80000000"

definition LINUX_KTEXT_END_NOKASLR :: addr_t where "LINUX_KTEXT_END_NOKASLR = 0xffffffff9fffffff"

definition LINUX_KTEXT_END :: addr_t where "LINUX_KTEXT_END = 0xffffffffbfffffff"

definition directmap_2_6_0 :: "addr_t \<times> addr_t" where
  "directmap_2_6_0 = (0x0000010000000000, 0x000001ffffffffff)"

definition directmap_2_6_11 :: "addr_t \<times> addr_t" where
  "directmap_2_6_11 = (0xffff810000000000, 0xffffc0ffffffffff)"

definition directmap_2_6_27 :: "addr_t \<times> addr_t" where
  "directmap_2_6_27 = (0xffff880000000000, 0xffffc0ffffffffff)"

definition directmap_2_6_31 :: "addr_t \<times> addr_t" where
  "directmap_2_6_31 = (0xffff880000000000, 0xffffc7ffffffffff)"

definition directmap_4_2 :: "addr_t \<times> addr_t" where
  "directmap_4_2 = (0xffff888000000000, 0xffffc8ffffffffff)"

definition directmap_5l :: "addr_t \<times> addr_t" where
  "directmap_5l = (0xff10000000000000, 0xff8fffffffffffff)"

definition directmap_5l_4_2 :: "addr_t \<times> addr_t" where
  "directmap_5l_4_2 = (0xff11000000000000, 0xff90ffffffffffff)"

definition LINUX_PTI_USER_PGTABLE_MASK :: addr_t where
  "LINUX_PTI_USER_PGTABLE_MASK = push_bit 12 1"

definition ADDRXLAT_VER_LINUX :: "nat \<Rightarrow> nat \<Rightarrow> nat \<Rightarrow> u64" where
  "ADDRXLAT_VER_LINUX a b c = push_bit 16 (of_nat a) + push_bit 8 (of_nat b) + of_nat c"

definition ADDRXLAT_VER_XEN :: "nat \<Rightarrow> nat \<Rightarrow> u64" where
  "ADDRXLAT_VER_XEN major minor = push_bit 16 (of_nat major) OR of_nat minor"

subsection \<open>The direct mapping of Linux\<close>

definition pgt_step :: "addr_t \<Rightarrow> os_init \<Rightarrow> step" where
  "pgt_step addr c = init_step (Some (oi_sys c)) (oi_meth c ADDRXLAT_SYS_METH_PGT) addr"

definition vtop_pgt :: "readers \<Rightarrow> addr_t \<Rightarrow> addr_t oi" where
  "vtop_pgt R addr =
     oi_bind (oi_get (pgt_step addr)) (\<lambda>st.
     oi_bind (oi_call (walk R st)) (\<lambda>st.
     oi_bind (oi_get oi_sys) (\<lambda>sys.
     oi_bind (oi_call (fulladdr_conv R (base st) ADDRXLAT_KPHYSADDR (Some sys))) (\<lambda>faddr.
     oi_ok (fa_addr faddr)))))"

definition remove_rdirect :: "os_init \<Rightarrow> os_init" where
  "remove_rdirect c =
     put_map ADDRXLAT_SYS_MAP_KPHYS_DIRECT None
       (put_meth ADDRXLAT_SYS_METH_RDIRECT (\<lambda>m. m\<lparr>kind := ADDRXLAT_NOMETH\<rparr>) c)"

text \<open>The version code is converted to an \<open>unsigned\<close>.\<close>

definition linux_directmap_by_ver :: "u64 \<Rightarrow> (status + addr_t \<times> addr_t)" where
  "linux_directmap_by_ver version_code =
     (let ver = unsigned_int version_code
      in if ADDRXLAT_VER_LINUX 4 8 0 \<le> ver then Inl ADDRXLAT_ERR_NOTIMPL
      else if ADDRXLAT_VER_LINUX 2 6 31 \<le> ver then Inr directmap_2_6_31
      else if ADDRXLAT_VER_LINUX 2 6 27 \<le> ver then Inr directmap_2_6_27
      else if ADDRXLAT_VER_LINUX 2 6 11 \<le> ver then Inr directmap_2_6_11
      else if ADDRXLAT_VER_LINUX 2 6 0 \<le> ver then Inr directmap_2_6_0
      else Inl ADDRXLAT_ERR_NOTIMPL)"

definition is_directmap :: "readers \<Rightarrow> addr_t \<Rightarrow> bool oi" where
  "is_directmap R addr =
     oi_try (vtop_pgt R addr) (\<lambda>r. oi_bind oi_clear_error (\<lambda>u. oi_ok (r = Inr 0)))"

text \<open>
  The loop of \<open>linux_search_directmap\<close>; a failed search leaves no mapping, whatever the reason.
\<close>

partial_function (option) search_directmap_loop ::
  "readers \<Rightarrow> addr_t \<Rightarrow> step \<Rightarrow> addr_t \<Rightarrow> os_init \<Rightarrow> ((status + addr_t \<times> addr_t) \<times> os_init) option" where
  "search_directmap_loop R limit st first c =
     (if \<not> first < limit then Some (Inl ADDRXLAT_ERR_NOTIMPL, c)
      else do {
        (r, c) \<leftarrow> oi_scan (lowest_mapped R st first limit) c;
        case r of
          Inl status \<Rightarrow> Some (Inl ADDRXLAT_ERR_NOTIMPL, c)
        | Inr (st, first) \<Rightarrow> do {
            (d, c) \<leftarrow> is_directmap R first c;
            if d = Inr True then
              oi_bind (oi_scan (highest_linear R st first limit (- first)))
                (\<lambda>(st, lastaddr). oi_ok (first, lastaddr)) c
            else do {
              (r, c) \<leftarrow> oi_scan (lowest_unmapped R st first limit) c;
              case r of
                Inl status \<Rightarrow> Some (Inl ADDRXLAT_ERR_NOTIMPL, c)
              | Inr (st, first) \<Rightarrow> search_directmap_loop R limit st first c
            }
          }
      })"

definition linux_search_directmap :: "readers \<Rightarrow> step \<Rightarrow> (addr_t \<times> addr_t) oi" where
  "linux_search_directmap R st =
     (if nfields (pgt_pf (step_meth st)) = 6
      then search_directmap_loop R (snd directmap_5l_4_2) st (fst directmap_5l)
      else search_directmap_loop R (snd directmap_4_2) st (fst directmap_2_6_31))"

definition linux_directmap_by_pgt :: "readers \<Rightarrow> (addr_t \<times> addr_t) oi" where
  "linux_directmap_by_pgt R =
     (let found = (\<lambda>(first, limit). oi_bind (oi_get (pgt_step 0)) (\<lambda>st.
            oi_bind (oi_scan (highest_linear R st first limit (- first)))
              (\<lambda>(st, lastaddr). oi_ok (first, lastaddr))))
      in oi_bind (is_directmap R (fst directmap_2_6_0)) (\<lambda>d.
           if d then found directmap_2_6_0
           else
             oi_bind (is_directmap R (fst directmap_2_6_11)) (\<lambda>d.
               if d then found directmap_2_6_11
               else oi_bind (oi_get (pgt_step 0)) (linux_search_directmap R))))"

definition linux_directmap :: "readers \<Rightarrow> unit oi" where
  "linux_directmap R c =
     (if kind (oi_meth c ADDRXLAT_SYS_METH_DIRECT) \<noteq> ADDRXLAT_NOMETH then oi_ok () c
      else
        oi_try (linux_directmap_by_pgt R) (\<lambda>r.
        oi_bind (oi_get (\<lambda>c. po_version_code (oi_popt c))) (\<lambda>ver.
        let r = (case (r, ver) of
                   (Inl status, Some v) \<Rightarrow> linux_directmap_by_ver v
                 | _ \<Rightarrow> r)
        in oi_bind (oi_upd remove_rdirect) (\<lambda>u.
           case r of
             Inl status \<Rightarrow> oi_fail status
           | Inr (first, lastaddr) \<Rightarrow>
               sys_set_layout ADDRXLAT_SYS_MAP_KV_PHYS
                 [\<lparr>reg_first = first, reg_last = lastaddr, reg_meth = ADDRXLAT_SYS_METH_DIRECT,
                    reg_act = SYS_ACT_DIRECT\<rparr>]))) c)"

subsection \<open>Kernel text\<close>

definition set_ktext_offset :: "addr_t \<Rightarrow> os_init \<Rightarrow> os_init" where
  "set_ktext_offset off = put_meth ADDRXLAT_SYS_METH_KTEXT (linear_meth ADDRXLAT_KPHYSADDR off)"

definition calc_ktext_offset :: "readers \<Rightarrow> addr_t \<Rightarrow> unit oi" where
  "calc_ktext_offset R vaddr =
     oi_bind (vtop_pgt R vaddr) (\<lambda>paddr. oi_upd (set_ktext_offset (paddr - vaddr)))"

definition set_pgt_fallback :: "sys_meth \<Rightarrow> os_init \<Rightarrow> os_init" where
  "set_pgt_fallback i c =
     (if kind (oi_meth c i) = ADDRXLAT_NOMETH
      then put_meth i (\<lambda>m. oi_meth c ADDRXLAT_SYS_METH_PGT) c else c)"

text \<open>
  \<open>linux_rdirect_map\<close>. At its end the function returns \<open>ADDRXLAT_NOMETH\<close>, a kind of method whose
  value is that of \<open>ADDRXLAT_OK\<close>.
\<close>

definition rdirect_layout :: "sys_region list" where
  "rdirect_layout =
     [\<lparr>reg_first = 0, reg_last = PHYSADDR_MASK_x86_64, reg_meth = ADDRXLAT_SYS_METH_RDIRECT,
        reg_act = SYS_ACT_RDIRECT\<rparr>]"

definition try_rdirect :: "readers \<Rightarrow> addr_t \<Rightarrow> unit oi \<Rightarrow> unit oi" where
  "try_rdirect R loc next =
     oi_steps
       [oi_upd (put_meth ADDRXLAT_SYS_METH_DIRECT (\<lambda>m. m\<lparr>lin_off := - loc\<rparr>)),
        oi_or_error (sys_set_layout ADDRXLAT_SYS_MAP_KPHYS_DIRECT rdirect_layout)
          ''Cannot set up %s'' [MStr ''Linux kernel direct mapping''],
        oi_bind (is_directmap R loc) (\<lambda>d. if d then oi_ok () else next)]"

definition fixed_loc :: "addr_t list" where
  "fixed_loc = [fst directmap_4_2, fst directmap_2_6_31, fst directmap_2_6_11, fst directmap_2_6_0]"

fun try_fixed_loc :: "readers \<Rightarrow> addr_t list \<Rightarrow> unit oi" where
  "try_fixed_loc R [] = oi_ok ()"
| "try_fixed_loc R (loc # locs) =
     try_rdirect R loc (oi_bind (oi_upd remove_rdirect) (\<lambda>u. try_fixed_loc R locs))"

definition oi_read_caps :: "u64 oi" where
  "oi_read_caps = oi_call (\<lambda>ctx. do {
     caps \<leftarrow> call_read_caps (ctx_cb ctx);
     Some (ADDRXLAT_OK, caps, ctx)
   })"

definition linux_rdirect_map :: "readers \<Rightarrow> unit oi" where
  "linux_rdirect_map R =
     oi_bind oi_read_caps (\<lambda>caps.
       if \<not> has_cap caps ADDRXLAT_KVADDR then oi_fail ADDRXLAT_ERR_NOMETH
       else
         oi_try (oi_call (get_symval ''page_offset_base'')) (\<lambda>r.
           case r of
             Inl status \<Rightarrow> try_fixed_loc R fixed_loc
           | Inr addr \<Rightarrow>
               oi_bind (oi_call (do_read64 \<lparr>fa_addr = addr, fa_as = ADDRXLAT_KVADDR\<rparr>)) (\<lambda>val.
                 try_rdirect R val (try_fixed_loc R fixed_loc))))"

definition linux_ktext_meth :: "readers \<Rightarrow> unit oi" where
  "linux_ktext_meth R =
     oi_bind (oi_get (\<lambda>c. po_phys_base (oi_popt c))) (\<lambda>opt_base.
       case opt_base of
         Some phys_base \<Rightarrow> oi_upd (set_ktext_offset (phys_base - LINUX_KTEXT_START))
       | None \<Rightarrow>
           oi_try
             (oi_try (oi_call (get_symval ''_stext'')) (\<lambda>r.
                if r = Inl ADDRXLAT_ERR_NODATA
                then oi_bind oi_clear_error (\<lambda>u. oi_call (get_symval ''_text''))
                else (\<lambda>c. Some (r, c))))
             (\<lambda>r.
                case r of
                  Inl status \<Rightarrow>
                    if status = ADDRXLAT_ERR_NODATA then
                      oi_bind oi_clear_error (\<lambda>u.
                      oi_bind (oi_get (pgt_step 0)) (\<lambda>st.
                      oi_bind (oi_scan (lowest_mapped R st LINUX_KTEXT_START LINUX_KTEXT_END)) (\<lambda>(st, stext).
                      oi_bind (oi_get oi_sys) (\<lambda>sys.
                      oi_bind (oi_call (fulladdr_conv R (base st) ADDRXLAT_KPHYSADDR (Some sys))) (\<lambda>faddr.
                      oi_upd (set_ktext_offset (fa_addr faddr - stext)))))))
                    else oi_error status ''Cannot translate ktext'' []
                | Inr stext \<Rightarrow> oi_or_error (calc_ktext_offset R stext) ''Cannot translate ktext'' []))"

text \<open>
  \<open>linux_ktext_extents\<close>. The second search starts behind the end of the first; when it finds
  nothing the end stays where it was.
\<close>

definition linux_ktext_extents :: "readers \<Rightarrow> (addr_t \<times> addr_t) oi" where
  "linux_ktext_extents R =
     oi_bind (oi_get (pgt_step 0)) (\<lambda>st.
     oi_bind (oi_scan (lowest_mapped R st LINUX_KTEXT_START LINUX_KTEXT_END)) (\<lambda>(st, low).
     oi_bind (oi_get (\<lambda>c. lin_off (oi_meth c ADDRXLAT_SYS_METH_KTEXT))) (\<lambda>linearoff.
     oi_bind
       (if low \<le> LINUX_KTEXT_END_NOKASLR
        then oi_scan (highest_linear R st low LINUX_KTEXT_END_NOKASLR linearoff)
        else oi_ok (st, low))
       (\<lambda>(st, high).
          if LINUX_KTEXT_END_NOKASLR \<le> high then
            oi_try (oi_scan (highest_linear R st (high + 1) LINUX_KTEXT_END linearoff)) (\<lambda>r.
              case r of
                Inl status \<Rightarrow>
                  if status = ADDRXLAT_ERR_NOTPRESENT
                  then oi_bind oi_clear_error (\<lambda>u. oi_ok (low, high)) else oi_fail status
              | Inr (st, high) \<Rightarrow> oi_ok (low, high))
          else oi_ok (low, high)))))"

definition nonfatal :: "status \<Rightarrow> bool" where
  "nonfatal status \<longleftrightarrow> status = ADDRXLAT_ERR_NOMETH \<or> status = ADDRXLAT_ERR_NODATA
     \<or> status = ADDRXLAT_ERR_NOTPRESENT"

definition ktext_root_map :: "unit oi" where
  "ktext_root_map =
     oi_bind (oi_get (\<lambda>c. oi_meth c ADDRXLAT_SYS_METH_PGT)) (\<lambda>m.
       if kind m = ADDRXLAT_PGT \<and> fa_as (pgt_root m) = ADDRXLAT_KVADDR then
         oi_or_error
           (oi_map_set ADDRXLAT_SYS_MAP_KV_PHYS (fa_addr (pgt_root m))
              \<lparr>endoff = ADDR_MASK 12, meth = ADDRXLAT_SYS_METH_KTEXT\<rparr>)
           ''Cannot set up %s'' [MStr ''minimal Linux kernel text mapping'']
       else oi_ok ())"

definition linux_ktext_map :: "readers \<Rightarrow> unit oi" where
  "linux_ktext_map R =
     oi_try (linux_ktext_meth R) (\<lambda>r.
       case r of
         Inl status \<Rightarrow>
           if nonfatal status then oi_clear_error
           else oi_error status ''Cannot set up %s'' [MStr ''Linux kernel text mapping'']
       | Inr u \<Rightarrow>
           oi_bind ktext_root_map (\<lambda>u.
           oi_try (linux_ktext_extents R) (\<lambda>r.
             case r of
               Inl status \<Rightarrow>
                 if nonfatal status then oi_clear_error
                 else oi_error status ''Linux kernel text search failed'' []
             | Inr (low, high) \<Rightarrow>
                 oi_or_error
                   (oi_map_set ADDRXLAT_SYS_MAP_KV_PHYS low
                      \<lparr>endoff = high - low, meth = ADDRXLAT_SYS_METH_KTEXT\<rparr>)
                   ''Cannot set up %s'' [MStr ''Linux kernel text mapping''])))"

subsection \<open>Linux\<close>

definition set_xen_mach2phys :: "addr_t \<Rightarrow> os_init \<Rightarrow> os_init" where
  "set_xen_mach2phys m2p =
     put_meth ADDRXLAT_SYS_METH_MACHPHYS_KPHYS (\<lambda>m. m\<lparr>kind := ADDRXLAT_MEMARR,
       target_as := ADDRXLAT_KPHYSADDR, ma_base := \<lparr>fa_addr = m2p, fa_as = ADDRXLAT_KVADDR\<rparr>,
       ma_shift := 12, ma_elemsz := 8, ma_valsz := 8\<rparr>)"

definition xen_p2m_pf :: paging_form where
  "xen_p2m_pf = \<lparr>pf_format = ADDRXLAT_PTE_PFN64, nfields = 4, fieldsz = [12, 9, 9, 9, 0, 0, 0, 0]\<rparr>"

definition set_xen_p2m :: "unit oi" where
  "set_xen_p2m =
     oi_bind (oi_map_clear ADDRXLAT_SYS_MAP_KPHYS_MACHPHYS) (\<lambda>u.
     oi_bind (oi_get (\<lambda>c. po_xen_p2m_mfn (oi_popt c))) (\<lambda>mfn.
       case mfn of
         None \<Rightarrow> oi_ok ()
       | Some mfn \<Rightarrow> oi_steps
           [oi_upd (put_meth ADDRXLAT_SYS_METH_KPHYS_MACHPHYS (\<lambda>m. m\<lparr>kind := ADDRXLAT_PGT,
              target_as := ADDRXLAT_MACHPHYSADDR,
              pgt_root := \<lparr>fa_addr = push_bit 12 mfn, fa_as = ADDRXLAT_MACHPHYSADDR\<rparr>,
              pte_mask := 0, pgt_pf := xen_p2m_pf\<rparr>)),
            oi_or_error
              (oi_map_set ADDRXLAT_SYS_MAP_KPHYS_MACHPHYS 0
                 \<lparr>endoff = paging_max_index xen_p2m_pf, meth = ADDRXLAT_SYS_METH_KPHYS_MACHPHYS\<rparr>)
              ''Cannot allocate Xen p2m map'' []]))"

text \<open>
  \<open>get_linux_pgt_root\<close>. With page table isolation, CR3 may hold the user half of the page tables:
  if its bit is set and no direct mapping is found, the kernel half is tried.
\<close>

definition pgt_root_symbols :: "unit oi" where
  "pgt_root_symbols =
     try_root (get_symval ''swapper_pg_dir'') ''swapper_pg_dir'' ADDRXLAT_KVADDR
       (try_root (get_symval ''init_top_pgt'') ''init_top_pgt'' ADDRXLAT_KVADDR
          (try_root (get_symval ''init_level4_pgt'') ''init_level4_pgt'' ADDRXLAT_KVADDR (oi_ok ())))"

definition machphys :: "addr_t \<Rightarrow> fulladdr" where
  "machphys a = \<lparr>fa_addr = a, fa_as = ADDRXLAT_MACHPHYSADDR\<rparr>"

definition pti_root :: "readers \<Rightarrow> addr_t \<Rightarrow> unit oi" where
  "pti_root R root =
     oi_try (linux_directmap R) (\<lambda>r.
       if r = Inl ADDRXLAT_ERR_NOTIMPL then
         oi_bind (oi_upd (put_root (machphys (root AND NOT LINUX_PTI_USER_PGTABLE_MASK)))) (\<lambda>u.
         oi_try (linux_directmap R) (\<lambda>r.
           case r of
             Inr u \<Rightarrow> oi_ok ()
           | Inl status \<Rightarrow>
               oi_bind (oi_upd (put_root (machphys
                 ((root AND NOT LINUX_PTI_USER_PGTABLE_MASK) OR LINUX_PTI_USER_PGTABLE_MASK)))) (\<lambda>u.
               oi_bind oi_clear_error (\<lambda>u. pgt_root_symbols))))
       else oi_bind oi_clear_error (\<lambda>u. pgt_root_symbols))"

definition get_linux_pgt_root_x86_64 :: "readers \<Rightarrow> unit oi" where
  "get_linux_pgt_root_x86_64 R c =
     (if fa_as (pgt_root (oi_meth c ADDRXLAT_SYS_METH_PGT)) \<noteq> ADDRXLAT_NOADDR then oi_ok () c
      else
        oi_try (oi_call (get_reg ''cr3'')) (\<lambda>r.
          case r of
            Inr cr3 \<Rightarrow>
              let root = cr3 AND NOT (ADDR_MASK 12)
              in oi_bind (oi_upd (put_root (machphys root))) (\<lambda>u.
                   if root AND LINUX_PTI_USER_PGTABLE_MASK = 0 then oi_ok () else pti_root R root)
          | Inl status \<Rightarrow>
              if status \<noteq> ADDRXLAT_ERR_NODATA
              then oi_error status ''Cannot resolve \"%s\"'' [MStr ''cr3'']
              else oi_bind oi_clear_error (\<lambda>u. pgt_root_symbols)) c)"

definition map_linux_x86_64 :: "readers \<Rightarrow> unit oi" where
  "map_linux_x86_64 R =
     oi_steps
       [oi_or_error (get_linux_pgt_root_x86_64 R) ''Cannot determine root page table'' [],
        oi_try (oi_call (get_number ''sme_mask'')) (\<lambda>r.
          case r of
            Inr sme_mask \<Rightarrow> oi_upd (put_meth ADDRXLAT_SYS_METH_PGT (\<lambda>m. m\<lparr>pte_mask := sme_mask\<rparr>))
          | Inl status \<Rightarrow> if status = ADDRXLAT_ERR_NODATA then oi_clear_error else oi_fail status),
        oi_bind (oi_get (\<lambda>c. po_xen_xlat (oi_popt c))) (\<lambda>xen_xlat.
          if xen_xlat = Some True
          then oi_steps [set_xen_p2m, oi_upd (set_xen_mach2phys XEN_MACH2PHYS_ADDR)] else oi_ok ()),
        oi_bind oi_read_caps (\<lambda>caps.
          if \<not> has_cap caps ADDRXLAT_MACHPHYSADDR \<and> \<not> has_cap caps ADDRXLAT_KPHYSADDR then
            oi_try (linux_rdirect_map R) (\<lambda>r.
              case r of
                Inl status \<Rightarrow> if nonfatal status then oi_clear_error else oi_fail status
              | Inr u \<Rightarrow> oi_clear_error)
          else oi_ok ()),
        linux_ktext_map R,
        oi_upd (set_pgt_fallback ADDRXLAT_SYS_METH_KTEXT),
        oi_try (linux_directmap R) (\<lambda>r.
          case r of
            Inl status \<Rightarrow> if status = ADDRXLAT_ERR_NOTIMPL then oi_ok () else oi_fail status
          | Inr u \<Rightarrow> oi_ok ())]"

subsection \<open>Xen\<close>

definition XEN_DIRECTMAP :: addr_t where "XEN_DIRECTMAP = 0xffff830000000000"

definition XEN_DIRECTMAP_BIGMEM :: addr_t where "XEN_DIRECTMAP_BIGMEM = 0xffff848000000000"

definition XEN_DIRECTMAP_SIZE_1T :: addr_t where "XEN_DIRECTMAP_SIZE_1T = push_bit 40 1"

definition XEN_DIRECTMAP_SIZE_3_5T :: addr_t where "XEN_DIRECTMAP_SIZE_3_5T = push_bit 30 3584"

definition XEN_DIRECTMAP_SIZE_5T :: addr_t where "XEN_DIRECTMAP_SIZE_5T = push_bit 40 5"

definition XEN_TEXT_3_2 :: addr_t where "XEN_TEXT_3_2 = 0xffff828c80000000"

definition XEN_TEXT_4_0dev :: addr_t where "XEN_TEXT_4_0dev = 0xffff828880000000"

definition XEN_TEXT_4_0 :: addr_t where "XEN_TEXT_4_0 = 0xffff82c480000000"

definition XEN_TEXT_4_3 :: addr_t where "XEN_TEXT_4_3 = 0xffff82c4c0000000"

definition XEN_TEXT_4_4 :: addr_t where "XEN_TEXT_4_4 = 0xffff82d080000000"

definition XEN_TEXT_SIZE :: addr_t where "XEN_TEXT_SIZE = push_bit 30 1"

text \<open>Does an address map to a 2M page, that is, in four steps?\<close>

partial_function (option) xen_ktext_loop ::
  "readers \<Rightarrow> nat \<Rightarrow> status \<Rightarrow> step \<Rightarrow> xctx \<Rightarrow> (status \<times> nat \<times> xctx) option" where
  "xen_ktext_loop R steps status st ctx =
     (if status = ADDRXLAT_OK \<and> remain st \<noteq> 0 then do {
        (status, st, ctx) \<leftarrow> xlat_step R st ctx;
        xen_ktext_loop R (steps + 1) status st ctx
      }
      else Some (status, steps, ctx))"

definition is_xen_ktext :: "readers \<Rightarrow> addr_t \<Rightarrow> bool oi" where
  "is_xen_ktext R addr =
     oi_bind (oi_get (pgt_step 0)) (\<lambda>st.
     oi_try
       (oi_call (\<lambda>ctx. do {
          (status, st, ctx) \<leftarrow> launch R addr st ctx;
          xen_ktext_loop R 0 status st ctx
        }))
       (\<lambda>r. oi_bind oi_clear_error (\<lambda>u. oi_ok (r = Inr 4))))"

definition get_xen_pgt_root :: "unit oi" where
  "get_xen_pgt_root c =
     (if fa_as (pgt_root (oi_meth c ADDRXLAT_SYS_METH_PGT)) \<noteq> ADDRXLAT_NOADDR then oi_ok () c
      else
        try_root (get_reg ''cr3'') ''cr3'' ADDRXLAT_MACHPHYSADDR
          (try_root (get_symval ''pgd_l4'') ''pgd_l4'' ADDRXLAT_KVADDR (oi_ok ())) c)"

definition setup_xen_pgt :: "unit oi" where
  "setup_xen_pgt =
     oi_try get_xen_pgt_root (\<lambda>r.
     oi_bind (oi_upd (put_meth ADDRXLAT_SYS_METH_PGT (\<lambda>m.
       m\<lparr>pgt_root := (pgt_root m)\<lparr>fa_addr := fa_addr (pgt_root m) AND NOT (ADDR_MASK 12)\<rparr>\<rparr>))) (\<lambda>u.
     oi_bind (oi_get (\<lambda>c. pgt_root (oi_meth c ADDRXLAT_SYS_METH_PGT))) (\<lambda>root.
       if fa_as root \<noteq> ADDRXLAT_KVADDR then (\<lambda>c. Some (r, c))
       else
         oi_bind (oi_get (\<lambda>c. po_phys_base (oi_popt c))) (\<lambda>opt_base.
         let pgt = fa_addr root;
             off = (if XEN_DIRECTMAP \<le> pgt then Some (- XEN_DIRECTMAP)
                    else map_option (\<lambda>b. b - (pgt AND NOT (XEN_TEXT_SIZE - 1))) opt_base)
         in case off of
              None \<Rightarrow> oi_fail ADDRXLAT_ERR_NODATA
            | Some off \<Rightarrow> oi_steps
                [sys_set_layout ADDRXLAT_SYS_MAP_KV_PHYS
                   [\<lparr>reg_first = pgt, reg_last = pgt + push_bit 12 1 - 1,
                      reg_meth = ADDRXLAT_SYS_METH_KTEXT, reg_act = SYS_ACT_NONE\<rparr>],
                 oi_upd (set_ktext_offset off)]))))"

text \<open>
  The choice of the layout: the direct mapping and, where the text is not part of it, the start
  of the text mapping; \<open>None\<close> if nothing is known about the hypervisor.
\<close>

type_synonym xen_layout = "((addr_t \<times> addr_t) \<times> addr_t option) option"

definition directmap_of :: "addr_t \<Rightarrow> addr_t \<Rightarrow> addr_t \<times> addr_t" where
  "directmap_of first len = (first, first + len - 1)"

fun first_ktext :: "readers \<Rightarrow> (addr_t \<times> 'a) list \<Rightarrow> (addr_t \<times> 'a) option oi" where
  "first_ktext R [] = oi_ok None"
| "first_ktext R ((addr, x) # addrs) =
     oi_bind (is_xen_ktext R addr) (\<lambda>b. if b then oi_ok (Some (addr, x)) else first_ktext R addrs)"

definition xen_layout_by_version :: "u64 \<Rightarrow> xen_layout" where
  "xen_layout_by_version ver =
     (let dm5 = directmap_of XEN_DIRECTMAP XEN_DIRECTMAP_SIZE_5T;
          dm1 = directmap_of XEN_DIRECTMAP XEN_DIRECTMAP_SIZE_1T
      in if ADDRXLAT_VER_XEN 4 0 \<le> ver then
           Some (dm5, Some (if ADDRXLAT_VER_XEN 4 4 \<le> ver then XEN_TEXT_4_4
                            else if ADDRXLAT_VER_XEN 4 3 \<le> ver then XEN_TEXT_4_3 else XEN_TEXT_4_0))
         else Some (dm1, if ADDRXLAT_VER_XEN 3 2 \<le> ver then Some XEN_TEXT_3_2 else None))"

definition find_xen_layout :: "readers \<Rightarrow> xen_layout oi" where
  "find_xen_layout R =
     (let dm5 = directmap_of XEN_DIRECTMAP XEN_DIRECTMAP_SIZE_5T;
          dm1 = directmap_of XEN_DIRECTMAP XEN_DIRECTMAP_SIZE_1T
      in oi_bind (is_directmap R XEN_DIRECTMAP) (\<lambda>d.
           if d then
             oi_bind (first_ktext R [(XEN_TEXT_4_4, dm5), (XEN_TEXT_4_3, dm5), (XEN_TEXT_4_0, dm5),
                        (XEN_TEXT_3_2, dm1), (XEN_TEXT_4_0dev, dm5)]) (\<lambda>r.
               case r of
                 Some (text, dm) \<Rightarrow> oi_ok (Some (dm, Some text))
               | None \<Rightarrow> oi_ok (Some (dm1, None)))
           else
             oi_bind (is_directmap R XEN_DIRECTMAP_BIGMEM) (\<lambda>d.
               if d
               then oi_ok (Some (directmap_of XEN_DIRECTMAP_BIGMEM XEN_DIRECTMAP_SIZE_3_5T,
                      Some XEN_TEXT_4_4))
               else oi_get (\<lambda>c. Option.bind (po_version_code (oi_popt c)) xen_layout_by_version))))"

definition map_xen_x86_64 :: "readers \<Rightarrow> unit oi" where
  "map_xen_x86_64 R =
     oi_try setup_xen_pgt (\<lambda>r.
     oi_bind (find_xen_layout R) (\<lambda>found.
       case found of
         None \<Rightarrow> oi_ok ()
       | Some ((first, lastaddr), text) \<Rightarrow> oi_steps
           [sys_set_layout ADDRXLAT_SYS_MAP_KV_PHYS
              (\<lparr>reg_first = first, reg_last = lastaddr, reg_meth = ADDRXLAT_SYS_METH_DIRECT,
                 reg_act = SYS_ACT_DIRECT\<rparr>
               # (case text of None \<Rightarrow> [] | Some t \<Rightarrow>
                    [\<lparr>reg_first = t, reg_last = t + XEN_TEXT_SIZE - 1,
                       reg_meth = ADDRXLAT_SYS_METH_KTEXT, reg_act = SYS_ACT_NONE\<rparr>])),
            (case text of None \<Rightarrow> oi_ok () | Some t \<Rightarrow>
               oi_try (calc_ktext_offset R t) (\<lambda>r. oi_steps
                 [oi_clear_error, oi_upd (set_pgt_fallback ADDRXLAT_SYS_METH_KTEXT)]))]))"

subsection \<open>The architecture\<close>

definition layout_canonical :: "nat \<Rightarrow> sys_region list" where
  "layout_canonical bits =
     [\<lparr>reg_first = 0, reg_last = NONCANONICAL_START bits - 1,
        reg_meth = ADDRXLAT_SYS_METH_PGT, reg_act = SYS_ACT_NONE\<rparr>,
      \<lparr>reg_first = NONCANONICAL_END bits + 1, reg_last = NOT 0,
        reg_meth = ADDRXLAT_SYS_METH_PGT, reg_act = SYS_ACT_NONE\<rparr>]"

definition layout_generic :: "sys_region list" where
  "layout_generic = layout_canonical VIRTADDR_BITS_MAX"

definition layout_5level :: "sys_region list" where
  "layout_5level = layout_canonical VIRTADDR_5L_BITS_MAX"

definition set_virt_bits :: "nat \<Rightarrow> unit oi" where
  "set_virt_bits bits =
     oi_upd (\<lambda>c. c\<lparr>oi_popt := (oi_popt c)\<lparr>po_virt_bits := Some (of_nat bits)\<rparr>\<rparr>)"

text \<open>
  One source of the number of address bits after the other; a source without data is skipped,
  and its message is cleared.
\<close>

definition try_virt_bits ::
  "(xctx \<Rightarrow> (status \<times> addr_t \<times> xctx) option) \<Rightarrow> (addr_t \<Rightarrow> nat) \<Rightarrow> unit oi \<Rightarrow> unit oi" where
  "try_virt_bits get bits next =
     oi_try (oi_call get) (\<lambda>r.
       case r of
         Inr v \<Rightarrow> set_virt_bits (bits v)
       | Inl status \<Rightarrow>
           if status \<noteq> ADDRXLAT_ERR_NODATA then oi_fail status else oi_bind oi_clear_error (\<lambda>u. next))"

definition get_virt_bits_x86_64 :: "unit oi" where
  "get_virt_bits_x86_64 c =
     (let bits = (\<lambda>la57. if la57 then VIRTADDR_5L_BITS_MAX else VIRTADDR_BITS_MAX);
          unknown = (\<lambda>status. oi_error status ''Cannot determine 5-level paging'' [])
      in if po_virt_bits (oi_popt c) \<noteq> None then oi_ok () c
      else
        try_virt_bits (get_reg ''cr4'') (\<lambda>cr4. bits (CR4_LA57_ISSET cr4))
          (if oi_os c = OS_LINUX then
             try_virt_bits (get_number ''pgtable_l5_enabled'') (\<lambda>v. bits (v \<noteq> 0))
               (try_virt_bits (get_symval ''_stext'') (\<lambda>v. VIRTADDR_BITS_MAX)
                  (case po_version_code (oi_popt c) of
                     Some v \<Rightarrow>
                       if v < ADDRXLAT_VER_LINUX 4 13 0 then set_virt_bits VIRTADDR_BITS_MAX
                       else unknown ADDRXLAT_ERR_NODATA
                   | None \<Rightarrow> unknown ADDRXLAT_ERR_NODATA))
           else if oi_os c = OS_XEN then set_virt_bits VIRTADDR_BITS_MAX
           else unknown ADDRXLAT_ERR_NOTIMPL) c)"

definition x86_64_pf :: paging_form where
  "x86_64_pf = \<lparr>pf_format = ADDRXLAT_PTE_X86_64, nfields = 5, fieldsz = [12, 9, 9, 9, 9, 9, 0, 0]\<rparr>"

definition init_pgt_meth_x86_64 :: "unit oi" where
  "init_pgt_meth_x86_64 =
     oi_steps
       [oi_upd (\<lambda>c. put_meth ADDRXLAT_SYS_METH_PGT (\<lambda>m. m\<lparr>kind := ADDRXLAT_PGT,
          target_as := ADDRXLAT_MACHPHYSADDR, pgt_root := root_or_none (oi_popt c) (pgt_root m),
          pte_mask := 0, pgt_pf := x86_64_pf\<rparr>) c),
        get_virt_bits_x86_64,
        oi_bind (oi_opt po_virt_bits) (\<lambda>virt_bits.
          if virt_bits = of_nat VIRTADDR_BITS_MAX then oi_upd (set_nfields 5)
          else if virt_bits = of_nat VIRTADDR_5L_BITS_MAX then oi_upd (set_nfields 6)
          else oi_bad_virt_bits virt_bits)]"

definition sys_x86_64 :: "readers \<Rightarrow> unit oi" where
  "sys_x86_64 R c =
     oi_steps
       [init_pgt_meth_x86_64,
        oi_bind (oi_get (\<lambda>c. nfields (pgt_pf (oi_meth c ADDRXLAT_SYS_METH_PGT)))) (\<lambda>n.
          sys_set_layout ADDRXLAT_SYS_MAP_HW (if n = 6 then layout_5level else layout_generic)),
        oi_copy_map ADDRXLAT_SYS_MAP_HW ADDRXLAT_SYS_MAP_KV_PHYS ''Cannot duplicate hardware mapping'',
        sys_set_physmaps PHYSADDR_MASK_x86_64,
        (if oi_os c = OS_LINUX then map_linux_x86_64 R
         else if oi_os c = OS_XEN then map_xen_x86_64 R else oi_ok ())] c"

end
