(* ===== verification/Sys_Os_Init.thy ===== *)
theory Sys_Os_Init
  imports Sys_Aarch64 Sys_Arm Sys_Riscv64 Sys_S390x Sys_Ppc64 Sys_Ia32 Sys_X86_64
begin

section \<open>\<open>addrxlat_sys_os_init\<close> (src/addrxlat/sys.c)\<close>

text \<open>
  The entry point \<open>addrxlat_sys_os_init\<close>: it parses the options, finds the architecture
  by its name and runs the set-up of the architecture.
\<close>

definition is_ia32_name :: "string \<Rightarrow> bool" where
  "is_ia32_name arch \<longleftrightarrow>
     (case arch of
        a # b # rest \<Rightarrow> a = CHR ''i'' \<and> b \<in> {CHR ''3'', CHR ''4'', CHR ''5'', CHR ''6''} \<and> rest = ''86''
      | _ \<Rightarrow> False)
     \<or> arch = ''ia32''"

definition arch_fn :: "readers \<Rightarrow> string \<Rightarrow> unit oi option" where
  "arch_fn R arch =
     (if arch = ''x86_64'' then Some (sys_x86_64 R)
      else if is_ia32_name arch then Some (sys_ia32 R)
      else if arch = ''s390x'' then Some (sys_s390x R)
      else if arch = ''ppc64'' then Some (sys_ppc64 R)
      else if arch = ''aarch64'' then Some (sys_aarch64 R)
      else if arch = ''arm'' then Some (sys_arm R)
      else if arch = ''riscv64'' then Some (sys_riscv64 R)
      else None)"

definition os_type_of :: "string option \<Rightarrow> os_type" where
  "os_type_of name =
     (if name = Some ''linux'' then OS_LINUX else if name = Some ''xen'' then OS_XEN else OS_UNKNOWN)"

text \<open>
  The results are the status, the translation system and the context; \<open>allocs\<close> are the outcomes
  of the allocations. The maps of the system are dropped once the architecture is known; its
  methods stay as they are.
\<close>

definition addrxlat_sys_os_init :: "readers \<Rightarrow> bool list \<Rightarrow> opt list \<Rightarrow> xsys \<Rightarrow> xctx \<Rightarrow> (status \<times> xsys \<times> xctx) option"
where
  "addrxlat_sys_os_init R allocs opts sys ctx =
     (case parse_opts (clear_error ctx) opts of
        (Inl status, ctx) \<Rightarrow> Some (status, sys, ctx)
      | (Inr popt, ctx) \<Rightarrow>
          (case po_arch popt of
             None \<Rightarrow>
               let (status, ctx) = set_error ctx ADDRXLAT_ERR_NODATA ''Cannot determine architecture'' []
               in Some (status, sys, ctx)
           | Some arch \<Rightarrow>
               (case arch_fn R arch of
                  None \<Rightarrow>
                    let (status, ctx) = set_error ctx ADDRXLAT_ERR_NOTIMPL ''Unsupported architecture'' []
                    in Some (status, sys, ctx)
                | Some init \<Rightarrow> do {
                    (r, c) \<leftarrow> init \<lparr>oi_sys = fst (sys_cleanup sys), oi_ctx = ctx, oi_popt = popt,
                       oi_os = os_type_of (po_os_type popt), oi_alloc = allocs\<rparr>;
                    Some (case r of Inl status \<Rightarrow> status | Inr u \<Rightarrow> ADDRXLAT_OK, oi_sys c, oi_ctx c)
                  })))"

end
