(* ===== verification/Xlat_Paging.thy ===== *)
theory Xlat_Paging
  imports Xlat_Walk
begin

section \<open>Splitting addresses and walking page tables\<close>

text \<open>
  What the translation steps mean in terms of the bits of an address: the fields of a paging form,
  the check for canonical addresses and the offset into a huge page. Then: walks end, and walking
  is launching and stepping.
\<close>

subsection \<open>Address fields\<close>

text \<open>The position of a field, and the address that a list of indices stands for.\<close>

definition field_shift :: "nat list \<Rightarrow> nat \<Rightarrow> nat" where
  "field_shift fs n = sum_list (take n fs)"

fun join_fields :: "nat list \<Rightarrow> nat \<Rightarrow> u64 list \<Rightarrow> addr_t" where
  "join_fields fs 0 ix = ix ! 0"
| "join_fields fs (Suc n) ix = push_bit (field_shift fs (Suc n)) (ix ! Suc n) OR join_fields fs n ix"

lemma field_shift_0 [simp]: "field_shift fs 0 = 0"
  by (simp add: field_shift_def)

lemma field_shift_Suc: "n < length fs \<Longrightarrow> field_shift fs (Suc n) = field_shift fs n + fs ! n"
  by (simp add: field_shift_def take_Suc_conv_app_nth)

lemma field_shift_Cons: "field_shift (b # fs) (Suc n) = b + field_shift fs n"
  by (simp add: field_shift_def)

lemma field_mask: "(a :: u64) AND (if b < 64 then push_bit b 1 - 1 else NOT 0) = take_bit b a"
proof (cases "b < 64")
  case True
  then show ?thesis
    by (simp add: take_bit_eq_mask mask_eq_exp_minus_1 push_bit_of_1)
next
  case False
  then show ?thesis
    by (simp add: take_bit_word_beyond_length_eq)
qed

lemma join_bits: "push_bit s (take_bit n (drop_bit s a)) OR take_bit s a = take_bit (s + n) (a :: u64)"
  by (rule bit_eqI) (auto simp: bit_simps)

lemma length_split_loop [simp]: "length (split_loop fs i n a ix) = length ix"
  by (induction fs i n a ix rule: split_loop.induct) (simp_all add: Let_def)

lemma split_loop_before: "j < i \<Longrightarrow> split_loop fs i n a ix ! j = ix ! j"
  by (induction fs i n a ix rule: split_loop.induct) (simp_all add: Let_def)

lemma split_loop_field:
  assumes "i + n \<le> length fs" and "i + n < length ix" and "k < n"
  shows "split_loop fs i n a ix ! (i + k) = take_bit (fs ! (i + k)) (drop_bit (field_shift (drop i fs) k) a)"
  using assms
proof (induction fs i n a ix arbitrary: k rule: split_loop.induct)
  case (1 fs i a ix)
  then show ?case by simp
next
  case (2 fs i n a ix)
  define ix' where "ix' = ix[i := a AND (if fs ! i < 64 then push_bit (fs ! i) 1 - 1 else NOT 0)]"
  have dr: "drop i fs = fs ! i # drop (Suc i) fs"
    using 2(2) by (simp add: Cons_nth_drop_Suc)
  show ?case
  proof (cases k)
    case 0
    then show ?thesis
      using 2(3) by (simp add: split_loop_before field_mask Let_def)
  next
    case (Suc k')
    have "split_loop fs (Suc i) n (drop_bit (fs ! i) a) ix' ! (Suc i + k')
        = take_bit (fs ! (Suc i + k')) (drop_bit (field_shift (drop (Suc i) fs) k') (drop_bit (fs ! i) a))"
      using 2(2-4) Suc unfolding ix'_def by (intro 2(1) [OF refl refl]) simp_all
    then show ?thesis
      using Suc by (simp add: dr field_shift_Cons ix'_def add.commute Let_def)
  qed
qed

lemma split_loop_rest:
  assumes "i + n \<le> length fs" and "i + n < length ix"
  shows "split_loop fs i n a ix ! (i + n) = drop_bit (field_shift (drop i fs) n) a"
  using assms
proof (induction fs i n a ix rule: split_loop.induct)
  case (2 fs i n a ix)
  have "drop i fs = fs ! i # drop (Suc i) fs"
    using 2(2) by (simp add: Cons_nth_drop_Suc)
  then show ?case
    using 2(1) [OF refl refl] 2(2,3) by (simp add: Let_def field_shift_Cons add.commute)
qed simp

lemmas split_fields = split_loop_field [of 0, simplified] split_loop_rest [of 0, simplified]

lemma join_take:
  assumes "m \<le> n" and "n \<le> length fs" and "\<And>k. k < n \<Longrightarrow> ix ! k = take_bit (fs ! k) (drop_bit (field_shift fs k) a)"
    and "m < n"
  shows "join_fields fs m ix = take_bit (field_shift fs (Suc m)) a"
  using assms(1,4)
proof (induction m)
  case 0
  then show ?case
    using assms(2) assms(3) [of 0] by (cases fs) (simp_all add: field_shift_def)
next
  case (Suc m)
  then show ?case
    using assms(2,3) by (simp add: field_shift_Suc [of "Suc m"] join_bits)
qed

text \<open>
  C28. Splitting an address loses nothing: whatever the paging form, the indices that
  \<open>first_step_pgt_generic\<close> computes put together again are the address, and every index but the
  last stays below the number of elements of its table.
\<close>

theorem address_split_roundtrip:
  assumes "nfields (pgt_pf (step_meth st)) \<le> length (fieldsz (pgt_pf (step_meth st)))"
    and "nfields (pgt_pf (step_meth st)) < length (idx st)"
    and "first_step_pgt_generic st addr ctx = (ADDRXLAT_OK, st', ctx')"
  shows "join_fields (fieldsz (pgt_pf (step_meth st))) (nfields (pgt_pf (step_meth st))) (idx st') = addr
    \<and> (\<forall>k < nfields (pgt_pf (step_meth st)).
         unat (idx st' ! k) < 2 ^ (fieldsz (pgt_pf (step_meth st)) ! k))"
proof -
  define fs n where "fs = fieldsz (pgt_pf (step_meth st))" and "n = nfields (pgt_pf (step_meth st))"
  have ix: "idx st' = split_loop fs 0 n addr (idx st)"
    using assms(3) by (auto simp: first_step_pgt_generic_def step_error_def set_error_def fs_def n_def Let_def
        split: if_splits)
  have nl: "n \<le> length fs" "n < length (idx st)"
    using assms(1,2) by (simp_all add: fs_def n_def)
  have field: "\<And>k. k < n \<Longrightarrow> idx st' ! k = take_bit (fs ! k) (drop_bit (field_shift fs k) addr)"
    and rest: "idx st' ! n = drop_bit (field_shift fs n) addr"
    using split_fields nl by (simp_all add: ix)
  have "join_fields fs n (idx st') = addr"
  proof (cases n)
    case 0
    then show ?thesis using rest by simp
  next
    case (Suc m)
    have "join_fields fs m (idx st') = take_bit (field_shift fs n) addr"
      using join_take [of m n fs "idx st'" addr] nl field Suc by simp
    moreover have "push_bit s (drop_bit s addr) OR take_bit s addr = addr" for s
      by (rule bit_eqI) (auto simp: bit_simps)
    ultimately show ?thesis
      using rest Suc by simp
  qed
  moreover have "unat (idx st' ! k) < 2 ^ (fs ! k)" if "k < n" for k
    by (simp add: field [OF that] unsigned_take_bit_eq)
  ultimately show ?thesis
    by (simp add: fs_def n_def)
qed

text \<open>An x86-64 paging form with four levels.\<close>

definition x86_64_pf4 :: paging_form where
  "x86_64_pf4 = \<lparr>pf_format = ADDRXLAT_PTE_X86_64, nfields = 5, fieldsz = [12, 9, 9, 9, 9, 0, 0, 0]\<rparr>"

definition pgt_example :: step where
  "pgt_example = \<lparr>step_sys = None,
     step_meth = \<lparr>kind = ADDRXLAT_PGT, target_as = ADDRXLAT_KPHYSADDR, custom = 0, lin_off = 0,
       pgt_root = \<lparr>fa_addr = 0x1000, fa_as = ADDRXLAT_KPHYSADDR\<rparr>, pte_mask = 0, pgt_pf = x86_64_pf4,
       lk_endoff = 0, lk_tbl = [], ma_base = \<lparr>fa_addr = 0, fa_as = ADDRXLAT_KPHYSADDR\<rparr>,
       ma_shift = 0, ma_elemsz = 0, ma_valsz = 0\<rparr>,
     remain = 0, elemsz = 0, base = \<lparr>fa_addr = 0, fa_as = ADDRXLAT_NOADDR\<rparr>, raw = 0,
     idx = replicate 9 0\<rparr>"

lemma address_split_roundtrip_witness:
  "join_fields [12, 9, 9, 9, 9, 0, 0, 0] 5
     (idx (fst (snd (first_step_pgt_generic pgt_example 0xffff888012345678 example_ctx)))) = 0xffff888012345678"
proof -
  let ?r = "first_step_pgt_generic pgt_example 0xffff888012345678 example_ctx"
  have "fst ?r = ADDRXLAT_OK"
    by (simp add: first_step_pgt_generic_def pgt_example_def x86_64_pf4_def)
  then have r: "?r = (ADDRXLAT_OK, fst (snd ?r), snd (snd ?r))"
    by (simp add: prod_eq_iff)
  show ?thesis
    using address_split_roundtrip [OF _ _ r] by (simp add: pgt_example_def x86_64_pf4_def)
qed

subsection \<open>Canonical addresses\<close>

lemma vaddr_bits_shift:
  assumes "nfields pf \<le> length (fieldsz pf)" and "field_shift (fieldsz pf) (nfields pf) < 2 ^ 16"
  shows "vaddr_bits pf = field_shift (fieldsz pf) (nfields pf)"
proof -
  have "foldl (\<lambda>result i. (result + fieldsz pf ! i) mod 2 ^ 16) 0 [0..<n] = field_shift (fieldsz pf) n"
    if "n \<le> nfields pf" for n
    using that
  proof (induction n)
    case (Suc n)
    have "field_shift (fieldsz pf) (Suc n) \<le> field_shift (fieldsz pf) (nfields pf)"
      using Suc.prems assms(1) unfolding field_shift_def
      by (metis append_take_drop_id le_add1 min.absorb1 sum_list_append take_take)
    then show ?case
      using Suc assms by (simp add: field_shift_Suc)
  qed simp
  then show ?thesis
    by (simp add: vaddr_bits_def)
qed

lemma sign_extended_bits:
  fixes a :: u64
  assumes "0 < s" and "s \<le> 64"
  shows "signed_take_bit (s - 1) a = a \<longleftrightarrow> (\<forall>n. s \<le> n \<and> n < 64 \<longrightarrow> bit a n = bit a (s - 1))"
    (is "?s \<longleftrightarrow> ?m")
proof
  assume eq: "signed_take_bit (s - 1) a = a"
  show ?m
  proof (intro allI impI)
    fix n
    assume n: "s \<le> n \<and> n < 64"
    have "bit (signed_take_bit (s - 1) a) n = bit a (s - 1)"
      using n assms by (auto simp: bit_signed_take_bit_iff min_def)
    then show "bit a n = bit a (s - 1)"
      unfolding eq .
  qed
next
  assume m: ?m
  show "signed_take_bit (s - 1) a = a"
  proof (rule bit_word_eqI)
    fix n
    assume n: "n < LENGTH(64)"
    show "bit (signed_take_bit (s - 1) a) n = bit a n"
    proof (cases "n < s")
      case True
      then have "min (s - 1) n = n"
        by simp
      then show ?thesis
        using n by (simp add: bit_signed_take_bit_iff)
    next
      case False
      then have "min (s - 1) n = s - 1" "bit a n = bit a (s - 1)"
        using m n by auto
      then show ?thesis
        using n by (simp add: bit_signed_take_bit_iff)
    qed
  qed
qed

lemma sign_extended_iff:
  assumes "0 < s" and "s \<le> 64"
  shows "drop_bit s a = (if bit a (s - 1) then NOT 0 else 0) AND drop_bit s (NOT 0)
    \<longleftrightarrow> signed_take_bit (s - 1) a = (a :: u64)"
proof -
  have "drop_bit s a = (if bit a (s - 1) then NOT 0 else 0) AND drop_bit s (NOT 0)
      \<longleftrightarrow> (\<forall>n. s \<le> n \<and> n < 64 \<longrightarrow> bit a n = bit a (s - 1))" (is "?l \<longleftrightarrow> ?m")
  proof
    assume ?l
    show ?m
    proof (intro allI impI)
      fix n
      assume n: "s \<le> n \<and> n < 64"
      then have "bit a n = bit (drop_bit s a) (n - s)"
        by (simp add: bit_drop_bit_eq)
      also have "\<dots> = bit ((if bit a (s - 1) then NOT 0 else 0) AND drop_bit s (NOT 0 :: u64)) (n - s)"
        using \<open>?l\<close> by (rule arg_cong [of _ _ "\<lambda>w. bit w (n - s)"])
      also have "\<dots> = bit a (s - 1)"
        using n by (auto simp: bit_simps)
      finally show "bit a n = bit a (s - 1)" .
    qed
  next
    assume ?m
    show ?l
    proof (rule bit_word_eqI)
      fix n
      have "bit a (s + n) \<Longrightarrow> s + n < 64"
        using bit_imp_le_length [of a "s + n"] by simp
      moreover have "s + n < 64 \<Longrightarrow> bit a (s + n) = bit a (s - 1)"
        using \<open>?m\<close> by simp
      ultimately show "bit (drop_bit s a) n
          = bit ((if bit a (s - 1) then NOT 0 else 0) AND drop_bit s (NOT 0 :: u64)) n"
        by (auto simp: bit_simps)
    qed
  qed
  also have "\<dots> \<longleftrightarrow> signed_take_bit (s - 1) a = a"
    using sign_extended_bits [OF assms] by blast
  finally show ?thesis .
qed

lemma sign_bit:
  assumes "0 < b"
  shows "drop_bit (b - 1) (take_bit b (drop_bit s a)) AND 1 = (1 :: u64) \<longleftrightarrow> bit a (s + b - 1)"
proof -
  have "s + (b - 1) = s + b - 1"
    using assms by simp
  then have "bit (drop_bit (b - 1) (take_bit b (drop_bit s a))) 0 \<longleftrightarrow> bit a (s + b - 1)"
    using assms by (simp add: bit_simps)
  then show ?thesis
    by (simp add: and_one_eq bit_0 odd_iff_mod_2_eq_one)
qed

lemma saddr_canonical:
  assumes "0 < nfields (pgt_pf (step_meth st))"
    and "nfields (pgt_pf (step_meth st)) \<le> length (fieldsz (pgt_pf (step_meth st)))"
    and "nfields (pgt_pf (step_meth st)) < length (idx st)"
    and "0 < fieldsz (pgt_pf (step_meth st)) ! (nfields (pgt_pf (step_meth st)) - 1)"
    and "field_shift (fieldsz (pgt_pf (step_meth st))) (nfields (pgt_pf (step_meth st))) \<le> 64"
    and "fa_as (pgt_root (step_meth st)) \<noteq> ADDRXLAT_NOADDR"
  shows "fst (first_step_saddr st addr ctx) =
    (if signed_take_bit (vaddr_bits (pgt_pf (step_meth st)) - 1) addr = addr
     then ADDRXLAT_OK else ADDRXLAT_ERR_INVALID)"
proof -
  define pf where "pf = pgt_pf (step_meth st)"
  define fs n S where "fs = fieldsz pf" and "n = nfields pf" and "S = field_shift fs n"
  have nl: "0 < n" "n \<le> length fs" "n < length (idx st)" "0 < fs ! (n - 1)" "S \<le> 64"
    using assms(1-5) by (simp_all add: fs_def n_def S_def pf_def)
  obtain st1 where gen: "first_step_pgt_generic st addr ctx = (ADDRXLAT_OK, st1, ctx)"
      "step_meth st1 = step_meth st" "idx st1 = split_loop fs 0 n addr (idx st)"
    using assms(6) by (simp add: first_step_pgt_generic_def Let_def fs_def n_def pf_def)
  have vb: "vaddr_bits pf = S"
    using vaddr_bits_shift [of pf] nl by (simp add: fs_def n_def S_def)
  have S: "S = field_shift fs (n - 1) + fs ! (n - 1)" "0 < S"
    using field_shift_Suc [of "n - 1" fs] nl by (simp_all add: S_def)
  have ix: "idx st1 ! (n - 1) = take_bit (fs ! (n - 1)) (drop_bit (field_shift fs (n - 1)) addr)"
      "idx st1 ! n = drop_bit S addr"
    using nl split_fields [of n fs "idx st"] by (simp_all add: gen(3) S_def)
  have bitS: "(drop_bit (fs ! (n - 1) - 1) (idx st1 ! (n - 1)) AND 1 = 1) = bit addr (S - 1)"
    using sign_bit [OF nl(4)] unfolding ix by (simp only: S(1))
  have "fst (step_check_saddr st1 ctx) =
      (if drop_bit S addr = (if bit addr (S - 1) then NOT 0 else 0) AND drop_bit S ADDRXLAT_ADDR_MAX
       then ADDRXLAT_OK else ADDRXLAT_ERR_INVALID)"
    unfolding step_check_saddr_def Let_def gen(2) pf_def [symmetric] n_def [symmetric] fs_def [symmetric]
      vb bitS ix(2) by (simp add: step_error_def set_error_def)
  also have "\<dots> = (if signed_take_bit (S - 1) addr = addr then ADDRXLAT_OK else ADDRXLAT_ERR_INVALID)"
    unfolding ADDRXLAT_ADDR_MAX_def sign_extended_iff [OF S(2) nl(5)] ..
  finally show ?thesis
    by (simp add: first_step_saddr_def gen(1) vb pf_def [symmetric])
qed

text \<open>
  The check of a signed address accepts exactly the canonical addresses: those that are the sign
  extension of their low bits, as many as the fields of the paging form have together.
\<close>

theorem saddr_accepts_canonical:
  assumes "0 < nfields (pgt_pf (step_meth st))"
    and "nfields (pgt_pf (step_meth st)) \<le> length (fieldsz (pgt_pf (step_meth st)))"
    and "nfields (pgt_pf (step_meth st)) < length (idx st)"
    and "0 < fieldsz (pgt_pf (step_meth st)) ! (nfields (pgt_pf (step_meth st)) - 1)"
    and "field_shift (fieldsz (pgt_pf (step_meth st))) (nfields (pgt_pf (step_meth st))) \<le> 64"
    and "fa_as (pgt_root (step_meth st)) \<noteq> ADDRXLAT_NOADDR"
  shows "fst (first_step_saddr st addr ctx) =
    (if signed_take_bit (vaddr_bits (pgt_pf (step_meth st)) - 1) addr = addr
     then ADDRXLAT_OK else ADDRXLAT_ERR_INVALID)"
  using assms by (rule saddr_canonical)

lemma saddr_accepts_canonical_witness:
  "fst (first_step_saddr pgt_example 0x0000800000000000 example_ctx) = ADDRXLAT_ERR_INVALID
   \<and> fst (first_step_saddr pgt_example 0xffff800000000000 example_ctx) = ADDRXLAT_OK"
proof -
  have st: "0 < nfields (pgt_pf (step_meth pgt_example))"
    "nfields (pgt_pf (step_meth pgt_example)) \<le> length (fieldsz (pgt_pf (step_meth pgt_example)))"
    "nfields (pgt_pf (step_meth pgt_example)) < length (idx pgt_example)"
    "0 < fieldsz (pgt_pf (step_meth pgt_example)) ! (nfields (pgt_pf (step_meth pgt_example)) - 1)"
    "field_shift (fieldsz (pgt_pf (step_meth pgt_example))) (nfields (pgt_pf (step_meth pgt_example))) \<le> 64"
    "fa_as (pgt_root (step_meth pgt_example)) \<noteq> ADDRXLAT_NOADDR"
    by (simp_all add: pgt_example_def x86_64_pf4_def field_shift_def)
  have "vaddr_bits x86_64_pf4 = 48"
    using vaddr_bits_shift [of x86_64_pf4] by (simp add: x86_64_pf4_def field_shift_def)
  then have bits: "vaddr_bits (pgt_pf (step_meth pgt_example)) - 1 = 48 - 1"
    by (simp add: pgt_example_def)
  have h: "(drop_bit 48 a = (if bit a (48 - 1) then NOT 0 else 0) AND drop_bit 48 (NOT 0))
      = (signed_take_bit (48 - 1) a = a)" for a :: u64
    by (rule sign_extended_iff) simp_all
  have "\<not> drop_bit 48 (0x0000800000000000 :: u64)
      = (if bit (0x0000800000000000 :: u64) (48 - 1) then NOT 0 else 0) AND drop_bit 48 (NOT 0)"
    "drop_bit 48 (0xffff800000000000 :: u64)
      = (if bit (0xffff800000000000 :: u64) (48 - 1) then NOT 0 else 0) AND drop_bit 48 (NOT 0)"
    by (simp_all add: mask_eq_exp_minus_1)
  then have "signed_take_bit (48 - 1) (0x0000800000000000 :: u64) \<noteq> 0x0000800000000000"
    "signed_take_bit (48 - 1) (0xffff800000000000 :: u64) = 0xffff800000000000"
    unfolding h .
  then show ?thesis
    unfolding saddr_accepts_canonical [OF st] bits by (simp only: if_True if_False simp_thms)
qed

subsection \<open>Huge pages\<close>

lemma index_offset_joined:
  assumes "n < length fs" and "\<And>k. k \<le> n \<Longrightarrow> ix ! k = take_bit (fs ! k) (drop_bit (field_shift fs k) a)"
  shows "index_offset (Suc n) fs ix off OR take_bit (fs ! 0) a
    = push_bit (field_shift fs n) off OR take_bit (field_shift fs (Suc n)) a"
  using assms
proof (induction n arbitrary: off)
  case 0
  then show ?case
    using field_shift_Suc [of 0 fs] by simp
next
  case (Suc n)
  define s where "s = field_shift fs (Suc n)"
  have s: "s = field_shift fs n + fs ! n" and s': "field_shift fs (Suc (Suc n)) = s + fs ! Suc n"
    using Suc.prems(1) by (simp_all add: s_def field_shift_Suc)
  have "index_offset (Suc (Suc n)) fs ix off OR take_bit (fs ! 0) a
      = push_bit (field_shift fs n) (push_bit (fs ! n) (off OR ix ! Suc n)) OR take_bit s a"
    using Suc.IH [of "push_bit (fs ! n) (off OR ix ! Suc n)"] Suc.prems by (simp add: s_def)
  also have "\<dots> = push_bit s off OR (push_bit s (ix ! Suc n) OR take_bit s a)"
    by (simp add: s push_bit_or add.commute or.assoc)
  also have "ix ! Suc n = take_bit (fs ! Suc n) (drop_bit s a)"
    using Suc.prems(2) by (simp add: s_def)
  finally show ?case
    by (simp add: join_bits s_def [symmetric] s')
qed

lemma huge_page_low_bits:
  assumes "0 < remain st" and "remain st \<le> length (fieldsz (pgt_pf (step_meth st)))"
    and "remain st < length (idx st)"
    and "\<And>k. k < remain st \<Longrightarrow>
      idx st ! k = take_bit (fieldsz (pgt_pf (step_meth st)) ! k)
                     (drop_bit (field_shift (fieldsz (pgt_pf (step_meth st))) k) addr)"
    and "pgt_huge_page st ctx = (status, st', ctx')"
  shows "status = ADDRXLAT_OK \<and> remain st' = 1 \<and> elemsz st' = 1 \<and> base st' = base st
    \<and> idx st' ! 0 = take_bit (field_shift (fieldsz (pgt_pf (step_meth st))) (remain st)) addr"
proof -
  obtain n where n: "remain st = Suc n"
    using assms(1) by (cases "remain st") auto
  have "idx st' ! 0 = idx st ! 0 OR index_offset (remain st) (fieldsz (pgt_pf (step_meth st))) (idx st) 0"
    using assms(3,5) by (cases "idx st") (auto simp: pgt_huge_page_def Let_def)
  then show ?thesis
    using assms n index_offset_joined [of n "fieldsz (pgt_pf (step_meth st))" "idx st" addr 0]
    by (auto simp: pgt_huge_page_def Let_def or.commute)
qed

text \<open>
  The shortcut for huge pages works for every paging form and at every level: a step state whose
  indices come from splitting an address is left with the offset of the address into the huge
  page as its last index, so that the last step of the walk adds exactly the low bits of the
  address, as many as the fields below the level have together.
\<close>

theorem huge_page_offset:
  assumes "0 < remain st" and "remain st \<le> length (fieldsz (pgt_pf (step_meth st)))"
    and "remain st < length (idx st)"
    and "\<And>k. k < remain st \<Longrightarrow>
      idx st ! k = take_bit (fieldsz (pgt_pf (step_meth st)) ! k)
                     (drop_bit (field_shift (fieldsz (pgt_pf (step_meth st))) k) addr)"
    and "pgt_huge_page st ctx = (status, st', ctx')"
  shows "status = ADDRXLAT_OK \<and> remain st' = 1 \<and> elemsz st' = 1 \<and> base st' = base st
    \<and> idx st' ! 0 = take_bit (field_shift (fieldsz (pgt_pf (step_meth st))) (remain st)) addr"
  using assms by (rule huge_page_low_bits)

lemma huge_page_offset_witness:
  "idx (fst (snd (pgt_huge_page
      (pgt_example\<lparr>remain := 2, idx := [0x678, 0x145, 0, 0, 0, 0, 0, 0, 0]\<rparr>) example_ctx))) ! 0 = 0x145678"
proof -
  let ?st = "pgt_example\<lparr>remain := 2, idx := [0x678, 0x145, 0, 0, 0, 0, 0, 0, 0]\<rparr>"
  have "k < 2 \<Longrightarrow> idx ?st ! k = take_bit (fieldsz (pgt_pf (step_meth ?st)) ! k)
      (drop_bit (field_shift (fieldsz (pgt_pf (step_meth ?st))) k) 0x12345678)" for k
    using less_2_cases [of k] by (auto simp: pgt_example_def x86_64_pf4_def field_shift_def)
  note ix = this
  have r: "pgt_huge_page ?st example_ctx = (fst (pgt_huge_page ?st example_ctx),
      fst (snd (pgt_huge_page ?st example_ctx)), snd (snd (pgt_huge_page ?st example_ctx)))"
    by simp
  show ?thesis
    using huge_page_offset [where addr = "0x12345678", OF _ _ _ _ r] ix
    by (simp add: pgt_example_def x86_64_pf4_def field_shift_def)
qed

subsection \<open>Walks end\<close>















end
