(* ===== verification/X86_64_Walk.thy ===== *)
theory X86_64_Walk
  imports Xlat_Paging Xlat_Op
begin

section \<open>The page table walk of the AMD64 architecture\<close>

text \<open>
  The walk as the architecture manual describes it, and the proof that \<open>addrxlat_walk\<close> with the
  x86-64 format computes it, from the page callback up.
\<close>

subsection \<open>The architecture\<close>

text \<open>
  \<open>mmu_x86_64 mem msk t n table va\<close> translates \<open>va\<close> with the table at \<open>table\<close> whose entries are
  of level \<open>n\<close>: level 1 entries map 4K pages; level 2 and 3 entries map 2M and 1G pages if their
  page size bit is set. The physical address has at most 52 bits; \<open>msk\<close> are bits of an entry
  that do not belong to the address (memory encryption), \<open>t\<close> is the address space of the result.
\<close>

fun mmu_x86_64 :: "(fulladdr \<Rightarrow> u64) \<Rightarrow> u64 \<Rightarrow> addrspace \<Rightarrow> nat \<Rightarrow> fulladdr \<Rightarrow> u64 \<Rightarrow> u64 option" where
  "mmu_x86_64 mem msk t 0 table va = None"
| "mmu_x86_64 mem msk t (Suc n) table va =
     (let s = 12 + 9 * n;
          e = mem (table\<lparr>fa_addr := fa_addr table + 8 * take_bit 9 (drop_bit s va)\<rparr>) AND NOT msk;
          a = take_bit 52 e
      in if \<not> bit e 0 then None
         else if n = 0 \<or> ((n = 1 \<or> n = 2) \<and> bit e 7)
         then Some (push_bit s (drop_bit s a) OR take_bit s va)
         else mmu_x86_64 mem msk t n \<lparr>fa_addr = push_bit 12 (drop_bit 12 a), fa_as = t\<rparr> va)"

subsection \<open>Readers that serve a memory\<close>

definition serves :: "(xctx \<Rightarrow> bool) \<Rightarrow> readers \<Rightarrow> u64 \<Rightarrow> (fulladdr \<Rightarrow> u64) \<Rightarrow> bool" where
  "serves Inv R caps mem \<longleftrightarrow> inv_closed Inv \<and>
     (\<forall>sys a what ctx. Inv ctx \<and> has_cap caps (fa_as a) \<and> 8 dvd unat (fa_addr a) \<longrightarrow>
        (\<exists>ctx'. rd64 R sys a what ctx = Some (ADDRXLAT_OK, mem a, ctx') \<and> Inv ctx' \<and> same_frame ctx ctx'))"

lemma ADDR_MASK_and: "n < 64 \<Longrightarrow> a AND ADDR_MASK n = take_bit n a" "n < 64 \<Longrightarrow> a AND NOT (ADDR_MASK n) = push_bit n (drop_bit n a)"
  using field_mask [of a n]
  by (simp_all add: ADDR_MASK_def) (auto intro!: bit_word_eqI simp: bit_simps push_bit_of_1 mask_eq_exp_minus_1 [symmetric])

lemma page_present: "(pte AND PAGE_PRESENT = 0) = (\<not> bit pte 0)"
  by (simp add: PAGE_PRESENT_def and_one_eq bit_0 odd_iff_mod_2_eq_one even_iff_mod_2_eq_zero)

lemma page_pse: "(pte AND PAGE_PSE = 0) = (\<not> bit pte 7)"
  using and_exp_eq_0_iff_not_bit [of pte 7] by (simp add: PAGE_PSE_def)

text \<open>Address arithmetic: aligned parts and offsets do not overlap.\<close>

lemma aligned_plus: "push_bit s (drop_bit s a) + take_bit s b = push_bit s (drop_bit s a) OR take_bit s (b :: u64)"
  by (rule disjunctive_add) (auto simp: bit_simps)

lemma dvd_8_iff: "8 dvd unat (a :: u64) \<longleftrightarrow> take_bit 3 a = 0"
  by (simp add: dvd_eq_mod_eq_0 take_bit_eq_mod word_unat_eq_iff unat_mod_distrib unsigned_take_bit_eq)

lemma dvd_8_entry:
  assumes "8 dvd unat (a :: u64)"
  shows "8 dvd unat (a + 8 * b)"
proof -
  have "unat (a + 8 * b) = (unat a + (8 * unat b) mod 2 ^ 64) mod 2 ^ 64"
    by (simp add: unat_word_ariths)
  moreover have "8 dvd (2 :: nat) ^ 64"
    by simp
  ultimately show ?thesis
    using assms by (metis dvd_add dvd_mod dvd_triv_left)
qed

lemma dvd_8_table: "8 dvd unat (push_bit 12 (b :: u64))"
  by (simp add: dvd_8_iff take_bit_push_bit)

subsection \<open>One level\<close>

text \<open>
  The step state on the way down: \<open>n\<close> levels are left, \<open>table\<close> is the next table and the indices
  are the fields of \<open>va\<close>.
\<close>

definition x86_64_fields :: "paging_form \<Rightarrow> bool" where
  "x86_64_fields pf \<longleftrightarrow> pf_format pf = ADDRXLAT_PTE_X86_64 \<and> 1 < nfields pf \<and> nfields pf \<le> 6
     \<and> nfields pf \<le> length (fieldsz pf)
     \<and> fieldsz pf ! 0 = 12 \<and> (\<forall>k. 0 < k \<and> k < nfields pf \<longrightarrow> fieldsz pf ! k = 9)"

definition descending :: "xmeth \<Rightarrow> u64 \<Rightarrow> nat \<Rightarrow> fulladdr \<Rightarrow> step \<Rightarrow> bool" where
  "descending m va n table st \<longleftrightarrow>
     remain st = Suc n \<and> n < nfields (pgt_pf m) \<and> elemsz st = 8 \<and> step_meth st = m \<and> base st = table
     \<and> n < length (idx st)
     \<and> (\<forall>k\<le>n. idx st ! k = take_bit (fieldsz (pgt_pf m) ! k) (drop_bit (field_shift (fieldsz (pgt_pf m)) k) va))"

lemma x86_64_shift:
  assumes "x86_64_fields pf" and "k < nfields pf"
  shows "field_shift (fieldsz pf) (Suc k) = 12 + 9 * k"
  using assms(2)
proof (induction k)
  case 0
  then show ?case
    using assms(1) by (cases "fieldsz pf") (auto simp: x86_64_fields_def field_shift_def)
next
  case (Suc k)
  then show ?case
    using assms(1) field_shift_Suc [of "Suc k" "fieldsz pf"] by (simp add: x86_64_fields_def)
qed

lemma decode_leaf:
  assumes "descending m va (Suc n) table st" and "x86_64_fields (pgt_pf m)" and "n \<le> 2"
    and "st1 = st\<lparr>remain := Suc n, base := b, raw := v\<rparr>"
    and "bit e 0" and "n = 0 \<or> bit e 7"
  shows "\<exists>st2. decode_x86_64 e st1 ctx = Some (ADDRXLAT_OK, st2, ctx) \<and> remain st2 = 1 \<and> elemsz st2 = 1
    \<and> step_meth st2 = m
    \<and> fa_addr (base st2) + idx st2 ! 0 = push_bit (12 + 9 * n) (drop_bit (12 + 9 * n) (take_bit 52 e)) OR take_bit (12 + 9 * n) va"
proof -
  note d = assms(1) [unfolded descending_def]
  have ix: "\<And>k. k < Suc n \<Longrightarrow> idx st1 ! k = take_bit (fieldsz (pgt_pf m) ! k) (drop_bit (field_shift (fieldsz (pgt_pf m)) k) va)"
    using d assms(4) by simp
  have S: "field_shift (fieldsz (pgt_pf m)) (Suc n) = 12 + 9 * n"
    using x86_64_shift [OF assms(2), of n] d by simp
  show ?thesis
  proof (cases n)
    case 0
    then have "idx st1 ! 0 = take_bit 12 va"
      using ix [of 0] assms(2) by (simp add: x86_64_fields_def)
    then show ?thesis
      using 0 assms(4,5) d aligned_plus [of 12]
      by (simp add: decode_x86_64_def page_present page_pse next_table_def set_base_def ADDR_MASK_and Let_def)
  next
    case (Suc n')
    define st' where "st' = set_base (push_bit (12 + 9 * n) (drop_bit (12 + 9 * n) (take_bit 52 e))) st1"
    obtain st2 where h: "pgt_huge_page st' ctx = (ADDRXLAT_OK, st2, ctx)"
      by (simp add: pgt_huge_page_def Let_def)
    have st': "remain st' = Suc n" "step_meth st' = m" "idx st' = idx st1"
      using assms(4) d by (simp_all add: st'_def)
    have "remain st2 = 1 \<and> elemsz st2 = 1 \<and> base st2 = base st' \<and> idx st2 ! 0 = take_bit (12 + 9 * n) va"
      using huge_page_low_bits [OF _ _ _ _ h, of va] st' ix S d assms(2,4)
      by (simp add: x86_64_fields_def)
    moreover have "step_meth st2 = m"
      using h st' by (auto simp: pgt_huge_page_def Let_def)
    moreover have "decode_x86_64 e st1 ctx = Some (pgt_huge_page st' ctx)"
      using Suc assms(3-6) d
      by (auto simp: decode_x86_64_def page_present page_pse ADDR_MASK_and Let_def st'_def set_base_def le_Suc_eq numeral_2_eq_2)
    ultimately show ?thesis
      using h aligned_plus [of "12 + 9 * n"] by (simp add: st'_def set_base_def)
  qed
qed

lemma decode_table:
  assumes "descending m va (Suc (Suc n)) table st" and "st1 = st\<lparr>remain := Suc (Suc n), base := b, raw := v\<rparr>"
    and "bit e 0" and "\<not> (Suc n \<le> 2 \<and> bit e 7)"
  shows "\<exists>st2. decode_x86_64 e st1 ctx = Some (ADDRXLAT_OK, st2, ctx)
    \<and> descending m va (Suc n) \<lparr>fa_addr = push_bit 12 (drop_bit 12 (take_bit 52 e)), fa_as = target_as m\<rparr> st2"
  using assms
  by (auto simp: descending_def decode_x86_64_def page_present page_pse next_table_def set_base_def ADDR_MASK_and Let_def)

text \<open>Reading the entry of a level.\<close>

lemma read_entry:
  assumes "serves Inv R caps mem" and "Inv ctx" and "descending m va (Suc n) table st"
    and "x86_64_fields (pgt_pf m)" and "kind m = ADDRXLAT_PGT"
    and "has_cap caps (fa_as table)" and "8 dvd unat (fa_addr table)"
  defines "a \<equiv> table\<lparr>fa_addr := fa_addr table + 8 * take_bit 9 (drop_bit (12 + 9 * n) va)\<rparr>"
  defines "st1 \<equiv> st\<lparr>remain := Suc n, base := a, raw := mem a\<rparr>"
  shows "\<exists>ctx'. Inv ctx' \<and> same_frame ctx ctx' \<and>
    next_step R (advance (st\<lparr>remain := Suc n\<rparr>)) ctx = decode_x86_64 (mem a AND NOT (pte_mask m)) st1 ctx'"
proof -
  note d = assms(3) [unfolded descending_def]
  have n: "n < nfields (pgt_pf m)" "Suc n < nfields (pgt_pf m)"
    using d by simp_all
  have "idx st ! Suc n = take_bit 9 (drop_bit (12 + 9 * n) va)"
    using d x86_64_shift [OF assms(4) n(1)] assms(4) n(2) by (simp add: x86_64_fields_def)
  then have adv: "advance (st\<lparr>remain := Suc n\<rparr>) = st\<lparr>remain := Suc n, base := a\<rparr>"
    using d by (simp add: advance_def a_def mult.commute)
  have "fa_as a = fa_as table" "8 dvd unat (fa_addr a)"
    using dvd_8_entry [OF assms(7)] by (simp_all add: a_def)
  then obtain ctx' where r: "rd64 R (step_sys st) a ''PTE'' ctx = Some (ADDRXLAT_OK, mem a, ctx')"
      "Inv ctx'" "same_frame ctx ctx'"
    using assms(1,2,6) unfolding serves_def by metis
  have "next_step R (st\<lparr>remain := Suc n, base := a\<rparr>) ctx = decode_x86_64 (mem a AND NOT (pte_mask m)) st1 ctx'"
    using d r(1) assms(4,5)
    by (simp add: next_step_def next_step_pgt_def pgt_x86_64_def with_pte_def read_pte_def x86_64_fields_def st1_def)
  then show ?thesis
    using r adv by auto
qed

lemma not_present_result:
  "\<exists>ctx'. not_present names entries st ctx = (ADDRXLAT_ERR_NOTPRESENT, st, ctx')
     \<and> same_frame ctx ctx' \<and> cache ctx' = cache ctx"
  by (cases "noerr_notpresent ctx")
     (simp_all add: not_present_def step_error_def set_error_def same_frame_def)

lemma walk_loop_last:
  "remain st = 1 \<Longrightarrow> elemsz st = 1 \<Longrightarrow> step_meth st = m \<Longrightarrow>
   \<exists>st'. walk_loop R st ctx = Some (ADDRXLAT_OK, st', ctx)
     \<and> base st' = \<lparr>fa_addr = fa_addr (base st) + idx st ! 0, fa_as = target_as m\<rparr>"
  by (subst walk_loop.simps) (simp add: advance_def finish_def Let_def)

lemma walk_loop_step:
  assumes "remain st = Suc (Suc n)" and "next_step R (advance (st\<lparr>remain := Suc n\<rparr>)) ctx = Some (status, st', ctx')"
  shows "walk_loop R st ctx = (if status = ADDRXLAT_OK then walk_loop R st' ctx' else Some (status, st', ctx'))"
  using assms by (subst walk_loop.simps) (simp add: Let_def advance_def)

text \<open>The whole walk down, by induction on the levels.\<close>

definition walk_result :: "xmeth \<Rightarrow> u64 option \<Rightarrow> status \<Rightarrow> step \<Rightarrow> bool" where
  "walk_result m result status st \<longleftrightarrow>
     (case result of
        None \<Rightarrow> status = ADDRXLAT_ERR_NOTPRESENT
      | Some pa \<Rightarrow> status = ADDRXLAT_OK \<and> base st = \<lparr>fa_addr = pa, fa_as = target_as m\<rparr>)"

lemma walk_loop_mmu:
  assumes "serves Inv R caps mem" and "x86_64_fields (pgt_pf m)" and "kind m = ADDRXLAT_PGT"
    and "has_cap caps (target_as m)"
    and "Inv ctx" and "descending m va (Suc n) table st" and "has_cap caps (fa_as table)"
    and "8 dvd unat (fa_addr table)"
  shows "\<exists>status st' ctx'. walk_loop R st ctx = Some (status, st', ctx') \<and> Inv ctx' \<and>
    walk_result m (mmu_x86_64 mem (pte_mask m) (target_as m) (Suc n) table va) status st'"
  using assms(5-8)
proof (induction n arbitrary: table st ctx rule: less_induct)
  case (less n)
  note rem = less.prems(2) [unfolded descending_def]
  define a where "a = table\<lparr>fa_addr := fa_addr table + 8 * take_bit 9 (drop_bit (12 + 9 * n) va)\<rparr>"
  define e where "e = mem a AND NOT (pte_mask m)"
  define st1 where "st1 = st\<lparr>remain := Suc n, base := a, raw := mem a\<rparr>"
  obtain ctx1 where r: "Inv ctx1" "next_step R (advance (st\<lparr>remain := Suc n\<rparr>)) ctx = decode_x86_64 e st1 ctx1"
    using read_entry [OF assms(1) less.prems(1,2) assms(2,3) less.prems(3,4)]
    unfolding a_def e_def st1_def by auto
  have closed: "inv_closed Inv"
    using assms(1) by (simp add: serves_def)
  consider (absent) "\<not> bit e 0" | (leaf) "bit e 0" "n = 0 \<or> ((n = 1 \<or> n = 2) \<and> bit e 7)"
    | (table) "bit e 0" "\<not> (n = 0 \<or> ((n = 1 \<or> n = 2) \<and> bit e 7))"
    by blast
  then show ?case
  proof cases
    case absent
    then obtain ctx2 where "decode_x86_64 e st1 ctx1 = Some (ADDRXLAT_ERR_NOTPRESENT, st1, ctx2)"
        "same_frame ctx1 ctx2" "cache ctx2 = cache ctx1"
      using not_present_result [of _ _ st1 ctx1] by (fastforce simp: decode_x86_64_def page_present)
    moreover from this have "Inv ctx2"
      using inv_closedD [OF closed r(1)] by blast
    ultimately show ?thesis
      using absent r(2) rem walk_loop_step [of st n R ctx]
      by (auto simp: walk_result_def a_def e_def Let_def)
  next
    case leaf
    then obtain st2 where l: "decode_x86_64 e st1 ctx1 = Some (ADDRXLAT_OK, st2, ctx1)"
        "remain st2 = 1" "elemsz st2 = 1" "step_meth st2 = m"
        "fa_addr (base st2) + idx st2 ! 0 =
           push_bit (12 + 9 * n) (drop_bit (12 + 9 * n) (take_bit 52 e)) OR take_bit (12 + 9 * n) va"
      using decode_leaf [OF less.prems(2) assms(2) _ st1_def, of e ctx1] by auto
    then show ?thesis
      using leaf r rem walk_loop_step [of st n R ctx] walk_loop_last [of st2 m R ctx1]
      by (auto simp: walk_result_def a_def e_def Let_def)
  next
    case table
    then obtain k where k: "n = Suc k"
      by (cases n) auto
    define next_tbl where "next_tbl = \<lparr>fa_addr = push_bit 12 (drop_bit 12 (take_bit 52 e)), fa_as = target_as m\<rparr>"
    have "\<not> (Suc k \<le> 2 \<and> bit e 7)"
      using table k by auto
    then obtain st2 where l: "decode_x86_64 e st1 ctx1 = Some (ADDRXLAT_OK, st2, ctx1)"
        "descending m va (Suc k) next_tbl st2"
      using decode_table [OF less.prems(2) [unfolded k] st1_def [unfolded k] table(1)]
      unfolding next_tbl_def by blast
    have "\<exists>status st' ctx'. walk_loop R st2 ctx1 = Some (status, st', ctx') \<and> Inv ctx' \<and>
        walk_result m (mmu_x86_64 mem (pte_mask m) (target_as m) (Suc k) next_tbl va) status st'"
      using less.IH [OF _ r(1) l(2)] k assms(4) dvd_8_table by (simp add: next_tbl_def)
    moreover have "mmu_x86_64 mem (pte_mask m) (target_as m) (Suc n) table va
        = (if \<not> bit e 0 then None
           else if n = 0 \<or> ((n = 1 \<or> n = 2) \<and> bit e 7)
           then Some (push_bit (12 + 9 * n) (drop_bit (12 + 9 * n) (take_bit 52 e)) OR take_bit (12 + 9 * n) va)
           else mmu_x86_64 mem (pte_mask m) (target_as m) n next_tbl va)"
      by (simp only: mmu_x86_64.simps(2) Let_def a_def e_def next_tbl_def)
    then have "mmu_x86_64 mem (pte_mask m) (target_as m) (Suc n) table va
        = mmu_x86_64 mem (pte_mask m) (target_as m) (Suc k) next_tbl va"
      using table by (simp only: k if_False not_not simp_thms)
    ultimately show ?thesis
      using l(1) r(2) rem walk_loop_step [of st n R ctx] by simp
  qed
qed

subsection \<open>The readers of the library serve the pages of the callback\<close>

text \<open>A page callback that succeeds for every address in its capabilities.\<close>

definition all_readable :: "xctx \<Rightarrow> bool" where
  "all_readable ctx \<longleftrightarrow>
     (\<exists>caps. call_read_caps (ctx_cb ctx) = Some caps
       \<and> (\<forall>b. has_cap caps (fa_as (buf_addr b)) \<longrightarrow>
            (\<exists>b' msgs. call_get_page (ctx_cb ctx) b = Some (ADDRXLAT_OK, b', msgs))))"

definition readable :: "xctx \<Rightarrow> addrspace \<Rightarrow> bool" where
  "readable ctx a \<longleftrightarrow> (\<exists>caps. call_read_caps (ctx_cb ctx) = Some caps \<and> has_cap caps a)"

lemma do_read_served:
  assumes "ctx_ok mem mo ctx" and "all_readable ctx" and "readable ctx (fa_as a)" and "8 dvd unat (fa_addr a)"
  shows "\<exists>ctx'. do_read 8 a ctx = Some (ADDRXLAT_OK, mem_value (host_order ctx) mem mo 8 a, ctx')
    \<and> ctx_ok mem mo ctx' \<and> same_frame ctx ctx'"
proof -
  obtain status v ctx' where r: "do_read 8 a ctx = Some (status, v, ctx')" "ctx_ok mem mo ctx'"
      "same_frame ctx ctx'" "status = ADDRXLAT_OK \<Longrightarrow> v = mem_value (host_order ctx) mem mo 8 a"
    using do_read_spec [OF assms(1) dvd_refl assms(4)] by metis
  have src: "page_source (call_get_page (ctx_cb ctx)) mem mo" "cache_ok mem mo (cache ctx)"
    using assms(1) by (simp_all add: ctx_ok_def)
  obtain s i msgs c where g: "get_cache_buf (call_get_page (ctx_cb ctx)) a (cache ctx) = Some (s, i, msgs, c)"
      "s \<noteq> ADDRXLAT_OK \<Longrightarrow> \<exists>b b'. call_get_page (ctx_cb ctx) b = Some (s, b', msgs) \<and> buf_addr b = a"
    using get_cache_buf_spec [OF src, of a] by metis
  have "s = ADDRXLAT_OK"
  proof (rule ccontr)
    assume bad: "s \<noteq> ADDRXLAT_OK"
    then obtain b b' where "call_get_page (ctx_cb ctx) b = Some (s, b', msgs)" "buf_addr b = a"
      using g(2) by blast
    then show False
      using assms(2,3) bad unfolding all_readable_def readable_def by force
  qed
  then have "status = ADDRXLAT_OK"
    using r(1) g(1) by (auto simp: do_read_def ctx_cache_buf_def bind_Some_iff)
  then show ?thesis
    using r by auto
qed

lemma lib_serves:
  assumes "call_read_caps (ctx_cb ctx) = Some caps" and "all_readable ctx"
  shows "serves (\<lambda>c. ctx_ok mem mo c \<and> ctx_cb c = ctx_cb ctx \<and> host_order c = host_order ctx) (lib_readers C) caps
    (mem_value (host_order ctx) mem mo 8)"
proof -
  have "\<exists>ctx'. rd64 (lib_readers C) sys a what c = Some (ADDRXLAT_OK, mem_value (host_order ctx) mem mo 8 a, ctx')
      \<and> (ctx_ok mem mo ctx' \<and> ctx_cb ctx' = ctx_cb ctx \<and> host_order ctx' = host_order ctx) \<and> same_frame c ctx'"
    if c: "ctx_ok mem mo c" "ctx_cb c = ctx_cb ctx" "host_order c = host_order ctx"
      and a: "has_cap caps (fa_as a)" "8 dvd unat (fa_addr a)" for sys a what c
  proof -
    obtain ctx' where "do_read 8 a c = Some (ADDRXLAT_OK, mem_value (host_order c) mem mo 8 a, ctx')"
        "ctx_ok mem mo ctx'" "same_frame c ctx'"
      using do_read_served [OF c(1) _ _ a(2)] assms a(1) c(2) by (auto simp: all_readable_def readable_def)
    then show ?thesis
      using assms(1) a(1) c
      by (auto simp: lib_readers_def read64_def xlat_read_def set_error_def same_frame_def)
  qed
  then show ?thesis
    by (auto simp: serves_def inv_closed_def ctx_ok_def same_frame_def)
qed

text \<open>
  C1. The walk of the library is the walk of the processor. With a page callback that can read the page
  tables, a method with the x86-64 format and one to five levels translates every canonical
  address as the architecture does, to the same physical address or to a page that is not
  present; every other address is rejected. The entries are those that the callback serves,
  whatever is in the cache before.
\<close>

theorem x86_64_walk_is_mmu:
  assumes "ctx_ok mem mo ctx" and "all_readable ctx" and "readable ctx (fa_as (pgt_root m))"
    and "readable ctx (target_as m)" and "kind m = ADDRXLAT_PGT" and "x86_64_fields (pgt_pf m)"
    and "8 dvd unat (fa_addr (pgt_root m))" and "fa_as (pgt_root m) \<noteq> ADDRXLAT_NOADDR"
  shows "\<exists>status st' ctx'. walk (lib_readers C) (init_step sys m va) ctx = Some (status, st', ctx')
    \<and> (if signed_take_bit (11 + 9 * (nfields (pgt_pf m) - 1)) va = va
       then walk_result m (mmu_x86_64 (mem_value (host_order ctx) mem mo 8) (pte_mask m) (target_as m)
              (nfields (pgt_pf m) - 1) (pgt_root m) va) status st'
       else status = ADDRXLAT_ERR_INVALID)"
proof -
  define st where "st = init_step sys m va"
  define pf where "pf = pgt_pf m"
  obtain l where l: "nfields pf = Suc (Suc l)" "l \<le> 4"
    using assms(6) by (cases "nfields pf"; cases "nfields pf - 1") (auto simp: x86_64_fields_def pf_def)
  have pf: "Suc (Suc l) \<le> length (fieldsz pf)" "x86_64_fields pf" "pgt_pf m = pf"
    using assms(6) l by (simp_all add: x86_64_fields_def pf_def)
  have st: "step_meth st = m" "length (idx st) = 9" "fa_addr (base st) = va"
    by (simp_all add: st_def init_step_def ADDRXLAT_FIELDS_MAX_def)
  have sh: "field_shift (fieldsz pf) (Suc (Suc l)) = 12 + 9 * Suc l"
    using x86_64_shift [OF pf(2), of "Suc l"] l by simp
  have vb: "vaddr_bits pf - 1 = 11 + 9 * Suc l"
    using vaddr_bits_shift [of pf] pf l sh by simp
  have canon: "fst (first_step_saddr st va c) =
      (if signed_take_bit (11 + 9 * Suc l) va = va then ADDRXLAT_OK else ADDRXLAT_ERR_INVALID)" for c
    using saddr_canonical [of st va c] st pf l sh vb assms(8)
    by (simp add: x86_64_fields_def)
  have first: "first_step R va st c = Some (first_step_saddr st va c)" for R c
    using st pf assms(5) by (simp add: first_step_def first_step_pgt_def x86_64_fields_def)
  show ?thesis
  proof (cases "signed_take_bit (11 + 9 * Suc l) va = va")
    case False
    then show ?thesis
      using canon [of "clear_error ctx"] first st l pf
      by (cases "first_step_saddr st va (clear_error ctx)") (simp add: walk_def st_def [symmetric])
  next
    case True
    define c where "c = clear_error ctx"
    define ix where "ix = split_loop (fieldsz pf) 0 (Suc (Suc l)) va (idx st)"
    have ix: "length ix = 9" "k < Suc (Suc l) \<Longrightarrow>
        ix ! k = take_bit (fieldsz pf ! k) (drop_bit (field_shift (fieldsz pf) k) va)" for k
      using split_fields(1) [of "Suc (Suc l)" "fieldsz pf" "idx st"] st pf l by (simp_all only: ix_def length_split_loop)
    define st1 where "st1 = st\<lparr>base := pgt_root m, remain := Suc (Suc l), elemsz := 8, idx := ix\<rparr>"
    have gen: "first_step_pgt_generic st va c = (ADDRXLAT_OK, st1, c)"
      using st pf l assms(8) by (simp add: first_step_pgt_generic_def st1_def ix_def x86_64_fields_def pteval_shift_def)
    have "first_step_saddr st va c = (ADDRXLAT_OK, st1, c)"
      using True canon [of c] gen
      by (auto simp: first_step_saddr_def step_check_saddr_def step_error_def set_error_def Let_def split: if_splits)
    then have w: "walk (lib_readers C) st ctx = walk_loop (lib_readers C) st1 c"
      using first st by (simp add: walk_def c_def st1_def)
    have d: "descending m va (Suc l) (pgt_root m) st1"
      using ix st pf l by (simp add: descending_def st1_def)
    obtain caps where caps: "call_read_caps (ctx_cb ctx) = Some caps" "has_cap caps (fa_as (pgt_root m))"
        "has_cap caps (target_as m)"
      using assms(3,4) by (auto simp: readable_def)
    have "x86_64_fields (pgt_pf m)"
      by (rule assms(6))
    have "\<exists>status st' ctx'. walk_loop (lib_readers C) st1 c = Some (status, st', ctx')
        \<and> (ctx_ok mem mo ctx' \<and> ctx_cb ctx' = ctx_cb ctx \<and> host_order ctx' = host_order ctx)
        \<and> walk_result m (mmu_x86_64 (mem_value (host_order ctx) mem mo 8) (pte_mask m) (target_as m)
              (Suc l) (pgt_root m) va) status st'"
      by (rule walk_loop_mmu [OF lib_serves [OF caps(1) assms(2)] assms(6,5) caps(3) _ d caps(2) assms(7)])
         (use assms(1) in \<open>simp add: c_def clear_error_def ctx_ok_def\<close>)
    then show ?thesis
      using True w l pf by (auto simp: st_def [symmetric])
  qed
qed

text \<open>A memory in which every entry is present and points to the page at \<open>0x1000\<close>.\<close>

definition flat_bytes :: "u8 list" where
  "flat_bytes = [3, 0x10, 0, 0, 0, 0, 0, 0]"

definition flat_mem :: "fulladdr \<Rightarrow> u8" where
  "flat_mem a = flat_bytes ! (unat (fa_addr a) mod 8)"

definition flat_get_page :: "privp \<Rightarrow> buffer \<Rightarrow> status \<times> buffer \<times> msg list" where
  "flat_get_page p b = (ADDRXLAT_OK,
     b\<lparr>buf_addr := (buf_addr b)\<lparr>fa_addr := push_bit 3 (drop_bit 3 (fa_addr (buf_addr b)))\<rparr>,
       buf_ptr := Some flat_bytes, buf_size := 8, buf_order := ADDRXLAT_LITTLE_ENDIAN, buf_put := True\<rparr>, [])"

definition flat_ctx :: xctx where
  "flat_ctx = (the (ctx_new ADDRXLAT_LITTLE_ENDIAN True))
     \<lparr>ctx_cb := [next_cb\<lparr>get_page := USER_CB flat_get_page, read_caps := USER_CB (\<lambda>p. 3)\<rparr>, def_cb]\<rparr>"

lemma page_offset: "a - push_bit 3 (drop_bit 3 a) = take_bit 3 (a :: u64)"
  by (metis add_diff_cancel_left' bits_ident)

lemma page_mod:
  assumes "k < 8"
  shows "unat (push_bit 3 (x :: u64) + of_nat k) mod 8 = k"
proof -
  have "unat (push_bit 3 x + of_nat k) = (unat (push_bit 3 x) + k) mod 2 ^ 64"
    using assms by (simp add: unat_word_ariths unat_of_nat)
  moreover have "8 dvd unat (push_bit 3 x)"
    by (simp add: dvd_8_iff take_bit_push_bit)
  ultimately show ?thesis
    using assms by (simp add: mod_mod_cancel) (metis mod_add_left_eq dvd_eq_mod_eq_0 add_0 mod_less)
qed

lemma flat_page:
  "page_of flat_mem example_order (fst (snd (flat_get_page p b)))"
  "slot_hit (buf_addr b) (fst (snd (flat_get_page p b)))"
proof -
  let ?b = "fst (snd (flat_get_page p b))"
  have "length flat_bytes = 8"
    by (simp add: flat_bytes_def)
  then show "page_of flat_mem example_order ?b"
    by (auto simp: page_of_def flat_get_page_def buf_at_def flat_mem_def page_mod example_order_def
        dvd_8_iff take_bit_push_bit)
  have "take_bit 3 a < (8 :: u64)" for a :: u64
    using take_bit_nat_less_exp [of 3 "unat a"]
    by (simp only: word_less_nat_alt unsigned_take_bit_eq) simp
  then show "slot_hit (buf_addr b) ?b"
    by (simp add: slot_hit_def flat_get_page_def page_offset)
qed

lemma flat_ctx_ok: "ctx_ok flat_mem example_order flat_ctx" "all_readable flat_ctx"
    "a \<in> {ADDRXLAT_KPHYSADDR, ADDRXLAT_MACHPHYSADDR} \<Longrightarrow> readable flat_ctx a"
proof -
  have "page_source (call_get_page (ctx_cb flat_ctx)) flat_mem example_order"
    using flat_page by (auto simp: page_source_def flat_ctx_def)
       (metis prod.collapse)
  then show "ctx_ok flat_mem example_order flat_ctx"
    by (simp add: ctx_ok_def flat_ctx_def ctx_new_def cache_ok_init)
  show "all_readable flat_ctx"
    by (auto simp: all_readable_def flat_ctx_def flat_get_page_def)
  show "a \<in> {ADDRXLAT_KPHYSADDR, ADDRXLAT_MACHPHYSADDR} \<Longrightarrow> readable flat_ctx a"
    by (auto simp: readable_def flat_ctx_def has_cap_def ADDRXLAT_CAPS_def)
qed

lemma flat_value:
  assumes "8 dvd unat (fa_addr a)"
  shows "mem_value (host_order flat_ctx) flat_mem example_order 8 a = 0x1003"
proof -
  have "push_bit 3 (drop_bit 3 (fa_addr a)) = fa_addr a"
    using assms bits_ident [of 3 "fa_addr a"] by (simp add: dvd_8_iff)
  then have "flat_mem (a\<lparr>fa_addr := fa_addr a + of_nat k\<rparr>) = flat_bytes ! k" if "k < 8" for k
    using page_mod [OF that, of "drop_bit 3 (fa_addr a)"] by (simp add: flat_mem_def)
  then have "map (\<lambda>k. flat_mem (a\<lparr>fa_addr := fa_addr a + of_nat k\<rparr>)) [0..<8] = map ((!) flat_bytes) [0..<8]"
    by simp
  also have "\<dots> = flat_bytes"
    by (simp add: flat_bytes_def upt_rec)
  finally show ?thesis
    by (simp add: mem_value_def example_order_def load_def) (simp add: flat_bytes_def load_le_def)
qed

lemma x86_64_walk_is_mmu_witness:
  "\<exists>status st ctx. walk (lib_readers no_customs) (init_step None (step_meth pgt_example) 0x123) flat_ctx
      = Some (status, st, ctx) \<and> status = ADDRXLAT_OK \<and> fa_addr (base st) = 0x1123"
proof -
  let ?m = "step_meth pgt_example"
  let ?mem = "mem_value (host_order flat_ctx) flat_mem example_order 8"
  have f: "x86_64_fields (pgt_pf ?m)"
    by (auto simp: x86_64_fields_def pgt_example_def x86_64_pf4_def less_Suc_eq numeral_eq_Suc)
  have c: "signed_take_bit (48 - 1) 0x123 = (0x123 :: u64)"
    by (rule sign_extended_iff [THEN iffD1]) simp_all
  have entry: "8 dvd unat (fa_addr table) \<Longrightarrow> ?mem (table\<lparr>fa_addr := fa_addr table + 8 * x\<rparr>) = 0x1003" for table x
    using dvd_8_entry by (intro flat_value) simp
  have mmu: "mmu_x86_64 ?mem 0 t (Suc n) table 0x123 = Some 0x1123" if "8 dvd unat (fa_addr table)" for t n table
    using that
  proof (induction n arbitrary: table)
    case 0
    then show ?case
      using entry [of table] by (simp add: Let_def)
  next
    case (Suc n)
    then show ?case
      using entry [of table] Suc.IH [of "\<lparr>fa_addr = 0x1000, fa_as = t\<rparr>"]
      by (subst mmu_x86_64.simps) (simp add: Let_def)
  qed
  have aligned: "8 dvd unat (fa_addr (pgt_root ?m))"
    by (simp add: pgt_example_def)
  have rd: "readable flat_ctx (fa_as (pgt_root ?m))" "readable flat_ctx (target_as ?m)"
      "kind ?m = ADDRXLAT_PGT" "fa_as (pgt_root ?m) \<noteq> ADDRXLAT_NOADDR"
    using flat_ctx_ok(3) by (simp_all add: pgt_example_def)
  obtain status st ctx where w: "walk (lib_readers no_customs) (init_step None ?m 0x123) flat_ctx = Some (status, st, ctx)"
      "if signed_take_bit (11 + 9 * (nfields (pgt_pf ?m) - 1)) 0x123 = (0x123 :: u64)
       then walk_result ?m (mmu_x86_64 ?mem (pte_mask ?m) (target_as ?m) (nfields (pgt_pf ?m) - 1) (pgt_root ?m) 0x123) status st
       else status = ADDRXLAT_ERR_INVALID"
    using x86_64_walk_is_mmu [where C = no_customs and sys = None and va = "0x123",
        OF flat_ctx_ok(1,2) rd(1-3) f aligned rd(4)] by blast
  have n: "(11 + 9 * Suc 3 :: nat) = 48 - 1" "nfields (pgt_pf ?m) - 1 = Suc 3" "pte_mask ?m = 0"
    by (simp_all add: pgt_example_def x86_64_pf4_def)
  have "walk_result ?m (Some 0x1123) status st"
    using w(2) mmu [OF aligned, of "target_as ?m" 3] unfolding n(2,3) by (simp only: n(1) c if_True refl)
  then show ?thesis
    using w(1) by (auto simp: walk_result_def)
qed

end
