(* ===== verification/Layout_Facts.thy ===== *)
theory Layout_Facts
  imports Sys_Os_Init X86_64_Walk
begin

section \<open>What the layouts of a translation system mean\<close>

text \<open>
  Facts about the steps of an initialisation: what a successful step has done to the maps and the
  methods. Then the meaning of a layout table as a function from addresses to methods, and what
  follows for translations: the direct mapping is inverted by the reverse mapping, and the map of
  the hardware covers the canonical addresses.
\<close>

subsection \<open>Successful steps\<close>

named_theorems oi_run \<open>when a step of an initialisation succeeds\<close>

lemma oi_bind_ok [oi_run]:
  "oi_bind f g c = Some (Inr v, c') \<longleftrightarrow> (\<exists>u c1. f c = Some (Inr u, c1) \<and> g u c1 = Some (Inr v, c'))"
proof (cases "f c")
  case (Some r)
  then show ?thesis
    by (cases r; cases "fst r") (auto simp: oi_bind_def)
qed (simp add: oi_bind_def)

lemma oi_steps_ok [oi_run]:
  "oi_steps [] c = Some (Inr u, c') \<longleftrightarrow> c' = c"
  "oi_steps (f # fs) c = Some (Inr u, c')
     \<longleftrightarrow> (\<exists>c1. f c = Some (Inr (), c1) \<and> oi_steps fs c1 = Some (Inr (), c'))"
  by (auto simp: oi_ok_def oi_bind_ok)

lemma oi_simple_ok [oi_run]:
  "oi_ok v c = Some (Inr u, c') \<longleftrightarrow> u = v \<and> c' = c"
  "oi_upd f c = Some (Inr (), c') \<longleftrightarrow> c' = f c"
  "oi_get g c = Some (Inr w, c') \<longleftrightarrow> w = g c \<and> c' = c"
  "oi_fail status c \<noteq> Some (Inr u, c')"
  "oi_error status fmt args c \<noteq> Some (Inr u, c')"
  by (auto simp: oi_ok_def oi_upd_def oi_get_def oi_fail_def oi_error_def split: prod.split)

lemma oi_or_error_ok [oi_run]:
  "oi_or_error f fmt args c = Some (Inr v, c') \<longleftrightarrow> f c = Some (Inr v, c')"
proof (cases "f c")
  case (Some r)
  then show ?thesis
    by (cases r; cases "fst r") (auto simp: oi_or_error_def oi_try_def oi_simple_ok)
qed (simp add: oi_or_error_def oi_try_def)

subsection \<open>Maps and methods\<close>

definition lookup :: "os_init \<Rightarrow> sys_map \<Rightarrow> addr_t \<Rightarrow> sys_meth" where
  "lookup c i a = (case oi_map c i of None \<Rightarrow> ADDRXLAT_SYS_METH_NONE | Some m \<Rightarrow> map_search m a)"

definition maps_wf :: "os_init \<Rightarrow> bool" where
  "maps_wf c \<longleftrightarrow> (\<forall>i m. oi_map c i = Some m \<longrightarrow> map_wf m)"

lemma oi_map_simps [simp]:
  "oi_map (put_map i m c) j = (if j = i then m else oi_map c j)"
  "oi_map (put_meth k f c) = oi_map c"
  "oi_meth (put_map i m c) = oi_meth c"
  "oi_meth (put_meth k f c) k' = (if k' = k then f (oi_meth c k) else oi_meth c k')"
  "oi_map (c\<lparr>oi_alloc := bs\<rparr>) = oi_map c" "oi_meth (c\<lparr>oi_alloc := bs\<rparr>) = oi_meth c"
  "oi_map (c\<lparr>oi_ctx := x\<rparr>) = oi_map c" "oi_meth (c\<lparr>oi_ctx := x\<rparr>) = oi_meth c"
  "oi_popt (put_map i m c) = oi_popt c" "oi_popt (put_meth k f c) = oi_popt c"
  by (simp_all add: oi_map_def oi_meth_def put_map_def put_meth_def fun_eq_iff)

lemma lookup_meth [simp]: "lookup (put_meth k f c) = lookup c"
  by (simp add: lookup_def fun_eq_iff)

lemma maps_wf_meth [simp]: "maps_wf (put_meth k f c) = maps_wf c"
  by (simp add: maps_wf_def)

lemma oi_allocate_ok:
  "oi_allocate c = Some (Inr b, c') \<Longrightarrow> oi_map c' = oi_map c \<and> oi_meth c' = oi_meth c \<and> oi_popt c' = oi_popt c"
  by (auto simp: oi_allocate_def fun_eq_iff split: list.splits)

text \<open>Two states that differ at most in map \<open>i\<close>.\<close>

definition same_but_map :: "sys_map \<Rightarrow> os_init \<Rightarrow> os_init \<Rightarrow> bool" where
  "same_but_map i c c' \<longleftrightarrow> oi_meth c' = oi_meth c \<and> oi_popt c' = oi_popt c
     \<and> (\<forall>j. j \<noteq> i \<longrightarrow> oi_map c' j = oi_map c j)"

lemma oi_map_set_ok:
  assumes "oi_map_set i addr rng c = Some (Inr (), c')" and "maps_wf c"
    and "unat addr + unat (endoff rng) < 2 ^ 64"
  shows "maps_wf c' \<and> same_but_map i c c'
    \<and> lookup c' i a = (if addr \<le> a \<and> a \<le> addr + endoff rng then meth rng else lookup c i a)"
proof -
  obtain grown c1 where a: "oi_allocate c = Some (Inr grown, c1)"
      "(case oi_map c1 i of None \<Rightarrow> None
        | Some m \<Rightarrow> let (status, m) = map_set grown m addr rng
            in Some (if status = ADDRXLAT_OK then Inr () else Inl status, put_map i (Some m) c1)) = Some (Inr (), c')"
    using assms(1) by (auto simp: oi_map_set_def oi_bind_ok)
  then obtain m where m: "oi_map c1 i = Some m"
    by (cases "oi_map c1 i") auto
  obtain status m' where "map_set grown m addr rng = (status, m')"
    by (cases "map_set grown m addr rng")
  then have s: "oi_allocate c = Some (Inr grown, c1)" "oi_map c1 i = Some m"
      "map_set grown m addr rng = (ADDRXLAT_OK, m')" "c' = put_map i (Some m') c1"
    using a m by (auto split: if_splits)
  note same = oi_allocate_ok [OF s(1)]
  have "map_wf m"
    using s(2) assms(2) same by (auto simp: maps_wf_def)
  note upd = xm.update_ok [OF this assms(3) s(3)]
  then show ?thesis
    using s same assms(2) by (auto simp: maps_wf_def same_but_map_def lookup_def)
qed

lemma lookup_same:
  assumes "same_but_map i c c'" and "lookup c' i = lookup c i"
  shows "lookup c' = lookup c"
proof
  fix j
  show "lookup c' j = lookup c j"
    using assms by (cases "j = i") (simp_all add: same_but_map_def lookup_def fun_eq_iff)
qed

lemma oi_new_map_ok:
  assumes "oi_new_map i fmt c = Some (Inr (), c')" and "maps_wf c" and "oi_map c i = None"
  shows "maps_wf c' \<and> same_but_map i c c' \<and> lookup c' i = lookup c i \<and> oi_map c' i \<noteq> None"
proof -
  obtain b c1 m where s: "oi_allocate c = Some (Inr b, c1)" "map_new b = Some m" "c' = put_map i (Some m) c1"
    using assms(1) by (auto simp: oi_new_map_def oi_bind_ok oi_simple_ok split: option.splits)
  have "ranges m = []"
    using s(2) by (auto simp: map_new_def split: if_splits)
  then show ?thesis
    using s oi_allocate_ok [OF s(1)] assms(2,3)
    by (auto simp: maps_wf_def map_wf_def same_but_map_def lookup_def map_search_def fun_eq_iff)
qed

subsection \<open>Layouts as functions\<close>

fun layout_meth :: "sys_region list \<Rightarrow> (addr_t \<Rightarrow> sys_meth) \<Rightarrow> addr_t \<Rightarrow> sys_meth" where
  "layout_meth [] old a = old a"
| "layout_meth (r # rs) old a =
     layout_meth rs (\<lambda>a. if reg_first r \<le> a \<and> a \<le> reg_last r then reg_meth r else old a) a"

definition regions_ok :: "sys_region list \<Rightarrow> bool" where
  "regions_ok rs \<longleftrightarrow> (\<forall>r\<in>set rs. reg_first r \<le> reg_last r)"

lemma region_range:
  fixes a b :: u64
  assumes "a \<le> b"
  shows "unat a + unat (b - a) < 2 ^ 64" "a + (b - a) = b"
  using assms unat_u64_less [of b] by (simp_all add: unat_sub word_le_nat_alt)

text \<open>What the action of a region does to the methods.\<close>

definition set_linear :: "sys_meth \<Rightarrow> addrspace \<Rightarrow> addr_t \<Rightarrow> (sys_meth \<Rightarrow> xmeth) \<Rightarrow> sys_meth \<Rightarrow> xmeth" where
  "set_linear k t off ms = ms(k := linear_meth t off (ms k))"

definition act_meths :: "sys_region \<Rightarrow> (sys_meth \<Rightarrow> xmeth) \<Rightarrow> sys_meth \<Rightarrow> xmeth" where
  "act_meths r ms =
     (let rdirect = (\<lambda>k ms. set_linear k ADDRXLAT_KVADDR (- lin_off (ms ADDRXLAT_SYS_METH_DIRECT)) ms)
      in case reg_act r of
           SYS_ACT_NONE \<Rightarrow> ms
         | SYS_ACT_DIRECT \<Rightarrow>
             rdirect ADDRXLAT_SYS_METH_RDIRECT (set_linear (reg_meth r) ADDRXLAT_KPHYSADDR (- reg_first r) ms)
         | SYS_ACT_RDIRECT \<Rightarrow> rdirect (reg_meth r) ms
         | SYS_ACT_IDENT_KPHYS \<Rightarrow> set_linear (reg_meth r) ADDRXLAT_KPHYSADDR 0 ms
         | SYS_ACT_IDENT_MACHPHYS \<Rightarrow> set_linear (reg_meth r) ADDRXLAT_MACHPHYSADDR 0 ms)"

lemma oi_meth_put: "oi_meth (put_meth k (linear_meth t off) c) = set_linear k t off (oi_meth c)"
  by (auto simp: set_linear_def)

text \<open>The function for \<open>SYS_ACT_DIRECT\<close> leaves some maps alone and sets the methods.\<close>

definition direct_ok :: "sys_map set \<Rightarrow> (sys_region \<Rightarrow> unit oi) \<Rightarrow> sys_region list \<Rightarrow> bool" where
  "direct_ok J direct rs \<longleftrightarrow>
     (\<forall>r c c'. r \<in> set rs \<and> reg_act r = SYS_ACT_DIRECT \<and> maps_wf c \<and> direct r c = Some (Inr (), c') \<longrightarrow>
        maps_wf c' \<and> (\<forall>j\<in>J. oi_map c' j = oi_map c j) \<and> oi_meth c' = act_meths r (oi_meth c))"

lemma layout_loop_ok:
  assumes "layout_loop direct i rs c = Some (Inr (), c')" and "maps_wf c" and "regions_ok rs"
    and "direct_ok J direct rs" and "i \<in> J"
  shows "maps_wf c' \<and> lookup c' i a = layout_meth rs (lookup c i) a
    \<and> (\<forall>j\<in>J. j \<noteq> i \<longrightarrow> oi_map c' j = oi_map c j) \<and> oi_meth c' = fold act_meths rs (oi_meth c)"
  using assms
proof (induction rs arbitrary: c a)
  case Nil
  then show ?case
    by (simp add: oi_run)
next
  case (Cons r rs)
  obtain c1 c2 where s:
      "(case reg_act r of SYS_ACT_NONE \<Rightarrow> oi_ok () | SYS_ACT_DIRECT \<Rightarrow> direct r
         | SYS_ACT_RDIRECT \<Rightarrow> oi_upd (act_rdirect r) | SYS_ACT_IDENT_KPHYS \<Rightarrow> oi_upd (act_ident_kphys r)
         | SYS_ACT_IDENT_MACHPHYS \<Rightarrow> oi_upd (act_ident_machphys r)) c = Some (Inr (), c1)"
      "oi_map_set i (reg_first r) \<lparr>endoff = reg_last r - reg_first r, meth = reg_meth r\<rparr> c1 = Some (Inr (), c2)"
      "layout_loop direct i rs c2 = Some (Inr (), c')"
    using Cons.prems(1) by (auto simp: oi_run)
  have c1: "maps_wf c1" "\<forall>j\<in>J. oi_map c1 j = oi_map c j" "oi_meth c1 = act_meths r (oi_meth c)"
    using s(1) Cons.prems(2,4)
    by (auto simp: oi_run direct_ok_def act_rdirect_def act_ident_kphys_def act_ident_machphys_def
        act_meths_def oi_meth_put Let_def split: sys_action.splits)
  have le: "reg_first r \<le> reg_last r"
    using Cons.prems(3) by (simp add: regions_ok_def)
  have c2: "maps_wf c2" "same_but_map i c1 c2"
    "\<And>a. lookup c2 i a = (if reg_first r \<le> a \<and> a \<le> reg_last r then reg_meth r else lookup c i a)"
    using oi_map_set_ok [OF s(2) c1(1)] region_range [OF le] c1(2) Cons.prems(5) by (simp_all add: lookup_def)
  have "regions_ok rs" "direct_ok J direct rs"
    using Cons.prems(3,4) by (auto simp: regions_ok_def direct_ok_def)
  then show ?case
    using Cons.IH [OF s(3) c2(1) _ _ Cons.prems(5)] c1(2,3) c2(2) by (simp add: c2(3) [abs_def] same_but_map_def)
qed

lemma set_layout_with_ok:
  assumes "set_layout_with direct i rs c = Some (Inr (), c')" and "maps_wf c" and "regions_ok rs"
    and "direct_ok J direct rs" and "i \<in> J"
  shows "maps_wf c' \<and> lookup c' i a = layout_meth rs (lookup c i) a
    \<and> (\<forall>j\<in>J. j \<noteq> i \<longrightarrow> oi_map c' j = oi_map c j) \<and> oi_meth c' = fold act_meths rs (oi_meth c)"
proof -
  obtain c1 where s:
      "(if oi_map c i = None then oi_new_map i ''Cannot allocate translation map'' else oi_ok ()) c = Some (Inr (), c1)"
      "layout_loop direct i rs c1 = Some (Inr (), c')"
    using assms(1) by (auto simp: set_layout_with_def oi_run)
  have "maps_wf c1 \<and> lookup c1 i = lookup c i \<and> same_but_map i c c1"
    using s(1) assms(2) oi_new_map_ok by (auto simp: oi_run same_but_map_def split: if_splits)
  then show ?thesis
    using layout_loop_ok [OF s(2) _ assms(3,4,5)] by (simp add: same_but_map_def)
qed

lemma act_direct_ok:
  assumes "act_direct r c = Some (Inr (), c')" and "maps_wf c" and "reg_act r = SYS_ACT_DIRECT"
  shows "maps_wf c' \<and> lookup c' ADDRXLAT_SYS_MAP_KPHYS_DIRECT a =
      (if a \<le> reg_last r - reg_first r then ADDRXLAT_SYS_METH_RDIRECT
       else lookup c ADDRXLAT_SYS_MAP_KPHYS_DIRECT a)
    \<and> (\<forall>j. j \<noteq> ADDRXLAT_SYS_MAP_KPHYS_DIRECT \<longrightarrow> oi_map c' j = oi_map c j)
    \<and> oi_meth c' = act_meths r (oi_meth c)"
proof -
  define rs where "rs = [\<lparr>reg_first = 0, reg_last = reg_last r - reg_first r,
    reg_meth = ADDRXLAT_SYS_METH_RDIRECT, reg_act = SYS_ACT_RDIRECT\<rparr>]"
  define c1 where "c1 = put_meth (reg_meth r) (linear_meth ADDRXLAT_KPHYSADDR (- reg_first r)) c"
  have "set_layout_with (\<lambda>r c. None) ADDRXLAT_SYS_MAP_KPHYS_DIRECT rs c1 = Some (Inr (), c')"
    using assms(1) by (simp add: act_direct_def oi_run rs_def c1_def)
  then have "maps_wf c' \<and> lookup c' ADDRXLAT_SYS_MAP_KPHYS_DIRECT a
      = layout_meth rs (lookup c1 ADDRXLAT_SYS_MAP_KPHYS_DIRECT) a
    \<and> (\<forall>j\<in>UNIV. j \<noteq> ADDRXLAT_SYS_MAP_KPHYS_DIRECT \<longrightarrow> oi_map c' j = oi_map c1 j)
    \<and> oi_meth c' = fold act_meths rs (oi_meth c1)"
    by (rule set_layout_with_ok) (simp_all add: assms(2) rs_def c1_def regions_ok_def direct_ok_def)
  then show ?thesis
    using assms(3) by (simp add: rs_def c1_def act_meths_def Let_def oi_meth_put)
qed

lemma act_direct_spares:
  assumes "ADDRXLAT_SYS_MAP_KPHYS_DIRECT \<notin> J"
  shows "direct_ok J act_direct rs"
  unfolding direct_ok_def using act_direct_ok assms by (intro allI impI) metis

lemma no_direct_spares: "\<forall>r\<in>set rs. reg_act r \<noteq> SYS_ACT_DIRECT \<Longrightarrow> direct_ok J act_direct rs"
  by (auto simp: direct_ok_def)

lemma layout_table:
  assumes "sys_set_layout i rs c = Some (Inr (), c')" and "maps_wf c" and "regions_ok rs"
    and "i \<noteq> ADDRXLAT_SYS_MAP_KPHYS_DIRECT \<or> (\<forall>r\<in>set rs. reg_act r \<noteq> SYS_ACT_DIRECT)"
  shows "maps_wf c' \<and> lookup c' i a = layout_meth rs (lookup c i) a
    \<and> oi_meth c' = fold act_meths rs (oi_meth c)"
proof -
  have "direct_ok {i} act_direct rs"
    using assms(4) act_direct_spares [of "{i}" rs] no_direct_spares [of rs "{i}"] by auto
  then show ?thesis
    using set_layout_with_ok [OF assms(1) [unfolded sys_set_layout_def] assms(2,3)] by blast
qed


text \<open>An initialisation of a new system.\<close>

definition fresh_init :: os_init where
  "fresh_init = \<lparr>oi_sys = the (sys_new True), oi_ctx = example_ctx, oi_popt = no_opts,
     oi_os = OS_LINUX, oi_alloc = []\<rparr>"

definition direct_region :: "addr_t \<Rightarrow> addr_t \<Rightarrow> sys_region" where
  "direct_region first lastaddr = \<lparr>reg_first = first, reg_last = lastaddr,
     reg_meth = ADDRXLAT_SYS_METH_DIRECT, reg_act = SYS_ACT_DIRECT\<rparr>"

lemma fresh_maps: "maps_wf fresh_init" "lookup fresh_init i a = ADDRXLAT_SYS_METH_NONE"
  by (simp_all add: maps_wf_def lookup_def oi_map_def fresh_init_def sys_new_def)


subsection \<open>The direct mapping and its inverse\<close>

lemma direct_layout:
  assumes "sys_set_layout ADDRXLAT_SYS_MAP_KV_PHYS [direct_region first lastaddr] c = Some (Inr (), c')"
    and "maps_wf c" and "first \<le> lastaddr"
  shows "maps_wf c'"
    and "lookup c' ADDRXLAT_SYS_MAP_KV_PHYS a =
      (if first \<le> a \<and> a \<le> lastaddr then ADDRXLAT_SYS_METH_DIRECT else lookup c ADDRXLAT_SYS_MAP_KV_PHYS a)"
    and "lookup c' ADDRXLAT_SYS_MAP_KPHYS_DIRECT a =
      (if a \<le> lastaddr - first then ADDRXLAT_SYS_METH_RDIRECT else lookup c ADDRXLAT_SYS_MAP_KPHYS_DIRECT a)"
    and "oi_meth c' ADDRXLAT_SYS_METH_DIRECT
      = linear_meth ADDRXLAT_KPHYSADDR (- first) (oi_meth c ADDRXLAT_SYS_METH_DIRECT)"
    and "oi_meth c' ADDRXLAT_SYS_METH_RDIRECT
      = linear_meth ADDRXLAT_KVADDR first (oi_meth c ADDRXLAT_SYS_METH_RDIRECT)"
proof -
  let ?r = "direct_region first lastaddr"
  have r: "reg_act ?r = SYS_ACT_DIRECT" "reg_first ?r = first" "reg_last ?r = lastaddr"
      "reg_meth ?r = ADDRXLAT_SYS_METH_DIRECT"
    by (simp_all add: direct_region_def)
  obtain c1 c2 where s:
      "(if oi_map c ADDRXLAT_SYS_MAP_KV_PHYS = None
        then oi_new_map ADDRXLAT_SYS_MAP_KV_PHYS ''Cannot allocate translation map'' else oi_ok ()) c = Some (Inr (), c1)"
      "act_direct ?r c1 = Some (Inr (), c2)"
      "oi_map_set ADDRXLAT_SYS_MAP_KV_PHYS first \<lparr>endoff = lastaddr - first, meth = ADDRXLAT_SYS_METH_DIRECT\<rparr> c2
        = Some (Inr (), c')"
    using assms(1) by (auto simp: sys_set_layout_def set_layout_with_def oi_run r)
  have c1: "maps_wf c1 \<and> lookup c1 = lookup c \<and> oi_meth c1 = oi_meth c"
  proof (cases "oi_map c ADDRXLAT_SYS_MAP_KV_PHYS = None")
    case True
    then have "oi_new_map ADDRXLAT_SYS_MAP_KV_PHYS ''Cannot allocate translation map'' c = Some (Inr (), c1)"
      using s(1) by simp
    note n = oi_new_map_ok [OF this assms(2) True]
    then show ?thesis
      using lookup_same [of ADDRXLAT_SYS_MAP_KV_PHYS c c1] by (simp add: same_but_map_def)
  next
    case False
    then have "oi_ok () c = Some (Inr (), c1)"
      using s(1) unfolding if_not_P [OF False] by blast
    then show ?thesis
      using assms(2) by (simp add: oi_run)
  qed
  note d = act_direct_ok [OF s(2) _ r(1), of a]
  have "unat first + unat (endoff \<lparr>endoff = lastaddr - first, meth = ADDRXLAT_SYS_METH_DIRECT\<rparr>) < 2 ^ 64"
    using region_range(1) [OF assms(3)] by simp
  note m = oi_map_set_ok [OF s(3) _ this, of a]
  have meths: "oi_meth c' = act_meths ?r (oi_meth c)"
    using d m c1 by (simp add: same_but_map_def)
  show "maps_wf c'"
    using d m c1 by simp
  show "lookup c' ADDRXLAT_SYS_MAP_KV_PHYS a =
      (if first \<le> a \<and> a \<le> lastaddr then ADDRXLAT_SYS_METH_DIRECT else lookup c ADDRXLAT_SYS_MAP_KV_PHYS a)"
    using d m c1 region_range(2) [OF assms(3)] by (simp add: lookup_def fun_eq_iff)
  show "lookup c' ADDRXLAT_SYS_MAP_KPHYS_DIRECT a =
      (if a \<le> lastaddr - first then ADDRXLAT_SYS_METH_RDIRECT else lookup c ADDRXLAT_SYS_MAP_KPHYS_DIRECT a)"
    using d m c1 by (simp add: lookup_def same_but_map_def r)
  show "oi_meth c' ADDRXLAT_SYS_METH_DIRECT
      = linear_meth ADDRXLAT_KPHYSADDR (- first) (oi_meth c ADDRXLAT_SYS_METH_DIRECT)"
    "oi_meth c' ADDRXLAT_SYS_METH_RDIRECT
      = linear_meth ADDRXLAT_KVADDR first (oi_meth c ADDRXLAT_SYS_METH_RDIRECT)"
    by (simp_all add: meths act_meths_def r set_linear_def linear_meth_def Let_def)
qed

text \<open>Translation through a linear method that a map finds first.\<close>

lemma lookup_found:
  "lookup c i a = k \<Longrightarrow> k \<noteq> ADDRXLAT_SYS_METH_NONE \<Longrightarrow> \<exists>m. sys_maps (oi_sys c) i = Some m \<and> map_search m a = k"
  by (auto simp: lookup_def oi_map_def split: option.splits)

lemma linear_conv:
  assumes "op_chain (ADDRXLAT_CAPS t) s = Some chain" and "chain_alts chain = (i # alts) # rest"
    and "map_expect_as i = s" and "lookup c i a = k" and "k \<noteq> ADDRXLAT_SYS_METH_NONE"
    and "oi_meth c k = linear_meth t off m" and "s \<noteq> t" and "t \<noteq> ADDRXLAT_NOADDR"
    and "inflight ctx = []"
  shows "\<exists>ctx'. fulladdr_conv R \<lparr>fa_addr = a, fa_as = s\<rparr> t (Some (oi_sys c)) ctx
    = Some (ADDRXLAT_OK, \<lparr>fa_addr = a + off, fa_as = t\<rparr>, ctx')"
proof -
  have cap: "has_cap (ADDRXLAT_CAPS t) t"
    using assms(8) by (cases t) (simp_all add: has_cap_def ADDRXLAT_CAPS_def)
  have nocap: "\<not> has_cap (ADDRXLAT_CAPS t) s"
    using assms(7) has_cap_CAPS by blast
  obtain mp where mp: "sys_maps (oi_sys c) i = Some mp" "map_search mp a = k"
    using lookup_found [OF assms(4,5)] by blast
  have lin: "kind (sys_meths (oi_sys c) k) = ADDRXLAT_LINEAR" "target_as (sys_meths (oi_sys c) k) = t"
      "lin_off (sys_meths (oi_sys c) k) = off"
    using assms(6) by (simp_all add: oi_meth_def linear_meth_def)
  have any: "ADDRXLAT_CAPS t AND (ADDRXLAT_CAPS ADDRXLAT_KVADDR OR ADDRXLAT_CAPS ADDRXLAT_KPHYSADDR
      OR ADDRXLAT_CAPS ADDRXLAT_MACHPHYSADDR) \<noteq> 0"
    using assms(8) by (cases t) (simp_all add: ADDRXLAT_CAPS_def)
  show ?thesis
    using assms(1-3,5,9) cap nocap mp lin any
    by (simp add: fulladdr_conv_def xlat_op_def do_op_def storeaddr_def Let_def clear_error_def)
qed

text \<open>
  C2. The direct mapping is inverted by the reverse mapping. After a layout with a
  \<open>SYS_ACT_DIRECT\<close> region, every virtual address of the region is converted to its offset from the
  start of the region, as a kernel physical address, and this physical address is converted back to
  the same virtual address.
\<close>

theorem directmap_roundtrip:
  assumes "sys_set_layout ADDRXLAT_SYS_MAP_KV_PHYS [direct_region first lastaddr] c = Some (Inr (), c')"
    and "maps_wf c" and "first \<le> v" and "v \<le> lastaddr" and "inflight ctx = []"
  shows "(\<exists>ctx'. fulladdr_conv R \<lparr>fa_addr = v, fa_as = ADDRXLAT_KVADDR\<rparr> ADDRXLAT_KPHYSADDR (Some (oi_sys c')) ctx
      = Some (ADDRXLAT_OK, \<lparr>fa_addr = v - first, fa_as = ADDRXLAT_KPHYSADDR\<rparr>, ctx'))
    \<and> (\<exists>ctx'. fulladdr_conv R \<lparr>fa_addr = v - first, fa_as = ADDRXLAT_KPHYSADDR\<rparr> ADDRXLAT_KVADDR (Some (oi_sys c')) ctx
      = Some (ADDRXLAT_OK, \<lparr>fa_addr = v, fa_as = ADDRXLAT_KVADDR\<rparr>, ctx'))"
proof -
  have le: "first \<le> lastaddr"
    using assms(3,4) by simp
  note l = direct_layout [OF assms(1,2) le]
  have "v - first \<le> lastaddr - first"
    using assms(3,4) le by (simp add: word_le_nat_alt unat_sub)
  then have found: "lookup c' ADDRXLAT_SYS_MAP_KV_PHYS v = ADDRXLAT_SYS_METH_DIRECT"
      "lookup c' ADDRXLAT_SYS_MAP_KPHYS_DIRECT (v - first) = ADDRXLAT_SYS_METH_RDIRECT"
    using assms(3,4) by (simp_all add: l)
  show ?thesis
    using linear_conv [OF _ _ _ found(1) _ l(4) _ _ assms(5), of ADDRXLAT_KVADDR KV2PHYS]
      linear_conv [OF _ _ _ found(2) _ l(5) _ _ assms(5), of ADDRXLAT_KPHYSADDR KPHYS2DIRECT]
    by (simp add: op_chain_def chain_alts_def map_expect_as_def has_cap_def ADDRXLAT_CAPS_def)
qed

lemma directmap_roundtrip_witness:
  "\<exists>c ctx. sys_set_layout ADDRXLAT_SYS_MAP_KV_PHYS [direct_region 0xffff888000000000 0xffff8880ffffffff] fresh_init
       = Some (Inr (), c)
     \<and> fulladdr_conv (lib_readers no_customs) \<lparr>fa_addr = 0x1234, fa_as = ADDRXLAT_KPHYSADDR\<rparr> ADDRXLAT_KVADDR
         (Some (oi_sys c)) example_ctx
       = Some (ADDRXLAT_OK, \<lparr>fa_addr = 0xffff888000001234, fa_as = ADDRXLAT_KVADDR\<rparr>, ctx)"
proof -
  let ?rs = "[direct_region 0xffff888000000000 0xffff8880ffffffff]"
  have "map_option fst (sys_set_layout ADDRXLAT_SYS_MAP_KV_PHYS ?rs fresh_init) = Some (Inr ())"
    by code_simp
  then obtain c where c: "sys_set_layout ADDRXLAT_SYS_MAP_KV_PHYS ?rs fresh_init = Some (Inr (), c)"
    by auto
  show ?thesis
    using directmap_roundtrip [where v = "0xffff888000001234" and R = "lib_readers no_customs" and ctx = example_ctx,
        OF c fresh_maps(1)] c
    by (simp add: example_ctx_def ctx_new_def)
qed

subsection \<open>The hardware map of x86-64\<close>

text \<open>The canonical addresses are the two ends of the address space.\<close>

lemma high_bits_iff:
  fixes x :: u64
  assumes "\<And>k. 64 - n \<le> k \<Longrightarrow> \<not> bit x k"
  shows "drop_bit n a = x \<longleftrightarrow> (\<forall>k. n \<le> k \<and> k < 64 \<longrightarrow> bit a k = bit x (k - n))"
proof
  assume r: "\<forall>k. n \<le> k \<and> k < 64 \<longrightarrow> bit a k = bit x (k - n)"
  show "drop_bit n a = x"
  proof (rule bit_word_eqI)
    fix k
    show "bit (drop_bit n a) k = bit x k"
      using r [rule_format, of "n + k"] assms [of k] bit_imp_le_length [of a "n + k"]
      by (cases "n + k < 64") (auto simp: bit_drop_bit_eq)
  qed
qed (auto simp: bit_drop_bit_eq)

lemma canonical_ends:
  assumes "n < 64"
  shows "signed_take_bit n a = a \<longleftrightarrow> drop_bit n a = 0 \<or> drop_bit n a = drop_bit n (NOT 0 :: u64)"
proof -
  have "drop_bit n a = 0 \<longleftrightarrow> (\<forall>k. n \<le> k \<and> k < 64 \<longrightarrow> \<not> bit a k)"
    using high_bits_iff [of n 0 a] by simp
  moreover have "drop_bit n a = drop_bit n (NOT 0) \<longleftrightarrow> (\<forall>k. n \<le> k \<and> k < 64 \<longrightarrow> bit a k)"
    using high_bits_iff [of n "drop_bit n (NOT 0)" a] by (auto simp: bit_simps)
  moreover have "signed_take_bit n a = a \<longleftrightarrow> (\<forall>k. Suc n \<le> k \<and> k < 64 \<longrightarrow> bit a k = bit a n)"
    using sign_extended_bits [of "Suc n" a] assms by simp
  moreover have "(\<forall>k. n \<le> k \<and> k < 64 \<longrightarrow> P k) \<longleftrightarrow> P n \<and> (\<forall>k. Suc n \<le> k \<and> k < 64 \<longrightarrow> P k)" for P
    using assms by (metis Suc_leD not_less_eq_eq order_antisym order_refl)
  ultimately show ?thesis
    by auto
qed

lemma low_end:
  assumes "n < 64"
  shows "a \<le> push_bit n 1 - 1 \<longleftrightarrow> drop_bit n a = (0 :: u64)"
proof -
  have p: "unat (push_bit n 1 :: u64) = 2 ^ n"
    using assms unat_of_nat [of "2 ^ n", where 'a = 64] power_strict_increasing [of n 64 "2 :: nat"]
    by (simp add: push_bit_of_1)
  have "a \<le> push_bit n 1 - 1 \<longleftrightarrow> unat a < 2 ^ n"
  proof -
    have "0 < (2 :: nat) ^ n"
      by simp
    then have "unat a \<le> 2 ^ n - Suc 0 \<longleftrightarrow> unat a < 2 ^ n"
      by linarith
    then show ?thesis
      using p unat_minus_no_underflow [of 1 "push_bit n 1 :: u64"] by (simp add: word_le_nat_alt)
  qed
  also have "\<dots> \<longleftrightarrow> unat (drop_bit n a) = 0"
    using unat_u64_less [of a]
    by (simp only: unsigned_drop_bit_eq) (simp add: drop_bit_eq_div div_eq_0_iff take_bit_nat_eq_self)
  finally show ?thesis
    by (simp add: unat_eq_0)
qed

lemma not_le_not: "NOT a \<le> NOT b \<longleftrightarrow> b \<le> (a :: u64)"
proof -
  have "unat (NOT x) = 2 ^ 64 - 1 - unat x" for x :: u64
  proof -
    have "NOT x = - 1 - x"
      by (metis add.commute diff_conv_add_uminus not_eq_complement)
    then show ?thesis
      using unat_sub [of x "- 1 :: u64"] by (simp add: unsigned_minus_1_eq_mask mask_eq_exp_minus_1)
  qed
  then show ?thesis
    using unat_u64_less [of a] unat_u64_less [of b] by (simp add: word_le_nat_alt) linarith
qed

lemma high_end:
  assumes "n < 64"
  shows "NOT (push_bit n 1) + 1 \<le> a \<longleftrightarrow> drop_bit n a = drop_bit n (NOT 0 :: u64)"
proof -
  have "NOT (push_bit n 1) + 1 = NOT (push_bit n 1 - 1 :: u64)"
    by (simp add: not_eq_complement)
  then have "NOT (push_bit n 1) + 1 \<le> a \<longleftrightarrow> NOT a \<le> push_bit n 1 - 1"
    using not_le_not [of a "NOT (push_bit n 1 - 1)"] by simp
  also have "\<dots> \<longleftrightarrow> drop_bit n (NOT a) = 0"
    by (rule low_end [OF assms])
  also have "\<dots> \<longleftrightarrow> drop_bit n a = drop_bit n (NOT 0)"
    using high_bits_iff [of n "drop_bit n (NOT 0)" a] high_bits_iff [of n 0 "NOT a"]
    by (auto simp: bit_simps)
  finally show ?thesis .
qed

text \<open>
  C25. The hardware map that the initialisation sets up for x86-64 hands exactly the canonical addresses
  to the page tables, with four levels as with five, and no other address to any method.
\<close>

theorem hw_map_is_canonical:
  assumes "sys_set_layout ADDRXLAT_SYS_MAP_HW (layout_canonical bits) c = Some (Inr (), c')"
    and "oi_map c ADDRXLAT_SYS_MAP_HW = None" and "maps_wf c" and "bits \<in> {VIRTADDR_BITS_MAX, VIRTADDR_5L_BITS_MAX}"
  shows "lookup c' ADDRXLAT_SYS_MAP_HW a =
    (if signed_take_bit (bits - 1) a = a then ADDRXLAT_SYS_METH_PGT else ADDRXLAT_SYS_METH_NONE)"
proof -
  have bits: "0 < bits" "bits - 1 < 64"
    using assms(4) by (auto simp: VIRTADDR_BITS_MAX_def VIRTADDR_5L_BITS_MAX_def)
  have "regions_ok (layout_canonical bits)"
    by (simp add: regions_ok_def layout_canonical_def)
  then have "lookup c' ADDRXLAT_SYS_MAP_HW a
      = layout_meth (layout_canonical bits) (lookup c ADDRXLAT_SYS_MAP_HW) a"
    using layout_table [OF assms(1,3)] by (simp add: layout_canonical_def)
  also have "\<dots> = (if a \<le> push_bit (bits - 1) 1 - 1 \<or> NOT (push_bit (bits - 1) 1) + 1 \<le> a
      then ADDRXLAT_SYS_METH_PGT else ADDRXLAT_SYS_METH_NONE)"
    using assms(2) by (auto simp: layout_canonical_def lookup_def NONCANONICAL_END_def NONCANONICAL_START_def)
  also have "\<dots> = (if signed_take_bit (bits - 1) a = a then ADDRXLAT_SYS_METH_PGT else ADDRXLAT_SYS_METH_NONE)"
    unfolding canonical_ends [OF bits(2)] low_end [OF bits(2)] high_end [OF bits(2)] ..
  finally show ?thesis .
qed

lemma hw_map_is_canonical_witness:
  "\<exists>c. sys_set_layout ADDRXLAT_SYS_MAP_HW (layout_canonical 48) fresh_init = Some (Inr (), c)
     \<and> lookup c ADDRXLAT_SYS_MAP_HW 0x0000800000000000 = ADDRXLAT_SYS_METH_NONE
     \<and> lookup c ADDRXLAT_SYS_MAP_HW 0xffff800000000000 = ADDRXLAT_SYS_METH_PGT"
proof -
  have "map_option fst (sys_set_layout ADDRXLAT_SYS_MAP_HW (layout_canonical 48) fresh_init) = Some (Inr ())"
    by code_simp
  then obtain c where c: "sys_set_layout ADDRXLAT_SYS_MAP_HW (layout_canonical 48) fresh_init = Some (Inr (), c)"
    by auto
  have "oi_map fresh_init ADDRXLAT_SYS_MAP_HW = None" "48 \<in> {VIRTADDR_BITS_MAX, VIRTADDR_5L_BITS_MAX}"
    by (simp_all add: oi_map_def fresh_init_def sys_new_def VIRTADDR_BITS_MAX_def)
  note hw = hw_map_is_canonical [OF c this(1) fresh_maps(1) this(2)]
  have "signed_take_bit (48 - 1) (0x0000800000000000 :: u64) \<noteq> 0x0000800000000000"
    "signed_take_bit (48 - 1) (0xffff800000000000 :: u64) = 0xffff800000000000"
    unfolding canonical_ends [of "48 - 1", simplified] by (simp_all add: mask_eq_exp_minus_1)
  then have "lookup c ADDRXLAT_SYS_MAP_HW 0x0000800000000000 = ADDRXLAT_SYS_METH_NONE"
      "lookup c ADDRXLAT_SYS_MAP_HW 0xffff800000000000 = ADDRXLAT_SYS_METH_PGT"
    unfolding hw by (simp_all only: if_True if_False simp_thms)
  then show ?thesis
    using c by blast
qed

subsection \<open>Failures of \<open>addrxlat_sys_os_init\<close>\<close>

text \<open>The architectures that the library knows.\<close>

lemma arch_fn_Some:
  "arch_fn R arch \<noteq> None \<longleftrightarrow> is_ia32_name arch
     \<or> arch \<in> {''x86_64'', ''s390x'', ''ppc64'', ''aarch64'', ''arm'', ''riscv64''}"
  by (auto simp: arch_fn_def)

lemma parse_opts_loop_known:
  "(\<forall>n. OPT_unknown n \<notin> set opts) \<Longrightarrow> \<exists>popt. parse_opts_loop p ctx opts = (Inr popt, ctx)"
proof (induction opts arbitrary: p)
  case (Cons opt opts)
  then obtain q where "parse_opt p opt = Some q"
    by (cases opt) (auto simp: parse_opt_def)
  then show ?case
    using Cons by simp
qed simp

lemma parse_opts_loop_unknown:
  "OPT_unknown n \<in> set opts \<Longrightarrow>
   \<exists>ctx'. parse_opts_loop p ctx opts = (Inl ADDRXLAT_ERR_NOTIMPL, ctx') \<and> same_frame ctx ctx'"
proof (induction opts arbitrary: p)
  case (Cons opt opts)
  show ?case
  proof (cases "parse_opt p opt")
    case None
    then show ?thesis
      by (auto simp: set_error_def same_frame_def)
  next
    case (Some q)
    then have "OPT_unknown n \<in> set opts"
      using Cons.prems by (auto simp: parse_opt_def)
    then show ?thesis
      using Cons.IH Some by simp
  qed
qed simp

text \<open>The last architecture option decides.\<close>

definition last_arch :: "opt list \<Rightarrow> string option" where
  "last_arch opts = fold (\<lambda>opt a. case opt of OPT_arch s \<Rightarrow> Some s | _ \<Rightarrow> a) opts None"

lemma parse_opts_loop_arch:
  "parse_opts_loop p ctx opts = (Inr popt, ctx') \<Longrightarrow>
   po_arch popt = fold (\<lambda>opt a. case opt of OPT_arch s \<Rightarrow> Some s | _ \<Rightarrow> a) opts (po_arch p)"
proof (induction opts arbitrary: p)
  case (Cons opt opts)
  then obtain q where q: "parse_opt p opt = Some q" "parse_opts_loop q ctx opts = (Inr popt, ctx')"
    by (cases "parse_opt p opt") (auto simp: set_error_def)
  then have "po_arch q = (case opt of OPT_arch s \<Rightarrow> Some s | _ \<Rightarrow> po_arch p)"
    by (cases opt) (auto simp: parse_opt_def)
  then show ?case
    using Cons.IH [OF q(2)] by simp
qed simp

text \<open>
  C26. \<open>addrxlat_sys_os_init\<close> that refuses its options does not touch the translation system: an
  unknown option and an unknown architecture are not implemented, a missing architecture lacks
  data, and the system is returned as it was. Which architecture counts is decided by the last
  such option.
\<close>

theorem os_init_refuses:
  assumes "(\<exists>n. OPT_unknown n \<in> set opts) \<or> last_arch opts = None
    \<or> (\<exists>arch. last_arch opts = Some arch \<and> \<not> is_ia32_name arch
         \<and> arch \<notin> {''x86_64'', ''s390x'', ''ppc64'', ''aarch64'', ''arm'', ''riscv64''})"
  shows "\<exists>ctx'. addrxlat_sys_os_init R allocs opts sys ctx =
      Some (if (\<exists>n. OPT_unknown n \<in> set opts) \<or> last_arch opts \<noteq> None
            then ADDRXLAT_ERR_NOTIMPL else ADDRXLAT_ERR_NODATA, sys, ctx')
    \<and> same_frame ctx ctx'"
proof (cases "\<exists>n. OPT_unknown n \<in> set opts")
  case True
  then obtain n where "OPT_unknown n \<in> set opts" ..
  then obtain ctx' where "parse_opts_loop no_opts (clear_error ctx) opts = (Inl ADDRXLAT_ERR_NOTIMPL, ctx')"
      "same_frame (clear_error ctx) ctx'"
    using parse_opts_loop_unknown by blast
  then show ?thesis
    using True same_frame_trans [OF frame_clear_error] by (auto simp: addrxlat_sys_os_init_def parse_opts_def)
next
  case False
  then obtain popt where p: "parse_opts_loop no_opts (clear_error ctx) opts = (Inr popt, clear_error ctx)"
    using parse_opts_loop_known by blast
  then have arch: "po_arch popt = last_arch opts"
    using parse_opts_loop_arch by (auto simp: last_arch_def no_opts_def)
  show ?thesis
  proof (cases "last_arch opts")
    case None
    then show ?thesis
      using False p arch
      by (auto simp: addrxlat_sys_os_init_def parse_opts_def set_error_def same_frame_def clear_error_def)
  next
    case (Some a)
    then have "arch_fn R a = None"
      using assms False arch_fn_Some [of R a] by auto
    then show ?thesis
      using False p arch Some
      by (auto simp: addrxlat_sys_os_init_def parse_opts_def set_error_def same_frame_def clear_error_def)
  qed
qed

lemma os_init_refuses_witness:
  "\<exists>ctx. addrxlat_sys_os_init (lib_readers no_customs) [] [OPT_arch ''x86_64'', OPT_arch ''vax''] example_sys example_ctx
     = Some (ADDRXLAT_ERR_NOTIMPL, example_sys, ctx)"
  using os_init_refuses [of "[OPT_arch ''x86_64'', OPT_arch ''vax'']" "lib_readers no_customs" "[]" example_sys example_ctx]
  by (auto simp: last_arch_def is_ia32_name_def)

end
