(* ===== verification/Arch_Facts.thy ===== *)
theory Arch_Facts
  imports X86_64_Walk Sys_Os_Init
begin

section \<open>Facts about single architectures\<close>

text \<open>
  Where the code for an architecture and the architecture agree, and where they do not: the output
  addresses of the AArch64 descriptors, the fields of its paging forms, and the region tables of
  the z/Architecture.
\<close>

subsection \<open>Output addresses of AArch64 descriptors\<close>

text \<open>
  The output address of a page descriptor according to the architecture: bits 47 to 12 of the
  descriptor without extensions; with large physical addresses and 64K pages bits 47 to 16, and bits
  15 to 12 on top of them; with the second form of large addresses bits 49 to the page size, and bits
  9 and 8 on top.
\<close>

definition arch_output :: "pte_format \<Rightarrow> nat \<Rightarrow> pte_t \<Rightarrow> addr_t" where
  "arch_output fmt page_bits pte =
     push_bit page_bits (drop_bit page_bits
       (case fmt of
          ADDRXLAT_PTE_AARCH64_LPA \<Rightarrow> take_bit 48 pte OR push_bit 48 (take_bit 4 (drop_bit 12 pte))
        | ADDRXLAT_PTE_AARCH64_LPA2 \<Rightarrow> take_bit 50 pte OR push_bit 50 (take_bit 2 (drop_bit 8 pte))
        | _ \<Rightarrow> take_bit 48 pte))"

definition decode_aarch64_format :: "pte_format \<Rightarrow> decoder" where
  "decode_aarch64_format fmt =
     (case fmt of
        ADDRXLAT_PTE_AARCH64_LPA \<Rightarrow> decode_aarch64_lpa
      | ADDRXLAT_PTE_AARCH64_LPA2 \<Rightarrow> decode_aarch64_lpa2
      | _ \<Rightarrow> decode_aarch64)"

text \<open>The bit that a format loses.\<close>

definition lost_bit :: "pte_format \<Rightarrow> addr_t" where
  "lost_bit fmt =
     (case fmt of
        ADDRXLAT_PTE_AARCH64_LPA \<Rightarrow> push_bit 47 1 | ADDRXLAT_PTE_AARCH64_LPA2 \<Rightarrow> push_bit 49 1 | _ \<Rightarrow> 0)"

lemma PTE_VAL_bits: "b < 64 \<Longrightarrow> PTE_VAL x s b = take_bit b (drop_bit s x)"
  using field_mask [of "drop_bit s x" b] by (simp add: PTE_VAL_def PTE_MASK_def)

lemma lost_output:
  assumes "c = b + 1"
  shows "push_bit p (drop_bit p (take_bit b x OR push_bit c y))
   = push_bit p (drop_bit p (take_bit c x OR push_bit c y)) AND NOT (push_bit b (1 :: u64))"
  by (rule bit_word_eqI) (use assms in \<open>auto simp: bit_simps less_Suc_eq bit_0\<close>)

text \<open>
  C30. A page descriptor of the base AArch64 format is decoded as the architecture says. The two
  formats with large physical addresses lose one bit: the code takes 47 and 49 bits of the
  descriptor where the address has 48 and 50, so every page above 128 TiB (or 512 TiB) is
  translated to a wrong address.
\<close>

theorem aarch64_page_output:
  assumes "fmt \<in> {ADDRXLAT_PTE_AARCH64, ADDRXLAT_PTE_AARCH64_LPA, ADDRXLAT_PTE_AARCH64_LPA2}"
    and "take_bit 2 pte = 3" and "remain st = 1"
    and "12 \<le> fieldsz (pgt_pf (step_meth st)) ! 0" and "fieldsz (pgt_pf (step_meth st)) ! 0 < 47"
  shows "\<exists>st'. decode_aarch64_format fmt pte st ctx = Some (ADDRXLAT_OK, st', ctx)
    \<and> base st' = \<lparr>fa_addr = arch_output fmt (fieldsz (pgt_pf (step_meth st)) ! 0) pte AND NOT (lost_bit fmt),
                  fa_as = target_as (step_meth st)\<rparr>"
proof -
  define p where "p = fieldsz (pgt_pf (step_meth st)) ! 0"
  have p: "12 \<le> p" "p < 47" "pf_page_mask (pgt_pf (step_meth st)) = ADDR_MASK p"
    using assms(4,5) by (simp_all add: p_def pf_page_mask_def pf_page_size_def ADDR_MASK_def)
  have "take_bit 1 pte = take_bit 1 (take_bit 2 pte)"
    by simp
  then have valid: "PTE_VAL pte 0 1 \<noteq> 0" "PTE_VAL pte 0 2 \<noteq> 1"
    using assms(2) by (simp_all add: PTE_VAL_bits)
  have out: "decode_aarch64_desc f mx pte st ctx = Some (next_table (ADDR_MASK p) (set_base (f pte) st) ctx)" for f mx
    using valid p(3) by (simp add: decode_aarch64_desc_def set_base_def Let_def)
  have out: "decode_aarch64_desc f mx pte st ctx
      = Some (ADDRXLAT_OK, (set_base (push_bit p (drop_bit p (f pte))) st)\<lparr>elemsz := 1\<rparr>, ctx)" for f mx
    using assms(3) p by (simp add: out next_table_def set_base_def ADDR_MASK_and Let_def)
  have base: "base ((set_base a st)\<lparr>elemsz := 1\<rparr>) = \<lparr>fa_addr = a, fa_as = target_as (step_meth st)\<rparr>" for a
    by (simp add: set_base_def)
  have f: "PTE_VAL pte 0 n = take_bit n pte" if "n < 64" for n
    using that by (simp add: PTE_VAL_bits)
  note defs = decode_aarch64_format_def decode_aarch64_def decode_aarch64_lpa_def decode_aarch64_lpa2_def
    arch_output_def lost_bit_def
  have lpa: "decode_aarch64_format ADDRXLAT_PTE_AARCH64_LPA pte st ctx = Some (ADDRXLAT_OK,
      (set_base (arch_output ADDRXLAT_PTE_AARCH64_LPA p pte AND NOT (lost_bit ADDRXLAT_PTE_AARCH64_LPA)) st)\<lparr>elemsz := 1\<rparr>, ctx)"
    unfolding defs out pte_format.case by (subst lost_output [symmetric]) (simp_all add: PTE_VAL_bits)
  have lpa2: "decode_aarch64_format ADDRXLAT_PTE_AARCH64_LPA2 pte st ctx = Some (ADDRXLAT_OK,
      (set_base (arch_output ADDRXLAT_PTE_AARCH64_LPA2 p pte AND NOT (lost_bit ADDRXLAT_PTE_AARCH64_LPA2)) st)\<lparr>elemsz := 1\<rparr>, ctx)"
    unfolding defs out pte_format.case by (subst lost_output [symmetric]) (simp_all add: PTE_VAL_bits)
  have plain: "decode_aarch64_format ADDRXLAT_PTE_AARCH64 pte st ctx = Some (ADDRXLAT_OK,
      (set_base (arch_output ADDRXLAT_PTE_AARCH64 p pte AND NOT (lost_bit ADDRXLAT_PTE_AARCH64)) st)\<lparr>elemsz := 1\<rparr>, ctx)"
    unfolding defs out pte_format.case by (simp add: ADDR_MASK_and)
  show ?thesis
    using assms(1) lpa lpa2 plain base unfolding p_def [symmetric] by auto
qed

definition lpa_example :: step where
  "lpa_example = pgt_example\<lparr>step_meth := (step_meth pgt_example)\<lparr>pgt_pf :=
     \<lparr>pf_format = ADDRXLAT_PTE_AARCH64_LPA, nfields = 4, fieldsz = [16, 13, 13, 10, 0, 0, 0, 0]\<rparr>\<rparr>, remain := 1\<rparr>"

lemma aarch64_page_output_witness:
  "\<exists>st. decode_aarch64_format ADDRXLAT_PTE_AARCH64_LPA 0x0000800000010003 lpa_example example_ctx
      = Some (ADDRXLAT_OK, st, example_ctx)
    \<and> arch_output ADDRXLAT_PTE_AARCH64_LPA 16 0x0000800000010003 = 0x0000800000010000
    \<and> fa_addr (base st) = 0x10000"
proof -
  have st: "remain lpa_example = 1" "fieldsz (pgt_pf (step_meth lpa_example)) ! 0 = 16"
    by (simp_all add: lpa_example_def)
  have "arch_output ADDRXLAT_PTE_AARCH64_LPA 16 0x0000800000010003 = 0x0000800000010000"
    "arch_output ADDRXLAT_PTE_AARCH64_LPA 16 0x0000800000010003 AND NOT (lost_bit ADDRXLAT_PTE_AARCH64_LPA) = 0x10000"
    by (simp_all add: arch_output_def lost_bit_def)
  then show ?thesis
    using aarch64_page_output [of ADDRXLAT_PTE_AARCH64_LPA "0x0000800000010003" lpa_example example_ctx] st by auto
qed

subsection \<open>Region tables of the z/Architecture\<close>

text \<open>
  C35. The step through a region table of the z/Architecture is not defined. With the paging form of the
  set-up, the index of the next table has 11 bits and the page offset 12, so the shift count that
  should select the part of the next table is negative for every valid entry that is not a huge
  page; only segment and page tables can be walked.
\<close>

theorem s390x_region_undefined:
  assumes "pgt_pf (step_meth st) = s390x_pf n" and "3 \<le> remain st" and "remain st \<le> 6"
    and "RSTE_I pte = 0" and "unat (RSTE_TT pte) = remain st - 2"
    and "remain st = 3 \<longrightarrow> RSTE_FC pte = 0"
  shows "decode_s390x pte st ctx = None"
proof -
  have "fieldsz (s390x_pf n) ! (remain st - 1) = 11"
    using assms(2,3) by (auto simp: s390x_pf_def le_Suc_eq numeral_eq_Suc)
  then have "shift_right (idx st ! (remain st - 1))
      (int (fieldsz (s390x_pf n) ! (remain st - 1)) - int (fieldsz (s390x_pf n) ! 0)) = None"
    by (simp add: shift_right_def s390x_pf_def)
  then show ?thesis
    using assms by (auto simp: decode_s390x_def Let_def)
qed

lemma s390x_region_undefined_witness:
  "decode_s390x 0x1007 (pgt_example\<lparr>step_meth := (step_meth pgt_example)\<lparr>pgt_pf := s390x_pf 4\<rparr>, remain := 3\<rparr>) example_ctx
   = None"
  by (rule s390x_region_undefined [of _ 4])
    (simp_all add: RSTE_I_def RSTE_TT_def RSTE_FC_def TE_VAL_def)

subsection \<open>The fields of an AArch64 paging form\<close>

lemma pgt_fields_split:
  assumes "12 \<le> unat p" and "unat p < 2 ^ 16" and "unat f \<le> unat n" and "unat f < 2 ^ 16"
    and "n \<noteq> 0 \<Longrightarrow> 0 < unat f"
    and "n = 0 \<or> length fs \<le> 7 \<and> unat n - unat f \<le> 9 * (7 - length fs)" and "length fs \<le> 8"
  shows "\<exists>xs. pgt_fields p n f fs = Some (fs @ xs) \<and> sum_list xs = unat n \<and> length (fs @ xs) \<le> 8
    \<and> (if n = 0 then xs = [] else xs \<noteq> [] \<and> hd xs = unat f \<and> (\<forall>x\<in>set (tl xs). 0 < x \<and> x \<le> unat p - 3))"
  using assms
proof (induction p n f fs rule: pgt_fields.induct)
  case (1 p n f fs)
  show ?case
  proof (cases "n = 0")
    case True
    then show ?thesis
      using 1 by (subst pgt_fields.simps) simp
  next
    case False
    define n' where "n' = n - f"
    define f' where "f' = (if p - 3 > n' then n' else p - 3)"
    have p3: "unat (p - 3) = unat p - 3"
      using "1.prems"(1) by (simp add: unat_minus_no_underflow)
    have n': "unat n' = unat n - unat f"
      using "1.prems"(3) by (simp add: n'_def unat_minus_no_underflow)
    have f': "unat f' = min (unat p - 3) (unat n')"
      using p3 by (auto simp: f'_def word_less_nat_alt min_def)
    have len: "length fs \<le> 7" "unat n - unat f \<le> 9 * (7 - length fs)"
      using "1.prems"(6) False by auto
    have "n' = 0 \<or> length fs \<noteq> 7"
      using len n' by (auto simp: unat_eq_0 [symmetric])
    then have inv: "n' = 0 \<or> length (fs @ [unat f mod 2 ^ 16]) \<le> 7
        \<and> unat n' - unat f' \<le> 9 * (7 - length (fs @ [unat f mod 2 ^ 16]))"
      using len n' f' "1.prems"(1) by (auto simp: min_def)
    have small: "unat f' \<le> unat n'" "unat f' < 2 ^ 16"
      using f' "1.prems"(2) by linarith+
    have pos: "n' \<noteq> 0 \<Longrightarrow> 0 < unat f'"
      using f' "1.prems"(1) by (simp add: unat_gt_0)
    have step: "pgt_fields p n f fs = pgt_fields p n' f' (fs @ [unat f mod 2 ^ 16])"
      using False len(1) by (subst pgt_fields.simps) (simp add: n'_def f'_def ADDRXLAT_FIELDS_MAX_def Let_def)
    obtain xs where xs: "pgt_fields p n' f' (fs @ [unat f mod 2 ^ 16]) = Some ((fs @ [unat f mod 2 ^ 16]) @ xs)"
        "sum_list xs = unat n'" "length ((fs @ [unat f mod 2 ^ 16]) @ xs) \<le> 8"
        "if n' = 0 then xs = [] else xs \<noteq> [] \<and> hd xs = unat f' \<and> (\<forall>x\<in>set (tl xs). 0 < x \<and> x \<le> unat p - 3)"
      using "1.IH" [OF False _ refl refl refl, folded n'_def, folded f'_def] "1.prems"(1,2) len(1) inv pos small
      by (auto simp: ADDRXLAT_FIELDS_MAX_def)
    have "0 < x \<and> x \<le> unat p - 3" if "x \<in> set xs" for x
      using xs(4) that pos f' by (cases xs) (auto split: if_splits)
    then show ?thesis
      using step xs False "1.prems"(3,4) n' by (intro exI [of _ "unat f # xs"]) simp
  qed
qed

text \<open>
  C29. The paging forms of AArch64 cover the virtual address exactly. For every page size of at least 4K
  and every number of address bits that \<open>check_virt_bits\<close> lets through, the fields add up to that
  number, there are at most eight of them, the first is the page offset, and every other table index
  has at most as many bits as a page of descriptors has elements. For a page shift of three, which
  the check does not reject, the loop runs past the array of fields.
\<close>

theorem aarch64_fields_exact:
  assumes "12 \<le> unat page_bits" and "unat page_bits < unat num_bits" and "unat num_bits \<le> 52"
  shows "(\<exists>fs. pgt_fields page_bits num_bits page_bits [] = Some fs \<and> sum_list fs = unat num_bits
      \<and> 2 \<le> length fs \<and> length fs \<le> ADDRXLAT_FIELDS_MAX \<and> fs ! 0 = unat page_bits
      \<and> (\<forall>x\<in>set (tl fs). 0 < x \<and> x \<le> unat page_bits - 3))
    \<and> pgt_fields 3 num_bits 3 [] = None"
proof
  have bounds: "12 \<le> unat page_bits" "unat page_bits < 2 ^ 16" "unat page_bits \<le> unat num_bits"
      "unat num_bits - unat page_bits \<le> 9 * 7" "0 < unat page_bits"
    using assms by (linarith | simp)+
  have "num_bits \<noteq> 0"
    using assms(2) by auto
  then obtain fs where fs: "pgt_fields page_bits num_bits page_bits [] = Some fs" "sum_list fs = unat num_bits"
      "length fs \<le> 8" "fs \<noteq> []" "hd fs = unat page_bits" "\<forall>x\<in>set (tl fs). 0 < x \<and> x \<le> unat page_bits - 3"
    using pgt_fields_split [of page_bits page_bits num_bits "[]"] bounds by auto
  then have "2 \<le> length fs"
    using assms(2) by (cases fs; cases "tl fs") auto
  then show "\<exists>fs. pgt_fields page_bits num_bits page_bits [] = Some fs \<and> sum_list fs = unat num_bits
      \<and> 2 \<le> length fs \<and> length fs \<le> ADDRXLAT_FIELDS_MAX \<and> fs ! 0 = unat page_bits
      \<and> (\<forall>x\<in>set (tl fs). 0 < x \<and> x \<le> unat page_bits - 3)"
    using fs by (auto simp: ADDRXLAT_FIELDS_MAX_def hd_conv_nth)
  have zero: "pgt_fields 3 n 0 fs = None" if "n \<noteq> 0" "length fs \<le> 8" for n fs
    using that
  proof (induction "8 - length fs" arbitrary: fs)
    case 0
    then show ?case
      by (subst pgt_fields.simps) (simp add: ADDRXLAT_FIELDS_MAX_def)
  next
    case (Suc k)
    then show ?case
      by (subst pgt_fields.simps) (simp add: ADDRXLAT_FIELDS_MAX_def)
  qed
  have "num_bits - 3 \<noteq> 0"
    using assms(1,2) unat_minus_no_underflow [of 3 num_bits] by (auto simp: unat_eq_0 [symmetric])
  then show "pgt_fields 3 num_bits 3 [] = None"
    using zero [of "num_bits - 3" "[3]"] \<open>num_bits \<noteq> 0\<close>
    by (subst pgt_fields.simps) (simp add: ADDRXLAT_FIELDS_MAX_def)
qed

lemma aarch64_fields_exact_witness:
  "\<exists>fs. pgt_fields 12 48 12 [] = Some fs \<and> sum_list fs = 48"
  using aarch64_fields_exact [of 12 48] by auto

end
