(* ===== verification/Kdump_Types.thy ===== *)
theory Kdump_Types
  imports Prelude
begin

section \<open>Types of libkdumpfile\<close>

text \<open>
  The status codes and the arithmetic of the C type \<open>unsigned\<close>: indices and counters are natural
  numbers below \<open>2 ^ 32\<close>, with the wrap-around of increments, decrements and sums written out.
\<close>

datatype kstatus =
    KDUMP_OK | KDUMP_ERR_SYSTEM | KDUMP_ERR_NOTIMPL | KDUMP_ERR_NODATA | KDUMP_ERR_CORRUPT
  | KDUMP_ERR_INVALID | KDUMP_ERR_NOKEY | KDUMP_ERR_EOF | KDUMP_ERR_BUSY | KDUMP_ERR_ADDRXLAT

abbreviation UINT_SIZE :: nat where
  "UINT_SIZE \<equiv> 2 ^ 32"

definition uinc :: "nat \<Rightarrow> nat" where
  "uinc n = (n + 1) mod UINT_SIZE"

definition udec :: "nat \<Rightarrow> nat" where
  "udec n = (if n = 0 then UINT_SIZE - 1 else n - 1)"

definition uadd :: "nat \<Rightarrow> nat \<Rightarrow> nat" where
  "uadd m n = (m + n) mod UINT_SIZE"

definition usub :: "nat \<Rightarrow> nat \<Rightarrow> nat" where
  "usub m n = (if n \<le> m then m - n else UINT_SIZE + m - n)"

lemma uinc_less: "n < UINT_SIZE - 1 \<Longrightarrow> uinc n = Suc n"
  by (simp add: uinc_def)

lemma udec_pos: "0 < n \<Longrightarrow> udec n = n - 1"
  by (simp add: udec_def)

lemma udec_Suc [simp]: "udec (Suc n) = n"
  by (simp add: udec_def)

lemma uadd_less: "m + n < UINT_SIZE \<Longrightarrow> uadd m n = m + n"
  by (simp add: uadd_def)

lemma usub_le: "n \<le> m \<Longrightarrow> usub m n = m - n"
  by (simp add: usub_def)

end
