(* ===== verification/Ring.thy ===== *)
theory Ring
  imports Prelude
begin

section \<open>Circular doubly linked lists\<close>

text \<open>
  The library keeps the entries of its page cache in circular lists linked by array indices. This
  theory reads such a list: \<open>ring n p xs\<close> says that following the successors \<open>n\<close> from the first
  element of \<open>xs\<close> visits \<open>xs\<close> and comes back, and that \<open>p\<close> is the inverse. The lemmas say what the
  assignments of an insertion and of a removal do to the list, up to the element where the reading
  starts.
\<close>

fun links :: "('i \<Rightarrow> 'i) \<Rightarrow> ('i \<Rightarrow> 'i) \<Rightarrow> 'i list \<Rightarrow> bool" where
  "links n p (x # y # zs) \<longleftrightarrow> n x = y \<and> p y = x \<and> links n p (y # zs)"
| "links n p zs \<longleftrightarrow> True"

definition ring :: "('i \<Rightarrow> 'i) \<Rightarrow> ('i \<Rightarrow> 'i) \<Rightarrow> 'i list \<Rightarrow> bool" where
  "ring n p xs \<longleftrightarrow> distinct xs \<and> (xs = [] \<or> links n p (xs @ [hd xs]))"

lemma links_append:
  "links n p (xs @ y # zs) \<longleftrightarrow> links n p (xs @ [y]) \<and> links n p (y # zs)"
proof (induction xs)
  case (Cons x xs)
  then show ?case
    by (cases xs) auto
qed simp

lemma links_cong:
  "(\<And>x. x \<in> set (butlast xs) \<Longrightarrow> n x = n' x) \<Longrightarrow> (\<And>x. x \<in> set (tl xs) \<Longrightarrow> p x = p' x) \<Longrightarrow>
   links n p xs = links n' p' xs"
proof (induction n p xs rule: links.induct)
  case (1 n p x y zs)
  then show ?case
    by (simp split: if_splits)
qed simp_all

lemma ring_Nil [simp]: "ring n p []"
  by (simp add: ring_def)

lemma ring_distinct: "ring n p xs \<Longrightarrow> distinct xs"
  by (simp add: ring_def)

lemma ring_rotate1: "ring n p (x # xs) \<longleftrightarrow> ring n p (xs @ [x])"
proof (cases xs)
  case (Cons y ys)
  have "links n p (x # y # ys @ [x]) \<longleftrightarrow> links n p (y # ys @ [x, y])"
    using links_append [of n p "y # ys" x "[y]"] by auto
  then show ?thesis
    by (auto simp: ring_def Cons)
qed simp

lemma ring_rotate: "ring n p (xs @ ys) \<longleftrightarrow> ring n p (ys @ xs)"
proof (induction xs arbitrary: ys)
  case (Cons x xs)
  have "ring n p ((x # xs) @ ys) \<longleftrightarrow> ring n p (xs @ (ys @ [x]))"
    using ring_rotate1 [of n p x "xs @ ys"] by simp
  also have "\<dots> \<longleftrightarrow> ring n p ((ys @ [x]) @ xs)"
    by (rule Cons.IH)
  finally show ?case
    by simp
qed simp

lemma ring_nextD: "ring n p (xs @ x # y # zs) \<Longrightarrow> n x = y \<and> p y = x"
  using ring_rotate [of n p xs "x # y # zs"] by (simp add: ring_def)

lemma ring_wrapD: "ring n p (x # xs) \<Longrightarrow> n (last (x # xs)) = x \<and> p x = last (x # xs)"
  using ring_rotate [of n p "butlast (x # xs)" "[last (x # xs)]"]
    ring_nextD [of n p "[]" "last (x # xs)" "hd (butlast (x # xs))" "tl (butlast (x # xs))"]
  by (cases xs rule: rev_cases) (auto simp: ring_def)

lemma ring_last: "ring n p xs \<Longrightarrow> xs \<noteq> [] \<Longrightarrow> n (last xs) = hd xs"
  by (cases xs) (use ring_wrapD in fastforce)+

lemma ring_closed:
  assumes "ring n p xs" and "x \<in> set xs"
  shows "n x \<in> set xs" and "p x \<in> set xs" and "p (n x) = x" and "n (p x) = x"
proof -
  obtain as bs where xs: "xs = as @ x # bs"
    using assms(2) by (meson split_list)
  then have r: "ring n p (x # bs @ as)"
    using assms(1) ring_rotate [of n p as "x # bs"] by simp
  have w: "n (last (x # bs @ as)) = x" "p x = last (x # bs @ as)"
    using ring_wrapD [OF r] by simp_all
  then have "p x \<in> set (x # bs @ as)"
    using last_in_set [of "x # bs @ as"] by (simp del: last.simps)
  moreover have "n x \<in> set (x # bs @ as) \<and> p (n x) = x"
    using r by (cases "bs @ as") (auto simp: ring_def)
  ultimately show "n x \<in> set xs" and "p x \<in> set xs" and "p (n x) = x" and "n (p x) = x"
    using w by (auto simp: xs)
qed

text \<open>The assignments that link \<open>i\<close> in behind \<open>x\<close>.\<close>

lemma ring_insert:
  assumes "ring n p (xs @ [x])" and "i \<notin> set (xs @ [x])"
    and "\<And>j. n' j = (if j = x then i else if j = i then n x else n j)"
    and "\<And>j. p' j = (if j = n x then i else if j = i then x else p j)"
  shows "ring n' p' (xs @ [x, i])"
proof (cases xs)
  case Nil
  then have "n x = x" "p x = x"
    using assms(1) by (simp_all add: ring_def)
  then show ?thesis
    using assms(2-4) by (auto simp: ring_def Nil)
next
  case (Cons y ys)
  have d: "distinct (y # ys @ [x])" "n x = y" "links n p (y # ys @ [x])"
    using assms(1) links_append [of n p "y # ys" x "[y]"] by (auto simp: ring_def Cons)
  have "links n' p' (y # ys @ [x])"
    using d assms(2) by (subst links_cong [of _ _ n _ p]) (auto simp: assms(3,4) Cons butlast_append)
  moreover have "links n' p' [x, i, y]"
    using d assms(2) by (auto simp: assms(3,4) Cons)
  ultimately show ?thesis
    using d assms(2) links_append [of n' p' "y # ys" x "[i, y]"] by (auto simp: ring_def Cons)
qed

text \<open>The assignments that take \<open>i\<close> out.\<close>

lemma ring_remove:
  assumes "ring n p (i # xs)"
    and "\<And>j. n' j = (if j = p i then n i else n j)"
    and "\<And>j. p' j = (if j = n i then p i else p j)"
  shows "ring n' p' xs"
proof (cases xs rule: rev_cases)
  case (snoc ys x)
  show ?thesis
  proof (cases ys)
    case Nil
    then have "n i = x" "p i = x" "i \<noteq> x"
      using assms(1) by (auto simp: ring_def snoc)
    then show ?thesis
      using assms(2,3) by (simp add: ring_def snoc Nil)
  next
    case (Cons y zs)
    have d: "distinct (i # y # zs @ [x])" "n i = y" "p i = x" "n x = i" "p y = i" "links n p (y # zs @ [x])"
      using assms(1) links_append [of n p "i # y # zs" x "[i]"] by (auto simp: ring_def snoc Cons)
    have "links n' p' (y # zs @ [x])"
      using d by (subst links_cong [of _ _ n _ p]) (auto simp: assms(2,3) butlast_append)
    moreover have "links n' p' [x, y]"
      using d by (simp add: assms(2,3))
    ultimately show ?thesis
      using d links_append [of n' p' "y # zs" x "[y]"] by (simp add: ring_def snoc Cons)
  qed
qed simp

lemma ring_cong:
  assumes "ring n p xs" and "\<And>x. x \<in> set xs \<Longrightarrow> n' x = n x \<and> p' x = p x"
  shows "ring n' p' xs"
proof (cases xs)
  case (Cons y ys)
  then show ?thesis
    using assms links_cong [of "xs @ [hd xs]" n' n p' p] by (auto simp: ring_def Cons)
qed simp

text \<open>The list read backwards, and the path behind an element.\<close>

lemma links_rev: "links p n (rev xs) = links n p xs"
proof (induction n p xs rule: links.induct)
  case (1 n p x y zs)
  then show ?case
    using links_append [of p n "rev zs" y "[x]"] by auto
qed simp_all

lemma ring_path:
  assumes "ring n p xs" and "xs \<noteq> []"
  shows "links n p (last xs # xs) \<and> links n p (xs @ [hd xs])"
proof -
  obtain us u where l: "xs = us @ [u]"
    using assms(2) by (metis rev_exhaust)
  then have "ring n p (u # us)"
    using assms(1) ring_rotate1 [of n p u us] by simp
  then have "links n p ((u # us) @ [u])"
    by (simp add: ring_def)
  moreover have "links n p (xs @ [hd xs])"
    using assms by (auto simp: ring_def)
  ultimately show ?thesis
    by (simp add: l)
qed

lemma links_mid: "links n p (xs @ ys @ zs) \<Longrightarrow> links n p ys"
proof (induction xs)
  case Nil
  then show ?case
    using links_append [of n p "butlast ys" "last ys" zs]
    by (cases ys rule: rev_cases) auto
next
  case (Cons x xs)
  then show ?case
    by (cases "xs @ ys @ zs") auto
qed

lemma ring_part:
  assumes "ring n p (xs @ ys @ zs)" and "xs @ ys @ zs \<noteq> []"
  shows "links n p (ys @ [hd (zs @ xs @ ys)])" and "links p n (rev ys @ [last (ys @ zs @ xs)])"
proof -
  have "ring n p (ys @ zs @ xs)" "ys @ zs @ xs \<noteq> []"
    using assms ring_rotate [of n p xs "ys @ zs"] by auto
  then have l: "links n p (last (ys @ zs @ xs) # ys @ zs @ xs)" "links n p (ys @ zs @ xs @ [hd (ys @ zs @ xs)])"
    using ring_path [of n p "ys @ zs @ xs"] by simp_all
  show "links n p (ys @ [hd (zs @ xs @ ys)])"
  proof (cases "zs @ xs")
    case Nil
    then show ?thesis using l(2) by auto
  next
    case (Cons r rs)
    then show ?thesis
      using l(2) links_mid [of n p "[]" "ys @ [r]" "rs @ [hd (ys @ zs @ xs)]"] by (metis append.assoc append_Cons append_Nil list.sel(1))
  qed
  have "links n p (last (ys @ zs @ xs) # ys)"
    using l(1) links_mid [of n p "[]" "last (ys @ zs @ xs) # ys" "zs @ xs"] by (simp only: append_Nil append_Cons append_assoc)
  then show "links p n (rev ys @ [last (ys @ zs @ xs)])"
    using links_rev [of p n "last (ys @ zs @ xs) # ys"] by simp
qed

end
