(* ===== verification/Page_Cache.thy ===== *)
theory Page_Cache
  imports Kdump_Types Ring
begin

section \<open>The page cache (src/kdumpfile/cache.c)\<close>

text \<open>
  An adaptive cache of \<open>cap\<close> data buffers with \<open>2 * cap\<close> entries. An entry is an element of the array
  \<open>c_ce\<close>, a pointer to an entry is its index, and the entries form two circular lists, the main
  list and the list of entries in flight. A data pointer is an address or \<open>None\<close> for NULL. A result
  \<open>None\<close> of an operation stands for a read of a variable that was never set, or of an element
  outside of the array.
\<close>

datatype cache_state = Cs_valid | Cs_probe | Cs_precious

record centry =
  e_key :: u64
  e_state :: cache_state
  e_next :: nat
  e_prev :: nat
  e_refcnt :: nat
  e_data :: "nat option"

text \<open>\<open>c_cleaned\<close> records the calls of the destructor, with the entry it was called for.\<close>

record pcache =
  c_split :: nat
  c_nprec :: nat
  c_ngprec :: nat
  c_nprobe :: nat
  c_ngprobe :: nat
  c_dprobe :: nat
  c_cap :: nat
  c_inflight :: nat
  c_ninflight :: nat
  c_hits :: u64
  c_misses :: u64
  c_elemsize :: nat
  c_data :: nat
  c_cleanup :: bool
  c_cleaned :: "(nat \<times> centry) list"
  c_ce :: "centry list"

record cache_search =
  cs_gprec :: nat
  cs_eprec :: nat
  cs_zprec :: "nat option"
  cs_nzprec :: nat
  cs_gprobe :: nat
  cs_eprobe :: nat
  cs_zprobe :: "nat option"
  cs_nzprobe :: nat

definition ent :: "pcache \<Rightarrow> nat \<Rightarrow> centry" where
  "ent c i = c_ce c ! i"

definition upd :: "nat \<Rightarrow> (centry \<Rightarrow> centry) \<Rightarrow> pcache \<Rightarrow> pcache" where
  "upd i f c = c\<lparr>c_ce := (c_ce c)[i := f (c_ce c ! i)]\<rparr>"

definition cache_entry_valid :: "centry \<Rightarrow> bool" where
  "cache_entry_valid e \<longleftrightarrow> e_state e = Cs_valid"

subsection \<open>Lists of entries\<close>

definition add_entry_after :: "nat \<Rightarrow> nat \<Rightarrow> pcache \<Rightarrow> pcache" where
  "add_entry_after i insidx c =
     (let next_i = e_next (ent c insidx);
        c = upd i (e_next_update (\<lambda>_. e_next (ent c insidx))) c;
        c = upd insidx (e_next_update (\<lambda>_. i)) c;
        c = upd i (e_prev_update (\<lambda>_. e_prev (ent c next_i))) c
      in upd next_i (e_prev_update (\<lambda>_. i)) c)"

definition add_entry_before :: "nat \<Rightarrow> nat \<Rightarrow> pcache \<Rightarrow> pcache" where
  "add_entry_before i insidx c =
     (let prev_i = e_prev (ent c insidx);
        c = upd i (e_next_update (\<lambda>_. e_next (ent c prev_i))) c;
        c = upd prev_i (e_next_update (\<lambda>_. i)) c;
        c = upd i (e_prev_update (\<lambda>_. e_prev (ent c insidx))) c
      in upd insidx (e_prev_update (\<lambda>_. i)) c)"

definition remove_entry :: "nat \<Rightarrow> pcache \<Rightarrow> pcache" where
  "remove_entry i c =
     (let next_i = e_next (ent c i);
        c = upd next_i (e_prev_update (\<lambda>_. e_prev (ent c i))) c;
        prev_i = e_prev (ent c i)
      in upd prev_i (e_next_update (\<lambda>_. e_next (ent c i))) c)"

definition add_inflight :: "nat \<Rightarrow> pcache \<Rightarrow> pcache" where
  "add_inflight i c =
     (let n = c_ninflight c; c = c\<lparr>c_ninflight := uinc n\<rparr>
      in if n \<noteq> 0 then add_entry_before i (c_inflight c) c
         else (upd i (\<lambda>e. e\<lparr>e_next := i, e_prev := i\<rparr>) c)\<lparr>c_inflight := i\<rparr>)"

subsection \<open>Reuse and eviction\<close>

definition reuse_cached_entry :: "nat \<Rightarrow> pcache \<Rightarrow> pcache" where
  "reuse_cached_entry i c =
     (let c = (if c_split c \<noteq> i \<and> c_split c \<noteq> e_prev (ent c i)
               then add_entry_after i (c_split c) (remove_entry i c) else c)
      in c\<lparr>c_split := e_prev (ent c i), c_hits := c_hits c + 1\<rparr>)"

definition evict_probe :: "cache_search \<Rightarrow> pcache \<Rightarrow> (nat \<times> pcache) option" where
  "evict_probe cs c = do {
     i \<leftarrow> cs_zprobe cs;
     let c = (if e_prev (ent c i) \<noteq> cs_gprobe cs
              then add_entry_after i (cs_gprobe cs) (remove_entry i
                     (if i = c_split c then c\<lparr>c_split := e_prev (ent c i)\<rparr> else c))
              else c);
     Some (i, c\<lparr>c_nprobe := udec (c_nprobe c), c_ngprobe := uinc (c_ngprobe c)\<rparr>)
   }"

definition evict_prec :: "cache_search \<Rightarrow> pcache \<Rightarrow> (nat \<times> pcache) option" where
  "evict_prec cs c = do {
     i \<leftarrow> cs_zprec cs;
     let c = (if e_next (ent c i) \<noteq> cs_gprec cs
              then add_entry_before i (cs_gprec cs) (remove_entry i c)
              else c);
     Some (i, c\<lparr>c_nprec := udec (c_nprec c), c_ngprec := uinc (c_ngprec c)\<rparr>)
   }"

definition call_cleanup :: "nat \<Rightarrow> pcache \<Rightarrow> pcache" where
  "call_cleanup i c = (if c_cleanup c then c\<lparr>c_cleaned := c_cleaned c @ [(i, ent c i)]\<rparr> else c)"

definition evict_entry :: "cache_search \<Rightarrow> nat \<Rightarrow> pcache \<Rightarrow> (nat \<times> pcache) option" where
  "evict_entry cs bias c = do {
     (i, c) \<leftarrow> (if cs_nzprobe cs \<noteq> 0 \<and> (cs_nzprec cs = 0 \<or> uadd (c_nprobe c) bias > c_dprobe c)
                then evict_probe cs c else evict_prec cs c);
     Some (i, call_cleanup i c)
   }"

fun walk_prev :: "pcache \<Rightarrow> nat \<Rightarrow> nat \<Rightarrow> nat" where
  "walk_prev c 0 i = i"
| "walk_prev c (Suc n) i = walk_prev c n (e_prev (ent c i))"

definition set_data :: "nat option \<Rightarrow> centry \<Rightarrow> centry" where
  "set_data d e = e\<lparr>e_data := d\<rparr>"

definition reclaim_data :: "cache_search \<Rightarrow> pcache \<Rightarrow> (nat option \<times> pcache) option" where
  "reclaim_data cs c = do {
     (i, c) \<leftarrow> (if uadd (uadd (c_nprec c) (c_nprobe c)) (c_ninflight c) < c_cap c
                then Some (walk_prev c (c_ngprobe c) (cs_gprobe cs), c)
                else evict_entry cs 0 c);
     Some (e_data (ent c i), upd i (set_data None) c)
   }"

subsection \<open>Lookup\<close>

definition get_missed_entry :: "u64 \<Rightarrow> cache_search \<Rightarrow> pcache \<Rightarrow> (nat \<times> pcache) option" where
  "get_missed_entry key cs c =
     (let i = cs_eprobe cs;
        (i, c) =
          (if e_next (ent c i) = cs_eprec cs
           then if c_ngprobe c \<noteq> 0 then (e_next (ent c i), c\<lparr>c_ngprobe := udec (c_ngprobe c)\<rparr>)
                else if c_ngprec c \<noteq> 0 then (i, c\<lparr>c_ngprec := udec (c_ngprec c)\<rparr>)
                else (i, c)
           else (i, c))
      in do {
        c \<leftarrow> (if e_data (ent c i) = None
              then do {
                (j, c) \<leftarrow> evict_entry cs 1 c;
                Some (upd j (set_data None) (upd i (set_data (e_data (ent c j))) c))
              }
              else Some c);
        let c = (if c_split c = i then c\<lparr>c_split := e_prev (ent c i)\<rparr> else c);
        let c = add_inflight i (remove_entry i c);
        Some (i, upd i (\<lambda>e. e\<lparr>e_key := key, e_state := Cs_probe\<rparr>) c)
      })"

definition reuse_ghost_entry :: "nat \<Rightarrow> pcache \<Rightarrow> pcache" where
  "reuse_ghost_entry i c =
     (let c = (if c_split c = i then c\<lparr>c_split := e_prev (ent c i)\<rparr> else c);
        c = add_inflight i (remove_entry i c)
      in upd i (e_state_update (\<lambda>_. Cs_precious)) c)"

text \<open>
  The loops that look for a key follow \<open>nx\<close>, which is \<open>e_next\<close> or \<open>e_prev\<close>, for \<open>n\<close> entries. The
  result is the entry with the key, or the index behind the last one.
\<close>

fun find_key :: "(centry \<Rightarrow> nat) \<Rightarrow> nat \<Rightarrow> nat \<Rightarrow> u64 \<Rightarrow> pcache \<Rightarrow> nat + nat" where
  "find_key nx 0 i key c = Inr i"
| "find_key nx (Suc n) i key c =
     (if e_key (ent c i) = key then Inl i else find_key nx n (nx (ent c i)) key c)"

definition get_ghost_or_missed_entry :: "u64 \<Rightarrow> cache_search \<Rightarrow> pcache \<Rightarrow> (nat \<times> pcache) option" where
  "get_ghost_or_missed_entry key cs c =
     (case find_key e_next (c_ngprec c) (cs_gprec cs) key c of
        Inl i \<Rightarrow>
          let delta = (if c_ngprobe c > c_ngprec c then c_ngprobe c div c_ngprec c else 1);
            c = c\<lparr>c_dprobe := (if c_dprobe c > delta then c_dprobe c - delta else 0)\<rparr>
          in do {
            (d, c) \<leftarrow> reclaim_data cs c;
            let c = upd i (set_data d) c;
            Some (i, reuse_ghost_entry i (c\<lparr>c_ngprec := udec (c_ngprec c)\<rparr>))
          }
      | Inr eprec \<Rightarrow>
          let cs = cs\<lparr>cs_eprec := eprec\<rparr>
          in (case find_key e_prev (c_ngprobe c) (cs_gprobe cs) key c of
                Inl i \<Rightarrow>
                  let delta = (if c_ngprec c > c_ngprobe c then c_ngprec c div c_ngprobe c else 1);
                    c = c\<lparr>c_dprobe := (if uadd (c_dprobe c) delta < c_cap c
                                       then uadd (c_dprobe c) delta else c_cap c)\<rparr>
                  in do {
                    (d, c) \<leftarrow> reclaim_data cs c;
                    let c = upd i (set_data d) c;
                    Some (i, reuse_ghost_entry i (c\<lparr>c_ngprobe := udec (c_ngprobe c)\<rparr>))
                  }
              | Inr eprobe \<Rightarrow> get_missed_entry key (cs\<lparr>cs_eprobe := eprobe\<rparr>) c))"

definition get_inflight_entry :: "u64 \<Rightarrow> pcache \<Rightarrow> (nat \<times> pcache) option" where
  "get_inflight_entry key c =
     (case find_key e_next (c_ninflight c) (c_inflight c) key c of
        Inl i \<Rightarrow> Some (i, upd i (e_state_update (\<lambda>_. Cs_precious)) c)
      | Inr i \<Rightarrow> None)"

text \<open>The search among cached entries also counts those that nobody refers to.\<close>

fun find_cached :: "(centry \<Rightarrow> nat) \<Rightarrow> nat \<Rightarrow> nat \<Rightarrow> u64 \<Rightarrow> pcache \<Rightarrow> nat option \<Rightarrow> nat \<Rightarrow> nat + nat \<times> nat option \<times> nat"
where
  "find_cached nx 0 i key c z nz = Inr (i, z, nz)"
| "find_cached nx (Suc n) i key c z nz =
     (if e_key (ent c i) = key then Inl i
      else if e_refcnt (ent c i) = 0 then find_cached nx n (nx (ent c i)) key c (Some i) (uinc nz)
      else find_cached nx n (nx (ent c i)) key c z nz)"

definition search_miss :: "u64 \<Rightarrow> cache_search \<Rightarrow> pcache \<Rightarrow> (nat option \<times> pcache) option" where
  "search_miss key cs c =
     (case get_inflight_entry key c of
        Some (i, c) \<Rightarrow> Some (Some i, c\<lparr>c_misses := c_misses c + 1\<rparr>)
      | None \<Rightarrow>
          if uadd (uadd (usub (c_nprec c) (cs_nzprec cs)) (usub (c_nprobe c) (cs_nzprobe cs))) (c_ninflight c)
             \<ge> c_cap c
          then Some (None, c)
          else do {
            (i, c) \<leftarrow> get_ghost_or_missed_entry key cs c;
            Some (Some i, c\<lparr>c_misses := c_misses c + 1\<rparr>)
          })"

definition cache_get_entry_noref :: "u64 \<Rightarrow> pcache \<Rightarrow> (nat option \<times> pcache) option" where
  "cache_get_entry_noref key c =
     (if length (c_ce c) \<le> c_split c then None
      else case find_cached e_next (c_nprec c) (e_next (ent c (c_split c))) key c None 0 of
        Inl i \<Rightarrow> Some (Some i, reuse_cached_entry i c)
      | Inr (gprec, zprec, nzprec) \<Rightarrow>
          (case find_cached e_prev (c_nprobe c) (c_split c) key c None 0 of
             Inl i \<Rightarrow> Some (Some i, reuse_cached_entry i
                         (c\<lparr>c_nprobe := udec (c_nprobe c), c_nprec := uinc (c_nprec c)\<rparr>))
           | Inr (gprobe, zprobe, nzprobe) \<Rightarrow>
               search_miss key
                 \<lparr>cs_gprec = gprec, cs_eprec = 0, cs_zprec = zprec, cs_nzprec = nzprec,
                  cs_gprobe = gprobe, cs_eprobe = 0, cs_zprobe = zprobe, cs_nzprobe = nzprobe\<rparr> c))"

definition cache_get_entry :: "u64 \<Rightarrow> pcache \<Rightarrow> (nat option \<times> pcache) option" where
  "cache_get_entry key c = do {
     (r, c) \<leftarrow> cache_get_entry_noref key c;
     Some (r, case r of None \<Rightarrow> c | Some i \<Rightarrow> upd i (\<lambda>e. e\<lparr>e_refcnt := uinc (e_refcnt e)\<rparr>) c)
   }"

subsection \<open>Insertion and release\<close>

definition cache_insert :: "nat \<Rightarrow> pcache \<Rightarrow> pcache" where
  "cache_insert i c =
     (if cache_entry_valid (ent c i) then c
      else
        let n = c_ninflight c; c = c\<lparr>c_ninflight := udec n\<rparr>;
          c = (if n \<noteq> 0
               then remove_entry i
                      (if c_inflight c = i then c\<lparr>c_inflight := e_next (ent c i)\<rparr> else c)
               else c);
          c = add_entry_after i (c_split c) c;
          c = (case e_state (ent c i) of
                 Cs_probe \<Rightarrow> c\<lparr>c_nprobe := uinc (c_nprobe c), c_split := i\<rparr>
               | Cs_precious \<Rightarrow> c\<lparr>c_nprec := uinc (c_nprec c)\<rparr>
               | Cs_valid \<Rightarrow> c)
        in upd i (e_state_update (\<lambda>_. Cs_valid)) c)"

definition drop_ref :: "nat \<Rightarrow> pcache \<Rightarrow> pcache" where
  "drop_ref i c = upd i (\<lambda>e. e\<lparr>e_refcnt := udec (e_refcnt e)\<rparr>) c"

definition cache_put_entry :: "nat \<Rightarrow> pcache \<Rightarrow> pcache" where
  "cache_put_entry i c = drop_ref i c"

definition cache_discard :: "nat \<Rightarrow> pcache \<Rightarrow> pcache" where
  "cache_discard i c =
     (let c = drop_ref i c
      in if e_refcnt (ent c i) \<noteq> 0 \<or> cache_entry_valid (ent c i) then c
         else
           let c = c\<lparr>c_ninflight := udec (c_ninflight c)\<rparr>;
             c = (if c_inflight c = i then c\<lparr>c_inflight := e_next (ent c i)\<rparr> else c);
             c = remove_entry i c;
             eprobe = c_split c;
             n = uadd (c_nprobe c) (c_ngprobe c);
             (eprobe, c) = (if n = 0 then (eprobe, c\<lparr>c_split := i\<rparr>) else (walk_prev c n eprobe, c))
           in add_entry_after i eprobe c)"

subsection \<open>Life cycle\<close>

fun cleanup_walk :: "(centry \<Rightarrow> nat) \<Rightarrow> nat \<Rightarrow> nat \<Rightarrow> pcache \<Rightarrow> pcache" where
  "cleanup_walk nx 0 i c = c"
| "cleanup_walk nx (Suc n) i c = cleanup_walk nx n (nx (ent c i)) (call_cleanup i c)"

definition cleanup_entries :: "pcache \<Rightarrow> pcache" where
  "cleanup_entries c =
     (if \<not> c_cleanup c then c
      else
        let c = cleanup_walk e_next (c_nprec c) (e_next (ent c (c_split c))) c
        in cleanup_walk e_prev (c_nprobe c) (c_split c) c)"

definition flush_entry :: "pcache \<Rightarrow> nat \<Rightarrow> nat \<Rightarrow> centry \<Rightarrow> centry" where
  "flush_entry c n i e = e\<lparr>
     e_next := (if i > 0 then i - 1 else n - 1),
     e_prev := (if i < n - 1 then i + 1 else 0),
     e_refcnt := 0,
     e_data := (if i < c_cap c then Some (c_data c + i * c_elemsize c) else None)\<rparr>"

definition cache_flush :: "pcache \<Rightarrow> pcache" where
  "cache_flush c =
     (let c = cleanup_entries c; n = (2 * c_cap c) mod UINT_SIZE
      in c\<lparr>c_ce := map (\<lambda>i. flush_entry c n i (c_ce c ! i)) [0..<n],
           c_split := 0, c_nprec := 0, c_ngprec := 0, c_nprobe := 0, c_ngprobe := 0,
           c_dprobe := 0, c_ninflight := 0\<rparr>)"

text \<open>
  \<open>cache_alloc mem buf n size\<close>: \<open>mem\<close> is the memory that \<open>malloc\<close> returns for the cache object, with
  whatever is in it, and \<open>buf\<close> the address that it returns for the data; both may be NULL. A cache
  without data takes the address \<open>self\<close> of the object.
\<close>

definition cache_alloc :: "pcache option \<Rightarrow> nat \<Rightarrow> nat option \<Rightarrow> nat \<Rightarrow> nat \<Rightarrow> pcache option" where
  "cache_alloc mem self buf n size' = do {
     c \<leftarrow> mem;
     let c = c\<lparr>c_elemsize := size', c_cap := n, c_hits := 0, c_misses := 0, c_cleanup := False\<rparr>;
     d \<leftarrow> (if size' \<noteq> 0 then buf else Some self);
     Some (cache_flush (c\<lparr>c_data := d\<rparr>))
   }"

definition set_cache_entry_cleanup :: "bool \<Rightarrow> pcache \<Rightarrow> pcache" where
  "set_cache_entry_cleanup fn c = c\<lparr>c_cleanup := fn\<rparr>"

text \<open>What is freed besides the cache object: the data, unless there is none.\<close>

definition cache_free :: "nat \<Rightarrow> pcache \<Rightarrow> (nat \<times> centry) list \<times> nat option" where
  "cache_free self c =
     (c_cleaned (cleanup_entries c), if c_data c \<noteq> self then Some (c_data c) else None)"

subsection \<open>Attributes\<close>

definition DEFAULT_CACHE_SIZE :: nat where
  "DEFAULT_CACHE_SIZE = 1024"

text \<open>
  \<open>get_cache_size\<close> gets the value of the attribute, if it is set, and the result of its
  revalidation; \<open>cache_set_attrs\<close> the results of setting the two attributes.
\<close>

definition get_cache_size :: "u64 option \<Rightarrow> kstatus \<Rightarrow> nat" where
  "get_cache_size attr revalidated =
     (case attr of
        Some number \<Rightarrow> if revalidated = KDUMP_OK then unat number mod UINT_SIZE else DEFAULT_CACHE_SIZE
      | None \<Rightarrow> DEFAULT_CACHE_SIZE)"

definition cache_set_attrs :: "kstatus \<Rightarrow> kstatus \<Rightarrow> kstatus \<times> string option" where
  "cache_set_attrs set_hits set_misses =
     (if set_hits \<noteq> KDUMP_OK then (set_hits, Some ''hits'')
      else if set_misses \<noteq> KDUMP_OK then (set_misses, Some ''misses'')
      else (KDUMP_OK, None))"

end
