(* ===== verification/Page_Cache_Spec.thy ===== *)
theory Page_Cache_Spec
  imports Page_Cache "HOL-Library.Multiset"
begin

section \<open>The page cache as six lists\<close>

text \<open>
  The specification of the page cache: the five partitions and the entries in flight are lists of
  entries, and the operations move entries between them. The simulation relation \<open>rep\<close> reads the
  two circular lists of the implementation as these lists, and every operation of the
  implementation is refined by the operation of the specification.
\<close>

subsection \<open>The assignments of the list operations\<close>

named_theorems cache_simps \<open>frame rules of the list operations of the cache\<close>

declare ent_def [simp]

text \<open>A circular list of entries in the array.\<close>

definition cring :: "centry list \<Rightarrow> nat list \<Rightarrow> bool" where
  "cring es xs \<longleftrightarrow> ring (\<lambda>i. e_next (es ! i)) (\<lambda>i. e_prev (es ! i)) xs \<and> set xs \<subseteq> {..<length es}"

lemma nth_beyond: "length xs \<le> j \<Longrightarrow> xs ! j = [] ! (j - length xs)"
  by (induction xs arbitrary: j) (auto simp: nth_Cons split: nat.splits)

lemma ent_upd: "c_ce (upd i f c) ! j = (if i = j \<and> i < length (c_ce c) then f (c_ce c ! j) else c_ce c ! j)"
  using nth_beyond [of "c_ce c" j] nth_beyond [of "(c_ce c)[i := f (c_ce c ! i)]" j]
  by (cases "j < length (c_ce c)") (auto simp: ent_def upd_def nth_list_update)

text \<open>The contents of an entry are all but its links.\<close>

record content =
  k_key :: u64
  k_state :: cache_state
  k_ref :: nat
  k_data :: "nat option"

definition cont :: "centry \<Rightarrow> content" where
  "cont e = \<lparr>k_key = e_key e, k_state = e_state e, k_ref = e_refcnt e, k_data = e_data e\<rparr>"

definition conts :: "centry list \<Rightarrow> nat \<Rightarrow> content" where
  "conts es i = cont (es ! i)"

definition links_only :: "pcache \<Rightarrow> pcache \<Rightarrow> bool" where
  "links_only c c' \<longleftrightarrow> conts (c_ce c') = conts (c_ce c) \<and> c' = c\<lparr>c_ce := c_ce c'\<rparr> \<and> length (c_ce c') = length (c_ce c)"

lemma links_only_refl: "links_only c c"
  by (simp add: links_only_def)

lemma links_only_trans: "links_only a b \<Longrightarrow> links_only b c \<Longrightarrow> links_only a c"
  unfolding links_only_def by (metis (no_types, lifting) pcache.surjective pcache.update_convs(16))

lemma links_only_upd:
  "(\<And>e. cont (f e) = cont e) \<Longrightarrow> links_only c (upd i f c)"
  by (auto simp: links_only_def conts_def ent_upd) (simp_all add: upd_def)

lemma links_only_remove: "links_only c (remove_entry i c)"
  unfolding remove_entry_def Let_def
  by (rule links_only_trans [OF links_only_upd links_only_upd]) (simp_all add: cont_def)

lemma links_only_after: "links_only c (add_entry_after i x c)"
  unfolding add_entry_after_def Let_def
  by (rule links_only_trans [OF links_only_trans [OF links_only_trans [OF links_only_upd links_only_upd] links_only_upd] links_only_upd])
    (simp_all add: cont_def)

lemma links_only_before: "links_only c (add_entry_before i x c)"
  unfolding add_entry_before_def Let_def
  by (rule links_only_trans [OF links_only_trans [OF links_only_trans [OF links_only_upd links_only_upd] links_only_upd] links_only_upd])
    (simp_all add: cont_def)

lemma links_only_fields:
  assumes "links_only c c'"
  shows "conts (c_ce c') = conts (c_ce c)" "length (c_ce c') = length (c_ce c)" "c_split c' = c_split c"
    "c_nprec c' = c_nprec c" "c_ngprec c' = c_ngprec c" "c_nprobe c' = c_nprobe c" "c_ngprobe c' = c_ngprobe c"
    "c_dprobe c' = c_dprobe c" "c_cap c' = c_cap c" "c_inflight c' = c_inflight c" "c_ninflight c' = c_ninflight c"
    "c_hits c' = c_hits c" "c_misses c' = c_misses c" "c_cleanup c' = c_cleanup c" "c_cleaned c' = c_cleaned c"
  using assms unfolding links_only_def by (metis pcache.ext_inject pcache.surjective pcache.update_convs(16))+

lemmas op_fields [simp] =
  links_only_fields [OF links_only_remove] links_only_fields [OF links_only_after]
  links_only_fields [OF links_only_before]

lemma upd_fields [simp]:
  "length (c_ce (upd i f c)) = length (c_ce c)" "c_split (upd i f c) = c_split c"
  "c_nprec (upd i f c) = c_nprec c" "c_ngprec (upd i f c) = c_ngprec c" "c_nprobe (upd i f c) = c_nprobe c"
  "c_ngprobe (upd i f c) = c_ngprobe c" "c_dprobe (upd i f c) = c_dprobe c" "c_cap (upd i f c) = c_cap c"
  "c_inflight (upd i f c) = c_inflight c" "c_ninflight (upd i f c) = c_ninflight c" "c_hits (upd i f c) = c_hits c"
  "c_misses (upd i f c) = c_misses c" "c_cleanup (upd i f c) = c_cleanup c" "c_cleaned (upd i f c) = c_cleaned c"
  by (simp_all add: upd_def)

lemma cring_rotate: "cring es (xs @ ys) = cring es (ys @ xs)"
  by (auto simp: cring_def ring_rotate [of _ _ xs ys])

lemma cring_remove:
  assumes "cring (c_ce c) (xs @ i # ys)"
  shows "cring (c_ce (remove_entry i c)) (xs @ ys)"
    and "j \<notin> set (xs @ i # ys) \<Longrightarrow> c_ce (remove_entry i c) ! j = c_ce c ! j"
proof -
  have r: "ring (\<lambda>i. e_next (c_ce c ! i)) (\<lambda>i. e_prev (c_ce c ! i)) (i # ys @ xs)"
    and b: "set (xs @ i # ys) \<subseteq> {..<length (c_ce c)}"
    using assms ring_rotate [of _ _ xs "i # ys"] by (auto simp: cring_def)
  have m: "e_next (c_ce c ! i) \<in> set (xs @ i # ys)" "e_prev (c_ce c ! i) \<in> set (xs @ i # ys)"
    using ring_closed [OF r, of i] by auto
  then have lt: "i < length (c_ce c)" "e_next (c_ce c ! i) < length (c_ce c)" "e_prev (c_ce c ! i) < length (c_ce c)"
    using b by auto
  have "ring (\<lambda>j. e_next (c_ce (remove_entry i c) ! j)) (\<lambda>j. e_prev (c_ce (remove_entry i c) ! j)) (ys @ xs)"
    using r by (rule ring_remove) (use lt in \<open>auto simp: remove_entry_def ent_upd Let_def\<close>)
  then show "cring (c_ce (remove_entry i c)) (xs @ ys)"
    using b links_only_remove [of c i] by (auto simp: cring_def ring_rotate [of _ _ xs] links_only_def)
  show "j \<notin> set (xs @ i # ys) \<Longrightarrow> c_ce (remove_entry i c) ! j = c_ce c ! j"
    using m by (auto simp: remove_entry_def ent_upd Let_def)
qed

lemma cring_after:
  assumes "cring (c_ce c) (xs @ x # ys)" and "i \<notin> set (xs @ x # ys)" and "i < length (c_ce c)"
  shows "cring (c_ce (add_entry_after i x c)) (xs @ x # i # ys)"
    and "j \<notin> set (i # xs @ x # ys) \<Longrightarrow> c_ce (add_entry_after i x c) ! j = c_ce c ! j"
proof -
  have r: "ring (\<lambda>i. e_next (c_ce c ! i)) (\<lambda>i. e_prev (c_ce c ! i)) ((ys @ xs) @ [x])"
    and b: "set (xs @ x # ys) \<subseteq> {..<length (c_ce c)}"
    using assms ring_rotate [of _ _ "xs @ [x]" ys] by (auto simp: cring_def)
  have m: "e_next (c_ce c ! x) \<in> set (xs @ x # ys)"
    using ring_closed [OF r, of x] by auto
  have p: "e_prev (c_ce c ! (e_next (c_ce c ! x))) = x"
    using ring_closed(3) [OF r, of x] by simp
  have lt: "x < length (c_ce c)" "e_next (c_ce c ! x) < length (c_ce c)" "i \<noteq> x" "i \<noteq> e_next (c_ce c ! x)"
    using b m assms(2) by auto
  have "ring (\<lambda>j. e_next (c_ce (add_entry_after i x c) ! j)) (\<lambda>j. e_prev (c_ce (add_entry_after i x c) ! j))
      ((ys @ xs) @ [x, i])"
    using r by (rule ring_insert)
      (use lt assms(2,3) p in \<open>auto simp: add_entry_after_def ent_upd Let_def\<close>)
  then have "ring (\<lambda>j. e_next (c_ce (add_entry_after i x c) ! j)) (\<lambda>j. e_prev (c_ce (add_entry_after i x c) ! j))
      (xs @ x # i # ys)"
    using ring_rotate [of _ _ ys "xs @ [x, i]"] by simp
  then show "cring (c_ce (add_entry_after i x c)) (xs @ x # i # ys)"
    using b assms(3) links_only_after [of c i x] by (auto simp: cring_def links_only_def)
  show "j \<notin> set (i # xs @ x # ys) \<Longrightarrow> c_ce (add_entry_after i x c) ! j = c_ce c ! j"
    using m by (auto simp: add_entry_after_def ent_upd Let_def)
qed

text \<open>Inserting before \<open>x\<close> is inserting after the predecessor of \<open>x\<close>.\<close>

lemma before_after:
  assumes "cring (c_ce c) (xs @ x # ys)" and "i \<notin> set (xs @ x # ys)"
  shows "add_entry_before i x c = add_entry_after i (e_prev (c_ce c ! x)) c"
proof -
  have "e_next (c_ce c ! (e_prev (c_ce c ! x))) = x"
    using assms(1) ring_closed(4) [of "\<lambda>i. e_next (c_ce c ! i)" "\<lambda>i. e_prev (c_ce c ! i)" "xs @ x # ys" x] by (auto simp: cring_def)
  then show ?thesis
    by (simp add: add_entry_before_def add_entry_after_def Let_def)
qed

lemma cring_before:
  assumes "cring (c_ce c) (xs @ x # ys)" and "i \<notin> set (xs @ x # ys)" and "i < length (c_ce c)"
  shows "cring (c_ce (add_entry_before i x c)) (xs @ i # x # ys)"
    and "j \<notin> set (i # xs @ x # ys) \<Longrightarrow> c_ce (add_entry_before i x c) ! j = c_ce c ! j"
proof -
  have b: "add_entry_before i x c = add_entry_after i (e_prev (c_ce c ! x)) c"
    using assms(1,2) by (rule before_after)
  have r: "cring (c_ce c) (x # ys @ xs)"
    using assms(1) cring_rotate [of "c_ce c" xs "x # ys"] by simp
  obtain us l where us: "x # ys @ xs = us @ [l]"
    by (metis list.discI rev_exhaust)
  have l: "e_prev (c_ce c ! x) = l"
    using r ring_wrapD [of _ _ x "ys @ xs"] by (auto simp: cring_def us)
  have s: "set (us @ l # []) = set (xs @ x # ys)"
    using us by (auto simp del: append.simps simp add: us [symmetric])
  have u: "cring (c_ce c) (us @ l # [])"
    using r by (simp add: us)
  note after = cring_after [OF u, unfolded s, of i]
  have "cring (c_ce (add_entry_after i l c)) ((x # ys) @ (xs @ [i]))"
    using after(1) assms(2,3) us by (metis append.assoc append_Cons append_Nil)
  then show "cring (c_ce (add_entry_before i x c)) (xs @ i # x # ys)"
    using cring_rotate [of _ "x # ys" "xs @ [i]"] by (simp add: b l)
  have "set (i # us @ l # []) = set (i # xs @ x # ys)"
    using s by auto
  then show "j \<notin> set (i # xs @ x # ys) \<Longrightarrow> c_ce (add_entry_before i x c) ! j = c_ce c ! j"
    using after(2) assms(2,3) by (simp add: b l)
qed

subsection \<open>The specification\<close>

text \<open>
  The partitions in the order of the main list: precious entries (most recently used first), their
  ghosts, the unused entries, ghosts of probed entries, and the probed entries (most recently used
  last).
\<close>

record acache =
  a_prec :: "nat list"
  a_gprec :: "nat list"
  a_unused :: "nat list"
  a_gprobe :: "nat list"
  a_probe :: "nat list"
  a_infl :: "nat list"
  a_dprobe :: nat
  a_cap :: nat
  a_hits :: u64
  a_misses :: u64
  a_cleanup :: bool
  a_cleaned :: "(nat \<times> content) list"
  a_cont :: "nat \<Rightarrow> content"

definition a_main :: "acache \<Rightarrow> nat list" where
  "a_main a = a_prec a @ a_gprec a @ a_unused a @ a_gprobe a @ a_probe a"

definition a_upd :: "nat \<Rightarrow> (content \<Rightarrow> content) \<Rightarrow> acache \<Rightarrow> acache" where
  "a_upd i f a = a\<lparr>a_cont := (a_cont a)(i := f (a_cont a i))\<rparr>"

definition a_find :: "u64 \<Rightarrow> nat list \<Rightarrow> acache \<Rightarrow> nat option" where
  "a_find key xs a = find (\<lambda>i. k_key (a_cont a i) = key) xs"

definition a_idle :: "nat list \<Rightarrow> acache \<Rightarrow> nat list" where
  "a_idle xs a = filter (\<lambda>i. k_ref (a_cont a i) = 0) xs"

definition a_clean :: "nat \<Rightarrow> acache \<Rightarrow> acache" where
  "a_clean i a = (if a_cleanup a then a\<lparr>a_cleaned := a_cleaned a @ [(i, a_cont a i)]\<rparr> else a)"

text \<open>
  Eviction takes the least recently used entry that nobody refers to, from the probed entries if
  there are more than \<open>dprobe\<close>.
\<close>

definition a_evict :: "nat \<Rightarrow> acache \<Rightarrow> (nat \<times> acache) option" where
  "a_evict bias a =
     (if a_idle (a_probe a) a \<noteq> [] \<and> (a_idle (a_prec a) a = [] \<or> length (a_probe a) + bias > a_dprobe a)
      then let i = hd (a_idle (a_probe a) a)
        in Some (i, a_clean i (a\<lparr>a_probe := remove1 i (a_probe a), a_gprobe := a_gprobe a @ [i]\<rparr>))
      else if a_idle (a_prec a) a \<noteq> []
      then let i = last (a_idle (a_prec a) a)
        in Some (i, a_clean i (a\<lparr>a_prec := remove1 i (a_prec a), a_gprec := i # a_gprec a\<rparr>))
      else None)"

definition a_set_data :: "nat \<Rightarrow> nat option \<Rightarrow> acache \<Rightarrow> acache" where
  "a_set_data i d = a_upd i (\<lambda>k. k\<lparr>k_data := d\<rparr>)"

definition a_reclaim :: "acache \<Rightarrow> (nat option \<times> acache) option" where
  "a_reclaim a = do {
     (i, a) \<leftarrow> (if length (a_prec a) + length (a_probe a) + length (a_infl a) < a_cap a
                then if a_unused a = [] then None else Some (last (a_unused a), a)
                else a_evict 0 a);
     Some (k_data (a_cont a i), a_set_data i None a)
   }"

text \<open>The entry for a key that is not there: an unused one, or else the oldest ghost.\<close>

definition a_free_slot :: "acache \<Rightarrow> acache" where
  "a_free_slot a =
     (if a_unused a \<noteq> [] then a
      else if a_gprobe a \<noteq> [] then a\<lparr>a_gprobe := tl (a_gprobe a), a_unused := [hd (a_gprobe a)]\<rparr>
      else a\<lparr>a_gprec := butlast (a_gprec a), a_unused := [last (a_gprec a)]\<rparr>)"

definition a_launch :: "nat \<Rightarrow> (content \<Rightarrow> content) \<Rightarrow> acache \<Rightarrow> acache" where
  "a_launch i f a = a_upd i f (a\<lparr>a_infl := a_infl a @ [i]\<rparr>)"

definition a_missed :: "u64 \<Rightarrow> acache \<Rightarrow> (nat \<times> acache) option" where
  "a_missed key a = do {
     let a = a_free_slot a;
     let i = last (a_unused a);
     a \<leftarrow> (if k_data (a_cont a i) = None
           then do {
             (j, a) \<leftarrow> a_evict 1 a;
             Some (a_set_data j None (a_set_data i (k_data (a_cont a j)) a))
           }
           else Some a);
     Some (i, a_launch i (\<lambda>k. k\<lparr>k_key := key, k_state := Cs_probe\<rparr>) (a\<lparr>a_unused := butlast (a_unused a)\<rparr>))
   }"

text \<open>A hit among the ghosts moves the balance of the two partitions.\<close>

definition a_shift :: "nat \<Rightarrow> nat \<Rightarrow> nat" where
  "a_shift m n = (if m > n then m div n else 1)"

definition a_ghost :: "u64 \<Rightarrow> acache \<Rightarrow> (nat \<times> acache) option" where
  "a_ghost key a =
     (case a_find key (a_gprec a) a of
        Some i \<Rightarrow> do {
          (d, a) \<leftarrow> a_reclaim (a\<lparr>a_dprobe := a_dprobe a - a_shift (length (a_gprobe a)) (length (a_gprec a))\<rparr>);
          Some (i, a_launch i (\<lambda>k. k\<lparr>k_data := d, k_state := Cs_precious\<rparr>) (a\<lparr>a_gprec := remove1 i (a_gprec a)\<rparr>))
        }
      | None \<Rightarrow>
          (case a_find key (rev (a_gprobe a)) a of
             Some i \<Rightarrow> do {
               (d, a) \<leftarrow> a_reclaim (a\<lparr>a_dprobe :=
                           min (a_cap a) (a_dprobe a + a_shift (length (a_gprec a)) (length (a_gprobe a)))\<rparr>);
               Some (i, a_launch i (\<lambda>k. k\<lparr>k_data := d, k_state := Cs_precious\<rparr>) (a\<lparr>a_gprobe := remove1 i (a_gprobe a)\<rparr>))
             }
           | None \<Rightarrow> a_missed key a))"

definition a_inuse :: "acache \<Rightarrow> nat" where
  "a_inuse a =
     length (a_prec a) - length (a_idle (a_prec a) a) +
     (length (a_probe a) - length (a_idle (a_probe a) a)) + length (a_infl a)"

definition a_miss :: "u64 \<Rightarrow> acache \<Rightarrow> (nat option \<times> acache) option" where
  "a_miss key a =
     (case a_find key (a_infl a) a of
        Some i \<Rightarrow> Some (Some i, (a_upd i (\<lambda>k. k\<lparr>k_state := Cs_precious\<rparr>) a)\<lparr>a_misses := a_misses a + 1\<rparr>)
      | None \<Rightarrow>
          if a_inuse a \<ge> a_cap a then Some (None, a)
          else do {
            (i, a) \<leftarrow> a_ghost key a;
            Some (Some i, a\<lparr>a_misses := a_misses a + 1\<rparr>)
          })"

definition a_get_noref :: "u64 \<Rightarrow> acache \<Rightarrow> (nat option \<times> acache) option" where
  "a_get_noref key a =
     (case a_find key (a_prec a) a of
        Some i \<Rightarrow> Some (Some i, a\<lparr>a_prec := i # remove1 i (a_prec a), a_hits := a_hits a + 1\<rparr>)
      | None \<Rightarrow>
          (case a_find key (rev (a_probe a)) a of
             Some i \<Rightarrow> Some (Some i, a\<lparr>a_probe := remove1 i (a_probe a), a_prec := i # a_prec a,
                                       a_hits := a_hits a + 1\<rparr>)
           | None \<Rightarrow> a_miss key a))"

definition a_get :: "u64 \<Rightarrow> acache \<Rightarrow> (nat option \<times> acache) option" where
  "a_get key a = do {
     (r, a) \<leftarrow> a_get_noref key a;
     Some (r, case r of None \<Rightarrow> a | Some i \<Rightarrow> a_upd i (\<lambda>k. k\<lparr>k_ref := uinc (k_ref k)\<rparr>) a)
   }"

definition a_insert :: "nat \<Rightarrow> acache \<Rightarrow> acache" where
  "a_insert i a =
     (case k_state (a_cont a i) of
        Cs_valid \<Rightarrow> a
      | Cs_probe \<Rightarrow> a_upd i (\<lambda>k. k\<lparr>k_state := Cs_valid\<rparr>) (a\<lparr>a_infl := remove1 i (a_infl a), a_probe := a_probe a @ [i]\<rparr>)
      | Cs_precious \<Rightarrow> a_upd i (\<lambda>k. k\<lparr>k_state := Cs_valid\<rparr>) (a\<lparr>a_infl := remove1 i (a_infl a), a_prec := i # a_prec a\<rparr>))"

definition a_put :: "nat \<Rightarrow> acache \<Rightarrow> acache" where
  "a_put i = a_upd i (\<lambda>k. k\<lparr>k_ref := udec (k_ref k)\<rparr>)"

definition a_discard :: "nat \<Rightarrow> acache \<Rightarrow> acache" where
  "a_discard i a =
     (let a = a_put i a
      in if k_ref (a_cont a i) \<noteq> 0 \<or> k_state (a_cont a i) = Cs_valid then a
         else a\<lparr>a_infl := remove1 i (a_infl a), a_unused := a_unused a @ [i]\<rparr>)"

subsection \<open>The simulation relation\<close>

definition rep_core :: "pcache \<Rightarrow> acache \<Rightarrow> bool" where
  "rep_core c a \<longleftrightarrow>
     cring (c_ce c) (a_main a) \<and> cring (c_ce c) (a_infl a) \<and> distinct (a_main a @ a_infl a)
     \<and> length (a_main a @ a_infl a) = 2 * a_cap a \<and> length (c_ce c) = 2 * a_cap a
     \<and> 0 < a_cap a \<and> 4 * a_cap a < UINT_SIZE \<and> a_dprobe a \<le> a_cap a
     \<and> c_split c = last (a_main a) \<and> (a_infl a \<noteq> [] \<longrightarrow> c_inflight c = hd (a_infl a))
     \<and> c_nprec c = length (a_prec a) \<and> c_nprobe c = length (a_probe a)
     \<and> c_ninflight c = length (a_infl a) \<and> c_dprobe c = a_dprobe a \<and> c_cap c = a_cap a
     \<and> c_hits c = a_hits a \<and> c_misses c = a_misses a \<and> c_cleanup c = a_cleanup a
     \<and> map (\<lambda>(i, e). (i, cont e)) (c_cleaned c) = a_cleaned a \<and> conts (c_ce c) = a_cont a"

definition rep :: "pcache \<Rightarrow> acache \<Rightarrow> bool" where
  "rep c a \<longleftrightarrow> rep_core c a \<and> c_ngprec c = length (a_gprec a) \<and> c_ngprobe c = length (a_gprobe a)"

text \<open>There are buffers for the cached entries and those in flight.\<close>

definition a_room :: "acache \<Rightarrow> bool" where
  "a_room a \<longleftrightarrow> length (a_prec a) + length (a_probe a) + length (a_infl a) \<le> a_cap a"

text \<open>The loops over a path of the list.\<close>

lemma conts_key: "k_key (conts es i) = e_key (es ! i)" "k_ref (conts es i) = e_refcnt (es ! i)"
    "k_state (conts es i) = e_state (es ! i)" "k_data (conts es i) = e_data (es ! i)"
  by (simp_all add: conts_def cont_def)

lemma find_key_path:
  assumes "links (\<lambda>i. nx (c_ce c ! i)) p (xs @ [z])"
  shows "find_key nx (length xs) (hd (xs @ [z])) key c =
    (case find (\<lambda>i. k_key (conts (c_ce c) i) = key) xs of Some i \<Rightarrow> Inl i | None \<Rightarrow> Inr z)"
  using assms
proof (induction xs)
  case (Cons x xs)
  then show ?case
    by (cases xs) (auto simp: conts_key)
qed simp

lemma find_cached_path:
  assumes "links (\<lambda>i. nx (c_ce c ! i)) p (xs @ [z])" and "nz + length xs < UINT_SIZE - 1"
  shows "find_cached nx (length xs) (hd (xs @ [z])) key c z0 nz =
    (case find (\<lambda>i. k_key (conts (c_ce c) i) = key) xs of
       Some i \<Rightarrow> Inl i
     | None \<Rightarrow>
         let idle = filter (\<lambda>i. k_ref (conts (c_ce c) i) = 0) xs
         in Inr (z, if idle = [] then z0 else Some (last idle), nz + length idle))"
  using assms
proof (induction xs arbitrary: z0 nz)
  case (Cons x xs)
  have "links (\<lambda>i. nx (c_ce c ! i)) p (xs @ [z])" "nx (c_ce c ! x) = hd (xs @ [z])"
    using Cons.prems(1) by (cases xs; simp)+
  then show ?case
    using Cons.IH Cons.prems(2) by (auto simp: conts_key Let_def uinc_less split: option.splits)
qed simp

lemma walk_prev_path:
  assumes "links (\<lambda>i. e_prev (c_ce c ! i)) p (xs @ [z])"
  shows "walk_prev c (length xs) (hd (xs @ [z])) = z"
  using assms
proof (induction xs)
  case (Cons x xs)
  then show ?case
    by (cases xs) auto
qed simp

text \<open>The loops over a part of the main list, forwards and backwards.\<close>

lemma hd_rev_last: "hd (rev xs @ [last (xs @ ys)]) = (if xs = [] then last ys else last xs)"
  by (simp add: hd_rev hd_append)

lemma ring_loops:
  assumes "cring (c_ce c) (xs @ ys @ zs)" and "xs @ ys @ zs \<noteq> []"
  shows "find_key e_next (length ys) (hd (ys @ zs @ xs)) key c =
      (case find (\<lambda>i. k_key (conts (c_ce c) i) = key) ys of Some i \<Rightarrow> Inl i | None \<Rightarrow> Inr (hd (zs @ xs @ ys)))"
    and "find_key e_prev (length ys) (last (zs @ xs @ ys)) key c =
      (case find (\<lambda>i. k_key (conts (c_ce c) i) = key) (rev ys) of Some i \<Rightarrow> Inl i | None \<Rightarrow> Inr (last (ys @ zs @ xs)))"
    and "length ys < UINT_SIZE - 1 \<Longrightarrow> find_cached e_next (length ys) (hd (ys @ zs @ xs)) key c None 0 =
      (case find (\<lambda>i. k_key (conts (c_ce c) i) = key) ys of
         Some i \<Rightarrow> Inl i
       | None \<Rightarrow>
           let idle = filter (\<lambda>i. k_ref (conts (c_ce c) i) = 0) ys
           in Inr (hd (zs @ xs @ ys), if idle = [] then None else Some (last idle), length idle))"
    and "length ys < UINT_SIZE - 1 \<Longrightarrow> find_cached e_prev (length ys) (last (zs @ xs @ ys)) key c None 0 =
      (case find (\<lambda>i. k_key (conts (c_ce c) i) = key) (rev ys) of
         Some i \<Rightarrow> Inl i
       | None \<Rightarrow>
           let idle = filter (\<lambda>i. k_ref (conts (c_ce c) i) = 0) ys
           in Inr (last (ys @ zs @ xs), if idle = [] then None else Some (hd idle), length idle))"
    and "walk_prev c (length ys) (last (zs @ xs @ ys)) = last (ys @ zs @ xs)"
proof -
  have f: "links (\<lambda>i. e_next (c_ce c ! i)) (\<lambda>i. e_prev (c_ce c ! i)) (ys @ [hd (zs @ xs @ ys)])"
    and b: "links (\<lambda>i. e_prev (c_ce c ! i)) (\<lambda>i. e_next (c_ce c ! i)) (rev ys @ [last (ys @ zs @ xs)])"
    using ring_part [of _ _ xs ys zs] assms by (auto simp: cring_def)
  have h: "hd (ys @ [hd (zs @ xs @ ys)]) = hd (ys @ zs @ xs)"
      "hd (rev ys @ [last (ys @ zs @ xs)]) = last (zs @ xs @ ys)"
    using assms(2) by (cases ys; auto simp: hd_append hd_rev)+
  show "find_key e_next (length ys) (hd (ys @ zs @ xs)) key c =
      (case find (\<lambda>i. k_key (conts (c_ce c) i) = key) ys of Some i \<Rightarrow> Inl i | None \<Rightarrow> Inr (hd (zs @ xs @ ys)))"
    using find_key_path [OF f, of key] by (simp only: h)
  show "find_key e_prev (length ys) (last (zs @ xs @ ys)) key c =
      (case find (\<lambda>i. k_key (conts (c_ce c) i) = key) (rev ys) of Some i \<Rightarrow> Inl i | None \<Rightarrow> Inr (last (ys @ zs @ xs)))"
    using find_key_path [OF b, of key] by (simp only: h length_rev)
  show "length ys < UINT_SIZE - 1 \<Longrightarrow> find_cached e_next (length ys) (hd (ys @ zs @ xs)) key c None 0 =
      (case find (\<lambda>i. k_key (conts (c_ce c) i) = key) ys of
         Some i \<Rightarrow> Inl i
       | None \<Rightarrow>
           let idle = filter (\<lambda>i. k_ref (conts (c_ce c) i) = 0) ys
           in Inr (hd (zs @ xs @ ys), if idle = [] then None else Some (last idle), length idle))"
    using find_cached_path [OF f, of 0 key None] by (simp add: h Let_def split: option.splits)
  show "length ys < UINT_SIZE - 1 \<Longrightarrow> find_cached e_prev (length ys) (last (zs @ xs @ ys)) key c None 0 =
      (case find (\<lambda>i. k_key (conts (c_ce c) i) = key) (rev ys) of
         Some i \<Rightarrow> Inl i
       | None \<Rightarrow>
           let idle = filter (\<lambda>i. k_ref (conts (c_ce c) i) = 0) ys
           in Inr (last (ys @ zs @ xs), if idle = [] then None else Some (hd idle), length idle))"
    using find_cached_path [OF b, of 0 key None] by (simp add: h Let_def rev_filter [symmetric] last_rev split: option.splits)
  show "walk_prev c (length ys) (last (zs @ xs @ ys)) = last (ys @ zs @ xs)"
    using walk_prev_path [OF b] by (simp only: h length_rev)
qed

subsection \<open>Moving entries\<close>

text \<open>
  What the operations do to a circular list \<open>xs\<close> of the array: \<open>moves es es' xs xs'\<close> says that they
  make it \<open>xs'\<close> and change neither the contents of entries nor the links of others.
\<close>

definition moves :: "centry list \<Rightarrow> centry list \<Rightarrow> nat list \<Rightarrow> nat list \<Rightarrow> bool" where
  "moves es es' xs xs' \<longleftrightarrow> length es' = length es \<and> conts es' = conts es \<and> cring es' xs'
     \<and> (\<forall>j. j \<notin> set xs \<union> set xs' \<longrightarrow> es' ! j = es ! j)"

lemma cring_other:
  assumes "cring es ys" and "\<forall>j\<in>set ys. es' ! j = es ! j" and "length es' = length es"
  shows "cring es' ys"
  using assms ring_cong [of "\<lambda>i. e_next (es ! i)" "\<lambda>i. e_prev (es ! i)" ys] by (auto simp: cring_def)

lemma moves_other:
  assumes "moves es es' xs xs'" and "cring es ys" and "set ys \<inter> (set xs \<union> set xs') = {}"
  shows "cring es' ys"
proof (rule cring_other [OF assms(2)])
  show "\<forall>j\<in>set ys. es' ! j = es ! j"
    using assms(1,3) unfolding moves_def by blast
qed (use assms(1) in \<open>simp add: moves_def\<close>)

lemma moves_remove: "cring (c_ce c) (xs @ i # ys) \<Longrightarrow> moves (c_ce c) (c_ce (remove_entry i c)) (xs @ i # ys) (xs @ ys)"
  using cring_remove [of c xs i ys] by (auto simp: moves_def)

lemma moves_after:
  "cring (c_ce c) (xs @ x # ys) \<Longrightarrow> i \<notin> set (xs @ x # ys) \<Longrightarrow> i < length (c_ce c) \<Longrightarrow>
   moves (c_ce c) (c_ce (add_entry_after i x c)) (xs @ x # ys) (xs @ x # i # ys)"
  using cring_after [of c xs x ys i] by (auto simp: moves_def)

lemma moves_before:
  "cring (c_ce c) (xs @ x # ys) \<Longrightarrow> i \<notin> set (xs @ x # ys) \<Longrightarrow> i < length (c_ce c) \<Longrightarrow>
   moves (c_ce c) (c_ce (add_entry_before i x c)) (xs @ x # ys) (xs @ i # x # ys)"
  using cring_before [of c xs x ys i] by (auto simp: moves_def)

lemma moves_trans:
  assumes "moves es es' xs xs'" and "moves es' es'' xs' xs''" and "set xs' \<subseteq> set xs \<union> set xs''"
  shows "moves es es'' xs xs''"
  using assms unfolding moves_def by (metis (no_types, lifting) UnCI UnE subsetD)

lemma moves_rotate:
  "moves es es' (xs @ ys) zs \<longleftrightarrow> moves es es' (ys @ xs) zs"
  "moves es es' zs (xs @ ys) \<longleftrightarrow> moves es es' zs (ys @ xs)"
  by (auto simp: moves_def cring_rotate)

lemma moves_refl: "cring es xs \<Longrightarrow> moves es es xs xs"
  by (simp add: moves_def)

text \<open>A neighbour in a circular list.\<close>

lemma cring_prev:
  assumes "cring es (xs @ i # ys)"
  shows "e_prev (es ! i) = last (i # ys @ xs)" and "e_next (es ! i) = hd (ys @ xs @ [i])"
proof -
  have r: "ring (\<lambda>i. e_next (es ! i)) (\<lambda>i. e_prev (es ! i)) (xs @ [i] @ ys)"
    using assms by (simp add: cring_def)
  show "e_prev (es ! i) = last (i # ys @ xs)"
    using ring_part(2) [OF r] by simp
  show "e_next (es ! i) = hd (ys @ xs @ [i])"
    using ring_part(1) [OF r] by simp
qed

lemma cring_length: "cring es xs \<Longrightarrow> x \<in> set xs \<Longrightarrow> x < length es"
  by (auto simp: cring_def)

lemma cring_distinct: "cring es xs \<Longrightarrow> distinct xs"
  using ring_distinct by (auto simp: cring_def)

text \<open>A hit moves the entry behind the split point, which is the last element of the list.\<close>

lemma reuse_moves:
  assumes "cring (c_ce c) (xs @ i # ys)" and "c_split c = last (xs @ i # ys)" and "xs @ ys \<noteq> []"
  shows "moves (c_ce c) (c_ce (reuse_cached_entry i c)) (xs @ i # ys) (i # xs @ ys)
    \<and> c_split (reuse_cached_entry i c) = last (xs @ ys)"
proof -
  have d: "distinct (xs @ i # ys)" "i < length (c_ce c)"
    using cring_distinct [OF assms(1)] cring_length [OF assms(1), of i] by simp_all
  consider "ys = []" | "xs = []" | x xs' y ys' where "xs = xs' @ [x]" "ys = ys' @ [y]"
    by (metis rev_exhaust)
  then show ?thesis
  proof cases
    case 1
    then have "c_split c = i" "e_prev (c_ce c ! i) = last xs"
      using assms(2,3) cring_prev [OF assms(1)] by simp_all
    then show ?thesis
      using moves_refl [OF assms(1)] moves_rotate(2) [of _ _ _ xs "[i]"] 1 by (simp add: reuse_cached_entry_def)
  next
    case 2
    then have "c_split c = last ys" "e_prev (c_ce c ! i) = last ys"
      using assms(2,3) cring_prev [OF assms(1)] by simp_all
    then show ?thesis
      using moves_refl [OF assms(1)] 2 by (simp add: reuse_cached_entry_def)
  next
    case 3
    let ?r = "remove_entry i c"
    let ?a = "add_entry_after i y ?r"
    have s: "c_split c = y" "y \<noteq> i" "e_prev (c_ce c ! i) = x" "x \<noteq> y"
      using assms(2) d cring_prev [OF assms(1)] by (auto simp: 3)
    have r: "moves (c_ce c) (c_ce ?r) (xs @ i # ys) (xs @ ys)"
      by (rule moves_remove [OF assms(1)])
    moreover have "moves (c_ce ?r) (c_ce ?a) ((xs @ ys') @ y # []) ((xs @ ys') @ y # i # [])"
      using r d by (intro moves_after) (auto simp: moves_def 3)
    ultimately have m: "moves (c_ce c) (c_ce ?a) (xs @ i # ys) ((xs @ ys) @ [i])"
      using moves_trans [of "c_ce c" "c_ce ?r" "xs @ i # ys" "xs @ ys" "c_ce ?a" "(xs @ ys) @ [i]"] by (auto simp: 3)
    then have "e_prev (c_ce ?a ! i) = y"
      using cring_prev(1) [of "c_ce ?a" "xs @ ys" i "[]"] by (auto simp: moves_def 3)
    then show ?thesis
      using m moves_rotate(2) [of _ _ _ "xs @ ys" "[i]"] s by (simp add: reuse_cached_entry_def Let_def 3)
  qed
qed

lemma disjoint_ends:
  "set xs \<inter> set ys = {} \<Longrightarrow> xs \<noteq> [] \<Longrightarrow> ys \<noteq> [] \<Longrightarrow> last xs \<noteq> last ys \<and> hd xs \<noteq> hd ys"
  by (metis IntI empty_iff hd_in_set last_in_set)

text \<open>An eviction moves the entry across the border of its partition.\<close>

lemma evict_probe_moves:
  assumes "cring (c_ce c) (xs @ ys @ i # zs)" and "xs \<noteq> []" and "c_split c = last (ys @ i # zs)"
    and "cs_zprobe cs = Some i" and "cs_gprobe cs = last xs"
  shows "\<exists>c'. evict_probe cs c = Some (i, c'\<lparr>c_nprobe := udec (c_nprobe c), c_ngprobe := uinc (c_ngprobe c)\<rparr>)
    \<and> moves (c_ce c) (c_ce c') (xs @ ys @ i # zs) (xs @ i # ys @ zs) \<and> c_split c' = last (xs @ i # ys @ zs)
    \<and> links_only (c\<lparr>c_split := c_split c'\<rparr>) c'"
proof (cases "ys = []")
  case True
  then have "e_prev (c_ce c ! i) = last xs"
    using assms(2) cring_prev(1) [of "c_ce c" "xs @ ys" i zs] assms(1) by simp
  moreover have "links_only (c\<lparr>c_split := c_split c\<rparr>) c"
    by (simp add: links_only_refl)
  ultimately show ?thesis
    using assms moves_refl [OF assms(1)] True by (intro exI [of _ c]) (simp add: evict_probe_def)
next
  case False
  have d: "distinct (xs @ ys @ i # zs)" "i < length (c_ce c)"
    using cring_distinct [OF assms(1)] cring_length [OF assms(1), of i] by simp_all
  have p: "e_prev (c_ce c ! i) = last ys" "last ys \<noteq> last xs"
    using False assms(1,2) d cring_prev(1) [of "c_ce c" "xs @ ys" i zs] disjoint_ends [of ys xs] by auto
  define c0 where "c0 = (if i = c_split c then c\<lparr>c_split := e_prev (c_ce c ! i)\<rparr> else c)"
  have c0: "c_ce c0 = c_ce c" "c_split c0 = last (ys @ zs)" "c_nprobe c0 = c_nprobe c" "c_ngprobe c0 = c_ngprobe c"
    using p d assms(3) False by (auto simp: c0_def)
  have s0: "links_only (c\<lparr>c_split := c_split c0\<rparr>) c0"
    by (cases "i = c_split c") (simp_all add: c0_def links_only_refl)
  obtain xs' x where xs: "xs = xs' @ [x]"
    using assms(2) by (metis rev_exhaust)
  let ?r = "remove_entry i c0"
  let ?a = "add_entry_after i x ?r"
  have r: "moves (c_ce c) (c_ce ?r) (xs @ ys @ i # zs) (xs @ ys @ zs)"
    using moves_remove [of c0 "xs @ ys" i zs] assms(1) by (simp add: c0)
  moreover have "moves (c_ce ?r) (c_ce ?a) (xs' @ x # ys @ zs) (xs' @ x # i # ys @ zs)"
    using r d by (intro moves_after) (auto simp: moves_def xs)
  ultimately have "moves (c_ce c) (c_ce ?a) (xs @ ys @ i # zs) (xs @ i # ys @ zs)"
    using moves_trans [of "c_ce c" "c_ce ?r" "xs @ ys @ i # zs" "xs @ ys @ zs" "c_ce ?a" "xs @ i # ys @ zs"]
    by (auto simp: xs)
  moreover have "evict_probe cs c = Some (i, ?a\<lparr>c_nprobe := udec (c_nprobe c), c_ngprobe := uinc (c_ngprobe c)\<rparr>)"
    using p assms(4,5) unfolding c0_def by (simp add: evict_probe_def xs)
  moreover have "links_only (c\<lparr>c_split := c_split ?a\<rparr>) ?a"
    using links_only_trans [OF links_only_trans [OF s0 links_only_remove] links_only_after [of ?r i x]] by simp
  ultimately show ?thesis
    using False c0(2) by (intro exI [of _ ?a]) auto
qed

lemma evict_prec_moves:
  assumes "cring (c_ce c) (ys @ i # zs @ xs)" and "xs \<noteq> []" and "cs_zprec cs = Some i" and "cs_gprec cs = hd xs"
  shows "\<exists>c'. evict_prec cs c = Some (i, c'\<lparr>c_nprec := udec (c_nprec c), c_ngprec := uinc (c_ngprec c)\<rparr>)
    \<and> moves (c_ce c) (c_ce c') (ys @ i # zs @ xs) (ys @ zs @ i # xs) \<and> links_only c c'"
proof (cases "zs = []")
  case True
  then have "e_next (c_ce c ! i) = hd xs"
    using assms(2) cring_prev(2) [OF assms(1)] by simp
  then show ?thesis
    using assms moves_refl [OF assms(1)] True
    by (intro exI [of _ c]) (simp add: evict_prec_def links_only_refl)
next
  case False
  have d: "distinct (ys @ i # zs @ xs)" "i < length (c_ce c)"
    using cring_distinct [OF assms(1)] cring_length [OF assms(1), of i] by simp_all
  have p: "e_next (c_ce c ! i) = hd zs" "hd zs \<noteq> hd xs"
    using False assms(2) d cring_prev(2) [OF assms(1)] disjoint_ends [of zs xs] by auto
  obtain x xs' where xs: "xs = x # xs'"
    using assms(2) by (cases xs) auto
  let ?r = "remove_entry i c"
  let ?a = "add_entry_before i x ?r"
  have r: "moves (c_ce c) (c_ce ?r) (ys @ i # zs @ xs) (ys @ zs @ xs)"
    by (rule moves_remove [OF assms(1)])
  moreover have "moves (c_ce ?r) (c_ce ?a) ((ys @ zs) @ x # xs') ((ys @ zs) @ i # x # xs')"
    using r d by (intro moves_before) (auto simp: moves_def xs)
  ultimately have "moves (c_ce c) (c_ce ?a) (ys @ i # zs @ xs) (ys @ zs @ i # xs)"
    using moves_trans [of "c_ce c" "c_ce ?r" "ys @ i # zs @ xs" "ys @ zs @ xs" "c_ce ?a" "ys @ zs @ i # xs"]
    by (auto simp: xs)
  moreover have "evict_prec cs c = Some (i, ?a\<lparr>c_nprec := udec (c_nprec c), c_ngprec := uinc (c_ngprec c)\<rparr>)"
    using p assms(3,4) by (simp add: evict_prec_def xs)
  moreover have "links_only c ?a"
    by (rule links_only_trans [OF links_only_remove links_only_before])
  ultimately show ?thesis
    by blast
qed

subsection \<open>Evictions\<close>

text \<open>What a search has found out when there is no entry with the key among the cached ones.\<close>

definition search_info :: "acache \<Rightarrow> cache_search \<Rightarrow> bool" where
  "search_info a cs \<longleftrightarrow>
     cs_gprec cs = hd (a_gprec a @ a_unused a @ a_gprobe a @ a_probe a)
     \<and> cs_gprobe cs = last (a_prec a @ a_gprec a @ a_unused a @ a_gprobe a)
     \<and> cs_zprec cs = (if a_idle (a_prec a) a = [] then None else Some (last (a_idle (a_prec a) a)))
     \<and> cs_zprobe cs = (if a_idle (a_probe a) a = [] then None else Some (hd (a_idle (a_probe a) a)))
     \<and> cs_nzprec cs = length (a_idle (a_prec a) a) \<and> cs_nzprobe cs = length (a_idle (a_probe a) a)"

lemma rep_parts:
  assumes "rep c a" and "a_room a"
  shows "a_prec a @ a_gprec a @ a_unused a @ a_gprobe a \<noteq> []"
    and "a_gprec a @ a_unused a @ a_gprobe a @ a_probe a \<noteq> []"
    and "a_gprec a @ a_unused a @ a_gprobe a \<noteq> []"
  using assms by (auto simp: rep_def rep_core_def a_main_def a_room_def)

lemma conts_nth: "conts es i = a i \<Longrightarrow> cont (es ! i) = a i"
  by (simp add: conts_def)

lemma rep_call_cleanup: "rep c a \<Longrightarrow> rep (call_cleanup i c) (a_clean i a)"
  by (auto simp: rep_def rep_core_def call_cleanup_def a_clean_def a_main_def conts_def [symmetric])

lemma split_member:
  assumes "i \<in> set xs" and "distinct xs"
  obtains ys zs where "xs = ys @ i # zs" and "remove1 i xs = ys @ zs"
  using split_list_first [OF assms(1)] by (auto simp: remove1_append)

lemma a_idle_mem: "a_idle xs a \<noteq> [] \<Longrightarrow> hd (a_idle xs a) \<in> set xs \<and> last (a_idle xs a) \<in> set xs"
  using hd_in_set [of "a_idle xs a"] last_in_set [of "a_idle xs a"] by (auto simp: a_idle_def)

lemma rep_evict_probe:
  assumes "rep c a" and "search_info a cs" and "a_idle (a_probe a) a \<noteq> []" and "a_room a"
  shows "\<exists>c'. evict_probe cs c = Some (hd (a_idle (a_probe a) a), c')
    \<and> rep c' (a\<lparr>a_probe := remove1 (hd (a_idle (a_probe a) a)) (a_probe a), a_gprobe := a_gprobe a @ [hd (a_idle (a_probe a) a)]\<rparr>)"
proof -
  define i where "i = hd (a_idle (a_probe a) a)"
  define A where "A = a_prec a @ a_gprec a @ a_unused a @ a_gprobe a"
  have R: "cring (c_ce c) (A @ a_probe a)" "cring (c_ce c) (a_infl a)" "distinct (A @ a_probe a @ a_infl a)"
      "c_split c = last (A @ a_probe a)" "A \<noteq> []"
    using assms(1) rep_parts(1) [OF assms(1,4)] unfolding A_def by (auto simp: rep_def rep_core_def a_main_def)
  have "i \<in> set (a_probe a)" "distinct (a_probe a)"
    using a_idle_mem [OF assms(3)] R(3) by (simp_all add: i_def)
  then obtain ys zs where P: "a_probe a = ys @ i # zs" "remove1 i (a_probe a) = ys @ zs"
    by (rule split_member)
  have "cs_zprobe cs = Some i" "cs_gprobe cs = last A"
    using assms(2,3) by (simp_all add: search_info_def i_def A_def)
  moreover have "c_split c = last (ys @ i # zs)"
    using R(4) P(1) by simp
  ultimately obtain c' where c': "evict_probe cs c = Some (i, c'\<lparr>c_nprobe := udec (c_nprobe c), c_ngprobe := uinc (c_ngprobe c)\<rparr>)"
      "moves (c_ce c) (c_ce c') (A @ ys @ i # zs) (A @ i # ys @ zs)" "c_split c' = last (A @ i # ys @ zs)"
      "links_only (c\<lparr>c_split := c_split c'\<rparr>) c'"
    using evict_probe_moves [of c A ys i zs cs] R(1,5) P by auto
  have "cring (c_ce c') (a_infl a)"
    using moves_other [OF c'(2) R(2)] R(3) by (auto simp: P)
  moreover have "length (a_gprobe a) < 2 * a_cap a"
    using assms(1) by (auto simp: rep_def rep_core_def a_main_def P)
  ultimately have "rep (c'\<lparr>c_nprobe := udec (c_nprobe c), c_ngprobe := uinc (c_ngprobe c)\<rparr>)
      (a\<lparr>a_probe := ys @ zs, a_gprobe := a_gprobe a @ [i]\<rparr>)"
    using assms(1) c'(2,3) links_only_fields [OF c'(4)] P(1)
    by (auto simp: rep_def rep_core_def a_main_def A_def moves_def uinc_less)
  then show ?thesis
    using c'(1) by (auto simp: i_def [symmetric] P(2))
qed

lemma rep_evict_prec:
  assumes "rep c a" and "search_info a cs" and "a_idle (a_prec a) a \<noteq> []" and "a_room a"
  shows "\<exists>c'. evict_prec cs c = Some (last (a_idle (a_prec a) a), c')
    \<and> rep c' (a\<lparr>a_prec := remove1 (last (a_idle (a_prec a) a)) (a_prec a), a_gprec := last (a_idle (a_prec a) a) # a_gprec a\<rparr>)"
proof -
  define i where "i = last (a_idle (a_prec a) a)"
  define B where "B = a_gprec a @ a_unused a @ a_gprobe a @ a_probe a"
  have R: "cring (c_ce c) (a_prec a @ B)" "cring (c_ce c) (a_infl a)" "distinct (a_prec a @ B @ a_infl a)"
      "c_split c = last (a_prec a @ B)" "B \<noteq> []"
    using assms(1) rep_parts [OF assms(1,4)] by (auto simp: rep_def rep_core_def a_main_def B_def)
  have "i \<in> set (a_prec a)" "distinct (a_prec a)"
    using a_idle_mem [OF assms(3)] R(3) by (simp_all add: i_def)
  then obtain ys zs where P: "a_prec a = ys @ i # zs" "remove1 i (a_prec a) = ys @ zs"
    by (rule split_member)
  have "cs_zprec cs = Some i" "cs_gprec cs = hd B"
    using assms(2,3) by (simp_all add: search_info_def i_def B_def)
  then obtain c' where c': "evict_prec cs c = Some (i, c'\<lparr>c_nprec := udec (c_nprec c), c_ngprec := uinc (c_ngprec c)\<rparr>)"
      "moves (c_ce c) (c_ce c') (ys @ i # zs @ B) (ys @ zs @ i # B)" "links_only c c'"
    using evict_prec_moves [of c ys i zs B cs] R(1,5) P by auto
  have "cring (c_ce c') (a_infl a)"
    using moves_other [OF c'(2) R(2)] R(3) by (auto simp: P)
  moreover have "length (a_gprec a) < 2 * a_cap a"
    using assms(1) by (auto simp: rep_def rep_core_def a_main_def P)
  moreover have "last (ys @ zs @ i # B) = last (ys @ i # zs @ B)"
    using R(5) by simp
  ultimately have "rep (c'\<lparr>c_nprec := udec (c_nprec c), c_ngprec := uinc (c_ngprec c)\<rparr>)
      (a\<lparr>a_prec := ys @ zs, a_gprec := i # a_gprec a\<rparr>)"
    using assms(1) c'(2) links_only_fields [OF c'(3)] P(1)
    by (auto simp: rep_def rep_core_def a_main_def B_def moves_def uinc_less)
  then show ?thesis
    using c'(1) by (auto simp: i_def [symmetric] P(2))
qed

lemma rep_evict:
  assumes "rep c a" and "search_info a cs" and "bias \<le> 1" and "a_room a"
  shows "rel_option (rel_prod (=) rep) (evict_entry cs bias c) (a_evict bias a)"
proof -
  have i: "cs_nzprobe cs = 0 \<longleftrightarrow> a_idle (a_probe a) a = []" "cs_nzprec cs = 0 \<longleftrightarrow> a_idle (a_prec a) a = []"
      "uadd (c_nprobe c) bias = length (a_probe a) + bias" "c_dprobe c = a_dprobe a"
    using assms by (auto simp: search_info_def rep_def rep_core_def a_room_def uadd_less)
  show ?thesis
  proof (cases "a_idle (a_probe a) a \<noteq> [] \<and> (a_idle (a_prec a) a = [] \<or> length (a_probe a) + bias > a_dprobe a)")
    case True
    then show ?thesis
      using rep_evict_probe [OF assms(1,2) _ assms(4)] rep_call_cleanup
      by (auto simp: evict_entry_def a_evict_def i Let_def)
  next
    case F: False
    show ?thesis
    proof (cases "a_idle (a_prec a) a = []")
      case True
      then have "cs_zprec cs = None"
        using assms(2) by (simp add: search_info_def)
      then show ?thesis
        using F True by (auto simp: evict_entry_def evict_prec_def a_evict_def i)
    next
      case False
      then show ?thesis
        using F rep_evict_prec [OF assms(1,2) _ assms(4)] rep_call_cleanup
        by (auto simp: evict_entry_def a_evict_def i Let_def)
    qed
  qed
qed

subsection \<open>Entries in flight\<close>

lemma add_inflight_fields [simp]:
  "c_split (add_inflight i c) = c_split c" "c_nprec (add_inflight i c) = c_nprec c"
  "c_ngprec (add_inflight i c) = c_ngprec c" "c_nprobe (add_inflight i c) = c_nprobe c"
  "c_ngprobe (add_inflight i c) = c_ngprobe c" "c_dprobe (add_inflight i c) = c_dprobe c"
  "c_cap (add_inflight i c) = c_cap c" "c_hits (add_inflight i c) = c_hits c"
  "c_misses (add_inflight i c) = c_misses c" "c_cleanup (add_inflight i c) = c_cleanup c"
  "c_cleaned (add_inflight i c) = c_cleaned c" "c_ninflight (add_inflight i c) = uinc (c_ninflight c)"
  by (simp_all add: add_inflight_def Let_def)

lemma add_inflight_moves:
  assumes "cring (c_ce c) I" and "i \<notin> set I" and "i < length (c_ce c)"
    and "c_ninflight c = length I" and "I \<noteq> [] \<longrightarrow> c_inflight c = hd I"
  shows "moves (c_ce c) (c_ce (add_inflight i c)) I (I @ [i])"
    and "c_inflight (add_inflight i c) = hd (I @ [i])"
proof -
  show "c_inflight (add_inflight i c) = hd (I @ [i])"
    using assms(4,5) by (simp add: add_inflight_def Let_def)
  show "moves (c_ce c) (c_ce (add_inflight i c)) I (I @ [i])"
  proof (cases I)
    case Nil
    have "conts (c_ce (upd i (\<lambda>e. e\<lparr>e_next := i, e_prev := i\<rparr>) c)) = conts (c_ce c)"
      by (rule links_only_fields(1) [OF links_only_upd]) (simp add: cont_def)
    then show ?thesis
      using assms(3,4) Nil
      by (auto simp: add_inflight_def moves_def cring_def ring_def ent_upd Let_def upd_def)
  next
    case (Cons h I')
    then have "moves (c_ce c) (c_ce (add_entry_before i h (c\<lparr>c_ninflight := uinc (c_ninflight c)\<rparr>))) ([] @ h # I') ([] @ i # h # I')"
      using moves_before [of "c\<lparr>c_ninflight := uinc (c_ninflight c)\<rparr>" "[]" h I' i] assms(1-3) by simp
    then show ?thesis
      using moves_rotate(2) [of _ _ I "[i]" "h # I'"] assms(4,5) Cons by (simp add: add_inflight_def Let_def)
  qed
qed

text \<open>An entry leaves the main list, and the split point if it is there.\<close>

definition unlink :: "nat \<Rightarrow> pcache \<Rightarrow> pcache" where
  "unlink i c = remove_entry i (if c_split c = i then c\<lparr>c_split := e_prev (ent c i)\<rparr> else c)"

lemma unlink_fields [simp]:
  "c_inflight (unlink i c) = c_inflight c" "c_nprec (unlink i c) = c_nprec c"
  "c_ngprec (unlink i c) = c_ngprec c" "c_nprobe (unlink i c) = c_nprobe c"
  "c_ngprobe (unlink i c) = c_ngprobe c" "c_dprobe (unlink i c) = c_dprobe c"
  "c_cap (unlink i c) = c_cap c" "c_hits (unlink i c) = c_hits c"
  "c_misses (unlink i c) = c_misses c" "c_cleanup (unlink i c) = c_cleanup c"
  "c_cleaned (unlink i c) = c_cleaned c" "c_ninflight (unlink i c) = c_ninflight c"
  by (simp_all add: unlink_def)

lemma unlink_moves:
  assumes "cring (c_ce c) (xs @ i # ys)" and "c_split c = last (xs @ i # ys)" and "xs @ ys \<noteq> []"
  shows "moves (c_ce c) (c_ce (unlink i c)) (xs @ i # ys) (xs @ ys)" and "c_split (unlink i c) = last (xs @ ys)"
proof -
  show "moves (c_ce c) (c_ce (unlink i c)) (xs @ i # ys) (xs @ ys)"
    using moves_remove [of "c\<lparr>c_split := e_prev (ent c i)\<rparr>" xs i ys] moves_remove [of c xs i ys] assms(1)
    by (simp add: unlink_def)
  show "c_split (unlink i c) = last (xs @ ys)"
    using assms cring_prev(1) [OF assms(1)] cring_distinct [OF assms(1)] by (auto simp: unlink_def)
qed

lemma launch_moves:
  assumes "cring (c_ce c) (xs @ i # ys)" and "c_split c = last (xs @ i # ys)" and "xs @ ys \<noteq> []"
    and "cring (c_ce c) I" and "distinct (xs @ i # ys @ I)"
    and "c_ninflight c = length I" and "I \<noteq> [] \<longrightarrow> c_inflight c = hd I"
  shows "cring (c_ce (add_inflight i (unlink i c))) (xs @ ys)" and "cring (c_ce (add_inflight i (unlink i c))) (I @ [i])"
    and "conts (c_ce (add_inflight i (unlink i c))) = conts (c_ce c)"
    and "length (c_ce (add_inflight i (unlink i c))) = length (c_ce c)"
    and "c_split (unlink i c) = last (xs @ ys)" and "c_inflight (add_inflight i (unlink i c)) = hd (I @ [i])"
proof -
  note u = unlink_moves [OF assms(1-3)]
  have I: "cring (c_ce (unlink i c)) I"
    using moves_other [OF u(1) assms(4)] assms(5) by auto
  have "i < length (c_ce (unlink i c))"
    using u(1) cring_length [OF assms(1), of i] by (simp add: moves_def)
  note a = add_inflight_moves [OF I _ this, simplified, OF _ assms(6,7)]
  have i: "i \<notin> set I"
    using assms(5) by simp
  show "cring (c_ce (add_inflight i (unlink i c))) (xs @ ys)"
    using moves_other [OF a(1) [OF i], of "xs @ ys"] u(1) assms(5) by (auto simp: moves_def)
  show "cring (c_ce (add_inflight i (unlink i c))) (I @ [i])" "conts (c_ce (add_inflight i (unlink i c))) = conts (c_ce c)"
    "length (c_ce (add_inflight i (unlink i c))) = length (c_ce c)"
    using a(1) [OF i] u(1) by (simp_all add: moves_def)
  show "c_split (unlink i c) = last (xs @ ys)" "c_inflight (add_inflight i (unlink i c)) = hd (I @ [i])"
    using a(2) [OF i] u(2) by simp_all
qed

lemma rep_core_ghosts [simp]:
  "rep_core (c\<lparr>c_ngprec := m\<rparr>) a = rep_core c a" "rep_core (c\<lparr>c_ngprobe := m\<rparr>) a = rep_core c a"
  by (simp_all add: rep_core_def)

lemma search_info_dprobe [simp]: "search_info (a\<lparr>a_dprobe := d\<rparr>) cs = search_info a cs"
  by (simp add: search_info_def a_idle_def)

lemma search_info_ends_only [simp]:
  "search_info a (cs\<lparr>cs_eprec := x\<rparr>) = search_info a cs" "search_info a (cs\<lparr>cs_eprobe := x\<rparr>) = search_info a cs"
  by (simp_all add: search_info_def)

lemma a_room_dprobe [simp]: "a_room (a\<lparr>a_dprobe := d\<rparr>) = a_room a"
  by (simp add: a_room_def)

lemma rep_mem: "rep_core c a \<Longrightarrow> i \<in> set (a_main a) \<union> set (a_infl a) \<Longrightarrow> i < length (c_ce c)"
  by (auto simp: rep_core_def cring_def)

text \<open>Changes of the contents of an entry.\<close>

lemma rep_upd:
  assumes "rep_core c a" and "i < length (c_ce c)"
    and "\<And>e. cont (f e) = g (cont e) \<and> e_next (f e) = e_next e \<and> e_prev (f e) = e_prev e"
  shows "rep_core (upd i f c) (a_upd i g a)"
proof -
  have "conts (c_ce (upd i f c)) = (conts (c_ce c))(i := g (conts (c_ce c) i))"
    using assms(2,3) by (auto simp: conts_def ent_upd)
  moreover have "cring (c_ce (upd i f c)) xs = cring (c_ce c) xs" for xs
    using assms(3) by (simp add: cring_def ent_upd if_distrib cong: if_cong)
  ultimately show ?thesis
    using assms(1) by (simp add: rep_core_def a_upd_def a_main_def)
qed

lemma rep_set_data: "rep c a \<Longrightarrow> i \<in> set (a_main a) \<union> set (a_infl a) \<Longrightarrow> rep (upd i (set_data d) c) (a_set_data i d a)"
  using rep_upd [of c a i "set_data d" "\<lambda>k. k\<lparr>k_data := d\<rparr>"] rep_mem [of c a i]
  by (auto simp: rep_def set_data_def cont_def a_set_data_def) (simp_all add: a_upd_def)

text \<open>The general launch: \<open>i\<close> leaves the main list for the entries in flight.\<close>

lemma rep_launch:
  assumes "rep_core c a" and "a_main a = xs @ i # ys" and "xs @ ys \<noteq> []"
    and "a_prec a @ gp @ u @ gb @ a_probe a = xs @ ys" and "c_ngprec c = length gp" and "c_ngprobe c = length gb"
    and "\<And>e. cont (f e) = g (cont e) \<and> e_next (f e) = e_next e \<and> e_prev (f e) = e_prev e"
  shows "rep (upd i f (add_inflight i (unlink i c)))
    (a_launch i g (a\<lparr>a_gprec := gp, a_unused := u, a_gprobe := gb\<rparr>))"
proof -
  have R: "cring (c_ce c) (xs @ i # ys)" "cring (c_ce c) (a_infl a)" "distinct (xs @ i # ys @ a_infl a)"
      "c_split c = last (xs @ i # ys)" "c_ninflight c = length (a_infl a)"
      "a_infl a \<noteq> [] \<longrightarrow> c_inflight c = hd (a_infl a)" "length (a_infl a) < 2 * a_cap a" "4 * a_cap a < UINT_SIZE"
    using assms(1,2) by (auto simp: rep_core_def)
  note l = launch_moves [OF R(1,4) assms(3) R(2,3,5,6)]
  let ?a = "a\<lparr>a_gprec := gp, a_unused := u, a_gprobe := gb, a_infl := a_infl a @ [i]\<rparr>"
  have "a_main ?a = xs @ ys"
    using assms(4) by (simp add: a_main_def)
  then have "rep_core (add_inflight i (unlink i c)) ?a"
    using assms(1,2) l R by (auto simp: rep_core_def uinc_less)
  then have "rep_core (upd i f (add_inflight i (unlink i c))) (a_upd i g ?a)"
    using rep_mem [of _ ?a i] by (intro rep_upd [OF _ _ assms(7)]) auto
  then show ?thesis
    using assms(5,6) by (simp add: rep_def a_launch_def a_upd_def)
qed

subsection \<open>Misses\<close>

lemma a_evict_SomeD:
  assumes "a_evict bias a = Some (i, a')"
  shows "i \<in> set (a_gprec a' @ a_gprobe a')" and "a_unused a' = a_unused a" and "a_infl a' = a_infl a"
    and "Suc (length (a_prec a') + length (a_probe a')) = length (a_prec a) + length (a_probe a)" and "a_cap a' = a_cap a"
  using assms a_idle_mem [of "a_probe a" a] a_idle_mem [of "a_prec a" a]
    length_pos_if_in_set [of _ "a_probe a"] length_pos_if_in_set [of _ "a_prec a"]
  by (auto simp: a_evict_def a_clean_def Let_def length_remove1 split: if_splits)

lemma rep_evict_Some:
  assumes "rep c a" and "search_info a cs" and "bias \<le> 1" and "a_room a" and "a_evict bias a = Some (i, a')"
  shows "\<exists>c'. evict_entry cs bias c = Some (i, c') \<and> rep c' a'"
  using rep_evict [OF assms(1-4)] assms(5) by (auto simp: option_rel_Some2)

lemma rep_loops:
  assumes "rep c a" and "a_room a"
  shows "find_key e_next (c_ngprec c) (hd (a_gprec a @ a_unused a @ a_gprobe a @ a_probe a @ a_prec a)) key c =
      (case a_find key (a_gprec a) a of
         Some i \<Rightarrow> Inl i
       | None \<Rightarrow> Inr (hd (a_unused a @ a_gprobe a @ a_probe a @ a_prec a @ a_gprec a)))"
    and "find_key e_prev (c_ngprobe c) (last (a_probe a @ a_prec a @ a_gprec a @ a_unused a @ a_gprobe a)) key c =
      (case a_find key (rev (a_gprobe a)) a of
         Some i \<Rightarrow> Inl i
       | None \<Rightarrow> Inr (last (a_gprobe a @ a_probe a @ a_prec a @ a_gprec a @ a_unused a)))"
    and "walk_prev c (c_ngprobe c) (last (a_probe a @ a_prec a @ a_gprec a @ a_unused a @ a_gprobe a)) =
      last (a_gprobe a @ a_probe a @ a_prec a @ a_gprec a @ a_unused a)"
proof -
  have R: "cring (c_ce c) (a_main a)" "a_main a \<noteq> []" "conts (c_ce c) = a_cont a"
      "c_ngprec c = length (a_gprec a)" "c_ngprobe c = length (a_gprobe a)"
    using assms(1) rep_parts(1) [OF assms] by (auto simp: rep_def rep_core_def a_main_def)
  show "find_key e_next (c_ngprec c) (hd (a_gprec a @ a_unused a @ a_gprobe a @ a_probe a @ a_prec a)) key c =
      (case a_find key (a_gprec a) a of
         Some i \<Rightarrow> Inl i
       | None \<Rightarrow> Inr (hd (a_unused a @ a_gprobe a @ a_probe a @ a_prec a @ a_gprec a)))"
    using R ring_loops(1) [of c "a_prec a" "a_gprec a" "a_unused a @ a_gprobe a @ a_probe a" key]
    by (auto simp: a_main_def a_find_def split: option.splits)
  show "find_key e_prev (c_ngprobe c) (last (a_probe a @ a_prec a @ a_gprec a @ a_unused a @ a_gprobe a)) key c =
      (case a_find key (rev (a_gprobe a)) a of
         Some i \<Rightarrow> Inl i
       | None \<Rightarrow> Inr (last (a_gprobe a @ a_probe a @ a_prec a @ a_gprec a @ a_unused a)))"
    using R ring_loops(2) [of c "a_prec a @ a_gprec a @ a_unused a" "a_gprobe a" "a_probe a" key]
    by (auto simp: a_main_def a_find_def split: option.splits)
  show "walk_prev c (c_ngprobe c) (last (a_probe a @ a_prec a @ a_gprec a @ a_unused a @ a_gprobe a)) =
      last (a_gprobe a @ a_probe a @ a_prec a @ a_gprec a @ a_unused a)"
    using R ring_loops(5) [of c "a_prec a @ a_gprec a @ a_unused a" "a_gprobe a" "a_probe a"]
    by (auto simp: a_main_def)
qed

lemma search_info_ends:
  assumes "search_info a cs" and "rep c a" and "a_room a"
  shows "cs_gprec cs = hd (a_gprec a @ a_unused a @ a_gprobe a @ a_probe a @ a_prec a)"
    and "cs_gprobe cs = last (a_probe a @ a_prec a @ a_gprec a @ a_unused a @ a_gprobe a)"
  using assms(1) rep_parts [OF assms(2,3)] by (auto simp: search_info_def hd_append)

lemma rep_reclaim:
  assumes "rep c a" and "search_info a cs" and "a_room a" and "a_reclaim a = Some (d, a')"
  shows "\<exists>c'. reclaim_data cs c = Some (d, c') \<and> rep c' a'"
proof -
  have n: "uadd (uadd (c_nprec c) (c_nprobe c)) (c_ninflight c) = length (a_prec a) + length (a_probe a) + length (a_infl a)"
      "c_cap c = a_cap a"
    using assms(1,3) by (simp_all add: rep_def rep_core_def a_room_def uadd_less)
  have data: "e_data (c_ce c1 ! i) = k_data (a_cont a1 i)" if "rep c1 a1" for c1 a1 i
    using that conts_key(4) [of "c_ce c1" i] by (simp add: rep_def rep_core_def)
  show ?thesis
  proof (cases "length (a_prec a) + length (a_probe a) + length (a_infl a) < a_cap a")
    case True
    then have u: "a_unused a \<noteq> []" "d = k_data (a_cont a (last (a_unused a)))" "a' = a_set_data (last (a_unused a)) None a"
      using assms(4) by (auto simp: a_reclaim_def split: if_splits)
    have "walk_prev c (c_ngprobe c) (cs_gprobe cs) = last (a_unused a)"
      using rep_loops(3) [OF assms(1,3)] u(1) by (simp add: search_info_ends [OF assms(2,1,3)])
    moreover have "rep (upd (last (a_unused a)) (set_data None) c) a'"
      using u by (auto intro!: rep_set_data assms(1) simp: a_main_def)
    ultimately show ?thesis
      using True n u(2) data [OF assms(1)] by (simp add: reclaim_data_def)
  next
    case False
    then obtain i a1 where e: "a_evict 0 a = Some (i, a1)" "d = k_data (a_cont a1 i)" "a' = a_set_data i None a1"
      using assms(4) by (auto simp: a_reclaim_def bind_Some_iff)
    then obtain c1 where "evict_entry cs 0 c = Some (i, c1)" "rep c1 a1"
      using rep_evict_Some [OF assms(1,2) _ assms(3)] by blast
    moreover have "rep (upd i (set_data None) c1) a'"
      using calculation(2) a_evict_SomeD(1) [OF e(1)] e(3) by (auto intro!: rep_set_data simp: a_main_def)
    ultimately show ?thesis
      using False n e(2) data by (simp add: reclaim_data_def)
  qed
qed

lemma rep_free_slot:
  assumes "rep c a" and "search_info a cs" and "a_room a"
    and "cs_eprec cs = hd (a_unused a @ a_gprobe a @ a_probe a @ a_prec a @ a_gprec a)"
    and "cs_eprobe cs = last (a_gprobe a @ a_probe a @ a_prec a @ a_gprec a @ a_unused a)"
  shows "\<exists>c1. (if e_next (ent c (cs_eprobe cs)) = cs_eprec cs
       then if c_ngprobe c \<noteq> 0 then (e_next (ent c (cs_eprobe cs)), c\<lparr>c_ngprobe := udec (c_ngprobe c)\<rparr>)
            else if c_ngprec c \<noteq> 0 then (cs_eprobe cs, c\<lparr>c_ngprec := udec (c_ngprec c)\<rparr>) else (cs_eprobe cs, c)
       else (cs_eprobe cs, c)) = (last (a_unused (a_free_slot a)), c1)
    \<and> rep c1 (a_free_slot a) \<and> search_info (a_free_slot a) cs \<and> a_room (a_free_slot a)
    \<and> a_unused (a_free_slot a) \<noteq> []"
proof -
  have R: "cring (c_ce c) (a_main a)" "c_ngprec c = length (a_gprec a)" "c_ngprobe c = length (a_gprobe a)"
    using assms(1) by (auto simp: rep_def rep_core_def)
  show ?thesis
  proof (cases "a_unused a = []")
    case False
    then obtain us u where us: "a_unused a = us @ [u]"
      by (metis rev_exhaust)
    then have "cring (c_ce c) ((a_prec a @ a_gprec a @ us) @ u # a_gprobe a @ a_probe a)"
      using R(1) by (simp add: a_main_def)
    then have n: "e_next (c_ce c ! last (a_unused a)) = hd (a_gprobe a @ a_probe a @ a_prec a @ a_gprec a @ a_unused a)"
      using cring_prev(2) us by fastforce
    have "hd (a_gprobe a @ a_probe a @ a_prec a @ a_gprec a @ a_unused a) \<noteq> hd (a_unused a)
        \<or> a_gprobe a @ a_probe a @ a_prec a @ a_gprec a = []"
    proof (cases "a_gprobe a @ a_probe a @ a_prec a @ a_gprec a = []")
      case ne: False
      then have "hd ((a_gprobe a @ a_probe a @ a_prec a @ a_gprec a) @ a_unused a)
          = hd (a_gprobe a @ a_probe a @ a_prec a @ a_gprec a)"
        by (rule hd_append2)
      moreover have "set (a_gprobe a @ a_probe a @ a_prec a @ a_gprec a) \<inter> set (a_unused a) = {}"
        using cring_distinct [OF R(1)] by (auto simp: a_main_def)
      ultimately show ?thesis
        using disjoint_ends [OF _ ne False] by simp
    qed simp
    then have "e_next (ent c (cs_eprobe cs)) = cs_eprec cs \<Longrightarrow> c_ngprobe c = 0 \<and> c_ngprec c = 0"
      using n R(2,3) assms(4,5) False by simp
    moreover have "cs_eprobe cs = last (a_unused a)"
      using assms(5) False by simp
    ultimately show ?thesis
      using assms(1-3) False by (intro exI [of _ c]) (simp add: a_free_slot_def)
  next
    case True
    have ne: "a_gprobe a @ a_probe a @ a_prec a @ a_gprec a \<noteq> []" "a_gprec a @ a_gprobe a \<noteq> []"
      using rep_parts [OF assms(1,3)] True by auto
    have m: "a_main a = (a_prec a @ a_gprec a) @ (a_gprobe a @ a_probe a)"
      by (simp add: a_main_def True)
    have r: "ring (\<lambda>i. e_next (c_ce c ! i)) (\<lambda>i. e_prev (c_ce c ! i)) (a_gprobe a @ a_probe a @ a_prec a @ a_gprec a)"
      using R(1) ring_rotate [of _ _ "a_prec a @ a_gprec a" "a_gprobe a @ a_probe a"] by (simp add: cring_def m)
    have n: "e_next (ent c (cs_eprobe cs)) = cs_eprec cs"
      using ring_last [OF r ne(1)] assms(4,5) True by simp
    show ?thesis
    proof (cases "a_gprobe a = []")
      case False
      then show ?thesis
        using assms(1-4) n True R
        by (cases "a_gprobe a") (auto simp: a_free_slot_def rep_def rep_core_def a_main_def search_info_def a_idle_def a_room_def)
    next
      case gp: True
      then have "a_gprec a \<noteq> []"
        using ne by simp
      then show ?thesis
        using assms(1-3,5) n True gp R
        by (cases "a_gprec a" rule: rev_cases)
          (auto simp: a_free_slot_def rep_def rep_core_def a_main_def search_info_def a_idle_def a_room_def)
    qed
  qed
qed

lemma acache_same [simp]:
  "a\<lparr>a_gprec := a_gprec a, a_unused := u, a_gprobe := a_gprobe a\<rparr> = a\<lparr>a_unused := u\<rparr>"
  "a\<lparr>a_gprec := g, a_unused := a_unused a, a_gprobe := a_gprobe a\<rparr> = a\<lparr>a_gprec := g\<rparr>"
  "a\<lparr>a_gprec := a_gprec a, a_unused := a_unused a, a_gprobe := g\<rparr> = a\<lparr>a_gprobe := g\<rparr>"
  by simp_all

lemma a_set_data_lists [simp]:
  "a_main (a_set_data i d a) = a_main a" "a_infl (a_set_data i d a) = a_infl a" "a_unused (a_set_data i d a) = a_unused a"
  "a_prec (a_set_data i d a) = a_prec a" "a_gprec (a_set_data i d a) = a_gprec a" "a_probe (a_set_data i d a) = a_probe a"
  "a_gprobe (a_set_data i d a) = a_gprobe a" "a_cap (a_set_data i d a) = a_cap a" "a_dprobe (a_set_data i d a) = a_dprobe a"
  by (simp_all add: a_set_data_def a_upd_def a_main_def)

lemma a_free_slot_fields [simp]:
  "a_infl (a_free_slot a) = a_infl a" "a_cap (a_free_slot a) = a_cap a" "a_prec (a_free_slot a) = a_prec a"
  "a_probe (a_free_slot a) = a_probe a" "a_cont (a_free_slot a) = a_cont a"
  by (simp_all add: a_free_slot_def)

lemma rep_data: "rep c a \<Longrightarrow> e_data (c_ce c ! i) = k_data (a_cont a i)"
  using conts_key(4) [of "c_ce c" i] by (simp add: rep_def rep_core_def)

lemma rep_missed:
  assumes "rep c a" and "search_info a cs" and "a_room a" and "length (a_infl a) < a_cap a"
    and "cs_eprec cs = hd (a_unused a @ a_gprobe a @ a_probe a @ a_prec a @ a_gprec a)"
    and "cs_eprobe cs = last (a_gprobe a @ a_probe a @ a_prec a @ a_gprec a @ a_unused a)"
    and "a_missed key a = Some (i, a')"
  shows "\<exists>c'. get_missed_entry key cs c = Some (i, c') \<and> rep c' a'"
proof -
  define a1 where "a1 = a_free_slot a"
  define i1 where "i1 = last (a_unused a1)"
  obtain c1 where c1: "(if e_next (ent c (cs_eprobe cs)) = cs_eprec cs
       then if c_ngprobe c \<noteq> 0 then (e_next (ent c (cs_eprobe cs)), c\<lparr>c_ngprobe := udec (c_ngprobe c)\<rparr>)
            else if c_ngprec c \<noteq> 0 then (cs_eprobe cs, c\<lparr>c_ngprec := udec (c_ngprec c)\<rparr>) else (cs_eprobe cs, c)
       else (cs_eprobe cs, c)) = (i1, c1)"
      "rep c1 a1" "search_info a1 cs" "a_room a1" "a_unused a1 \<noteq> []"
    using rep_free_slot [OF assms(1-3,5,6)] by (auto simp: a1_def i1_def)
  have mem: "i1 \<in> set (a_main a1)"
    using c1(5) by (simp add: i1_def a_main_def)
  obtain a2 where a2: "(if k_data (a_cont a1 i1) = None
        then a_evict 1 a1 \<bind> (\<lambda>(j, a). Some (a_set_data j None (a_set_data i1 (k_data (a_cont a j)) a)))
        else Some a1) = Some a2"
      "i = i1" "a' = a_launch i (\<lambda>k. k\<lparr>k_key := key, k_state := Cs_probe\<rparr>) (a2\<lparr>a_unused := butlast (a_unused a2)\<rparr>)"
    using assms(7) unfolding a_missed_def Let_def a1_def [symmetric] i1_def [symmetric]
    by (auto simp: bind_Some_iff)
  have "\<exists>c2. (if e_data (ent c1 i1) = None
        then evict_entry cs 1 c1 \<bind> (\<lambda>(j, c). Some (upd j (set_data None) (upd i1 (set_data (e_data (ent c j))) c)))
        else Some c1) = Some c2 \<and> rep c2 a2 \<and> a_unused a2 = a_unused a1 \<and> a_infl a2 = a_infl a \<and> a_cap a2 = a_cap a"
  proof (cases "k_data (a_cont a1 i1) = None")
    case True
    then obtain j a3 where e: "a_evict 1 a1 = Some (j, a3)" "a2 = a_set_data j None (a_set_data i1 (k_data (a_cont a3 j)) a3)"
      using a2(1) by (auto simp: bind_Some_iff)
    then obtain c3 where c3: "evict_entry cs 1 c1 = Some (j, c3)" "rep c3 a3"
      using rep_evict_Some [OF c1(2,3) _ c1(4)] by blast
    have "i1 \<in> set (a_main a3)" "j \<in> set (a_main a3)"
      using a_evict_SomeD(1,2) [OF e(1)] c1(5) by (auto simp: i1_def a_main_def)
    then have "rep (upd j (set_data None) (upd i1 (set_data (e_data (ent c3 j))) c3)) a2"
      unfolding e(2) by (auto intro!: rep_set_data c3(2) simp: rep_data [OF c3(2)])
    then show ?thesis
      using True c3(1) e(2) a_evict_SomeD [OF e(1)] by (simp add: rep_data [OF c1(2)] a1_def)
  next
    case False
    then have "a2 = a1" "e_data (ent c1 i1) \<noteq> None"
      using a2(1) by (auto simp: rep_data [OF c1(2)])
    then show ?thesis
      using c1(2) unfolding a1_def by auto
  qed
  then obtain c2 where c2: "(if e_data (ent c1 i1) = None
        then evict_entry cs 1 c1 \<bind> (\<lambda>(j, c). Some (upd j (set_data None) (upd i1 (set_data (e_data (ent c j))) c)))
        else Some c1) = Some c2" "rep c2 a2" "a_unused a2 = a_unused a1" "a_infl a2 = a_infl a" "a_cap a2 = a_cap a"
    by blast
  define xs ys where "xs = a_prec a2 @ a_gprec a2 @ butlast (a_unused a2)" and "ys = a_gprobe a2 @ a_probe a2"
  have m: "a_main a2 = xs @ i1 # ys"
    using c1(5) c2(3) append_butlast_last_id [of "a_unused a2"] by (simp add: a_main_def xs_def ys_def i1_def)
  moreover have "xs @ ys \<noteq> []"
    using c2(2,4,5) assms(4) m by (auto simp: rep_def rep_core_def)
  moreover have "rep_core c2 a2" "c_ngprec c2 = length (a_gprec a2)" "c_ngprobe c2 = length (a_gprobe a2)"
    using c2(2) by (simp_all add: rep_def)
  ultimately have "rep (upd i1 (\<lambda>e. e\<lparr>e_key := key, e_state := Cs_probe\<rparr>) (add_inflight i1 (unlink i1 c2)))
      (a_launch i1 (\<lambda>k. k\<lparr>k_key := key, k_state := Cs_probe\<rparr>)
        (a2\<lparr>a_gprec := a_gprec a2, a_unused := butlast (a_unused a2), a_gprobe := a_gprobe a2\<rparr>))"
    by (intro rep_launch [where xs = xs and ys = ys]) (simp_all add: cont_def xs_def ys_def)
  then have "rep (upd i1 (\<lambda>e. e\<lparr>e_key := key, e_state := Cs_probe\<rparr>) (add_inflight i1 (unlink i1 c2))) a'"
    by (simp only: acache_same a2(2,3))
  moreover have "get_missed_entry key cs c =
      Some (i1, upd i1 (\<lambda>e. e\<lparr>e_key := key, e_state := Cs_probe\<rparr>) (add_inflight i1 (unlink i1 c2)))"
    unfolding get_missed_entry_def Let_def c1(1) prod.case c2(1) by (simp add: unlink_def Let_def)
  ultimately show ?thesis
    using a2(2) by blast
qed

lemma a_reclaim_SomeD:
  assumes "a_reclaim a = Some (d, a')"
  shows "a_infl a' = a_infl a" and "a_cap a' = a_cap a" and "set (a_gprec a) \<subseteq> set (a_gprec a')"
    and "set (a_gprobe a) \<subseteq> set (a_gprobe a')" and "a_room a \<Longrightarrow> length (a_prec a') + length (a_probe a') + length (a_infl a') < a_cap a'"
proof -
  have "\<exists>i a1. d = k_data (a_cont a1 i) \<and> a' = a_set_data i None a1 \<and>
      (a1 = a \<and> length (a_prec a) + length (a_probe a) + length (a_infl a) < a_cap a \<or> a_evict 0 a = Some (i, a1))"
    using assms by (auto simp: a_reclaim_def bind_Some_iff split: if_splits)
  then obtain i a1 where a1: "a' = a_set_data i None a1"
      "a1 = a \<and> length (a_prec a) + length (a_probe a) + length (a_infl a) < a_cap a \<or> a_evict 0 a = Some (i, a1)"
    by blast
  have e: "set (a_gprec a) \<subseteq> set (a_gprec a1) \<and> set (a_gprobe a) \<subseteq> set (a_gprobe a1)" if "a_evict 0 a = Some (i, a1)"
    using that by (auto simp: a_evict_def a_clean_def Let_def split: if_splits)
  show "a_infl a' = a_infl a" "a_cap a' = a_cap a" "set (a_gprec a) \<subseteq> set (a_gprec a')"
    "set (a_gprobe a) \<subseteq> set (a_gprobe a')"
    "a_room a \<Longrightarrow> length (a_prec a') + length (a_probe a') + length (a_infl a') < a_cap a'"
    using a1 e a_evict_SomeD [of 0 a i a1] by (auto simp: a_room_def)
qed

lemma find_SomeD: "find P xs = Some x \<Longrightarrow> x \<in> set xs \<and> P x"
  by (auto simp: find_Some_iff)

lemma a_find_SomeD: "a_find key xs a = Some i \<Longrightarrow> i \<in> set xs \<and> k_key (a_cont a i) = key"
  unfolding a_find_def by (rule find_SomeD)

lemma reuse_ghost_launch:
  "reuse_ghost_entry i (upd i (set_data d) c) =
   upd i (e_state_update (\<lambda>_. Cs_precious)) (add_inflight i (unlink i (upd i (set_data d) c)))"
  by (simp add: reuse_ghost_entry_def unlink_def Let_def)

text \<open>A ghost that was found moves to the entries in flight with the buffer \<open>d\<close>.\<close>

lemma rep_ghost_launch:
  assumes "rep c a" and "a_main a = xs @ i # ys" and "length (a_infl a) < a_cap a"
    and "a_prec a @ gp @ a_unused a @ gb @ a_probe a = xs @ ys"
    and "c' = c\<lparr>c_ngprec := length gp\<rparr> \<and> gb = a_gprobe a \<or> c' = c\<lparr>c_ngprobe := length gb\<rparr> \<and> gp = a_gprec a"
  shows "rep (reuse_ghost_entry i (upd i (set_data d) c'))
    (a_launch i (\<lambda>k. k\<lparr>k_data := d, k_state := Cs_precious\<rparr>) (a\<lparr>a_gprec := gp, a_gprobe := gb\<rparr>))"
proof -
  have i: "i < length (c_ce c)" "i \<in> set (a_main a)"
    using rep_mem [of c a i] assms(1,2) by (auto simp: rep_def)
  have "rep_core c' a"
    using assms(1,5) by (auto simp: rep_def)
  then have "rep_core (upd i (set_data d) c') (a_set_data i d a)"
    using rep_upd [of c' a i "set_data d" "\<lambda>k. k\<lparr>k_data := d\<rparr>"] rep_mem [of c' a i] i(2)
    by (simp add: set_data_def cont_def a_set_data_def)
  moreover have "xs @ ys \<noteq> []"
    using assms(1-3) by (auto simp: rep_def rep_core_def)
  moreover have "c_ngprec c' = length gp \<and> c_ngprobe c' = length gb"
    using assms(1,5) by (auto simp: rep_def)
  ultimately have "rep (reuse_ghost_entry i (upd i (set_data d) c'))
      (a_launch i (\<lambda>k. k\<lparr>k_state := Cs_precious\<rparr>) ((a_set_data i d a)\<lparr>a_gprec := gp, a_unused := a_unused a, a_gprobe := gb\<rparr>))"
    unfolding reuse_ghost_launch using assms(2,4)
    by (intro rep_launch [where xs = xs and ys = ys]) (simp_all add: cont_def)
  also have "a_launch i (\<lambda>k. k\<lparr>k_state := Cs_precious\<rparr>) ((a_set_data i d a)\<lparr>a_gprec := gp, a_unused := a_unused a, a_gprobe := gb\<rparr>)
      = a_launch i (\<lambda>k. k\<lparr>k_data := d, k_state := Cs_precious\<rparr>) (a\<lparr>a_gprec := gp, a_gprobe := gb\<rparr>)"
    by (simp add: a_launch_def a_set_data_def a_upd_def)
  finally show ?thesis .
qed

lemma upd_ghosts: "(upd i f c)\<lparr>c_ngprec := m\<rparr> = upd i f (c\<lparr>c_ngprec := m\<rparr>)" "(upd i f c)\<lparr>c_ngprobe := m\<rparr> = upd i f (c\<lparr>c_ngprobe := m\<rparr>)"
  by (simp_all add: upd_def)

lemma rep_dprobe: "rep c a \<Longrightarrow> d \<le> a_cap a \<Longrightarrow> rep (c\<lparr>c_dprobe := d\<rparr>) (a\<lparr>a_dprobe := d\<rparr>)"
  by (simp add: rep_def rep_core_def a_main_def)

lemma rep_ghost_prec:
  assumes "rep c a" and "search_info a cs" and "a_room a" and "length (a_infl a) < a_cap a"
    and "i \<in> set (a_gprec a)" and "d \<le> a_cap a" and "a_reclaim (a\<lparr>a_dprobe := d\<rparr>) = Some (dat, a1)"
  shows "\<exists>c1. reclaim_data cs (c\<lparr>c_dprobe := d\<rparr>) = Some (dat, c1)
    \<and> rep (reuse_ghost_entry i ((upd i (set_data dat) c1)\<lparr>c_ngprec := udec (c_ngprec c1)\<rparr>))
        (a_launch i (\<lambda>k. k\<lparr>k_data := dat, k_state := Cs_precious\<rparr>) (a1\<lparr>a_gprec := remove1 i (a_gprec a1)\<rparr>))"
proof -
  obtain c1 where c1: "reclaim_data cs (c\<lparr>c_dprobe := d\<rparr>) = Some (dat, c1)" "rep c1 a1"
    using rep_reclaim [OF rep_dprobe [OF assms(1,6)] _ _ assms(7)] assms(2,3) by auto
  have "i \<in> set (a_gprec a1)" "distinct (a_gprec a1)" "length (a_infl a1) < a_cap a1"
    using a_reclaim_SomeD(1-3) [OF assms(7)] assms(4,5) c1(2) by (auto simp: rep_def rep_core_def a_main_def)
  moreover obtain us vs where s: "a_gprec a1 = us @ i # vs" "remove1 i (a_gprec a1) = us @ vs"
    using calculation(1,2) by (rule split_member)
  moreover have "udec (c_ngprec c1) = length (us @ vs)"
    using c1(2) s(1) by (simp add: rep_def)
  ultimately have "rep (reuse_ghost_entry i (upd i (set_data dat) (c1\<lparr>c_ngprec := udec (c_ngprec c1)\<rparr>)))
      (a_launch i (\<lambda>k. k\<lparr>k_data := dat, k_state := Cs_precious\<rparr>) (a1\<lparr>a_gprec := us @ vs, a_gprobe := a_gprobe a1\<rparr>))"
    by (intro rep_ghost_launch [OF c1(2), where xs = "a_prec a1 @ us" and ys = "vs @ a_unused a1 @ a_gprobe a1 @ a_probe a1"])
      (simp_all add: a_main_def)
  then show ?thesis
    using c1(1) by (simp add: upd_ghosts s(2))
qed

lemma rep_ghost_probe:
  assumes "rep c a" and "search_info a cs" and "a_room a" and "length (a_infl a) < a_cap a"
    and "i \<in> set (a_gprobe a)" and "d \<le> a_cap a" and "a_reclaim (a\<lparr>a_dprobe := d\<rparr>) = Some (dat, a1)"
  shows "\<exists>c1. reclaim_data cs (c\<lparr>c_dprobe := d\<rparr>) = Some (dat, c1)
    \<and> rep (reuse_ghost_entry i ((upd i (set_data dat) c1)\<lparr>c_ngprobe := udec (c_ngprobe c1)\<rparr>))
        (a_launch i (\<lambda>k. k\<lparr>k_data := dat, k_state := Cs_precious\<rparr>) (a1\<lparr>a_gprobe := remove1 i (a_gprobe a1)\<rparr>))"
proof -
  obtain c1 where c1: "reclaim_data cs (c\<lparr>c_dprobe := d\<rparr>) = Some (dat, c1)" "rep c1 a1"
    using rep_reclaim [OF rep_dprobe [OF assms(1,6)] _ _ assms(7)] assms(2,3) by auto
  have "i \<in> set (a_gprobe a1)" "distinct (a_gprobe a1)" "length (a_infl a1) < a_cap a1"
    using a_reclaim_SomeD(1,2,4) [OF assms(7)] assms(4,5) c1(2) by (auto simp: rep_def rep_core_def a_main_def)
  moreover obtain us vs where s: "a_gprobe a1 = us @ i # vs" "remove1 i (a_gprobe a1) = us @ vs"
    using calculation(1,2) by (rule split_member)
  moreover have "udec (c_ngprobe c1) = length (us @ vs)"
    using c1(2) s(1) by (simp add: rep_def)
  ultimately have "rep (reuse_ghost_entry i (upd i (set_data dat) (c1\<lparr>c_ngprobe := udec (c_ngprobe c1)\<rparr>)))
      (a_launch i (\<lambda>k. k\<lparr>k_data := dat, k_state := Cs_precious\<rparr>) (a1\<lparr>a_gprec := a_gprec a1, a_gprobe := us @ vs\<rparr>))"
    by (intro rep_ghost_launch [OF c1(2), where xs = "a_prec a1 @ a_gprec a1 @ a_unused a1 @ us" and ys = "vs @ a_probe a1"])
      (simp_all add: a_main_def)
  then show ?thesis
    using c1(1) by (simp add: upd_ghosts s(2))
qed

lemma rep_ghost:
  assumes "rep c a" and "search_info a cs" and "a_room a" and "length (a_infl a) < a_cap a"
    and "a_ghost key a = Some (i, a')"
  shows "\<exists>c'. get_ghost_or_missed_entry key cs c = Some (i, c') \<and> rep c' a'"
proof -
  have n: "c_ngprec c = length (a_gprec a)" "c_ngprobe c = length (a_gprobe a)" "c_dprobe c = a_dprobe a"
      "c_cap c = a_cap a" "a_dprobe a \<le> a_cap a"
    using assms(1) by (auto simp: rep_def rep_core_def)
  have l: "length (a_gprec a) \<le> 2 * a_cap a" "length (a_gprobe a) \<le> 2 * a_cap a" "4 * a_cap a < UINT_SIZE"
    using assms(1) by (auto simp: rep_def rep_core_def a_main_def)
  have div: "a_shift m k \<le> max 1 m" for m k
    by (simp add: a_shift_def)
  note loops = rep_loops(1,2) [OF assms(1,3)] search_info_ends [OF assms(2,1,3)]
  show ?thesis
  proof (cases "a_find key (a_gprec a) a")
    case (Some j)
    define d where "d = a_dprobe a - a_shift (length (a_gprobe a)) (length (a_gprec a))"
    obtain dat a1 where r: "a_reclaim (a\<lparr>a_dprobe := d\<rparr>) = Some (dat, a1)" "j = i"
        "a' = a_launch i (\<lambda>k. k\<lparr>k_data := dat, k_state := Cs_precious\<rparr>) (a1\<lparr>a_gprec := remove1 i (a_gprec a1)\<rparr>)"
      using assms(5) Some by (auto simp: a_ghost_def bind_Some_iff d_def)
    have "find_key e_next (c_ngprec c) (cs_gprec cs) key c = Inl i"
      using loops(1) [of key] Some r(2) by (simp add: loops(3))
    moreover have "(if c_dprobe c > (if c_ngprobe c > c_ngprec c then c_ngprobe c div c_ngprec c else 1)
        then c_dprobe c - (if c_ngprobe c > c_ngprec c then c_ngprobe c div c_ngprec c else 1) else 0) = d"
      by (simp add: d_def a_shift_def n)
    moreover have "d \<le> a_cap a"
      using n(5) by (simp add: d_def)
    ultimately show ?thesis
      using rep_ghost_prec [OF assms(1-4) _ _ r(1), of i] a_find_SomeD [OF Some] r(2,3)
      by (auto simp: get_ghost_or_missed_entry_def Let_def)
  next
    case none: None
    show ?thesis
    proof (cases "a_find key (rev (a_gprobe a)) a")
      case (Some j)
      define s where "s = a_shift (length (a_gprec a)) (length (a_gprobe a))"
      define d where "d = min (a_cap a) (a_dprobe a + s)"
      obtain dat a1 where r: "a_reclaim (a\<lparr>a_dprobe := d\<rparr>) = Some (dat, a1)" "j = i"
          "a' = a_launch i (\<lambda>k. k\<lparr>k_data := dat, k_state := Cs_precious\<rparr>) (a1\<lparr>a_gprobe := remove1 i (a_gprobe a1)\<rparr>)"
        using assms(5) none Some by (auto simp: a_ghost_def bind_Some_iff d_def s_def)
      have "find_key e_next (c_ngprec c) (cs_gprec cs) key c = Inr (hd (a_unused a @ a_gprobe a @ a_probe a @ a_prec a @ a_gprec a))"
        "find_key e_prev (c_ngprobe c) (cs_gprobe cs) key c = Inl i"
        using loops(1,2) [of key] none Some r(2) by (simp_all add: loops(3,4))
      moreover have sd: "(if c_ngprec c > c_ngprobe c then c_ngprec c div c_ngprobe c else 1) = s"
        by (simp add: s_def a_shift_def n)
      moreover have "s \<le> 2 * a_cap a"
        using div [of "length (a_gprec a)" "length (a_gprobe a)"] l n(5) assms(4) unfolding s_def by linarith
      then have "uadd (a_dprobe a) s = a_dprobe a + s"
        using l(3) n(5) by (intro uadd_less) simp
      then have "(if uadd (c_dprobe c) s < c_cap c then uadd (c_dprobe c) s else c_cap c) = d"
        by (simp add: d_def n)
      moreover have "d \<le> a_cap a"
        by (simp add: d_def)
      ultimately show ?thesis
        using rep_ghost_probe [OF assms(1) _ assms(3,4) _ _ r(1),
            of "cs\<lparr>cs_eprec := hd (a_unused a @ a_gprobe a @ a_probe a @ a_prec a @ a_gprec a)\<rparr>" i]
          assms(2) a_find_SomeD [OF Some] r(2,3)
        by (auto simp: get_ghost_or_missed_entry_def Let_def)
    next
      case None
      define cs' where "cs' = cs\<lparr>cs_eprec := hd (a_unused a @ a_gprobe a @ a_probe a @ a_prec a @ a_gprec a),
        cs_eprobe := last (a_gprobe a @ a_probe a @ a_prec a @ a_gprec a @ a_unused a)\<rparr>"
      have "get_ghost_or_missed_entry key cs c = get_missed_entry key cs' c"
        using loops(1,2) [of key] none None by (simp add: loops(3,4) get_ghost_or_missed_entry_def cs'_def)
      moreover have "search_info a cs'"
        using assms(2) by (simp add: search_info_def cs'_def)
      moreover have "a_missed key a = Some (i, a')"
        using assms(5) none None by (simp add: a_ghost_def)
      ultimately show ?thesis
        using rep_missed [OF assms(1) _ assms(3,4)] by (simp add: cs'_def)
    qed
  qed
qed

subsection \<open>Refinement of the operations\<close>

lemma reuse_fields [simp]:
  "c_nprec (reuse_cached_entry i c) = c_nprec c" "c_ngprec (reuse_cached_entry i c) = c_ngprec c"
  "c_nprobe (reuse_cached_entry i c) = c_nprobe c" "c_ngprobe (reuse_cached_entry i c) = c_ngprobe c"
  "c_dprobe (reuse_cached_entry i c) = c_dprobe c" "c_cap (reuse_cached_entry i c) = c_cap c"
  "c_inflight (reuse_cached_entry i c) = c_inflight c" "c_ninflight (reuse_cached_entry i c) = c_ninflight c"
  "c_hits (reuse_cached_entry i c) = c_hits c + 1" "c_misses (reuse_cached_entry i c) = c_misses c"
  "c_cleanup (reuse_cached_entry i c) = c_cleanup c" "c_cleaned (reuse_cached_entry i c) = c_cleaned c"
  by (simp_all add: reuse_cached_entry_def Let_def)

lemma rep_prec_hit:
  assumes "rep c a" and "a_room a" and "i \<in> set (a_prec a)"
  shows "rep (reuse_cached_entry i c) (a\<lparr>a_prec := i # remove1 i (a_prec a), a_hits := a_hits a + 1\<rparr>)"
proof -
  define B where "B = a_gprec a @ a_unused a @ a_gprobe a @ a_probe a"
  have R: "cring (c_ce c) (a_prec a @ B)" "cring (c_ce c) (a_infl a)" "distinct (a_prec a @ B @ a_infl a)"
      "c_split c = last (a_prec a @ B)" "B \<noteq> []"
    using assms(1) rep_parts(2) [OF assms(1,2)] by (auto simp: rep_def rep_core_def a_main_def B_def)
  have "distinct (a_prec a)"
    using R(3) by simp
  with assms(3) obtain us vs where s: "a_prec a = us @ i # vs" "remove1 i (a_prec a) = us @ vs"
    by (rule split_member)
  have m: "moves (c_ce c) (c_ce (reuse_cached_entry i c)) (us @ i # vs @ B) (i # us @ vs @ B)"
      "c_split (reuse_cached_entry i c) = last (us @ vs @ B)"
    using reuse_moves [of c us i "vs @ B"] R(1,4,5) s(1) by auto
  have "cring (c_ce (reuse_cached_entry i c)) (a_infl a)"
    using moves_other [OF m(1) R(2)] R(3) s(1) by auto
  then show ?thesis
    using assms(1) m R(5) s
    by (auto simp: rep_def rep_core_def a_main_def B_def moves_def)
qed

lemma rep_probe_hit:
  assumes "rep c a" and "a_room a" and "i \<in> set (a_probe a)"
  shows "rep (reuse_cached_entry i (c\<lparr>c_nprobe := udec (c_nprobe c), c_nprec := uinc (c_nprec c)\<rparr>))
    (a\<lparr>a_probe := remove1 i (a_probe a), a_prec := i # a_prec a, a_hits := a_hits a + 1\<rparr>)"
proof -
  define A where "A = a_prec a @ a_gprec a @ a_unused a @ a_gprobe a"
  define c0 where "c0 = c\<lparr>c_nprobe := udec (c_nprobe c), c_nprec := uinc (c_nprec c)\<rparr>"
  have R: "cring (c_ce c0) (A @ a_probe a)" "cring (c_ce c0) (a_infl a)" "distinct (A @ a_probe a @ a_infl a)"
      "c_split c0 = last (A @ a_probe a)" "A \<noteq> []"
    using assms(1) rep_parts(1) [OF assms(1,2)] by (auto simp: rep_def rep_core_def a_main_def A_def c0_def)
  have "distinct (a_probe a)"
    using R(3) by simp
  with assms(3) obtain us vs where s: "a_probe a = us @ i # vs" "remove1 i (a_probe a) = us @ vs"
    by (rule split_member)
  have m: "moves (c_ce c0) (c_ce (reuse_cached_entry i c0)) ((A @ us) @ i # vs) (i # (A @ us) @ vs)"
      "c_split (reuse_cached_entry i c0) = last ((A @ us) @ vs)"
    using reuse_moves [of c0 "A @ us" i vs] R(1,4,5) s(1) by auto
  have "cring (c_ce (reuse_cached_entry i c0)) (a_infl a)"
    using moves_other [OF m(1) R(2)] R(3) s(1) by auto
  moreover have "c_nprec c0 = Suc (length (a_prec a))" "c_nprobe c0 = length (us @ vs)"
    using assms(1,2) by (auto simp: c0_def s(1) rep_def rep_core_def a_room_def uinc_less)
  moreover have "length (c_ce c0) = length (c_ce c)" "conts (c_ce c0) = conts (c_ce c)" "c_ngprec c0 = c_ngprec c"
      "c_ngprobe c0 = c_ngprobe c" "c_dprobe c0 = c_dprobe c" "c_cap c0 = c_cap c" "c_inflight c0 = c_inflight c"
      "c_ninflight c0 = c_ninflight c" "c_hits c0 = c_hits c" "c_misses c0 = c_misses c" "c_cleanup c0 = c_cleanup c"
      "c_cleaned c0 = c_cleaned c"
    by (simp_all add: c0_def)
  ultimately have "rep (reuse_cached_entry i c0) (a\<lparr>a_probe := us @ vs, a_prec := i # a_prec a, a_hits := a_hits a + 1\<rparr>)"
    using assms(1) m R(3,5) s(1) by (auto simp: rep_def rep_core_def a_main_def A_def moves_def)
  then show ?thesis
    by (simp only: s(2) c0_def)
qed

lemma rep_cached_loops:
  assumes "rep c a" and "a_room a"
  shows "find_cached e_next (c_nprec c) (e_next (ent c (c_split c))) key c None 0 =
      (case a_find key (a_prec a) a of
         Some i \<Rightarrow> Inl i
       | None \<Rightarrow> Inr (hd (a_gprec a @ a_unused a @ a_gprobe a @ a_probe a),
           if a_idle (a_prec a) a = [] then None else Some (last (a_idle (a_prec a) a)), length (a_idle (a_prec a) a)))"
    and "find_cached e_prev (c_nprobe c) (c_split c) key c None 0 =
      (case a_find key (rev (a_probe a)) a of
         Some i \<Rightarrow> Inl i
       | None \<Rightarrow> Inr (last (a_prec a @ a_gprec a @ a_unused a @ a_gprobe a),
           if a_idle (a_probe a) a = [] then None else Some (hd (a_idle (a_probe a) a)), length (a_idle (a_probe a) a)))"
proof -
  define B A where "B = a_gprec a @ a_unused a @ a_gprobe a @ a_probe a"
    and "A = a_prec a @ a_gprec a @ a_unused a @ a_gprobe a"
  have m: "a_main a = [] @ a_prec a @ B" "a_main a = A @ a_probe a @ []" "A \<noteq> []" "B \<noteq> []"
    using rep_parts(1,2) [OF assms] by (simp_all add: a_main_def A_def B_def)
  have R: "cring (c_ce c) (a_main a)" "conts (c_ce c) = a_cont a" "c_nprec c = length (a_prec a)"
      "c_nprobe c = length (a_probe a)" "c_split c = last (a_main a)" "length (a_prec a) < UINT_SIZE - 1"
      "length (a_probe a) < UINT_SIZE - 1"
    using assms by (auto simp: rep_def rep_core_def a_room_def)
  have n: "e_next (ent c (c_split c)) = hd (a_prec a @ B @ [])"
    using ring_last [of _ _ "a_main a"] R(1,5) m(1,4) by (auto simp: cring_def)
  show "find_cached e_next (c_nprec c) (e_next (ent c (c_split c))) key c None 0 =
      (case a_find key (a_prec a) a of
         Some i \<Rightarrow> Inl i
       | None \<Rightarrow> Inr (hd (a_gprec a @ a_unused a @ a_gprobe a @ a_probe a),
           if a_idle (a_prec a) a = [] then None else Some (last (a_idle (a_prec a) a)), length (a_idle (a_prec a) a)))"
    using ring_loops(3) [of c "[]" "a_prec a" B key] R m(1,4) n
    by (simp add: a_find_def a_idle_def Let_def B_def [symmetric] split: option.splits)
  show "find_cached e_prev (c_nprobe c) (c_split c) key c None 0 =
      (case a_find key (rev (a_probe a)) a of
         Some i \<Rightarrow> Inl i
       | None \<Rightarrow> Inr (last (a_prec a @ a_gprec a @ a_unused a @ a_gprobe a),
           if a_idle (a_probe a) a = [] then None else Some (hd (a_idle (a_probe a) a)), length (a_idle (a_probe a) a)))"
    using ring_loops(4) [of c A "a_probe a" "[]" key] R m(2,3)
    by (simp add: a_find_def a_idle_def Let_def A_def [symmetric] split: option.splits)
qed

lemma rep_inflight_loop:
  assumes "rep c a"
  shows "find_key e_next (c_ninflight c) (c_inflight c) key c = Inl i \<longleftrightarrow> a_find key (a_infl a) a = Some i"
    and "a_find key (a_infl a) a = None \<longleftrightarrow> (\<exists>j. find_key e_next (c_ninflight c) (c_inflight c) key c = Inr j)"
proof -
  have R: "cring (c_ce c) ([] @ a_infl a @ [])" "conts (c_ce c) = a_cont a" "c_ninflight c = length (a_infl a)"
      "a_infl a \<noteq> [] \<longrightarrow> c_inflight c = hd (a_infl a)"
    using assms by (auto simp: rep_def rep_core_def)
  have "find_key e_next (c_ninflight c) (c_inflight c) key c =
      (case a_find key (a_infl a) a of Some i \<Rightarrow> Inl i | None \<Rightarrow> Inr (if a_infl a = [] then c_inflight c else hd (a_infl a)))"
    using ring_loops(1) [OF R(1), of key] R(2-4) by (cases "a_infl a = []") (auto simp: a_find_def split: option.splits)
  then show "find_key e_next (c_ninflight c) (c_inflight c) key c = Inl i \<longleftrightarrow> a_find key (a_infl a) a = Some i"
    and "a_find key (a_infl a) a = None \<longleftrightarrow> (\<exists>j. find_key e_next (c_ninflight c) (c_inflight c) key c = Inr j)"
    by (auto split: option.splits)
qed

lemma rep_misses: "rep c a \<Longrightarrow> rep (c\<lparr>c_misses := m\<rparr>) (a\<lparr>a_misses := m\<rparr>)"
  by (simp add: rep_def rep_core_def a_main_def)

lemma rep_upd_full:
  assumes "rep c a" and "i \<in> set (a_main a) \<union> set (a_infl a)"
    and "\<And>e. cont (f e) = g (cont e) \<and> e_next (f e) = e_next e \<and> e_prev (f e) = e_prev e"
  shows "rep (upd i f c) (a_upd i g a)"
  using rep_upd [of c a i f g] assms rep_mem [of c a i] by (auto simp: rep_def) (simp_all add: a_upd_def)

lemma a_idle_length: "length (a_idle xs a) \<le> length xs"
  by (simp add: a_idle_def)

lemma rep_miss:
  assumes "rep c a" and "search_info a cs" and "a_room a" and "a_miss key a = Some (r, a')"
  shows "\<exists>c'. search_miss key cs c = Some (r, c') \<and> rep c' a'"
proof (cases "a_find key (a_infl a) a")
  case (Some i)
  then have "get_inflight_entry key c = Some (i, upd i (e_state_update (\<lambda>_. Cs_precious)) c)"
    using rep_inflight_loop(1) [OF assms(1), of key i] by (simp add: get_inflight_entry_def)
  moreover have "rep (upd i (e_state_update (\<lambda>_. Cs_precious)) c) (a_upd i (\<lambda>k. k\<lparr>k_state := Cs_precious\<rparr>) a)"
    using a_find_SomeD [OF Some] by (intro rep_upd_full [OF assms(1)]) (auto simp: cont_def)
  moreover have "c_misses c = a_misses a"
    using assms(1) by (simp add: rep_def rep_core_def)
  ultimately show ?thesis
    using assms(4) Some rep_misses by (auto simp: search_miss_def a_miss_def)
next
  case None
  then have g: "get_inflight_entry key c = None"
    using rep_inflight_loop(2) [OF assms(1), of key] by (auto simp: get_inflight_entry_def)
  have n: "c_nprec c = length (a_prec a)" "c_nprobe c = length (a_probe a)" "c_ninflight c = length (a_infl a)"
      "c_cap c = a_cap a" "4 * a_cap a < UINT_SIZE" "c_misses c = a_misses a"
    using assms(1) by (auto simp: rep_def rep_core_def)
  have u: "uadd (uadd (usub (c_nprec c) (cs_nzprec cs)) (usub (c_nprobe c) (cs_nzprobe cs))) (c_ninflight c) = a_inuse a"
    using assms(2,3) n a_idle_length [of "a_prec a" a] a_idle_length [of "a_probe a" a]
    by (simp add: search_info_def usub_le uadd_less a_inuse_def a_room_def)
  show ?thesis
  proof (cases "a_inuse a \<ge> a_cap a")
    case True
    then show ?thesis
      using assms(1,4) None g u n by (auto simp: search_miss_def a_miss_def)
  next
    case False
    then obtain i a1 where a1: "a_ghost key a = Some (i, a1)" "r = Some i" "a' = a1\<lparr>a_misses := a_misses a1 + 1\<rparr>"
      using assms(4) None by (auto simp: a_miss_def bind_Some_iff)
    moreover have "length (a_infl a) < a_cap a"
      using False by (simp add: a_inuse_def)
    ultimately obtain c1 where c1: "get_ghost_or_missed_entry key cs c = Some (i, c1)" "rep c1 a1"
      using rep_ghost [OF assms(1-3)] by blast
    then have "c_misses c1 = a_misses a1"
      by (simp add: rep_def rep_core_def)
    then show ?thesis
      using False g u n c1 a1(2,3) rep_misses by (auto simp: search_miss_def)
  qed
qed

text \<open>The lookup.\<close>

lemma rep_get_noref:
  assumes "rep c a" and "a_room a" and "a_get_noref key a = Some (r, a')"
  shows "\<exists>c'. cache_get_entry_noref key c = Some (r, c') \<and> rep c' a'"
proof -
  have "a_main a \<noteq> []" "c_split c = last (a_main a)"
    using assms(1) rep_parts(1) [OF assms(1,2)] by (auto simp: rep_def rep_core_def a_main_def)
  then have "c_split c \<in> set (a_main a)"
    by simp
  then have s: "\<not> length (c_ce c) \<le> c_split c"
    using rep_mem [of c a "c_split c"] assms(1) by (auto simp: rep_def)
  note l = rep_cached_loops [OF assms(1,2), of key]
  show ?thesis
  proof (cases "a_find key (a_prec a) a")
    case (Some i)
    then have "find_cached e_next (c_nprec c) (e_next (ent c (c_split c))) key c None 0 = Inl i" "i \<in> set (a_prec a)"
      using l(1) a_find_SomeD [OF Some] by simp_all
    then show ?thesis
      using assms(3) Some s rep_prec_hit [OF assms(1,2), of i] by (auto simp: cache_get_entry_noref_def a_get_noref_def)
  next
    case none: None
    show ?thesis
    proof (cases "a_find key (rev (a_probe a)) a")
      case (Some i)
      then have "find_cached e_prev (c_nprobe c) (c_split c) key c None 0 = Inl i" "i \<in> set (a_probe a)"
        using l(2) a_find_SomeD [OF Some] by simp_all
      then show ?thesis
        using assms(3) none Some s l(1) rep_probe_hit [OF assms(1,2), of i]
        by (auto simp: cache_get_entry_noref_def a_get_noref_def)
    next
      case None
      have "a_miss key a = Some (r, a')"
        using assms(3) none None by (simp add: a_get_noref_def)
      then show ?thesis
        using rep_miss [OF assms(1) _ assms(2)] none None s l
        by (simp add: cache_get_entry_noref_def search_info_def)
    qed
  qed
qed

lemma a_get_noref_mem: "a_get_noref key a = Some (Some i, a') \<Longrightarrow> i \<in> set (a_main a') \<union> set (a_infl a')"
  using a_find_SomeD [of key "a_infl a" a]
  by (auto simp: a_get_noref_def a_miss_def a_ghost_def a_missed_def a_launch_def a_upd_def a_main_def bind_Some_iff Let_def
      split: option.splits if_splits)

lemma rep_get:
  assumes "rep c a" and "a_room a" and "a_get key a = Some (r, a')"
  shows "\<exists>c'. cache_get_entry key c = Some (r, c') \<and> rep c' a'"
proof -
  obtain a1 where a1: "a_get_noref key a = Some (r, a1)"
      "a' = (case r of None \<Rightarrow> a1 | Some i \<Rightarrow> a_upd i (\<lambda>k. k\<lparr>k_ref := uinc (k_ref k)\<rparr>) a1)"
    using assms(3) by (auto simp: a_get_def bind_Some_iff)
  obtain c1 where c1: "cache_get_entry_noref key c = Some (r, c1)" "rep c1 a1"
    using rep_get_noref [OF assms(1,2) a1(1)] by blast
  have "rep (case r of None \<Rightarrow> c1 | Some i \<Rightarrow> upd i (\<lambda>e. e\<lparr>e_refcnt := uinc (e_refcnt e)\<rparr>) c1) a'"
    using c1(2) a1 a_get_noref_mem [of key a _ a1]
    by (auto intro!: rep_upd_full simp: cont_def split: option.splits)
  then show ?thesis
    using c1(1) by (simp add: cache_get_entry_def)
qed

lemma rep_put:
  assumes "rep c a" and "i \<in> set (a_main a) \<union> set (a_infl a)"
  shows "rep (cache_put_entry i c) (a_put i a)"
  unfolding cache_put_entry_def drop_ref_def a_put_def
  by (rule rep_upd_full [OF assms]) (simp add: cont_def)

text \<open>An entry leaves the list of those in flight.\<close>

lemma unflight_moves:
  assumes "cring (c_ce c) (us @ i # vs)" and "c_inflight c = hd (us @ i # vs)"
  defines "c1 \<equiv> (if c_inflight c = i then c\<lparr>c_inflight := e_next (ent c i)\<rparr> else c)"
  shows "moves (c_ce c) (c_ce (remove_entry i c1)) (us @ i # vs) (us @ vs)"
    and "us @ vs \<noteq> [] \<longrightarrow> c_inflight c1 = hd (us @ vs)"
proof -
  show "moves (c_ce c) (c_ce (remove_entry i c1)) (us @ i # vs) (us @ vs)"
    using moves_remove [of c us i vs] moves_remove [of "c\<lparr>c_inflight := e_next (ent c i)\<rparr>" us i vs] assms(1)
    by (simp add: c1_def)
  have "i \<notin> set us"
    using cring_distinct [OF assms(1)] by simp
  then show "us @ vs \<noteq> [] \<longrightarrow> c_inflight c1 = hd (us @ vs)"
    using assms(2) cring_prev(2) [OF assms(1)] by (auto simp: c1_def hd_append)
qed

definition unflight :: "nat \<Rightarrow> pcache \<Rightarrow> pcache" where
  "unflight i c = remove_entry i (if c_inflight c = i then c\<lparr>c_inflight := e_next (ent c i)\<rparr> else c)"

lemmas cache_insert_unflight = cache_insert_def [unfolded Let_def, folded unflight_def]

lemma unflight_fields [simp]:
  "c_split (unflight i c) = c_split c" "c_nprec (unflight i c) = c_nprec c"
  "c_ngprec (unflight i c) = c_ngprec c" "c_nprobe (unflight i c) = c_nprobe c"
  "c_ngprobe (unflight i c) = c_ngprobe c" "c_dprobe (unflight i c) = c_dprobe c"
  "c_cap (unflight i c) = c_cap c" "c_hits (unflight i c) = c_hits c"
  "c_misses (unflight i c) = c_misses c" "c_cleanup (unflight i c) = c_cleanup c"
  "c_cleaned (unflight i c) = c_cleaned c" "c_ninflight (unflight i c) = c_ninflight c"
  "length (c_ce (unflight i c)) = length (c_ce c)" "conts (c_ce (unflight i c)) = conts (c_ce c)"
  by (simp_all add: unflight_def)

text \<open>
  The state between the two lists: \<open>i\<close> is in neither, and is linked in behind the last element of
  \<open>xs\<close>, where the main list is \<open>xs @ ys\<close> up to rotation.
\<close>

lemma rep_unflight:
  assumes "rep c a" and "i \<in> set (a_infl a)" and "c0 = c\<lparr>c_ninflight := udec (c_ninflight c)\<rparr>"
    and "a_main a = xs @ ys" and "p = (if xs = [] then last ys else last xs)" and "a_main a \<noteq> []"
  shows "cring (c_ce (add_entry_after i p (unflight i c0))) (xs @ i # ys)"
    and "cring (c_ce (add_entry_after i p (unflight i c0))) (remove1 i (a_infl a))"
    and "remove1 i (a_infl a) \<noteq> [] \<longrightarrow> c_inflight (unflight i c0) = hd (remove1 i (a_infl a))"
    and "c_ninflight c0 = length (remove1 i (a_infl a))"
    and "cring (c_ce (unflight i c0)) (xs @ ys)"
proof -
  have R: "cring (c_ce c0) (xs @ ys)" "cring (c_ce c0) (a_infl a)" "distinct (xs @ ys @ a_infl a)"
      "c_inflight c0 = hd (a_infl a)" "c_ninflight c = length (a_infl a)"
    using assms(1-4) by (auto simp: rep_def rep_core_def)
  have "distinct (a_infl a)"
    using R(3) by simp
  with assms(2) obtain us vs where s: "a_infl a = us @ i # vs" "remove1 i (a_infl a) = us @ vs"
    by (rule split_member)
  note m = unflight_moves [of c0 us i vs, folded unflight_def]
  have m1: "moves (c_ce c0) (c_ce (unflight i c0)) (us @ i # vs) (us @ vs)"
    using m(1) R(2,4) s(1) by simp
  have main: "cring (c_ce (unflight i c0)) (xs @ ys)"
    using moves_other [OF m1 R(1)] R(3) s(1) by auto
  then show "cring (c_ce (unflight i c0)) (xs @ ys)" .
  have i: "i \<notin> set (xs @ ys)" "i < length (c_ce (unflight i c0))"
    using R(2,3) s(1) cring_length [OF R(2), of i] by auto
  have a: "moves (c_ce (unflight i c0)) (c_ce (add_entry_after i p (unflight i c0))) (xs @ ys) (xs @ i # ys)"
  proof (cases xs rule: rev_cases)
    case Nil
    then obtain ys' y where "ys = ys' @ [y]"
      using assms(4,6) by (metis append_Nil rev_exhaust)
    then show ?thesis
      using moves_after [of "unflight i c0" ys' y "[]" i] main i assms(5) Nil
        moves_rotate(2) [of _ _ _ "ys' @ [y]" "[i]"] by simp
  next
    case (snoc xs' x)
    then show ?thesis
      using moves_after [of "unflight i c0" xs' x ys i] main i assms(5) by simp
  qed
  then show "cring (c_ce (add_entry_after i p (unflight i c0))) (xs @ i # ys)"
    by (simp add: moves_def)
  have "cring (c_ce (unflight i c0)) (us @ vs)"
    using m1 by (simp add: moves_def)
  then show "cring (c_ce (add_entry_after i p (unflight i c0))) (remove1 i (a_infl a))"
    using moves_other [OF a, of "us @ vs"] R(3) s by auto
  show "remove1 i (a_infl a) \<noteq> [] \<longrightarrow> c_inflight (unflight i c0) = hd (remove1 i (a_infl a))"
    using m(2) R(2,4) s by (simp add: unflight_def split: if_splits)
  show "c_ninflight c0 = length (remove1 i (a_infl a))"
    using R(5) s by (simp add: assms(3))
qed

lemma a_main_simps [simp]:
  "a_main (a_upd i g a) = a_main a" "a_main (a\<lparr>a_infl := l\<rparr>) = a_main a" "a_infl (a_upd i g a) = a_infl a"
  by (simp_all add: a_main_def a_upd_def)

text \<open>A rearrangement of the lists.\<close>

definition rest :: "pcache \<Rightarrow> _" where
  "rest c = (c_dprobe c, c_cap c, c_hits c, c_misses c, c_cleanup c, c_cleaned c, length (c_ce c), conts (c_ce c))"

definition a_rest :: "acache \<Rightarrow> _" where
  "a_rest a = (a_dprobe a, a_cap a, a_hits a, a_misses a, a_cleanup a, a_cleaned a, a_cont a)"

lemma rep_lists:
  assumes "rep c a" and "cring (c_ce c1) (a_main a1)" and "cring (c_ce c1) (a_infl a1)"
    and "mset (a_main a1 @ a_infl a1) = mset (a_main a @ a_infl a)" and "c_split c1 = last (a_main a1)"
    and "a_infl a1 \<noteq> [] \<longrightarrow> c_inflight c1 = hd (a_infl a1)"
    and "c_nprec c1 = length (a_prec a1)" and "c_ngprec c1 = length (a_gprec a1)"
    and "c_nprobe c1 = length (a_probe a1)" and "c_ngprobe c1 = length (a_gprobe a1)"
    and "c_ninflight c1 = length (a_infl a1)" and "rest c1 = rest c" and "a_rest a1 = a_rest a"
  shows "rep c1 a1"
proof -
  have "distinct (a_main a1 @ a_infl a1)" "length (a_main a1 @ a_infl a1) = 2 * a_cap a"
    using assms(1) mset_eq_imp_distinct_iff [OF assms(4)] mset_eq_length [OF assms(4)]
    by (auto simp: rep_def rep_core_def)
  then show ?thesis
    using assms unfolding rep_def rep_core_def rest_def a_rest_def by (simp only: prod.inject)
qed

lemma rep_insert:
  assumes "rep c a" and "a_main a \<noteq> []" and "i \<in> set (a_infl a) \<or> k_state (a_cont a i) = Cs_valid"
  shows "rep (cache_insert i c) (a_insert i a)"
proof -
  have st: "e_state (ent c i) = k_state (a_cont a i)"
    using assms(1) conts_key(3) [of "c_ce c" i] by (simp add: rep_def rep_core_def)
  show ?thesis
  proof (cases "k_state (a_cont a i) = Cs_valid")
    case True
    then show ?thesis
      using assms(1) st by (simp add: cache_insert_def cache_entry_valid_def a_insert_def)
  next
    case False
    then have i: "i \<in> set (a_infl a)"
      using assms(3) by simp
    define c0 where "c0 = c\<lparr>c_ninflight := udec (c_ninflight c)\<rparr>"
    define c1 where "c1 = add_entry_after i (c_split c) (unflight i c0)"
    have R: "c_split c = last (a_main a)" "c_ninflight c \<noteq> 0" "c_nprobe c = length (a_probe a)" "c_nprec c = length (a_prec a)"
        "length (a_probe a) < UINT_SIZE - 1" "length (a_prec a) < UINT_SIZE - 1" "i < length (c_ce c)"
      using assms(1) i rep_mem [of c a i] by (auto simp: rep_def rep_core_def a_main_def)
    note u = rep_unflight [OF assms(1) i c0_def, of "a_main a" "[]" "c_split c", folded c1_def]
    have u: "cring (c_ce c1) (a_main a @ [i])" "cring (c_ce c1) (remove1 i (a_infl a))"
        "remove1 i (a_infl a) \<noteq> [] \<longrightarrow> c_inflight c1 = hd (remove1 i (a_infl a))"
        "c_ninflight c1 = length (remove1 i (a_infl a))"
      using u assms(2) R(1) by (simp_all add: c1_def)
    have f: "c_nprec c1 = c_nprec c" "c_ngprec c1 = c_ngprec c" "c_nprobe c1 = c_nprobe c" "c_ngprobe c1 = c_ngprobe c"
        "c_dprobe c1 = c_dprobe c" "c_cap c1 = c_cap c" "c_hits c1 = c_hits c" "c_misses c1 = c_misses c"
        "c_cleanup c1 = c_cleanup c" "c_cleaned c1 = c_cleaned c" "length (c_ce c1) = length (c_ce c)"
        "conts (c_ce c1) = conts (c_ce c)" "c_split c1 = c_split c"
      by (simp_all add: c1_def c0_def)
    have g: "c_ngprec c = length (a_gprec a)" "c_ngprobe c = length (a_gprobe a)"
      using assms(1) by (simp_all add: rep_def)
    have e: "e_state (ent c1 i) = k_state (a_cont a i)"
      using assms(1) conts_key(3) [of "c_ce c1" i] f(12) by (simp add: rep_def rep_core_def)
    have "cache_insert i c = upd i (e_state_update (\<lambda>_. Cs_valid))
        (case k_state (a_cont a i) of
           Cs_probe \<Rightarrow> c1\<lparr>c_nprobe := uinc (c_nprobe c1), c_split := i\<rparr>
         | Cs_precious \<Rightarrow> c1\<lparr>c_nprec := uinc (c_nprec c1)\<rparr> | Cs_valid \<Rightarrow> c1)"
      using False st R(2) e unfolding c1_def c0_def
      by (cases "k_state (a_cont a i)") (simp_all add: cache_insert_unflight cache_entry_valid_def)
    moreover have "rep (case k_state (a_cont a i) of
           Cs_probe \<Rightarrow> c1\<lparr>c_nprobe := uinc (c_nprobe c1), c_split := i\<rparr>
         | Cs_precious \<Rightarrow> c1\<lparr>c_nprec := uinc (c_nprec c1)\<rparr> | Cs_valid \<Rightarrow> c1)
        (case k_state (a_cont a i) of
           Cs_probe \<Rightarrow> a\<lparr>a_infl := remove1 i (a_infl a), a_probe := a_probe a @ [i]\<rparr>
         | _ \<Rightarrow> a\<lparr>a_infl := remove1 i (a_infl a), a_prec := i # a_prec a\<rparr>)"
    proof (cases "k_state (a_cont a i)")
      case Cs_probe
      have "rep (c1\<lparr>c_nprobe := uinc (c_nprobe c1), c_split := i\<rparr>)
          (a\<lparr>a_infl := remove1 i (a_infl a), a_probe := a_probe a @ [i]\<rparr>)"
        by (rule rep_lists [OF assms(1)]) (use u f R i g in \<open>simp_all add: a_main_def rest_def a_rest_def uinc_less\<close>)
      then show ?thesis
        by (simp only: Cs_probe cache_state.case)
    next
      case Cs_precious
      have "cring (c_ce c1) (i # a_main a)"
        using u(1) cring_rotate [of _ "a_main a" "[i]"] by simp
      then have "rep (c1\<lparr>c_nprec := uinc (c_nprec c1)\<rparr>)
          (a\<lparr>a_infl := remove1 i (a_infl a), a_prec := i # a_prec a\<rparr>)"
        by (intro rep_lists [OF assms(1)])
          (use u f R i g assms(2) in \<open>auto simp: a_main_def rest_def a_rest_def uinc_less\<close>)
      then show ?thesis
        by (simp only: Cs_precious cache_state.case)
    qed (use False in simp)
    ultimately show ?thesis
      using False i
      by (cases "k_state (a_cont a i)")
        (auto simp: a_insert_def cont_def a_main_def intro!: rep_upd_full)
  qed
qed

lemmas cache_discard_unflight = cache_discard_def [unfolded Let_def, folded unflight_def]

lemma after_split: "add_entry_after i p (c\<lparr>c_split := s\<rparr>) = (add_entry_after i p c)\<lparr>c_split := s\<rparr>"
  by (simp add: add_entry_after_def upd_def Let_def)

lemma rep_discard:
  assumes "rep c a" and "a_main a \<noteq> []" and "i \<in> set (a_main a) \<union> set (a_infl a)"
    and "i \<in> set (a_infl a) \<or> k_state (a_cont a i) = Cs_valid"
  shows "rep (cache_discard i c) (a_discard i a)"
proof -
  define c0 a0 where "c0 = drop_ref i c" and "a0 = a_put i a"
  have R0: "rep c0 a0"
    using rep_put [OF assms(1,3)] by (simp add: c0_def a0_def cache_put_entry_def)
  have st: "e_refcnt (ent c0 i) = k_ref (a_cont a0 i)" "e_state (ent c0 i) = k_state (a_cont a0 i)"
    using R0 conts_key(2,3) [of "c_ce c0" i] by (simp_all add: rep_def rep_core_def)
  show ?thesis
  proof (cases "k_ref (a_cont a0 i) \<noteq> 0 \<or> k_state (a_cont a0 i) = Cs_valid")
    case True
    then show ?thesis
      using R0 st by (auto simp: cache_discard_def a_discard_def cache_entry_valid_def c0_def a0_def)
  next
    case False
    define c1 where "c1 = c0\<lparr>c_ninflight := udec (c_ninflight c0)\<rparr>"
    define xs ys where "xs = a_prec a0 @ a_gprec a0 @ a_unused a0" and "ys = a_gprobe a0 @ a_probe a0"
    define p where "p = (if xs = [] then last ys else last xs)"
    have m: "a_main a0 = xs @ ys" "xs @ ys \<noteq> []" "a_infl a0 = a_infl a"
      using assms(2) by (auto simp: a0_def a_put_def xs_def ys_def a_main_def a_upd_def)
    have i: "i \<in> set (a_infl a0)"
      using assms(4) False by (auto simp: a0_def a_put_def a_upd_def)
    note u = rep_unflight [OF R0 i c1_def m(1) p_def]
    define c2 where "c2 = add_entry_after i p (unflight i c1)"
    have u: "cring (c_ce c2) (xs @ i # ys)" "cring (c_ce c2) (remove1 i (a_infl a0))" "c_inflight c2 = c_inflight (unflight i c1)"
        "remove1 i (a_infl a0) \<noteq> [] \<longrightarrow> c_inflight (unflight i c1) = hd (remove1 i (a_infl a0))"
        "c_ninflight c1 = length (remove1 i (a_infl a0))" "cring (c_ce (unflight i c1)) (xs @ ys)"
      using u m(1,2) by (simp_all add: c2_def)
    have R: "c_split c0 = last (xs @ ys)" "uadd (c_nprobe c0) (c_ngprobe c0) = length ys" "c_nprec c0 = length (a_prec a0)"
        "c_ngprec c0 = length (a_gprec a0)" "c_nprobe c0 = length (a_probe a0)" "c_ngprobe c0 = length (a_gprobe a0)"
      using R0 by (auto simp: rep_def rep_core_def a_main_def xs_def ys_def intro!: uadd_less [THEN trans])
    have f: "c_nprec c2 = c_nprec c0" "c_ngprec c2 = c_ngprec c0" "c_nprobe c2 = c_nprobe c0" "c_ngprobe c2 = c_ngprobe c0"
        "c_ninflight c2 = c_ninflight c1" "rest c2 = rest c0" "c_split c2 = last (xs @ ys)"
      using R(1) by (simp_all add: c2_def c1_def rest_def)
    have d: "cache_discard i c = (if ys = [] then c2\<lparr>c_split := i\<rparr> else c2)"
    proof (cases "ys = []")
      case True
      then show ?thesis
        using False st R(1,2) m(2)
        by (simp add: cache_discard_unflight cache_entry_valid_def c0_def [symmetric] c1_def [symmetric] after_split c2_def p_def)
          (simp add: c1_def)
    next
      case ne: False
      have "walk_prev (unflight i c1) (length ys) (c_split c0) = p"
        using ring_loops(5) [of "unflight i c1" xs ys "[]"] u(6) m(2) R(1) ne by (simp add: p_def)
      then show ?thesis
        using False st R(2) ne
        by (simp add: cache_discard_unflight cache_entry_valid_def c0_def [symmetric] c1_def [symmetric] c2_def)
          (simp add: c1_def)
    qed
    define a1 where "a1 = a0\<lparr>a_infl := remove1 i (a_infl a0), a_unused := a_unused a0 @ [i]\<rparr>"
    have "a_main a1 = xs @ i # ys" "a_infl a1 = remove1 i (a_infl a0)" "a_rest a1 = a_rest a0"
      by (simp_all add: a1_def a_main_def xs_def ys_def a_rest_def)
    then have "rep (if ys = [] then c2\<lparr>c_split := i\<rparr> else c2) a1"
      using u f R i m(1) by (intro rep_lists [OF R0]) (auto simp: a1_def rest_def)
    then show ?thesis
      using False by (simp add: d a_discard_def a0_def [symmetric] a1_def)
  qed
qed

end
