(* ===== verification/Page_Cache_Facts.thy ===== *)
theory Page_Cache_Facts
  imports Page_Cache_Spec
begin

section \<open>Invariants of the page cache\<close>

text \<open>
  The invariant of the specification, and with it of every cache in use: no buffer is lost or
  duplicated, exactly the cached entries and those in flight own one, a key belongs to one entry,
  and only entries that nobody refers to have lost their data. It holds as long as a discarded entry
  is the only one in flight; without this the code hands out an entry without a buffer.
\<close>

subsection \<open>The invariant\<close>

definition opt_mset :: "'a option \<Rightarrow> 'a multiset" where
  "opt_mset d = (case d of None \<Rightarrow> {#} | Some x \<Rightarrow> {#x#})"

lemma opt_mset_simps [simp]: "opt_mset None = {#}" "opt_mset (Some x) = {#x#}"
  by (simp_all add: opt_mset_def)

abbreviation dat :: "acache \<Rightarrow> nat \<Rightarrow> nat option" where
  "dat a i \<equiv> k_data (a_cont a i)"

definition a_live :: "acache \<Rightarrow> nat list" where
  "a_live a = a_prec a @ a_probe a @ a_infl a"

definition a_ghosts :: "acache \<Rightarrow> nat list" where
  "a_ghosts a = a_gprec a @ a_gprobe a"

text \<open>The unused entries with a buffer: they are at the end of the partition.\<close>

definition spare :: "acache \<Rightarrow> nat list" where
  "spare a = filter (\<lambda>i. dat a i \<noteq> None) (a_unused a)"

text \<open>
  The invariant of the contents: \<open>C\<close> are the cached entries, \<open>I\<close> those in flight, \<open>G\<close> the
  ghosts and \<open>U\<close> the unused ones.
\<close>

definition parts :: "nat set \<Rightarrow> nat set \<Rightarrow> nat set \<Rightarrow> nat set \<Rightarrow> nat set \<Rightarrow> bool" where
  "parts V C I G U \<longleftrightarrow>
     (\<forall>i. (i \<in> V \<longleftrightarrow> i \<in> C \<or> i \<in> I \<or> i \<in> G \<or> i \<in> U)
        \<and> (i \<in> C \<longrightarrow> i \<notin> I \<and> i \<notin> G \<and> i \<notin> U) \<and> (i \<in> I \<longrightarrow> i \<notin> G \<and> i \<notin> U) \<and> (i \<in> G \<longrightarrow> i \<notin> U))"

definition bufs :: "nat multiset \<Rightarrow> nat \<Rightarrow> (nat \<Rightarrow> content) \<Rightarrow> bool" where
  "bufs B n k \<longleftrightarrow> (\<Sum>i<n. opt_mset (k_data (k i))) = B"

definition modes :: "nat set \<Rightarrow> nat set \<Rightarrow> nat set \<Rightarrow> nat set \<Rightarrow> (nat \<Rightarrow> content) \<Rightarrow> bool" where
  "modes C I G U k \<longleftrightarrow>
     (\<forall>i\<in>C. k_data (k i) \<noteq> None \<and> k_state (k i) = Cs_valid)
     \<and> (\<forall>i\<in>I. k_data (k i) \<noteq> None \<and> k_state (k i) \<noteq> Cs_valid)
     \<and> (\<forall>i\<in>G. k_data (k i) = None \<and> k_ref (k i) = 0) \<and> (\<forall>i\<in>U. k_ref (k i) = 0)"

definition keys :: "nat set \<Rightarrow> (nat \<Rightarrow> content) \<Rightarrow> bool" where
  "keys S k \<longleftrightarrow> inj_on (\<lambda>i. k_key (k i)) S"

definition inv_sets :: "nat multiset \<Rightarrow> nat \<Rightarrow> nat set \<Rightarrow> nat set \<Rightarrow> nat set \<Rightarrow> nat set \<Rightarrow> (nat \<Rightarrow> content) \<Rightarrow> bool" where
  "inv_sets B n C I G U k \<longleftrightarrow> parts {..<n} C I G U \<and> bufs B n k \<and> modes C I G U k \<and> keys (C \<union> I \<union> G) k"

definition a_cached :: "acache \<Rightarrow> nat set" where
  "a_cached a = set (a_prec a @ a_probe a)"

text \<open>\<open>a_ordered\<close>: the unused entries with a buffer are behind those without.\<close>

definition a_core :: "nat multiset \<Rightarrow> acache \<Rightarrow> bool" where
  "a_core B a \<longleftrightarrow>
     distinct (a_main a @ a_infl a)
     \<and> inv_sets B (2 * a_cap a) (a_cached a) (set (a_infl a)) (set (a_ghosts a)) (set (a_unused a)) (a_cont a)"

definition a_ordered :: "acache \<Rightarrow> bool" where
  "a_ordered a \<longleftrightarrow>
     (\<exists>us ds. a_unused a = us @ ds \<and> (\<forall>i\<in>set us. dat a i = None) \<and> (\<forall>i\<in>set ds. dat a i \<noteq> None))"

definition a_inv :: "nat multiset \<Rightarrow> acache \<Rightarrow> bool" where
  "a_inv B a \<longleftrightarrow> a_core B a \<and> a_ordered a"

definition a_tight :: "acache \<Rightarrow> bool" where
  "a_tight a \<longleftrightarrow>
     length (a_live a) + length (spare a) = a_cap a
     \<and> (a_ghosts a \<noteq> [] \<longrightarrow> length (spare a) + (if a_infl a = [] then 0 else 1) \<le> 1)"

lemma a_tight_room: "a_tight a \<Longrightarrow> a_room a"
  by (simp add: a_tight_def a_room_def a_live_def)

text \<open>The number of buffers.\<close>

lemma size_sum_mset: "finite S \<Longrightarrow> size (\<Sum>i\<in>S. f i :: 'b multiset) = (\<Sum>i\<in>S. size (f i))"
  by (induction S rule: finite_induct) auto

lemma a_core_size:
  assumes "a_core B a"
  shows "length (a_live a) + length (spare a) = size B"
proof -
  have d: "distinct (a_main a @ a_infl a)"
    and s: "inv_sets B (2 * a_cap a) (a_cached a) (set (a_infl a)) (set (a_ghosts a)) (set (a_unused a)) (a_cont a)"
    using assms by (auto simp: a_core_def)
  have "size B = (\<Sum>i<2 * a_cap a. size (opt_mset (dat a i)))"
    using s size_sum_mset [of "{..<2 * a_cap a}" "\<lambda>i. opt_mset (dat a i)"] by (auto simp: inv_sets_def bufs_def)
  also have "\<dots> = (\<Sum>i<2 * a_cap a. if dat a i \<noteq> None then 1 else 0)"
    by (rule sum.cong) (auto simp: opt_mset_def)
  also have "\<dots> = card {i. i < 2 * a_cap a \<and> dat a i \<noteq> None}"
    by (simp add: sum.If_cases Int_def)
  also have "{i. i < 2 * a_cap a \<and> dat a i \<noteq> None} = set (a_live a @ spare a)"
  proof -
    have "i < 2 * a_cap a \<longleftrightarrow> i \<in> a_cached a \<union> set (a_infl a) \<union> set (a_ghosts a) \<union> set (a_unused a)" for i
      using s unfolding inv_sets_def parts_def by auto
    moreover have "modes (a_cached a) (set (a_infl a)) (set (a_ghosts a)) (set (a_unused a)) (a_cont a)"
      using s by (simp add: inv_sets_def)
    ultimately show ?thesis
      unfolding modes_def a_live_def spare_def a_cached_def by auto
  qed
  also have "card \<dots> = length (a_live a @ spare a)"
    by (rule distinct_card) (use d in \<open>auto simp: a_main_def a_live_def spare_def\<close>)
  finally show ?thesis
    by simp
qed

lemma spare_split:
  assumes "a_unused a = us @ ds" and "\<forall>i\<in>set us. dat a i = None" and "\<forall>i\<in>set ds. dat a i \<noteq> None"
  shows "spare a = ds"
  using assms by (simp add: spare_def filter_empty_conv)

text \<open>Steps of the invariant of the contents.\<close>

lemma bufs_upd:
  assumes "bufs B n k" and "i < n" and "B' + opt_mset (k_data (k i)) = B + opt_mset (k_data x)"
  shows "bufs B' n (k(i := x))"
proof -
  have "(\<Sum>j\<in>{..<n} - {i}. opt_mset (k_data ((k(i := x)) j))) = (\<Sum>j\<in>{..<n} - {i}. opt_mset (k_data (k j)))"
    by (rule sum.cong) auto
  then show ?thesis
    using assms by (auto simp: bufs_def sum.remove [of "{..<n}" i] ac_simps)
qed

lemma bufs_member: "bufs B n k \<Longrightarrow> i < n \<Longrightarrow> opt_mset (k_data (k i)) \<subseteq># B"
  by (auto simp: bufs_def sum.remove [of "{..<n}" i])

lemma bufs_same: "bufs B n k \<Longrightarrow> k_data x = k_data (k i) \<Longrightarrow> bufs B n (k(i := x))"
  unfolding bufs_def by (subst sum.cong [OF refl, of _ _ "\<lambda>j. opt_mset (k_data (k j))"]) simp_all

lemma keys_same: "k_key x = k_key (k i) \<Longrightarrow> keys S (k(i := x)) = keys S k"
  unfolding keys_def by (rule inj_on_cong) simp

lemma keys_new: "i \<notin> S \<Longrightarrow> keys S k \<Longrightarrow> \<forall>j\<in>S. k_key (k j) \<noteq> k_key x \<Longrightarrow> keys (insert i S) (k(i := x))"
  unfolding keys_def inj_on_def by (metis fun_upd_apply insert_iff)

lemma keys_mono: "keys S k \<Longrightarrow> T \<subseteq> S \<Longrightarrow> keys T k"
  unfolding keys_def by (rule inj_on_subset)

lemma modes_upd:
  assumes "modes C I G U k" and "i \<in> C \<Longrightarrow> k_data x \<noteq> None \<and> k_state x = Cs_valid"
    and "i \<in> I \<Longrightarrow> k_data x \<noteq> None \<and> k_state x \<noteq> Cs_valid"
    and "i \<in> G \<Longrightarrow> k_data x = None \<and> k_ref x = 0" and "i \<in> U \<Longrightarrow> k_ref x = 0"
  shows "modes C I G U (k(i := x))"
  using assms unfolding modes_def by auto

lemma modes_notin:
  "i \<notin> C \<Longrightarrow> i \<notin> I \<Longrightarrow> i \<notin> G \<Longrightarrow> i \<notin> U \<Longrightarrow> modes C I G U (k(i := x)) \<longleftrightarrow> modes C I G U k"
  unfolding modes_def by (intro arg_cong2 [where f = "(\<and>)"] ball_cong refl) auto

lemma parts_mem:
  assumes "parts V C I G U"
  shows "i \<in> C \<Longrightarrow> i \<in> V \<and> i \<notin> I \<and> i \<notin> G \<and> i \<notin> U"
    and "i \<in> I \<Longrightarrow> i \<in> V \<and> i \<notin> C \<and> i \<notin> G \<and> i \<notin> U"
    and "i \<in> G \<Longrightarrow> i \<in> V \<and> i \<notin> C \<and> i \<notin> I \<and> i \<notin> U"
    and "i \<in> U \<Longrightarrow> i \<in> V \<and> i \<notin> C \<and> i \<notin> I \<and> i \<notin> G"
  using assms unfolding parts_def by blast+

lemma modes_insert:
  "modes (insert i C) I G U k \<longleftrightarrow> modes C I G U k \<and> k_data (k i) \<noteq> None \<and> k_state (k i) = Cs_valid"
  "modes C (insert i I) G U k \<longleftrightarrow> modes C I G U k \<and> k_data (k i) \<noteq> None \<and> k_state (k i) \<noteq> Cs_valid"
  "modes C I (insert i G) U k \<longleftrightarrow> modes C I G U k \<and> k_data (k i) = None \<and> k_ref (k i) = 0"
  "modes C I G (insert i U) k \<longleftrightarrow> modes C I G U k \<and> k_ref (k i) = 0"
  unfolding modes_def by auto

text \<open>An element moves from one part to another.\<close>

lemma parts_moveI:
  assumes "parts V C I G U" and "i \<in> C \<or> i \<in> I \<or> i \<in> G \<or> i \<in> U"
    and "\<And>x. x \<noteq> i \<Longrightarrow> (x \<in> C' \<longleftrightarrow> x \<in> C) \<and> (x \<in> I' \<longleftrightarrow> x \<in> I) \<and> (x \<in> G' \<longleftrightarrow> x \<in> G) \<and> (x \<in> U' \<longleftrightarrow> x \<in> U)"
    and "i \<in> C' \<and> i \<notin> I' \<and> i \<notin> G' \<and> i \<notin> U' \<or> i \<notin> C' \<and> i \<in> I' \<and> i \<notin> G' \<and> i \<notin> U'
      \<or> i \<notin> C' \<and> i \<notin> I' \<and> i \<in> G' \<and> i \<notin> U' \<or> i \<notin> C' \<and> i \<notin> I' \<and> i \<notin> G' \<and> i \<in> U'"
  shows "parts V C' I' G' U'"
  unfolding parts_def
proof
  fix x
  show "(x \<in> V \<longleftrightarrow> x \<in> C' \<or> x \<in> I' \<or> x \<in> G' \<or> x \<in> U')
      \<and> (x \<in> C' \<longrightarrow> x \<notin> I' \<and> x \<notin> G' \<and> x \<notin> U') \<and> (x \<in> I' \<longrightarrow> x \<notin> G' \<and> x \<notin> U') \<and> (x \<in> G' \<longrightarrow> x \<notin> U')"
    using assms(1) [unfolded parts_def, THEN spec, of x] assms(2,4) assms(3) [of x]
    by (cases "x = i") auto
qed

lemma inv_setsD:
  assumes "inv_sets B n C I G U k"
  shows "parts {..<n} C I G U" and "bufs B n k" and "modes C I G U k" and "keys (C \<union> I \<union> G) k"
  using assms by (simp_all add: inv_sets_def)

lemma inv_less: "inv_sets B n C I G U k \<Longrightarrow> i \<in> C \<union> I \<union> G \<union> U \<Longrightarrow> i < n"
  unfolding inv_sets_def parts_def by auto

text \<open>A cached entry becomes a ghost and gives its buffer away.\<close>

lemma inv_evict:
  assumes "inv_sets B n (insert j C) I G U k" and "j \<notin> C" and "k_ref (k j) = 0"
  shows "inv_sets (B - opt_mset (k_data (k j))) n C I (insert j G) U (k(j := (k j)\<lparr>k_data := None\<rparr>))"
proof -
  note a = inv_setsD [OF assms(1)]
  have j: "j < n" "j \<notin> I" "j \<notin> G" "j \<notin> U"
    using parts_mem(1) [OF a(1), of j] by simp_all
  have "parts {..<n} C I (insert j G) U"
    using parts_mem(1) [OF a(1), of j] assms(2) by (intro parts_moveI [OF a(1), of j]) simp_all
  moreover have "bufs (B - opt_mset (k_data (k j))) n (k(j := (k j)\<lparr>k_data := None\<rparr>))"
    using bufs_member [OF a(2) j(1)] by (intro bufs_upd [OF a(2) j(1)]) simp
  moreover have "modes C I (insert j G) U (k(j := (k j)\<lparr>k_data := None\<rparr>))"
    using a(3) assms(2,3) j by (simp add: modes_insert modes_notin)
  moreover have "insert j C \<union> I \<union> G = C \<union> I \<union> insert j G"
    by blast
  ultimately show ?thesis
    using a(4) by (simp add: inv_sets_def keys_same)
qed

text \<open>An unused entry gives or gets a buffer.\<close>

lemma inv_unused:
  assumes "inv_sets B n C I G U k" and "j \<in> U" and "B' + opt_mset (k_data (k j)) = B + opt_mset d"
  shows "inv_sets B' n C I G U (k(j := (k j)\<lparr>k_data := d\<rparr>))"
proof -
  note a = inv_setsD [OF assms(1)]
  have j: "j < n" "j \<notin> C" "j \<notin> I" "j \<notin> G"
    using parts_mem(4) [OF a(1), of j] assms(2) by simp_all
  have "bufs B' n (k(j := (k j)\<lparr>k_data := d\<rparr>))"
    using assms(3) by (intro bufs_upd [OF a(2) j(1)]) simp
  moreover have "modes C I G U (k(j := (k j)\<lparr>k_data := d\<rparr>))"
    using a(3) assms(2) j by (intro modes_upd) (auto simp: modes_insert modes_def)
  ultimately show ?thesis
    using a by (simp add: inv_sets_def keys_same)
qed

lemma inv_unused_give:
  assumes "inv_sets B n C I G U k" and "j \<in> U"
  shows "inv_sets (B - opt_mset (k_data (k j))) n C I G U (k(j := (k j)\<lparr>k_data := None\<rparr>))"
  using bufs_member [OF inv_setsD(2) [OF assms(1)], of j] inv_less [OF assms(1), of j] assms(2)
  by (intro inv_unused [OF assms]) simp

lemma inv_unused_get:
  assumes "inv_sets B n C I G U k" and "j \<in> U" and "k_data (k j) = None"
  shows "inv_sets (B + opt_mset d) n C I G U (k(j := (k j)\<lparr>k_data := d\<rparr>))"
  using assms(3) by (intro inv_unused [OF assms(1,2)]) simp

text \<open>A ghost, or an unused entry with a buffer, is launched; an entry lands, or is discarded.\<close>

lemma inv_launch_ghost:
  assumes "inv_sets B n C I (insert i G) U k" and "i \<notin> G" and "d \<noteq> None"
  shows "inv_sets (B + opt_mset d) n C (insert i I) G U (k(i := (k i)\<lparr>k_data := d, k_state := Cs_precious\<rparr>))"
proof -
  note a = inv_setsD [OF assms(1)]
  have j: "i < n" "i \<notin> C" "i \<notin> I" "i \<notin> U"
    using parts_mem(3) [OF a(1), of i] by simp_all
  have "parts {..<n} C (insert i I) G U"
    using parts_mem [OF a(1), of i] assms(2) by (intro parts_moveI [OF a(1), of i]) auto
  moreover have "bufs (B + opt_mset d) n (k(i := (k i)\<lparr>k_data := d, k_state := Cs_precious\<rparr>))"
    using a(3) by (intro bufs_upd [OF a(2) j(1)]) (simp add: modes_insert)
  moreover have "modes C (insert i I) G U (k(i := (k i)\<lparr>k_data := d, k_state := Cs_precious\<rparr>))"
    using a(3) assms(2,3) j by (simp add: modes_insert modes_notin)
  moreover have "C \<union> I \<union> insert i G = C \<union> insert i I \<union> G"
    by blast
  ultimately show ?thesis
    using a(4) by (simp add: inv_sets_def keys_same)
qed

lemma inv_launch_unused:
  assumes "inv_sets B n C I G (insert i U) k" and "i \<notin> U" and "k_data (k i) \<noteq> None"
    and "\<forall>j\<in>C \<union> I \<union> G. k_key (k j) \<noteq> key"
  shows "inv_sets B n C (insert i I) G U (k(i := (k i)\<lparr>k_key := key, k_state := Cs_probe\<rparr>))"
proof -
  note a = inv_setsD [OF assms(1)]
  have j: "i \<notin> C" "i \<notin> I" "i \<notin> G"
    using parts_mem(4) [OF a(1), of i] by simp_all
  have "parts {..<n} C (insert i I) G U"
    using parts_mem [OF a(1), of i] assms(2) by (intro parts_moveI [OF a(1), of i]) auto
  moreover have "bufs B n (k(i := (k i)\<lparr>k_key := key, k_state := Cs_probe\<rparr>))"
    by (rule bufs_same [OF a(2)]) simp
  moreover have "modes C (insert i I) G U (k(i := (k i)\<lparr>k_key := key, k_state := Cs_probe\<rparr>))"
    using a(3) assms(2,3) j by (simp add: modes_insert modes_notin)
  moreover have "keys (C \<union> insert i I \<union> G) (k(i := (k i)\<lparr>k_key := key, k_state := Cs_probe\<rparr>))"
  proof (rule keys_mono)
    show "keys (insert i (C \<union> I \<union> G)) (k(i := (k i)\<lparr>k_key := key, k_state := Cs_probe\<rparr>))"
      using assms(4) j by (intro keys_new [OF _ a(4)]) auto
  qed blast
  ultimately show ?thesis
    by (simp add: inv_sets_def)
qed

lemma inv_ghost_unused:
  assumes "inv_sets B n C I (insert i G) U k" and "i \<notin> G"
  shows "inv_sets B n C I G (insert i U) k"
proof -
  note a = inv_setsD [OF assms(1)]
  have "parts {..<n} C I G (insert i U)"
    using parts_mem [OF a(1), of i] assms(2) by (intro parts_moveI [OF a(1), of i]) auto
  then show ?thesis
    using a(2,3) keys_mono [OF a(4), of "C \<union> I \<union> G"] by (simp add: inv_sets_def modes_insert subset_eq)
qed

lemma inv_land:
  assumes "inv_sets B n C (insert i I) G U k" and "i \<notin> I"
  shows "inv_sets B n (insert i C) I G U (k(i := (k i)\<lparr>k_state := Cs_valid\<rparr>))"
proof -
  note a = inv_setsD [OF assms(1)]
  have j: "i \<notin> C" "i \<notin> G" "i \<notin> U"
    using parts_mem(2) [OF a(1), of i] by simp_all
  have "parts {..<n} (insert i C) I G U"
    using parts_mem [OF a(1), of i] assms(2) by (intro parts_moveI [OF a(1), of i]) auto
  moreover have "bufs B n (k(i := (k i)\<lparr>k_state := Cs_valid\<rparr>))"
    by (rule bufs_same [OF a(2)]) simp
  moreover have "modes (insert i C) I G U (k(i := (k i)\<lparr>k_state := Cs_valid\<rparr>))"
    using a(3) assms(2) j by (simp add: modes_insert modes_notin)
  moreover have "C \<union> insert i I \<union> G = insert i C \<union> I \<union> G"
    by blast
  ultimately show ?thesis
    using a(4) by (simp add: inv_sets_def keys_same)
qed

lemma inv_discard:
  assumes "inv_sets B n C (insert i I) G U k" and "i \<notin> I" and "k_ref (k i) = 0"
  shows "inv_sets B n C I G (insert i U) k"
proof -
  note a = inv_setsD [OF assms(1)]
  have "parts {..<n} C I G (insert i U)"
    using parts_mem [OF a(1), of i] assms(2) by (intro parts_moveI [OF a(1), of i]) auto
  then show ?thesis
    using a(2,3) keys_mono [OF a(4), of "C \<union> I \<union> G"] assms(3) by (simp add: inv_sets_def modes_insert subset_eq)
qed

lemma inv_ref:
  assumes "inv_sets B n C I G U k" and "i \<in> C \<union> I"
  shows "inv_sets B n C I G U (k(i := (k i)\<lparr>k_ref := r\<rparr>))"
proof -
  note a = inv_setsD [OF assms(1)]
  have j: "i \<notin> G" "i \<notin> U"
    using parts_mem(1,2) [OF a(1), of i] assms(2) by blast+
  have "modes C I G U (k(i := (k i)\<lparr>k_ref := r\<rparr>))"
    using a(3) j by (intro modes_upd) (auto simp: modes_insert modes_def)
  then show ?thesis
    using a bufs_same [OF a(2), of "(k i)\<lparr>k_ref := r\<rparr>" i] by (simp add: inv_sets_def keys_same)
qed

lemma inv_state:
  assumes "inv_sets B n C I G U k" and "i \<in> I" and "s \<noteq> Cs_valid"
  shows "inv_sets B n C I G U (k(i := (k i)\<lparr>k_state := s\<rparr>))"
proof -
  note a = inv_setsD [OF assms(1)]
  have j: "i \<notin> C" "i \<notin> G" "i \<notin> U"
    using parts_mem(2) [OF a(1), of i] assms(2) by simp_all
  have "modes C I G U (k(i := (k i)\<lparr>k_state := s\<rparr>))"
    using a(3) j assms(3) by (intro modes_upd) (auto simp: modes_insert modes_def)
  then show ?thesis
    using a bufs_same [OF a(2), of "(k i)\<lparr>k_state := s\<rparr>" i] by (simp add: inv_sets_def keys_same)
qed


subsection \<open>Eviction and reuse of buffers\<close>

lemma spare_ordered:
  assumes "a_ordered a" and "spare a \<noteq> []"
  shows "a_unused a \<noteq> []" and "dat a (last (a_unused a)) \<noteq> None"
proof -
  obtain us ds where u: "a_unused a = us @ ds" "\<forall>i\<in>set us. dat a i = None" "\<forall>i\<in>set ds. dat a i \<noteq> None"
    using assms(1) by (auto simp: a_ordered_def)
  then have "ds \<noteq> []"
    using assms(2) spare_split [OF u] by simp
  then show "a_unused a \<noteq> []" "dat a (last (a_unused a)) \<noteq> None"
    using u by auto
qed

lemma a_ordered_noneI: "(\<And>i. i \<in> set (a_unused a) \<Longrightarrow> dat a i = None) \<Longrightarrow> a_ordered a"
  unfolding a_ordered_def by (rule exI [of _ "a_unused a"], rule exI [of _ "[]"]) simp

lemma spare_Nil_iff: "spare a = [] \<longleftrightarrow> (\<forall>i\<in>set (a_unused a). dat a i = None)"
  by (auto simp: spare_def filter_empty_conv)

lemma a_idle_some:
  assumes "a_inuse a < length (a_live a)"
  shows "a_idle (a_prec a) a \<noteq> [] \<or> a_idle (a_probe a) a \<noteq> []"
  using assms by (auto simp: a_inuse_def a_live_def)

text \<open>The evicted entry: it was cached, nobody refers to it, and now it is a ghost.\<close>

lemma a_evict_lists:
  assumes "a_evict bias a = Some (j, a')" and "distinct (a_main a @ a_infl a)"
  shows "j \<in> a_cached a" and "k_ref (a_cont a j) = 0" and "a_cached a' = a_cached a - {j}"
    and "set (a_ghosts a') = insert j (set (a_ghosts a))" and "distinct (a_main a' @ a_infl a')"
    and "length (a_live a) = Suc (length (a_live a'))"
proof -
  have m: "xs \<noteq> [] \<Longrightarrow> hd xs \<in> set xs \<and> last xs \<in> set xs" for xs :: "nat list"
    by simp
  have "j \<in> a_cached a \<and> k_ref (a_cont a j) = 0 \<and> a_cached a' = a_cached a - {j}
    \<and> set (a_ghosts a') = insert j (set (a_ghosts a)) \<and> distinct (a_main a' @ a_infl a')
    \<and> length (a_live a) = Suc (length (a_live a'))"
  proof (cases "a_idle (a_probe a) a \<noteq> [] \<and> (a_idle (a_prec a) a = [] \<or> length (a_probe a) + bias > a_dprobe a)")
    case True
    define i where "i = hd (a_idle (a_probe a) a)"
    have i: "i \<in> set (a_probe a)" "k_ref (a_cont a i) = 0"
      using m [of "a_idle (a_probe a) a"] True by (auto simp: i_def a_idle_def)
    have "j = i" "a' = a_clean i (a\<lparr>a_probe := remove1 i (a_probe a), a_gprobe := a_gprobe a @ [i]\<rparr>)"
      using assms(1) True by (auto simp: a_evict_def i_def Let_def)
    then show ?thesis
      using assms(2) i length_pos_if_in_set [OF i(1)]
      by (auto simp: a_clean_def a_cached_def a_ghosts_def a_main_def a_live_def length_remove1 set_remove1_eq)
  next
    case False
    then have ne: "a_idle (a_prec a) a \<noteq> []"
      using assms(1) by (auto simp: a_evict_def split: if_splits)
    define i where "i = last (a_idle (a_prec a) a)"
    have i: "i \<in> set (a_prec a)" "k_ref (a_cont a i) = 0"
      using m [OF ne] by (auto simp: i_def a_idle_def)
    have "j = i" "a' = a_clean i (a\<lparr>a_prec := remove1 i (a_prec a), a_gprec := i # a_gprec a\<rparr>)"
      using assms(1) False ne by (auto simp: a_evict_def i_def Let_def split: if_splits)
    then show ?thesis
      using assms(2) i length_pos_if_in_set [OF i(1)]
      by (auto simp: a_clean_def a_cached_def a_ghosts_def a_main_def a_live_def length_remove1 set_remove1_eq)
  qed
  then show "j \<in> a_cached a" "k_ref (a_cont a j) = 0" "a_cached a' = a_cached a - {j}"
    "set (a_ghosts a') = insert j (set (a_ghosts a))" "distinct (a_main a' @ a_infl a')"
    "length (a_live a) = Suc (length (a_live a'))"
    by simp_all
qed

lemma a_clean_simps [simp]:
  "a_prec (a_clean i a) = a_prec a" "a_gprec (a_clean i a) = a_gprec a" "a_unused (a_clean i a) = a_unused a"
  "a_gprobe (a_clean i a) = a_gprobe a" "a_probe (a_clean i a) = a_probe a" "a_infl (a_clean i a) = a_infl a"
  "a_cap (a_clean i a) = a_cap a" "a_cont (a_clean i a) = a_cont a" "a_hits (a_clean i a) = a_hits a"
  "a_misses (a_clean i a) = a_misses a" "a_dprobe (a_clean i a) = a_dprobe a" "a_cleanup (a_clean i a) = a_cleanup a"
  by (simp_all add: a_clean_def)

lemma a_evict_rest:
  assumes "a_evict bias a = Some (j, a')"
  shows "a_unused a' = a_unused a" and "a_infl a' = a_infl a" and "a_cap a' = a_cap a" and "a_cont a' = a_cont a"
  using assms by (auto simp: a_evict_def Let_def split: if_splits)

lemma a_evict_total: "a_idle (a_prec a) a \<noteq> [] \<or> a_idle (a_probe a) a \<noteq> [] \<Longrightarrow> \<exists>j a'. a_evict bias a = Some (j, a')"
  by (auto simp: a_evict_def Let_def)

lemma a_evict_core:
  assumes "a_evict bias a = Some (j, a')" and "a_core B a"
  shows "a_core (B - opt_mset (dat a j)) (a_set_data j None a')" and "dat a j \<noteq> None"
proof -
  have d: "distinct (a_main a @ a_infl a)"
    and s: "inv_sets B (2 * a_cap a) (a_cached a) (set (a_infl a)) (set (a_ghosts a)) (set (a_unused a)) (a_cont a)"
    using assms(2) by (auto simp: a_core_def)
  note e = a_evict_lists [OF assms(1) d] and r = a_evict_rest [OF assms(1)]
  have c: "a_cached a = insert j (a_cached a')" "j \<notin> a_cached a'"
    using e(1,3) by auto
  have "inv_sets (B - opt_mset (dat a j)) (2 * a_cap a) (a_cached a') (set (a_infl a)) (set (a_ghosts a'))
      (set (a_unused a)) ((a_cont a)(j := (a_cont a j)\<lparr>k_data := None\<rparr>))"
    using inv_evict [OF s [unfolded c(1)] c(2) e(2)] by (simp add: e(4))
  then show "a_core (B - opt_mset (dat a j)) (a_set_data j None a')"
    using e(5) r by (simp add: a_core_def a_set_data_def a_upd_def a_cached_def a_ghosts_def a_main_def)
  show "dat a j \<noteq> None"
    using s e(1) by (simp add: inv_sets_def modes_def)
qed

text \<open>Entries in use keep their key and their data.\<close>

definition calm :: "acache \<Rightarrow> acache \<Rightarrow> bool" where
  "calm a a' \<longleftrightarrow> (\<forall>i. k_ref (a_cont a i) \<noteq> 0 \<longrightarrow>
     k_key (a_cont a' i) = k_key (a_cont a i) \<and> dat a' i = dat a i \<and> k_ref (a_cont a' i) = k_ref (a_cont a i))"

lemma calm_refl [simp]: "a_cont a' = a_cont a \<Longrightarrow> calm a a'"
  by (simp add: calm_def)

lemma calm_trans: "calm a b \<Longrightarrow> calm b c \<Longrightarrow> calm a c"
  by (simp add: calm_def)

lemma calm_upd: "a_cont a' = (a_cont a)(i := x) \<Longrightarrow> k_ref (a_cont a i) = 0 \<Longrightarrow> calm a a'"
  by (auto simp: calm_def)

lemma a_inv_room: "a_inv B a \<Longrightarrow> a_tight a \<Longrightarrow> size B = a_cap a"
  using a_core_size [of B a] by (simp add: a_inv_def a_tight_def)

lemma a_set_data_simps [simp]:
  "a_prec (a_set_data i d a) = a_prec a" "a_gprec (a_set_data i d a) = a_gprec a" "a_unused (a_set_data i d a) = a_unused a"
  "a_gprobe (a_set_data i d a) = a_gprobe a" "a_probe (a_set_data i d a) = a_probe a" "a_infl (a_set_data i d a) = a_infl a"
  "a_cap (a_set_data i d a) = a_cap a" "a_live (a_set_data i d a) = a_live a" "a_ghosts (a_set_data i d a) = a_ghosts a"
  "a_cached (a_set_data i d a) = a_cached a" "a_main (a_set_data i d a) = a_main a"
  "a_cont (a_set_data i d a) = (a_cont a)(i := (a_cont a i)\<lparr>k_data := d\<rparr>)"
  by (simp_all add: a_set_data_def a_upd_def a_live_def a_ghosts_def a_cached_def a_main_def)

lemma live_prec: "length (a_prec a) + length (a_probe a) + length (a_infl a) = length (a_live a)"
  by (simp add: a_live_def)

lemma a_evict_ghosts:
  assumes "a_evict bias a = Some (j, a')"
  shows "set (a_gprec a) \<subseteq> set (a_gprec a')" and "set (a_gprobe a) \<subseteq> set (a_gprobe a')"
  using assms by (auto simp: a_evict_def Let_def split: if_splits)

lemma a_reclaim_evict:
  assumes "a_core B a" and "length (a_live a) = a_cap a" and "a_inuse a < a_cap a"
  shows "\<exists>j d a1. a_evict bias a = Some (j, a1) \<and> dat a j = Some d \<and> k_ref (a_cont a j) = 0
    \<and> a_core (B - {#d#}) (a_set_data j None a1) \<and> Suc (length (a_live a1)) = a_cap a
    \<and> set (a_gprec a) \<subseteq> set (a_gprec a1) \<and> set (a_gprobe a) \<subseteq> set (a_gprobe a1)
    \<and> set (a_ghosts a1) = insert j (set (a_ghosts a)) \<and> j \<in> a_cached a
    \<and> a_unused a1 = a_unused a \<and> a_infl a1 = a_infl a \<and> a_cap a1 = a_cap a \<and> a_cont a1 = a_cont a"
proof -
  obtain j a1 where e: "a_evict bias a = Some (j, a1)"
    using a_evict_total [OF a_idle_some] assms(2,3) by metis
  obtain d where d: "dat a j = Some d"
    using a_evict_core(2) [OF e assms(1)] by auto
  have "distinct (a_main a @ a_infl a)"
    using assms(1) by (simp add: a_core_def)
  then show ?thesis
    using e d a_evict_lists [OF e] a_evict_rest [OF e] a_evict_core(1) [OF e assms(1)] a_evict_ghosts [OF e] assms(2)
    by (intro exI [of _ j] exI [of _ d] exI [of _ a1]) simp
qed

lemma a_core_modes:
  assumes "a_core B a"
  shows "i \<in> a_cached a \<Longrightarrow> dat a i \<noteq> None \<and> k_state (a_cont a i) = Cs_valid"
    and "i \<in> set (a_infl a) \<Longrightarrow> dat a i \<noteq> None \<and> k_state (a_cont a i) \<noteq> Cs_valid"
    and "i \<in> set (a_ghosts a) \<Longrightarrow> dat a i = None \<and> k_ref (a_cont a i) = 0"
    and "i \<in> set (a_unused a) \<Longrightarrow> k_ref (a_cont a i) = 0"
  using assms by (simp_all add: a_core_def inv_sets_def modes_def)

lemma reclaim_step:
  assumes "a_inv B a" and "a_tight a" and "a_ghosts a \<noteq> []" and "a_inuse a < a_cap a"
  shows "\<exists>d a1. a_reclaim a = Some (Some d, a1) \<and> a_core (B - {#d#}) a1 \<and> d \<in># B \<and> spare a1 = []
    \<and> Suc (length (a_live a1)) = a_cap a \<and> a_cap a1 = a_cap a \<and> a_infl a1 = a_infl a
    \<and> set (a_gprec a) \<subseteq> set (a_gprec a1) \<and> set (a_gprobe a) \<subseteq> set (a_gprobe a1) \<and> calm a a1"
proof (cases "length (a_live a) < a_cap a")
  case True
  have core: "a_core B a" and ord: "a_ordered a"
    using assms(1) by (simp_all add: a_inv_def)
  have sp: "spare a \<noteq> []" "length (spare a) = 1"
    using assms(2,3) True by (auto simp: a_tight_def split: if_splits)
  define i where "i = last (a_unused a)"
  have i: "a_unused a \<noteq> []" "dat a i \<noteq> None" "i \<in> set (a_unused a)"
    using spare_ordered [OF ord sp(1)] by (simp_all add: i_def)
  obtain d where d: "dat a i = Some d"
    using i(2) by auto
  define a1 where "a1 = a_set_data i None a"
  have "a_reclaim a = Some (Some d, a1)"
    using True i(1) d by (simp add: a_reclaim_def live_prec i_def [symmetric] a1_def)
  moreover have "inv_sets (B - {#d#}) (2 * a_cap a) (a_cached a) (set (a_infl a)) (set (a_ghosts a)) (set (a_unused a)) (a_cont a1)"
    using core inv_unused_give [OF _ i(3)] d by (fastforce simp: a_core_def a1_def)
  then have "a_core (B - {#d#}) a1"
    using core by (simp add: a_core_def a1_def)
  moreover have "d \<in># B"
    using core bufs_member [of B "2 * a_cap a" "a_cont a" i] d inv_less [of B _ _ _ _ _ _ i] i(3)
    by (fastforce simp: a_core_def inv_sets_def)
  moreover have "spare a1 = []"
  proof -
    obtain x where "spare a = [x]"
      using sp(2) by (auto simp: length_Suc_conv)
    moreover have "i \<in> set (spare a)"
      using i(2,3) by (simp add: spare_def)
    ultimately have "spare a = [i]"
      by simp
    then have "\<forall>j. j \<in> set (spare a) \<longrightarrow> j = i"
      by simp
    then show ?thesis
      by (auto simp: a1_def spare_def filter_empty_conv)
  qed
  moreover have "calm a a1"
    using a_core_modes(4) [OF core i(3)] by (intro calm_upd [of _ _ i]) (simp_all add: a1_def)
  moreover have "Suc (length (a_live a1)) = a_cap a"
    using assms(2) sp(2) by (simp add: a_tight_def a1_def)
  ultimately show ?thesis
    by (simp add: a1_def)
next
  case False
  have core: "a_core B a"
    using assms(1) by (simp add: a_inv_def)
  have "length (a_live a) = a_cap a" "length (spare a) = 0"
    using False assms(2) unfolding a_tight_def by linarith+
  then have l: "length (a_live a) = a_cap a" "spare a = []"
    by simp_all
  obtain j d a1 where e: "a_evict 0 a = Some (j, a1)" "dat a j = Some d" "k_ref (a_cont a j) = 0"
      "a_core (B - {#d#}) (a_set_data j None a1)" "Suc (length (a_live a1)) = a_cap a"
      "set (a_gprec a) \<subseteq> set (a_gprec a1)" "set (a_gprobe a) \<subseteq> set (a_gprobe a1)"
      "a_unused a1 = a_unused a" "a_infl a1 = a_infl a" "a_cap a1 = a_cap a" "a_cont a1 = a_cont a" "j \<in> a_cached a"
    using a_reclaim_evict [OF core l(1) assms(4), of 0] by blast
  have "a_reclaim a = Some (Some d, a_set_data j None a1)"
    using False e(1,2,11) by (simp add: a_reclaim_def live_prec)
  moreover have "d \<in># B"
    using core bufs_member [of B "2 * a_cap a" "a_cont a" j] e(2) inv_less [of B _ _ _ _ _ _ j] e(12)
    by (fastforce simp: a_core_def inv_sets_def)
  moreover have "spare (a_set_data j None a1) = []"
    using l(2) by (auto simp: spare_Nil_iff e(8,11))
  moreover have "calm a (a_set_data j None a1)"
    using e(3,11) by (intro calm_upd [of _ _ j]) simp_all
  ultimately show ?thesis
    using e by (intro exI [of _ d] exI [of _ "a_set_data j None a1"]) simp
qed

subsection \<open>Lookup\<close>

definition a_ok :: "nat multiset \<Rightarrow> acache \<Rightarrow> bool" where
  "a_ok B a \<longleftrightarrow> a_inv B a \<and> a_tight a"

lemma ok_other [simp]:
  "a_ok B (a\<lparr>a_dprobe := d\<rparr>) = a_ok B a" "a_ok B (a\<lparr>a_hits := h\<rparr>) = a_ok B a" "a_ok B (a\<lparr>a_misses := h\<rparr>) = a_ok B a"
  by (simp_all add: a_ok_def a_inv_def a_core_def a_tight_def a_main_def a_cached_def a_ghosts_def a_ordered_def a_live_def spare_def)

lemma launch_ok:
  assumes "a_core B a'" and "spare a' = []" and "length (a_live a') = a_cap a'"
  shows "a_ok B a'"
  using assms a_ordered_noneI [of a'] by (simp add: a_ok_def a_inv_def a_tight_def spare_Nil_iff [THEN iffD1])

lemma ghost_launch:
  assumes "a_core (B - {#d#}) a" and "d \<in># B" and "spare a = []" and "Suc (length (a_live a)) = a_cap a"
    and "i \<in> set (a_ghosts a)"
    and "a' = a_launch i (\<lambda>k. k\<lparr>k_data := Some d, k_state := Cs_precious\<rparr>) (a\<lparr>a_gprec := gp, a_gprobe := gb\<rparr>)"
    and "i \<in> set (a_gprec a) \<and> gp = remove1 i (a_gprec a) \<and> gb = a_gprobe a
      \<or> i \<in> set (a_gprobe a) \<and> gp = a_gprec a \<and> gb = remove1 i (a_gprobe a)"
  shows "a_ok B a'" and "calm a a'" and "k_key (a_cont a' i) = k_key (a_cont a i)" and "i \<in> set (a_infl a')"
proof -
  have d: "distinct (a_main a @ a_infl a)"
    and s: "inv_sets (B - {#d#}) (2 * a_cap a) (a_cached a) (set (a_infl a)) (set (a_ghosts a)) (set (a_unused a)) (a_cont a)"
    using assms(1) by (auto simp: a_core_def)
  have l: "a_cached a' = a_cached a" "a_infl a' = a_infl a @ [i]" "a_unused a' = a_unused a" "a_cap a' = a_cap a"
      "a_cont a' = (a_cont a)(i := (a_cont a i)\<lparr>k_data := Some d, k_state := Cs_precious\<rparr>)"
      "a_gprec a' = gp" "a_gprobe a' = gb" "a_live a' = a_live a @ [i]"
    by (simp_all add: assms(6) a_launch_def a_upd_def a_cached_def a_live_def)
  have mem: "i \<notin> a_cached a" "i \<notin> set (a_infl a)" "i \<notin> set (a_unused a)"
    using s assms(5) parts_mem(3) unfolding inv_sets_def by blast+
  have g: "set (a_ghosts a) = insert i (set gp \<union> set gb)" "i \<notin> set gp \<union> set gb"
    using d assms(7) by (auto simp: a_ghosts_def a_main_def)
  have "inv_sets ((B - {#d#}) + opt_mset (Some d)) (2 * a_cap a) (a_cached a) (insert i (set (a_infl a)))
      (set gp \<union> set gb) (set (a_unused a)) (a_cont a')"
    unfolding l by (rule inv_launch_ghost [OF s [unfolded g(1)] g(2)]) simp
  moreover have "distinct (a_main a' @ a_infl a')"
  proof -
    have "mset (a_main a' @ a_infl a') = mset (a_main a @ a_infl a)"
      using assms(7) by (auto simp: a_main_def assms(6) a_launch_def a_upd_def mset_remove1)
    then show ?thesis
      using d mset_eq_imp_distinct_iff by blast
  qed
  ultimately have core: "a_core B a'"
    using assms(2) by (simp add: a_core_def l a_ghosts_def)
  moreover have "spare a' = []"
    using assms(3) mem by (auto simp: spare_Nil_iff l)
  ultimately show "a_ok B a'"
    using assms(4) by (intro launch_ok) (simp_all add: l)
  have "k_ref (a_cont a i) = 0"
    using a_core_modes(3) [OF assms(1,5)] by simp
  then show "calm a a'"
    by (rule calm_upd [OF l(5)])
  show "k_key (a_cont a' i) = k_key (a_cont a i)" "i \<in> set (a_infl a')"
    by (simp_all add: l)
qed

lemma a_core_length:
  assumes "a_core B a"
  shows "length (a_main a @ a_infl a) = 2 * a_cap a"
proof -
  have d: "distinct (a_main a @ a_infl a)"
    and s: "parts {..<2 * a_cap a} (a_cached a) (set (a_infl a)) (set (a_ghosts a)) (set (a_unused a))"
    using assms by (auto simp: a_core_def inv_sets_def)
  have "i \<in> set (a_main a @ a_infl a) \<longleftrightarrow> i \<in> {..<2 * a_cap a}" for i
    using s [unfolded parts_def, THEN spec, of i] by (auto simp: a_main_def a_cached_def a_ghosts_def)
  then have "set (a_main a @ a_infl a) = {..<2 * a_cap a}"
    by (rule set_eqI)
  then show ?thesis
    using distinct_card [OF d] by simp
qed

lemma a_free_slot_ok:
  assumes "a_core B a" and "a_ordered a" and "length (a_live a) \<le> a_cap a" and "0 < a_cap a" and "a1 = a_free_slot a"
  shows "a_core B a1" and "a_ordered a1" and "a_unused a1 \<noteq> []" and "spare a1 = spare a"
    and "a_live a1 = a_live a" and "a_cap a1 = a_cap a" and "a_cont a1 = a_cont a" and "a_infl a1 = a_infl a"
    and "a_prec a1 = a_prec a" and "a_probe a1 = a_probe a" and "set (a_ghosts a1) \<subseteq> set (a_ghosts a)"
proof -
  have l: "length (a_main a @ a_infl a) = 2 * a_cap a"
    using assms(1) by (rule a_core_length)
  have "a_core B a1 \<and> a_ordered a1 \<and> a_unused a1 \<noteq> [] \<and> spare a1 = spare a \<and> set (a_ghosts a1) \<subseteq> set (a_ghosts a)"
  proof (cases "a_unused a = []")
    case True
    have d: "distinct (a_main a @ a_infl a)"
      and s: "inv_sets B (2 * a_cap a) (a_cached a) (set (a_infl a)) (set (a_ghosts a)) {} (a_cont a)"
      using assms(1) True by (auto simp: a_core_def)
    have "\<exists>i gp gb. a1 = a\<lparr>a_gprec := gp, a_gprobe := gb, a_unused := [i]\<rparr> \<and> set (a_ghosts a) = insert i (set (gp @ gb))
        \<and> i \<notin> set (gp @ gb) \<and> distinct (a_main a1 @ a_infl a1)"
    proof (cases "a_gprobe a = []")
      case False
      then obtain i gb where "a_gprobe a = i # gb"
        by (cases "a_gprobe a") auto
      then show ?thesis
        using True d by (intro exI [of _ i] exI [of _ "a_gprec a"] exI [of _ gb])
          (auto simp: assms(5) a_free_slot_def a_ghosts_def a_main_def)
    next
      case gb: True
      have "a_gprec a \<noteq> []"
        using l assms(3,4) gb True by (auto simp: a_main_def a_live_def)
      then obtain i gp where "a_gprec a = gp @ [i]"
        by (cases "a_gprec a" rule: rev_cases) auto
      then show ?thesis
        using True d gb by (intro exI [of _ i] exI [of _ gp] exI [of _ "a_gprobe a"])
          (auto simp: assms(5) a_free_slot_def a_ghosts_def a_main_def)
    qed
    then obtain i gp gb where a1: "a1 = a\<lparr>a_gprec := gp, a_gprobe := gb, a_unused := [i]\<rparr>"
        "set (a_ghosts a) = insert i (set (gp @ gb))" "i \<notin> set (gp @ gb)" "distinct (a_main a1 @ a_infl a1)"
      by blast
    have "inv_sets B (2 * a_cap a) (a_cached a) (set (a_infl a)) (set (gp @ gb)) {i} (a_cont a)"
      by (rule inv_ghost_unused [OF s [unfolded a1(2)] a1(3)])
    then have "a_core B a1"
      using a1(4) by (simp add: a_core_def a1(1) a_cached_def a_ghosts_def)
    moreover have "dat a i = None"
      using a_core_modes(3) [OF assms(1), of i] a1(2) by simp
    ultimately show ?thesis
      using True a1(1,2) a_ordered_noneI [of a1] by (auto simp: spare_def a_ghosts_def)
  qed (use assms in \<open>simp add: a_free_slot_def\<close>)
  then show "a_core B a1" "a_ordered a1" "a_unused a1 \<noteq> []" "spare a1 = spare a" "set (a_ghosts a1) \<subseteq> set (a_ghosts a)"
    by simp_all
  show "a_live a1 = a_live a" "a_cap a1 = a_cap a" "a_cont a1 = a_cont a" "a_infl a1 = a_infl a"
    "a_prec a1 = a_prec a" "a_probe a1 = a_probe a"
    by (simp_all add: assms(5) a_free_slot_def a_live_def)
qed

lemma unused_launch:
  assumes "a_core B a" and "a_unused a = us @ [i]" and "dat a i \<noteq> None"
    and "\<forall>j\<in>a_cached a \<union> set (a_infl a) \<union> set (a_ghosts a). k_key (a_cont a j) \<noteq> key"
    and "a' = a_launch i (\<lambda>k. k\<lparr>k_key := key, k_state := Cs_probe\<rparr>) (a\<lparr>a_unused := us\<rparr>)"
  shows "a_core B a'" and "calm a a'" and "spare a = spare a' @ [i]" and "a_live a' = a_live a @ [i]"
    and "a_ghosts a' = a_ghosts a" and "a_infl a' = a_infl a @ [i]" and "a_cap a' = a_cap a"
    and "k_key (a_cont a' i) = key"
proof -
  have d: "distinct (a_main a @ a_infl a)"
    and s: "inv_sets B (2 * a_cap a) (a_cached a) (set (a_infl a)) (set (a_ghosts a)) (insert i (set us)) (a_cont a)"
    using assms(1,2) by (auto simp: a_core_def)
  have i: "i \<notin> set us" "i \<notin> set (a_infl a)" "i \<notin> a_cached a" "i \<notin> set (a_ghosts a)"
    using d assms(2) by (auto simp: a_main_def a_cached_def a_ghosts_def)
  have l: "a_cached a' = a_cached a" "a_infl a' = a_infl a @ [i]" "a_unused a' = us" "a_cap a' = a_cap a"
      "a_cont a' = (a_cont a)(i := (a_cont a i)\<lparr>k_key := key, k_state := Cs_probe\<rparr>)"
      "a_ghosts a' = a_ghosts a" "a_live a' = a_live a @ [i]"
    by (simp_all add: assms(5) a_launch_def a_upd_def a_cached_def a_live_def a_ghosts_def)
  have "inv_sets B (2 * a_cap a) (a_cached a) (insert i (set (a_infl a))) (set (a_ghosts a)) (set us) (a_cont a')"
    unfolding l by (rule inv_launch_unused [OF s i(1) assms(3,4)])
  moreover have "distinct (a_main a' @ a_infl a')"
    using d i by (auto simp: a_main_def assms(2,5) a_launch_def a_upd_def a_cached_def a_ghosts_def)
  ultimately show "a_core B a'"
    by (simp add: a_core_def l)
  show "calm a a'"
    using a_core_modes(4) [OF assms(1), of i] assms(2) by (intro calm_upd [OF l(5)]) simp
  have "filter (\<lambda>j. dat a' j \<noteq> None) us = filter (\<lambda>j. dat a j \<noteq> None) us"
    using i(1) by (intro filter_cong) (auto simp: l)
  then show "spare a = spare a' @ [i]"
    using assms(2,3) by (simp add: spare_def l(3))
qed (simp_all add: assms(5) a_launch_def a_upd_def a_live_def a_ghosts_def)

lemma a_ordered_butlast:
  assumes "a_ordered a" and "a_unused a = us @ [i]" and "a_unused a' = us" and "\<forall>j\<in>set us. dat a' j = dat a j"
  shows "a_ordered a'"
proof -
  obtain xs ds where u: "a_unused a = xs @ ds" "\<forall>i\<in>set xs. dat a i = None" "\<forall>i\<in>set ds. dat a i \<noteq> None"
    using assms(1) by (auto simp: a_ordered_def)
  show ?thesis
  proof (cases ds rule: rev_cases)
    case Nil
    then show ?thesis
      using u assms by (intro a_ordered_noneI) auto
  next
    case (snoc ds' x)
    then have "us = xs @ ds'"
      using u(1) assms(2) by simp
    then show ?thesis
      using u assms(3,4) snoc unfolding a_ordered_def by (intro exI [of _ xs] exI [of _ ds']) simp
  qed
qed

lemma a_core_elem:
  assumes "a_core B a" and "i \<in> set (a_main a) \<union> set (a_infl a)" and "dat a i = Some d"
  shows "d \<in># B"
proof -
  have s: "inv_sets B (2 * a_cap a) (a_cached a) (set (a_infl a)) (set (a_ghosts a)) (set (a_unused a)) (a_cont a)"
    using assms(1) by (simp add: a_core_def)
  have "i \<in> a_cached a \<union> set (a_infl a) \<union> set (a_ghosts a) \<union> set (a_unused a)"
    using assms(2) by (auto simp: a_main_def a_cached_def a_ghosts_def)
  then show ?thesis
    using bufs_member [OF inv_setsD(2) [OF s] inv_less [OF s], of i] assms(3) by simp
qed

lemma a_core_unused_get:
  assumes "a_core B a" and "i \<in> set (a_unused a)" and "dat a i = None"
  shows "a_core (B + opt_mset d) (a_set_data i d a)"
proof -
  have "inv_sets B (2 * a_cap a) (a_cached a) (set (a_infl a)) (set (a_ghosts a)) (set (a_unused a)) (a_cont a)"
    using assms(1) by (simp add: a_core_def)
  then show ?thesis
    using inv_unused_get [of B _ _ _ _ _ "a_cont a" i d] assms by (simp add: a_core_def)
qed

abbreviation a_fresh :: "u64 \<Rightarrow> acache \<Rightarrow> bool" where
  "a_fresh key a \<equiv> \<forall>j\<in>a_cached a \<union> set (a_infl a) \<union> set (a_ghosts a). k_key (a_cont a j) \<noteq> key"

definition a_got :: "nat multiset \<Rightarrow> u64 \<Rightarrow> acache \<Rightarrow> nat \<Rightarrow> acache \<Rightarrow> bool" where
  "a_got B key a i a' \<longleftrightarrow> a_ok B a' \<and> calm a a' \<and> k_key (a_cont a' i) = key \<and> i \<in> a_cached a' \<union> set (a_infl a')"

lemma missed_with_data:
  assumes "a_ok B a" and "a_core B a1" and "a_ordered a1" and "a_unused a1 = us @ [i]" and "spare a1 = spare a"
    and "a_live a1 = a_live a" and "a_cap a1 = a_cap a" and "a_cont a1 = a_cont a" and "a_infl a1 = a_infl a"
    and "set (a_ghosts a1) \<subseteq> set (a_ghosts a)" and "a_fresh key a1" and "dat a1 i \<noteq> None"
    and "a' = a_launch i (\<lambda>k. k\<lparr>k_key := key, k_state := Cs_probe\<rparr>) (a1\<lparr>a_unused := us\<rparr>)"
  shows "a_got B key a i a'"
proof -
  note u = unused_launch [OF assms(2,4,12,11,13)]
  have t: "length (a_live a) + length (spare a) = a_cap a" "a_ghosts a \<noteq> [] \<Longrightarrow> length (spare a) \<le> 1"
    using assms(1) by (auto simp: a_ok_def a_tight_def)
  have "a_tight a'"
    using t u(3-7) assms(5-7,9,10) by (cases "a_ghosts a = []") (auto simp: a_tight_def)
  moreover have "i \<notin> set us"
    using assms(2,4) by (auto simp: a_core_def a_main_def)
  then have "a_ordered a'"
    using a_ordered_butlast [OF assms(3,4), of a'] by (auto simp: assms(13) a_launch_def a_upd_def)
  moreover have "calm a a'"
    using u(2) assms(8) calm_trans calm_refl by blast
  ultimately show ?thesis
    using u(1,6,8) by (simp add: a_got_def a_ok_def a_inv_def)
qed

lemma missed_without_data:
  assumes "a_ok B a" and "a_core B a1" and "a_unused a1 = us @ [i]" and "spare a1 = []"
    and "a_live a1 = a_live a" and "a_cap a1 = a_cap a" and "a_cont a1 = a_cont a"
    and "a_fresh key a1" and "a_inuse a1 < a_cap a1"
  shows "\<exists>j a2. a_evict 1 a1 = Some (j, a2) \<and> a_unused a2 = us @ [i] \<and>
    a_got B key a i (a_launch i (\<lambda>k. k\<lparr>k_key := key, k_state := Cs_probe\<rparr>)
      ((a_set_data j None (a_set_data i (k_data (a_cont a2 j)) a2))\<lparr>a_unused := us\<rparr>))"
proof -
  have l: "length (a_live a1) = a_cap a1"
    using a_core_size [OF assms(2)] a_inv_room [of B a] assms(1,4,6) by (simp add: a_ok_def)
  obtain j d a2 where e: "a_evict 1 a1 = Some (j, a2)" "dat a1 j = Some d" "k_ref (a_cont a1 j) = 0"
      "a_core (B - {#d#}) (a_set_data j None a2)" "Suc (length (a_live a2)) = a_cap a1"
      "set (a_ghosts a2) = insert j (set (a_ghosts a1))" "j \<in> a_cached a1"
      "a_unused a2 = a_unused a1" "a_infl a2 = a_infl a1" "a_cap a2 = a_cap a1" "a_cont a2 = a_cont a1"
    using a_reclaim_evict [OF assms(2) l assms(9), of 1] by blast
  have ij: "i \<noteq> j"
    using e(7) assms(2,3) by (auto simp: a_core_def a_main_def a_cached_def)
  define a3 where "a3 = a_set_data i (Some d) (a_set_data j None a2)"
  have a3: "a_set_data j None (a_set_data i (k_data (a_cont a2 j)) a2) = a3"
    using ij e(2,11) by (simp add: a3_def a_set_data_def a_upd_def fun_upd_twist)
  have d: "d \<in># B"
    using a_core_elem [OF assms(2) _ e(2)] e(7) by (auto simp: a_cached_def a_main_def)
  have none: "dat a1 x = None" if "x \<in> set (a_unused a1)" for x
    using assms(4) that by (simp add: spare_Nil_iff)
  have "a_core (B - {#d#} + opt_mset (Some d)) a3"
    unfolding a3_def by (rule a_core_unused_get [OF e(4)]) (use ij none assms(3) e(8,11) in simp_all)
  then have core: "a_core B a3"
    using d by simp
  have u: "a_unused a3 = us @ [i]" "dat a3 i \<noteq> None"
    using e(8) assms(3) by (simp_all add: a3_def)
  have "\<forall>x\<in>a_cached a3 \<union> set (a_infl a3) \<union> set (a_ghosts a3). k_key (a_cont a1 x) \<noteq> key"
  proof -
    have "distinct (a_main a1 @ a_infl a1)"
      using assms(2) by (simp add: a_core_def)
    then have "a_cached a3 \<union> set (a_infl a3) \<union> set (a_ghosts a3) \<subseteq> a_cached a1 \<union> set (a_infl a1) \<union> set (a_ghosts a1)"
      using a_evict_lists(3) [OF e(1)] e(6,7,9) by (auto simp: a3_def)
    then show ?thesis
      using assms(8) by blast
  qed
  moreover have "k_key (a_cont a3 x) = k_key (a_cont a1 x)" for x
    by (simp add: a3_def e(11))
  ultimately have fr: "a_fresh key a3"
    by metis
  define a' where "a' = a_launch i (\<lambda>k. k\<lparr>k_key := key, k_state := Cs_probe\<rparr>) (a3\<lparr>a_unused := us\<rparr>)"
  note w = unused_launch [OF core u fr a'_def]
  have ius: "i \<notin> set us"
    using assms(2,3) by (auto simp: a_core_def a_main_def)
  have "spare a' = []"
    unfolding spare_Nil_iff
    using none ius assms(3) by (auto simp: a'_def a_launch_def a_upd_def a3_def e(11))
  then have "a_ok B a'"
    using w(1,4,7) e(5,10) by (intro launch_ok) (simp_all add: a3_def)
  moreover have "calm a1 a3"
    using e(3) a_core_modes(4) [OF assms(2), of i] assms(3) by (auto simp: calm_def a3_def e(11))
  then have "calm a a'"
    using w(2) assms(7) calm_trans calm_refl by metis
  ultimately have "a_got B key a i a'"
    using w(6,8) by (simp add: a_got_def)
  then show ?thesis
    using e(1) by (intro exI [of _ j] exI [of _ a2]) (simp add: a3 a'_def e(8) assms(3))
qed

lemma missed_ok:
  assumes "a_ok B a" and "0 < a_cap a" and "a_inuse a < a_cap a" and "a_fresh key a"
  shows "\<exists>i a'. a_missed key a = Some (i, a') \<and> a_got B key a i a'"
proof -
  have core: "a_core B a" "a_ordered a" "length (a_live a) \<le> a_cap a"
    using assms(1) by (auto simp: a_ok_def a_inv_def a_tight_def)
  define a1 where "a1 = a_free_slot a"
  note f = a_free_slot_ok [OF core assms(2) a1_def]
  obtain us i where u: "a_unused a1 = us @ [i]"
    using f(3) by (cases "a_unused a1" rule: rev_cases) auto
  have fr: "a_fresh key a1"
    using assms(4) f(7-11) unfolding a_cached_def by auto
  have n: "a_inuse a1 < a_cap a1"
    using assms(3) f(6-10) by (simp add: a_inuse_def a_idle_def)
  show ?thesis
  proof (cases "dat a1 i = None")
    case True
    have "spare a1 = []"
      using spare_ordered(2) [OF f(2)] True u by fastforce
    from missed_without_data [OF assms(1) f(1) u this f(5,6,7) fr n] True show ?thesis
      by (auto simp: a_missed_def a1_def [symmetric] u Let_def)
  next
    case False
    have "a_missed key a = Some (i, a_launch i (\<lambda>k. k\<lparr>k_key := key, k_state := Cs_probe\<rparr>) (a1\<lparr>a_unused := us\<rparr>))"
      using False by (auto simp: a_missed_def a1_def [symmetric] u Let_def)
    then show ?thesis
      using missed_with_data [OF assms(1) f(1,2) u f(4,5,6,7,8,11) fr False refl] by blast
  qed
qed

lemma a_inv_dprobe [simp]:
  "a_inv B (a\<lparr>a_dprobe := d\<rparr>) = a_inv B a" "a_tight (a\<lparr>a_dprobe := d\<rparr>) = a_tight a"
  "a_ghosts (a\<lparr>a_dprobe := d\<rparr>) = a_ghosts a" "a_inuse (a\<lparr>a_dprobe := d\<rparr>) = a_inuse a"
  "calm (a\<lparr>a_dprobe := d\<rparr>) a' = calm a a'"
  by (simp_all add: a_inv_def a_core_def a_tight_def a_main_def a_cached_def a_ghosts_def a_ordered_def a_live_def
      spare_def a_inuse_def a_idle_def calm_def)

lemma a_find_NoneD: "a_find key xs a = None \<Longrightarrow> j \<in> set xs \<Longrightarrow> k_key (a_cont a j) \<noteq> key"
  by (auto simp: a_find_def find_None_iff)

lemma reclaim_keys: "a_reclaim a = Some (d, a1) \<Longrightarrow> k_key (a_cont a1 i) = k_key (a_cont a i)"
  by (auto simp: a_reclaim_def bind_Some_iff a_evict_rest(4) split: if_splits)

lemma same_ghosts:
  "a\<lparr>a_gprec := x, a_gprobe := a_gprobe a\<rparr> = a\<lparr>a_gprec := x\<rparr>"
  "a\<lparr>a_gprec := a_gprec a, a_gprobe := x\<rparr> = a\<lparr>a_gprobe := x\<rparr>"
  by (cases a; simp)+

text \<open>The hit of a ghost: the state behind \<open>a_reclaim\<close> and the removal of the ghost.\<close>

lemma ghost_hit:
  assumes "a_ok B a" and "a_inuse a < a_cap a" and "i \<in> set (a_ghosts a)" and "k_key (a_cont a i) = key"
  shows "\<exists>d a1. a_reclaim (a\<lparr>a_dprobe := dp\<rparr>) = Some (d, a1)
    \<and> (i \<in> set (a_gprec a) \<longrightarrow> a_got B key a i
        (a_launch i (\<lambda>k. k\<lparr>k_data := d, k_state := Cs_precious\<rparr>) (a1\<lparr>a_gprec := remove1 i (a_gprec a1)\<rparr>)))
    \<and> (i \<in> set (a_gprobe a) \<longrightarrow> a_got B key a i
        (a_launch i (\<lambda>k. k\<lparr>k_data := d, k_state := Cs_precious\<rparr>) (a1\<lparr>a_gprobe := remove1 i (a_gprobe a1)\<rparr>)))"
proof -
  obtain d a1 where r: "a_reclaim (a\<lparr>a_dprobe := dp\<rparr>) = Some (Some d, a1)" "a_core (B - {#d#}) a1" "d \<in># B" "spare a1 = []"
      "Suc (length (a_live a1)) = a_cap a1" "a_cap a1 = a_cap a"
      "set (a_gprec a) \<subseteq> set (a_gprec a1)" "set (a_gprobe a) \<subseteq> set (a_gprobe a1)" "calm a a1"
  proof -
    have "a_ghosts a \<noteq> []"
      using assms(3) by auto
    then show ?thesis
      using that reclaim_step [of B "a\<lparr>a_dprobe := dp\<rparr>"] assms(1,2) by (auto simp: a_ok_def)
  qed
  have i: "i \<in> set (a_ghosts a1)"
    using assms(3) r(7,8) by (auto simp: a_ghosts_def)
  show ?thesis
  proof (intro exI conjI impI)
    show "a_reclaim (a\<lparr>a_dprobe := dp\<rparr>) = Some (Some d, a1)"
      by (rule r(1))
    have key: "k_key (a_cont a1 i) = key"
      using reclaim_keys [OF r(1)] assms(4) by simp
    {
      assume "i \<in> set (a_gprec a)"
      then have "i \<in> set (a_gprec a1)"
        using r(7) by blast
      then show "a_got B key a i (a_launch i (\<lambda>k. k\<lparr>k_data := Some d, k_state := Cs_precious\<rparr>)
          (a1\<lparr>a_gprec := remove1 i (a_gprec a1)\<rparr>))"
        using ghost_launch [OF r(2-5) i refl, of "remove1 i (a_gprec a1)" "a_gprobe a1"] r(9) key calm_trans
        by (auto simp: a_got_def same_ghosts)
    next
      assume "i \<in> set (a_gprobe a)"
      then have "i \<in> set (a_gprobe a1)"
        using r(8) by blast
      then show "a_got B key a i (a_launch i (\<lambda>k. k\<lparr>k_data := Some d, k_state := Cs_precious\<rparr>)
          (a1\<lparr>a_gprobe := remove1 i (a_gprobe a1)\<rparr>))"
        using ghost_launch [OF r(2-5) i refl, of "a_gprec a1" "remove1 i (a_gprobe a1)"] r(9) key calm_trans
        by (auto simp: a_got_def same_ghosts)
    }
  qed
qed

lemma ghost_ok:
  assumes "a_ok B a" and "0 < a_cap a" and "a_inuse a < a_cap a"
    and "\<forall>j\<in>a_cached a \<union> set (a_infl a). k_key (a_cont a j) \<noteq> key"
  shows "\<exists>i a'. a_ghost key a = Some (i, a') \<and> a_got B key a i a'"
proof (cases "a_find key (a_gprec a) a")
  case (Some i)
  then have i: "i \<in> set (a_gprec a)" "i \<in> set (a_ghosts a)" "k_key (a_cont a i) = key"
    using a_find_SomeD [OF Some] by (auto simp: a_ghosts_def)
  show ?thesis
    using ghost_hit [OF assms(1,3) i(2,3), of "a_dprobe a - a_shift (length (a_gprobe a)) (length (a_gprec a))"] i(1) Some
    by (auto simp: a_ghost_def)
next
  case n1: None
  show ?thesis
  proof (cases "a_find key (rev (a_gprobe a)) a")
    case (Some i)
    then have i: "i \<in> set (a_gprobe a)" "i \<in> set (a_ghosts a)" "k_key (a_cont a i) = key"
      using a_find_SomeD [OF Some] by (auto simp: a_ghosts_def)
    show ?thesis
      using ghost_hit [OF assms(1,3) i(2,3),
          of "min (a_cap a) (a_dprobe a + a_shift (length (a_gprec a)) (length (a_gprobe a)))"] i(1) Some n1
      by (auto simp: a_ghost_def)
  next
    case None
    have "a_fresh key a"
      using assms(4) a_find_NoneD [OF n1] a_find_NoneD [OF None] by (auto simp: a_ghosts_def)
    from missed_ok [OF assms(1-3) this] show ?thesis
      by (simp add: a_ghost_def n1 None)
  qed
qed

end
