(* ===== verification/Page_Cache_Runs.thy ===== *)
theory Page_Cache_Runs
  imports Page_Cache_Facts
begin

section \<open>The page cache in use\<close>

text \<open>
  Sequences of calls of the page cache, and what holds in all of them. The callers release only
  entries that they hold, and discard an entry only while no other one is in flight (or before there
  are any ghosts); then a lookup never fails but for lack of buffers, and it returns an entry with
  the key and with a buffer.
\<close>

subsection \<open>Lookup with reference counts\<close>

lemma a_core_mset:
  assumes "a_core B a" and "mset (a_main a' @ a_infl a') = mset (a_main a @ a_infl a)" and "a_cached a' = a_cached a"
    and "set (a_infl a') = set (a_infl a)" and "set (a_ghosts a') = set (a_ghosts a)"
    and "set (a_unused a') = set (a_unused a)" and "a_cap a' = a_cap a" and "a_cont a' = a_cont a"
  shows "a_core B a'"
  using assms mset_eq_imp_distinct_iff [OF assms(2)] by (simp add: a_core_def)

lemma hit_ok:
  assumes "a_ok B a" and "mset (xs @ ys) = mset (a_prec a @ a_probe a)"
  shows "a_ok B (a\<lparr>a_prec := xs, a_probe := ys\<rparr>)"
proof -
  have "set (xs @ ys) = set (a_prec a @ a_probe a)" "length (xs @ ys) = length (a_prec a @ a_probe a)"
    using assms(2) mset_eq_setD mset_eq_length by blast+
  then show ?thesis
    using assms a_core_mset [of B a "a\<lparr>a_prec := xs, a_probe := ys\<rparr>"]
    by (simp add: a_ok_def a_inv_def a_tight_def a_main_def a_cached_def a_ghosts_def a_ordered_def a_live_def spare_def)
qed

lemma content_ok:
  assumes "a_ok B a" and "i \<in> a_cached a \<union> set (a_infl a)" and "dat a' i = dat a i"
    and "a_core B a'" and "a' = a_upd i f a"
  shows "a_ok B a'"
proof -
  have d: "dat a' j = dat a j" for j
    using assms(3) by (auto simp: assms(5) a_upd_def)
  have l: "a_unused a' = a_unused a" "a_live a' = a_live a" "a_ghosts a' = a_ghosts a" "a_infl a' = a_infl a"
      "a_cap a' = a_cap a"
    by (simp_all add: assms(5) a_upd_def a_live_def a_ghosts_def)
  have "spare a' = spare a"
    by (simp add: spare_def l d)
  then show ?thesis
    using assms(1,4) by (simp add: a_ok_def a_inv_def a_tight_def a_ordered_def l d)
qed

lemma ref_ok:
  assumes "a_ok B a" and "i \<in> a_cached a \<union> set (a_infl a)"
  shows "a_ok B (a_upd i (\<lambda>k. k\<lparr>k_ref := f k\<rparr>) a)"
proof (rule content_ok [OF assms _ _ refl])
  have "inv_sets B (2 * a_cap a) (a_cached a) (set (a_infl a)) (set (a_ghosts a)) (set (a_unused a)) (a_cont a)"
    "distinct (a_main a @ a_infl a)"
    using assms(1) by (auto simp: a_ok_def a_inv_def a_core_def)
  then show "a_core B (a_upd i (\<lambda>k. k\<lparr>k_ref := f k\<rparr>) a)"
    using inv_ref [of B _ _ _ _ _ "a_cont a" i] assms(2)
    by (simp add: a_core_def a_upd_def a_cached_def a_ghosts_def a_main_def)
qed (simp add: a_upd_def)

lemma state_ok:
  assumes "a_ok B a" and "i \<in> set (a_infl a)" and "s \<noteq> Cs_valid"
  shows "a_ok B (a_upd i (\<lambda>k. k\<lparr>k_state := s\<rparr>) a)"
proof (rule content_ok [OF assms(1) _ _ _ refl])
  have "inv_sets B (2 * a_cap a) (a_cached a) (set (a_infl a)) (set (a_ghosts a)) (set (a_unused a)) (a_cont a)"
    "distinct (a_main a @ a_infl a)"
    using assms(1) by (auto simp: a_ok_def a_inv_def a_core_def)
  then show "a_core B (a_upd i (\<lambda>k. k\<lparr>k_state := s\<rparr>) a)"
    using inv_state [of B _ _ _ _ _ "a_cont a" i] assms(2,3)
    by (simp add: a_core_def a_upd_def a_cached_def a_ghosts_def a_main_def)
qed (use assms(2) in \<open>simp_all add: a_upd_def\<close>)

lemma get_noref_ok:
  assumes "a_ok B a" and "0 < a_cap a"
  shows "\<exists>r a'. a_get_noref key a = Some (r, a') \<and>
    (case r of Some i \<Rightarrow> a_got B key a i a'
     | None \<Rightarrow> a' = a \<and> a_cap a \<le> a_inuse a \<and> (\<forall>j\<in>a_cached a \<union> set (a_infl a). k_key (a_cont a j) \<noteq> key))"
proof (cases "a_find key (a_prec a) a")
  case (Some i)
  have i: "i \<in> set (a_prec a)" "k_key (a_cont a i) = key"
    using a_find_SomeD [OF Some] by auto
  have "mset ((i # remove1 i (a_prec a)) @ a_probe a) = mset (a_prec a @ a_probe a)"
    using i(1) by (simp add: mset_remove1)
  from hit_ok [OF assms(1) this] have "a_ok B (a\<lparr>a_prec := i # remove1 i (a_prec a)\<rparr>)"
    by (cases a) simp
  then show ?thesis
    using i by (auto simp: a_get_noref_def Some a_got_def a_cached_def calm_def)
next
  case n1: None
  show ?thesis
  proof (cases "a_find key (rev (a_probe a)) a")
    case (Some i)
    have i: "i \<in> set (a_probe a)" "k_key (a_cont a i) = key"
      using a_find_SomeD [OF Some] by auto
    have "mset ((i # a_prec a) @ remove1 i (a_probe a)) = mset (a_prec a @ a_probe a)"
      using i(1) by (simp add: mset_remove1)
    from hit_ok [OF assms(1) this] have "a_ok B (a\<lparr>a_probe := remove1 i (a_probe a), a_prec := i # a_prec a\<rparr>)"
      by (cases a) simp
    then show ?thesis
      using i n1 by (auto simp: a_get_noref_def Some a_got_def a_cached_def calm_def)
  next
    case n2: None
    have n: "\<forall>j\<in>a_cached a. k_key (a_cont a j) \<noteq> key"
      using a_find_NoneD [OF n1] a_find_NoneD [OF n2] by (auto simp: a_cached_def)
    show ?thesis
    proof (cases "a_find key (a_infl a) a")
      case (Some i)
      have i: "i \<in> set (a_infl a)" "k_key (a_cont a i) = key"
        using a_find_SomeD [OF Some] by auto
      from state_ok [OF assms(1) i(1), of Cs_precious] show ?thesis
        using i n1 n2 by (auto simp: a_get_noref_def a_miss_def Some a_got_def a_cached_def calm_def a_upd_def)
    next
      case None
      then have fr: "\<forall>j\<in>a_cached a \<union> set (a_infl a). k_key (a_cont a j) \<noteq> key"
        using n a_find_NoneD [OF None] by auto
      show ?thesis
      proof (cases "a_cap a \<le> a_inuse a")
        case True
        then show ?thesis
          using n1 n2 None fr by (simp add: a_get_noref_def a_miss_def)
      next
        case False
        then obtain i a' where "a_ghost key a = Some (i, a')" "a_got B key a i a'"
          using ghost_ok [OF assms _ fr] by auto
        then show ?thesis
          using n1 n2 None False by (auto simp: a_get_noref_def a_miss_def a_got_def a_cached_def calm_def)
      qed
    qed
  qed
qed

lemma get_ok:
  assumes "a_ok B a" and "0 < a_cap a"
  shows "\<exists>r a'. a_get key a = Some (r, a') \<and> a_ok B a' \<and>
    (\<forall>j. k_ref (a_cont a j) \<noteq> 0 \<longrightarrow> k_key (a_cont a' j) = k_key (a_cont a j) \<and> dat a' j = dat a j) \<and>
    (case r of Some i \<Rightarrow> i \<in> a_cached a' \<union> set (a_infl a') \<and> k_key (a_cont a' i) = key
     | None \<Rightarrow> a' = a \<and> a_cap a \<le> a_inuse a \<and> (\<forall>j\<in>a_cached a \<union> set (a_infl a). k_key (a_cont a j) \<noteq> key))"
proof -
  obtain r a1 where r: "a_get_noref key a = Some (r, a1)"
      "case r of Some i \<Rightarrow> a_got B key a i a1
       | None \<Rightarrow> a1 = a \<and> a_cap a \<le> a_inuse a \<and> (\<forall>j\<in>a_cached a \<union> set (a_infl a). k_key (a_cont a j) \<noteq> key)"
    using get_noref_ok [OF assms] by blast
  show ?thesis
  proof (cases r)
    case None
    then show ?thesis
      using r assms by (simp add: a_get_def)
  next
    case (Some i)
    then have g: "a_ok B a1" "calm a a1" "k_key (a_cont a1 i) = key" "i \<in> a_cached a1 \<union> set (a_infl a1)"
      using r(2) by (auto simp: a_got_def)
    from ref_ok [OF g(1,4), of "\<lambda>k. uinc (k_ref k)"] g(2-4) r(1) Some show ?thesis
      by (auto simp: a_get_def a_upd_def a_cached_def calm_def)
  qed
qed

lemma put_ok: "a_ok B a \<Longrightarrow> i \<in> a_cached a \<union> set (a_infl a) \<Longrightarrow> a_ok B (a_put i a)"
  unfolding a_put_def by (rule ref_ok)

lemma insert_ok:
  assumes "a_ok B a" and "i \<in> a_cached a \<union> set (a_infl a)"
  shows "a_ok B (a_insert i a)"
proof (cases "k_state (a_cont a i) = Cs_valid")
  case True
  then show ?thesis
    using assms(1) by (simp add: a_insert_def)
next
  case False
  define a' where "a' = a_insert i a"
  have core: "a_core B a"
    using assms(1) by (simp add: a_ok_def a_inv_def)
  have i: "i \<in> set (a_infl a)"
    using a_core_modes(1) [OF core, of i] assms(2) False by auto
  have d: "distinct (a_main a @ a_infl a)"
    and s: "inv_sets B (2 * a_cap a) (a_cached a) (insert i (set (remove1 i (a_infl a)))) (set (a_ghosts a)) (set (a_unused a)) (a_cont a)"
    using core i by (auto simp: a_core_def set_remove1_eq insert_absorb)
  have n: "i \<notin> set (remove1 i (a_infl a))"
    using d by simp
  have l: "a_infl a' = remove1 i (a_infl a)" "a_unused a' = a_unused a" "a_ghosts a' = a_ghosts a" "a_cap a' = a_cap a"
      "a_cached a' = insert i (a_cached a)" "mset (a_main a') = add_mset i (mset (a_main a))"
      "a_cont a' = (a_cont a)(i := (a_cont a i)\<lparr>k_state := Cs_valid\<rparr>)" "mset (a_live a') = mset (a_live a)"
    using False i unfolding a'_def
    by (cases "k_state (a_cont a i)"; simp add: a_insert_def a_upd_def a_ghosts_def a_cached_def a_main_def a_live_def)+
  have "mset (a_main a' @ a_infl a') = mset (a_main a @ a_infl a)"
    using i l(1,6) by simp
  then have d': "distinct (a_main a' @ a_infl a')"
    using d mset_eq_imp_distinct_iff by blast
  have dt: "dat a' j = dat a j" for j
    by (simp add: l)
  have "spare a' = spare a"
    by (simp only: spare_def l(2) dt)
  moreover have "length (a_live a') = length (a_live a)"
    using l(8) mset_eq_length by blast
  moreover have "a_infl a' \<noteq> [] \<Longrightarrow> a_infl a \<noteq> []"
    using l(1) by auto
  ultimately have "a_tight a'"
    using assms(1) by (auto simp: a_ok_def a_tight_def l(3,4) split: if_splits)
  moreover have "a_ordered a'"
    using assms(1) by (simp only: a_ok_def a_inv_def a_ordered_def l(2) dt)
  moreover have "a_core B a'"
    using inv_land [OF s n] d' by (simp add: a_core_def l(1-5,7))
  ultimately show ?thesis
    by (simp add: a_ok_def a_inv_def a'_def)
qed

lemma discard_ok:
  assumes "a_ok B a" and "i \<in> a_cached a \<union> set (a_infl a)" and "k_ref (a_cont a i) \<noteq> 0"
    and "k_ref (a_cont a i) = 1 \<and> i \<in> set (a_infl a) \<longrightarrow> a_infl a = [i] \<or> a_ghosts a = []"
  shows "a_ok B (a_discard i a)"
proof -
  define b where "b = a_put i a"
  have b: "a_ok B b"
    unfolding b_def by (rule put_ok [OF assms(1,2)])
  have lb: "a_infl b = a_infl a" "a_ghosts b = a_ghosts a" "a_cached b = a_cached a" "k_ref (a_cont b i) = udec (k_ref (a_cont a i))"
    by (simp_all add: b_def a_put_def a_upd_def a_ghosts_def a_cached_def)
  show ?thesis
  proof (cases "k_ref (a_cont b i) \<noteq> 0 \<or> k_state (a_cont b i) = Cs_valid")
    case True
    then show ?thesis
      using b by (simp add: a_discard_def b_def [symmetric])
  next
    case False
    have core: "a_core B b"
      using b by (simp add: a_ok_def a_inv_def)
    have i: "i \<in> set (a_infl b)"
      using a_core_modes(1) [OF core, of i] assms(2) False lb by auto
    have "k_ref (a_cont a i) = 1"
      using False assms(3) lb(4) by (simp add: udec_pos)
    then have one: "a_infl b = [i] \<or> a_ghosts b = []"
      using assms(4) i lb by simp
    define a' where "a' = b\<lparr>a_infl := remove1 i (a_infl b), a_unused := a_unused b @ [i]\<rparr>"
    have d: "distinct (a_main b @ a_infl b)"
      and s: "inv_sets B (2 * a_cap b) (a_cached b) (insert i (set (remove1 i (a_infl b)))) (set (a_ghosts b)) (set (a_unused b)) (a_cont b)"
      using core i by (auto simp: a_core_def set_remove1_eq insert_absorb)
    have n: "i \<notin> set (remove1 i (a_infl b))"
      using d by simp
    have data: "dat b i \<noteq> None"
      using a_core_modes(2) [OF core i] by simp
    have l: "a_infl a' = remove1 i (a_infl b)" "a_unused a' = a_unused b @ [i]" "a_ghosts a' = a_ghosts b" "a_cap a' = a_cap b"
        "a_cached a' = a_cached b" "a_cont a' = a_cont b" "length (a_live b) = Suc (length (a_live a'))"
      using i length_pos_if_in_set [OF i]
      by (simp_all add: a'_def a_ghosts_def a_cached_def a_live_def length_remove1)
    have "mset (a_main a' @ a_infl a') = mset (a_main b @ a_infl b)"
      using i by (simp add: a'_def a_main_def)
    then have "distinct (a_main a' @ a_infl a')"
      using d mset_eq_imp_distinct_iff by blast
    then have "a_core B a'"
      using inv_discard [OF s n] False by (simp add: a_core_def l)
    moreover have sp: "spare a' = spare b @ [i]"
      using data by (simp add: spare_def l)
    have "a_tight a'"
      using b one i unfolding a_ok_def a_tight_def l sp
      by (auto simp: l(7) split: if_splits)
    moreover have "a_ordered a'"
    proof -
      obtain us ds where "a_unused b = us @ ds" "\<forall>i\<in>set us. dat b i = None" "\<forall>i\<in>set ds. dat b i \<noteq> None"
        using b by (auto simp: a_ok_def a_inv_def a_ordered_def)
      then show ?thesis
        using data unfolding a_ordered_def l by (intro exI [of _ us] exI [of _ "ds @ [i]"]) simp
    qed
    ultimately have "a_ok B a'"
      by (simp add: a_ok_def a_inv_def)
    then show ?thesis
      using False by (simp add: a_discard_def b_def [symmetric] a'_def)
  qed
qed

subsection \<open>A new cache\<close>

definition a_new :: "pcache \<Rightarrow> acache" where
  "a_new c = \<lparr>a_prec = [], a_gprec = [], a_unused = rev [0..<2 * c_cap c], a_gprobe = [], a_probe = [], a_infl = [],
     a_dprobe = 0, a_cap = c_cap c, a_hits = c_hits c, a_misses = c_misses c, a_cleanup = c_cleanup c,
     a_cleaned = map (\<lambda>(i, e). (i, cont e)) (c_cleaned c), a_cont = conts (c_ce c)\<rparr>"

definition buffers :: "pcache \<Rightarrow> nat multiset" where
  "buffers c = mset (map (\<lambda>i. c_data c + i * c_elemsize c) [0..<c_cap c])"

lemma ring_new:
  assumes "\<And>i. i < n \<Longrightarrow> nx i = (if i > 0 then i - 1 else n - 1)" and "\<And>i. i < n \<Longrightarrow> pr i = (if i < n - 1 then i + 1 else 0)"
  shows "ring nx pr (rev [0..<n])"
proof -
  have l: "m < n \<Longrightarrow> links nx pr (rev [0..<Suc m])" for m
  proof (induction m)
    case (Suc m)
    then show ?case
      using assms(1) [of "Suc m"] assms(2) [of m] by simp
  qed simp
  show ?thesis
  proof (cases n)
    case (Suc m)
    have "links nx pr ((rev [0..<m+1]) @ [m])"
    proof (cases m)
      case 0
      then show ?thesis
        using assms(1) [of 0] assms(2) [of 0] Suc by simp
    next
      case (Suc k)
      have e: "rev [0..<Suc m] = rev [1..<Suc m] @ [0]"
        by (simp add: upt_conv_Cons del: upt_Suc)
      then have "rev [0..<m + 1] @ [m] = rev [1..<m + 1] @ 0 # [m]"
        by (simp del: upt_Suc)
      moreover have "links nx pr (rev [1..<m + 1] @ [0])"
        using l [of m] \<open>n = Suc m\<close> e by (simp del: upt_Suc)
      moreover have "links nx pr [0, m]"
        using assms(1) [of 0] assms(2) [of m] \<open>n = Suc m\<close> by simp
      ultimately show ?thesis
        using links_append [of nx pr "rev [1..<m + 1]" 0 "[m]"] by simp
    qed
    then show ?thesis
      by (simp add: ring_def Suc)
  qed simp
qed

lemma same_cleaned: "\<exists>l. (c :: pcache) = c\<lparr>c_cleaned := l\<rparr>"
  by (rule exI [of _ "c_cleaned c"]) simp

lemma cleanup_entries_only: "\<exists>l. cleanup_entries c = c\<lparr>c_cleaned := l\<rparr>"
proof -
  have w: "\<exists>l. cleanup_walk nx n i c = c\<lparr>c_cleaned := l\<rparr>" for nx n i c
  proof (induction n arbitrary: i c)
    case (Suc n)
    have "\<exists>l. call_cleanup i c = c\<lparr>c_cleaned := l\<rparr>"
      using same_cleaned by (cases "c_cleanup c") (auto simp: call_cleanup_def)
    then show ?case
      using Suc [of "nx (ent c i)" "call_cleanup i c"] by auto
  qed (use same_cleaned in simp)
  obtain l where l: "cleanup_walk e_next (c_nprec c) (e_next (ent c (c_split c))) c = c\<lparr>c_cleaned := l\<rparr>"
    using w by blast
  show ?thesis
    using w [of e_prev "c_nprobe c" "c_split c" "c\<lparr>c_cleaned := l\<rparr>"] l
      same_cleaned by (auto simp: cleanup_entries_def Let_def)
qed

lemma flush_fields:
  assumes "4 * c_cap c < UINT_SIZE" and "c' = cache_flush c"
  shows "c_cap c' = c_cap c" and "c_data c' = c_data c" and "c_elemsize c' = c_elemsize c"
    and "length (c_ce c') = 2 * c_cap c"
    and "i < 2 * c_cap c \<Longrightarrow> e_next (c_ce c' ! i) = (if i > 0 then i - 1 else 2 * c_cap c - 1)"
    and "i < 2 * c_cap c \<Longrightarrow> e_prev (c_ce c' ! i) = (if i < 2 * c_cap c - 1 then i + 1 else 0)"
    and "i < 2 * c_cap c \<Longrightarrow> e_refcnt (c_ce c' ! i) = 0"
    and "i < 2 * c_cap c \<Longrightarrow> e_data (c_ce c' ! i) = (if i < c_cap c then Some (c_data c + i * c_elemsize c) else None)"
    and "c_split c' = 0 \<and> c_nprec c' = 0 \<and> c_ngprec c' = 0 \<and> c_nprobe c' = 0 \<and> c_ngprobe c' = 0 \<and> c_dprobe c' = 0
      \<and> c_ninflight c' = 0"
proof -
  have n: "(2 * c_cap c) mod UINT_SIZE = 2 * c_cap c"
    using assms(1) by simp
  obtain l where "cleanup_entries c = c\<lparr>c_cleaned := l\<rparr>"
    using cleanup_entries_only by blast
  then show "c_cap c' = c_cap c" "c_data c' = c_data c" "c_elemsize c' = c_elemsize c" "length (c_ce c') = 2 * c_cap c"
    "i < 2 * c_cap c \<Longrightarrow> e_next (c_ce c' ! i) = (if i > 0 then i - 1 else 2 * c_cap c - 1)"
    "i < 2 * c_cap c \<Longrightarrow> e_prev (c_ce c' ! i) = (if i < 2 * c_cap c - 1 then i + 1 else 0)"
    "i < 2 * c_cap c \<Longrightarrow> e_refcnt (c_ce c' ! i) = 0"
    "i < 2 * c_cap c \<Longrightarrow> e_data (c_ce c' ! i) = (if i < c_cap c then Some (c_data c + i * c_elemsize c) else None)"
    "c_split c' = 0 \<and> c_nprec c' = 0 \<and> c_ngprec c' = 0 \<and> c_nprobe c' = 0 \<and> c_ngprobe c' = 0 \<and> c_dprobe c' = 0
      \<and> c_ninflight c' = 0"
    unfolding assms(2) cache_flush_def Let_def using n by (simp_all add: flush_entry_def)
qed

lemma flush_rep:
  assumes "0 < c_cap c" and "4 * c_cap c < UINT_SIZE" and "c' = cache_flush c"
  shows "rep c' (a_new c')"
proof -
  note f = flush_fields [OF assms(2,3)]
  have "ring (\<lambda>i. e_next (c_ce c' ! i)) (\<lambda>i. e_prev (c_ce c' ! i)) (rev [0..<2 * c_cap c])"
    by (rule ring_new) (simp_all add: f(5,6))
  then have "cring (c_ce c') (rev [0..<2 * c_cap c])"
    using f(4) by (auto simp: cring_def)
  moreover have "last (rev [0..<2 * c_cap c]) = 0"
    using assms(1) by (simp add: last_rev)
  ultimately show ?thesis
    using assms(1,2) f(1,4,9) by (simp add: rep_def rep_core_def a_main_def a_new_def cring_def)
qed

lemma sum_opt_mset: "(\<Sum>i<n + m. opt_mset (if i < n then Some (f i) else None)) = mset (map f [0..<n])"
proof -
  have "(\<Sum>i<n + m. opt_mset (if i < n then Some (f i) else None)) = (\<Sum>i<n. opt_mset (Some (f i)))"
    by (rule sum.mono_neutral_cong_right) auto
  also have "\<dots> = mset (map f [0..<n])"
    by (induction n) auto
  finally show ?thesis .
qed

lemma flush_ok:
  assumes "0 < c_cap c" and "4 * c_cap c < UINT_SIZE" and "c' = cache_flush c"
  shows "a_ok (buffers c') (a_new c')"
proof -
  note f = flush_fields [OF assms(2,3)]
  define n where "n = c_cap c"
  have d: "dat (a_new c') i = (if i < n then Some (c_data c + i * c_elemsize c) else None)" if "i < 2 * n" for i
    using f(8) [of i] that by (simp add: a_new_def conts_key n_def)
  have "(\<Sum>i<2 * n. opt_mset (dat (a_new c') i)) = (\<Sum>i<n + n. opt_mset (if i < n then Some (c_data c + i * c_elemsize c) else None))"
    by (rule sum.cong) (auto simp: d mult_2)
  then have "bufs (buffers c') (2 * n) (a_cont (a_new c'))"
    by (simp add: bufs_def sum_opt_mset buffers_def f(1-3) n_def)
  moreover have "modes {} {} {} {..<2 * n} (a_cont (a_new c'))"
    using f(7) by (simp add: modes_def a_new_def conts_key n_def)
  ultimately have core: "a_core (buffers c') (a_new c')"
    using f(1) by (simp add: a_core_def inv_sets_def parts_def keys_def a_main_def a_new_def a_cached_def a_ghosts_def n_def
        lessThan_atLeast0)
  have u: "a_unused (a_new c') = rev [n..<2 * n] @ rev [0..<n]"
    using upt_add_eq_append [of 0 n n] by (simp add: a_new_def f(1) n_def mult_2)
  have dn: "\<forall>i\<in>set (rev [n..<2 * n]). dat (a_new c') i = None" "\<forall>i\<in>set (rev [0..<n]). dat (a_new c') i \<noteq> None"
    using d by auto
  have "spare (a_new c') = rev [0..<n]"
    by (rule spare_split [OF u dn])
  then have "a_tight (a_new c')"
    by (simp add: a_tight_def a_live_def a_ghosts_def) (simp add: a_new_def f(1) n_def)
  moreover have "a_ordered (a_new c')"
    unfolding a_ordered_def using u dn by blast
  ultimately show ?thesis
    using core by (simp add: a_ok_def a_inv_def)
qed

subsection \<open>The memory of the cache\<close>

text \<open>No operation but the allocation changes where the buffers are.\<close>

definition geom :: "pcache \<Rightarrow> nat \<times> nat" where
  "geom c = (c_data c, c_elemsize c)"

lemma geom_upd [simp]: "geom (upd i f c) = geom c"
  by (simp add: geom_def upd_def)

lemma geom_fields [simp]:
  "geom (c\<lparr>c_split := x\<rparr>) = geom c" "geom (c\<lparr>c_nprec := x\<rparr>) = geom c" "geom (c\<lparr>c_ngprec := x\<rparr>) = geom c"
  "geom (c\<lparr>c_nprobe := x\<rparr>) = geom c" "geom (c\<lparr>c_ngprobe := x\<rparr>) = geom c" "geom (c\<lparr>c_dprobe := x\<rparr>) = geom c"
  "geom (c\<lparr>c_inflight := x\<rparr>) = geom c" "geom (c\<lparr>c_ninflight := x\<rparr>) = geom c" "geom (c\<lparr>c_hits := h\<rparr>) = geom c"
  "geom (c\<lparr>c_misses := h\<rparr>) = geom c" "geom (c\<lparr>c_cleaned := l\<rparr>) = geom c" "geom (c\<lparr>c_cleanup := b\<rparr>) = geom c"
  by (simp_all add: geom_def)

lemma geom_lists [simp]:
  "geom (add_entry_after i j c) = geom c" "geom (add_entry_before i j c) = geom c" "geom (remove_entry i c) = geom c"
  "geom (add_inflight i c) = geom c" "geom (reuse_cached_entry i c) = geom c" "geom (call_cleanup i c) = geom c"
  "geom (drop_ref i c) = geom c"
  by (simp_all add: add_entry_after_def add_entry_before_def remove_entry_def add_inflight_def reuse_cached_entry_def
      call_cleanup_def drop_ref_def Let_def)

lemma geom_ghost [simp]: "geom (reuse_ghost_entry i c) = geom c"
  by (simp add: reuse_ghost_entry_def Let_def)

lemma geom_evict:
  assumes "evict_entry cs bias c = Some (j, c')"
  shows "geom c' = geom c"
  using assms by (auto simp: evict_entry_def evict_probe_def evict_prec_def Let_def bind_Some_iff split: if_splits)

lemma geom_reclaim:
  assumes "reclaim_data cs c = Some (d, c')"
  shows "geom c' = geom c"
  using assms geom_evict by (auto simp: reclaim_data_def bind_Some_iff split: if_splits)

lemma geom_missed:
  assumes "get_missed_entry key cs c = Some (i, c')"
  shows "geom c' = geom c"
proof -
  define f where "f = (if e_next (ent c (cs_eprobe cs)) = cs_eprec cs
       then if c_ngprobe c \<noteq> 0 then (e_next (ent c (cs_eprobe cs)), c\<lparr>c_ngprobe := udec (c_ngprobe c)\<rparr>)
            else if c_ngprec c \<noteq> 0 then (cs_eprobe cs, c\<lparr>c_ngprec := udec (c_ngprec c)\<rparr>) else (cs_eprobe cs, c)
       else (cs_eprobe cs, c))"
  obtain j c1 where c1: "f = (j, c1)" "geom c1 = geom c"
    by (cases f) (auto simp: f_def split: if_splits)
  show ?thesis
    using assms c1 geom_evict
    by (auto simp: get_missed_entry_def Let_def f_def [symmetric] bind_Some_iff split: if_splits)
qed

lemma geom_ghost_or_missed:
  assumes "get_ghost_or_missed_entry key cs c = Some (i, c')"
  shows "geom c' = geom c"
  using assms geom_reclaim geom_missed
  by (fastforce simp: get_ghost_or_missed_entry_def Let_def bind_Some_iff split: sum.splits)

lemma geom_get:
  assumes "cache_get_entry key c = Some (r, c')"
  shows "geom c' = geom c"
proof -
  obtain c1 where c1: "cache_get_entry_noref key c = Some (r, c1)" "geom c' = geom c1"
    using assms by (auto simp: cache_get_entry_def bind_Some_iff split: option.splits)
  have "geom c1 = geom c"
    using c1(1) geom_ghost_or_missed
    by (auto simp: cache_get_entry_noref_def search_miss_def get_inflight_entry_def bind_Some_iff
        split: if_splits sum.splits option.splits)
  then show ?thesis
    using c1(2) by simp
qed

lemma geom_insert: "geom (cache_insert i c) = geom c"
  by (simp add: cache_insert_def Let_def split: cache_state.split)

lemma geom_put: "geom (cache_put_entry i c) = geom c"
  by (simp add: cache_put_entry_def)

lemma geom_discard: "geom (cache_discard i c) = geom c"
  by (simp add: cache_discard_def Let_def)

subsection \<open>Runs\<close>

definition may_discard :: "nat \<Rightarrow> pcache \<Rightarrow> bool" where
  "may_discard i c \<longleftrightarrow>
     (e_refcnt (ent c i) = 1 \<and> \<not> cache_entry_valid (ent c i) \<longrightarrow> c_ninflight c = 1 \<or> c_ngprec c + c_ngprobe c = 0)"

definition held :: "nat \<Rightarrow> pcache \<Rightarrow> bool" where
  "held i c \<longleftrightarrow> i < 2 * c_cap c \<and> 0 < e_refcnt (ent c i)"

inductive cache_run :: "pcache \<Rightarrow> bool" where
  alloc: "cache_alloc mem self buf n size' = Some c \<Longrightarrow> 0 < n \<Longrightarrow> 4 * n < UINT_SIZE \<Longrightarrow> cache_run c"
| get: "cache_run c \<Longrightarrow> cache_get_entry key c = Some (r, c') \<Longrightarrow> cache_run c'"
| insert: "cache_run c \<Longrightarrow> held i c \<Longrightarrow> cache_run (cache_insert i c)"
| put: "cache_run c \<Longrightarrow> held i c \<Longrightarrow> cache_run (cache_put_entry i c)"
| discard: "cache_run c \<Longrightarrow> held i c \<Longrightarrow> may_discard i c \<Longrightarrow> cache_run (cache_discard i c)"
| cleanup: "cache_run c \<Longrightarrow> cache_run (set_cache_entry_cleanup fn c)"
| flush: "cache_run c \<Longrightarrow> cache_run (cache_flush c)"

text \<open>\<open>fit\<close>: the cache represents the lists \<open>a\<close> and shares out the data \<open>B\<close>; in \<open>sound\<close> these are its own buffers.\<close>

definition fit :: "nat multiset \<Rightarrow> pcache \<Rightarrow> acache \<Rightarrow> bool" where
  "fit B c a \<longleftrightarrow> rep c a \<and> a_ok B a"

definition sound :: "pcache \<Rightarrow> acache \<Rightarrow> bool" where
  "sound c a \<longleftrightarrow> rep c a \<and> a_ok (buffers c) a"

lemma sound_fit: "sound c a \<longleftrightarrow> fit (buffers c) c a"
  by (simp add: sound_def fit_def)

lemma rep_facts:
  assumes "rep c a"
  shows "conts (c_ce c) = a_cont a" and "c_cap c = a_cap a" and "length (c_ce c) = 2 * a_cap a" and "0 < a_cap a"
    and "4 * a_cap a < UINT_SIZE" and "a_main a \<noteq> [] \<or> a_infl a \<noteq> []" and "c_ninflight c = length (a_infl a)"
    and "c_ngprec c + c_ngprobe c = length (a_ghosts a)"
  using assms by (auto simp: rep_def rep_core_def a_ghosts_def)

lemma fit_main:
  assumes "fit B c a"
  shows "a_main a \<noteq> []"
proof -
  have core: "a_core B a" and t: "a_tight a" and r: "rep c a"
    using assms by (auto simp: fit_def a_ok_def a_inv_def)
  have "length (a_infl a) \<le> a_cap a"
    using t by (simp add: a_tight_def a_live_def)
  then have "0 < length (a_main a)"
    using a_core_length [OF core] rep_facts(4) [OF r] unfolding length_append by linarith
  then show ?thesis
    by simp
qed

lemma fit_member:
  assumes "fit B c a" and "i \<in> a_cached a \<union> set (a_infl a)"
  shows "i \<in> set (a_infl a) \<or> k_state (a_cont a i) = Cs_valid" and "i \<in> set (a_main a) \<union> set (a_infl a)"
    and "i \<in> set (a_infl a) \<longleftrightarrow> \<not> cache_entry_valid (ent c i)"
proof -
  have core: "a_core B a" and r: "rep c a"
    using assms by (auto simp: fit_def a_ok_def a_inv_def)
  show "i \<in> set (a_infl a) \<or> k_state (a_cont a i) = Cs_valid"
    using assms(2) a_core_modes(1) [OF core, of i] by auto
  show "i \<in> set (a_infl a) \<longleftrightarrow> \<not> cache_entry_valid (ent c i)"
    using assms(2) a_core_modes(1,2) [OF core, of i] conts_key(3) [of "c_ce c" i] by (auto simp: cache_entry_valid_def rep_facts(1) [OF r])
  show "i \<in> set (a_main a) \<union> set (a_infl a)"
    using assms(2) by (auto simp: a_cached_def a_main_def)
qed

lemma fit_held:
  assumes "fit B c a" and "held i c"
  shows "i \<in> a_cached a \<union> set (a_infl a)" and "k_ref (a_cont a i) = e_refcnt (ent c i)" and "k_ref (a_cont a i) \<noteq> 0"
proof -
  have r: "rep c a" and core: "a_core B a"
    using assms(1) by (auto simp: fit_def a_ok_def a_inv_def)
  note f = rep_facts [OF r]
  show ref: "k_ref (a_cont a i) = e_refcnt (ent c i)"
    using conts_key(2) [of "c_ce c" i] by (simp add: f(1))
  then show nz: "k_ref (a_cont a i) \<noteq> 0"
    using assms(2) by (simp add: held_def)
  have "parts {..<2 * a_cap a} (a_cached a) (set (a_infl a)) (set (a_ghosts a)) (set (a_unused a))"
    using core by (simp add: a_core_def inv_sets_def)
  moreover have "i < 2 * a_cap a"
    using assms(2) f(2) by (simp add: held_def)
  ultimately show m: "i \<in> a_cached a \<union> set (a_infl a)"
    using a_core_modes(3,4) [OF core, of i] nz by (auto simp: parts_def)
qed

lemma fit_get:
  assumes "fit B c a"
  obtains r c' a' where "cache_get_entry key c = Some (r, c')" and "a_get key a = Some (r, a')" and "fit B c' a'"
proof -
  have r: "rep c a" and ok: "a_ok B a"
    using assms by (auto simp: fit_def)
  obtain i a' where a': "a_get key a = Some (i, a')" "a_ok B a'"
    using get_ok [OF ok rep_facts(4) [OF r]] by blast
  have "a_room a"
    using ok by (simp add: a_ok_def a_tight_room)
  from rep_get [OF r this a'(1)] obtain c' where c': "cache_get_entry key c = Some (i, c')" "rep c' a'"
    by blast
  from that [OF c'(1) a'(1)] c'(2) a'(2) show thesis
    by (simp add: fit_def)
qed

lemma fit_insert: "fit B c a \<Longrightarrow> i \<in> a_cached a \<union> set (a_infl a) \<Longrightarrow> fit B (cache_insert i c) (a_insert i a)"
  using fit_main fit_member(1) insert_ok rep_insert unfolding fit_def by blast

lemma fit_put: "fit B c a \<Longrightarrow> i \<in> a_cached a \<union> set (a_infl a) \<Longrightarrow> fit B (cache_put_entry i c) (a_put i a)"
  using fit_member(2) [of B c a i] put_ok [of B a i] rep_put [of c a i] unfolding fit_def by blast

lemma fit_discard:
  assumes "fit B c a" and "held i c" and "may_discard i c"
  shows "fit B (cache_discard i c) (a_discard i a)"
proof -
  have a: "rep c a" "a_ok B a"
    using assms(1) by (auto simp: fit_def)
  note h = fit_held [OF assms(1,2)]
  note m = fit_member [OF assms(1) h(1)]
  have "k_ref (a_cont a i) = 1 \<and> i \<in> set (a_infl a) \<longrightarrow> a_infl a = [i] \<or> a_ghosts a = []"
    using assms(3) h(2) m(3) rep_facts(7,8) [OF a(1)] by (auto simp: may_discard_def length_Suc_conv)
  from discard_ok [OF a(2) h(1,3) this] rep_discard [OF a(1) fit_main [OF assms(1)] m(2,1)] show ?thesis
    by (simp add: fit_def)
qed

lemma buffers_geom: "geom c' = geom c \<Longrightarrow> c_cap c' = c_cap c \<Longrightarrow> buffers c' = buffers c"
  by (simp add: buffers_def geom_def)

lemma a_cap_ops: "a_cap (a_insert i a) = a_cap a" "a_cap (a_put i a) = a_cap a" "a_cap (a_discard i a) = a_cap a"
  by (simp_all add: a_insert_def a_put_def a_discard_def a_upd_def Let_def split: cache_state.split)

lemma fit_cap:
  assumes "fit B c a" and "fit B c' a'"
  shows "c_cap c' = c_cap c"
  using assms a_inv_room rep_facts(2) by (metis a_ok_def fit_def)

lemma soundI: "fit (buffers c) c a \<Longrightarrow> fit (buffers c) c' a' \<Longrightarrow> geom c' = geom c \<Longrightarrow> sound c' a'"
  using buffers_geom fit_cap unfolding sound_fit by metis

lemma sound_get:
  assumes "sound c a"
  obtains r c' a' where "cache_get_entry key c = Some (r, c')" and "a_get key a = Some (r, a')" and "sound c' a'"
  using fit_get [OF assms [unfolded sound_fit], of key] soundI [OF assms [unfolded sound_fit]] geom_get by metis

lemma cleanup_other [simp]:
  "a_main (a\<lparr>a_cleanup := fn\<rparr>) = a_main a" "a_ok B (a\<lparr>a_cleanup := fn\<rparr>) = a_ok B a"
  by (simp_all add: a_main_def a_ok_def a_inv_def a_core_def a_tight_def a_cached_def a_ghosts_def a_ordered_def
      a_live_def spare_def)

lemma sound_held:
  assumes "sound c a" and "held i c"
  shows "i \<in> a_cached a \<union> set (a_infl a)" and "k_ref (a_cont a i) \<noteq> 0" and "i \<in> set (a_infl a) \<longleftrightarrow> \<not> cache_entry_valid (ent c i)"
  using fit_held [OF assms(1) [unfolded sound_fit] assms(2)] fit_member(3) [OF assms(1) [unfolded sound_fit]] by blast+

lemma sound_insert: "sound c a \<Longrightarrow> held i c \<Longrightarrow> sound (cache_insert i c) (a_insert i a)"
  using soundI [OF _ fit_insert geom_insert] fit_held(1) unfolding sound_fit [of c] by blast

lemma sound_put: "sound c a \<Longrightarrow> held i c \<Longrightarrow> sound (cache_put_entry i c) (a_put i a)"
  using soundI [OF _ fit_put geom_put] fit_held(1) unfolding sound_fit [of c] by blast

lemma sound_discard: "sound c a \<Longrightarrow> held i c \<Longrightarrow> may_discard i c \<Longrightarrow> sound (cache_discard i c) (a_discard i a)"
  using soundI [OF _ fit_discard geom_discard] unfolding sound_fit [of c] by blast

lemma sound_flush:
  assumes "0 < c_cap c" and "4 * c_cap c < UINT_SIZE"
  shows "sound (cache_flush c) (a_new (cache_flush c))"
  using flush_rep [OF assms refl] flush_ok [OF assms refl] by (simp add: sound_def)

lemma set_cleanup_geom: "geom (set_cache_entry_cleanup fn c) = geom c" "c_cap (set_cache_entry_cleanup fn c) = c_cap c"
  by (simp_all add: set_cache_entry_cleanup_def)

lemma sound_cleanup:
  assumes "sound c a"
  shows "sound (set_cache_entry_cleanup fn c) (a\<lparr>a_cleanup := fn\<rparr>)"
proof -
  have "buffers (set_cache_entry_cleanup fn c) = buffers c"
    by (rule buffers_geom) (simp_all add: set_cleanup_geom)
  then show ?thesis
    using assms by (simp add: sound_def) (simp add: set_cache_entry_cleanup_def rep_def rep_core_def)
qed

lemma cache_run_sound: "cache_run c \<Longrightarrow> \<exists>a. sound c a"
proof (induction rule: cache_run.induct)
  case (alloc mem self buf n size' c)
  then obtain c0 where c0: "c = cache_flush c0" "c_cap c0 = n"
    by (auto simp: cache_alloc_def bind_Some_iff split: if_splits)
  then show ?case
    using alloc sound_flush [of c0] by auto
next
  case (get c key r c')
  then obtain a where a: "sound c a"
    by blast
  show ?case
    by (rule sound_get [OF a, of key]) (use get.hyps(2) in auto)
next
  case (flush c)
  then obtain a where r: "rep c a"
    by (auto simp: sound_def)
  have "0 < c_cap c" "4 * c_cap c < UINT_SIZE"
    using rep_facts(2,4,5) [OF r] by simp_all
  then show ?case
    using sound_flush by blast
qed (blast intro: sound_insert sound_put sound_discard sound_cleanup)+

subsection \<open>Properties\<close>

text \<open>
  C4. The page cache refines its specification, an adaptive replacement cache of six lists: whatever
  the links of the two circular lists, the split entry and the counters of the cache have become, a
  lookup returns the entry of the specification, and it, an insertion, the release of a reference, a
  permitted discard and a flush lead to a cache that represents the lists of the specification.
\<close>

theorem cache_refines:
  assumes "sound c a"
  shows "(\<exists>r c' a'. cache_get_entry key c = Some (r, c') \<and> a_get key a = Some (r, a') \<and> sound c' a')
    \<and> (held i c \<longrightarrow> sound (cache_insert i c) (a_insert i a) \<and> sound (cache_put_entry i c) (a_put i a)
        \<and> (may_discard i c \<longrightarrow> sound (cache_discard i c) (a_discard i a)))
    \<and> sound (cache_flush c) (a_new (cache_flush c))"
proof -
  have "rep c a"
    using assms by (simp add: sound_def)
  then have "sound (cache_flush c) (a_new (cache_flush c))"
    using rep_facts(2,4,5) by (intro sound_flush) auto
  moreover have "\<exists>r c' a'. cache_get_entry key c = Some (r, c') \<and> a_get key a = Some (r, a') \<and> sound c' a'"
    by (rule sound_get [OF assms]) blast
  ultimately show ?thesis
    using assms sound_insert sound_put sound_discard by blast
qed








lemma find_unique:
  assumes "i \<in> set xs" and "k_key (a_cont a i) = key" and "\<And>j. j \<in> set xs \<Longrightarrow> k_key (a_cont a j) = key \<Longrightarrow> j = i"
  shows "a_find key xs a = Some i"
proof (cases "a_find key xs a")
  case None
  then show ?thesis
    using a_find_NoneD [OF None assms(1)] assms(2) by simp
next
  case (Some j)
  then show ?thesis
    using a_find_SomeD [OF Some] assms(3) by blast
qed

lemma a_get_cached:
  assumes "a_core B a" and "i \<in> a_cached a"
  shows "\<exists>a'. a_get_noref (k_key (a_cont a i)) a = Some (Some i, a') \<and> a_hits a' = a_hits a + 1
    \<and> a_misses a' = a_misses a \<and> a_cont a' = a_cont a"
proof -
  have u: "j = i" if "j \<in> a_cached a" "k_key (a_cont a j) = k_key (a_cont a i)" for j
    using assms that by (auto simp: a_core_def inv_sets_def keys_def inj_on_def)
  show ?thesis
  proof (cases "i \<in> set (a_prec a)")
    case True
    have "a_find (k_key (a_cont a i)) (a_prec a) a = Some i"
      by (rule find_unique [OF True refl]) (use u in \<open>auto simp: a_cached_def\<close>)
    then show ?thesis
      by (simp add: a_get_noref_def)
  next
    case False
    then have i: "i \<in> set (rev (a_probe a))"
      using assms(2) by (auto simp: a_cached_def)
    have "a_find (k_key (a_cont a i)) (rev (a_probe a)) a = Some i"
      by (rule find_unique [OF i refl]) (use u in \<open>auto simp: a_cached_def\<close>)
    moreover have "a_find (k_key (a_cont a i)) (a_prec a) a = None"
      using a_find_SomeD [of "k_key (a_cont a i)" "a_prec a" a] u False
      by (cases "a_find (k_key (a_cont a i)) (a_prec a) a") (auto simp: a_cached_def)
    ultimately show ?thesis
      by (simp add: a_get_noref_def)
  qed
qed

text \<open>
  C7. What has been inserted is found: a lookup of the key of a valid entry that someone holds gives
  this very entry with one more reference, and it counts as a hit.
\<close>

theorem cache_hit:
  assumes "cache_run c" and "held i c" and "cache_entry_valid (ent c i)"
  shows "\<exists>c'. cache_get_entry (e_key (ent c i)) c = Some (Some i, c') \<and> c_hits c' = c_hits c + 1
    \<and> c_misses c' = c_misses c \<and> e_refcnt (ent c' i) = uinc (e_refcnt (ent c i))"
proof -
  obtain a where a: "sound c a"
    using cache_run_sound [OF assms(1)] by blast
  have r: "rep c a" and core: "a_core (buffers c) a"
    using a by (auto simp: sound_def a_ok_def a_inv_def)
  note k = conts_key [of "c_ce c", unfolded rep_facts(1) [OF r]]
  have i: "i \<in> a_cached a"
    using sound_held(1,3) [OF a assms(2)] assms(3) by auto
  obtain a1 where a1: "a_get_noref (k_key (a_cont a i)) a = Some (Some i, a1)" "a_hits a1 = a_hits a + 1"
      "a_misses a1 = a_misses a" "a_cont a1 = a_cont a"
    using a_get_cached [OF core i] by blast
  obtain r1 c' a' where g: "cache_get_entry (e_key (ent c i)) c = Some (r1, c')"
      "a_get (e_key (ent c i)) a = Some (r1, a')" "sound c' a'"
    using sound_get [OF a] .
  have a': "r1 = Some i" "a' = a_upd i (\<lambda>x. x\<lparr>k_ref := uinc (k_ref x)\<rparr>) a1"
    using g(2) a1(1) by (simp_all add: a_get_def k)
  have r': "rep c' a'"
    using g(3) by (simp add: sound_def)
  note k' = conts_key [of "c_ce c'", unfolded rep_facts(1) [OF r']]
  have "c_hits c' = a_hits a'" "c_misses c' = a_misses a'" "c_hits c = a_hits a" "c_misses c = a_misses a"
    using r r' by (simp_all add: rep_def rep_core_def)
  moreover have "e_refcnt (ent c' i) = uinc (e_refcnt (ent c i))"
    using a1(4) by (simp add: k k' [symmetric] flip: k) (simp add: a' a_upd_def k flip: k')
  ultimately show ?thesis
    using g(1) a' a1 by (simp add: a_upd_def)
qed

subsection \<open>A small cache\<close>

definition cel :: "u64 \<Rightarrow> cache_state \<Rightarrow> nat \<Rightarrow> nat \<Rightarrow> nat \<Rightarrow> nat option \<Rightarrow> centry" where
  "cel k s n p r d = \<lparr>e_key = k, e_state = s, e_next = n, e_prev = p, e_refcnt = r, e_data = d\<rparr>"

definition pc :: "nat \<Rightarrow> nat \<Rightarrow> nat \<Rightarrow> nat \<Rightarrow> nat \<Rightarrow> nat \<Rightarrow> u64 \<Rightarrow> centry list \<Rightarrow> pcache" where
  "pc split nprobe ngprobe dprobe infl ninfl misses es =
     \<lparr>c_split = split, c_nprec = 0, c_ngprec = 0, c_nprobe = nprobe, c_ngprobe = ngprobe, c_dprobe = dprobe, c_cap = 2,
      c_inflight = infl, c_ninflight = ninfl, c_hits = 0, c_misses = misses, c_elemsize = 4096, c_data = 8192,
      c_cleanup = False, c_cleaned = [], c_ce = es\<rparr>"

definition small_cache :: pcache where
  "small_cache = pc 0 0 0 0 0 0 0
     [cel 0 Cs_valid 3 1 0 (Some 8192), cel 0 Cs_valid 0 2 0 (Some 12288),
      cel 0 Cs_valid 1 3 0 None, cel 0 Cs_valid 2 0 0 None]"





text \<open>Evaluation from the outside in.\<close>

lemma bind_weak_cong: "x = y \<Longrightarrow> Option.bind x f = Option.bind y f"
  by simp

lemmas loop_numeral =
  find_cached.simps(2) [of _ "pred_numeral v" for v, folded numeral_eq_Suc]
  find_key.simps(2) [of _ "pred_numeral v" for v, folded numeral_eq_Suc]
  walk_prev.simps(2) [of _ "pred_numeral v" for v, folded numeral_eq_Suc]

lemmas cache_eval = cache_get_entry_def cache_get_entry_noref_def search_miss_def get_inflight_entry_def
  get_ghost_or_missed_entry_def get_missed_entry_def reclaim_data_def evict_entry_def evict_prec_def evict_probe_def
  call_cleanup_def reuse_ghost_entry_def reuse_cached_entry_def add_inflight_def add_entry_after_def add_entry_before_def
  remove_entry_def cache_insert_def cache_put_entry_def cache_discard_def drop_ref_def cache_entry_valid_def
  upd_def ent_def set_data_def uinc_def udec_def uadd_def usub_def Let_def loop_numeral

lemma upt_4: "[0..<4] = [0, 1, 2, 3]"
  by (simp add: upt_conv_Cons eval_nat_numeral)

lemma small_cache_alloc: "cache_alloc (Some (small_cache\<lparr>c_nprec := 7, c_cap := 1\<rparr>)) 0 (Some 8192) 2 4096 = Some small_cache"
  by (simp add: small_cache_def cel_def pc_def cache_alloc_def cache_flush_def cleanup_entries_def Let_def flush_entry_def upt_4)


lemma small_cache_run: "cache_run small_cache"
  by (rule cache_run.alloc [OF small_cache_alloc]) simp_all

lemma small_cache_flush: "small_cache = cache_flush (small_cache\<lparr>c_nprec := 7\<rparr>)"
  by (simp add: small_cache_def cel_def pc_def cache_flush_def cleanup_entries_def Let_def flush_entry_def upt_4)

lemma cache_refines_witness:
  "sound small_cache (a_new small_cache)
    \<and> (\<exists>r c' a'. cache_get_entry 10 small_cache = Some (r, c') \<and> a_get 10 (a_new small_cache) = Some (r, a') \<and> sound c' a')"
proof -
  have s: "sound small_cache (a_new small_cache)"
    using sound_flush [of "small_cache\<lparr>c_nprec := 7\<rparr>"] by (simp flip: small_cache_flush) (simp add: small_cache_def cel_def pc_def)
  show ?thesis
    using s cache_refines [OF s, of 10 0] by blast
qed



definition loaded_cache :: pcache where
  "loaded_cache = cache_insert 0 (snd (the (cache_get_entry 10 small_cache)))"

lemma cache_hit_witness:
  "cache_run loaded_cache \<and> held 0 loaded_cache \<and> cache_entry_valid (ent loaded_cache 0)
    \<and> (\<exists>c'. cache_get_entry 10 loaded_cache = Some (Some 0, c') \<and> e_refcnt (ent c' 0) = 2)"
proof -
  obtain c where c: "cache_get_entry 10 small_cache = Some (Some 0, c)" "c_cap c = 2" "0 < e_refcnt (c_ce c ! 0)"
    by (simp add: small_cache_def cel_def pc_def cache_eval cong: option.case_cong_weak let_weak_cong if_weak_cong bind_weak_cong)
  have r: "cache_run (cache_insert 0 c)"
    by (rule cache_run.insert [OF cache_run.get [OF small_cache_run c(1)]]) (use c in \<open>simp add: held_def ent_def\<close>)
  have l: "loaded_cache = cache_insert 0 c"
    by (simp add: loaded_cache_def c(1))
  have v: "held 0 loaded_cache" "cache_entry_valid (ent loaded_cache 0)" "e_key (ent loaded_cache 0) = 10"
      "uinc (e_refcnt (ent loaded_cache 0)) = 2"
    by (simp_all add: loaded_cache_def small_cache_def cel_def pc_def cache_eval held_def cong: option.case_cong_weak let_weak_cong if_weak_cong bind_weak_cong)
  show ?thesis
    using cache_hit [OF r [folded l] v(1,2)] r v by (auto simp: l)
qed


end
