(* ===== verification/Pfn_Bits.thy ===== *)
theory Pfn_Bits
  imports Kdump_Types
begin

section \<open>Searches in page bitmaps (src/kdumpfile/pfn.c)\<close>

text \<open>
  The four functions that skip clear or set bits of a page bitmap, with either numbering of the bits
  of a byte. A bitmap is a list of bytes and \<open>base\<close> the address of the first one, because the loops
  change from bytes to words of 32 bits at an aligned address.
\<close>

subsection \<open>Counting zeros\<close>

text \<open>The portable versions; with a GNU compiler the built-in functions have the same meaning.\<close>

definition ctz :: "u32 \<Rightarrow> nat" where
  "ctz x =
     (let (x, c) = (x, 1);
        (x, c) = (if x AND 0xffff = 0 then (drop_bit 16 x, c + 16) else (x, c));
        (x, c) = (if x AND 0xff = 0 then (drop_bit 8 x, c + 8) else (x, c));
        (x, c) = (if x AND 0xf = 0 then (drop_bit 4 x, c + 4) else (x, c));
        (x, c) = (if x AND 0x3 = 0 then (drop_bit 2 x, c + 2) else (x, c))
      in c - unat (x AND 0x1))"

definition clz :: "u32 \<Rightarrow> nat" where
  "clz x =
     (let (x, c) = (x, 0);
        (x, c) = (if x AND 0xffff0000 = 0 then (push_bit 16 x, c + 16) else (x, c));
        (x, c) = (if x AND 0xff000000 = 0 then (push_bit 8 x, c + 8) else (x, c));
        (x, c) = (if x AND 0xf0000000 = 0 then (push_bit 4 x, c + 4) else (x, c));
        (x, c) = (if x AND 0xc0000000 = 0 then (push_bit 2 x, c + 2) else (x, c))
      in c + (if x AND 0x80000000 = 0 then 1 else 0))"

text \<open>\<open>first_at P n k\<close>: \<open>k\<close> is the first of \<open>n\<close> indices with \<open>P\<close>.\<close>

definition first_at :: "(nat \<Rightarrow> bool) \<Rightarrow> nat \<Rightarrow> nat \<Rightarrow> bool" where
  "first_at P n k \<longleftrightarrow> k < n \<and> P k \<and> (\<forall>j<k. \<not> P j)"

lemma first_at_shift:
  assumes "first_at (\<lambda>j. P (j + m)) n k" and "\<forall>j<m. \<not> P j"
  shows "first_at P (n + m) (k + m)"
  unfolding first_at_def
proof (intro conjI allI impI)
  fix j
  assume "j < k + m"
  then show "\<not> P j"
    using assms by (cases "j < m") (auto simp: first_at_def dest: spec [of _ "j - m"])
qed (use assms(1) in \<open>auto simp: first_at_def\<close>)

lemma first_at_ex:
  assumes "\<exists>k<n. P k"
  shows "\<exists>k. first_at P n k"
proof -
  obtain i where i: "i < n" "P i"
    using assms by blast
  then obtain k where k: "P k" "\<forall>j<k. \<not> P j"
    using exists_least_iff [of P] by blast
  then have "k \<le> i"
    using i by (meson not_less)
  then show ?thesis
    using i k unfolding first_at_def by (meson le_less_trans)
qed

lemma first_at_le: "first_at P n k \<Longrightarrow> k < m \<Longrightarrow> first_at P m k"
  by (simp add: first_at_def)

lemma low_bits_zero: "x AND mask m = 0 \<longleftrightarrow> (\<forall>j<m. j < LENGTH('a) \<longrightarrow> \<not> bit x j)" for x :: "'a::len word"
  by (auto simp: bit_eq_iff bit_simps)

text \<open>One halving step of \<open>ctz\<close>: \<open>c\<close> bits are known to be clear, the next \<open>2 * m\<close> are not.\<close>

definition ctz_step :: "nat \<Rightarrow> u32 \<times> nat \<Rightarrow> u32 \<times> nat" where
  "ctz_step m = (\<lambda>(x, c). if x AND mask m = 0 then (drop_bit m x, c + m) else (x, c))"

lemma ctz_steps: "ctz x = (let (x, c) = ctz_step 2 (ctz_step 4 (ctz_step 8 (ctz_step 16 (x, 1)))) in c - unat (x AND 1))"
  by (simp add: ctz_def ctz_step_def mask_eq_exp_minus_1 Let_def split: prod.splits)

lemma ctz_step_first:
  assumes "first_at (bit x) (2 * m) k" and "ctz_step m (x, c) = (x', c')"
  shows "\<exists>k'. first_at (bit x') m k' \<and> c' + k' = c + k"
proof (cases "x AND mask m = 0")
  case True
  then have low: "\<forall>j<m. \<not> bit x j"
    by (metis bit_imp_le_length low_bits_zero not_le)
  then have k: "m \<le> k"
    using assms(1) by (auto simp: first_at_def not_less)
  have "first_at (bit (drop_bit m x)) m (k - m)"
    using assms(1) k by (auto simp: first_at_def bit_drop_bit_eq)
  then show ?thesis
    using assms(2) True k by (auto simp: ctz_step_def)
next
  case False
  then obtain j where "j < m" "bit x j"
    by (auto simp: low_bits_zero)
  then have "k < m"
    using assms(1) by (metis first_at_def not_less_iff_gr_or_eq less_trans)
  then show ?thesis
    using assms False by (auto simp: ctz_step_def first_at_def)
qed

lemma ctz_first:
  assumes "first_at (bit x) 32 k"
  shows "ctz x = k"
proof -
  obtain x1 c1 where 1: "ctz_step 16 (x, 1) = (x1, c1)"
    by fastforce
  obtain x2 c2 where 2: "ctz_step 8 (x1, c1) = (x2, c2)"
    by fastforce
  obtain x3 c3 where 3: "ctz_step 4 (x2, c2) = (x3, c3)"
    by fastforce
  obtain x4 c4 where 4: "ctz_step 2 (x3, c3) = (x4, c4)"
    by fastforce
  obtain k1 where k1: "first_at (bit x1) 16 k1" "c1 + k1 = 1 + k"
    using ctz_step_first [OF _ 1, of k] assms by auto
  obtain k2 where k2: "first_at (bit x2) 8 k2" "c2 + k2 = c1 + k1"
    using ctz_step_first [OF _ 2, of k1] k1(1) by auto
  obtain k3 where k3: "first_at (bit x3) 4 k3" "c3 + k3 = c2 + k2"
    using ctz_step_first [OF _ 3, of k2] k2(1) by auto
  obtain k4 where k4: "first_at (bit x4) 2 k4" "c4 + k4 = c3 + k3"
    using ctz_step_first [OF _ 4, of k3] k3(1) by auto
  have one: "x4 AND 1 = of_bool (bit x4 0)"
    by (simp add: and_one_eq mod_2_eq_odd bit_0)
  have "c4 - unat (x4 AND 1) = k"
  proof (cases "bit x4 0")
    case True
    then have "k4 = 0" "x4 AND 1 = 1"
      using k4(1) by (auto simp: first_at_def one)
    then show ?thesis
      using k1(2) k2(2) k3(2) k4(2) by simp
  next
    case False
    then have "k4 = 1" "x4 AND 1 = 0"
      using k4(1) by (auto simp: first_at_def one less_2_cases_iff)
    then show ?thesis
      using k1(2) k2(2) k3(2) k4(2) by simp
  qed
  then show ?thesis
    by (simp add: ctz_steps 1 2 3 4 del: One_nat_def)
qed

text \<open>\<open>clz\<close> is \<open>ctz\<close> of the reversed word.\<close>

definition msb_at :: "u32 \<Rightarrow> nat \<Rightarrow> bool" where
  "msb_at x j = bit x (31 - j)"

definition clz_step :: "nat \<Rightarrow> u32 \<times> nat \<Rightarrow> u32 \<times> nat" where
  "clz_step m = (\<lambda>(x, c). if x AND push_bit (32 - m) (mask m) = 0 then (push_bit m x, c + m) else (x, c))"

lemma clz_steps: "clz x = (let (x, c) = clz_step 2 (clz_step 4 (clz_step 8 (clz_step 16 (x, 0))))
    in c + (if x AND 0x80000000 = 0 then 1 else 0))"
  by (simp add: clz_def clz_step_def mask_eq_exp_minus_1 push_bit_eq_mult Let_def split: prod.splits)

lemma high_bits_zero: "m \<le> 32 \<Longrightarrow> x AND push_bit (32 - m) (mask m) = 0 \<longleftrightarrow> (\<forall>j<m. \<not> msb_at x j)" for x :: u32
proof -
  assume m: "m \<le> 32"
  have "(x AND push_bit (32 - m) (mask m) = 0) = (\<forall>i<32. bit x i \<longrightarrow> \<not> 32 - m \<le> i)"
    using m by (auto simp: bit_eq_iff bit_simps)
  also have "\<dots> = (\<forall>j<m. \<not> msb_at x j)"
  proof
    assume a: "\<forall>i<32. bit x i \<longrightarrow> \<not> 32 - m \<le> i"
    show "\<forall>j<m. \<not> msb_at x j"
    proof (intro allI impI)
      fix j
      assume "j < m"
      then have "31 - j < 32" "32 - m \<le> 31 - j"
        using m by linarith+
      then show "\<not> msb_at x j"
        using a by (auto simp: msb_at_def)
    qed
  next
    assume a: "\<forall>j<m. \<not> msb_at x j"
    show "\<forall>i<32. bit x i \<longrightarrow> \<not> 32 - m \<le> i"
    proof (intro allI impI notI)
      fix i :: nat
      assume i: "i < 32" "bit x i" "32 - m \<le> i"
      then have "31 - i < m" "31 - (31 - i) = i"
        using m by linarith+
      then show False
        using a i(2) by (auto simp: msb_at_def)
    qed
  qed
  finally show ?thesis .
qed

lemma clz_step_first:
  assumes "first_at (msb_at x) (2 * m) k" and "2 * m \<le> 32" and "clz_step m (x, c) = (x', c')"
  shows "\<exists>k'. first_at (msb_at x') m k' \<and> c' + k' = c + k"
proof (cases "x AND push_bit (32 - m) (mask m) = 0")
  case True
  then have low: "\<forall>j<m. \<not> msb_at x j"
    using assms(2) by (simp add: high_bits_zero)
  then have k: "m \<le> k"
    using assms(1) by (auto simp: first_at_def not_less)
  have "msb_at (push_bit m x) j = msb_at x (j + m)" if "j < m" for j
    using that assms(2) by (auto simp: msb_at_def bit_push_bit_iff)
  moreover have "k - m < m"
    using assms(1) k by (auto simp: first_at_def)
  ultimately have "first_at (msb_at (push_bit m x)) m (k - m)"
    using assms(1) k by (auto simp: first_at_def)
  then show ?thesis
    using assms(3) True k by (auto simp: clz_step_def)
next
  case False
  then obtain j where "j < m" "msb_at x j"
    using assms(2) by (auto simp: high_bits_zero)
  then have "k < m"
    using assms(1) by (metis first_at_def not_less_iff_gr_or_eq less_trans)
  then show ?thesis
    using assms False by (auto simp: clz_step_def first_at_def)
qed

lemma clz_first:
  assumes "first_at (msb_at x) 32 k"
  shows "clz x = k"
proof -
  obtain x1 c1 where 1: "clz_step 16 (x, 0) = (x1, c1)"
    by fastforce
  obtain x2 c2 where 2: "clz_step 8 (x1, c1) = (x2, c2)"
    by fastforce
  obtain x3 c3 where 3: "clz_step 4 (x2, c2) = (x3, c3)"
    by fastforce
  obtain x4 c4 where 4: "clz_step 2 (x3, c3) = (x4, c4)"
    by fastforce
  obtain k1 where k1: "first_at (msb_at x1) 16 k1" "c1 + k1 = k"
    using clz_step_first [OF _ _ 1, of k] assms by auto
  obtain k2 where k2: "first_at (msb_at x2) 8 k2" "c2 + k2 = c1 + k1"
    using clz_step_first [OF _ _ 2, of k1] k1(1) by auto
  obtain k3 where k3: "first_at (msb_at x3) 4 k3" "c3 + k3 = c2 + k2"
    using clz_step_first [OF _ _ 3, of k2] k2(1) by auto
  obtain k4 where k4: "first_at (msb_at x4) 2 k4" "c4 + k4 = c3 + k3"
    using clz_step_first [OF _ _ 4, of k3] k3(1) by auto
  have t: "(x4 AND 0x80000000 = 0) = (\<not> msb_at x4 0)"
    using high_bits_zero [of 1 x4] by (simp add: mask_eq_exp_minus_1)
  have "c4 + (if x4 AND 0x80000000 = 0 then 1 else 0) = k"
    using k4 k1(2) k2(2) k3(2) by (auto simp: t first_at_def less_2_cases_iff)
  then show ?thesis
    by (simp add: clz_steps 1 2 3 4)
qed

subsection \<open>Skipping bits\<close>

text \<open>
  \<open>byte_loop\<close> and \<open>word_loop\<close> are the loops that the four functions share: \<open>f\<close> is their test of
  a byte or of four bytes with the number that it adds to \<open>pfn\<close>; the result is the bit that was found, or
  the state behind the loop.
\<close>

function byte_loop :: "(u8 \<Rightarrow> nat option) \<Rightarrow> (nat \<Rightarrow> bool) \<Rightarrow> u8 list \<Rightarrow> nat \<Rightarrow> nat \<Rightarrow> u64 \<Rightarrow> u64 + nat \<times> u64" where
  "byte_loop f more bitmap size' i pfn =
     (if i < size' \<and> more i
      then (case f (bitmap ! i) of
              Some k \<Rightarrow> Inl (pfn + of_nat k)
            | None \<Rightarrow> byte_loop f more bitmap size' (i + 1) (pfn + 8))
      else Inr (i, pfn))"
  by auto
termination
  by (relation "measure (\<lambda>(f, more, bitmap, size', i, pfn). size' - i)") auto

function word_loop :: "(u32 \<Rightarrow> nat option) \<Rightarrow> (u8 list \<Rightarrow> u32) \<Rightarrow> u8 list \<Rightarrow> nat \<Rightarrow> nat \<Rightarrow> u64 \<Rightarrow> u64 + nat \<times> u64" where
  "word_loop f toh bitmap size' i pfn =
     (if i + 4 \<le> size'
      then (case f (toh (take 4 (drop i bitmap))) of
              Some k \<Rightarrow> Inl (pfn + of_nat k)
            | None \<Rightarrow> word_loop f toh bitmap size' (i + 4) (pfn + 32))
      else Inr (i, pfn))"
  by auto
termination
  by (relation "measure (\<lambda>(f, toh, bitmap, size', i, pfn). size' - i)") auto

declare byte_loop.simps [simp del] word_loop.simps [simp del]

definition skip_rest :: "(u8 \<Rightarrow> nat option) \<Rightarrow> (u32 \<Rightarrow> nat option) \<Rightarrow> (u8 list \<Rightarrow> u32) \<Rightarrow> nat \<Rightarrow> u8 list \<Rightarrow> nat \<Rightarrow> nat \<Rightarrow> u64 \<Rightarrow> u64" where
  "skip_rest f8 f32 toh base bitmap size' i pfn =
     (case byte_loop f8 (\<lambda>i. (base + i) mod 4 \<noteq> 0) bitmap size' i pfn of
        Inl r \<Rightarrow> r
      | Inr (i, pfn) \<Rightarrow>
          (case word_loop f32 toh bitmap size' i pfn of
             Inl r \<Rightarrow> r
           | Inr (i, pfn) \<Rightarrow>
               (case byte_loop f8 (\<lambda>i. True) bitmap size' i pfn of
                  Inl r \<Rightarrow> r
                | Inr (i, pfn) \<Rightarrow> pfn)))"

text \<open>\<open>le32toh\<close> and \<open>be32toh\<close> of the four bytes at an address.\<close>

definition le32 :: "u8 list \<Rightarrow> u32" where
  "le32 bs = ucast (bs ! 0) OR push_bit 8 (ucast (bs ! 1)) OR push_bit 16 (ucast (bs ! 2)) OR push_bit 24 (ucast (bs ! 3))"

definition be32 :: "u8 list \<Rightarrow> u32" where
  "be32 bs = ucast (bs ! 3) OR push_bit 8 (ucast (bs ! 2)) OR push_bit 16 (ucast (bs ! 1)) OR push_bit 24 (ucast (bs ! 0))"

text \<open>
  The functions. A test of the four bytes for a bit that is set, or clear, does not depend on the byte
  order, so it is written on the converted word. A \<open>signed char\<close> is promoted with its sign.
\<close>

definition found :: "(u32 \<Rightarrow> nat) \<Rightarrow> u32 \<Rightarrow> nat option" where
  "found cnt x = (if x \<noteq> 0 then Some (cnt x) else None)"

definition skip_clear_lsb0 :: "nat \<Rightarrow> u8 list \<Rightarrow> nat \<Rightarrow> u64 \<Rightarrow> u64" where
  "skip_clear_lsb0 base bitmap size' pfn =
     (let i = unat (drop_bit 3 pfn)
      in if i \<ge> size' then pfn
         else
           let val = drop_bit (unat (pfn AND 7)) (bitmap ! i)
           in if val \<noteq> 0 then pfn + of_nat (ctz (ucast val))
              else skip_rest (\<lambda>b. found ctz (ucast b)) (found ctz) le32 base bitmap size' (i + 1) ((pfn OR 7) + 1))"

definition skip_clear_msb0 :: "nat \<Rightarrow> u8 list \<Rightarrow> nat \<Rightarrow> u64 \<Rightarrow> u64" where
  "skip_clear_msb0 base bitmap size' pfn =
     (let i = unat (drop_bit 3 pfn)
      in if i \<ge> size' then pfn
         else
           let val = push_bit (unat (pfn AND 7)) (bitmap ! i)
           in if val \<noteq> 0 then pfn + of_nat (clz (push_bit 24 (ucast val)))
              else skip_rest (\<lambda>b. if b \<noteq> 0 then Some (clz (push_bit 24 (ucast b))) else None) (found clz) be32
                     base bitmap size' (i + 1) ((pfn OR 7) + 1))"

definition skip_set_lsb0 :: "nat \<Rightarrow> u8 list \<Rightarrow> nat \<Rightarrow> u64 \<Rightarrow> u64" where
  "skip_set_lsb0 base bitmap size' pfn =
     (let i = unat (drop_bit 3 pfn)
      in if i \<ge> size' then pfn
         else
           let val = (ucast (NOT (signed_drop_bit (unat (pfn AND 7)) (scast (bitmap ! i) :: u32))) :: u8)
           in if val \<noteq> 0 then pfn + of_nat (ctz (ucast val))
              else skip_rest (\<lambda>b. found ctz (NOT (scast b))) (\<lambda>x. found ctz (NOT x)) le32
                     base bitmap size' (i + 1) ((pfn OR 7) + 1))"

definition skip_set_msb0 :: "nat \<Rightarrow> u8 list \<Rightarrow> nat \<Rightarrow> u64 \<Rightarrow> u64" where
  "skip_set_msb0 base bitmap size' pfn =
     (let i = unat (drop_bit 3 pfn)
      in if i \<ge> size' then pfn
         else
           let val = (ucast (NOT (push_bit (unat (pfn AND 7)) (ucast (bitmap ! i) :: u32))) :: u8)
           in if val \<noteq> 0 then pfn + of_nat (clz (push_bit 24 (ucast val)))
              else skip_rest (\<lambda>b. if b \<noteq> 0xff then Some (clz (NOT (push_bit 24 (ucast b)))) else None)
                     (\<lambda>x. found clz (NOT x)) be32 base bitmap size' (i + 1) ((pfn OR 7) + 1))"

subsection \<open>The contract of a search\<close>

text \<open>
  \<open>P8 b k\<close> says that the \<open>k\<close>-th bit of a byte, in the order of the bitmap, is searched for; \<open>hit\<close>
  says that \<open>r\<close> is the first such bit from \<open>a\<close> on.
\<close>

definition bit_at :: "(u8 \<Rightarrow> nat \<Rightarrow> bool) \<Rightarrow> u8 list \<Rightarrow> nat \<Rightarrow> bool" where
  "bit_at P8 bitmap n = P8 (bitmap ! (n div 8)) (n mod 8)"

abbreviation none_in :: "(nat \<Rightarrow> bool) \<Rightarrow> nat \<Rightarrow> nat \<Rightarrow> bool" where
  "none_in P a b \<equiv> \<forall>n. a \<le> n \<and> n < b \<longrightarrow> \<not> P n"

definition hit :: "(nat \<Rightarrow> bool) \<Rightarrow> nat \<Rightarrow> nat \<Rightarrow> nat \<Rightarrow> bool" where
  "hit P a n r \<longleftrightarrow> a \<le> r \<and> r < n \<and> P r \<and> none_in P a r"

lemma bit_at_byte: "k < 8 \<Longrightarrow> bit_at P8 bitmap (8 * i + k) = P8 (bitmap ! i) k"
  by (simp add: bit_at_def)

lemma bit_at_word: "k < 32 \<Longrightarrow> i + 4 \<le> length bitmap \<Longrightarrow>
    bit_at P8 bitmap (8 * i + k) = P8 (take 4 (drop i bitmap) ! (k div 8)) (k mod 8)"
  by (simp add: bit_at_def div_mult_self3)

lemma none_in_add:
  assumes "none_in P a b" and "\<forall>k<m. \<not> P (b + k)"
  shows "none_in P a (b + m)"
proof (intro allI impI)
  fix n
  assume n: "a \<le> n \<and> n < b + m"
  show "\<not> P n"
  proof (cases "n < b")
    case False
    then have "n = b + (n - b)" "n - b < m"
      using n by linarith+
    then show ?thesis
      using assms(2) by metis
  qed (use assms(1) n in blast)
qed

lemma hitI:
  assumes "none_in P a b" and "first_at (\<lambda>k. P (b + k)) m k" and "b + m \<le> n" and "n < 2 ^ 64"
    and "unat pfn = b" and "a \<le> b"
  shows "hit P a n (unat (pfn + of_nat k :: u64))"
proof -
  have k: "k < m" "P (b + k)" "\<forall>j<k. \<not> P (b + j)"
    using assms(2) by (auto simp: first_at_def)
  have "unat (of_nat k :: u64) = k"
    using k(1) assms(3,4) by (simp add: unat_of_nat take_bit_nat_eq_self)
  then have "unat (pfn + of_nat k) = b + k"
    using k(1) assms(3-5) by (subst unat_plus_no_overflow) simp_all
  then show ?thesis
    using k assms(3,6) none_in_add [OF assms(1) k(3)] by (simp add: hit_def)
qed

lemma unat_advance:
  assumes "b + n < 2 ^ 64" and "unat (pfn :: u64) = b"
  shows "unat (pfn + of_nat n) = b + n"
proof -
  have "unat (of_nat n :: u64) = n"
    using assms(1) by (simp add: unat_of_nat take_bit_nat_eq_self)
  then show ?thesis
    using assms by (subst unat_plus_no_overflow) simp_all
qed

lemma mask_3: "mask 3 = (7 :: u64)" "mask 3 = (7 :: nat)"
  by (simp_all add: mask_eq_exp_minus_1)

lemma pfn_byte: "unat (drop_bit 3 pfn) = unat pfn div 8" for pfn :: u64
  by (simp add: drop_bit_eq_div unat_div_distrib)

lemma pfn_bit: "unat (pfn AND 7) = unat pfn mod 8" for pfn :: u64
  by (simp flip: mask_3 take_bit_eq_mask) (simp add: take_bit_eq_mod unat_mod_distrib)

lemma pfn_next_byte:
  assumes "8 * (unat pfn div 8 + 1) < 2 ^ 64"
  shows "unat ((pfn OR 7) + 1 :: u64) = 8 * (unat pfn div 8 + 1)"
proof -
  have "unat pfn OR 7 = push_bit 3 (drop_bit 3 (unat pfn)) OR mask 3"
    by (rule bit_eqI) (auto simp: bit_simps simp flip: mask_3)
  also have "\<dots> = push_bit 3 (drop_bit 3 (unat pfn)) + mask 3"
    by (rule disjunctive_add [symmetric]) (auto simp: bit_simps)
  finally have "unat (pfn OR 7) = 8 * (unat pfn div 8) + 7"
    by (simp add: unsigned_or_eq push_bit_eq_mult drop_bit_eq_div mask_eq_exp_minus_1)
  then show ?thesis
    using assms unat_advance [of "8 * (unat pfn div 8) + 7" 1 "pfn OR 7"] by simp
qed

text \<open>The tests of a byte and of four bytes find the first bit that is searched for.\<close>

locale bit_search =
  fixes P8 :: "u8 \<Rightarrow> nat \<Rightarrow> bool" and f8 :: "u8 \<Rightarrow> nat option" and f32 :: "u32 \<Rightarrow> nat option" and toh :: "u8 list \<Rightarrow> u32"
  assumes byte_hit: "f8 b = Some k \<Longrightarrow> first_at (P8 b) 8 k"
    and byte_miss: "f8 b = None \<Longrightarrow> k < 8 \<Longrightarrow> \<not> P8 b k"
    and word_hit: "length bs = 4 \<Longrightarrow> f32 (toh bs) = Some k \<Longrightarrow> first_at (\<lambda>j. P8 (bs ! (j div 8)) (j mod 8)) 32 k"
    and word_miss: "length bs = 4 \<Longrightarrow> f32 (toh bs) = None \<Longrightarrow> k < 32 \<Longrightarrow> \<not> P8 (bs ! (k div 8)) (k mod 8)"
begin

abbreviation found_or :: "u8 list \<Rightarrow> nat \<Rightarrow> nat \<Rightarrow> nat \<Rightarrow> u64 + nat \<times> u64 \<Rightarrow> (nat \<Rightarrow> bool) \<Rightarrow> bool" where
  "found_or bitmap a size' i res Q \<equiv>
     (case res of
        Inl r \<Rightarrow> hit (bit_at P8 bitmap) a (8 * size') (unat r)
      | Inr (i', pfn') \<Rightarrow> i \<le> i' \<and> i' \<le> size' \<and> unat pfn' = 8 * i' \<and> none_in (bit_at P8 bitmap) a (8 * i') \<and> Q i')"

lemma byte_loop_spec:
  assumes "size' \<le> length bitmap" and "8 * size' < 2 ^ 64" and "unat pfn = 8 * i" and "i \<le> size'" and "a \<le> 8 * i"
    and "none_in (bit_at P8 bitmap) a (8 * i)"
  shows "found_or bitmap a size' i (byte_loop f8 more bitmap size' i pfn) (\<lambda>i'. i' < size' \<longrightarrow> \<not> more i')"
  using assms(3-6)
proof (induction "size' - i" arbitrary: i pfn rule: less_induct)
  case less
  show ?case
  proof (cases "i < size' \<and> more i")
    case True
    show ?thesis
    proof (cases "f8 (bitmap ! i)")
      case (Some k)
      have "first_at (\<lambda>k. bit_at P8 bitmap (8 * i + k)) 8 k"
        using byte_hit [OF Some] by (simp add: first_at_def bit_at_byte)
      from hitI [OF less.prems(4) this _ assms(2) less.prems(1,3)] show ?thesis
        using True Some by (simp add: byte_loop.simps [of f8])
    next
      case None
      have "unat (pfn + 8) = 8 * (i + 1)"
        using unat_advance [of "8 * i" 8 pfn] less.prems(1) True assms(2) by simp
      moreover have "none_in (bit_at P8 bitmap) a (8 * (i + 1))"
        using none_in_add [OF less.prems(4), of 8] byte_miss [OF None] by (simp add: bit_at_byte)
      ultimately have "found_or bitmap a size' (i + 1) (byte_loop f8 more bitmap size' (i + 1) (pfn + 8)) (\<lambda>i'. i' < size' \<longrightarrow> \<not> more i')"
        using True less.prems(3) by (intro less.hyps) auto
      then show ?thesis
        using True None by (subst byte_loop.simps) (auto split: sum.splits prod.splits)
    qed
  next
    case False
    then show ?thesis
      using less.prems by (subst byte_loop.simps) auto
  qed
qed

lemma word_loop_spec:
  assumes "size' \<le> length bitmap" and "8 * size' < 2 ^ 64" and "unat pfn = 8 * i" and "i \<le> size'" and "a \<le> 8 * i"
    and "none_in (bit_at P8 bitmap) a (8 * i)"
  shows "found_or bitmap a size' i (word_loop f32 toh bitmap size' i pfn) (\<lambda>i'. True)"
  using assms(3-6)
proof (induction "size' - i" arbitrary: i pfn rule: less_induct)
  case less
  show ?case
  proof (cases "i + 4 \<le> size'")
    case True
    define bs where "bs = take 4 (drop i bitmap)"
    have bs: "length bs = 4" "i + 4 \<le> length bitmap"
      using True assms(1) by (simp_all add: bs_def)
    show ?thesis
    proof (cases "f32 (toh bs)")
      case (Some k)
      have "first_at (\<lambda>k. bit_at P8 bitmap (8 * i + k)) 32 k"
        using word_hit [OF bs(1) Some] bs(2) by (simp add: first_at_def bit_at_word bs_def)
      from hitI [OF less.prems(4) this _ assms(2) less.prems(1,3)] show ?thesis
        using True Some by (simp add: word_loop.simps [of f32] bs_def)
    next
      case None
      have "unat (pfn + 32) = 8 * (i + 4)"
        using unat_advance [of "8 * i" 32 pfn] less.prems(1) True assms(2) by simp
      moreover have "none_in (bit_at P8 bitmap) a (8 * (i + 4))"
        using none_in_add [OF less.prems(4), of 32] word_miss [OF bs(1) None] bs(2) by (simp add: bit_at_word bs_def)
      ultimately have "found_or bitmap a size' (i + 4) (word_loop f32 toh bitmap size' (i + 4) (pfn + 32)) (\<lambda>i'. True)"
        using True less.prems(3) by (intro less.hyps) auto
      then show ?thesis
        using True None by (subst word_loop.simps) (auto simp: bs_def split: sum.splits prod.splits)
    qed
  next
    case False
    then show ?thesis
      using less.prems by (subst word_loop.simps) auto
  qed
qed

lemma skip_rest_spec:
  assumes "size' \<le> length bitmap" and "8 * size' < 2 ^ 64" and "unat pfn = 8 * i" and "i \<le> size'" and "a \<le> 8 * i"
    and "none_in (bit_at P8 bitmap) a (8 * i)" and "r = skip_rest f8 f32 toh base bitmap size' i pfn"
  shows "a \<le> unat r" and "unat r \<le> 8 * size'" and "none_in (bit_at P8 bitmap) a (unat r)"
    and "unat r < 8 * size' \<longrightarrow> bit_at P8 bitmap (unat r)"
proof -
  define more where "more = (\<lambda>i. (base + i) mod 4 \<noteq> 0)"
  have r: "r = (case byte_loop f8 more bitmap size' i pfn of
        Inl r \<Rightarrow> r
      | Inr (i, pfn) \<Rightarrow>
          (case word_loop f32 toh bitmap size' i pfn of
             Inl r \<Rightarrow> r
           | Inr (i, pfn) \<Rightarrow> (case byte_loop f8 (\<lambda>i. True) bitmap size' i pfn of Inl r \<Rightarrow> r | Inr (i, pfn) \<Rightarrow> pfn)))"
    unfolding assms(7) skip_rest_def more_def ..
  have "hit (bit_at P8 bitmap) a (8 * size') (unat r) \<or> unat r = 8 * size' \<and> none_in (bit_at P8 bitmap) a (8 * size') \<and> a \<le> 8 * size'"
  proof (cases "byte_loop f8 more bitmap size' i pfn")
    case (Inl x)
    then show ?thesis
      using byte_loop_spec [OF assms(1-6), of more] by (simp add: r)
  next
    case (Inr s)
    obtain i1 p1 where s: "s = (i1, p1)"
      by (cases s)
    have 1: "i \<le> i1" "i1 \<le> size'" "unat p1 = 8 * i1" "none_in (bit_at P8 bitmap) a (8 * i1)"
      using byte_loop_spec [OF assms(1-6), of more] by (simp_all add: Inr s)
    have a1: "a \<le> 8 * i1"
      using 1(1) assms(5) by simp
    show ?thesis
    proof (cases "word_loop f32 toh bitmap size' i1 p1")
      case (Inl x)
      then show ?thesis
        using word_loop_spec [OF assms(1,2) 1(3,2) a1 1(4)] Inr s by (simp add: r)
    next
      case inr2: (Inr s2)
      obtain i2 p2 where s2: "s2 = (i2, p2)"
        by (cases s2)
      have 2: "i1 \<le> i2" "i2 \<le> size'" "unat p2 = 8 * i2" "none_in (bit_at P8 bitmap) a (8 * i2)"
        using word_loop_spec [OF assms(1,2) 1(3,2) a1 1(4)] by (simp_all add: inr2 s2)
      have a2: "a \<le> 8 * i2"
        using 2(1) a1 by simp
      show ?thesis
        using byte_loop_spec [OF assms(1,2) 2(3,2) a2 2(4), of "\<lambda>_. True"] a2 Inr s inr2 s2
        by (auto simp: r split: sum.splits)
    qed
  qed
  then show "a \<le> unat r" "unat r \<le> 8 * size'" "none_in (bit_at P8 bitmap) a (unat r)"
    "unat r < 8 * size' \<longrightarrow> bit_at P8 bitmap (unat r)"
    by (auto simp: hit_def)
qed

text \<open>The whole search, with the test \<open>v\<close> of the rest of the first byte.\<close>

lemma search_spec:
  assumes "unat pfn < 8 * size'" and "size' \<le> length bitmap" and "8 * size' < 2 ^ 64"
    and "\<And>k. v = Some k \<Longrightarrow> k \<le> 8 - unat pfn mod 8 \<and> (\<forall>j<k. \<not> P8 (bitmap ! (unat pfn div 8)) (unat pfn mod 8 + j))
      \<and> (k < 8 - unat pfn mod 8 \<longrightarrow> P8 (bitmap ! (unat pfn div 8)) (unat pfn mod 8 + k))"
    and "v = None \<Longrightarrow> \<forall>j<8 - unat pfn mod 8. \<not> P8 (bitmap ! (unat pfn div 8)) (unat pfn mod 8 + j)"
    and "r = (case v of Some k \<Rightarrow> pfn + of_nat k
      | None \<Rightarrow> skip_rest f8 f32 toh base bitmap size' (unat pfn div 8 + 1) ((pfn OR 7) + 1))"
  shows "unat pfn \<le> unat r" and "unat r \<le> 8 * size'" and "none_in (bit_at P8 bitmap) (unat pfn) (unat r)"
    and "unat r < 8 * size' \<longrightarrow> bit_at P8 bitmap (unat r) \<or> v = Some (8 - unat pfn mod 8)"
    and "v = Some (8 - unat pfn mod 8) \<Longrightarrow> 8 dvd unat r"
proof -
  define i n where "i = unat pfn div 8" and "n = unat pfn mod 8"
  have p: "unat pfn = 8 * i + n" "n < 8" "i < size'"
    using assms(1) by (auto simp: i_def n_def)
  have byte: "bit_at P8 bitmap (unat pfn + j) = P8 (bitmap ! i) (n + j)" if "n + j < 8" for j
    using bit_at_byte [OF that, of P8 bitmap i] by (simp add: p(1) add.assoc)
  have byte: "\<forall>j<k. \<not> P8 (bitmap ! i) (n + j) \<Longrightarrow> k \<le> 8 - n \<Longrightarrow> none_in (bit_at P8 bitmap) (unat pfn) (unat pfn + k)" for k
    by (rule none_in_add) (auto simp: byte)
  have "unat pfn \<le> unat r \<and> unat r \<le> 8 * size' \<and> none_in (bit_at P8 bitmap) (unat pfn) (unat r)
    \<and> (unat r < 8 * size' \<longrightarrow> bit_at P8 bitmap (unat r) \<or> v = Some (8 - n)) \<and> (v = Some (8 - n) \<longrightarrow> 8 dvd unat r)"
  proof (cases v)
    case (Some k)
    have k: "k \<le> 8 - n" "\<forall>j<k. \<not> P8 (bitmap ! i) (n + j)" "k < 8 - n \<longrightarrow> P8 (bitmap ! i) (n + k)"
      using assms(4) [OF Some] by (simp_all add: i_def n_def)
    have r: "unat r = unat pfn + k"
      using k(1) p assms(3) unat_advance [of "unat pfn" k pfn] by (simp add: assms(6) Some)
    have "k < 8 - n \<longrightarrow> bit_at P8 bitmap (unat r)"
      using k(3) bit_at_byte [of "n + k" P8 bitmap i] by (auto simp: r p(1) add.assoc)
    moreover have "k = 8 - n \<longrightarrow> 8 dvd unat r"
      using p(1,2) by (simp add: r)
    ultimately show ?thesis
      using k(1) p byte [OF k(2,1)] by (auto simp: r Some)
  next
    case None
    have nx: "unat ((pfn OR 7) + 1) = 8 * (i + 1)"
      using pfn_next_byte [of pfn] p(3) assms(3) by (simp add: i_def)
    have "8 * (i + 1) = unat pfn + (8 - n)"
      using p(1,2) by simp
    then have none: "none_in (bit_at P8 bitmap) (unat pfn) (8 * (i + 1))"
      using byte [of "8 - n"] assms(5) [OF None] by (simp add: i_def n_def)
    have le: "unat pfn \<le> 8 * (i + 1)" "i + 1 \<le> size'"
      using p by simp_all
    have "r = skip_rest f8 f32 toh base bitmap size' (i + 1) ((pfn OR 7) + 1)"
      by (simp add: assms(6) None i_def)
    from skip_rest_spec [OF assms(2,3) nx le(2,1) none this] show ?thesis
      by (simp add: None)
  qed
  then show "unat pfn \<le> unat r" "unat r \<le> 8 * size'" "none_in (bit_at P8 bitmap) (unat pfn) (unat r)"
    "unat r < 8 * size' \<longrightarrow> bit_at P8 bitmap (unat r) \<or> v = Some (8 - unat pfn mod 8)"
    "v = Some (8 - unat pfn mod 8) \<Longrightarrow> 8 dvd unat r"
    by (simp_all add: n_def)
qed

end

subsection \<open>The four searches\<close>

lemma found_None: "found cnt x = None \<longleftrightarrow> x = 0"
  by (simp add: found_def)

lemma nonzero_bit: "x \<noteq> 0 \<Longrightarrow> \<exists>k<32. bit x k" for x :: u32
  by (auto simp: bit_eq_iff intro: bit_imp_le_length)

lemma found_ctz: "found ctz x = Some k \<Longrightarrow> first_at (bit x) 32 k"
  using first_at_ex [OF nonzero_bit, of x] ctz_first [of x] by (auto simp: found_def split: if_splits)

lemma nonzero_msb: "x \<noteq> 0 \<Longrightarrow> \<exists>k<32. msb_at x k"
proof -
  assume "x \<noteq> 0"
  then obtain k where "k < 32" "bit x k"
    using nonzero_bit by blast
  then have "31 - k < 32 \<and> msb_at x (31 - k)"
    by (simp add: msb_at_def)
  then show ?thesis
    by blast
qed

lemma found_clz: "found clz x = Some k \<Longrightarrow> first_at (msb_at x) 32 k"
  using first_at_ex [OF nonzero_msb, of x] clz_first [of x] by (auto simp: found_def split: if_splits)

lemma first_at_cong: "first_at P n k \<Longrightarrow> (\<And>j. j < n \<Longrightarrow> P j = Q j) \<Longrightarrow> first_at Q n k"
  unfolding first_at_def by (meson less_trans)

lemma first_at_cut: "first_at P n k \<Longrightarrow> \<exists>j<m. P j \<Longrightarrow> first_at P m k"
  unfolding first_at_def by (metis linorder_neqE_nat less_trans)

lemma first_at_byte:
  assumes "first_at P 32 k" and "\<And>j. j < 8 \<Longrightarrow> P j = Q j" and "\<exists>j<8. Q j"
  shows "first_at Q 8 k"
  using first_at_cong [OF first_at_cut [OF assms(1), of 8] assms(2)] assms(2,3) by auto

lemma u8_bit: "bit (b :: u8) j \<Longrightarrow> j < 8"
  using bit_imp_le_length [of b j] by simp

lemma le32_bit: "j < 32 \<Longrightarrow> bit (le32 bs) j = bit (bs ! (j div 8)) (j mod 8)"
proof -
  assume j: "j < 32"
  define q n where "q = j div 8" and "n = j mod 8"
  have "j = 8 * q + n" "n < 8" "q < 4"
    using j by (auto simp: q_def n_def)
  moreover have "q = 0 \<or> q = 1 \<or> q = 2 \<or> q = 3"
    using \<open>q < 4\<close> by auto
  ultimately have "bit (le32 bs) j = bit (bs ! q) n"
    by (elim disjE) (auto simp: le32_def bit_simps dest: u8_bit)
  then show ?thesis
    by (simp add: q_def n_def)
qed

lemma be32_bit: "j < 32 \<Longrightarrow> msb_at (be32 bs) j = bit (bs ! (j div 8)) (7 - j mod 8)"
proof -
  assume j: "j < 32"
  define q n where "q = j div 8" and "n = j mod 8"
  have "j = 8 * q + n" "n < 8" "q < 4"
    using j by (auto simp: q_def n_def)
  moreover have "q = 0 \<or> q = 1 \<or> q = 2 \<or> q = 3"
    using \<open>q < 4\<close> by auto
  ultimately have "msb_at (be32 bs) j = bit (bs ! q) (7 - n)"
    by (elim disjE) (auto simp: be32_def msb_at_def bit_simps dest: u8_bit)
  then show ?thesis
    by (simp add: q_def n_def)
qed

definition lsb0 :: "u8 \<Rightarrow> nat \<Rightarrow> bool" where
  "lsb0 b k = bit b k"

definition msb0 :: "u8 \<Rightarrow> nat \<Rightarrow> bool" where
  "msb0 b k = bit b (7 - k)"

lemma byte_ne0: "b \<noteq> 0 \<longleftrightarrow> (\<exists>k<8. bit b k)" for b :: u8
  by (auto simp: bit_eq_iff dest: u8_bit)

lemma byte_ne0_msb: "b \<noteq> 0 \<longleftrightarrow> (\<exists>k<8. bit b (7 - k))" for b :: u8
proof -
  have "(\<exists>k<8. bit b (7 - k)) \<longleftrightarrow> (\<exists>k<8. bit b k)"
  proof
    assume "\<exists>k<8. bit b k"
    then obtain k where "k < 8" "bit b k"
      by blast
    then have "7 - k < 8 \<and> bit b (7 - (7 - k))"
      by simp
    then show "\<exists>k<8. bit b (7 - k)"
      by blast
  next
    assume "\<exists>k<8. bit b (7 - k)"
    then show "\<exists>k<8. bit b k"
      using u8_bit by blast
  qed
  then show ?thesis
    by (simp add: byte_ne0)
qed

lemma ucast_bit: "j < 8 \<Longrightarrow> bit (ucast (b :: u8) :: u32) j = bit b j"
  by (simp add: bit_simps)

lemma ucast_msb: "j < 8 \<Longrightarrow> msb_at (push_bit 24 (ucast b)) j = msb0 b j" for b :: u8
  by (auto simp: msb_at_def msb0_def bit_simps)

lemma scast_bit: "j < 8 \<Longrightarrow> bit (NOT (scast (b :: u8) :: u32)) j = (\<not> bit b j)"
  by (auto simp: bit_simps)

lemma byte_ff: "b \<noteq> 0xff \<longleftrightarrow> NOT b \<noteq> 0" for b :: u8
proof -
  have "(0xff :: u8) = NOT 0"
    by simp
  then show ?thesis
    by (metis bit.double_compl)
qed

lemma not_scast_0: "NOT (scast (b :: u8) :: u32) \<noteq> 0 \<longleftrightarrow> (\<exists>j<8. \<not> bit b j)"
proof
  assume "NOT (scast b :: u32) \<noteq> 0"
  then obtain j where "j < 32" "bit (NOT (scast b :: u32)) j"
    using nonzero_bit by blast
  then show "\<exists>j<8. \<not> bit b j"
  proof (cases "j < 8")
    case False
    then have "\<not> bit b 7"
      using \<open>j < 32\<close> \<open>bit (NOT (scast b :: u32)) j\<close> by (simp add: bit_simps min_def split: if_splits)
    then show ?thesis
      by (intro exI [of _ 7]) simp
  qed (auto simp: scast_bit)
next
  assume "\<exists>j<8. \<not> bit b j"
  then obtain j where "j < 8" "bit (NOT (scast b :: u32)) j"
    using scast_bit by blast
  then show "NOT (scast b :: u32) \<noteq> 0"
    by auto
qed

lemma not_byte: "NOT b \<noteq> 0 \<longleftrightarrow> (\<exists>k<8. \<not> bit b (7 - k))" for b :: u8
  unfolding byte_ne0_msb by (auto simp: bit_simps)

interpretation clear_lsb0: bit_search lsb0 "\<lambda>b. found ctz (ucast b)" "found ctz" le32
proof
  fix b :: u8 and k
  assume f: "found ctz (ucast b) = Some k"
  then have "b \<noteq> 0"
    by (auto simp: found_def)
  then show "first_at (lsb0 b) 8 k"
    using first_at_byte [OF found_ctz [OF f], of "lsb0 b"] byte_ne0 [of b] by (simp add: lsb0_def ucast_bit)
next
  fix b :: u8 and k :: nat
  assume "found ctz (ucast b) = None" "k < 8"
  then show "\<not> lsb0 b k"
    using ucast_bit [of k b] by (simp add: found_None lsb0_def)
next
  fix bs :: "u8 list" and k
  assume "found ctz (le32 bs) = Some k"
  from first_at_cong [OF found_ctz [OF this] le32_bit] show "first_at (\<lambda>j. lsb0 (bs ! (j div 8)) (j mod 8)) 32 k"
    by (simp add: lsb0_def)
next
  fix bs :: "u8 list" and k :: nat
  assume "found ctz (le32 bs) = None" "k < 32"
  then show "\<not> lsb0 (bs ! (k div 8)) (k mod 8)"
    using le32_bit [of k bs] by (simp add: found_None lsb0_def)
qed

interpretation clear_msb0: bit_search msb0 "\<lambda>b. if b \<noteq> 0 then Some (clz (push_bit 24 (ucast b))) else None" "found clz" be32
proof
  fix b :: u8 and k
  assume f: "(if b \<noteq> 0 then Some (clz (push_bit 24 (ucast b))) else None) = Some k"
  then have b: "\<exists>j<8. msb0 b j"
    using byte_ne0_msb [of b] by (auto simp: msb0_def split: if_splits)
  then obtain j where "j < 8" "msb_at (push_bit 24 (ucast b)) j"
    using ucast_msb by blast
  then have "push_bit 24 (ucast b) \<noteq> (0 :: u32)"
    by (auto simp: msb_at_def)
  then have "found clz (push_bit 24 (ucast b)) = Some k"
    using f by (simp add: found_def split: if_splits)
  from first_at_byte [OF found_clz [OF this] ucast_msb b] show "first_at (msb0 b) 8 k"
    by simp
next
  fix b :: u8 and k :: nat
  assume "(if b \<noteq> 0 then Some (clz (push_bit 24 (ucast b))) else None) = None"
  then show "\<not> msb0 b k"
    by (simp add: msb0_def split: if_splits)
next
  fix bs :: "u8 list" and k
  assume "found clz (be32 bs) = Some k"
  from first_at_cong [OF found_clz [OF this] be32_bit] show "first_at (\<lambda>j. msb0 (bs ! (j div 8)) (j mod 8)) 32 k"
    by (simp add: msb0_def)
next
  fix bs :: "u8 list" and k :: nat
  assume "found clz (be32 bs) = None" "k < 32"
  then show "\<not> msb0 (bs ! (k div 8)) (k mod 8)"
    using be32_bit [of k bs] by (simp add: found_None msb0_def msb_at_def)
qed

interpretation set_lsb0: bit_search "\<lambda>b k. \<not> lsb0 b k" "\<lambda>b. found ctz (NOT (scast b))" "\<lambda>x. found ctz (NOT x)" le32
proof
  fix b :: u8 and k
  assume f: "found ctz (NOT (scast b)) = Some k"
  then have "\<exists>j<8. \<not> lsb0 b j"
    using not_scast_0 [of b] by (auto simp: found_def lsb0_def split: if_splits)
  then show "first_at (\<lambda>k. \<not> lsb0 b k) 8 k"
    using first_at_byte [OF found_ctz [OF f], of "\<lambda>k. \<not> lsb0 b k"] by (simp add: lsb0_def scast_bit)
next
  fix b :: u8 and k :: nat
  assume "found ctz (NOT (scast b)) = None" "k < 8"
  then show "\<not> \<not> lsb0 b k"
    using not_scast_0 [of b] by (auto simp: found_None lsb0_def)
next
  fix bs :: "u8 list" and k
  assume "found ctz (NOT (le32 bs)) = Some k"
  from found_ctz [OF this] show "first_at (\<lambda>j. \<not> lsb0 (bs ! (j div 8)) (j mod 8)) 32 k"
    by (rule first_at_cong) (simp add: lsb0_def le32_bit bit_simps)
next
  fix bs :: "u8 list" and k :: nat
  assume "found ctz (NOT (le32 bs)) = None" "k < 32"
  then have "bit (NOT (le32 bs)) k = False"
    by (simp add: found_None)
  then show "\<not> \<not> lsb0 (bs ! (k div 8)) (k mod 8)"
    using le32_bit [of k bs] \<open>k < 32\<close> by (simp add: lsb0_def bit_simps)
qed

interpretation set_msb0: bit_search "\<lambda>b k. \<not> msb0 b k" "\<lambda>b. if b \<noteq> 0xff then Some (clz (NOT (push_bit 24 (ucast b)))) else None"
  "\<lambda>x. found clz (NOT x)" be32
proof
  fix b :: u8 and k
  assume f: "(if b \<noteq> 0xff then Some (clz (NOT (push_bit 24 (ucast b)))) else None) = Some k"
  then have b: "\<exists>j<8. \<not> msb0 b j"
    using not_byte [of b] byte_ff [of b] by (auto simp: msb0_def split: if_splits)
  have m: "msb_at (NOT (push_bit 24 (ucast b))) j = (\<not> msb0 b j)" if "j < 8" for j
    using that by (auto simp: msb_at_def msb0_def bit_simps)
  then obtain j where "j < 8" "msb_at (NOT (push_bit 24 (ucast b))) j"
    using b by blast
  then have "NOT (push_bit 24 (ucast b)) \<noteq> (0 :: u32)"
    by (auto simp: msb_at_def)
  then have "found clz (NOT (push_bit 24 (ucast b))) = Some k"
    using f by (simp add: found_def split: if_splits)
  from first_at_byte [OF found_clz [OF this] m b] show "first_at (\<lambda>k. \<not> msb0 b k) 8 k"
    by simp
next
  fix b :: u8 and k :: nat
  assume "(if b \<noteq> 0xff then Some (clz (NOT (push_bit 24 (ucast b)))) else None) = None" "k < 8"
  then show "\<not> \<not> msb0 b k"
    using not_byte [of b] byte_ff [of b] by (auto simp: msb0_def split: if_splits)
next
  fix bs :: "u8 list" and k
  assume "found clz (NOT (be32 bs)) = Some k"
  from found_clz [OF this] show "first_at (\<lambda>j. \<not> msb0 (bs ! (j div 8)) (j mod 8)) 32 k"
    by (rule first_at_cong) (auto simp: msb0_def simp flip: be32_bit, auto simp: msb_at_def bit_simps)
next
  fix bs :: "u8 list" and k :: nat
  assume "found clz (NOT (be32 bs)) = None" "k < 32"
  then have "bit (NOT (be32 bs)) (31 - k) = False"
    by (simp add: found_None)
  then show "\<not> \<not> msb0 (bs ! (k div 8)) (k mod 8)"
    using be32_bit [of k bs] \<open>k < 32\<close> by (simp add: msb0_def msb_at_def bit_simps)
qed

text \<open>
  What a search returns: the first bit at or behind \<open>pfn\<close> with \<open>P\<close>, or the end of the bitmap. A
  search that is not \<open>exact\<close> may also stop at a byte boundary.
\<close>

definition skips_to :: "(nat \<Rightarrow> bool) \<Rightarrow> bool \<Rightarrow> nat \<Rightarrow> nat \<Rightarrow> nat \<Rightarrow> bool" where
  "skips_to P exact n a r \<longleftrightarrow> a \<le> r \<and> r \<le> n \<and> none_in P a r \<and> (r < n \<longrightarrow> P r \<or> \<not> exact \<and> 8 dvd r \<and> a < r)"

lemma shifted_first:
  assumes "first_at (\<lambda>j. Q (n + j)) (8 - n) k"
  shows "k \<le> 8 - n \<and> (\<forall>j<k. \<not> Q (n + j)) \<and> (k < 8 - n \<longrightarrow> Q (n + k))" and "k \<noteq> 8 - n"
  using assms by (auto simp: first_at_def)

lemma ctz_byte: "x \<noteq> 0 \<longrightarrow> first_at (lsb0 x) 8 (ctz (ucast x))" for x :: u8
  using byte_ne0 [of x] ucast_bit [of _ x] by (intro impI clear_lsb0.byte_hit) (auto simp: found_def)

lemma byte_zero: "x = 0 \<longrightarrow> (\<forall>j<8. \<not> lsb0 x j)" "x = 0 \<longrightarrow> (\<forall>j<8. \<not> msb0 x j)" for x :: u8
  by (simp_all add: lsb0_def msb0_def)

lemma clz_byte: "x \<noteq> 0 \<longrightarrow> first_at (msb0 x) 8 (clz (push_bit 24 (ucast x)))" for x :: u8
  by (rule impI, rule clear_msb0.byte_hit) simp

text \<open>The rest of the first byte: \<open>x\<close> is the shifted byte, \<open>m\<close> bits of it are left.\<close>

lemma rest_of_byte:
  assumes "x \<noteq> 0 \<longrightarrow> first_at P 8 (cnt x)" and "x = 0 \<longrightarrow> (\<forall>j<8. \<not> P j)" and "\<forall>j<m. P j = Q (n + j)" and "m \<le> 8"
    and "v = (if x \<noteq> 0 then Some (cnt x) else None)" and "\<forall>j<8. m \<le> j \<and> P j \<and> exact \<longrightarrow> (\<exists>i<m. P i)"
    and "\<forall>j<8. m \<le> j \<and> \<not> exact \<longrightarrow> P j"
  shows "v = Some k \<Longrightarrow> k \<le> m \<and> (\<forall>j<k. \<not> Q (n + j)) \<and> (k < m \<longrightarrow> Q (n + k))"
    and "v = None \<Longrightarrow> \<forall>j<m. \<not> Q (n + j)" and "v = Some k \<Longrightarrow> exact \<Longrightarrow> k \<noteq> m"
proof -
  show "v = None \<Longrightarrow> \<forall>j<m. \<not> Q (n + j)"
    using assms(2,3,4,5) by (auto split: if_splits)
  assume v: "v = Some k"
  then have f: "first_at P 8 k"
    using assms(1,5) by (auto split: if_splits)
  have k: "k < m \<or> \<not> exact \<and> k = m"
  proof (cases "k < m")
    case False
    then have nx: "\<not> exact"
      using f assms(6) by (auto simp: first_at_def)
    have "k \<le> m"
    proof (rule ccontr)
      assume "\<not> k \<le> m"
      then have "m < k"
        by simp
      moreover have "P m"
        using calculation f nx assms(7) by (auto simp: first_at_def)
      ultimately show False
        using f by (auto simp: first_at_def)
    qed
    then show ?thesis
      using False nx by simp
  qed simp
  show "k \<le> m \<and> (\<forall>j<k. \<not> Q (n + j)) \<and> (k < m \<longrightarrow> Q (n + k))"
    using f k assms(3) by (auto simp: first_at_def)
  show "exact \<Longrightarrow> k \<noteq> m"
    using k by auto
qed

lemma skips_toI:
  assumes "\<And>k. v = Some k \<Longrightarrow> k \<noteq> m"
    and "a \<le> r" and "r \<le> n" and "none_in P a r" and "r < n \<longrightarrow> P r \<or> v = Some m" and "v = Some m \<Longrightarrow> 8 dvd r"
  shows "skips_to P True n a r"
  using assms unfolding skips_to_def by blast

lemma bit_at_not: "bit_at (\<lambda>b k. \<not> P b k) bitmap = (\<lambda>i. \<not> bit_at P bitmap i)"
  by (simp add: bit_at_def fun_eq_iff)

lemma in_bitmap: "unat pfn < 8 * size' \<Longrightarrow> \<not> size' \<le> unat pfn div 8"
  by (simp add: not_le less_mult_imp_div_less mult.commute)

lemma skip_clear_lsb0_spec:
  assumes "unat pfn < 8 * size'" and "size' \<le> length bitmap" and "8 * size' < 2 ^ 64"
  shows "skips_to (bit_at lsb0 bitmap) True (8 * size') (unat pfn) (unat (skip_clear_lsb0 base bitmap size' pfn))"
proof -
  define n b x where "n = unat pfn mod 8" and "b = bitmap ! (unat pfn div 8)" and "x = drop_bit n b"
  define v where "v = (if x \<noteq> 0 then Some (ctz (ucast x)) else None)"
  have r: "skip_clear_lsb0 base bitmap size' pfn = (case v of Some k \<Rightarrow> pfn + of_nat k
      | None \<Rightarrow> skip_rest (\<lambda>b. found ctz (ucast b)) (found ctz) le32 base bitmap size' (unat pfn div 8 + 1) ((pfn OR 7) + 1))"
    using in_bitmap [OF assms(1)] unfolding skip_clear_lsb0_def Let_def pfn_byte pfn_bit by (simp add: v_def x_def n_def b_def)
  have h3: "\<forall>j<8 - n. lsb0 x j = lsb0 b (n + j)"
    by (simp add: lsb0_def x_def bit_drop_bit_eq)
  have h6: "\<forall>j<8. 8 - n \<le> j \<and> lsb0 x j \<and> True \<longrightarrow> (\<exists>i<8 - n. lsb0 x i)"
    by (auto simp: lsb0_def x_def bit_drop_bit_eq dest: u8_bit)
  have h7: "\<forall>j<8. 8 - n \<le> j \<and> \<not> True \<longrightarrow> lsb0 x j"
    by simp
  note rest = rest_of_byte [where P = "lsb0 x" and Q = "lsb0 b" and n = n and m = "8 - n" and x = x and exact = True
      and cnt = "\<lambda>x. ctz (ucast x)",
      OF ctz_byte byte_zero(1) h3 diff_le_self v_def h6 h7]
  note s = clear_lsb0.search_spec [OF assms, of v, folded n_def b_def, OF rest(1) rest(2) r]
  show ?thesis
    by (rule skips_toI [OF rest(3) [OF _ TrueI] s])
qed

lemma skip_clear_msb0_spec:
  assumes "unat pfn < 8 * size'" and "size' \<le> length bitmap" and "8 * size' < 2 ^ 64"
  shows "skips_to (bit_at msb0 bitmap) True (8 * size') (unat pfn) (unat (skip_clear_msb0 base bitmap size' pfn))"
proof -
  define n b x where "n = unat pfn mod 8" and "b = bitmap ! (unat pfn div 8)" and "x = push_bit n b"
  define v where "v = (if x \<noteq> 0 then Some (clz (push_bit 24 (ucast x))) else None)"
  have r: "skip_clear_msb0 base bitmap size' pfn = (case v of Some k \<Rightarrow> pfn + of_nat k
      | None \<Rightarrow> skip_rest (\<lambda>b. if b \<noteq> 0 then Some (clz (push_bit 24 (ucast b))) else None) (found clz) be32
          base bitmap size' (unat pfn div 8 + 1) ((pfn OR 7) + 1))"
    using in_bitmap [OF assms(1)] unfolding skip_clear_msb0_def Let_def pfn_byte pfn_bit by (simp add: v_def x_def n_def b_def)
  have h3: "\<forall>j<8 - n. msb0 x j = msb0 b (n + j)"
    by (auto simp: msb0_def x_def bit_push_bit_iff add.commute)
  have h6: "\<forall>j<8. 8 - n \<le> j \<and> msb0 x j \<and> True \<longrightarrow> (\<exists>i<8 - n. msb0 x i)"
    by (auto simp: msb0_def x_def bit_push_bit_iff)
  have h7: "\<forall>j<8. 8 - n \<le> j \<and> \<not> True \<longrightarrow> msb0 x j"
    by simp
  note rest = rest_of_byte [where P = "msb0 x" and Q = "msb0 b" and n = n and m = "8 - n" and x = x and exact = True
      and cnt = "\<lambda>x. clz (push_bit 24 (ucast x))",
      OF clz_byte byte_zero(2) h3 diff_le_self v_def h6 h7]
  note s = clear_msb0.search_spec [OF assms, of v, folded n_def b_def, OF rest(1) rest(2) r]
  show ?thesis
    by (rule skips_toI [OF rest(3) [OF _ TrueI] s])
qed

lemma skip_set_lsb0_spec:
  assumes "unat pfn < 8 * size'" and "size' \<le> length bitmap" and "8 * size' < 2 ^ 64"
  shows "skips_to (\<lambda>i. \<not> bit_at lsb0 bitmap i) True (8 * size') (unat pfn) (unat (skip_set_lsb0 base bitmap size' pfn))"
proof -
  define n b where "n = unat pfn mod 8" and "b = bitmap ! (unat pfn div 8)"
  define x where "x = (ucast (NOT (signed_drop_bit n (scast b) :: u32)) :: u8)"
  define v where "v = (if x \<noteq> 0 then Some (ctz (ucast x)) else None)"
  have r: "skip_set_lsb0 base bitmap size' pfn = (case v of Some k \<Rightarrow> pfn + of_nat k
      | None \<Rightarrow> skip_rest (\<lambda>b. found ctz (NOT (scast b))) (\<lambda>x. found ctz (NOT x)) le32
          base bitmap size' (unat pfn div 8 + 1) ((pfn OR 7) + 1))"
    using in_bitmap [OF assms(1)] unfolding skip_set_lsb0_def Let_def pfn_byte pfn_bit by (simp add: v_def x_def n_def b_def)
  have n: "n < 8"
    by (simp add: n_def)
  have x: "lsb0 x j = (\<not> bit b (if n + j < 8 then n + j else 7))" if "j < 8" for j
  proof (cases "n + j < 8")
    case True
    then show ?thesis
      using that by (cases "n + j = 7") (auto simp: lsb0_def x_def bit_simps min_def)
  next
    case False
    then show ?thesis
      using that n by (auto simp: lsb0_def x_def bit_simps min_def)
  qed
  have h3: "\<forall>j<8 - n. lsb0 x j = (\<not> lsb0 b (n + j))"
    using x n by (simp add: lsb0_def less_diff_conv add.commute)
  have h6: "\<forall>j<8. 8 - n \<le> j \<and> lsb0 x j \<and> True \<longrightarrow> (\<exists>i<8 - n. lsb0 x i)"
  proof (intro allI impI)
    fix j
    assume "j < 8" and "8 - n \<le> j \<and> lsb0 x j \<and> True"
    then have j: "8 - n \<le> j" "j < 8" "lsb0 x j"
      by simp_all
    then have "\<not> n + j < 8"
      by linarith
    then have "\<not> bit b 7"
      using x [OF j(2)] j(3) by simp
    then have "lsb0 x (7 - n)" "7 - n < 8 - n"
      using x [of "7 - n"] n by simp_all
    then show "\<exists>i<8 - n. lsb0 x i"
      by blast
  qed
  have h7: "\<forall>j<8. 8 - n \<le> j \<and> \<not> True \<longrightarrow> lsb0 x j"
    by simp
  note rest = rest_of_byte [where P = "lsb0 x" and Q = "\<lambda>i. \<not> lsb0 b i" and n = n and m = "8 - n" and x = x and exact = True
      and cnt = "\<lambda>x. ctz (ucast x)",
      OF ctz_byte byte_zero(1) h3 diff_le_self v_def h6 h7]
  note s = set_lsb0.search_spec [OF assms, of v, folded n_def b_def, OF rest(1) rest(2) r]
  show ?thesis
    using skips_toI [OF rest(3) [OF _ TrueI] s] unfolding bit_at_not .
qed

text \<open>
  Here the shift of the first byte brings in zeros, which are taken for clear bits: the search stops
  at the end of that byte at the latest.
\<close>

lemma skip_set_msb0_spec:
  assumes "unat pfn < 8 * size'" and "size' \<le> length bitmap" and "8 * size' < 2 ^ 64"
  shows "skips_to (\<lambda>i. \<not> bit_at msb0 bitmap i) False (8 * size') (unat pfn) (unat (skip_set_msb0 base bitmap size' pfn))"
proof -
  define n b where "n = unat pfn mod 8" and "b = bitmap ! (unat pfn div 8)"
  define x where "x = (ucast (NOT (push_bit n (ucast b :: u32))) :: u8)"
  define v where "v = (if x \<noteq> 0 then Some (clz (push_bit 24 (ucast x))) else None)"
  have r: "skip_set_msb0 base bitmap size' pfn = (case v of Some k \<Rightarrow> pfn + of_nat k
      | None \<Rightarrow> skip_rest (\<lambda>b. if b \<noteq> 0xff then Some (clz (NOT (push_bit 24 (ucast b)))) else None) (\<lambda>x. found clz (NOT x)) be32
          base bitmap size' (unat pfn div 8 + 1) ((pfn OR 7) + 1))"
    using in_bitmap [OF assms(1)] unfolding skip_set_msb0_def Let_def pfn_byte pfn_bit by (simp add: v_def x_def n_def b_def)
  have n: "n < 8"
    by (simp add: n_def)
  have x: "msb0 x j = (j < 8 - n \<longrightarrow> \<not> msb0 b (n + j))" if "j < 8" for j
    using that n by (auto simp: msb0_def x_def bit_simps add.commute)
  have h3: "\<forall>j<8 - n. msb0 x j = (\<not> msb0 b (n + j))"
    using x by simp
  have h6: "\<forall>j<8. 8 - n \<le> j \<and> msb0 x j \<and> False \<longrightarrow> (\<exists>i<8 - n. msb0 x i)"
    by simp
  have h7: "\<forall>j<8. 8 - n \<le> j \<and> \<not> False \<longrightarrow> msb0 x j"
    using x by simp
  note rest = rest_of_byte [where P = "msb0 x" and Q = "\<lambda>i. \<not> msb0 b i" and n = n and m = "8 - n" and x = x and exact = False
      and cnt = "\<lambda>x. clz (push_bit 24 (ucast x))",
      OF clz_byte byte_zero(2) h3 diff_le_self v_def h6 h7]
  note s = set_msb0.search_spec [OF assms, of v, folded n_def b_def, OF rest(1) rest(2) r]
  have "skip_set_msb0 base bitmap size' pfn \<noteq> pfn" if "v = Some (8 - n)"
  proof -
    have "(of_nat (8 - n) :: u64) \<noteq> 0"
      using n by (subst word_of_nat_eq_0_iff) (simp add: nat_dvd_not_less)
    then show ?thesis
      unfolding r that option.case by simp
  qed
  then have "unat (skip_set_msb0 base bitmap size' pfn) \<noteq> unat pfn" if "v = Some (8 - n)"
    using that by (simp add: word_unat_eq_iff)
  then have "r' < 8 * size' \<longrightarrow> \<not> bit_at msb0 bitmap r' \<or> 8 dvd r' \<and> unat pfn < r'"
    if "r' = unat (skip_set_msb0 base bitmap size' pfn)" for r'
    using s(1,4,5) that unfolding bit_at_not by (metis le_neq_implies_less)
  then show ?thesis
    using s(1-3) unfolding bit_at_not skips_to_def by blast
qed

end
