(* ===== verification/Pfn_Map.thy ===== *)
theory Pfn_Map
  imports Pfn_Bits
begin

section \<open>Page frame maps and bitmaps (src/kdumpfile/pfn.c, src/kdumpfile/bitmap.c)\<close>

text \<open>
  A page frame map lists the regions of page frame numbers that a file holds, each with the file
  position of its first page. The operations build a map from a page bitmap of the dump, look a page
  frame up, search for the next mapped or unmapped one, and write a range of the map as a bitmap.
\<close>

record pfn_region =
  rgn_pfn :: u64
  rgn_cnt :: u64
  rgn_pos :: u64

record pfn_file_map =
  regions :: "pfn_region list"
  fidx :: nat
  start_pfn :: u64
  end_pfn :: u64

subsection \<open>Adding and finding regions\<close>

text \<open>
  The region array grows in steps of \<open>RGN_ALLOC_INC\<close> elements; \<open>alloc num\<close> says whether \<open>realloc\<close>
  provides an array of \<open>num\<close> elements. A position has the type \<open>off_t\<close>, but it is the result of
  unsigned arithmetic. Array indices stay below \<open>SIZE_MAX div 24\<close> and do not wrap around.
\<close>

definition RGN_ALLOC_INC :: nat where
  "RGN_ALLOC_INC = 1024"

definition add_pfn_region :: "(nat \<Rightarrow> bool) \<Rightarrow> pfn_file_map \<Rightarrow> pfn_region \<Rightarrow> pfn_file_map option" where
  "add_pfn_region alloc map' rgn =
     (let nregions = length (regions map')
      in if nregions mod RGN_ALLOC_INC = 0 \<and> \<not> alloc (nregions + RGN_ALLOC_INC) then None
         else Some (map'\<lparr>regions := regions map' @ [rgn]\<rparr>))"

text \<open>A pointer to a region is its index in the array; a pointer to a map is the array from it on.\<close>

function find_region_loop :: "pfn_region list \<Rightarrow> u64 \<Rightarrow> nat \<Rightarrow> nat \<Rightarrow> nat option" where
  "find_region_loop rs pfn left right =
     (if left < right
      then let mid = (left + right) div 2; rgn = rs ! mid
           in if pfn < rgn_pfn rgn then find_region_loop rs pfn left mid
              else if pfn \<ge> rgn_pfn rgn + rgn_cnt rgn then find_region_loop rs pfn (mid + 1) right
              else Some mid
      else if right < length rs then Some right else None)"
  by auto
termination
  by (relation "measure (\<lambda>(rs, pfn, left, right). right - left)") auto

declare find_region_loop.simps [simp del]

definition find_pfn_region :: "pfn_file_map \<Rightarrow> u64 \<Rightarrow> nat option" where
  "find_pfn_region map' pfn = find_region_loop (regions map') pfn 0 (length (regions map'))"

fun find_pfn_file_map :: "pfn_file_map list \<Rightarrow> u64 \<Rightarrow> pfn_file_map list option" where
  "find_pfn_file_map [] pfn = None"
| "find_pfn_file_map (pfm # maps) pfn = (if pfn < end_pfn pfm then Some (pfm # maps) else find_pfn_file_map maps pfn)"

subsection \<open>Regions of a bitmap\<close>

text \<open>
  The loop of \<open>pfn_regions_from_bitmap\<close>. Nothing bounds it in general: if \<open>end_pfn + 7\<close> wraps around,
  the searches return their argument and the loop does not end. \<open>None\<close> is this case.
\<close>

partial_function (option) regions_loop ::
  "(nat \<Rightarrow> bool) \<Rightarrow> nat \<Rightarrow> u8 list \<Rightarrow> nat \<Rightarrow> bool \<Rightarrow> u64 \<Rightarrow> u64 \<Rightarrow> pfn_file_map \<Rightarrow> u64 \<Rightarrow> u64 \<Rightarrow> (kstatus \<times> pfn_file_map) option" where
  "regions_loop alloc base bitmap bitmapsize is_msb0 end' elemsz pfm pfn pos =
     (if pfn < end'
      then let rp = (if is_msb0 then skip_clear_msb0 base bitmap bitmapsize pfn else skip_clear_lsb0 base bitmap bitmapsize pfn);
               pfn = (if is_msb0 then skip_set_msb0 base bitmap bitmapsize rp else skip_set_lsb0 base bitmap bitmapsize rp);
               rp = (if rp > end' then end' else rp);
               pfn = (if pfn > end' then end' else pfn);
               cnt = pfn - rp
           in if cnt = 0 then regions_loop alloc base bitmap bitmapsize is_msb0 end' elemsz pfm pfn pos
              else case add_pfn_region alloc pfm \<lparr>rgn_pfn = rp, rgn_cnt = cnt, rgn_pos = pos\<rparr> of
                     None \<Rightarrow> Some (KDUMP_ERR_SYSTEM, pfm)
                   | Some pfm \<Rightarrow> regions_loop alloc base bitmap bitmapsize is_msb0 end' elemsz pfm pfn (pos + cnt * elemsz)
      else Some (KDUMP_OK, pfm))"

definition pfn_regions_from_bitmap ::
  "(nat \<Rightarrow> bool) \<Rightarrow> nat \<Rightarrow> pfn_file_map \<Rightarrow> u8 list \<Rightarrow> bool \<Rightarrow> u64 \<Rightarrow> u64 \<Rightarrow> u64 \<Rightarrow> u64 \<Rightarrow> (kstatus \<times> pfn_file_map) option" where
  "pfn_regions_from_bitmap alloc base pfm bitmap is_msb0 start' end' fileoff elemsz =
     regions_loop alloc base bitmap (unat (drop_bit 3 (end' + 7))) is_msb0 end' elemsz pfm start' fileoff"

subsection \<open>Searching a list of maps\<close>

definition find_mapped_pfn :: "pfn_file_map list \<Rightarrow> u64 \<Rightarrow> u64 option" where
  "find_mapped_pfn maps pfn =
     (case find_pfn_file_map maps pfn of
        None \<Rightarrow> None
      | Some pfms \<Rightarrow>
          (case find_pfn_region (hd pfms) pfn of
             None \<Rightarrow> None
           | Some i \<Rightarrow> let rgn = regions (hd pfms) ! i in Some (if rgn_pfn rgn > pfn then rgn_pfn rgn else pfn)))"

definition find_unmapped_pfn :: "pfn_file_map list \<Rightarrow> u64 \<Rightarrow> u64" where
  "find_unmapped_pfn maps pfn =
     (case find_pfn_file_map maps pfn of
        None \<Rightarrow> pfn
      | Some pfms \<Rightarrow>
          if start_pfn (hd pfms) \<le> pfn
          then (case find_pfn_region (hd pfms) pfn of
                  None \<Rightarrow> pfn
                | Some i \<Rightarrow> let rgn = regions (hd pfms) ! i in if rgn_pfn rgn \<le> pfn then rgn_pfn rgn + rgn_cnt rgn else pfn)
          else pfn)"

subsection \<open>Ranges of a raw bitmap\<close>

text \<open>
  \<open>or_byte\<close> and \<open>and_byte\<close> are the compound assignments, \<open>fill_bytes\<close> is \<open>memset\<close>. The masks have
  the type \<open>char\<close>; only their low eight bits reach the buffer.
\<close>

definition or_byte :: "nat \<Rightarrow> u8 \<Rightarrow> u8 list \<Rightarrow> u8 list" where
  "or_byte i m buf = buf[i := buf ! i OR m]"

definition and_byte :: "nat \<Rightarrow> u8 \<Rightarrow> u8 list \<Rightarrow> u8 list" where
  "and_byte i m buf = buf[i := buf ! i AND m]"

definition fill_bytes :: "nat \<Rightarrow> nat \<Rightarrow> u8 \<Rightarrow> u8 list \<Rightarrow> u8 list" where
  "fill_bytes i n c buf = take i buf @ replicate n c @ drop (i + n) buf"

definition range_masks :: "nat \<Rightarrow> nat \<Rightarrow> u8 \<times> u8" where
  "range_masks start' end' = (mask (start' mod 8), mask (end' mod 8 + 1))"

definition set_bits :: "u8 list \<Rightarrow> nat \<Rightarrow> nat \<Rightarrow> u8 list" where
  "set_bits buf start' end' =
     (let startbyte = start' div 8; endbyte = end' div 8; (startmask, endmask) = range_masks start' end'
      in if startbyte < endbyte
         then or_byte endbyte endmask
                (fill_bytes (startbyte + 1) (endbyte - (startbyte + 1)) 0xff (or_byte startbyte (NOT startmask) buf))
         else or_byte startbyte (NOT startmask AND endmask) buf)"

definition clear_bits :: "u8 list \<Rightarrow> nat \<Rightarrow> nat \<Rightarrow> u8 list" where
  "clear_bits buf start' end' =
     (let startbyte = start' div 8; endbyte = end' div 8; (startmask, endmask) = range_masks start' end'
      in if startbyte < endbyte
         then and_byte endbyte (NOT endmask)
                (fill_bytes (startbyte + 1) (endbyte - (startbyte + 1)) 0 (and_byte startbyte startmask buf))
         else and_byte startbyte (startmask OR NOT endmask) buf)"

subsection \<open>A range of the maps as a bitmap\<close>

text \<open>
  The loop of \<open>get_pfn_map_bits\<close>: \<open>rgns\<close> are the regions of the current map from \<open>rgn\<close> on, \<open>maps\<close>
  the maps behind it. \<open>None\<close> is an access outside the region arrays.
\<close>

function map_bits_loop :: "pfn_region list \<Rightarrow> pfn_file_map list \<Rightarrow> u64 \<Rightarrow> u64 \<Rightarrow> u64 \<Rightarrow> u8 list \<Rightarrow> u8 list option" where
  "map_bits_loop [] maps first cur last' bits = None"
| "map_bits_loop (rgn # rgns) maps first cur last' bits =
     (let next = rgn_pfn rgn
      in if cur < next \<and> next > last' then Some (clear_bits bits (unat (cur - first)) (unat (last' - first)))
         else
           let (bits, cur) = (if cur < next then (clear_bits bits (unat (cur - first)) (unat (next - 1 - first)), next)
                              else (bits, cur));
               next = next + (rgn_cnt rgn - 1)
           in if next \<ge> last' then Some (set_bits bits (unat (cur - first)) (unat (last' - first)))
              else
                let bits = set_bits bits (unat (cur - first)) (unat (next - first));
                    cur = next + 1
                in if rgns = []
                   then (case maps of
                           [] \<Rightarrow> None
                         | pfm # maps \<Rightarrow> map_bits_loop (regions pfm) maps first cur last' bits)
                   else map_bits_loop rgns maps first cur last' bits)"
  by pat_completeness auto
termination
  by (relation "measures [\<lambda>(rgns, maps, first, cur, last', bits). length maps, \<lambda>(rgns, maps, first, cur, last', bits). length rgns]")
    auto

definition get_pfn_map_bits :: "pfn_file_map list \<Rightarrow> u64 \<Rightarrow> u64 \<Rightarrow> u8 list \<Rightarrow> u8 list option" where
  "get_pfn_map_bits maps first last' bits =
     (let n = unat (drop_bit 3 (last' - first))
      in case find_pfn_file_map maps first of
           None \<Rightarrow> Some (fill_bytes 0 (n + 1) 0 bits)
         | Some pfms \<Rightarrow>
             (case find_pfn_region (hd pfms) first of
                None \<Rightarrow> Some (fill_bytes 0 (n + 1) 0 bits)
              | Some i \<Rightarrow>
                  let bits = bits[n := 0]; last_pfm = last maps
                  in if regions last_pfm = [] then None
                     else
                       let end_rgn = last (regions last_pfm); next = rgn_pfn end_rgn + rgn_cnt end_rgn;
                           (bits, last') = (if next \<le> last'
                                            then (clear_bits bits (unat (next - first)) (unat (last' - first)), next - 1)
                                            else (bits, last'))
                       in map_bits_loop (drop i (regions (hd pfms))) (tl pfms) first first last' bits))"

subsection \<open>Order of maps\<close>

text \<open>\<open>qsort\<close> orders by \<open>map_cmp\<close>; it leaves the order of maps with the same end open, here they keep theirs.\<close>

definition map_cmp :: "pfn_file_map \<Rightarrow> pfn_file_map \<Rightarrow> int" where
  "map_cmp mapa mapb = (if end_pfn mapa \<noteq> end_pfn mapb then (if end_pfn mapa > end_pfn mapb then 1 else - 1) else 0)"

definition sort_pfn_file_maps :: "pfn_file_map list \<Rightarrow> pfn_file_map list" where
  "sort_pfn_file_maps maps = foldr (\<lambda>m ms. takeWhile (\<lambda>x. map_cmp x m < 0) ms @ m # dropWhile (\<lambda>x. map_cmp x m < 0) ms) maps []"

subsection \<open>Bitmap objects\<close>

text \<open>
  A bitmap object has a reference count, the operations of the dump format with their private data,
  and the messages of its last error, the newest first. An operation gets the cleared messages.
\<close>

type_synonym errmsg = "string list"

record 'p bmp_ops =
  ops_get_bits :: "errmsg \<Rightarrow> 'p \<Rightarrow> u64 \<Rightarrow> u64 \<Rightarrow> u8 list \<Rightarrow> kstatus \<times> errmsg \<times> u8 list"
  ops_find_set :: "errmsg \<Rightarrow> 'p \<Rightarrow> u64 \<Rightarrow> kstatus \<times> errmsg \<times> u64"
  ops_find_clear :: "errmsg \<Rightarrow> 'p \<Rightarrow> u64 \<Rightarrow> kstatus \<times> errmsg \<times> u64"
  ops_cleanup :: "('p \<Rightarrow> 'p) option"

record 'p kdump_bmp =
  bmp_refcnt :: u64
  bmp_opers :: "'p bmp_ops"
  bmp_priv :: 'p
  bmp_err :: errmsg

definition kdump_bmp_new :: "bool \<Rightarrow> 'p bmp_ops \<Rightarrow> 'p \<Rightarrow> 'p kdump_bmp option" where
  "kdump_bmp_new alloc ops p =
     (if alloc then Some \<lparr>bmp_refcnt = 1, bmp_opers = ops, bmp_priv = p, bmp_err = []\<rparr> else None)"

definition kdump_bmp_incref :: "'p kdump_bmp \<Rightarrow> u64 \<times> 'p kdump_bmp" where
  "kdump_bmp_incref bmp = (bmp_refcnt bmp + 1, bmp\<lparr>bmp_refcnt := bmp_refcnt bmp + 1\<rparr>)"

text \<open>The new count, the object unless it has been freed, and the private data behind the clean-up.\<close>

definition kdump_bmp_decref :: "'p kdump_bmp \<Rightarrow> u64 \<times> 'p kdump_bmp option \<times> 'p" where
  "kdump_bmp_decref bmp =
     (let refcnt = bmp_refcnt bmp - 1
      in if refcnt = 0
         then (refcnt, None, case ops_cleanup (bmp_opers bmp) of Some f \<Rightarrow> f (bmp_priv bmp) | None \<Rightarrow> bmp_priv bmp)
         else (refcnt, Some (bmp\<lparr>bmp_refcnt := refcnt\<rparr>), bmp_priv bmp))"

definition kdump_bmp_get_err :: "'p kdump_bmp \<Rightarrow> errmsg" where
  "kdump_bmp_get_err bmp = bmp_err bmp"

definition kdump_bmp_get_bits :: "'p kdump_bmp \<Rightarrow> u64 \<Rightarrow> u64 \<Rightarrow> u8 list \<Rightarrow> kstatus \<times> 'p kdump_bmp \<times> u8 list" where
  "kdump_bmp_get_bits bmp first last' raw =
     (case ops_get_bits (bmp_opers bmp) [] (bmp_priv bmp) first last' raw of
        (status, err, raw) \<Rightarrow> (status, bmp\<lparr>bmp_err := err\<rparr>, raw))"

definition kdump_bmp_find_set :: "'p kdump_bmp \<Rightarrow> u64 \<Rightarrow> kstatus \<times> 'p kdump_bmp \<times> u64" where
  "kdump_bmp_find_set bmp idx =
     (case ops_find_set (bmp_opers bmp) [] (bmp_priv bmp) idx of (status, err, idx) \<Rightarrow> (status, bmp\<lparr>bmp_err := err\<rparr>, idx))"

definition kdump_bmp_find_clear :: "'p kdump_bmp \<Rightarrow> u64 \<Rightarrow> kstatus \<times> 'p kdump_bmp \<times> u64" where
  "kdump_bmp_find_clear bmp idx =
     (case ops_find_clear (bmp_opers bmp) [] (bmp_priv bmp) idx of (status, err, idx) \<Rightarrow> (status, bmp\<lparr>bmp_err := err\<rparr>, idx))"

end
