(* ===== verification/Pfn_Facts.thy ===== *)
theory Pfn_Facts
  imports Pfn_Map
begin

section \<open>Regions of a page bitmap\<close>

text \<open>
  A region list is well-formed if its regions are not empty, do not wrap around, and are in order
  without overlap. The lemmas give the meaning of the binary search and of the regions that
  \<open>pfn_regions_from_bitmap\<close> builds: they hold exactly the set bits, and a page frame has the position
  of its rank among the set bits.
\<close>

subsection \<open>Well-formed region lists\<close>

definition rgn_end :: "pfn_region \<Rightarrow> nat" where
  "rgn_end r = unat (rgn_pfn r) + unat (rgn_cnt r)"

definition in_rgn :: "pfn_region \<Rightarrow> nat \<Rightarrow> bool" where
  "in_rgn r p \<longleftrightarrow> unat (rgn_pfn r) \<le> p \<and> p < rgn_end r"

definition wf_regions :: "pfn_region list \<Rightarrow> bool" where
  "wf_regions rs \<longleftrightarrow> sorted_wrt (\<lambda>a b. rgn_end a \<le> unat (rgn_pfn b)) rs \<and> (\<forall>r\<in>set rs. 0 < unat (rgn_cnt r) \<and> rgn_end r < 2 ^ 64)"

definition mapped :: "pfn_region list \<Rightarrow> nat \<Rightarrow> bool" where
  "mapped rs p \<longleftrightarrow> (\<exists>r\<in>set rs. in_rgn r p)"

lemma unat_rgn_end: "rgn_end r < 2 ^ 64 \<Longrightarrow> unat (rgn_pfn r + rgn_cnt r) = rgn_end r"
  by (simp add: rgn_end_def unat_plus_no_overflow)

lemma wf_regions_Cons: "wf_regions (r # rs) \<longleftrightarrow>
    0 < unat (rgn_cnt r) \<and> rgn_end r < 2 ^ 64 \<and> (\<forall>b\<in>set rs. rgn_end r \<le> unat (rgn_pfn b)) \<and> wf_regions rs"
  by (auto simp: wf_regions_def)

lemma wf_regions_nth:
  assumes "wf_regions rs" and "i < j" and "j < length rs"
  shows "rgn_end (rs ! i) \<le> unat (rgn_pfn (rs ! j))"
  using assms by (auto simp: wf_regions_def sorted_wrt_iff_nth_less)

lemma wf_regions_at:
  assumes "wf_regions rs" and "i < length rs"
  shows "0 < unat (rgn_cnt (rs ! i))" and "rgn_end (rs ! i) < 2 ^ 64" and "unat (rgn_pfn (rs ! i)) < rgn_end (rs ! i)"
  using assms by (auto simp: wf_regions_def rgn_end_def)

subsection \<open>The binary search\<close>

text \<open>The first region that ends behind \<open>p\<close>, as a linear search finds it.\<close>

fun first_region :: "pfn_region list \<Rightarrow> nat \<Rightarrow> nat option" where
  "first_region [] p = None"
| "first_region (r # rs) p = (if p < rgn_end r then Some 0 else map_option Suc (first_region rs p))"

lemma first_region_None: "first_region rs p = None \<longleftrightarrow> (\<forall>r\<in>set rs. rgn_end r \<le> p)"
  by (induction rs) (auto simp: not_less)

lemma first_region_Some: "first_region rs p = Some i \<longleftrightarrow> i < length rs \<and> p < rgn_end (rs ! i) \<and> (\<forall>j<i. rgn_end (rs ! j) \<le> p)"
proof (induction rs arbitrary: i)
  case (Cons r rs)
  then show ?case
    by (cases i) (auto simp: All_less_Suc2 not_less)
qed simp

lemma find_region_loop_first:
  assumes "wf_regions rs" and "left \<le> right" and "right \<le> length rs"
    and "\<And>j. j < left \<Longrightarrow> rgn_end (rs ! j) \<le> unat pfn" and "right < length rs \<Longrightarrow> unat pfn < rgn_end (rs ! right)"
  shows "find_region_loop rs pfn left right = first_region rs (unat pfn)"
  using assms
proof (induction rs pfn left right rule: find_region_loop.induct)
  case (1 rs pfn left right)
  define mid where "mid = (left + right) div 2"
  show ?case
  proof (cases "left < right")
    case True
    then have mid: "left \<le> mid" "mid < right" "mid < length rs"
      using 1(5) by (auto simp: mid_def)
    note wf = wf_regions_at [OF 1(3) mid(3)]
    have e: "unat (rgn_pfn (rs ! mid) + rgn_cnt (rs ! mid)) = rgn_end (rs ! mid)"
      using wf(2) by (rule unat_rgn_end)
    have before: "rgn_end (rs ! j) \<le> unat (rgn_pfn (rs ! mid))" if "j < mid" for j
      using wf_regions_nth [OF 1(3) that mid(3)] .
    consider (below) "pfn < rgn_pfn (rs ! mid)" | (above) "\<not> pfn < rgn_pfn (rs ! mid)" "pfn \<ge> rgn_pfn (rs ! mid) + rgn_cnt (rs ! mid)"
      | (inside) "\<not> pfn < rgn_pfn (rs ! mid)" "\<not> pfn \<ge> rgn_pfn (rs ! mid) + rgn_cnt (rs ! mid)"
      by blast
    then show ?thesis
    proof cases
      case below
      then have "find_region_loop rs pfn left right = find_region_loop rs pfn left mid"
        using True by (simp add: find_region_loop.simps [of rs pfn left right] mid_def Let_def)
      also have "\<dots> = first_region rs (unat pfn)"
        using below mid wf(3) 1(3-) True
        by (intro 1(1)) (auto simp: mid_def word_less_nat_alt)
      finally show ?thesis .
    next
      case above
      then have "find_region_loop rs pfn left right = find_region_loop rs pfn (mid + 1) right"
        using True by (simp add: find_region_loop.simps [of rs pfn left right] mid_def Let_def)
      also have "\<dots> = first_region rs (unat pfn)"
      proof (rule 1(2) [OF True mid_def refl])
        show "wf_regions rs"
          by (rule 1(3))
        show "rgn_end (rs ! j) \<le> unat pfn" if "j < mid + 1" for j
        proof (cases "j = mid")
          case True
          then show ?thesis
            using above(2) e by (simp add: word_le_nat_alt)
        next
          case False
          then show ?thesis
            using that before [of j] above(1) by (simp add: word_less_nat_alt)
        qed
      qed (use above mid 1(4-) in simp_all)
      finally show ?thesis .
    next
      case inside
      then have "find_region_loop rs pfn left right = Some mid"
        using True by (simp add: find_region_loop.simps [of rs pfn left right] mid_def Let_def)
      also have "\<dots> = first_region rs (unat pfn)"
        using inside mid before e by (subst eq_commute) (force simp: first_region_Some word_less_nat_alt word_le_nat_alt)
      finally show ?thesis .
    qed
  next
    case False
    then have "left = right"
      using 1(4) by simp
    have "find_region_loop rs pfn right right = (if right < length rs then Some right else None)"
      by (simp add: find_region_loop.simps [of rs pfn right right])
    also have "\<dots> = first_region rs (unat pfn)"
      using 1(5-) \<open>left = right\<close>
      by (subst eq_commute) (auto simp: first_region_Some first_region_None in_set_conv_nth)
    finally show ?thesis
      by (simp add: \<open>left = right\<close>)
  qed
qed

lemma find_pfn_region_first: "wf_regions (regions pfm) \<Longrightarrow> find_pfn_region pfm pfn = first_region (regions pfm) (unat pfn)"
  unfolding find_pfn_region_def by (rule find_region_loop_first) auto

subsection \<open>One run of set bits\<close>

text \<open>\<open>runs\<close>: the regions of the set bits \<open>B\<close> between \<open>a\<close> and \<open>e\<close>, with a clear bit behind
  each of them if \<open>gap\<close>; \<open>rank\<close> counts set bits.\<close>

definition rank :: "(nat \<Rightarrow> bool) \<Rightarrow> nat \<Rightarrow> nat \<Rightarrow> nat" where
  "rank B a b = length (filter B [a..<b])"

inductive runs :: "bool \<Rightarrow> (nat \<Rightarrow> bool) \<Rightarrow> u64 \<Rightarrow> nat \<Rightarrow> nat \<Rightarrow> u64 \<Rightarrow> pfn_region list \<Rightarrow> bool" for gap B elemsz e where
  runs_Nil: "a \<le> e \<Longrightarrow> none_in B a e \<Longrightarrow> runs gap B elemsz e a pos []"
| runs_Cons: "a \<le> s \<Longrightarrow> s < t \<Longrightarrow> none_in B a s \<Longrightarrow> (\<And>i. s \<le> i \<Longrightarrow> i < t \<Longrightarrow> B i) \<Longrightarrow> unat (rgn_pfn r) = s \<Longrightarrow> rgn_end r = t
    \<Longrightarrow> rgn_pos r = pos \<Longrightarrow> (gap \<and> t < e \<longrightarrow> \<not> B t) \<Longrightarrow> runs gap B elemsz e t (pos + of_nat (t - s) * elemsz) rs \<Longrightarrow> runs gap B elemsz e a pos (r # rs)"

lemma rank_split: "a \<le> b \<Longrightarrow> b \<le> c \<Longrightarrow> rank B a c = rank B a b + rank B b c"
  unfolding rank_def by (metis filter_append length_append le_add_diff_inverse upt_add_eq_append)

lemma rank_none: "none_in B a b \<Longrightarrow> rank B a b = 0"
  by (simp add: rank_def filter_empty_conv)

lemma rank_all: "(\<And>i. a \<le> i \<Longrightarrow> i < b \<Longrightarrow> B i) \<Longrightarrow> rank B a b = b - a"
  by (simp add: rank_def filter_True)

lemma runs_le: "runs gap B elemsz e a pos rs \<Longrightarrow> a \<le> e"
  by (induction rule: runs.induct) auto

lemma runs_bounds:
  assumes "runs gap B elemsz e a pos rs"
  shows "\<forall>r\<in>set rs. a \<le> unat (rgn_pfn r) \<and> rgn_end r \<le> e"
  using assms
proof (induction rule: runs.induct)
  case (runs_Cons a s t r pos rs)
  have "t \<le> e"
    using runs_Cons(9) by (rule runs_le)
  then show ?case
    using runs_Cons(1,2,5,6,10) by auto
qed simp

lemma runs_wf:
  assumes "runs gap B elemsz e a pos rs" and "e < 2 ^ 64"
  shows "wf_regions rs"
  using assms(1)
proof (induction rule: runs.induct)
  case runs_Nil
  then show ?case
    by (simp add: wf_regions_def)
next
  case (runs_Cons a s t r pos rs)
  have "t \<le> e" "\<forall>r\<in>set rs. t \<le> unat (rgn_pfn r)"
    using runs_le [OF runs_Cons(9)] runs_bounds [OF runs_Cons(9)] by auto
  then show ?case
    using runs_Cons(2,5,6,10) assms(2) by (auto simp: wf_regions_Cons rgn_end_def)
qed

lemma mapped_Cons: "mapped (r # rs) p \<longleftrightarrow> in_rgn r p \<or> mapped rs p"
  by (simp add: mapped_def)

lemma runs_mapped:
  assumes "runs gap B elemsz e a pos rs" and "a \<le> p" and "p < e"
  shows "mapped rs p = B p"
  using assms(1,2)
proof (induction rule: runs.induct)
  case runs_Nil
  then show ?case
    using assms(3) by (simp add: mapped_def)
next
  case (runs_Cons a s t r pos rs)
  have later: "\<forall>r\<in>set rs. t \<le> unat (rgn_pfn r)"
    using runs_bounds [OF runs_Cons(9)] by auto
  consider "p < s" | "s \<le> p" "p < t" | "t \<le> p"
    by linarith
  then show ?case
  proof cases
    case 1
    then have "\<not> mapped rs p"
      using later runs_Cons(2) by (auto simp: mapped_def in_rgn_def)
    then show ?thesis
      using 1 runs_Cons(3,5,11) by (simp add: mapped_Cons in_rgn_def)
  next
    case 2
    then show ?thesis
      using runs_Cons(4-6) by (simp add: mapped_Cons in_rgn_def)
  next
    case 3
    then show ?thesis
      using runs_Cons(6,10) by (simp add: mapped_Cons in_rgn_def)
  qed
qed

lemma runs_pos:
  assumes "runs gap B elemsz e a pos rs" and "r \<in> set rs"
  shows "rgn_pos r = pos + of_nat (rank B a (unat (rgn_pfn r))) * elemsz"
  using assms
proof (induction rule: runs.induct)
  case (runs_Cons a s t q pos rs)
  show ?case
  proof (cases "r = q")
    case True
    then show ?thesis
      using runs_Cons(3,5,7) by (simp add: rank_none)
  next
    case False
    then have r: "r \<in> set rs" "t \<le> unat (rgn_pfn r)"
      using runs_Cons(11) runs_bounds [OF runs_Cons(9)] by auto
    have "rank B a (unat (rgn_pfn r)) = rank B a s + rank B s t + rank B t (unat (rgn_pfn r))"
      using r(2) runs_Cons(1,2) rank_split [of a s "unat (rgn_pfn r)" B] rank_split [of s t "unat (rgn_pfn r)" B] by simp
    also have "\<dots> = t - s + rank B t (unat (rgn_pfn r))"
      using rank_none [OF runs_Cons(3)] rank_all [of s t B] runs_Cons(4) by simp
    finally show ?thesis
      using runs_Cons(10) [OF r(1)] by (simp add: algebra_simps)
  qed
qed simp

subsection \<open>The loop\<close>

definition bit_of :: "bool \<Rightarrow> u8 list \<Rightarrow> nat \<Rightarrow> bool" where
  "bit_of is_msb0 bitmap = bit_at (if is_msb0 then msb0 else lsb0) bitmap"

definition next_set :: "bool \<Rightarrow> nat \<Rightarrow> u8 list \<Rightarrow> nat \<Rightarrow> u64 \<Rightarrow> u64" where
  "next_set is_msb0 base bitmap n pfn = (if is_msb0 then skip_clear_msb0 base bitmap n pfn else skip_clear_lsb0 base bitmap n pfn)"

definition next_clear :: "bool \<Rightarrow> nat \<Rightarrow> u8 list \<Rightarrow> nat \<Rightarrow> u64 \<Rightarrow> u64" where
  "next_clear is_msb0 base bitmap n pfn = (if is_msb0 then skip_set_msb0 base bitmap n pfn else skip_set_lsb0 base bitmap n pfn)"

lemma next_set_spec:
  assumes "unat pfn < 8 * n" and "n \<le> length bitmap" and "8 * n < 2 ^ 64"
  shows "skips_to (bit_of m bitmap) True (8 * n) (unat pfn) (unat (next_set m base bitmap n pfn))"
  using skip_clear_msb0_spec [OF assms] skip_clear_lsb0_spec [OF assms] by (simp add: next_set_def bit_of_def)

lemma next_clear_spec:
  assumes "unat pfn < 8 * n" and "n \<le> length bitmap" and "8 * n < 2 ^ 64"
  shows "skips_to (\<lambda>i. \<not> bit_of m bitmap i) (\<not> m) (8 * n) (unat pfn) (unat (next_clear m base bitmap n pfn))"
  using skip_set_msb0_spec [OF assms] skip_set_lsb0_spec [OF assms] by (cases m) (simp_all add: next_clear_def bit_of_def)

lemma next_behind: "8 * n \<le> unat pfn \<Longrightarrow> next_set m base bitmap n pfn = pfn" "8 * n \<le> unat pfn \<Longrightarrow> next_clear m base bitmap n pfn = pfn"
  by (simp_all add: next_set_def next_clear_def skip_clear_msb0_def skip_clear_lsb0_def skip_set_msb0_def skip_set_lsb0_def
      pfn_byte less_eq_div_iff_mult_less_eq mult.commute)

lemma regions_loop_step:
  "regions_loop alloc base bitmap n m end' elemsz pfm pfn pos =
     (if pfn < end'
      then let s = min (next_set m base bitmap n pfn) end'; t = min (next_clear m base bitmap n (next_set m base bitmap n pfn)) end'
           in if t = s then regions_loop alloc base bitmap n m end' elemsz pfm t pos
              else case add_pfn_region alloc pfm \<lparr>rgn_pfn = s, rgn_cnt = t - s, rgn_pos = pos\<rparr> of
                     None \<Rightarrow> Some (KDUMP_ERR_SYSTEM, pfm)
                   | Some pfm \<Rightarrow> regions_loop alloc base bitmap n m end' elemsz pfm t (pos + (t - s) * elemsz)
      else Some (KDUMP_OK, pfm))"
proof -
  have m: "(if x > end' then end' else x) = min x end'" for x
    by (auto simp: min_def)
  show ?thesis
    unfolding m regions_loop.simps [of alloc base bitmap n m end' elemsz pfm pfn pos]
    by (simp add: Let_def next_set_def next_clear_def)
qed

lemma unat_min: "unat (min x y) = min (unat x) (unat y)" for x y :: "'a::len word"
  by (simp add: min_def word_le_nat_alt)

lemma next_run:
  assumes "unat pfn < e" and "e \<le> 8 * n" and "n \<le> length bitmap" and "8 * n < 2 ^ 64"
    and "s = min (unat (next_set m base bitmap n pfn)) e"
    and "t = min (unat (next_clear m base bitmap n (next_set m base bitmap n pfn))) e"
  shows "unat pfn \<le> s" and "s \<le> t" and "t \<le> e" and "s = t \<longrightarrow> s = e" and "none_in (bit_of m bitmap) (unat pfn) s"
    and "\<forall>i. s \<le> i \<and> i < t \<longrightarrow> bit_of m bitmap i" and "\<not> m \<and> t < e \<longrightarrow> \<not> bit_of m bitmap t"
proof -
  define B where "B = bit_of m bitmap"
  define x y where "x = unat (next_set m base bitmap n pfn)" and "y = unat (next_clear m base bitmap n (next_set m base bitmap n pfn))"
  have x: "unat pfn \<le> x" "x \<le> 8 * n" "none_in B (unat pfn) x" "x < 8 * n \<longrightarrow> B x"
    using next_set_spec [of pfn n bitmap m base] assms(1-4) unfolding skips_to_def x_def B_def by auto
  have y: "x \<le> y" "\<forall>i. x \<le> i \<and> i < y \<longrightarrow> B i" "x = y \<longrightarrow> e \<le> x" "\<not> m \<and> y < e \<longrightarrow> \<not> B y"
  proof -
    have "x \<le> y \<and> (\<forall>i. x \<le> i \<and> i < y \<longrightarrow> B i) \<and> (x = y \<longrightarrow> e \<le> x) \<and> (\<not> m \<and> y < e \<longrightarrow> \<not> B y)"
    proof (cases "x < 8 * n")
      case True
      then have "skips_to (\<lambda>i. \<not> B i) (\<not> m) (8 * n) x y"
        using next_clear_spec [OF _ assms(3,4)] unfolding x_def y_def B_def by blast
      then show ?thesis
        using True x(4) assms(2) unfolding skips_to_def by (metis le_antisym less_le_trans not_less order.strict_iff_not)
    next
      case False
      then have "y = x"
        unfolding x_def y_def by (simp add: next_behind)
      then show ?thesis
        using False assms(2) by auto
    qed
    then show "x \<le> y" "\<forall>i. x \<le> i \<and> i < y \<longrightarrow> B i" "x = y \<longrightarrow> e \<le> x" "\<not> m \<and> y < e \<longrightarrow> \<not> B y"
      by blast+
  qed
  have st: "s = min x e" "t = min y e"
    using assms(5,6) by (simp_all add: x_def y_def)
  show "unat pfn \<le> s" "s \<le> t" "t \<le> e" "s = t \<longrightarrow> s = e"
    using st x(1) y(1,3) assms(1) by auto
  show "none_in (bit_of m bitmap) (unat pfn) s" "\<forall>i. s \<le> i \<and> i < t \<longrightarrow> bit_of m bitmap i" "\<not> m \<and> t < e \<longrightarrow> \<not> bit_of m bitmap t"
    using st x(3) y(2,4) unfolding B_def by auto
qed

lemma regions_loop_runs:
  assumes "unat end' \<le> 8 * n" and "n \<le> length bitmap" and "8 * n < 2 ^ 64" and "pfn \<le> end'"
  shows "\<exists>st rs. regions_loop alloc base bitmap n m end' elemsz pfm pfn pos = Some (st, pfm\<lparr>regions := regions pfm @ rs\<rparr>)
    \<and> (st = KDUMP_OK \<and> runs (\<not> m) (bit_of m bitmap) elemsz (unat end') (unat pfn) pos rs
       \<or> st = KDUMP_ERR_SYSTEM \<and> (\<exists>k. \<not> alloc k) \<and> (\<exists>b\<le>unat end'. runs (\<not> m) (bit_of m bitmap) elemsz b (unat pfn) pos rs))"
  using assms(4)
proof (induction "unat end' - unat pfn" arbitrary: pfm pfn pos rule: less_induct)
  case less
  let ?B = "bit_of m bitmap"
  define s t where "s = min (next_set m base bitmap n pfn) end'" and "t = min (next_clear m base bitmap n (next_set m base bitmap n pfn)) end'"
  show ?case
  proof (cases "pfn < end'")
    case False
    then have "pfn = end'"
      using less.prems by simp
    then show ?thesis
      by (intro exI [of _ KDUMP_OK] exI [of _ "[]"]) (auto simp: regions_loop_step intro!: runs_Nil)
  next
    case True
    then have lt: "unat pfn < unat end'"
      by (simp add: word_less_nat_alt)
    note run = next_run [OF lt assms(1-3) refl refl, where m = m and base = base, folded unat_min, folded s_def t_def]
    have step: "regions_loop alloc base bitmap n m end' elemsz pfm pfn pos =
        (if t = s then regions_loop alloc base bitmap n m end' elemsz pfm t pos
         else case add_pfn_region alloc pfm \<lparr>rgn_pfn = s, rgn_cnt = t - s, rgn_pos = pos\<rparr> of
                None \<Rightarrow> Some (KDUMP_ERR_SYSTEM, pfm)
              | Some pfm \<Rightarrow> regions_loop alloc base bitmap n m end' elemsz pfm t (pos + (t - s) * elemsz))"
      unfolding s_def t_def using True by (subst regions_loop_step) (simp only: Let_def if_True)
    show ?thesis
    proof (cases "t = s")
      case True
      then have "t = end'"
        using run(4) by (simp add: word_unat_eq_iff)
      then show ?thesis
        using True step run(1,5) lt
        by (intro exI [of _ KDUMP_OK] exI [of _ "[]"]) (auto simp: regions_loop_step [of _ _ _ _ _ _ _ _ "end'"] intro!: runs_Nil)
    next
      case ts: False
      define r where "r = \<lparr>rgn_pfn = s, rgn_cnt = t - s, rgn_pos = pos\<rparr>"
      have st: "unat s < unat t" "unat (t - s) = unat t - unat s"
        using ts run(2) by (auto simp: word_unat_eq_iff unat_sub word_le_nat_alt)
      have r: "unat (rgn_pfn r) = unat s" "rgn_pos r = pos" "of_nat (unat t - unat s) = t - s"
        by (simp_all add: r_def flip: st(2))
      moreover have "rgn_end r = unat t"
        using st by (simp add: r_def rgn_end_def)
      ultimately have r: "unat (rgn_pfn r) = unat s" "rgn_end r = unat t" "rgn_pos r = pos" "of_nat (unat t - unat s) = t - s"
        by blast+
      show ?thesis
      proof (cases "add_pfn_region alloc pfm r")
        case None
        then have "\<exists>k. \<not> alloc k"
          by (auto simp: add_pfn_region_def Let_def split: if_splits)
        then show ?thesis
          using ts None step lt
          by (intro exI [of _ KDUMP_ERR_SYSTEM] exI [of _ "[]"]) (auto simp: r_def intro!: exI [of _ "unat pfn"] runs_Nil)
      next
        case (Some pfm')
        then have pfm': "pfm' = pfm\<lparr>regions := regions pfm @ [r]\<rparr>"
          by (auto simp: add_pfn_region_def Let_def split: if_splits)
        have "t \<le> end'" "unat end' - unat t < unat end' - unat pfn"
          using run(1,3) st(1) lt by (simp_all add: word_le_nat_alt)
        note IH = less.hyps [OF this(2,1)]
        obtain st rs where IH: "regions_loop alloc base bitmap n m end' elemsz pfm' t (pos + (t - s) * elemsz) = Some (st, pfm'\<lparr>regions := regions pfm' @ rs\<rparr>)"
          "st = KDUMP_OK \<and> runs (\<not> m) ?B elemsz (unat end') (unat t) (pos + (t - s) * elemsz) rs
           \<or> st = KDUMP_ERR_SYSTEM \<and> (\<exists>k. \<not> alloc k) \<and> (\<exists>b\<le>unat end'. runs (\<not> m) ?B elemsz b (unat t) (pos + (t - s) * elemsz) rs)"
          by (rule exE [OF IH [of pfm' "pos + (t - s) * elemsz"]]) blast
        have cons: "runs (\<not> m) ?B elemsz b (unat pfn) pos (r # rs)"
          if "runs (\<not> m) ?B elemsz b (unat t) (pos + (t - s) * elemsz) rs" "b \<le> unat end'" for b
          by (rule runs_Cons [OF run(1) st(1) run(5) _ r(1-3)]) (use run(6,7) that r(4) in auto)
        have "regions_loop alloc base bitmap n m end' elemsz pfm pfn pos = Some (st, pfm\<lparr>regions := regions pfm @ r # rs\<rparr>)"
          using step ts Some IH(1) by (simp add: r_def pfm')
        then show ?thesis
          using IH(2) cons by blast
      qed
    qed
  qed
qed

end
