(* ===== verification/Pfn_Search.thy ===== *)
theory Pfn_Search
  imports Pfn_Facts
begin

section \<open>Searches in page frame maps\<close>

text \<open>
  The maps of a dump in the order of their files: what the next mapped and the next unmapped page frame
  are, and when the searches find them.
\<close>

subsection \<open>Well-formed lists of maps\<close>

definition wf_map :: "pfn_file_map \<Rightarrow> bool" where
  "wf_map m \<longleftrightarrow> wf_regions (regions m) \<and> start_pfn m \<le> end_pfn m
    \<and> (\<forall>r\<in>set (regions m). unat (start_pfn m) \<le> unat (rgn_pfn r) \<and> rgn_end r \<le> unat (end_pfn m))"

definition wf_maps :: "pfn_file_map list \<Rightarrow> bool" where
  "wf_maps maps \<longleftrightarrow> sorted_wrt (\<lambda>a b. end_pfn a \<le> start_pfn b) maps \<and> (\<forall>m\<in>set maps. wf_map m)"

definition maps_mapped :: "pfn_file_map list \<Rightarrow> nat \<Rightarrow> bool" where
  "maps_mapped maps p \<longleftrightarrow> (\<exists>m\<in>set maps. mapped (regions m) p)"

text \<open>Every map but the last one has a page at its end.\<close>

definition filled :: "pfn_file_map list \<Rightarrow> bool" where
  "filled maps \<longleftrightarrow> (\<forall>m\<in>set (butlast maps). regions m \<noteq> [] \<and> rgn_end (last (regions m)) = unat (end_pfn m))"

text \<open>No region starts where another one ends.\<close>

definition gaps :: "pfn_file_map list \<Rightarrow> bool" where
  "gaps maps \<longleftrightarrow> (\<forall>m\<in>set maps. \<forall>r\<in>set (regions m). \<not> maps_mapped maps (rgn_end r))"

lemma wf_maps_Cons: "wf_maps (m # maps) \<longleftrightarrow> wf_map m \<and> (\<forall>b\<in>set maps. end_pfn m \<le> start_pfn b) \<and> wf_maps maps"
  by (auto simp: wf_maps_def)

lemma maps_mapped_Cons: "maps_mapped (m # maps) p \<longleftrightarrow> mapped (regions m) p \<or> maps_mapped maps p"
  by (simp add: maps_mapped_def)

lemma wf_map_mapped:
  assumes "wf_map m" and "mapped (regions m) p"
  shows "unat (start_pfn m) \<le> p" and "p < unat (end_pfn m)"
  using assms by (auto simp: wf_map_def mapped_def in_rgn_def intro: order_trans dest: less_le_trans)

lemma wf_maps_later:
  assumes "wf_maps maps" and "\<forall>b\<in>set maps. e \<le> start_pfn b" and "maps_mapped maps p"
  shows "unat e \<le> p"
proof -
  obtain m where m: "m \<in> set maps" "mapped (regions m) p"
    using assms(3) by (auto simp: maps_mapped_def)
  then have "unat (start_pfn m) \<le> p"
    using assms(1) wf_map_mapped(1) [of m p] by (auto simp: wf_maps_def)
  then show ?thesis
    using assms(2) m(1) by (auto simp: word_le_nat_alt intro: order_trans)
qed

subsection \<open>The map of a page frame\<close>

text \<open>\<open>maps_at\<close>: the maps in front of \<open>pfms\<close> end at or before \<open>pfn\<close>, the first one of \<open>pfms\<close> behind it.\<close>

lemma find_pfn_file_map_Some:
  assumes "find_pfn_file_map maps pfn = Some pfms"
  shows "\<exists>front m rest. maps = front @ m # rest \<and> pfms = m # rest \<and> pfn < end_pfn m \<and> (\<forall>f\<in>set front. end_pfn f \<le> pfn)"
  using assms
proof (induction maps pfn rule: find_pfn_file_map.induct)
  case (2 pfm maps pfn)
  show ?case
  proof (cases "pfn < end_pfn pfm")
    case True
    then show ?thesis
      using 2(2) by (intro exI [of _ "[]"]) auto
  next
    case False
    then obtain front m rest where "maps = front @ m # rest \<and> pfms = m # rest \<and> pfn < end_pfn m \<and> (\<forall>f\<in>set front. end_pfn f \<le> pfn)"
      using 2 by auto
    then show ?thesis
      using False by (intro exI [of _ "pfm # front"] exI [of _ m] exI [of _ rest]) auto
  qed
qed simp

lemma find_pfn_file_map_None: "find_pfn_file_map maps pfn = None \<longleftrightarrow> (\<forall>m\<in>set maps. end_pfn m \<le> pfn)"
  by (induction maps pfn rule: find_pfn_file_map.induct) (auto simp: not_less)

lemma front_unmapped:
  assumes "wf_maps (front @ m # rest)" and "\<forall>f\<in>set front. end_pfn f \<le> pfn" and "unat pfn \<le> p"
  shows "maps_mapped (front @ m # rest) p = maps_mapped (m # rest) p"
proof -
  have "\<not> mapped (regions f) p" if "f \<in> set front" for f
  proof
    assume "mapped (regions f) p"
    then have "p < unat (end_pfn f)"
      using assms(1) that by (intro wf_map_mapped(2)) (auto simp: wf_maps_def)
    moreover have "unat (end_pfn f) \<le> unat pfn"
      using assms(2) that by (auto simp: word_le_nat_alt)
    ultimately show False
      using assms(3) by simp
  qed
  then show ?thesis
    by (auto simp: maps_mapped_def)
qed

lemma find_pfn_file_map_at:
  assumes "wf_maps maps" and "find_pfn_file_map maps pfn = Some pfms"
  obtains front m rest where "pfms = m # rest" and "maps = front @ m # rest" and "m \<in> set maps" and "pfn < end_pfn m" and "wf_map m" and "wf_regions (regions m)"
    and "\<And>p. unat pfn \<le> p \<Longrightarrow> maps_mapped maps p = (mapped (regions m) p \<or> maps_mapped rest p)"
    and "\<And>p. maps_mapped rest p \<Longrightarrow> unat (end_pfn m) \<le> p" and "rest \<noteq> [] \<Longrightarrow> m \<in> set (butlast maps)"
proof -
  obtain front m rest where d: "maps = front @ m # rest" "pfms = m # rest" "pfn < end_pfn m" "\<forall>f\<in>set front. end_pfn f \<le> pfn"
    using find_pfn_file_map_Some [OF assms(2)] by blast
  have wf: "wf_maps (m # rest)" "wf_map m" "wf_regions (regions m)" "\<forall>b\<in>set rest. end_pfn m \<le> start_pfn b"
    using assms(1) d(1) by (auto simp: wf_maps_def sorted_wrt_append wf_map_def)
  show ?thesis
  proof (rule that [OF d(2,1) _ d(3) wf(2,3)])
    show "m \<in> set maps"
      by (simp add: d(1))
    show "maps_mapped maps p = (mapped (regions m) p \<or> maps_mapped rest p)" if "unat pfn \<le> p" for p
      using front_unmapped [of front m rest pfn p] assms(1) d(1,4) that by (simp add: maps_mapped_Cons)
    show "unat (end_pfn m) \<le> p" if "maps_mapped rest p" for p
      using wf_maps_later [OF _ wf(4) that] wf(1) by (simp add: wf_maps_Cons)
    show "m \<in> set (butlast maps)" if "rest \<noteq> []"
      using that by (simp add: d(1) butlast_append)
  qed
qed

lemma find_pfn_file_map_behind:
  assumes "wf_maps maps" and "find_pfn_file_map maps pfn = None" and "unat pfn \<le> p"
  shows "\<not> maps_mapped maps p"
  using assms wf_map_mapped(2) unfolding find_pfn_file_map_None maps_mapped_def wf_maps_def
  by (metis leD order_trans word_le_nat_alt)

subsection \<open>The next mapped page frame\<close>

lemma first_region_unmapped:
  assumes "wf_regions rs" and "first_region rs p = Some i" and "p \<le> q" and "q < unat (rgn_pfn (rs ! i))"
  shows "\<not> mapped rs q"
proof
  assume "mapped rs q"
  then obtain j where j: "j < length rs" "in_rgn (rs ! j) q"
    by (auto simp: mapped_def in_set_conv_nth)
  have i: "i < length rs" "\<forall>j<i. rgn_end (rs ! j) \<le> p"
    using assms(2) by (auto simp: first_region_Some)
  consider "j < i" | "j = i" | "i < j"
    by linarith
  then show False
  proof cases
    case 1
    then show ?thesis
      using i(2) j(2) assms(3) by (auto simp: in_rgn_def)
  next
    case 2
    then show ?thesis
      using j(2) assms(4) by (simp add: in_rgn_def)
  next
    case 3
    then show ?thesis
      using wf_regions_nth [OF assms(1) 3 j(1)] wf_regions_at(3) [OF assms(1) i(1)] j(2) assms(4) by (simp add: in_rgn_def)
  qed
qed

lemma first_region_none_mapped: "first_region rs p = None \<Longrightarrow> p \<le> q \<Longrightarrow> \<not> mapped rs q"
  by (auto simp: first_region_None mapped_def in_rgn_def)

lemma find_mapped_spec:
  assumes "wf_maps maps" and "filled maps"
  shows "case find_mapped_pfn maps pfn of
      None \<Rightarrow> \<forall>q\<ge>unat pfn. \<not> maps_mapped maps q
    | Some q \<Rightarrow> unat pfn \<le> unat q \<and> maps_mapped maps (unat q) \<and> none_in (maps_mapped maps) (unat pfn) (unat q)"
proof (cases "find_pfn_file_map maps pfn")
  case None
  then show ?thesis
    using find_pfn_file_map_behind [OF assms(1) None] by (simp add: find_mapped_pfn_def)
next
  case (Some pfms)
  from find_pfn_file_map_at [OF assms(1) Some] obtain m rest where m: "pfms = m # rest" "m \<in> set maps" "pfn < end_pfn m"
    "wf_map m" "wf_regions (regions m)" and all: "\<And>p. unat pfn \<le> p \<Longrightarrow> maps_mapped maps p = (mapped (regions m) p \<or> maps_mapped rest p)"
    and later: "\<And>p. maps_mapped rest p \<Longrightarrow> unat (end_pfn m) \<le> p" and notlast: "rest \<noteq> [] \<Longrightarrow> m \<in> set (butlast maps)"
    by blast
  show ?thesis
  proof (cases "first_region (regions m) (unat pfn)")
    case None
    have "rest = []"
    proof (rule ccontr)
      assume "rest \<noteq> []"
      then have "regions m \<noteq> []" "rgn_end (last (regions m)) = unat (end_pfn m)"
        using assms(2) notlast by (auto simp: filled_def)
      then have "unat (end_pfn m) \<le> unat pfn"
        using None by (metis first_region_None last_in_set)
      then show False
        using m(3) by (simp add: word_less_nat_alt)
    qed
    then show ?thesis
      using Some m(1) find_pfn_region_first [OF m(5)] None all first_region_none_mapped [OF None]
      by (simp add: find_mapped_pfn_def maps_mapped_def)
  next
    case i: (Some i)
    define r q where "r = regions m ! i" and "q = (if rgn_pfn r > pfn then rgn_pfn r else pfn)"
    have r: "i < length (regions m)" "unat pfn < rgn_end r"
      using i by (auto simp: first_region_Some r_def)
    have res: "find_mapped_pfn maps pfn = Some q"
      using Some m(1) find_pfn_region_first [OF m(5)] i by (simp add: find_mapped_pfn_def Let_def r_def q_def)
    have "in_rgn r (unat q)"
      using r wf_regions_at(3) [OF m(5) r(1)] by (auto simp: in_rgn_def q_def r_def word_less_nat_alt)
    then have "mapped (regions m) (unat q)"
      using r(1) by (auto simp: mapped_def r_def intro!: bexI [of _ "regions m ! i"])
    moreover have "unat pfn \<le> unat q"
      by (simp add: q_def word_less_nat_alt)
    moreover have "\<not> maps_mapped maps p" if "unat pfn \<le> p" "p < unat q" for p
    proof -
      have "p < unat (rgn_pfn r)"
        using that by (auto simp: q_def split: if_splits)
      then have "\<not> mapped (regions m) p"
        using first_region_unmapped [OF m(5) i that(1)] by (simp add: r_def)
      moreover have "p < unat (end_pfn m)"
        using that(2) wf_map_mapped(2) [OF m(4) \<open>mapped (regions m) (unat q)\<close>] by simp
      ultimately show ?thesis
        using all [OF that(1)] later [of p] by auto
    qed
    ultimately show ?thesis
      using res all by simp
  qed
qed

subsection \<open>The next unmapped page frame\<close>

lemma find_unmapped_spec:
  assumes "wf_maps maps" and "gaps maps" and "q = unat (find_unmapped_pfn maps pfn)"
  shows "unat pfn \<le> q \<and> \<not> maps_mapped maps q \<and> (\<forall>p. unat pfn \<le> p \<and> p < q \<longrightarrow> maps_mapped maps p)"
proof (cases "find_pfn_file_map maps pfn")
  case None
  then show ?thesis
    using find_pfn_file_map_behind [OF assms(1) None, of q] assms(3) by (auto simp: find_unmapped_pfn_def)
next
  case (Some pfms)
  from find_pfn_file_map_at [OF assms(1) Some] obtain m rest where m: "pfms = m # rest" "m \<in> set maps" "pfn < end_pfn m"
    "wf_map m" "wf_regions (regions m)" and all: "\<And>p. unat pfn \<le> p \<Longrightarrow> maps_mapped maps p = (mapped (regions m) p \<or> maps_mapped rest p)"
    and later: "\<And>p. maps_mapped rest p \<Longrightarrow> unat (end_pfn m) \<le> p"
    by blast
  have here: ?thesis if "find_unmapped_pfn maps pfn = pfn" "\<not> mapped (regions m) (unat pfn)"
    using that assms(3) all [of "unat pfn"] later [of "unat pfn"] m(3) by (auto simp: word_less_nat_alt)
  note def = find_unmapped_pfn_def Some m(1) find_pfn_region_first [OF m(5)] Let_def
  show ?thesis
  proof (cases "start_pfn m \<le> pfn")
    case False
    then show ?thesis
      using wf_map_mapped(1) [OF m(4), of "unat pfn"] by (intro here) (auto simp: def word_le_nat_alt)
  next
    case start: True
    show ?thesis
    proof (cases "first_region (regions m) (unat pfn)")
      case None
      then show ?thesis
        using first_region_none_mapped [OF None] by (intro here) (simp_all add: def)
    next
      case i: (Some i)
      define r where "r = regions m ! i"
      have r: "i < length (regions m)" "unat pfn < rgn_end r" "rgn_end r < 2 ^ 64"
        using i wf_regions_at(2) [OF m(5)] by (auto simp: first_region_Some r_def)
      show ?thesis
      proof (cases "rgn_pfn r \<le> pfn")
        case False
        then show ?thesis
          using first_region_unmapped [OF m(5) i, of "unat pfn"] start i
          by (intro here) (auto simp: def r_def word_le_nat_alt not_le)
      next
        case True
        have "find_unmapped_pfn maps pfn = rgn_pfn r + rgn_cnt r"
          using True start i by (simp add: def r_def)
        then have q: "q = rgn_end r"
          using assms(3) unat_rgn_end [OF r(3)] by simp
        have "r \<in> set (regions m)"
          using r(1) by (simp add: r_def)
        moreover have "in_rgn r p" if "unat pfn \<le> p" "p < q" for p
          using that True q by (auto simp: in_rgn_def word_le_nat_alt)
        ultimately have "\<forall>p. unat pfn \<le> p \<and> p < q \<longrightarrow> maps_mapped maps p"
          using m(2) by (auto simp: maps_mapped_def mapped_def)
        moreover have "\<not> maps_mapped maps q"
          using assms(2) m(2) \<open>r \<in> set (regions m)\<close> by (auto simp: gaps_def q)
        ultimately show ?thesis
          using r(2) by (simp add: q)
      qed
    qed
  qed
qed

end
