(* ===== verification/Pfn_Raw.thy ===== *)
theory Pfn_Raw
  imports Pfn_Search
begin

section \<open>Page frame maps as raw bitmaps\<close>

text \<open>
  The exact effect of \<open>set_bits\<close> and \<open>clear_bits\<close> on every bit of the buffer, and the bitmap that
  \<open>get_pfn_map_bits\<close> writes.
\<close>

subsection \<open>Ranges of bits\<close>

lemma le_div_mod: "a \<le> b \<longleftrightarrow> a div 8 < b div 8 \<or> a div 8 = b div 8 \<and> a mod 8 \<le> b mod 8" for a b :: nat
proof -
  have "a = 8 * (a div 8) + a mod 8" "b = 8 * (b div 8) + b mod 8" "a mod 8 < 8" "b mod 8 < 8"
    by simp_all
  moreover have "(8 * x + i \<le> 8 * y + j) = (x < y \<or> x = y \<and> i \<le> j)" if "i < 8" "j < 8" for x y i j :: nat
    using that by (cases x y rule: linorder_cases) auto
  ultimately show ?thesis
    by metis
qed

lemma fill_bytes_nth: "i + n \<le> length buf \<Longrightarrow> k < length buf \<Longrightarrow>
    fill_bytes i n c buf ! k = (if i \<le> k \<and> k < i + n then c else buf ! k)"
  by (auto simp: fill_bytes_def nth_append)

lemma length_bytes [simp]:
  "length (or_byte i m buf) = length buf" "length (and_byte i m buf) = length buf"
  "i + n \<le> length buf \<Longrightarrow> length (fill_bytes i n c buf) = length buf"
  by (auto simp: or_byte_def and_byte_def fill_bytes_def)

lemma byte_nth:
  "k < length buf \<Longrightarrow> or_byte i m buf ! k = (if k = i then buf ! i OR m else buf ! k)"
  "k < length buf \<Longrightarrow> and_byte i m buf ! k = (if k = i then buf ! i AND m else buf ! k)"
  by (auto simp: or_byte_def and_byte_def nth_list_update)

lemma bit_at_lsb0: "bit_at lsb0 buf i = bit (buf ! (i div 8)) (i mod 8)"
  by (simp add: bit_at_def lsb0_def)

lemma bit_ff: "j < 8 \<Longrightarrow> bit (0xff :: int) j"
proof -
  have e: "(0xff :: int) = mask 8"
    by (simp add: mask_eq_exp_minus_1)
  show "j < 8 \<Longrightarrow> bit (0xff :: int) j"
    unfolding e bit_mask_iff by simp
qed

lemma set_bits_length [simp]: "s \<le> e \<Longrightarrow> e div 8 < length buf \<Longrightarrow> length (set_bits buf s e) = length buf"
  by (auto simp: set_bits_def range_masks_def Let_def)

lemma clear_bits_length [simp]: "s \<le> e \<Longrightarrow> e div 8 < length buf \<Longrightarrow> length (clear_bits buf s e) = length buf"
  by (auto simp: clear_bits_def range_masks_def Let_def)

lemma set_bits_bit:
  assumes "s \<le> e" and "e div 8 < length buf" and "i < 8 * length buf"
  shows "bit_at lsb0 (set_bits buf s e) i = (s \<le> i \<and> i \<le> e \<or> bit_at lsb0 buf i)"
proof -
  have k: "i div 8 < length buf" "s div 8 \<le> e div 8"
    using assms by (auto simp: div_le_mono)
  have r: "s \<le> i \<longleftrightarrow> s div 8 < i div 8 \<or> s div 8 = i div 8 \<and> s mod 8 \<le> i mod 8"
    "i \<le> e \<longleftrightarrow> i div 8 < e div 8 \<or> i div 8 = e div 8 \<and> i mod 8 \<le> e mod 8"
    by (rule le_div_mod)+
  show ?thesis
  proof (cases "s div 8 < e div 8")
    case True
    then show ?thesis
      using k assms(2) unfolding r bit_at_lsb0
      by (auto simp: set_bits_def range_masks_def Let_def byte_nth fill_bytes_nth bit_simps not_le not_less intro!: bit_ff)
  next
    case False
    then show ?thesis
      using k assms(2) unfolding r bit_at_lsb0
      by (auto simp: set_bits_def range_masks_def Let_def byte_nth bit_simps not_le not_less)
  qed
qed

lemma clear_bits_bit:
  assumes "s \<le> e" and "e div 8 < length buf" and "i < 8 * length buf"
  shows "bit_at lsb0 (clear_bits buf s e) i = (\<not> (s \<le> i \<and> i \<le> e) \<and> bit_at lsb0 buf i)"
proof -
  have k: "i div 8 < length buf" "s div 8 \<le> e div 8"
    using assms by (auto simp: div_le_mono)
  have r: "s \<le> i \<longleftrightarrow> s div 8 < i div 8 \<or> s div 8 = i div 8 \<and> s mod 8 \<le> i mod 8"
    "i \<le> e \<longleftrightarrow> i div 8 < e div 8 \<or> i div 8 = e div 8 \<and> i mod 8 \<le> e mod 8"
    by (rule le_div_mod)+
  show ?thesis
  proof (cases "s div 8 < e div 8")
    case True
    then show ?thesis
      using k assms(2) unfolding r bit_at_lsb0
      by (auto simp: clear_bits_def range_masks_def Let_def byte_nth fill_bytes_nth bit_simps not_le not_less)
  next
    case False
    then show ?thesis
      using k assms(2) unfolding r bit_at_lsb0
      by (auto simp: clear_bits_def range_masks_def Let_def byte_nth bit_simps not_le not_less)
  qed
qed

subsection \<open>A range of the maps\<close>

lemma all_wf:
  assumes "wf_maps maps"
  shows "wf_regions (concat (map regions maps))"
  using assms
proof (induction maps)
  case Nil
  then show ?case
    by (simp add: wf_regions_def)
next
  case (Cons m maps)
  have m: "wf_map m" "\<forall>b\<in>set maps. end_pfn m \<le> start_pfn b" "wf_maps maps"
    using Cons.prems by (simp_all add: wf_maps_Cons)
  have "rgn_end r \<le> unat (rgn_pfn q)" if "r \<in> set (regions m)" "b \<in> set maps" "q \<in> set (regions b)" for r b q
  proof -
    have "rgn_end r \<le> unat (end_pfn m)" "unat (start_pfn b) \<le> unat (rgn_pfn q)" "unat (end_pfn m) \<le> unat (start_pfn b)"
      using m that by (auto simp: wf_map_def wf_maps_def word_le_nat_alt)
    then show ?thesis
      by simp
  qed
  then show ?case
    using Cons.IH [OF m(3)] m(1) by (auto simp: wf_regions_def wf_map_def sorted_wrt_append)
qed

lemma mapped_concat: "mapped (concat (map regions maps)) p = maps_mapped maps p"
  by (auto simp: mapped_def maps_mapped_def)

lemma mapped_append: "mapped (xs @ ys) p \<longleftrightarrow> mapped xs p \<or> mapped ys p"
  by (auto simp: mapped_def)

text \<open>The bits from \<open>a\<close> to \<open>b\<close> of \<open>bits\<close> become those of \<open>M\<close>.\<close>

definition overwritten :: "(nat \<Rightarrow> bool) \<Rightarrow> nat \<Rightarrow> nat \<Rightarrow> u8 list \<Rightarrow> u8 list \<Rightarrow> bool" where
  "overwritten M a b bits bits' \<longleftrightarrow> length bits' = length bits
     \<and> (\<forall>i<8 * length bits. bit_at lsb0 bits' i = (if a \<le> i \<and> i \<le> b then M i else bit_at lsb0 bits i))"

lemma overwritten_set: "a \<le> b \<Longrightarrow> b div 8 < length bits \<Longrightarrow> \<forall>i. a \<le> i \<and> i \<le> b \<longrightarrow> M i \<Longrightarrow> overwritten M a b bits (set_bits bits a b)"
  by (auto simp: overwritten_def set_bits_bit)

lemma overwritten_clear: "a \<le> b \<Longrightarrow> b div 8 < length bits \<Longrightarrow> \<forall>i. a \<le> i \<and> i \<le> b \<longrightarrow> \<not> M i \<Longrightarrow> overwritten M a b bits (clear_bits bits a b)"
  by (auto simp: overwritten_def clear_bits_bit)

lemma overwritten_trans:
  assumes "overwritten M a b bits bits'" and "overwritten M (b + 1) c bits' bits''" and "a \<le> b + 1" and "b \<le> c"
  shows "overwritten M a c bits bits''"
  using assms by (auto simp: overwritten_def)

subsection \<open>The loop over the regions\<close>

definition rest_rgns :: "pfn_region list \<Rightarrow> pfn_file_map list \<Rightarrow> (pfn_region list \<times> pfn_file_map list) option" where
  "rest_rgns rgns maps = (if rgns = [] then (case maps of [] \<Rightarrow> None | m # ms \<Rightarrow> Some (regions m, ms)) else Some (rgns, maps))"

lemma rest_rgns_Some:
  assumes "rgns @ concat (map regions maps) \<noteq> []" and "\<forall>m\<in>set maps. regions m \<noteq> []"
  shows "\<exists>rgns' maps'. rest_rgns rgns maps = Some (rgns', maps') \<and> rgns' @ concat (map regions maps') = rgns @ concat (map regions maps)
    \<and> rgns' \<noteq> [] \<and> (\<forall>m\<in>set maps'. regions m \<noteq> [])"
  using assms by (cases rgns; cases maps) (auto simp: rest_rgns_def)

lemma map_bits_loop_clear: "cur < rgn_pfn rgn \<Longrightarrow> last' < rgn_pfn rgn \<Longrightarrow>
    map_bits_loop (rgn # rgns) maps first cur last' bits = Some (clear_bits bits (unat (cur - first)) (unat (last' - first)))"
  by simp

text \<open>The part of the step behind the clear bits in front of the region.\<close>

definition region_step :: "pfn_region \<Rightarrow> pfn_region list \<Rightarrow> pfn_file_map list \<Rightarrow> u64 \<Rightarrow> u64 \<Rightarrow> u64 \<Rightarrow> u8 list \<Rightarrow> u8 list option" where
  "region_step rgn rgns maps first cur last' bits =
     (if rgn_pfn rgn + (rgn_cnt rgn - 1) \<ge> last' then Some (set_bits bits (unat (cur - first)) (unat (last' - first)))
      else (case rest_rgns rgns maps of
              None \<Rightarrow> None
            | Some (rgns, maps) \<Rightarrow> map_bits_loop rgns maps first (rgn_pfn rgn + (rgn_cnt rgn - 1) + 1) last'
                (set_bits bits (unat (cur - first)) (unat (rgn_pfn rgn + (rgn_cnt rgn - 1) - first)))))"

lemma map_bits_loop_region: "\<not> (cur < rgn_pfn rgn \<and> last' < rgn_pfn rgn) \<Longrightarrow>
    map_bits_loop (rgn # rgns) maps first cur last' bits =
      (if cur < rgn_pfn rgn
       then region_step rgn rgns maps first (rgn_pfn rgn) last' (clear_bits bits (unat (cur - first)) (unat (rgn_pfn rgn - 1 - first)))
       else region_step rgn rgns maps first cur last' bits)"
  by (auto simp: region_step_def rest_rgns_def Let_def split: list.splits)

lemma unat_pred: "0 < unat x \<Longrightarrow> unat (x - 1) = unat x - 1" for x :: u64
  by (simp add: unat_sub word_le_nat_alt)

lemma rgn_last:
  assumes "0 < unat (rgn_cnt r)" and "rgn_end r < 2 ^ 64"
  shows "unat (rgn_pfn r + (rgn_cnt r - 1)) = rgn_end r - 1" and "unat (rgn_pfn r + (rgn_cnt r - 1) + 1) = rgn_end r"
proof -
  have "unat (rgn_pfn r) + unat (rgn_cnt r - 1) < 2 ^ 64"
    using assms unat_pred [OF assms(1)] by (simp add: rgn_end_def)
  then show "unat (rgn_pfn r + (rgn_cnt r - 1)) = rgn_end r - 1"
    using assms(1) unat_pred [OF assms(1)] by (simp add: unat_plus_no_overflow rgn_end_def)
  have "rgn_pfn r + (rgn_cnt r - 1) + 1 = rgn_pfn r + rgn_cnt r"
    by simp
  then show "unat (rgn_pfn r + (rgn_cnt r - 1) + 1) = rgn_end r"
    using unat_rgn_end [OF assms(2)] by simp
qed

lemma wf_regions_unmapped:
  assumes "wf_regions (r # R)"
  shows "p < unat (rgn_pfn r) \<Longrightarrow> \<not> mapped (r # R) p" and "rgn_end r \<le> p \<Longrightarrow> mapped (r # R) p = mapped R p"
    and "unat (rgn_pfn r) \<le> p \<Longrightarrow> p < rgn_end r \<Longrightarrow> mapped (r # R) p"
  using assms by (auto simp: wf_regions_Cons mapped_def in_rgn_def rgn_end_def dest!: bspec)

lemma div_8_mono: "a \<le> b \<Longrightarrow> b div 8 < n \<Longrightarrow> a div 8 < n" for a b n :: nat
  by (meson div_le_mono le_less_trans)

definition loop_ok :: "(nat \<Rightarrow> bool) \<Rightarrow> u64 \<Rightarrow> u64 \<Rightarrow> u64 \<Rightarrow> u8 list \<Rightarrow> u8 list option \<Rightarrow> bool" where
  "loop_ok M first cur last' bits res \<longleftrightarrow> (\<exists>bits'. res = Some bits' \<and> overwritten M (unat cur - unat first) (unat last' - unat first) bits bits')"

lemma region_step_ok:
  assumes "wf_regions (r # rgns @ concat (map regions maps))" and "\<forall>m\<in>set maps. regions m \<noteq> []"
    and "first \<le> cur" and "cur \<le> last'" and "unat (rgn_pfn r) \<le> unat cur" and "unat cur < rgn_end r"
    and "unat last' < rgn_end (last (r # rgns @ concat (map regions maps)))" and "(unat last' - unat first) div 8 < length bits"
    and "\<forall>i\<ge>unat cur - unat first. M i = mapped (r # rgns @ concat (map regions maps)) (unat first + i)"
    and IH: "\<And>rgns' maps' cur bits. rgns' @ concat (map regions maps') = rgns @ concat (map regions maps) \<Longrightarrow> rgns' \<noteq> [] \<Longrightarrow>
      \<forall>m\<in>set maps'. regions m \<noteq> [] \<Longrightarrow> first \<le> cur \<Longrightarrow> cur \<le> last' \<Longrightarrow> unat cur < rgn_end (hd rgns') \<Longrightarrow>
      (unat last' - unat first) div 8 < length bits \<Longrightarrow>
      \<forall>i\<ge>unat cur - unat first. M i = mapped (rgns @ concat (map regions maps)) (unat first + i) \<Longrightarrow>
      loop_ok M first cur last' bits (map_bits_loop rgns' maps' first cur last' bits)"
  shows "loop_ok M first cur last' bits (region_step r rgns maps first cur last' bits)"
proof -
  let ?R = "rgns @ concat (map regions maps)"
  have r: "0 < unat (rgn_cnt r)" "rgn_end r < 2 ^ 64" "wf_regions ?R" "\<forall>b\<in>set ?R. rgn_end r \<le> unat (rgn_pfn b)"
    using assms(1) unfolding wf_regions_Cons by blast+
  note e = rgn_last [OF r(1,2)]
  have le: "unat first \<le> unat cur" "unat cur \<le> unat last'"
    using assms(3,4) by (simp_all add: word_le_nat_alt)
  have sub: "unat (cur - first) = unat cur - unat first" "unat (last' - first) = unat last' - unat first"
    using assms(3,4) by (simp_all add: unat_sub)
  have set: "M i" if "unat cur - unat first \<le> i" "unat first + i < rgn_end r" for i
    using that assms(5,9) wf_regions_unmapped(3) [OF assms(1), of "unat first + i"] le by auto
  show ?thesis
  proof (cases "unat last' \<le> rgn_end r - 1")
    case True
    then have "region_step r rgns maps first cur last' bits = Some (set_bits bits (unat cur - unat first) (unat last' - unat first))"
      by (simp add: region_step_def sub word_le_nat_alt e)
    moreover have "overwritten M (unat cur - unat first) (unat last' - unat first) bits
        (set_bits bits (unat cur - unat first) (unat last' - unat first))"
      using le True assms(6,8) by (intro overwritten_set) (auto intro!: set)
    ultimately show ?thesis
      by (simp add: loop_ok_def)
  next
    case False
    define c where "c = rgn_pfn r + (rgn_cnt r - 1) + 1"
    have c: "unat c = rgn_end r" "first \<le> c" "c \<le> last'"
      using False le assms(6) e by (auto simp: c_def word_le_nat_alt)
    have n: "unat (rgn_pfn r + (rgn_cnt r - 1) - first) = rgn_end r - 1 - unat first"
      using e(1) le assms(6) by (simp add: unat_sub word_le_nat_alt)
    define bits1 where "bits1 = set_bits bits (unat cur - unat first) (rgn_end r - 1 - unat first)"
    have "(rgn_end r - 1 - unat first) div 8 < length bits"
      using False assms(8) by (intro div_8_mono [OF _ assms(8)]) simp
    then have b1: "overwritten M (unat cur - unat first) (rgn_end r - 1 - unat first) bits bits1"
      using le assms(6) unfolding bits1_def by (intro overwritten_set) (auto intro!: set)
    have "?R \<noteq> []"
    proof
      assume "?R = []"
      then have "last (r # ?R) = r"
        by (metis last.simps)
      then show False
        using False assms(7) by simp
    qed
    from rest_rgns_Some [OF this assms(2)] obtain rgns' maps' where rest: "rest_rgns rgns maps = Some (rgns', maps')"
      "rgns' @ concat (map regions maps') = ?R" "rgns' \<noteq> []" "\<forall>m\<in>set maps'. regions m \<noteq> []"
      by blast
    have "region_step r rgns maps first cur last' bits = map_bits_loop rgns' maps' first c last' bits1"
      using False by (simp add: region_step_def sub word_le_nat_alt e rest(1) n bits1_def c_def)
    moreover have "loop_ok M first c last' bits1 (map_bits_loop rgns' maps' first c last' bits1)"
    proof (rule IH [OF rest(2-4) c(2,3)])
      have "hd rgns' \<in> set ?R"
        using rest(3) by (simp flip: rest(2))
      then show "unat c < rgn_end (hd rgns')"
        using r(3,4) c(1) by (auto simp: wf_regions_def rgn_end_def dest!: bspec)
      show "(unat last' - unat first) div 8 < length bits1"
        using assms(8) b1 by (simp add: overwritten_def)
      show "\<forall>i\<ge>unat c - unat first. M i = mapped ?R (unat first + i)"
        using assms(6,9) le c(1) wf_regions_unmapped(2) [OF assms(1)] by auto
    qed
    moreover have "unat c - unat first = rgn_end r - 1 - unat first + 1"
      using c(1) le assms(6) by linarith
    ultimately obtain bits' where res: "region_step r rgns maps first cur last' bits = Some bits'"
      "overwritten M (rgn_end r - 1 - unat first + 1) (unat last' - unat first) bits1 bits'"
      unfolding loop_ok_def by metis
    show ?thesis
      using res(1) overwritten_trans [OF b1 res(2)] le assms(6) False by (auto simp: loop_ok_def)
  qed
qed

lemma map_bits_loop_ok:
  assumes "wf_regions R" and "R = rgns @ concat (map regions maps)" and "rgns \<noteq> []" and "\<forall>m\<in>set maps. regions m \<noteq> []"
    and "first \<le> cur" and "cur \<le> last'" and "unat cur < rgn_end (hd rgns)" and "unat last' < rgn_end (last R)"
    and "(unat last' - unat first) div 8 < length bits" and "\<forall>i\<ge>unat cur - unat first. M i = mapped R (unat first + i)"
  shows "loop_ok M first cur last' bits (map_bits_loop rgns maps first cur last' bits)"
  using assms
proof (induction R arbitrary: rgns maps cur bits)
  case (Cons r R)
  obtain rgns1 where rgns: "rgns = r # rgns1" and R: "R = rgns1 @ concat (map regions maps)"
    using Cons.prems(2,3) by (cases rgns) auto
  note prems = Cons.prems [unfolded R]
  have le: "unat first \<le> unat cur" "unat cur \<le> unat last'"
    using prems(5,6) by (simp_all add: word_le_nat_alt)
  have step: "loop_ok M first cur last' bits (region_step r rgns1 maps first cur last' bits)"
    if "first \<le> cur" "cur \<le> last'" "unat (rgn_pfn r) \<le> unat cur" "unat cur < rgn_end r" "(unat last' - unat first) div 8 < length bits"
      "\<forall>i\<ge>unat cur - unat first. M i = mapped (r # rgns1 @ concat (map regions maps)) (unat first + i)" for cur bits
  proof (rule region_step_ok [OF prems(1,4) that(1-4) prems(8) that(5,6)])
    show "loop_ok M first c last' b (map_bits_loop rgns' maps' first c last' b)"
      if "rgns' @ concat (map regions maps') = rgns1 @ concat (map regions maps)" "rgns' \<noteq> []" "\<forall>m\<in>set maps'. regions m \<noteq> []"
        "first \<le> c" "c \<le> last'" "unat c < rgn_end (hd rgns')" "(unat last' - unat first) div 8 < length b"
        "\<forall>i\<ge>unat c - unat first. M i = mapped (rgns1 @ concat (map regions maps)) (unat first + i)" for rgns' maps' c b
    proof (rule Cons.IH [OF _ _ that(2-6) _ that(7)])
      show "wf_regions R" "R = rgns' @ concat (map regions maps')"
        using Cons.prems(1) that(1) by (simp_all add: wf_regions_Cons R)
      show "unat last' < rgn_end (last R)"
        using prems(8) that(1,2) unfolding R by (metis append_is_Nil_conv last.simps)
      show "\<forall>i\<ge>unat c - unat first. M i = mapped R (unat first + i)"
        using that(8) by (simp add: R)
    qed
  qed
  show ?case
  proof (cases "cur < rgn_pfn r \<and> last' < rgn_pfn r")
    case True
    have "overwritten M (unat cur - unat first) (unat last' - unat first) bits (clear_bits bits (unat cur - unat first) (unat last' - unat first))"
      using True prems(9,10) le wf_regions_unmapped(1) [OF prems(1)] by (intro overwritten_clear) (auto simp: word_less_nat_alt)
    then show ?thesis
      using True prems(5,6) by (simp add: rgns loop_ok_def unat_sub order_trans)
  next
    case False
    note eq = map_bits_loop_region [OF False, of rgns1 maps first bits]
    show ?thesis
    proof (cases "cur < rgn_pfn r")
      case no: False
      then show ?thesis
        using step [of cur bits] prems(5-10) eq by (simp add: rgns word_less_nat_alt not_less)
    next
      case True
      define b where "b = clear_bits bits (unat cur - unat first) (unat (rgn_pfn r) - 1 - unat first)"
      have p: "unat cur < unat (rgn_pfn r)" "rgn_pfn r \<le> last'" "unat (rgn_pfn r) \<le> unat last'" "first \<le> rgn_pfn r" "unat (rgn_pfn r) < rgn_end r"
        using True False le prems(1) by (auto simp: word_less_nat_alt word_le_nat_alt wf_regions_Cons rgn_end_def)
      have "unat (rgn_pfn r - 1 - first) = unat (rgn_pfn r) - 1 - unat first"
        using p(1) le(1) by (simp add: unat_sub word_le_nat_alt unat_pred)
      then have run: "map_bits_loop rgns maps first cur last' bits = region_step r rgns1 maps first (rgn_pfn r) last' b"
        using True prems(5) eq by (simp add: rgns b_def unat_sub)
      have "(unat (rgn_pfn r) - 1 - unat first) div 8 < length bits"
        using p(3) by (intro div_8_mono [OF _ prems(9)]) simp
      then have b: "overwritten M (unat cur - unat first) (unat (rgn_pfn r) - 1 - unat first) bits b"
        using p(1) le(1) prems(10) wf_regions_unmapped(1) [OF prems(1)] unfolding b_def by (intro overwritten_clear) auto
      have "loop_ok M first (rgn_pfn r) last' b (region_step r rgns1 maps first (rgn_pfn r) last' b)"
        using p(1) le(1) prems(9,10) b by (intro step [OF p(4,2) le_refl p(5)]) (auto simp: overwritten_def)
      moreover have "unat (rgn_pfn r) - unat first = unat (rgn_pfn r) - 1 - unat first + 1"
        using p(1) le(1) by linarith
      ultimately obtain bits' where "map_bits_loop rgns maps first cur last' bits = Some bits'"
        "overwritten M (unat (rgn_pfn r) - 1 - unat first + 1) (unat last' - unat first) b bits'"
        unfolding loop_ok_def run by metis
      then show ?thesis
        using overwritten_trans [OF b] p(1,3) le by (auto simp: loop_ok_def)
    qed
  qed
qed simp

subsection \<open>The whole range\<close>

definition range_bits :: "(nat \<Rightarrow> bool) \<Rightarrow> nat \<Rightarrow> u8 list \<Rightarrow> u8 list \<Rightarrow> bool" where
  "range_bits M N bits bits' \<longleftrightarrow> length bits' = length bits
     \<and> (\<forall>i<8 * length bits. bit_at lsb0 bits' i = (if i \<le> N then M i else i div 8 \<noteq> N div 8 \<and> bit_at lsb0 bits i))"

lemma range_bits_zero:
  assumes "N div 8 < length bits" and "\<forall>i. \<not> M i"
  shows "range_bits M N bits (fill_bytes 0 (N div 8 + 1) 0 bits)"
proof -
  have "bit_at lsb0 (fill_bytes 0 (N div 8 + 1) 0 bits) i = (\<not> i \<le> N \<and> i div 8 \<noteq> N div 8 \<and> bit_at lsb0 bits i)"
    if "i < 8 * length bits" for i
    using that assms(1) le_div_mod [of i N] by (auto simp: bit_at_lsb0 fill_bytes_nth)
  then show ?thesis
    using assms by (simp add: range_bits_def)
qed

lemma range_bitsI:
  assumes "overwritten M 0 N (bits[N div 8 := 0]) bits'" and "N div 8 < length bits"
  shows "range_bits M N bits bits'"
proof -
  have "bit_at lsb0 (bits[N div 8 := 0]) i = (i div 8 \<noteq> N div 8 \<and> bit_at lsb0 bits i)" for i
    using assms(2) by (cases "i div 8 = N div 8") (simp_all add: bit_at_lsb0)
  then show ?thesis
    using assms by (simp add: overwritten_def range_bits_def)
qed

lemma wf_regions_append: "wf_regions (xs @ ys) \<Longrightarrow> wf_regions ys"
  by (auto simp: wf_regions_def sorted_wrt_append)

lemma wf_regions_last:
  assumes "wf_regions R" and "r \<in> set R"
  shows "rgn_end r \<le> rgn_end (last R)"
  using assms
proof (induction R)
  case (Cons q R)
  show ?case
  proof (cases "r = q \<and> R \<noteq> []")
    case True
    then have "rgn_end r \<le> unat (rgn_pfn (last R))"
      using Cons.prems(1) by (simp add: wf_regions_Cons)
    then show ?thesis
      using True by (simp add: rgn_end_def)
  next
    case False
    then show ?thesis
      using Cons by (auto simp: wf_regions_Cons)
  qed
qed simp

lemma mapped_drop:
  assumes "first_region rs p = Some i" and "p \<le> q"
  shows "mapped (drop i rs) q = mapped rs q"
proof -
  have "\<not> in_rgn (rs ! j) q" if "j < i" for j
    using assms that by (auto simp: first_region_Some in_rgn_def not_less intro: order_trans)
  then have "\<not> mapped (take i rs) q"
    by (auto simp: mapped_def in_set_conv_nth)
  then show ?thesis
    using mapped_append [of "take i rs" "drop i rs" q] by simp
qed

lemma overwritten_front:
  assumes "overwritten M a N bits bits1" and "overwritten M 0 b bits1 bits'" and "a \<le> b + 1" and "b \<le> N"
  shows "overwritten M 0 N bits bits'"
  using assms by (auto simp: overwritten_def)

lemma last_all:
  assumes "maps \<noteq> []" and "regions (last maps) \<noteq> []"
  shows "last (concat (map regions maps)) = last (regions (last maps))"
proof -
  have "last (concat (map regions (butlast maps @ [last maps]))) = last (regions (last maps))"
    using assms(2) by simp
  then show ?thesis
    unfolding append_butlast_last_id [OF assms(1)] .
qed

lemma get_pfn_map_bits_spec:
  assumes "wf_maps maps" and "filled maps" and "\<forall>m\<in>set (tl maps). regions m \<noteq> []" and "first \<le> last'"
    and "N = unat last' - unat first" and "N div 8 < length bits"
  shows "\<exists>bits'. get_pfn_map_bits maps first last' bits = Some bits' \<and> range_bits (\<lambda>i. maps_mapped maps (unat first + i)) N bits bits'"
proof -
  let ?M = "\<lambda>i. maps_mapped maps (unat first + i)"
  have le: "unat first \<le> unat last'"
    using assms(4) by (simp add: word_le_nat_alt)
  have n: "unat (last' - first) = N"
    using assms(4,5) by (simp add: unat_sub)
  note mspec = find_mapped_spec [OF assms(1,2), of first]
  have zero: ?thesis if "get_pfn_map_bits maps first last' bits = Some (fill_bytes 0 (N div 8 + 1) 0 bits)" "find_mapped_pfn maps first = None"
    using that mspec range_bits_zero [OF assms(6), of ?M] by auto
  show ?thesis
  proof (cases "find_pfn_file_map maps first")
    case None
    then show ?thesis
      by (intro zero) (simp_all add: get_pfn_map_bits_def find_mapped_pfn_def pfn_byte n)
  next
    case (Some pfms)
    from find_pfn_file_map_at [OF assms(1) Some] obtain front m rest where m: "pfms = m # rest" "maps = front @ m # rest"
      "wf_regions (regions m)" and all: "\<And>p. unat first \<le> p \<Longrightarrow> maps_mapped maps p = (mapped (regions m) p \<or> maps_mapped rest p)"
      by blast
    show ?thesis
    proof (cases "find_pfn_region m first")
      case None
      then show ?thesis
        using Some m(1) by (intro zero) (simp_all add: get_pfn_map_bits_def find_mapped_pfn_def pfn_byte n)
    next
      case i: (Some i)
      define R where "R = drop i (regions m) @ concat (map regions rest)"
      have fr: "first_region (regions m) (unat first) = Some i"
        using i find_pfn_region_first [OF m(3)] by simp
      then have hd: "i < length (regions m)" "unat first < rgn_end (regions m ! i)"
        by (simp_all add: first_region_Some)
      have R: "concat (map regions maps) = (concat (map regions front) @ take i (regions m)) @ R" "R \<noteq> []"
        using hd(1) by (simp_all add: m(2) R_def)
      have wf: "wf_regions R"
        using all_wf [OF assms(1)] unfolding R(1) by (rule wf_regions_append)
      have MR: "mapped R p = maps_mapped maps p" if "unat first \<le> p" for p
        using mapped_drop [OF fr that] all [OF that] by (simp add: R_def mapped_append mapped_concat)
      define r where "r = last (regions (last maps))"
      have nonempty: "maps \<noteq> []" "regions (last maps) \<noteq> []"
        using hd(1) assms(3) m(2) by (cases "rest = []"; cases front; force)+
      then have r: "last R = r"
        using last_all [OF nonempty] R by (simp add: r_def)
      have E: "rgn_end r < 2 ^ 64" "unat (rgn_pfn r + rgn_cnt r) = rgn_end r" "unat first < rgn_end r"
      proof -
        show "rgn_end r < 2 ^ 64"
          using wf R(2) r by (auto simp: wf_regions_def)
        then show "unat (rgn_pfn r + rgn_cnt r) = rgn_end r"
          by (rule unat_rgn_end)
        have "regions m ! i \<in> set R"
          using hd(1) by (auto simp: R_def Cons_nth_drop_Suc [symmetric])
        then show "unat first < rgn_end r"
          using wf_regions_last [OF wf] hd(2) r by fastforce
      qed
      define bits0 where "bits0 = bits[N div 8 := 0]"
      have N: "N div 8 < length bits0"
        using assms(6) by (simp add: bits0_def)
      have loop: "loop_ok ?M first first l b (map_bits_loop (drop i (regions m)) rest first first l b)"
        if "first \<le> l" "unat l < rgn_end r" "(unat l - unat first) div 8 < length b" for l b
      proof (rule map_bits_loop_ok [OF wf R_def _ _ order_refl that(1) _ _ that(3)])
        show "drop i (regions m) \<noteq> []" "unat first < rgn_end (hd (drop i (regions m)))" "unat l < rgn_end (last R)"
          using hd that(2) r by (simp_all add: hd_drop_conv_nth)
        show "\<forall>m\<in>set rest. regions m \<noteq> []"
          using assms(3) by (cases front) (simp_all add: m(2))
        show "\<forall>i\<ge>unat first - unat first. ?M i = mapped R (unat first + i)"
          using MR by simp
      qed
      have run: "get_pfn_map_bits maps first last' bits =
          (if rgn_pfn r + rgn_cnt r \<le> last'
           then map_bits_loop (drop i (regions m)) rest first first (rgn_pfn r + rgn_cnt r - 1)
             (clear_bits bits0 (unat (rgn_pfn r + rgn_cnt r - first)) N)
           else map_bits_loop (drop i (regions m)) rest first first last' bits0)"
        using Some i nonempty(2) by (simp add: get_pfn_map_bits_def m(1) pfn_byte n Let_def bits0_def r_def)
      have "\<exists>bits'. get_pfn_map_bits maps first last' bits = Some bits' \<and> overwritten ?M 0 N bits0 bits'"
      proof (cases "rgn_pfn r + rgn_cnt r \<le> last'")
        case False
        then show ?thesis
          using loop [of last' bits0] N assms(4,5) E(2) by (simp add: run loop_ok_def word_le_nat_alt)
      next
        case True
        define e where "e = rgn_pfn r + rgn_cnt r"
        define b where "b = clear_bits bits0 (rgn_end r - unat first) N"
        have e: "unat e = rgn_end r" "rgn_end r \<le> unat last'" "unat (e - first) = rgn_end r - unat first" "unat (e - 1) = rgn_end r - 1"
          using True E by (simp_all add: e_def word_le_nat_alt unat_sub unat_pred)
        have "\<not> ?M i" if "rgn_end r - unat first \<le> i" for i
        proof -
          have "rgn_end q \<le> unat first + i" if "q \<in> set R" for q
            using wf_regions_last [OF wf that] r \<open>rgn_end r - unat first \<le> i\<close> by simp
          then show ?thesis
            using MR [of "unat first + i"] by (fastforce simp: mapped_def in_rgn_def)
        qed
        then have b: "overwritten ?M (rgn_end r - unat first) N bits0 b"
          using N e(2) assms(5) unfolding b_def by (intro overwritten_clear) auto
        have "loop_ok ?M first first (e - 1) b (map_bits_loop (drop i (regions m)) rest first first (e - 1) b)"
          using E(3) e b N assms(5) by (intro loop) (auto simp: word_le_nat_alt overwritten_def intro: div_8_mono)
        then show ?thesis
          using True overwritten_front [OF b] e E(3) assms(5) by (auto simp: run loop_ok_def b_def simp flip: e_def)
      qed
      then show ?thesis
        using range_bitsI [OF _ assms(6)] unfolding bits0_def by blast
    qed
  qed
qed

end
