(* ===== verification/Pfn_Results.thy ===== *)
theory Pfn_Results
  imports Pfn_Raw
begin

section \<open>What the page frame maps promise\<close>

text \<open>
  The properties of the maps as the dump formats use them: a bitmap is turned into a map, and the map
  answers the questions about single pages, about the next page, and about a range of pages.
\<close>

subsection \<open>The map of a bitmap\<close>

lemma u64_bound: "unat (x :: u64) < 2 ^ 64"
  using unsigned_less [of x] by simp

lemma bitmap_map:
  assumes "start' \<le> end'" and "unat end' + 7 < 2 ^ 64" and "(unat end' + 7) div 8 \<le> length bitmap" and "regions pfm = []"
  shows "\<exists>st pfm'. pfn_regions_from_bitmap alloc base pfm bitmap m start' end' fileoff elemsz = Some (st, pfm')
    \<and> pfm' = pfm\<lparr>regions := regions pfm'\<rparr>
    \<and> (st = KDUMP_OK \<and> runs (\<not> m) (bit_of m bitmap) elemsz (unat end') (unat start') fileoff (regions pfm')
       \<or> st = KDUMP_ERR_SYSTEM \<and> (\<exists>k. \<not> alloc k) \<and> (\<exists>b\<le>unat end'. runs (\<not> m) (bit_of m bitmap) elemsz b (unat start') fileoff (regions pfm')))"
proof -
  have "unat (end' + 7) = unat end' + 7"
    using assms(2) by (subst unat_plus_no_overflow) simp_all
  then have n: "unat (drop_bit 3 (end' + 7)) = (unat end' + 7) div 8"
    by (simp add: pfn_byte)
  have "unat end' \<le> 8 * ((unat end' + 7) div 8)" "8 * ((unat end' + 7) div 8) < 2 ^ 64"
    using assms(2) by linarith+
  from regions_loop_runs [OF this(1) assms(3) this(2) assms(1), of alloc base m elemsz pfm fileoff] show ?thesis
    unfolding pfn_regions_from_bitmap_def n assms(4) by fastforce
qed

lemma runs_gap:
  assumes "runs True B elemsz e a pos rs" and "r \<in> set rs" and "rgn_end r < e"
  shows "\<not> B (rgn_end r)"
  using assms by (induction rule: runs.induct) auto

lemma runs_gaps:
  assumes "runs True B elemsz e a pos rs" and "regions m = rs"
  shows "gaps [m]"
proof -
  have "\<not> mapped rs (rgn_end r)" if "r \<in> set rs" for r
  proof (cases "rgn_end r < e")
    case True
    have "a \<le> rgn_end r"
      using runs_bounds [OF assms(1)] that by (force simp: rgn_end_def)
    then show ?thesis
      using runs_mapped [OF assms(1) _ True] runs_gap [OF assms(1) that True] by simp
  next
    case False
    then show ?thesis
      using runs_bounds [OF assms(1)] by (fastforce simp: mapped_def in_rgn_def)
  qed
  then show ?thesis
    by (simp add: gaps_def maps_mapped_def assms(2))
qed

lemma runs_wf_map:
  assumes "runs g B elemsz e (unat (start_pfn m)) pos (regions m)" and "e \<le> unat (end_pfn m)"
  shows "wf_maps [m]" and "filled [m]"
proof -
  have "e < 2 ^ 64"
    using assms(2) u64_bound [of "end_pfn m"] by simp
  moreover have "unat (start_pfn m) \<le> unat (end_pfn m)"
    using runs_le [OF assms(1)] assms(2) by simp
  ultimately show "wf_maps [m]"
    using runs_wf [OF assms(1)] runs_bounds [OF assms(1)] assms(2)
    by (fastforce simp: wf_maps_def wf_map_def word_le_nat_alt)
  show "filled [m]"
    by (simp add: filled_def)
qed

lemma find_run:
  assumes "runs g B elemsz e a pos (regions m)" and "e < 2 ^ 64" and "a \<le> unat p" and "unat p < e"
  shows "case find_pfn_region m p of
      None \<Rightarrow> \<not> B (unat p)
    | Some i \<Rightarrow> (let r = regions m ! i
                 in if rgn_pfn r \<le> p then B (unat p) \<and> rgn_pos r + (p - rgn_pfn r) * elemsz = pos + of_nat (rank B a (unat p)) * elemsz
                    else \<not> B (unat p))"
proof -
  have wf: "wf_regions (regions m)"
    using assms(1,2) by (rule runs_wf)
  have B: "mapped (regions m) (unat p) = B (unat p)"
    using runs_mapped [OF assms(1,3,4)] .
  show ?thesis
  proof (cases "first_region (regions m) (unat p)")
    case None
    then show ?thesis
      using B first_region_none_mapped [OF None order_refl] find_pfn_region_first [OF wf] by simp
  next
    case (Some i)
    define r where "r = regions m ! i"
    have r: "i < length (regions m)" "unat p < rgn_end r" "r \<in> set (regions m)"
      using Some by (auto simp: first_region_Some r_def)
    show ?thesis
    proof (cases "rgn_pfn r \<le> p")
      case False
      then show ?thesis
        using B first_region_unmapped [OF wf Some order_refl] Some find_pfn_region_first [OF wf]
        by (simp add: r_def word_le_nat_alt)
    next
      case True
      have all: "B j" if "unat (rgn_pfn r) \<le> j" "j < unat p" for j
        using that r runs_mapped [OF assms(1), of j] runs_bounds [OF assms(1)] assms(4)
        by (fastforce simp: mapped_def in_rgn_def)
      have "rank B a (unat p) = rank B a (unat (rgn_pfn r)) + rank B (unat (rgn_pfn r)) (unat p)"
        using runs_bounds [OF assms(1)] r(3) True by (intro rank_split) (auto simp: word_le_nat_alt)
      also have "rank B (unat (rgn_pfn r)) (unat p) = unat p - unat (rgn_pfn r)"
        by (rule rank_all) (rule all)
      finally have k: "of_nat (rank B a (unat p)) = of_nat (rank B a (unat (rgn_pfn r))) + (p - rgn_pfn r)"
        using True by (simp add: word_le_nat_alt of_nat_diff)
      have "rgn_pos r + (p - rgn_pfn r) * elemsz = pos + of_nat (rank B a (unat p)) * elemsz"
        unfolding runs_pos [OF assms(1) r(3)] k by (simp add: distrib_right)
      moreover have "mapped (regions m) (unat p)"
        using True r by (auto simp: mapped_def in_rgn_def word_le_nat_alt)
      ultimately show ?thesis
        using True B Some find_pfn_region_first [OF wf] by (simp add: r_def Let_def)
    qed
  qed
qed

abbreviation map_16 :: pfn_file_map where
  "map_16 \<equiv> \<lparr>regions = [], fidx = 0, start_pfn = 0, end_pfn = 16\<rparr>"

text \<open>
  C8. The construction of regions from a page bitmap ends for every outcome of the memory allocations,
  although its loop has no bound of its own, and fails only after a failed allocation. The regions answer
  for every page frame in their range whether its bit is set, and a page frame whose bit is set has the
  file position of its rank: the first position plus the number of set bits in front of it times the size
  of an element. This holds for both numberings of the bits.
\<close>

theorem bitmap_lookup:
  assumes "start' \<le> end'" and "unat end' + 7 < 2 ^ 64" and "(unat end' + 7) div 8 \<le> length bitmap" and "regions pfm = []"
  shows "\<exists>st pfm'. pfn_regions_from_bitmap alloc base pfm bitmap m start' end' fileoff elemsz = Some (st, pfm')
    \<and> (st = KDUMP_OK \<or> st = KDUMP_ERR_SYSTEM \<and> (\<exists>k. \<not> alloc k))
    \<and> (st = KDUMP_OK \<longrightarrow> (\<forall>p. start' \<le> p \<and> p < end' \<longrightarrow>
        (case find_pfn_region pfm' p of
           None \<Rightarrow> \<not> bit_of m bitmap (unat p)
         | Some i \<Rightarrow> (let r = regions pfm' ! i
                      in if rgn_pfn r \<le> p
                         then bit_of m bitmap (unat p)
                           \<and> rgn_pos r + (p - rgn_pfn r) * elemsz = fileoff + of_nat (rank (bit_of m bitmap) (unat start') (unat p)) * elemsz
                         else \<not> bit_of m bitmap (unat p)))))"
proof -
  obtain st pfm' where "pfn_regions_from_bitmap alloc base pfm bitmap m start' end' fileoff elemsz = Some (st, pfm')"
    and st: "st = KDUMP_OK \<or> st = KDUMP_ERR_SYSTEM \<and> (\<exists>k. \<not> alloc k)"
    and r: "st = KDUMP_OK \<Longrightarrow> runs (\<not> m) (bit_of m bitmap) elemsz (unat end') (unat start') fileoff (regions pfm')"
    using bitmap_map [OF assms, of alloc base m fileoff elemsz] by auto
  then show ?thesis
    using find_run [OF r u64_bound] by (intro exI [of _ st] exI [of _ pfm']) (simp add: word_le_nat_alt word_less_nat_alt)
qed

theorem bitmap_lookup_witness:
  "\<exists>st pfm'. pfn_regions_from_bitmap (\<lambda>k. True) 0 map_16 [0x65, 0x0f] False 0 16 4096 24 = Some (st, pfm')
    \<and> (st = KDUMP_OK \<or> st = KDUMP_ERR_SYSTEM \<and> (\<exists>k :: nat. \<not> True))
    \<and> (st = KDUMP_OK \<longrightarrow> (\<forall>p. 0 \<le> p \<and> p < 16 \<longrightarrow>
        (case find_pfn_region pfm' p of
           None \<Rightarrow> \<not> bit_of False [0x65, 0x0f] (unat p)
         | Some i \<Rightarrow> (let r = regions pfm' ! i
                      in if rgn_pfn r \<le> p
                         then bit_of False [0x65, 0x0f] (unat p)
                           \<and> rgn_pos r + (p - rgn_pfn r) * 24 = 4096 + of_nat (rank (bit_of False [0x65, 0x0f]) (unat (0 :: u64)) (unat p)) * 24
                         else \<not> bit_of False [0x65, 0x0f] (unat p)))))"
  by (rule bitmap_lookup) simp_all

text \<open>
  C9. The bitmap that is read back from a map is the bitmap that the map was built from: every bit of
  the requested range is the bit of the page frame, the rest of the last byte is clear, and no byte behind
  it changes.
\<close>

theorem bitmap_roundtrip:
  assumes "start' \<le> end'" and "unat end' + 7 < 2 ^ 64" and "(unat end' + 7) div 8 \<le> length bitmap" and "regions pfm = []"
    and "start_pfn pfm = start'" and "end' \<le> end_pfn pfm"
    and "pfn_regions_from_bitmap alloc base pfm bitmap m start' end' fileoff elemsz = Some (KDUMP_OK, pfm')"
    and "start' \<le> first" and "first \<le> last'" and "last' < end'" and "unat (last' - first) div 8 < length bits"
  shows "\<exists>bits'. get_pfn_map_bits [pfm'] first last' bits = Some bits' \<and> length bits' = length bits
    \<and> (\<forall>i<8 * length bits. bit_of False bits' i =
         (if i \<le> unat (last' - first) then bit_of m bitmap (unat first + i)
          else i div 8 \<noteq> unat (last' - first) div 8 \<and> bit_of False bits i))"
proof -
  have r: "runs (\<not> m) (bit_of m bitmap) elemsz (unat end') (unat start') fileoff (regions pfm')" and pfm': "pfm' = pfm\<lparr>regions := regions pfm'\<rparr>"
    using bitmap_map [OF assms(1-4), of alloc base m fileoff elemsz] assms(7) by auto
  have eq: "start_pfn pfm' = start'" "end_pfn pfm' = end_pfn pfm"
    using assms(5) by (subst pfm'; simp)+
  note wf = runs_wf_map [OF r [folded eq(1)]]
  have "unat end' \<le> unat (end_pfn pfm')"
    using assms(6) by (simp add: eq(2) word_le_nat_alt)
  note wf = wf [OF this]
  have n: "unat (last' - first) = unat last' - unat first"
    using assms(9) by (simp add: unat_sub)
  obtain bits' where b: "get_pfn_map_bits [pfm'] first last' bits = Some bits'"
    "range_bits (\<lambda>i. maps_mapped [pfm'] (unat first + i)) (unat (last' - first)) bits bits'"
    using get_pfn_map_bits_spec [OF wf _ assms(9) n assms(11)] by auto
  have "maps_mapped [pfm'] (unat first + i) = bit_of m bitmap (unat first + i)" if "i \<le> unat (last' - first)" for i
    using runs_mapped [OF r, of "unat first + i"] that assms(8-10) n
    by (simp add: maps_mapped_def word_le_nat_alt word_less_nat_alt)
  then show ?thesis
    using b by (auto simp: range_bits_def bit_of_def)
qed

lemma map_16_built:
  obtains pfm' where "pfn_regions_from_bitmap (\<lambda>k. True) 0 map_16 [0x65, 0x0f] m 0 16 4096 24 = Some (KDUMP_OK, pfm')"
  using bitmap_map [of 0 16 "[0x65, 0x0f]" map_16 "\<lambda>k. True" 0 m 4096 24] by auto

theorem bitmap_roundtrip_witness:
  "\<exists>pfm' bits'. pfn_regions_from_bitmap (\<lambda>k. True) 0 map_16 [0x65, 0x0f] True 0 16 4096 24 = Some (KDUMP_OK, pfm')
    \<and> get_pfn_map_bits [pfm'] 1 14 [0xff, 0xff] = Some bits' \<and> bit_of False bits' 0 = bit_of True [0x65, 0x0f] 1"
proof -
  obtain pfm' where b: "pfn_regions_from_bitmap (\<lambda>k. True) 0 map_16 [0x65, 0x0f] True 0 16 4096 24 = Some (KDUMP_OK, pfm')"
    using map_16_built .
  have "\<exists>bits'. get_pfn_map_bits [pfm'] 1 14 [0xff, 0xff] = Some bits' \<and> length bits' = length [0xff :: u8, 0xff]
    \<and> (\<forall>i<8 * length [0xff :: u8, 0xff]. bit_of False bits' i =
         (if i \<le> unat (14 - 1 :: u64) then bit_of True [0x65, 0x0f] (unat (1 :: u64) + i)
          else i div 8 \<noteq> unat (14 - 1 :: u64) div 8 \<and> bit_of False [0xff, 0xff] i))"
    by (rule bitmap_roundtrip [OF _ _ _ _ _ _ b]) simp_all
  then show ?thesis
    using b by (force dest: spec [of _ 0])
qed

subsection \<open>Searches\<close>

text \<open>
  C10. In a list of maps where every map but the last one is mapped up to its end, the search for a mapped
  page frame returns the first one at or behind the given number, and fails only if there is none.
\<close>

theorem next_mapped:
  assumes "wf_maps maps" and "filled maps"
  shows "case find_mapped_pfn maps pfn of
      None \<Rightarrow> \<forall>q. unat pfn \<le> q \<longrightarrow> \<not> maps_mapped maps q
    | Some q \<Rightarrow> pfn \<le> q \<and> maps_mapped maps (unat q) \<and> (\<forall>p. unat pfn \<le> p \<and> p < unat q \<longrightarrow> \<not> maps_mapped maps p)"
  using find_mapped_spec [OF assms, of pfn] by (simp add: word_le_nat_alt split: option.splits)

abbreviation two_maps :: "pfn_file_map list" where
  "two_maps \<equiv>
     [\<lparr>regions = [\<lparr>rgn_pfn = 2, rgn_cnt = 6, rgn_pos = 0\<rparr>], fidx = 0, start_pfn = 0, end_pfn = 8\<rparr>,
      \<lparr>regions = [\<lparr>rgn_pfn = 9, rgn_cnt = 2, rgn_pos = 0\<rparr>], fidx = 1, start_pfn = 8, end_pfn = 16\<rparr>]"

theorem next_mapped_witness:
  "case find_mapped_pfn two_maps 1 of
      None \<Rightarrow> \<forall>q. unat (1 :: u64) \<le> q \<longrightarrow> \<not> maps_mapped two_maps q
    | Some q \<Rightarrow> 1 \<le> q \<and> maps_mapped two_maps (unat q) \<and> (\<forall>p. unat (1 :: u64) \<le> p \<and> p < unat q \<longrightarrow> \<not> maps_mapped two_maps p)"
  by (rule next_mapped) (simp_all add: wf_maps_def wf_map_def wf_regions_def rgn_end_def filled_def)

text \<open>
  C11. On the map of a bitmap whose least significant bit comes first, the search for an unmapped page frame
  returns the first one at or behind the given number whose bit is clear, or the end of the range.
\<close>

theorem next_unmapped:
  assumes "start' \<le> end'" and "unat end' + 7 < 2 ^ 64" and "(unat end' + 7) div 8 \<le> length bitmap" and "regions pfm = []"
    and "start_pfn pfm = start'" and "end' \<le> end_pfn pfm"
    and "pfn_regions_from_bitmap alloc base pfm bitmap False start' end' fileoff elemsz = Some (KDUMP_OK, pfm')"
    and "start' \<le> pfn" and "pfn < end'" and "q = find_unmapped_pfn [pfm'] pfn"
  shows "pfn \<le> q \<and> (q < end' \<longrightarrow> \<not> bit_of False bitmap (unat q)) \<and> q \<le> end'
    \<and> (\<forall>p. unat pfn \<le> p \<and> p < unat q \<longrightarrow> bit_of False bitmap p)"
proof -
  have r: "runs True (bit_of False bitmap) elemsz (unat end') (unat start') fileoff (regions pfm')" and pfm': "pfm' = pfm\<lparr>regions := regions pfm'\<rparr>"
    using bitmap_map [OF assms(1-4), of alloc base False fileoff elemsz] assms(7) by auto
  have eq: "start_pfn pfm' = start'" "end_pfn pfm' = end_pfn pfm"
    using assms(5) by (subst pfm'; simp)+
  have "unat end' \<le> unat (end_pfn pfm')"
    using assms(6) by (simp add: eq(2) word_le_nat_alt)
  note wf = runs_wf_map [OF r [folded eq(1)] this]
  note u = find_unmapped_spec [OF wf(1) runs_gaps [OF r refl] arg_cong [OF assms(10), of unat]]
  have bit: "maps_mapped [pfm'] p = bit_of False bitmap p" if "unat start' \<le> p" "p < unat end'" for p
    using runs_mapped [OF r that] by (simp add: maps_mapped_def)
  have "\<not> maps_mapped [pfm'] (unat end')"
    using runs_bounds [OF r] by (fastforce simp: maps_mapped_def mapped_def in_rgn_def)
  then have "unat q \<le> unat end'"
    using u assms(9) by (meson not_le order.strict_implies_order word_less_nat_alt)
  then show ?thesis
    using u bit assms(8,9) by (auto simp: word_le_nat_alt word_less_nat_alt)
qed

theorem next_unmapped_witness:
  "\<exists>pfm'. pfn_regions_from_bitmap (\<lambda>k. True) 0 map_16 [0x65, 0x0f] False 0 16 4096 24 = Some (KDUMP_OK, pfm')
    \<and> 5 \<le> find_unmapped_pfn [pfm'] 5 \<and> find_unmapped_pfn [pfm'] 5 \<le> 16"
proof -
  obtain pfm' where b: "pfn_regions_from_bitmap (\<lambda>k. True) 0 map_16 [0x65, 0x0f] False 0 16 4096 24 = Some (KDUMP_OK, pfm')"
    using map_16_built .
  then show ?thesis
    using next_unmapped [OF _ _ _ _ _ _ b, of 5] by simp
qed

text \<open>
  What the hypotheses exclude. If a file ends with pages that are not in the dump, the search for a mapped
  page frame stops there; where two files meet, the search for an unmapped one stops at a mapped one;
  and a last file without any page makes \<open>get_pfn_map_bits\<close> read in front of an empty array.
\<close>

lemma mapped_search_misses_next_file:
  "find_mapped_pfn
     [\<lparr>regions = [\<lparr>rgn_pfn = 0, rgn_cnt = 2, rgn_pos = 0\<rparr>], fidx = 0, start_pfn = 0, end_pfn = 8\<rparr>,
      \<lparr>regions = [\<lparr>rgn_pfn = 8, rgn_cnt = 4, rgn_pos = 0\<rparr>], fidx = 1, start_pfn = 8, end_pfn = 16\<rparr>] 4 = None"
  by (simp add: find_mapped_pfn_def find_pfn_region_def find_region_loop.simps)

lemma unmapped_search_stops_at_file_end:
  "find_unmapped_pfn
     [\<lparr>regions = [\<lparr>rgn_pfn = 0, rgn_cnt = 8, rgn_pos = 0\<rparr>], fidx = 0, start_pfn = 0, end_pfn = 8\<rparr>,
      \<lparr>regions = [\<lparr>rgn_pfn = 8, rgn_cnt = 4, rgn_pos = 0\<rparr>], fidx = 1, start_pfn = 8, end_pfn = 16\<rparr>] 4 = 8"
  by (simp add: find_unmapped_pfn_def find_pfn_region_def find_region_loop.simps)

lemma empty_last_file_faults:
  "get_pfn_map_bits
     [\<lparr>regions = [\<lparr>rgn_pfn = 0, rgn_cnt = 8, rgn_pos = 0\<rparr>], fidx = 0, start_pfn = 0, end_pfn = 8\<rparr>,
      \<lparr>regions = [], fidx = 1, start_pfn = 8, end_pfn = 16\<rparr>] 0 7 [0] = None"
  by (simp add: get_pfn_map_bits_def find_pfn_region_def find_region_loop.simps)

text \<open>With the most significant bit first, the search for a clear bit stops at the set bit 8.\<close>

lemma msb0_search_stops_at_byte_end:
  "skip_set_msb0 0 [0x7f, 0xff] 2 1 = 8 \<and> bit_of True [0x7f, 0xff] 8"
  by code_simp

end
