(* ===== verification/Fcache.thy ===== *)
theory Fcache
  imports Page_Cache
begin

section \<open>The file cache (src/kdumpfile/fcache.c)\<close>

text \<open>
  Two page caches provide the contents of the dump files: one of mappings, one of pages that were
  read. The operating system is a parameter: the contents of open files, the errors of \<open>pread\<close>, and
  the address that \<open>mmap\<close> chooses (\<open>None\<close> for an error), which may depend on the addresses in use.
  \<open>fc_mem\<close> is the contents of the page buffers, \<open>fc_maps\<close> the mappings with their file descriptor and
  offset. A result \<open>None\<close> of an operation stands for a memory access outside of any object or of the
  pages of the mapped file (a bus error), or for an undefined value.
\<close>

datatype mmap_policy = KDUMP_MMAP_NEVER | KDUMP_MMAP_ALWAYS | KDUMP_MMAP_TRY | KDUMP_MMAP_TRY_ONCE

record os =
  os_file :: "nat \<Rightarrow> u8 list"
  os_pread_fails :: "nat \<Rightarrow> int \<Rightarrow> bool"
  os_mmap :: "nat list \<Rightarrow> nat \<Rightarrow> int \<Rightarrow> nat option"

record fcache_fileinfo =
  fi_fd :: nat
  fi_filesz :: int

record fcache =
  fc_refcnt :: u64
  fc_policy :: mmap_policy
  fc_pgsz :: u64
  fc_mmapsz :: u64
  fc_cache :: pcache
  fc_fbcache :: pcache
  fc_info :: "fcache_fileinfo list"
  fc_mem :: "nat \<Rightarrow> u8 list"
  fc_maps :: "(nat \<times> nat \<times> int) list"

text \<open>
  The data of an entry: an offset in a mapping or in a page buffer, or the fallback buffer of the
  caller; \<open>fce_ce\<close> is the entry in the cache that the data come from.
\<close>

datatype fce_mem = Mapped nat nat | Paged nat nat | Fallback "u8 list"

record fcache_entry =
  fce_len :: nat
  fce_data :: fce_mem
  fce_ce :: nat

subsection \<open>System calls and memory\<close>

definition MAP_FAILED :: nat where
  "MAP_FAILED = 2 ^ 64 - 1"

definition sys_pread :: "os \<Rightarrow> nat \<Rightarrow> nat \<Rightarrow> int \<Rightarrow> u8 list option" where
  "sys_pread os fd n pos = (if pos < 0 \<or> os_pread_fails os fd pos then None else Some (take n (drop (nat pos) (os_file os fd))))"

definition sys_mmap :: "os \<Rightarrow> nat \<Rightarrow> int \<Rightarrow> fcache \<Rightarrow> nat \<times> fcache" where
  "sys_mmap os fd pos fc =
     (case (if pos < 0 then None else os_mmap os (map fst (fc_maps fc)) fd pos) of
        None \<Rightarrow> (MAP_FAILED, fc)
      | Some a \<Rightarrow> (a, fc\<lparr>fc_maps := (a, fd, pos) # fc_maps fc\<rparr>))"

definition sys_munmap :: "nat \<Rightarrow> fcache \<Rightarrow> fcache" where
  "sys_munmap a fc = fc\<lparr>fc_maps := filter (\<lambda>m. fst m \<noteq> a) (fc_maps fc)\<rparr>"

text \<open>A byte of a mapped file: zero up to the end of the last page, none behind it.\<close>

definition file_byte :: "os \<Rightarrow> nat \<Rightarrow> nat \<Rightarrow> nat \<Rightarrow> u8 option" where
  "file_byte os pg fd q =
     (if q < length (os_file os fd) then Some (os_file os fd ! q)
      else if q < (length (os_file os fd) + pg - 1) div pg * pg then Some 0 else None)"

definition fce_bytes :: "os \<Rightarrow> fcache \<Rightarrow> fce_mem \<Rightarrow> nat \<Rightarrow> u8 list option" where
  "fce_bytes os fc d n =
     (case d of
        Mapped a off \<Rightarrow>
          (case map_of (fc_maps fc) a of
             None \<Rightarrow> None
           | Some (fd, pos) \<Rightarrow> those (map (\<lambda>k. file_byte os (unat (fc_pgsz fc)) fd (nat pos + off + k)) [0..<n]))
      | Paged a off \<Rightarrow> if off + n \<le> length (fc_mem fc a) then Some (take n (drop off (fc_mem fc a))) else None
      | Fallback bs \<Rightarrow> if n \<le> length bs then Some (take n bs) else None)"

subsection \<open>Life cycle\<close>

text \<open>The destructor is called for the entries that the page cache has recorded since \<open>c\<close>.\<close>

definition unmap_entry :: "centry \<Rightarrow> fcache \<Rightarrow> fcache" where
  "unmap_entry ce fc = (case e_data ce of Some a \<Rightarrow> if a \<noteq> MAP_FAILED then sys_munmap a fc else fc | None \<Rightarrow> fc)"

definition run_cleanups :: "pcache \<Rightarrow> fcache \<Rightarrow> fcache" where
  "run_cleanups c fc = fold (\<lambda>(i, ce). unmap_entry ce) (drop (length (c_cleaned c)) (c_cleaned (fc_cache fc))) fc"

text \<open>
  \<open>fcache_new\<close>: \<open>stat fd\<close> is the size of a regular file, \<open>None\<close> for any other file or an error; \<open>mem\<close>
  is the outcome of the allocation of the object, \<open>c\<close> and \<open>fb\<close> those of the two caches.
\<close>

definition fcache_new ::
  "(nat \<Rightarrow> int option) \<Rightarrow> u64 \<Rightarrow> bool \<Rightarrow> pcache option \<times> nat \<Rightarrow> pcache option \<times> nat \<times> nat option \<Rightarrow> (nat \<Rightarrow> u8 list) \<Rightarrow>
   nat list \<Rightarrow> nat \<Rightarrow> nat \<Rightarrow> fcache option" where
  "fcache_new stat pgsz mem c fb heap fd n order =
     (if length fd > unat pgsz then None
      else if \<not> mem then None
      else do {
        c \<leftarrow> cache_alloc (fst c) (snd c) None n 0;
        fb \<leftarrow> cache_alloc (fst fb) (fst (snd fb)) (snd (snd fb)) n (unat pgsz);
        Some \<lparr>fc_refcnt = 1, fc_policy = KDUMP_MMAP_TRY, fc_pgsz = pgsz, fc_mmapsz = push_bit order pgsz,
              fc_cache = set_cache_entry_cleanup True c, fc_fbcache = fb,
              fc_info = map (\<lambda>d. \<lparr>fi_fd = d, fi_filesz = (case stat d of Some sz \<Rightarrow> sz | None \<Rightarrow> 2 ^ 63 - 1)\<rparr>) fd,
              fc_mem = heap, fc_maps = []\<rparr>
      })"

text \<open>The mappings that are left when the file cache is freed.\<close>

definition fcache_free :: "nat \<Rightarrow> fcache \<Rightarrow> (nat \<times> nat \<times> int) list" where
  "fcache_free self fc =
     fc_maps (fold (\<lambda>(i, ce). unmap_entry ce) (drop (length (c_cleaned (fc_cache fc))) (fst (cache_free self (fc_cache fc)))) fc)"

definition fcache_incref :: "fcache \<Rightarrow> u64 \<times> fcache" where
  "fcache_incref fc = (fc_refcnt fc + 1, fc\<lparr>fc_refcnt := fc_refcnt fc + 1\<rparr>)"

definition fcache_decref :: "nat \<Rightarrow> fcache \<Rightarrow> u64 \<times> fcache + (nat \<times> nat \<times> int) list" where
  "fcache_decref self fc =
     (let refcnt = fc_refcnt fc - 1; fc = fc\<lparr>fc_refcnt := refcnt\<rparr>
      in if refcnt \<noteq> 0 then Inl (refcnt, fc) else Inr (fcache_free self fc))"

definition fcache_fd :: "fcache \<Rightarrow> nat \<Rightarrow> nat" where
  "fcache_fd fc fidx = fi_fd (fc_info fc ! fidx)"

subsection \<open>One entry\<close>

text \<open>\<open>pos & ~(off_t)(size - 1)\<close> and \<open>pos & (size - 1)\<close> for a power of two \<open>size\<close>.\<close>

definition blk_pos :: "u64 \<Rightarrow> u64 \<Rightarrow> u64" where
  "blk_pos sz pos = pos AND NOT (sz - 1)"

definition blk_off :: "u64 \<Rightarrow> u64 \<Rightarrow> nat" where
  "blk_off sz pos = unat (pos AND (sz - 1))"

definition set_entry_data :: "nat \<Rightarrow> nat \<Rightarrow> pcache \<Rightarrow> pcache" where
  "set_entry_data i d c = upd i (\<lambda>e. e\<lparr>e_data := Some d\<rparr>) c"

definition fcache_get_mmap :: "os \<Rightarrow> nat \<Rightarrow> u64 \<Rightarrow> fcache \<Rightarrow> ((kstatus + fcache_entry) \<times> fcache) option" where
  "fcache_get_mmap os fidx pos fc =
     (if sint (blk_pos (fc_pgsz fc) pos) \<ge> fi_filesz (fc_info fc ! fidx) then Some (Inl KDUMP_ERR_NODATA, fc)
      else do {
        let blkpos = blk_pos (fc_mmapsz fc) pos;
        (r, c) \<leftarrow> cache_get_entry (blkpos OR of_nat fidx) (fc_cache fc);
        let fc' = run_cleanups (fc_cache fc) (fc\<lparr>fc_cache := c\<rparr>);
        (case r of
           None \<Rightarrow> Some (Inl KDUMP_ERR_BUSY, fc')
         | Some ce \<Rightarrow>
             let fc' = (if cache_entry_valid (ent c ce) then fc'
                        else let (a, fc') = sys_mmap os (fi_fd (fc_info fc ! fidx)) (sint blkpos) fc'
                             in fc'\<lparr>fc_cache := cache_insert ce (set_entry_data ce a c)\<rparr>)
             in do {
                  a \<leftarrow> e_data (ent (fc_cache fc') ce);
                  if a = MAP_FAILED then Some (Inl KDUMP_ERR_SYSTEM, fc')
                  else
                    let off = blk_off (fc_mmapsz fc) pos
                    in Some (Inr \<lparr>fce_len = unat (fc_mmapsz fc) - off, fce_data = Mapped a off, fce_ce = ce\<rparr>, fc')
                })
      })"

definition fcache_get_read :: "os \<Rightarrow> nat \<Rightarrow> u64 \<Rightarrow> fcache \<Rightarrow> ((kstatus + fcache_entry) \<times> fcache) option" where
  "fcache_get_read os fidx pos fc = do {
     let blkpos = blk_pos (fc_pgsz fc) pos;
     (r, c) \<leftarrow> cache_get_entry (blkpos OR of_nat fidx) (fc_fbcache fc);
     let fc = fc\<lparr>fc_fbcache := c\<rparr>;
     (case r of
        None \<Rightarrow> Some (Inl KDUMP_ERR_BUSY, fc)
      | Some ce \<Rightarrow> do {
          a \<leftarrow> e_data (ent c ce);
          let off = blk_off (fc_pgsz fc) pos;
          let fce = \<lparr>fce_len = unat (fc_pgsz fc) - off, fce_data = Paged a off, fce_ce = ce\<rparr>;
          if cache_entry_valid (ent c ce) then Some (Inr fce, fc)
          else
            (case sys_pread os (fi_fd (fc_info fc ! fidx)) (unat (fc_pgsz fc)) (sint blkpos) of
               None \<Rightarrow> Some (Inl KDUMP_ERR_SYSTEM, fc\<lparr>fc_fbcache := cache_discard ce c\<rparr>)
             | Some bs \<Rightarrow>
                 Some (Inr fce, fc\<lparr>fc_mem := (fc_mem fc)(a := bs @ replicate (unat (fc_pgsz fc) - length bs) 0),
                                   fc_fbcache := cache_insert ce c\<rparr>))
        })
   }"

definition fcache_get :: "os \<Rightarrow> nat \<Rightarrow> u64 \<Rightarrow> fcache \<Rightarrow> ((kstatus + fcache_entry) \<times> fcache) option" where
  "fcache_get os fidx pos fc =
     (let policy = fc_policy fc
      in if policy \<noteq> KDUMP_MMAP_NEVER
         then do {
           (r, fc) \<leftarrow> fcache_get_mmap os fidx pos fc;
           let fc = (if policy = KDUMP_MMAP_TRY_ONCE
                     then fc\<lparr>fc_policy := (case r of Inr _ \<Rightarrow> KDUMP_MMAP_ALWAYS | Inl _ \<Rightarrow> KDUMP_MMAP_NEVER)\<rparr> else fc);
           (case r of
              Inr fce \<Rightarrow> Some (Inr fce, fc)
            | Inl status \<Rightarrow> if policy = KDUMP_MMAP_ALWAYS then Some (Inl status, fc) else fcache_get_read os fidx pos fc)
         }
         else fcache_get_read os fidx pos fc)"

definition fcache_put :: "fcache_entry \<Rightarrow> fcache \<Rightarrow> fcache" where
  "fcache_put fce fc =
     (case fce_data fce of
        Mapped a off \<Rightarrow> fc\<lparr>fc_cache := cache_put_entry (fce_ce fce) (fc_cache fc)\<rparr>
      | Paged a off \<Rightarrow> fc\<lparr>fc_fbcache := cache_put_entry (fce_ce fce) (fc_fbcache fc)\<rparr>
      | Fallback bs \<Rightarrow> fc)"

subsection \<open>Reading into a buffer\<close>

text \<open>
  The status, the bytes that were copied, and the file cache. \<open>None\<close> is also the result if the loop does not end.
\<close>

partial_function (option) fcache_pread :: "os \<Rightarrow> nat \<Rightarrow> nat \<Rightarrow> u64 \<Rightarrow> fcache \<Rightarrow> (kstatus \<times> u8 list \<times> fcache) option" where
  "fcache_pread os len fidx pos fc =
     (if len = 0 then Some (KDUMP_OK, [], fc)
      else do {
        (r, fc) \<leftarrow> fcache_get os fidx pos fc;
        (case r of
           Inl status \<Rightarrow> Some (status, [], fc)
         | Inr fce \<Rightarrow> do {
             let partlen = (if fce_len fce < len then fce_len fce else len);
             bs \<leftarrow> fce_bytes os fc (fce_data fce) partlen;
             (status, rest, fc) \<leftarrow> fcache_pread os (len - partlen) fidx (pos + of_nat partlen) (fcache_put fce fc);
             Some (status, bs @ rest, fc)
           })
      })"

definition fcache_get_fb :: "os \<Rightarrow> nat \<Rightarrow> u64 \<Rightarrow> nat \<Rightarrow> fcache \<Rightarrow> ((kstatus + fcache_entry) \<times> fcache) option" where
  "fcache_get_fb os fidx pos sz fc = do {
     (r, fc) \<leftarrow> fcache_get os fidx pos fc;
     (case r of
        Inl status \<Rightarrow> Some (Inl status, fc)
      | Inr fce \<Rightarrow>
          if fce_len fce < sz
          then do {
            (status, bs, fc) \<leftarrow> fcache_pread os sz fidx pos (fcache_put fce fc);
            Some (if status = KDUMP_OK then Inr \<lparr>fce_len = sz, fce_data = Fallback bs, fce_ce = fce_ce fce\<rparr> else Inl status, fc)
          }
          else Some (Inr fce, fc))
   }"

subsection \<open>Contiguous chunks\<close>

text \<open>
  A chunk holds the cache entries whose data are contiguous in memory, or is a copy in a buffer of its own.
\<close>

record fcache_chunk =
  fch_fces :: "fcache_entry list"
  fch_copy :: "u8 list"

definition MAX_EMBED_FCES :: nat where
  "MAX_EMBED_FCES = 2"

definition fce_addr :: "fcache_entry \<Rightarrow> nat" where
  "fce_addr fce = (case fce_data fce of Mapped a off \<Rightarrow> a + off | Paged a off \<Rightarrow> a + off | Fallback bs \<Rightarrow> 0)"

definition put_fces :: "fcache_entry list \<Rightarrow> fcache \<Rightarrow> fcache" where
  "put_fces fces fc = fold fcache_put (rev fces) fc"

fun copy_data :: "os \<Rightarrow> fcache \<Rightarrow> fcache_entry list \<Rightarrow> u8 list option" where
  "copy_data os fc [] = Some []"
| "copy_data os fc (fce # fces) = do {
     bs \<leftarrow> fce_bytes os fc (fce_data fce) (fce_len fce);
     rest \<leftarrow> copy_data os fc fces;
     Some (bs @ rest)
   }"

text \<open>
  The loop of \<open>fcache_get_chunk\<close>: \<open>fces\<close> are the entries, \<open>data\<close> the copy if it was necessary, \<open>curdata\<close>
  the address behind the last entry. If the cache fails behind the first copy, the clean-up uses entries
  that are not there and frees the array again: the result is undefined.
\<close>

partial_function (option) chunk_loop ::
  "os \<Rightarrow> bool \<Rightarrow> nat \<Rightarrow> u64 \<Rightarrow> nat \<Rightarrow> fcache_entry list \<Rightarrow> u8 list option \<Rightarrow> nat \<Rightarrow> fcache \<Rightarrow>
   ((kstatus + fcache_chunk) \<times> fcache) option" where
  "chunk_loop os alloc fidx pos remain fces data curdata fc =
     (if remain = 0
      then Some (Inr (case data of Some bs \<Rightarrow> \<lparr>fch_fces = [], fch_copy = bs\<rparr> | None \<Rightarrow> \<lparr>fch_fces = fces, fch_copy = []\<rparr>), fc)
      else do {
        (r, fc) \<leftarrow> fcache_get os fidx pos fc;
        (case r of
           Inl status \<Rightarrow> if data = None then Some (Inl status, put_fces fces fc) else None
         | Inr fce \<Rightarrow>
             let fce = (if fce_len fce > remain then fce\<lparr>fce_len := remain\<rparr> else fce);
                 pos' = pos + of_nat (fce_len fce); remain' = remain - fce_len fce
             in if data = None \<and> (fces = [] \<or> fce_addr fce = curdata)
                then chunk_loop os alloc fidx pos' remain' (fces @ [fce]) None (fce_addr fce + fce_len fce) fc
                else if data = None \<and> \<not> alloc
                then Some (Inl KDUMP_ERR_SYSTEM, put_fces (fces @ [fce]) fc)
                else do {
                  old \<leftarrow> (case data of Some bs \<Rightarrow> Some bs | None \<Rightarrow> copy_data os fc fces);
                  let fc = (if data = None then put_fces fces fc else fc);
                  bs \<leftarrow> fce_bytes os fc (fce_data fce) (fce_len fce);
                  chunk_loop os alloc fidx pos' remain' [] (Some (old @ bs)) 0 (fcache_put fce fc)
                })
      })"

definition fcache_get_chunk :: "os \<Rightarrow> bool \<Rightarrow> bool \<Rightarrow> nat \<Rightarrow> nat \<Rightarrow> u64 \<Rightarrow> fcache \<Rightarrow> ((kstatus + fcache_chunk) \<times> fcache) option" where
  "fcache_get_chunk os alloc_fces alloc_data len fidx pos fc =
     (if len = 0 then Some (Inr \<lparr>fch_fces = [], fch_copy = []\<rparr>, fc)
      else
        let first = blk_pos (fc_pgsz fc) pos; last' = blk_pos (fc_pgsz fc) (pos + of_nat len - 1);
            nent = unat (last' - first) div unat (fc_pgsz fc) + 1
        in if nent > MAX_EMBED_FCES \<and> \<not> alloc_fces then Some (Inl KDUMP_ERR_SYSTEM, fc)
           else chunk_loop os alloc_data fidx pos len [] None 0 fc)"

definition chunk_data :: "os \<Rightarrow> fcache \<Rightarrow> fcache_chunk \<Rightarrow> u8 list option" where
  "chunk_data os fc fch = (if fch_fces fch = [] then Some (fch_copy fch) else copy_data os fc (fch_fces fch))"

definition fcache_put_chunk :: "fcache_chunk \<Rightarrow> fcache \<Rightarrow> fcache" where
  "fcache_put_chunk fch fc = put_fces (fch_fces fch) fc"

end
