(* ===== verification/Page_Cache_Use.thy ===== *)
theory Page_Cache_Use
  imports Page_Cache_Runs
begin

section \<open>The page cache as its clients see it\<close>

text \<open>
  What a lookup does to the entries that are cached: it may evict some, each with a call of the
  destructor, and it keeps the key and the data of the others. Between the operations of a client no
  entry is in flight, and a client may replace the data of the entry that it has got.
\<close>

subsection \<open>Lookups keep the cached entries\<close>

definition kept :: "acache \<Rightarrow> acache \<Rightarrow> bool" where
  "kept a a' \<longleftrightarrow> a_cached a' \<subseteq> a_cached a
     \<and> (\<forall>j\<in>a_cached a'. k_key (a_cont a' j) = k_key (a_cont a j) \<and> dat a' j = dat a j)
     \<and> (\<forall>j\<in>a_cached a - a_cached a'. k_ref (a_cont a j) = 0) \<and> a_cleanup a' = a_cleanup a
     \<and> (\<exists>l. a_cleaned a' = a_cleaned a @ l \<and> (\<forall>(j, k)\<in>set l. j \<in> a_cached a \<and> j \<notin> a_cached a' \<and> k_data k = dat a j))"

definition same_refs :: "acache \<Rightarrow> acache \<Rightarrow> bool" where
  "same_refs a a' \<longleftrightarrow> (\<forall>j. k_ref (a_cont a' j) = k_ref (a_cont a j))"

lemma kept_refl: "kept a a"
  by (auto simp: kept_def intro: exI [of _ "[]"])

lemma kept_same:
  assumes "a_cached a' = a_cached a" and "a_cont a' = a_cont a" and "a_cleanup a' = a_cleanup a" and "a_cleaned a' = a_cleaned a"
  shows "kept a a'" and "same_refs a a'"
  using assms by (auto simp: kept_def same_refs_def intro: exI [of _ "[]"])

lemma kept_upd:
  assumes "kept a b" and "a_cached c = a_cached b" and "a_cont c = (a_cont b)(i := x)" and "i \<notin> a_cached b"
    and "a_cleanup c = a_cleanup b" and "a_cleaned c = a_cleaned b"
  shows "kept a c"
proof -
  have "\<forall>j\<in>a_cached b. a_cont c j = a_cont b j"
    using assms(3,4) by auto
  then show ?thesis
    using assms(1,2,5,6) unfolding kept_def by auto
qed

lemma same_refs_upd:
  "same_refs a b \<Longrightarrow> a_cont c = (a_cont b)(i := x) \<Longrightarrow> k_ref x = k_ref (a_cont b i) \<Longrightarrow> same_refs a c"
  by (simp add: same_refs_def)

lemma not_cached:
  assumes "a_core B a"
  shows "i \<in> set (a_infl a) \<union> set (a_ghosts a) \<union> set (a_unused a) \<Longrightarrow> i \<notin> a_cached a"
  using assms by (auto simp: a_core_def a_main_def a_ghosts_def a_cached_def)

lemma evict_kept:
  assumes "a_evict bias a = Some (j, a')" and "distinct (a_main a @ a_infl a)"
  shows "kept a a'" and "same_refs a a'" and "j \<notin> a_cached a'" and "j \<in> a_cached a"
proof -
  note e = a_evict_lists [OF assms] a_evict_rest [OF assms(1)]
  have c: "a_cleanup a' = a_cleanup a \<and> (a_cleaned a' = a_cleaned a \<or> a_cleaned a' = a_cleaned a @ [(j, a_cont a j)])"
    using assms(1) by (auto simp: a_evict_def a_clean_def Let_def split: if_splits)
  then have "\<exists>l. a_cleaned a' = a_cleaned a @ l \<and> (\<forall>(i, k)\<in>set l. i = j \<and> k = a_cont a j)"
    by (auto intro: exI [of _ "[]"])
  then show "kept a a'"
    using c e(1-3,10) unfolding kept_def by fastforce
  show "same_refs a a'" "j \<notin> a_cached a'" "j \<in> a_cached a"
    using e by (simp_all add: same_refs_def)
qed

lemma a_set_data_clean [simp]: "a_cleanup (a_set_data i d a) = a_cleanup a" "a_cleaned (a_set_data i d a) = a_cleaned a"
  by (simp_all add: a_set_data_def a_upd_def)

lemma reclaim_kept:
  assumes "a_reclaim a = Some (d, a')" and "a_core B a"
  shows "kept a a' \<and> same_refs a a' \<and> a_infl a' = a_infl a"
proof (cases "length (a_prec a) + length (a_probe a) + length (a_infl a) < a_cap a")
  case True
  then have u: "a_unused a \<noteq> []" "a' = a_set_data (last (a_unused a)) None a"
    using assms(1) by (auto simp: a_reclaim_def bind_Some_iff split: if_splits)
  have "last (a_unused a) \<notin> a_cached a"
    using not_cached [OF assms(2)] u(1) by simp
  then show ?thesis
    using u(2) kept_upd [OF kept_refl, of a' a] same_refs_upd [of a a a'] by (simp add: same_refs_def)
next
  case False
  then obtain j b where b: "a_evict 0 a = Some (j, b)" "a' = a_set_data j None b"
    using assms(1) by (auto simp: a_reclaim_def bind_Some_iff split: if_splits)
  have "distinct (a_main a @ a_infl a)"
    using assms(2) by (simp add: a_core_def)
  note e = evict_kept [OF b(1) this]
  show ?thesis
    using kept_upd [OF e(1), of a' j] same_refs_upd [OF e(2), of a' j] e(3) b(2) a_evict_rest(2) [OF b(1)] by simp
qed

lemma a_launch_simps [simp]:
  "a_cached (a_launch i f a) = a_cached a" "a_infl (a_launch i f a) = a_infl a @ [i]"
  "a_cont (a_launch i f a) = (a_cont a)(i := f (a_cont a i))" "a_cleanup (a_launch i f a) = a_cleanup a"
  "a_cleaned (a_launch i f a) = a_cleaned a"
  by (simp_all add: a_launch_def a_upd_def a_cached_def)

lemma a_cached_other [simp]:
  "a_cached (a\<lparr>a_gprec := x\<rparr>) = a_cached a" "a_cached (a\<lparr>a_gprobe := x\<rparr>) = a_cached a" "a_cached (a\<lparr>a_unused := x\<rparr>) = a_cached a"
  "a_cached (a\<lparr>a_misses := m\<rparr>) = a_cached a" "a_cached (a\<lparr>a_dprobe := n\<rparr>) = a_cached a" "a_cached (a\<lparr>a_hits := m\<rparr>) = a_cached a"
  by (simp_all add: a_cached_def)

text \<open>A lookup that has to make an entry.\<close>

lemma launch_kept:
  assumes "kept a b" and "same_refs a b" and "i \<notin> a_cached b" and "a_infl b = a_infl a"
    and "a' = a_launch i f b'" and "a_cached b' = a_cached b" and "a_cont b' = a_cont b" and "a_infl b' = a_infl b"
    and "a_cleanup b' = a_cleanup b" and "a_cleaned b' = a_cleaned b" and "\<And>k. k_ref (f k) = k_ref k"
  shows "kept a a' \<and> same_refs a a' \<and> a_infl a' = a_infl a @ [i]"
  using kept_upd [OF assms(1), of a' i] same_refs_upd [OF assms(2), of a' i] assms(3-) by simp

lemma ghost_kept:
  assumes "a_ghost key a = Some (i, a')" and "a_ok B a" and "0 < a_cap a" and "length (a_live a) \<le> a_cap a"
  shows "kept a a' \<and> same_refs a a' \<and> a_infl a' = a_infl a @ [i]"
proof -
  have core: "a_core B a" and ord: "a_ordered a"
    using assms(2) by (auto simp: a_ok_def a_inv_def)
  have ghost: ?thesis
    if "i \<in> set (a_ghosts a)" "a_reclaim (a\<lparr>a_dprobe := n\<rparr>) = Some (d, b)"
      "a' = a_launch i (\<lambda>k. k\<lparr>k_data := d, k_state := Cs_precious\<rparr>) b'"
      "a_cached b' = a_cached b" "a_cont b' = a_cont b" "a_infl b' = a_infl b" "a_cleanup b' = a_cleanup b" "a_cleaned b' = a_cleaned b"
    for n d b b'
  proof -
    have "a_core B (a\<lparr>a_dprobe := n\<rparr>)"
      using core by (simp add: a_core_def a_main_def a_ghosts_def)
    from reclaim_kept [OF that(2) this] have k: "kept a b" "same_refs a b" "a_infl b = a_infl a"
      by (auto simp: kept_def same_refs_def)
    have "i \<notin> a_cached b"
      using not_cached [OF core, of i] that(1) k(1) by (auto simp: kept_def)
    then show ?thesis
      by (rule launch_kept [OF k(1,2) _ k(3) that(3-8)]) simp
  qed
  show ?thesis
  proof (cases "a_find key (a_gprec a) a")
    case (Some j)
    then obtain n d b where "i = j" and r: "a_reclaim (a\<lparr>a_dprobe := n\<rparr>) = Some (d, b)"
      "a' = a_launch i (\<lambda>k. k\<lparr>k_data := d, k_state := Cs_precious\<rparr>) (b\<lparr>a_gprec := remove1 j (a_gprec b)\<rparr>)"
      using assms(1) by (auto simp: a_ghost_def bind_Some_iff)
    then have "i \<in> set (a_ghosts a)"
      using a_find_SomeD(1) [OF Some] by (simp add: a_ghosts_def)
    then show ?thesis
      by (rule ghost [OF _ r]) simp_all
  next
    case n1: None
    show ?thesis
    proof (cases "a_find key (rev (a_gprobe a)) a")
      case (Some j)
      then obtain n d b where "i = j" and r: "a_reclaim (a\<lparr>a_dprobe := n\<rparr>) = Some (d, b)"
        "a' = a_launch i (\<lambda>k. k\<lparr>k_data := d, k_state := Cs_precious\<rparr>) (b\<lparr>a_gprobe := remove1 j (a_gprobe b)\<rparr>)"
        using assms(1) n1 by (auto simp: a_ghost_def bind_Some_iff)
      then have "i \<in> set (a_ghosts a)"
        using a_find_SomeD(1) [OF Some] by (simp add: a_ghosts_def)
      then show ?thesis
        by (rule ghost [OF _ r]) simp_all
    next
      case None
      then have m: "a_missed key a = Some (i, a')"
        using assms(1) n1 by (simp add: a_ghost_def)
      define a1 where "a1 = a_free_slot a"
      note f = a_free_slot_ok [OF core ord assms(4,3) a1_def]
      have c1: "a_cached a1 = a_cached a" "a_cleanup a1 = a_cleanup a" "a_cleaned a1 = a_cleaned a"
        by (simp_all add: a1_def a_free_slot_def a_cached_def)
      note k1 = kept_same [OF c1(1) f(7) c1(2,3)]
      have nc: "last (a_unused a1) \<notin> a_cached a1"
        using not_cached [OF f(1)] f(3) by simp
      show ?thesis
      proof (cases "k_data (a_cont a1 (last (a_unused a1))) = None")
        case False
        then have "i = last (a_unused a1)"
          and a': "a' = a_launch i (\<lambda>k. k\<lparr>k_key := key, k_state := Cs_probe\<rparr>) (a1\<lparr>a_unused := butlast (a_unused a1)\<rparr>)"
          using m by (auto simp: a_missed_def Let_def bind_Some_iff a1_def [symmetric])
        then show ?thesis
          using nc by (intro launch_kept [OF k1 _ f(8) a']) simp_all
      next
        case True
        then obtain j b where b: "a_evict 1 a1 = Some (j, b)" "i = last (a_unused b)"
          "a' = a_launch i (\<lambda>k. k\<lparr>k_key := key, k_state := Cs_probe\<rparr>)
            ((a_set_data j None (a_set_data (last (a_unused a1)) (k_data (a_cont b j)) b))\<lparr>a_unused := butlast (a_unused b)\<rparr>)"
          using m a_evict_rest(1) by (auto simp: a_missed_def Let_def bind_Some_iff a1_def [symmetric])
        have "distinct (a_main a1 @ a_infl a1)"
          using f(1) by (simp add: a_core_def)
        note e = evict_kept [OF b(1) this]
        have i: "i = last (a_unused a1)"
          using b(1,2) a_evict_rest(1) by simp
        have "kept a b" "same_refs a b" "a_infl b = a_infl a"
          using e(1,2) c1 f(7,8) a_evict_rest(2) [OF b(1)] by (auto simp: kept_def same_refs_def)
        define b1 where "b1 = a_set_data i (k_data (a_cont b j)) b"
        have nb: "i \<notin> a_cached b"
          using nc e(1) i by (auto simp: kept_def)
        have k2: "kept a b1" "same_refs a b1"
          using kept_upd [OF \<open>kept a b\<close>, of b1 i] same_refs_upd [OF \<open>same_refs a b\<close>, of b1 i] nb by (simp_all add: b1_def)
        define b2 where "b2 = a_set_data j None b1"
        have k3: "kept a b2" "same_refs a b2"
          using kept_upd [OF k2(1), of b2 j] same_refs_upd [OF k2(2), of b2 j] e(3) by (simp_all add: b2_def b1_def)
        show ?thesis
          by (rule launch_kept [OF k3 _ _ b(3)]) (use nb \<open>a_infl b = a_infl a\<close> i in \<open>simp_all add: b1_def b2_def\<close>)
      qed
    qed
  qed
qed

lemma noref_kept:
  assumes "a_get_noref key a = Some (r, a')" and "a_ok B a" and "0 < a_cap a"
  shows "kept a a' \<and> same_refs a a'
    \<and> (a_infl a' = a_infl a \<and> (\<forall>i. r = Some i \<longrightarrow> i \<in> a_cached a' \<union> set (a_infl a)) \<or> (\<exists>i. r = Some i \<and> a_infl a' = a_infl a @ [i]))"
proof (cases "a_find key (a_prec a) a")
  case (Some i)
  then have "a' = a\<lparr>a_prec := i # remove1 i (a_prec a), a_hits := a_hits a + 1\<rparr>" "r = Some i" "i \<in> set (a_prec a)"
    using assms(1) a_find_SomeD(1) [OF Some] by (auto simp: a_get_noref_def)
  moreover from this have "a_cached a' = a_cached a"
    using assms(2) by (auto simp: a_cached_def a_ok_def a_inv_def a_core_def a_main_def set_remove1_eq)
  ultimately show ?thesis
    using kept_same [of a' a] by (simp add: a_cached_def)
next
  case n1: None
  show ?thesis
  proof (cases "a_find key (rev (a_probe a)) a")
    case (Some i)
    then have "a' = a\<lparr>a_probe := remove1 i (a_probe a), a_prec := i # a_prec a, a_hits := a_hits a + 1\<rparr>" "r = Some i" "i \<in> set (a_probe a)"
      using assms(1) n1 a_find_SomeD(1) [OF Some] by (auto simp: a_get_noref_def)
    moreover from this have "a_cached a' = a_cached a"
      using assms(2) by (auto simp: a_cached_def a_ok_def a_inv_def a_core_def a_main_def set_remove1_eq)
    ultimately show ?thesis
      using kept_same [of a' a] by (simp add: a_cached_def)
  next
    case n2: None
    then have m: "a_miss key a = Some (r, a')"
      using assms(1) n1 by (simp add: a_get_noref_def)
    have core: "a_core B a" and live: "length (a_live a) \<le> a_cap a"
      using assms(2) by (auto simp: a_ok_def a_inv_def a_tight_def)
    show ?thesis
    proof (cases "a_find key (a_infl a) a")
      case (Some i)
      then have a': "a' = (a_upd i (\<lambda>k. k\<lparr>k_state := Cs_precious\<rparr>) a)\<lparr>a_misses := a_misses a + 1\<rparr>" "r = Some i" "i \<in> set (a_infl a)"
        using m a_find_SomeD(1) [OF Some] by (auto simp: a_miss_def)
      have "i \<notin> a_cached a"
        using not_cached [OF core] a'(3) by simp
      then show ?thesis
        using a' kept_upd [OF kept_refl, of a' a i] same_refs_upd [of a a a' i]
        by (simp add: same_refs_def a_upd_def a_cached_def)
    next
      case None
      show ?thesis
      proof (cases "a_cap a \<le> a_inuse a")
        case True
        then show ?thesis
          using m None kept_refl by (simp add: a_miss_def same_refs_def)
      next
        case False
        then obtain i b where b: "a_ghost key a = Some (i, b)" "r = Some i" "a' = b\<lparr>a_misses := a_misses b + 1\<rparr>"
          using m None by (auto simp: a_miss_def bind_Some_iff)
        from ghost_kept [OF b(1) assms(2,3) live] show ?thesis
          using b(2,3) by (auto simp: kept_def same_refs_def)
      qed
    qed
  qed
qed

subsection \<open>The operations of a client\<close>

text \<open>\<open>idle B c a\<close>: between two operations of a client.\<close>

definition idle :: "nat multiset \<Rightarrow> pcache \<Rightarrow> acache \<Rightarrow> bool" where
  "idle B c a \<longleftrightarrow> fit B c a \<and> a_infl a = []"

lemma fit_data: "fit B c a \<Longrightarrow> e_data (ent c i) = dat a i" "fit B c a \<Longrightarrow> e_refcnt (ent c i) = k_ref (a_cont a i)"
    "fit B c a \<Longrightarrow> e_key (ent c i) = k_key (a_cont a i)"
  using conts_key [of "c_ce c" i] rep_facts(1) [of c a] by (simp_all add: fit_def)

lemma a_get_ref:
  assumes "a_get key a = Some (r, a')"
  obtains b where "a_get_noref key a = Some (r, b)"
    and "a' = (case r of None \<Rightarrow> b | Some i \<Rightarrow> a_upd i (\<lambda>k. k\<lparr>k_ref := uinc (k_ref k)\<rparr>) b)"
  using assms by (auto simp: a_get_def bind_Some_iff)

lemma idle_get:
  assumes "idle B c a"
  obtains r c' a' where "cache_get_entry key c = Some (r, c')" and "fit B c' a'" and "kept a a'"
    and "r = None \<longrightarrow> idle B c' a' \<and> a' = a \<and> a_cap a \<le> a_inuse a"
    and "\<forall>i. r = Some i \<longrightarrow> k_key (a_cont a' i) = key \<and> dat a' i \<noteq> None
      \<and> (\<forall>j. k_ref (a_cont a' j) = (if j = i then uinc (k_ref (a_cont a j)) else k_ref (a_cont a j)))
      \<and> (i \<in> a_cached a' \<and> a_infl a' = [] \<and> cache_entry_valid (ent c' i)
         \<or> i \<notin> a_cached a' \<and> a_infl a' = [i] \<and> \<not> cache_entry_valid (ent c' i))"
proof -
  have f: "fit B c a" "a_infl a = []" and ok: "a_ok B a" and cap: "0 < a_cap a"
    using assms rep_facts(4) by (auto simp: idle_def fit_def)
  obtain r c' a' where g: "cache_get_entry key c = Some (r, c')" "a_get key a = Some (r, a')" "fit B c' a'"
    using fit_get [OF f(1)] .
  obtain b where b: "a_get_noref key a = Some (r, b)"
    and a': "a' = (case r of None \<Rightarrow> b | Some i \<Rightarrow> a_upd i (\<lambda>k. k\<lparr>k_ref := uinc (k_ref k)\<rparr>) b)"
    using a_get_ref [OF g(2)] .
  note k = noref_kept [OF b ok cap]
  obtain r2 a2 where get: "a_get key a = Some (r2, a2)" "case r2 of Some i \<Rightarrow> i \<in> a_cached a2 \<union> set (a_infl a2) \<and> k_key (a_cont a2 i) = key
     | None \<Rightarrow> a2 = a \<and> a_cap a \<le> a_inuse a"
    using get_ok [OF ok cap, of key] by (auto split: option.splits)
  have l: "a_cached a' = a_cached b" "a_infl a' = a_infl b" "a_cleanup a' = a_cleanup b" "a_cleaned a' = a_cleaned b"
    by (auto simp: a' a_upd_def a_cached_def split: option.split)
  have c: "k_key (a_cont a' j) = k_key (a_cont b j) \<and> dat a' j = dat b j" for j
    by (auto simp: a' a_upd_def split: option.split)
  have kept: "kept a a'"
    using k c unfolding kept_def l by simp
  show thesis
  proof (rule that [OF g(1,3) kept]; intro allI impI)
    assume "r = None"
    then have "a' = a \<and> a_cap a \<le> a_inuse a"
      using get g(2) by (simp split: option.splits)
    then show "idle B c' a' \<and> a' = a \<and> a_cap a \<le> a_inuse a"
      using g(3) f(2) by (simp add: idle_def)
  next
    fix i
    assume r: "r = Some i"
    then have i: "i \<in> a_cached a' \<union> set (a_infl a')" "k_key (a_cont a' i) = key"
      using get g(2) by (simp_all add: r split: option.splits)
    have core: "a_core B a'"
      using g(3) by (simp add: fit_def a_ok_def a_inv_def)
    have "dat a' i \<noteq> None"
      using i(1) a_core_modes(1,2) [OF core, of i] by auto
    moreover have "\<forall>j. k_ref (a_cont a' j) = (if j = i then uinc (k_ref (a_cont a j)) else k_ref (a_cont a j))"
      using k by (simp add: a' r a_upd_def same_refs_def)
    moreover have "i \<in> a_cached a' \<and> a_infl a' = [] \<or> i \<notin> a_cached a' \<and> a_infl a' = [i]"
      using k f(2) r i(1) not_cached [OF core, of i] by (auto simp: l)
    ultimately show "k_key (a_cont a' i) = key \<and> dat a' i \<noteq> None
      \<and> (\<forall>j. k_ref (a_cont a' j) = (if j = i then uinc (k_ref (a_cont a j)) else k_ref (a_cont a j)))
      \<and> (i \<in> a_cached a' \<and> a_infl a' = [] \<and> cache_entry_valid (ent c' i)
         \<or> i \<notin> a_cached a' \<and> a_infl a' = [i] \<and> \<not> cache_entry_valid (ent c' i))"
      using i(2) fit_member(3) [OF g(3) i(1)] by auto
  qed
qed

text \<open>A client releases an entry, inserts the one it got, or gives it up.\<close>

definition same_entries :: "acache \<Rightarrow> acache \<Rightarrow> bool" where
  "same_entries a a' \<longleftrightarrow> (\<forall>j. k_key (a_cont a' j) = k_key (a_cont a j) \<and> dat a' j = dat a j)
     \<and> a_cleanup a' = a_cleanup a \<and> a_cleaned a' = a_cleaned a"

lemma fit_core: "fit B c a \<Longrightarrow> a_core B a"
  by (simp add: fit_def a_ok_def a_inv_def)

lemma use_put:
  assumes "fit B c a" and "i \<in> a_cached a \<union> set (a_infl a)"
  shows "fit B (cache_put_entry i c) (a_put i a)" and "same_entries a (a_put i a)" and "a_cached (a_put i a) = a_cached a"
    and "a_infl (a_put i a) = a_infl a" and "k_ref (a_cont (a_put i a) j) = (if j = i then udec (k_ref (a_cont a j)) else k_ref (a_cont a j))"
  using fit_put [OF assms] by (simp_all add: a_put_def a_upd_def same_entries_def a_cached_def)

lemma use_insert:
  assumes "fit B c a" and "a_infl a = [i]"
  shows "fit B (cache_insert i c) (a_insert i a)" and "same_entries a (a_insert i a)" and "a_cached (a_insert i a) = insert i (a_cached a)"
    and "a_infl (a_insert i a) = []" and "k_ref (a_cont (a_insert i a) j) = k_ref (a_cont a j)"
proof -
  have i: "i \<in> a_cached a \<union> set (a_infl a)" "k_state (a_cont a i) \<noteq> Cs_valid"
    using assms a_core_modes(2) [OF fit_core [OF assms(1)], of i] by auto
  show "fit B (cache_insert i c) (a_insert i a)"
    using fit_insert [OF assms(1) i(1)] .
  show "same_entries a (a_insert i a)" "a_cached (a_insert i a) = insert i (a_cached a)" "a_infl (a_insert i a) = []"
    "k_ref (a_cont (a_insert i a) j) = k_ref (a_cont a j)"
    using i(2) assms(2)
    by (cases "k_state (a_cont a i)"; simp add: a_insert_def a_upd_def same_entries_def a_cached_def)+
qed

lemma use_discard:
  assumes "fit B c a" and "a_infl a = [i]" and "k_ref (a_cont a i) = 1"
  shows "fit B (cache_discard i c) (a_discard i a)" and "same_entries a (a_discard i a)" and "a_cached (a_discard i a) = a_cached a"
    and "a_infl (a_discard i a) = []" and "k_ref (a_cont (a_discard i a) j) = (if j = i then 0 else k_ref (a_cont a j))"
proof -
  have r: "rep c a"
    using assms(1) by (simp add: fit_def)
  have v: "k_state (a_cont a i) \<noteq> Cs_valid"
    using assms(2) a_core_modes(2) [OF fit_core [OF assms(1)], of i] by simp
  have "i < 2 * a_cap a"
    using inv_less [of B _ _ _ _ _ _ i] fit_core [OF assms(1)] assms(2) by (auto simp: a_core_def)
  then have "held i c" "may_discard i c"
    using assms(2,3) fit_data(2) [OF assms(1), of i] rep_facts(2,7) [OF r] by (simp_all add: held_def may_discard_def)
  then show "fit B (cache_discard i c) (a_discard i a)"
    using fit_discard [OF assms(1)] by blast
  show "same_entries a (a_discard i a)" "a_cached (a_discard i a) = a_cached a" "a_infl (a_discard i a) = []"
    "k_ref (a_cont (a_discard i a) j) = (if j = i then 0 else k_ref (a_cont a j))"
    using v assms(2,3) by (simp_all add: a_discard_def a_put_def a_upd_def same_entries_def a_cached_def Let_def udec_pos)
qed

lemma use_set_data:
  assumes "fit B c a" and "a_infl a = [i]"
  obtains B' where "fit B' (upd i (set_data (Some d)) c) (a_set_data i (Some d) a)"
proof -
  have r: "rep c a" and ok: "a_ok B a" and core: "a_core B a"
    using assms(1) fit_core by (auto simp: fit_def)
  define a' where "a' = a_set_data i (Some d) a"
  have rep: "rep (upd i (set_data (Some d)) c) a'"
    unfolding a'_def using assms(2) by (intro rep_set_data [OF r]) simp
  obtain e where e: "dat a i = Some e" and st: "k_state (a_cont a i) \<noteq> Cs_valid"
    using a_core_modes(2) [OF core, of i] assms(2) by auto
  have s: "inv_sets B (2 * a_cap a) (a_cached a) {i} (set (a_ghosts a)) (set (a_unused a)) (a_cont a)" and d: "distinct (a_main a @ a_infl a)"
    using core assms(2) by (simp_all add: a_core_def)
  note s' = inv_setsD [OF s]
  have i: "i < 2 * a_cap a" "i \<notin> a_cached a" "i \<notin> set (a_ghosts a)" "i \<notin> set (a_unused a)"
    using parts_mem(2) [OF s'(1), of i] inv_less [OF s] by auto
  define B' where "B' = B - {#e#} + {#d#}"
  have "e \<in># B"
    using a_core_elem [OF core _ e] assms(2) by simp
  then have "bufs B' (2 * a_cap a) (a_cont a')"
    unfolding a'_def a_set_data_simps using e by (intro bufs_upd [OF s'(2) i(1)]) (simp add: B'_def)
  moreover have "modes (a_cached a) {i} (set (a_ghosts a)) (set (a_unused a)) (a_cont a')"
    unfolding a'_def a_set_data_simps using i st by (intro modes_upd [OF s'(3)]) simp_all
  moreover have "keys (a_cached a \<union> {i} \<union> set (a_ghosts a)) (a_cont a')"
    unfolding a'_def a_set_data_simps using s'(4) by (subst keys_same) simp_all
  ultimately have "a_core B' a'"
    using s'(1) d assms(2) by (simp add: a_core_def inv_sets_def a'_def)
  moreover have u: "\<forall>j\<in>set (a_unused a). dat a' j = dat a j" and un: "a_unused a' = a_unused a"
    using i(4) by (auto simp: a'_def)
  have "a_ordered a'"
  proof -
    obtain us ds where "a_unused a = us @ ds" "\<forall>i\<in>set us. dat a i = None" "\<forall>i\<in>set ds. dat a i \<noteq> None"
      using ok by (auto simp: a_ok_def a_inv_def a_ordered_def)
    then show ?thesis
      unfolding a_ordered_def un using u by (intro exI [of _ us] exI [of _ ds]) auto
  qed
  moreover have "spare a' = spare a"
    unfolding spare_def un using u by (intro filter_cong) auto
  then have "a_tight a'"
    using ok by (simp add: a_ok_def a_tight_def a'_def)
  ultimately have "a_ok B' a'"
    by (simp add: a_ok_def a_inv_def)
  with that rep show thesis
    by (simp add: fit_def a'_def)
qed

text \<open>Different entries have different buffers if all buffers are different.\<close>

lemma data_distinct:
  assumes "fit B c a" and "\<forall>d. count B d \<le> 1" and "i \<noteq> j" and "i \<in> a_cached a \<union> set (a_infl a)" and "j \<in> a_cached a \<union> set (a_infl a)"
  shows "dat a i \<noteq> dat a j"
proof
  assume eq: "dat a i = dat a j"
  have s: "inv_sets B (2 * a_cap a) (a_cached a) (set (a_infl a)) (set (a_ghosts a)) (set (a_unused a)) (a_cont a)"
    using fit_core [OF assms(1)] by (simp add: a_core_def)
  obtain d where d: "dat a i = Some d" "dat a j = Some d"
    using a_core_modes(1,2) [OF fit_core [OF assms(1)], of i] assms(4) eq by auto
  have l: "i < 2 * a_cap a" "j < 2 * a_cap a"
    using inv_less [OF s] assms(4,5) by auto
  have "(\<Sum>x<2 * a_cap a. opt_mset (dat a x)) = opt_mset (dat a i) + (opt_mset (dat a j) + (\<Sum>x\<in>{..<2 * a_cap a} - {i} - {j}. opt_mset (dat a x)))"
    using l assms(3) by (simp add: sum.remove [of "{..<2 * a_cap a}" i] sum.remove [of "{..<2 * a_cap a} - {i}" j])
  moreover have "(\<Sum>x<2 * a_cap a. opt_mset (dat a x)) = B"
    using inv_setsD(2) [OF s] by (simp add: bufs_def)
  ultimately have "count B d = count (add_mset d (add_mset d (\<Sum>x\<in>{..<2 * a_cap a} - {i} - {j}. opt_mset (dat a x)))) d"
    using d by simp
  then have "2 \<le> count B d"
    by simp
  then show False
    using assms(2) by (metis not_less_eq_eq numeral_2_eq_2 One_nat_def)
qed

lemma new_entry_ref:
  assumes "fit B c a" and "a_infl a = []" and "i \<notin> a_cached a" and "i < 2 * a_cap a"
  shows "k_ref (a_cont a i) = 0"
proof -
  have "parts {..<2 * a_cap a} (a_cached a) {} (set (a_ghosts a)) (set (a_unused a))"
    using fit_core [OF assms(1)] assms(2) by (simp add: a_core_def inv_sets_def)
  then have "i \<in> set (a_ghosts a) \<or> i \<in> set (a_unused a)"
    using assms(3,4) by (auto simp: parts_def)
  then show ?thesis
    using a_core_modes(3,4) [OF fit_core [OF assms(1)], of i] by auto
qed

lemma no_use_room:
  assumes "a_infl a = []" and "\<forall>i\<in>a_cached a. k_ref (a_cont a i) = 0" and "0 < a_cap a"
  shows "\<not> a_cap a \<le> a_inuse a"
proof -
  have "a_idle (a_prec a) a = a_prec a" "a_idle (a_probe a) a = a_probe a"
    using assms(2) by (auto simp: a_idle_def a_cached_def filter_id_conv)
  then show ?thesis
    using assms(1,3) by (simp add: a_inuse_def)
qed

end
