(* ===== verification/Fcache_Facts.thy ===== *)
theory Fcache_Facts
  imports Fcache Page_Cache_Use
begin

section \<open>The file cache shows the files\<close>

text \<open>
  The invariant of the file cache: a cached page buffer holds a page of a file, a cached mapping maps
  a block of it, and the key of the entry says which. It holds between all operations, so a read
  through the cache returns what is in the file.
\<close>

subsection \<open>Blocks and keys\<close>

lemma two_pow_mask: "(2 ^ n - 1 :: u64) = mask n"
  by (simp add: mask_eq_exp_minus_1)

lemma block_off: "n < 64 \<Longrightarrow> blk_off (2 ^ n) pos = unat pos mod 2 ^ n"
  unfolding blk_off_def two_pow_mask take_bit_eq_mask [symmetric] unsigned_take_bit_eq by (rule take_bit_eq_mod)

lemma block_parts:
  assumes "n < 64"
  shows "unat (blk_pos (2 ^ n) pos) + blk_off (2 ^ n) pos = unat pos" and "blk_off (2 ^ n) pos < 2 ^ n"
proof -
  show "blk_off (2 ^ n) pos < 2 ^ n"
    by (simp add: block_off assms)
  have "(pos AND NOT (mask n)) + (pos AND mask n) = pos"
    by (subst disjunctive_add) (auto simp: bit_simps intro: bit_eqI)
  then have b: "blk_pos (2 ^ n) pos = pos - take_bit n pos"
    by (simp add: blk_pos_def two_pow_mask take_bit_eq_mask algebra_simps)
  have t: "unat (take_bit n pos) = blk_off (2 ^ n) pos"
    by (simp add: blk_off_def two_pow_mask take_bit_eq_mask)
  have "blk_off (2 ^ n) pos \<le> unat pos"
    by (simp add: block_off assms)
  then show "unat (blk_pos (2 ^ n) pos) + blk_off (2 ^ n) pos = unat pos"
    by (simp add: b unat_sub word_le_nat_alt t)
qed

definition aligned :: "nat \<Rightarrow> u64 \<Rightarrow> bool" where
  "aligned n b \<longleftrightarrow> b AND mask n = 0"

lemma aligned_block: "m \<le> n \<Longrightarrow> aligned m (blk_pos (2 ^ n) pos)"
  by (auto simp: aligned_def blk_pos_def two_pow_mask bit_eq_iff bit_simps)

lemma file_key_inj:
  assumes "aligned p b" and "aligned p b'" and "f < 2 ^ p" and "f' < 2 ^ p" and "p < 64"
    and "b OR of_nat f = b' OR (of_nat f' :: u64)"
  shows "b = b' \<and> f = f'"
proof -
  have s: "take_bit p (of_nat x :: u64) = of_nat x \<and> (of_nat x :: u64) AND NOT (mask p) = 0" if "x < 2 ^ p" for x
  proof -
    have "take_bit p (of_nat x :: u64) = of_nat x"
      using that by (simp add: take_bit_of_nat take_bit_nat_eq_self)
    moreover from this have "(of_nat x :: u64) AND NOT (mask p) = 0"
      by (metis and.assoc and.right_idem and_zero_eq bit.conj_cancel_right take_bit_eq_mask)
    ultimately show ?thesis
      by blast
  qed
  have a: "b AND mask p = 0" "b' AND mask p = 0"
    using assms(1,2) by (simp_all add: aligned_def)
  have "take_bit p (b OR of_nat f) = of_nat f" "take_bit p (b' OR of_nat f') = of_nat f'"
    using s [OF assms(3)] s [OF assms(4)] a by (simp_all add: take_bit_or take_bit_eq_mask [of p b] take_bit_eq_mask [of p b'])
  then have ff: "(of_nat f :: u64) = of_nat f'"
    using assms(6) by simp
  have bnd: "x < 2 ^ 64" if "x < 2 ^ p" for x :: nat
    using that assms(5) by (meson less_le_trans one_le_numeral power_increasing less_imp_le_nat)
  have "unat (of_nat f :: u64) = f" "unat (of_nat f' :: u64) = f'"
    using bnd [OF assms(3)] bnd [OF assms(4)] by (simp_all add: unat_of_nat take_bit_nat_eq_self)
  then have "f = f'"
    using ff by metis
  moreover have "(b OR of_nat f) AND NOT (mask p) = b" "(b' OR of_nat f') AND NOT (mask p) = b'"
  proof -
    have n: "c AND NOT (mask p) = c" if "c AND mask p = 0" for c :: u64
      using that by (auto simp: bit_eq_iff bit_simps)
    show "(b OR of_nat f) AND NOT (mask p) = b" "(b' OR of_nat f') AND NOT (mask p) = b'"
      using s [OF assms(3)] s [OF assms(4)] n a by (simp_all add: bit.conj_disj_distrib2)
  qed
  ultimately show ?thesis
    using assms(6) by metis
qed

subsection \<open>Contents of files and buffers\<close>

text \<open>The bytes of a file from \<open>q\<close> on, followed by zeros.\<close>

definition file_bytes :: "os \<Rightarrow> nat \<Rightarrow> nat \<Rightarrow> nat \<Rightarrow> u8 list" where
  "file_bytes os fd q n = map (\<lambda>i. if i < length (os_file os fd) then os_file os fd ! i else 0) [q..<q + n]"

lemma file_bytes_length [simp]: "length (file_bytes os fd q n) = n"
  by (simp add: file_bytes_def)

lemma file_bytes_split: "file_bytes os fd q m @ file_bytes os fd (q + m) n = file_bytes os fd q (m + n)"
  using upt_add_eq_append [of q "q + m" n] by (simp add: file_bytes_def add.assoc)

lemma file_bytes_part: "off + k \<le> n \<Longrightarrow> take k (drop off (file_bytes os fd q n)) = file_bytes os fd (q + off) k"
  by (rule nth_equalityI) (auto simp: file_bytes_def add.assoc)

lemma file_bytes_read: "take n (drop q (os_file os fd)) @ replicate (n - length (take n (drop q (os_file os fd)))) 0 = file_bytes os fd q n"
  by (rule nth_equalityI) (auto simp: file_bytes_def nth_append)

lemma file_bytes_mapped:
  assumes "q + n \<le> (length (os_file os fd) + pg - 1) div pg * pg"
  shows "those (map (\<lambda>k. file_byte os pg fd (q + k)) [0..<n]) = Some (file_bytes os fd q n)"
proof -
  have "map (\<lambda>k. file_byte os pg fd (q + k)) [0..<n] = map Some (file_bytes os fd q n)"
    using assms by (intro nth_equalityI) (auto simp: file_bytes_def file_byte_def)
  moreover have "those (map Some xs) = Some xs" for xs :: "u8 list"
    by (induction xs) auto
  ultimately show ?thesis
    by metis
qed

subsection \<open>The invariant\<close>

text \<open>
  The operating system: an address that \<open>mmap\<close> chooses is not in use. The files: their sizes are those
  that \<open>fcache_new\<close> has found.
\<close>

definition os_ok :: "os \<Rightarrow> bool" where
  "os_ok os \<longleftrightarrow> (\<forall>used fd pos a. os_mmap os used fd pos = Some a \<longrightarrow> a \<notin> set used \<and> a \<noteq> MAP_FAILED)"

definition fc_geom :: "os \<Rightarrow> nat \<Rightarrow> nat \<Rightarrow> fcache \<Rightarrow> bool" where
  "fc_geom os p m fc \<longleftrightarrow> p \<le> m \<and> m < 63 \<and> fc_pgsz fc = 2 ^ p \<and> fc_mmapsz fc = 2 ^ m \<and> length (fc_info fc) \<le> 2 ^ p
     \<and> (\<forall>i\<in>set (fc_info fc). fi_filesz i = int (length (os_file os (fi_fd i))))"

text \<open>An entry with this key for this block of this file, as far as there is one.\<close>

definition names_block :: "fcache \<Rightarrow> nat \<Rightarrow> u64 \<Rightarrow> nat \<Rightarrow> u64 \<Rightarrow> bool" where
  "names_block fc p key fidx b \<longleftrightarrow> key = b OR of_nat fidx \<and> aligned p b \<and> fidx < length (fc_info fc)"

definition page_cached :: "os \<Rightarrow> fcache \<Rightarrow> nat \<Rightarrow> u64 \<Rightarrow> nat option \<Rightarrow> bool" where
  "page_cached os fc p key d \<longleftrightarrow> (\<exists>a fidx b. d = Some a \<and> names_block fc p key fidx b \<and> 0 \<le> sint b
     \<and> fc_mem fc a = file_bytes os (fi_fd (fc_info fc ! fidx)) (unat b) (2 ^ p))"

definition block_mapped :: "fcache \<Rightarrow> nat \<Rightarrow> u64 \<Rightarrow> nat option \<Rightarrow> bool" where
  "block_mapped fc p key d \<longleftrightarrow> (\<exists>a fidx b. d = Some a \<and> names_block fc p key fidx b
     \<and> (a = MAP_FAILED \<or> 0 \<le> sint b \<and> map_of (fc_maps fc) a = Some (fi_fd (fc_info fc ! fidx), sint b)))"

definition read_inv :: "os \<Rightarrow> nat \<Rightarrow> fcache \<Rightarrow> nat multiset \<Rightarrow> acache \<Rightarrow> bool" where
  "read_inv os p fc B a \<longleftrightarrow> idle B (fc_fbcache fc) a \<and> (\<forall>d. count B d \<le> 1)
     \<and> (\<forall>j\<in>a_cached a. page_cached os fc p (k_key (a_cont a j)) (dat a j))"

definition map_inv :: "nat \<Rightarrow> fcache \<Rightarrow> nat multiset \<Rightarrow> acache \<Rightarrow> bool" where
  "map_inv p fc B a \<longleftrightarrow> idle B (fc_cache fc) a
     \<and> (\<forall>j\<in>a_cached a. block_mapped fc p (k_key (a_cont a j)) (dat a j))
     \<and> (\<forall>i\<in>a_cached a. \<forall>j\<in>a_cached a. i \<noteq> j \<and> dat a i = dat a j \<longrightarrow> dat a i = Some MAP_FAILED)"

definition fc_inv :: "os \<Rightarrow> nat \<Rightarrow> nat \<Rightarrow> fcache \<Rightarrow> bool" where
  "fc_inv os p m fc \<longleftrightarrow> fc_geom os p m fc \<and> (\<exists>B a. read_inv os p fc B a) \<and> (\<exists>B a. map_inv p fc B a)"

subsection \<open>Reading a page\<close>

lemma sint_unat:
  fixes b :: u64 assumes "0 \<le> sint b"
  shows "nat (sint b) = unat b" and "unat b < 2 ^ 63"
proof -
  have "sint b < 2 ^ 63"
    using sint_lt [of b] by simp
  moreover have "uint b = take_bit 64 (sint b)"
    by (simp add: uint_sint)
  ultimately have "uint b = sint b"
    using assms by (simp add: take_bit_int_eq_self)
  then show "nat (sint b) = unat b" "unat b < 2 ^ 63"
    using \<open>sint b < 2 ^ 63\<close> by (simp_all add: unat_eq_nat_uint)
qed

lemma page_cached_frame:
  assumes "fc_info fc' = fc_info fc" and "\<And>a. d = Some a \<Longrightarrow> fc_mem fc' a = fc_mem fc a" and "page_cached os fc p key d"
  shows "page_cached os fc' p key d"
proof -
  obtain a f b where "d = Some a" "names_block fc p key f b" "0 \<le> sint b"
    "fc_mem fc a = file_bytes os (fi_fd (fc_info fc ! f)) (unat b) (2 ^ p)"
    using assms(3) unfolding page_cached_def by blast
  then show ?thesis
    unfolding page_cached_def names_block_def using assms(1,2)
    by (intro exI [of _ a] exI [of _ f] exI [of _ b]) simp
qed

lemma page_cached_block:
  assumes "page_cached os fc p (b OR of_nat fidx) d" and "aligned p b" and "fidx < length (fc_info fc)" and "length (fc_info fc) \<le> 2 ^ p" and "p < 64"
  obtains a where "d = Some a" and "0 \<le> sint b" and "fc_mem fc a = file_bytes os (fi_fd (fc_info fc ! fidx)) (unat b) (2 ^ p)"
proof -
  from assms(1) obtain a f c where a: "d = Some a" "b OR of_nat fidx = c OR of_nat f" "aligned p c" "f < length (fc_info fc)" "0 \<le> sint c"
    "fc_mem fc a = file_bytes os (fi_fd (fc_info fc ! f)) (unat c) (2 ^ p)"
    unfolding page_cached_def names_block_def by blast
  have "b = c \<and> fidx = f"
    using assms(3,4) a(4) by (intro file_key_inj [OF assms(2) a(3) _ _ assms(5) a(2)]) simp_all
  then show thesis
    using that a by simp
qed

lemma kept_data: "kept a a' \<Longrightarrow> j \<in> a_cached a' \<Longrightarrow> j \<in> a_cached a \<and> k_key (a_cont a' j) = k_key (a_cont a j) \<and> dat a' j = dat a j"
  by (auto simp: kept_def)

definition refs_le :: "nat \<Rightarrow> acache \<Rightarrow> bool" where
  "refs_le n a \<longleftrightarrow> (\<forall>j<2 * a_cap a. k_ref (a_cont a j) \<le> n)"

lemma member_less: "fit B c a \<Longrightarrow> i \<in> a_cached a \<union> set (a_infl a) \<Longrightarrow> i < 2 * a_cap a"
  using fit_core [of B c a] inv_less [of B _ "a_cached a" "set (a_infl a)" "set (a_ghosts a)" "set (a_unused a)" "a_cont a" i]
  by (auto simp: a_core_def)

lemma same_cap: "fit B c a \<Longrightarrow> fit B c' a' \<Longrightarrow> a_cap a' = a_cap a"
  using fit_cap rep_facts(2) by (metis fit_def)

text \<open>
  What a client does with the entry that it gets: it drops the reference of an entry that was there, or
  inserts a new one and drops the reference, or gives the new one up.
\<close>

lemma client_get:
  assumes "idle B c a" and "refs_le n a" and "n < UINT_SIZE - 1"
  obtains (busy) c' where "cache_get_entry key c = Some (None, c')" and "idle B c' a" and "a_cap a \<le> a_inuse a"
  | (hit) i c' a1 where "cache_get_entry key c = Some (Some i, c')" and "fit B c' a1" and "kept a a1" and "cache_entry_valid (ent c' i)"
      and "i \<in> a_cached a1" and "k_key (a_cont a1 i) = key" and "e_data (ent c' i) = dat a1 i" and "dat a1 i \<noteq> None"
      and "idle B (cache_put_entry i c') (a_put i a1)" and "same_refs a (a_put i a1)"
      and "\<And>j. k_ref (a_cont a1 j) = (if j = i then Suc (k_ref (a_cont a j)) else k_ref (a_cont a j))" and "a_infl a1 = []"
  | (new) i c' a1 where "cache_get_entry key c = Some (Some i, c')" and "fit B c' a1" and "kept a a1" and "\<not> cache_entry_valid (ent c' i)"
      and "i \<notin> a_cached a1" and "k_key (a_cont a1 i) = key" and "e_data (ent c' i) = dat a1 i" and "dat a1 i \<noteq> None"
      and "a_infl a1 = [i]" and "k_ref (a_cont a i) = 0"
      and "\<And>j. k_ref (a_cont a1 j) = (if j = i then 1 else k_ref (a_cont a j))"
proof -
  obtain r c' a1 where g1: "cache_get_entry key c = Some (r, c')" and g2: "fit B c' a1" and g3: "kept a a1"
    and none: "r = None \<longrightarrow> idle B c' a1 \<and> a1 = a \<and> a_cap a \<le> a_inuse a"
    and some: "\<forall>i. r = Some i \<longrightarrow> k_key (a_cont a1 i) = key \<and> dat a1 i \<noteq> None
      \<and> (\<forall>j. k_ref (a_cont a1 j) = (if j = i then uinc (k_ref (a_cont a j)) else k_ref (a_cont a j)))
      \<and> (i \<in> a_cached a1 \<and> a_infl a1 = [] \<and> cache_entry_valid (ent c' i)
         \<or> i \<notin> a_cached a1 \<and> a_infl a1 = [i] \<and> \<not> cache_entry_valid (ent c' i))"
    using idle_get [OF assms(1), of key] .
  note g = g1 g2 g3
  have f: "fit B c a" "a_infl a = []"
    using assms(1) by (simp_all add: idle_def)
  show thesis
  proof (cases r)
    case None
    then have "idle B c' a" "a_cap a \<le> a_inuse a"
      using none by auto
    then show ?thesis
      by (rule busy [OF g(1) [unfolded None]])
  next
    case (Some i)
    note s = some [rule_format, OF Some]
    have less: "i < 2 * a_cap a"
      using s member_less [OF g(2), of i] same_cap [OF f(1) g(2)] by auto
    then have inc: "uinc (k_ref (a_cont a i)) = Suc (k_ref (a_cont a i))"
      using le_less_trans [OF assms(2) [unfolded refs_le_def, rule_format, OF less] assms(3)] by (simp add: uinc_def)
    show ?thesis
    proof (cases "cache_entry_valid (ent c' i)")
      case True
      then have i: "i \<in> a_cached a1" "a_infl a1 = []"
        using s by auto
      then have m: "i \<in> a_cached a1 \<union> set (a_infl a1)"
        by simp
      note p = use_put [OF g(2) m]
      have ref: "k_ref (a_cont a1 j) = (if j = i then Suc (k_ref (a_cont a j)) else k_ref (a_cont a j))" for j
        using s inc by simp
      have same: "same_refs a (a_put i a1)"
        unfolding same_refs_def p(5) ref by (auto simp: udec_pos)
      have idle: "idle B (cache_put_entry i c') (a_put i a1)"
        using p(1,4) i by (simp add: idle_def)
      have k: "k_key (a_cont a1 i) = key" "dat a1 i \<noteq> None"
        using s by simp_all
      show ?thesis
        by (rule hit [OF g(1) [unfolded Some] g(2,3) True i(1) k(1) fit_data(1) [OF g(2)] k(2) idle same ref i(2)])
    next
      case False
      then have i: "i \<notin> a_cached a1" "a_infl a1 = [i]"
        using s by auto
      have zero: "k_ref (a_cont a i) = 0"
      proof (cases "i \<in> a_cached a")
        case True
        then show ?thesis
          using g(3) i(1) by (auto simp: kept_def)
      next
        case False
        then show ?thesis
          using new_entry_ref [OF f] less by blast
      qed
      have ref: "k_ref (a_cont a1 j) = (if j = i then 1 else k_ref (a_cont a j))" for j
        using s inc zero by simp
      have k: "k_key (a_cont a1 i) = key" "dat a1 i \<noteq> None"
        using s by simp_all
      show ?thesis
        by (rule new [OF g(1) [unfolded Some] g(2,3) False i(1) k(1) fit_data(1) [OF g(2)] k(2) i(2) zero ref])
    qed
  qed
qed

end
