(* ===== verification/Fcache_Reads.thy ===== *)
theory Fcache_Reads
  imports Fcache_Facts
begin

section \<open>Reads through the file cache\<close>

text \<open>
  One page that is read, one block that is mapped, and the loop over both: whatever the caches hold, the
  bytes that a read delivers are those of the file.
\<close>

subsection \<open>A page that is read\<close>

lemma unat_two_pow:
  assumes "n < 64"
  shows "unat (2 ^ n :: u64) = 2 ^ n"
proof -
  have "(2 ^ n :: nat) < 2 ^ 64"
    using assms by (intro power_strict_increasing) simp_all
  then have "unat (of_nat (2 ^ n) :: u64) = 2 ^ n"
    unfolding unat_of_nat by (simp add: take_bit_nat_eq_self)
  then show ?thesis
    by simp
qed

text \<open>What a lookup of a page leaves as it is.\<close>

definition fb_frame :: "fcache \<Rightarrow> fcache \<Rightarrow> bool" where
  "fb_frame fc fc' \<longleftrightarrow> (\<exists>c m. fc' = fc\<lparr>fc_fbcache := c, fc_mem := m\<rparr>)"

lemma fb_frameD:
  assumes "fb_frame fc fc'"
  shows "fc_info fc' = fc_info fc" and "fc_cache fc' = fc_cache fc" and "fc_maps fc' = fc_maps fc" and "fc_policy fc' = fc_policy fc"
    and "fc_geom os p m fc' = fc_geom os p m fc" and "map_inv p fc' B a = map_inv p fc B a"
proof -
  obtain c mem where e: "fc' = fc\<lparr>fc_fbcache := c, fc_mem := mem\<rparr>"
    using assms fb_frame_def by blast
  show "fc_info fc' = fc_info fc" "fc_cache fc' = fc_cache fc" "fc_maps fc' = fc_maps fc" "fc_policy fc' = fc_policy fc"
    "fc_geom os p m fc' = fc_geom os p m fc" "map_inv p fc' B a = map_inv p fc B a"
    unfolding e by (simp_all add: fc_geom_def map_inv_def block_mapped_def names_block_def)
qed

lemma read_inv_kept:
  assumes "read_inv os p fc B a" and "kept a a1" and "same_entries a1 a2" and "a_cached a2 \<subseteq> a_cached a1" and "idle B c a2"
  shows "read_inv os p (fc\<lparr>fc_fbcache := c\<rparr>) B a2"
  unfolding read_inv_def
proof (intro conjI ballI)
  show "idle B (fc_fbcache (fc\<lparr>fc_fbcache := c\<rparr>)) a2"
    using assms(5) by simp
  show "\<forall>d. count B d \<le> 1"
    using assms(1) by (simp add: read_inv_def)
  fix j
  assume "j \<in> a_cached a2"
  then have "j \<in> a_cached a1"
    using assms(4) by blast
  note k = kept_data [OF assms(2) this]
  have s: "k_key (a_cont a2 j) = k_key (a_cont a1 j)" "dat a2 j = dat a1 j"
    using assms(3) by (simp_all add: same_entries_def)
  have j: "j \<in> a_cached a" "k_key (a_cont a2 j) = k_key (a_cont a j)" "dat a2 j = dat a j"
    using k s by simp_all
  have pc: "page_cached os fc p (k_key (a_cont a j)) (dat a j)"
    using assms(1) j(1) by (simp add: read_inv_def)
  show "page_cached os (fc\<lparr>fc_fbcache := c\<rparr>) p (k_key (a_cont a2 j)) (dat a2 j)"
    unfolding j(2,3) by (rule page_cached_frame [OF _ _ pc]) simp_all
qed

lemma page_bytes:
  assumes "fc_mem fc x = file_bytes os fd (unat (blk_pos (2 ^ p) pos)) (2 ^ p)" and "p < 64" and "k \<le> 2 ^ p - blk_off (2 ^ p) pos"
  shows "fce_bytes os fc (Paged x (blk_off (2 ^ p) pos)) k = Some (file_bytes os fd (unat pos) k)"
proof -
  have k: "blk_off (2 ^ p) pos + k \<le> 2 ^ p"
    using assms(3) block_parts(2) [OF assms(2), of pos] by linarith
  then show ?thesis
    using file_bytes_part [OF k, of os fd "unat (blk_pos (2 ^ p) pos)"] block_parts(1) [OF assms(2), of pos]
    by (simp add: fce_bytes_def assms(1))
qed

lemma get_read:
  assumes "fc_geom os p m fc" and "read_inv os p fc B a" and "refs_le n a" and "n < UINT_SIZE - 1" and "fidx < length (fc_info fc)"
  defines "fd \<equiv> fi_fd (fc_info fc ! fidx)"
  obtains (busy) fc' where "fcache_get_read os fidx pos fc = Some (Inl KDUMP_ERR_BUSY, fc')" and "fb_frame fc fc'"
      and "read_inv os p fc' B a" and "a_cap a \<le> a_inuse a"
  | (error) fc' a' where "fcache_get_read os fidx pos fc = Some (Inl KDUMP_ERR_SYSTEM, fc')" and "fb_frame fc fc'"
      and "read_inv os p fc' B a'" and "same_refs a a'" and "sint (blk_pos (2 ^ p) pos) < 0 \<or> os_pread_fails os fd (sint (blk_pos (2 ^ p) pos))"
  | (ok) fce fc' a' where "fcache_get_read os fidx pos fc = Some (Inr fce, fc')" and "fb_frame fc (fcache_put fce fc')"
      and "read_inv os p (fcache_put fce fc') B a'" and "same_refs a a'" and "fce_len fce = 2 ^ p - unat pos mod 2 ^ p"
      and "\<forall>k\<le>fce_len fce. fce_bytes os fc' (fce_data fce) k = Some (file_bytes os fd (unat pos) k)"
proof -
  have pgsz: "fc_pgsz fc = 2 ^ p" and p: "p < 64" and info: "length (fc_info fc) \<le> 2 ^ p"
    using assms(1) by (auto simp: fc_geom_def)
  have usz: "unat (2 ^ p :: u64) = 2 ^ p"
    using p by (rule unat_two_pow)
  have idle: "idle B (fc_fbcache fc) a" and cnt: "\<forall>d. count B d \<le> 1"
    and pages: "\<forall>j\<in>a_cached a. page_cached os fc p (k_key (a_cont a j)) (dat a j)"
    using assms(2) by (simp_all add: read_inv_def)
  define blk where "blk = blk_pos (2 ^ p) pos"
  define key where "key = blk OR of_nat fidx"
  have al: "aligned p blk"
    using aligned_block by (simp add: blk_def)
  note offs = block_off [OF p, of pos]
  show thesis
  proof (rule client_get [OF idle assms(3,4), of key])
    fix c'
    assume g: "cache_get_entry key (fc_fbcache fc) = Some (None, c')" and "idle B c' a" and full: "a_cap a \<le> a_inuse a"
    then have "read_inv os p (fc\<lparr>fc_fbcache := c'\<rparr>) B a"
      by (intro read_inv_kept [OF assms(2) kept_refl]) (auto simp: same_entries_def)
    moreover have "fcache_get_read os fidx pos fc = Some (Inl KDUMP_ERR_BUSY, fc\<lparr>fc_fbcache := c'\<rparr>)"
      using g by (simp add: fcache_get_read_def pgsz blk_def key_def Let_def)
    moreover have "fb_frame fc (fc\<lparr>fc_fbcache := c'\<rparr>)"
      unfolding fb_frame_def by (intro exI [of _ c'] exI [of _ "fc_mem fc"]) simp
    ultimately show thesis
      using full busy by blast
  next
    fix i c' a1
    assume g: "cache_get_entry key (fc_fbcache fc) = Some (Some i, c')" and f: "fit B c' a1" and k: "kept a a1"
      and v: "cache_entry_valid (ent c' i)" and i: "i \<in> a_cached a1" and ki: "k_key (a_cont a1 i) = key"
      and ed: "e_data (ent c' i) = dat a1 i" and "dat a1 i \<noteq> None" and put: "idle B (cache_put_entry i c') (a_put i a1)"
      and refs: "same_refs a (a_put i a1)"
    then obtain x where x: "dat a1 i = Some x"
      by blast
    define fc' where "fc' = fc\<lparr>fc_fbcache := c'\<rparr>"
    define fce where "fce = \<lparr>fce_len = 2 ^ p - blk_off (2 ^ p) pos, fce_data = Paged x (blk_off (2 ^ p) pos), fce_ce = i\<rparr>"
    have put': "fcache_put fce fc' = fc\<lparr>fc_fbcache := cache_put_entry i c'\<rparr>"
      by (simp add: fcache_put_def fce_def fc'_def)
    have "i \<in> a_cached a1 \<union> set (a_infl a1)"
      using i by simp
    note u = use_put [OF f this]
    have inv: "read_inv os p (fcache_put fce fc') B (a_put i a1)"
      unfolding put' by (rule read_inv_kept [OF assms(2) k u(2) _ put]) (simp add: u(3))
    have "page_cached os fc p (blk OR of_nat fidx) (Some x)"
      using kept_data [OF k i] pages ki x by (auto simp: key_def)
    then have mem: "fc_mem fc x = file_bytes os fd (unat blk) (2 ^ p)"
      by (rule page_cached_block [OF _ al assms(5) info p]) (simp add: fd_def)
    have get: "fcache_get_read os fidx pos fc = Some (Inr fce, fc')"
      using g v ed x by (simp add: fcache_get_read_def pgsz usz blk_def key_def fce_def fc'_def Let_def)
    have frame: "fb_frame fc (fcache_put fce fc')"
      unfolding put' fb_frame_def by (intro exI [of _ "cache_put_entry i c'"] exI [of _ "fc_mem fc"]) simp
    have "\<forall>k\<le>fce_len fce. fce_bytes os fc' (fce_data fce) k = Some (file_bytes os fd (unat pos) k)"
      using mem p by (auto simp: fce_def blk_def fc'_def intro!: page_bytes)
    then show thesis
      using offs by (intro ok [OF get frame inv refs]) (simp_all add: fce_def)
  next
    fix i c' a1
    assume g: "cache_get_entry key (fc_fbcache fc) = Some (Some i, c')" and f: "fit B c' a1" and k: "kept a a1"
      and v: "\<not> cache_entry_valid (ent c' i)" and i: "i \<notin> a_cached a1" and ki: "k_key (a_cont a1 i) = key"
      and ed: "e_data (ent c' i) = dat a1 i" and "dat a1 i \<noteq> None" and infl: "a_infl a1 = [i]" and zero: "k_ref (a_cont a i) = 0"
      and r1: "\<And>j. k_ref (a_cont a1 j) = (if j = i then 1 else k_ref (a_cont a j))"
    then obtain x where x: "dat a1 i = Some x"
      by blast
    show thesis
    proof (cases "sys_pread os fd (2 ^ p) (sint blk)")
      case None
      define fc' where "fc' = fc\<lparr>fc_fbcache := cache_discard i c'\<rparr>"
      have "k_ref (a_cont a1 i) = 1"
        using r1 by simp
      note u = use_discard [OF f infl this]
      have inv: "read_inv os p fc' B (a_discard i a1)"
        unfolding fc'_def by (rule read_inv_kept [OF assms(2) k u(2)]) (simp_all add: u(1,3,4) idle_def)
      have refs: "same_refs a (a_discard i a1)"
        using zero by (simp add: same_refs_def u(5) r1)
      have get: "fcache_get_read os fidx pos fc = Some (Inl KDUMP_ERR_SYSTEM, fc')"
        using g v ed x None by (simp add: fcache_get_read_def pgsz usz blk_def key_def fc'_def fd_def Let_def)
      have frame: "fb_frame fc fc'"
        unfolding fc'_def fb_frame_def by (intro exI [of _ "cache_discard i c'"] exI [of _ "fc_mem fc"]) simp
      have "sint blk < 0 \<or> os_pread_fails os fd (sint blk)"
        using None by (simp add: sys_pread_def split: if_splits)
      then show thesis
        by (intro error [OF get frame inv refs]) (simp add: blk_def)
    next
      case (Some bs)
      define page where "page = bs @ replicate (2 ^ p - length bs) 0"
      define c2 where "c2 = cache_insert i c'"
      define a2 where "a2 = a_insert i a1"
      define fc' where "fc' = fc\<lparr>fc_mem := (fc_mem fc)(x := page), fc_fbcache := c2\<rparr>"
      define fce where "fce = \<lparr>fce_len = 2 ^ p - blk_off (2 ^ p) pos, fce_data = Paged x (blk_off (2 ^ p) pos), fce_ce = i\<rparr>"
      have nn: "0 \<le> sint blk" and bs: "bs = take (2 ^ p) (drop (nat (sint blk)) (os_file os fd))"
        using Some by (auto simp: sys_pread_def split: if_splits)
      have page: "page = file_bytes os fd (unat blk) (2 ^ p)"
        unfolding page_def bs sint_unat(1) [OF nn] by (rule file_bytes_read)
      note u = use_insert [OF f infl, folded a2_def c2_def]
      have "i \<in> a_cached a2 \<union> set (a_infl a2)"
        using u(3) by simp
      note w = use_put [OF u(1) this]
      have put': "fcache_put fce fc' = fc'\<lparr>fc_fbcache := cache_put_entry i c2\<rparr>"
        by (simp add: fcache_put_def fce_def fc'_def)
      have idle': "idle B (cache_put_entry i c2) (a_put i a2)"
        using w(1,4) u(4) by (simp add: idle_def)
      have same: "k_key (a_cont (a_put i a2) j) = k_key (a_cont a1 j) \<and> dat (a_put i a2) j = dat a1 j" for j
        using w(2) u(2) by (simp add: same_entries_def)
      have inv: "read_inv os p (fcache_put fce fc') B (a_put i a2)"
        unfolding read_inv_def
      proof (intro conjI ballI)
        show "idle B (fc_fbcache (fcache_put fce fc')) (a_put i a2)"
          using idle' by (simp add: put')
        show "\<forall>d. count B d \<le> 1"
          by (rule cnt)
        fix j
        assume j: "j \<in> a_cached (a_put i a2)"
        show "page_cached os (fcache_put fce fc') p (k_key (a_cont (a_put i a2) j)) (dat (a_put i a2) j)"
        proof (cases "j = i")
          case True
          show ?thesis
            unfolding page_cached_def names_block_def put' using same [of i] ki x al assms(5) nn page
            by (intro exI [of _ x] exI [of _ fidx] exI [of _ blk]) (simp add: True key_def fc'_def fd_def)
        next
          case False
          then have j: "j \<in> a_cached a1"
            using j w(3) u(3) by simp
          have neq: "dat a1 j \<noteq> Some x"
            using data_distinct [OF f cnt False] j infl x by auto
          show ?thesis
          proof (rule page_cached_frame [where fc = fc])
            show "page_cached os fc p (k_key (a_cont (a_put i a2) j)) (dat (a_put i a2) j)"
              using same [of j] kept_data [OF k j] pages by auto
            show "fc_mem (fcache_put fce fc') y = fc_mem fc y" if "dat (a_put i a2) j = Some y" for y
              using that neq same [of j] unfolding put' by (auto simp: fc'_def)
            show "fc_info (fcache_put fce fc') = fc_info fc"
              unfolding put' by (simp add: fc'_def)
          qed
        qed
      qed
      have refs: "same_refs a (a_put i a2)"
        using zero by (simp add: same_refs_def w(5) u(5) r1 udec_pos)
      have get: "fcache_get_read os fidx pos fc = Some (Inr fce, fc')"
        using g v ed x Some by (simp add: fcache_get_read_def pgsz usz blk_def key_def fce_def fc'_def fd_def page_def c2_def Let_def)
      have frame: "fb_frame fc (fcache_put fce fc')"
        unfolding put' fb_frame_def
        by (intro exI [of _ "cache_put_entry i c2"] exI [of _ "(fc_mem fc)(x := page)"]) (simp add: fc'_def)
      have "\<forall>k\<le>fce_len fce. fce_bytes os fc' (fce_data fce) k = Some (file_bytes os fd (unat pos) k)"
        using page p by (auto simp: fce_def blk_def fc'_def intro!: page_bytes)
      then show thesis
        using offs by (intro ok [OF get frame inv refs]) (simp_all add: fce_def)
    qed
  qed
qed

subsection \<open>A block that is mapped\<close>

definition map_frame :: "fcache \<Rightarrow> fcache \<Rightarrow> bool" where
  "map_frame fc fc' \<longleftrightarrow> (\<exists>c m. fc' = fc\<lparr>fc_cache := c, fc_maps := m\<rparr>)"

lemma map_frame_cache:
  assumes "map_frame fc fc'"
  shows "map_frame fc (fc'\<lparr>fc_cache := c\<rparr>)"
proof -
  obtain c' m where "fc' = fc\<lparr>fc_cache := c', fc_maps := m\<rparr>"
    using assms map_frame_def by blast
  then show ?thesis
    unfolding map_frame_def by (intro exI [of _ c] exI [of _ m]) simp
qed

lemma map_frame_trans:
  assumes "map_frame fc fc'" and "map_frame fc' fc''"
  shows "map_frame fc fc''"
proof -
  obtain c m where "fc' = fc\<lparr>fc_cache := c, fc_maps := m\<rparr>"
    using assms(1) map_frame_def by blast
  moreover obtain c' m' where "fc'' = fc'\<lparr>fc_cache := c', fc_maps := m'\<rparr>"
    using assms(2) map_frame_def by blast
  ultimately show ?thesis
    unfolding map_frame_def by (intro exI [of _ c'] exI [of _ m']) simp
qed

lemma map_frameD:
  assumes "map_frame fc fc'"
  shows "fc_info fc' = fc_info fc" and "fc_fbcache fc' = fc_fbcache fc" and "fc_mem fc' = fc_mem fc" and "fc_policy fc' = fc_policy fc"
    and "fc_geom os p m fc' = fc_geom os p m fc" and "read_inv os p fc' B a = read_inv os p fc B a"
proof -
  obtain c maps where e: "fc' = fc\<lparr>fc_cache := c, fc_maps := maps\<rparr>"
    using assms map_frame_def by blast
  show "fc_info fc' = fc_info fc" "fc_fbcache fc' = fc_fbcache fc" "fc_mem fc' = fc_mem fc" "fc_policy fc' = fc_policy fc"
    "fc_geom os p m fc' = fc_geom os p m fc" "read_inv os p fc' B a = read_inv os p fc B a"
    unfolding e by (simp_all add: fc_geom_def read_inv_def page_cached_def names_block_def)
qed

text \<open>The destructor unmaps the blocks of the entries that were evicted, and no other.\<close>

lemma map_of_filter_other: "x \<noteq> a \<Longrightarrow> map_of (filter (\<lambda>m. fst m \<noteq> a) ms) x = map_of ms x"
  by (induction ms) auto

lemma unmap_list:
  obtains ms where "fold (\<lambda>(i, ce). unmap_entry ce) l fc = fc\<lparr>fc_maps := ms\<rparr>"
    and "\<forall>x. (\<forall>ce\<in>snd ` set l. e_data ce \<noteq> Some x) \<longrightarrow> map_of ms x = map_of (fc_maps fc) x"
proof (induction l arbitrary: fc thesis)
  case Nil
  then show ?case
    by (metis (no_types, lifting) fcache.surjective fcache.update_convs(9) fold_simps(1))
next
  case (Cons ce l)
  obtain i e where ce: "ce = (i, e)"
    by (cases ce)
  obtain ms0 where u: "unmap_entry e fc = fc\<lparr>fc_maps := ms0\<rparr>" "\<forall>x. e_data e \<noteq> Some x \<longrightarrow> map_of ms0 x = map_of (fc_maps fc) x"
  proof (cases "e_data e = None \<or> e_data e = Some MAP_FAILED")
    case True
    then show ?thesis
      using that [of "fc_maps fc"] by (auto simp: unmap_entry_def)
  next
    case False
    then obtain a where "e_data e = Some a" "a \<noteq> MAP_FAILED"
      by auto
    then show ?thesis
      using that [of "filter (\<lambda>m. fst m \<noteq> a) (fc_maps fc)"] map_of_filter_other [of _ a "fc_maps fc"]
      by (auto simp: unmap_entry_def sys_munmap_def)
  qed
  obtain ms where "fold (\<lambda>(i, ce). unmap_entry ce) l (fc\<lparr>fc_maps := ms0\<rparr>) = fc\<lparr>fc_maps := ms0\<rparr>\<lparr>fc_maps := ms\<rparr>"
    "\<forall>x. (\<forall>ce\<in>snd ` set l. e_data ce \<noteq> Some x) \<longrightarrow> map_of ms x = map_of (fc_maps (fc\<lparr>fc_maps := ms0\<rparr>)) x"
    using Cons.IH [of "fc\<lparr>fc_maps := ms0\<rparr>"] by blast
  then show ?case
    using u by (intro Cons.prems [of ms]) (simp_all add: ce)
qed

lemma cleanups:
  assumes "fit B c a" and "fit B' c' a1" and "kept a a1"
  obtains ms where "run_cleanups c (fc\<lparr>fc_cache := c'\<rparr>) = fc\<lparr>fc_cache := c', fc_maps := ms\<rparr>"
    and "\<forall>x. (\<forall>j\<in>a_cached a - a_cached a1. dat a j \<noteq> Some x) \<longrightarrow> map_of ms x = map_of (fc_maps fc) x"
proof -
  define new where "new = drop (length (c_cleaned c)) (c_cleaned c')"
  obtain l where l: "a_cleaned a1 = a_cleaned a @ l" "\<forall>(j, k)\<in>set l. j \<in> a_cached a \<and> j \<notin> a_cached a1 \<and> k_data k = dat a j"
    using assms(3) by (auto simp: kept_def)
  have c: "map (\<lambda>(i, e). (i, cont e)) (c_cleaned c) = a_cleaned a" "map (\<lambda>(i, e). (i, cont e)) (c_cleaned c') = a_cleaned a1"
    using assms(1,2) by (simp_all add: fit_def rep_def rep_core_def)
  have "length (c_cleaned c) = length (a_cleaned a)"
    using c(1) by (metis length_map)
  then have new: "map (\<lambda>(i, e). (i, cont e)) new = l"
    using c(2) l(1) by (simp add: new_def drop_map [symmetric])
  have data: "\<exists>j\<in>a_cached a - a_cached a1. e_data e = dat a j" if "(i, e) \<in> set new" for i e
  proof -
    have "(i, cont e) \<in> set l"
      using that new by force
    then show ?thesis
      using l(2) by (intro bexI [of _ i]) (auto simp: cont_def)
  qed
  obtain ms where ms: "fold (\<lambda>(i, ce). unmap_entry ce) new (fc\<lparr>fc_cache := c'\<rparr>) = fc\<lparr>fc_cache := c'\<rparr>\<lparr>fc_maps := ms\<rparr>"
    "\<forall>x. (\<forall>ce\<in>snd ` set new. e_data ce \<noteq> Some x) \<longrightarrow> map_of ms x = map_of (fc_maps (fc\<lparr>fc_cache := c'\<rparr>)) x"
    using unmap_list [of new "fc\<lparr>fc_cache := c'\<rparr>"] by blast
  show thesis
  proof (rule that)
    show "run_cleanups c (fc\<lparr>fc_cache := c'\<rparr>) = fc\<lparr>fc_cache := c', fc_maps := ms\<rparr>"
      using ms(1) by (simp add: run_cleanups_def new_def)
    show "\<forall>x. (\<forall>j\<in>a_cached a - a_cached a1. dat a j \<noteq> Some x) \<longrightarrow> map_of ms x = map_of (fc_maps fc) x"
    proof (intro allI impI)
      fix x
      assume x: "\<forall>j\<in>a_cached a - a_cached a1. dat a j \<noteq> Some x"
      have "\<forall>ce\<in>snd ` set new. e_data ce \<noteq> Some x"
        using data x by fastforce
      then show "map_of ms x = map_of (fc_maps fc) x"
        using ms(2) by simp
    qed
  qed
qed

text \<open>What the cached entries say of the mappings.\<close>

definition blocks :: "nat \<Rightarrow> fcache \<Rightarrow> acache \<Rightarrow> bool" where
  "blocks p fc a \<longleftrightarrow> (\<forall>j\<in>a_cached a. block_mapped fc p (k_key (a_cont a j)) (dat a j))
     \<and> (\<forall>i\<in>a_cached a. \<forall>j\<in>a_cached a. i \<noteq> j \<and> dat a i = dat a j \<longrightarrow> dat a i = Some MAP_FAILED)"

lemma map_inv_blocks: "map_inv p fc B a \<longleftrightarrow> idle B (fc_cache fc) a \<and> blocks p fc a"
  by (simp add: map_inv_def blocks_def)

lemma block_mapped_frame:
  assumes "block_mapped fc p key d" and "fc_info fc' = fc_info fc"
    and "\<And>x. d = Some x \<Longrightarrow> x \<noteq> MAP_FAILED \<Longrightarrow> map_of (fc_maps fc) x \<noteq> None \<Longrightarrow> map_of (fc_maps fc') x = map_of (fc_maps fc) x"
  shows "block_mapped fc' p key d"
proof -
  obtain x f b where x: "d = Some x" "names_block fc p key f b"
    "x = MAP_FAILED \<or> 0 \<le> sint b \<and> map_of (fc_maps fc) x = Some (fi_fd (fc_info fc ! f), sint b)"
    using assms(1) unfolding block_mapped_def by blast
  then show ?thesis
    unfolding block_mapped_def names_block_def using assms(2) assms(3) [OF x(1)]
    by (intro exI [of _ x] exI [of _ f] exI [of _ b]) auto
qed

lemma blocks_same:
  assumes "blocks p fc a" and "same_entries a a'" and "a_cached a' = a_cached a" and "fc_info fc' = fc_info fc" and "fc_maps fc' = fc_maps fc"
  shows "blocks p fc' a'"
proof -
  have e: "k_key (a_cont a' j) = k_key (a_cont a j)" "dat a' j = dat a j" for j
    using assms(2) by (simp_all add: same_entries_def)
  have "block_mapped fc' p key d" if "block_mapped fc p key d" for key d
    using that assms(5) by (intro block_mapped_frame [OF that assms(4)]) simp
  then show ?thesis
    using assms(1) unfolding blocks_def assms(3) e by blast
qed

lemma blocks_kept:
  assumes "blocks p fc a" and "fit B (fc_cache fc) a" and "fit B' c' a1" and "kept a a1"
  defines "fc1 \<equiv> run_cleanups (fc_cache fc) (fc\<lparr>fc_cache := c'\<rparr>)"
  shows "map_frame fc fc1" and "fc_cache fc1 = c'" and "blocks p fc1 a1"
proof -
  obtain ms where ms: "fc1 = fc\<lparr>fc_cache := c', fc_maps := ms\<rparr>"
    "\<forall>x. (\<forall>j\<in>a_cached a - a_cached a1. dat a j \<noteq> Some x) \<longrightarrow> map_of ms x = map_of (fc_maps fc) x"
    using cleanups [OF assms(2-4), of fc] unfolding fc1_def by metis
  show "map_frame fc fc1" "fc_cache fc1 = c'"
    unfolding map_frame_def ms(1) by (blast, simp)
  have one: "block_mapped fc1 p (k_key (a_cont a1 j)) (dat a1 j)" if j: "j \<in> a_cached a1" for j
  proof -
    note k = kept_data [OF assms(4) j]
    have b: "block_mapped fc p (k_key (a_cont a j)) (dat a j)"
      using assms(1) k by (simp add: blocks_def)
    have m: "map_of ms x = map_of (fc_maps fc) x" if x: "dat a j = Some x" "x \<noteq> MAP_FAILED" for x
    proof -
      have "dat a i \<noteq> Some x" if "i \<in> a_cached a - a_cached a1" for i
      proof
        assume e: "dat a i = Some x"
        have "i \<noteq> j" "i \<in> a_cached a" "j \<in> a_cached a"
          using that j k by auto
        then have "dat a i = Some MAP_FAILED"
          using assms(1) e x(1) unfolding blocks_def by metis
        then show False
          using e x(2) by simp
      qed
      then show ?thesis
        using ms(2) by blast
    qed
    have "block_mapped fc1 p (k_key (a_cont a j)) (dat a j)"
      by (rule block_mapped_frame [OF b]) (simp_all add: m ms(1))
    then show ?thesis
      using k by simp
  qed
  have two: "dat a1 i = Some MAP_FAILED" if "i \<in> a_cached a1" "j \<in> a_cached a1" "i \<noteq> j" "dat a1 i = dat a1 j" for i j
  proof -
    note k = kept_data [OF assms(4) that(1)] kept_data [OF assms(4) that(2)]
    have "dat a i = dat a j"
      using k that(4) by metis
    then have "dat a i = Some MAP_FAILED"
      using assms(1) k that(3) unfolding blocks_def by blast
    then show ?thesis
      using k by simp
  qed
  show "blocks p fc1 a1"
    unfolding blocks_def using one two by blast
qed

lemma block_mapped_block:
  assumes "block_mapped fc p (b OR of_nat fidx) d" and "aligned p b" and "fidx < length (fc_info fc)"
    and "length (fc_info fc) \<le> 2 ^ p" and "p < 64"
  obtains x where "d = Some x" and "x = MAP_FAILED \<or> 0 \<le> sint b \<and> map_of (fc_maps fc) x = Some (fi_fd (fc_info fc ! fidx), sint b)"
proof -
  from assms(1) obtain x f c where x: "d = Some x" "b OR of_nat fidx = c OR of_nat f" "aligned p c" "f < length (fc_info fc)"
    "x = MAP_FAILED \<or> 0 \<le> sint c \<and> map_of (fc_maps fc) x = Some (fi_fd (fc_info fc ! f), sint c)"
    unfolding block_mapped_def names_block_def by blast
  have "b = c \<and> fidx = f"
    using assms(3,4) x(4) by (intro file_key_inj [OF assms(2) x(3) _ _ assms(5) x(2)]) simp_all
  then show thesis
    using that x(1,5) by simp
qed

definition file_end :: "os \<Rightarrow> nat \<Rightarrow> nat \<Rightarrow> nat" where
  "file_end os p fd = (length (os_file os fd) + 2 ^ p - 1) div 2 ^ p * 2 ^ p"

lemma mapped_bytes:
  assumes "map_of (fc_maps fc) x = Some (fd, sint (blk_pos (2 ^ m) pos))" and "0 \<le> sint (blk_pos (2 ^ m) pos)" and "fc_pgsz fc = 2 ^ p"
    and "p < 64" and "m < 64" and "unat pos + k \<le> file_end os p fd"
  shows "fce_bytes os fc (Mapped x (blk_off (2 ^ m) pos)) k = Some (file_bytes os fd (unat pos) k)"
proof -
  have "nat (sint (blk_pos (2 ^ m) pos)) + blk_off (2 ^ m) pos = unat pos"
    using block_parts(1) [OF assms(5), of pos] sint_unat(1) [OF assms(2)] by simp
  then show ?thesis
    using file_bytes_mapped [OF assms(6) [unfolded file_end_def]] assms(1,3) unat_two_pow [OF assms(4)] by (simp add: fce_bytes_def)
qed

text \<open>An entry that was not there: the mapping is made and entered in the cache.\<close>

lemma new_mapping:
  assumes "os_ok os" and "blocks p fc a" and "fit B (fc_cache fc) a" and "a_infl a = [i]" and "i \<notin> a_cached a" and "k_key (a_cont a i) = key"
    and "names_block fc p key fidx b" and "k_ref (a_cont a i) = 1"
    and "sys_mmap os (fi_fd (fc_info fc ! fidx)) (sint b) fc = (x, fc1)"
  defines "fc2 \<equiv> fc1\<lparr>fc_cache := cache_insert i (set_entry_data i x (fc_cache fc))\<rparr>"
  obtains B' a' where "fit B' (fc_cache fc2) a'" and "a_infl a' = []" and "blocks p fc2 a'" and "a_cached a' = insert i (a_cached a)"
    and "\<forall>j. k_ref (a_cont a' j) = k_ref (a_cont a j)" and "map_frame fc fc2" and "e_data (ent (fc_cache fc2) i) = Some x"
    and "x = MAP_FAILED \<or> 0 \<le> sint b \<and> map_of (fc_maps fc2) x = Some (fi_fd (fc_info fc ! fidx), sint b)" and "a_cap a' = a_cap a"
proof -
  define fd where "fd = fi_fd (fc_info fc ! fidx)"
  have m: "map_frame fc fc2 \<and> (\<forall>y. y \<noteq> x \<longrightarrow> map_of (fc_maps fc2) y = map_of (fc_maps fc) y)
    \<and> (x = MAP_FAILED \<and> fc_maps fc2 = fc_maps fc \<or> 0 \<le> sint b \<and> map_of (fc_maps fc2) x = Some (fd, sint b) \<and> map_of (fc_maps fc) x = None)"
  proof (cases "sint b < 0 \<or> os_mmap os (map fst (fc_maps fc)) fd (sint b) = None")
    case True
    then have "x = MAP_FAILED" "fc1 = fc"
      using assms(9) by (auto simp: sys_mmap_def fd_def split: if_splits option.splits)
    moreover have "map_frame fc fc2"
      unfolding map_frame_def fc2_def \<open>fc1 = fc\<close>
      by (intro exI [of _ "cache_insert i (set_entry_data i x (fc_cache fc))"] exI [of _ "fc_maps fc"]) simp
    ultimately show ?thesis
      by (simp add: fc2_def)
  next
    case False
    then have x: "os_mmap os (map fst (fc_maps fc)) fd (sint b) = Some x" "fc1 = fc\<lparr>fc_maps := (x, fd, sint b) # fc_maps fc\<rparr>" "0 \<le> sint b"
      using assms(9) by (auto simp: sys_mmap_def fd_def split: if_splits option.splits)
    have "x \<notin> set (map fst (fc_maps fc))"
      using assms(1) x(1) unfolding os_ok_def by blast
    then have "map_of (fc_maps fc) x = None"
      by (simp add: map_of_eq_None_iff)
    moreover have "map_frame fc fc2"
      unfolding map_frame_def fc2_def x(2)
      by (intro exI [of _ "cache_insert i (set_entry_data i x (fc_cache fc))"] exI [of _ "(x, fd, sint b) # fc_maps fc"]) simp
    ultimately show ?thesis
      using x(3) by (simp add: fc2_def x(2))
  qed
  have info: "fc_info fc2 = fc_info fc"
    using map_frameD(1) m by blast
  obtain B' where B': "fit B' (upd i (set_data (Some x)) (fc_cache fc)) (a_set_data i (Some x) a)"
    using use_set_data [OF assms(3,4)] .
  have e: "set_entry_data i x (fc_cache fc) = upd i (set_data (Some x)) (fc_cache fc)"
    by (simp add: set_entry_data_def set_data_def [abs_def])
  define a1 where "a1 = a_set_data i (Some x) a"
  have c1: "a_cached a1 = a_cached a"
    by (simp add: a1_def a_set_data_def a_upd_def a_cached_def)
  have "a_infl a1 = [i]"
    using assms(4) by (simp add: a1_def a_set_data_def a_upd_def)
  note u = use_insert [OF B' [folded a1_def] this]
  define a' where "a' = a_insert i a1"
  have d: "k_key (a_cont a' j) = k_key (a_cont a j)" "dat a' j = (if j = i then Some x else dat a j)" for j
    using u(2) by (simp_all add: a'_def same_entries_def a1_def)
  have cached: "a_cached a' = insert i (a_cached a)"
    using u(3) c1 by (simp add: a'_def)
  have cache: "fc_cache fc2 = cache_insert i (upd i (set_data (Some x)) (fc_cache fc))"
    by (simp add: fc2_def e)
  have fit: "fit B' (fc_cache fc2) a'"
    using u(1) by (simp add: cache a'_def)
  have old: "block_mapped fc2 p (k_key (a_cont a j)) (dat a j)" if "j \<in> a_cached a" for j
  proof (rule block_mapped_frame [where fc = fc])
    show "block_mapped fc p (k_key (a_cont a j)) (dat a j)"
      using assms(2) that by (simp add: blocks_def)
    show "map_of (fc_maps fc2) y = map_of (fc_maps fc) y" if "map_of (fc_maps fc) y \<noteq> None" "y \<noteq> MAP_FAILED" for y
      using m that by metis
  qed (rule info)
  have neq: "x = MAP_FAILED" if "j \<in> a_cached a" "dat a j = Some x" for j
  proof -
    have "block_mapped fc p (k_key (a_cont a j)) (Some x)"
      using assms(2) that by (auto simp: blocks_def)
    then have "x = MAP_FAILED \<or> map_of (fc_maps fc) x \<noteq> None"
      by (auto simp: block_mapped_def)
    then show ?thesis
      using m by auto
  qed
  have new: "block_mapped fc2 p key (Some x)"
    unfolding block_mapped_def names_block_def using assms(7) m info
    by (intro exI [of _ x] exI [of _ fidx] exI [of _ b]) (auto simp: names_block_def fd_def)
  have blocks: "blocks p fc2 a'"
    unfolding blocks_def cached d
  proof (intro conjI ballI impI)
    show "block_mapped fc2 p (k_key (a_cont a j)) (if j = i then Some x else dat a j)" if "j \<in> insert i (a_cached a)" for j
      using that old new assms(6) by auto
    show "(if j = i then Some x else dat a j) = Some MAP_FAILED"
      if "j \<in> insert i (a_cached a)" "k \<in> insert i (a_cached a)" "j \<noteq> k \<and> (if j = i then Some x else dat a j) = (if k = i then Some x else dat a k)" for j k
    proof (cases "j = i \<or> k = i")
      case True
      then show ?thesis
        using that neq [of j] neq [of k] by auto
    next
      case False
      then show ?thesis
        using that assms(2) unfolding blocks_def by auto
    qed
  qed
  have refs: "\<forall>j. k_ref (a_cont a' j) = k_ref (a_cont a j)"
    using u(5) by (simp add: a'_def a1_def)
  have ed: "e_data (ent (fc_cache fc2) i) = Some x"
    using fit_data(1) [OF fit, of i] d(2) [of i] by simp
  have "x = MAP_FAILED \<or> 0 \<le> sint b \<and> map_of (fc_maps fc2) x = Some (fi_fd (fc_info fc ! fidx), sint b)"
    using m by (auto simp: fd_def)
  moreover have "a_cap a' = a_cap a"
    using same_cap [OF B' fit] by (simp add: a_set_data_def a_upd_def)
  ultimately show thesis
    using m u(4) by (intro that [OF fit _ blocks cached refs _ ed]) (simp_all add: a'_def)
qed

text \<open>
  A mapping that the system refuses is entered as well; its entry is not released, so that it stays in use.
\<close>

lemma refs_le_same: "refs_le n a \<Longrightarrow> a_cap a' = a_cap a \<Longrightarrow> (\<And>j. k_ref (a_cont a' j) \<le> k_ref (a_cont a j)) \<Longrightarrow> refs_le n a'"
  unfolding refs_le_def by (metis order_trans)

lemma get_mmap:
  assumes "os_ok os" and "fc_geom os p m fc" and "map_inv p fc B a" and "refs_le n a" and "n < UINT_SIZE - 1" and "fidx < length (fc_info fc)"
  defines "fd \<equiv> fi_fd (fc_info fc ! fidx)"
  obtains (fail) status fc' B' a' where "fcache_get_mmap os fidx pos fc = Some (Inl status, fc')" and "map_frame fc fc'"
      and "map_inv p fc' B' a'" and "refs_le (Suc n) a'"
  | (ok) fce fc' B' a' where "fcache_get_mmap os fidx pos fc = Some (Inr fce, fc')" and "map_frame fc (fcache_put fce fc')"
      and "map_inv p (fcache_put fce fc') B' a'" and "refs_le n a'" and "fce_len fce = 2 ^ m - unat pos mod 2 ^ m"
      and "\<forall>k. unat pos + k \<le> file_end os p fd \<longrightarrow> fce_bytes os fc' (fce_data fce) k = Some (file_bytes os fd (unat pos) k)"
proof (cases "sint (blk_pos (fc_pgsz fc) pos) \<ge> fi_filesz (fc_info fc ! fidx)")
  case True
  then have "fcache_get_mmap os fidx pos fc = Some (Inl KDUMP_ERR_NODATA, fc)"
    by (simp add: fcache_get_mmap_def)
  moreover have "map_frame fc fc"
    unfolding map_frame_def by (intro exI [of _ "fc_cache fc"] exI [of _ "fc_maps fc"]) simp
  moreover have "refs_le (Suc n) a"
    using assms(4) le_SucI unfolding refs_le_def by blast
  ultimately show thesis
    using assms(3) fail by blast
next
  case False
  have pm: "p \<le> m" and m: "m < 64" and p: "p < 64" and pgsz: "fc_pgsz fc = 2 ^ p" and mapsz: "fc_mmapsz fc = 2 ^ m"
    and info: "length (fc_info fc) \<le> 2 ^ p"
    using assms(2) by (auto simp: fc_geom_def)
  have usz: "unat (2 ^ m :: u64) = 2 ^ m"
    by (rule unat_two_pow [OF m])
  have idle: "idle B (fc_cache fc) a" and blocks: "blocks p fc a"
    using assms(3) by (simp_all add: map_inv_blocks)
  define blk where "blk = blk_pos (2 ^ m) pos"
  define key where "key = blk OR of_nat fidx"
  have al: "aligned p blk"
    unfolding blk_def by (rule aligned_block [OF pm])
  note offs = block_off [OF m, of pos]
  have fit: "fit B (fc_cache fc) a"
    using idle by (simp add: idle_def)
  have le: "refs_le (Suc n) a'" if "a_cap a' = a_cap a" "\<And>j. k_ref (a_cont a' j) = (if j = i then Suc (k_ref (a_cont a j)) else k_ref (a_cont a j))" for a' i
    using assms(4) that unfolding refs_le_def by (auto intro: le_SucI)
  show thesis
  proof (rule client_get [OF idle assms(4,5), of key])
    fix c'
    assume g: "cache_get_entry key (fc_cache fc) = Some (None, c')" and i: "idle B c' a"
    define fc' where "fc' = run_cleanups (fc_cache fc) (fc\<lparr>fc_cache := c'\<rparr>)"
    have f': "fit B c' a"
      using i by (simp add: idle_def)
    note k = blocks_kept [OF blocks fit f' kept_refl, folded fc'_def]
    have "fcache_get_mmap os fidx pos fc = Some (Inl KDUMP_ERR_BUSY, fc')"
      using g False by (simp add: fcache_get_mmap_def mapsz blk_def key_def fc'_def Let_def)
    moreover have "map_inv p fc' B a"
      using i k by (simp add: map_inv_blocks)
    moreover have "refs_le (Suc n) a"
      using assms(4) le_SucI unfolding refs_le_def by blast
    ultimately show thesis
      using k(1) fail by blast
  next
    fix i c' a1
    assume g: "cache_get_entry key (fc_cache fc) = Some (Some i, c')" and f: "fit B c' a1" and k: "kept a a1"
      and v: "cache_entry_valid (ent c' i)" and i: "i \<in> a_cached a1" and ki: "k_key (a_cont a1 i) = key"
      and ed: "e_data (ent c' i) = dat a1 i" and "dat a1 i \<noteq> None" and put: "idle B (cache_put_entry i c') (a_put i a1)"
      and refs: "same_refs a (a_put i a1)" and r1: "\<And>j. k_ref (a_cont a1 j) = (if j = i then Suc (k_ref (a_cont a j)) else k_ref (a_cont a j))"
      and infl: "a_infl a1 = []"
    then obtain x where x: "dat a1 i = Some x"
      by blast
    define fc' where "fc' = run_cleanups (fc_cache fc) (fc\<lparr>fc_cache := c'\<rparr>)"
    note b = blocks_kept [OF blocks fit f k, folded fc'_def]
    note fr = map_frameD [OF b(1)]
    have "block_mapped fc' p (blk OR of_nat fidx) (Some x)"
      using b(3) i ki x by (auto simp: blocks_def key_def)
    then have map: "x = MAP_FAILED \<or> 0 \<le> sint blk \<and> map_of (fc_maps fc') x = Some (fd, sint blk)"
      by (rule block_mapped_block [OF _ al _ _ p]) (use assms(6) info in \<open>simp_all add: fr(1) fd_def\<close>)
    show thesis
    proof (cases "x = MAP_FAILED")
      case True
      have "fcache_get_mmap os fidx pos fc = Some (Inl KDUMP_ERR_SYSTEM, fc')"
        using g False v ed x True b(2) by (simp add: fcache_get_mmap_def mapsz blk_def key_def fc'_def Let_def)
      moreover have "map_inv p fc' B a1"
        using f infl b(2,3) by (simp add: map_inv_blocks idle_def)
      ultimately show thesis
        using le [OF same_cap [OF fit f] r1] b(1) fail by blast
    next
      case nf: False
      define fce where "fce = \<lparr>fce_len = 2 ^ m - blk_off (2 ^ m) pos, fce_data = Mapped x (blk_off (2 ^ m) pos), fce_ce = i\<rparr>"
      have get: "fcache_get_mmap os fidx pos fc = Some (Inr fce, fc')"
        using g False v ed x nf b(2) by (simp add: fcache_get_mmap_def mapsz usz blk_def key_def fc'_def fce_def Let_def)
      have put': "fcache_put fce fc' = fc'\<lparr>fc_cache := cache_put_entry i c'\<rparr>"
        by (simp add: fcache_put_def fce_def b(2))
      have "i \<in> a_cached a1 \<union> set (a_infl a1)"
        using i by simp
      note u = use_put [OF f this]
      have "blocks p (fcache_put fce fc') (a_put i a1)"
        by (rule blocks_same [OF b(3) u(2,3)]) (simp_all add: put')
      then have inv: "map_inv p (fcache_put fce fc') B (a_put i a1)"
        using put by (simp add: map_inv_blocks put')
      have cap: "a_cap (a_put i a1) = a_cap a"
        by (rule same_cap [OF fit u(1)])
      have le': "refs_le n (a_put i a1)"
        by (rule refs_le_same [OF assms(4) cap]) (use refs in \<open>simp add: same_refs_def\<close>)
      have frame: "map_frame fc (fcache_put fce fc')"
        unfolding put' by (rule map_frame_cache [OF b(1)])
      have "\<forall>k. unat pos + k \<le> file_end os p fd \<longrightarrow> fce_bytes os fc' (fce_data fce) k = Some (file_bytes os fd (unat pos) k)"
      proof (intro allI impI)
        fix k
        assume "unat pos + k \<le> file_end os p fd"
        then show "fce_bytes os fc' (fce_data fce) k = Some (file_bytes os fd (unat pos) k)"
          using map nf mapped_bytes [where fc = fc' and x = x and fd = fd and m = m and pos = pos and os = os and p = p and k = k] p m map_frameD(5) [OF b(1), where os = os and p = p and m = m] assms(2) 
          by (simp add: fce_def blk_def fc_geom_def)
      qed
      then show thesis
        using offs by (intro ok [OF get frame inv le']) (simp_all add: fce_def)
    qed
  next
    fix i c' a1
    assume g: "cache_get_entry key (fc_cache fc) = Some (Some i, c')" and f: "fit B c' a1" and k: "kept a a1"
      and v: "\<not> cache_entry_valid (ent c' i)" and i: "i \<notin> a_cached a1" and ki: "k_key (a_cont a1 i) = key"
      and infl: "a_infl a1 = [i]" and zero: "k_ref (a_cont a i) = 0"
      and r1: "\<And>j. k_ref (a_cont a1 j) = (if j = i then 1 else k_ref (a_cont a j))"
    define fc0 where "fc0 = run_cleanups (fc_cache fc) (fc\<lparr>fc_cache := c'\<rparr>)"
    note b = blocks_kept [OF blocks fit f k, folded fc0_def]
    note fr = map_frameD [OF b(1)]
    obtain x fc1 where sm: "sys_mmap os (fi_fd (fc_info fc0 ! fidx)) (sint blk) fc0 = (x, fc1)"
      by fastforce
    define fc2 where "fc2 = fc1\<lparr>fc_cache := cache_insert i (set_entry_data i x (fc_cache fc0))\<rparr>"
    have names: "names_block fc0 p key fidx blk"
      using al assms(6) by (simp add: names_block_def key_def fr(1))
    have one: "k_ref (a_cont a1 i) = 1"
      using r1 by simp
    obtain B' a2 where n: "fit B' (fc_cache fc2) a2" "a_infl a2 = []" "blocks p fc2 a2" "a_cached a2 = insert i (a_cached a1)"
      "\<forall>j. k_ref (a_cont a2 j) = k_ref (a_cont a1 j)" "map_frame fc0 fc2" "e_data (ent (fc_cache fc2) i) = Some x"
      "x = MAP_FAILED \<or> 0 \<le> sint blk \<and> map_of (fc_maps fc2) x = Some (fi_fd (fc_info fc0 ! fidx), sint blk)" "a_cap a2 = a_cap a1"
      using new_mapping [OF assms(1) b(3) _ infl i ki names one sm, folded fc2_def] f b(2) by metis
    have frame: "map_frame fc fc2"
      by (rule map_frame_trans [OF b(1) n(6)])
    have r2: "k_ref (a_cont a2 j) = (if j = i then Suc (k_ref (a_cont a j)) else k_ref (a_cont a j))" for j
      using n(5) r1 zero by simp
    have pgsz2: "fc_info fc0 ! fidx = fc_info fc ! fidx"
      by (simp add: fr(1))
    show thesis
    proof (cases "x = MAP_FAILED")
      case True
      have "fcache_get_mmap os fidx pos fc = Some (Inl KDUMP_ERR_SYSTEM, fc2)"
        using g False v sm n(7) True b(2) pgsz2 by (simp add: fcache_get_mmap_def mapsz blk_def key_def fc0_def fc2_def Let_def)
      moreover have "map_inv p fc2 B' a2"
        using n(1,2,3) by (simp add: map_inv_blocks idle_def)
      ultimately show thesis
        using le [OF trans [OF n(9) same_cap [OF fit f]] r2] frame fail by blast
    next
      case nf: False
      define fce where "fce = \<lparr>fce_len = 2 ^ m - blk_off (2 ^ m) pos, fce_data = Mapped x (blk_off (2 ^ m) pos), fce_ce = i\<rparr>"
      have get: "fcache_get_mmap os fidx pos fc = Some (Inr fce, fc2)"
        using g False v sm n(7) nf b(2) pgsz2
        by (simp add: fcache_get_mmap_def mapsz usz blk_def key_def fc0_def fc2_def fce_def Let_def)
      have put': "fcache_put fce fc2 = fc2\<lparr>fc_cache := cache_put_entry i (fc_cache fc2)\<rparr>"
        by (simp add: fcache_put_def fce_def)
      have "i \<in> a_cached a2 \<union> set (a_infl a2)"
        using n(4) by simp
      note u = use_put [OF n(1) this]
      have "blocks p (fcache_put fce fc2) (a_put i a2)"
        by (rule blocks_same [OF n(3) u(2,3)]) (simp_all add: put')
      then have inv: "map_inv p (fcache_put fce fc2) B' (a_put i a2)"
        using u(1,4) n(2) by (simp add: map_inv_blocks put' idle_def)
      have cap: "a_cap (a_put i a2) = a_cap a"
        using same_cap [OF n(1) u(1)] same_cap [OF fit f] n(9) by simp
      have le': "refs_le n (a_put i a2)"
        by (rule refs_le_same [OF assms(4) cap]) (simp add: u(5) r2)
      have frame': "map_frame fc (fcache_put fce fc2)"
        unfolding put' by (rule map_frame_cache [OF frame])
      have "\<forall>k. unat pos + k \<le> file_end os p fd \<longrightarrow> fce_bytes os fc2 (fce_data fce) k = Some (file_bytes os fd (unat pos) k)"
      proof (intro allI impI)
        fix k
        assume "unat pos + k \<le> file_end os p fd"
        then show "fce_bytes os fc2 (fce_data fce) k = Some (file_bytes os fd (unat pos) k)"
          using n(8) nf mapped_bytes [where fc = fc2 and x = x and fd = fd and m = m and pos = pos and os = os and p = p and k = k] p m map_frameD(5) [OF frame, where os = os and p = p and m = m] assms(2) pgsz2
          by (simp add: fce_def blk_def fc_geom_def fd_def)
      qed
      then show thesis
        using offs by (intro ok [OF get frame' inv le']) (simp_all add: fce_def)
    qed
  qed
qed

end
