(* ===== verification/Fcache_Pread.thy ===== *)
theory Fcache_Pread
  imports Fcache_Reads
begin

section \<open>Reading a file through the cache\<close>

text \<open>
  The state of a file cache between two operations, that a new file cache has it, and the loop of
  \<open>fcache_pread\<close>: it ends, and what it reports as read is what the file holds.
\<close>

text \<open>The references to mapped blocks are at most \<open>n\<close>, those to pages at most \<open>k\<close>.\<close>

definition fc_ok :: "os \<Rightarrow> nat \<Rightarrow> nat \<Rightarrow> nat \<Rightarrow> nat \<Rightarrow> fcache \<Rightarrow> bool" where
  "fc_ok os p m n k fc \<longleftrightarrow> fc_geom os p m fc \<and> (\<exists>B a. read_inv os p fc B a \<and> refs_le k a) \<and> (\<exists>B a. map_inv p fc B a \<and> refs_le n a)"

lemma refs_le_mono: "refs_le n a \<Longrightarrow> n \<le> n' \<Longrightarrow> refs_le n' a"
  unfolding refs_le_def by (meson order_trans)

lemma fc_ok_mono: "fc_ok os p m n k fc \<Longrightarrow> n \<le> n' \<Longrightarrow> fc_ok os p m n' k fc"
  unfolding fc_ok_def using refs_le_mono by blast

subsection \<open>A new file cache\<close>

lemma alloc_idle:
  assumes "cache_alloc mem self buf n sz = Some c" and "0 < n" and "4 * n < UINT_SIZE"
  shows "idle (buffers c) c (a_new c)" and "a_cached (a_new c) = {}" and "refs_le 0 (a_new c)"
proof -
  obtain c0 where c: "c = cache_flush c0" "c_cap c0 = n"
    using assms(1) by (auto simp: cache_alloc_def bind_Some_iff split: if_splits)
  have cap: "0 < c_cap c0" "4 * c_cap c0 < UINT_SIZE"
    using assms(2,3) c(2) by simp_all
  show "idle (buffers c) c (a_new c)"
    using flush_rep [OF cap c(1)] flush_ok [OF cap c(1)] by (simp add: idle_def fit_def a_new_def)
  show "a_cached (a_new c) = {}"
    by (simp add: a_new_def a_cached_def)
  show "refs_le 0 (a_new c)"
    using flush_fields(1,7) [OF cap(2) c(1)] by (simp add: refs_le_def a_new_def conts_key)
qed

lemma buffers_distinct: "0 < c_elemsize c \<Longrightarrow> count (buffers c) d \<le> 1"
proof -
  assume "0 < c_elemsize c"
  then have "distinct (map (\<lambda>i. c_data c + i * c_elemsize c) [0..<c_cap c])"
    by (simp add: distinct_map inj_on_def)
  then show ?thesis
    unfolding buffers_def by (simp add: distinct_count_atmost_1)
qed

lemma idle_cleanup:
  assumes "idle B c a"
  shows "idle B (set_cache_entry_cleanup f c) (a\<lparr>a_cleanup := f\<rparr>)"
proof -
  define b where "b = a\<lparr>a_cleanup := f\<rparr>"
  have b: "a_prec b = a_prec a" "a_gprec b = a_gprec a" "a_unused b = a_unused a" "a_gprobe b = a_gprobe a" "a_probe b = a_probe a"
    "a_infl b = a_infl a" "a_dprobe b = a_dprobe a" "a_cap b = a_cap a" "a_hits b = a_hits a" "a_misses b = a_misses a"
    "a_cleaned b = a_cleaned a" "a_cont b = a_cont a" "a_cleanup b = f"
    by (simp_all add: b_def)
  have r: "rep c a" and k: "a_ok B a" and i: "a_infl a = []"
    using assms by (simp_all add: idle_def fit_def)
  have "rep (set_cache_entry_cleanup f c) b"
    using r by (simp add: rep_def rep_core_def a_main_def b set_cache_entry_cleanup_def)
  moreover have "a_ok B b"
    using k by (simp add: a_ok_def a_inv_def a_core_def a_ordered_def a_tight_def a_live_def a_main_def
        a_cached_def a_ghosts_def spare_def b)
  ultimately show ?thesis
    using i by (simp add: idle_def fit_def b_def)
qed

lemma new_ok:
  assumes "fcache_new stat (2 ^ p) mem c fb heap fd n order = Some fc" and "0 < n" and "4 * n < UINT_SIZE" and "p + order < 63"
    and "\<forall>d\<in>set fd. stat d = Some (int (length (os_file os d)))"
  shows "fc_ok os p (p + order) 0 0 fc"
proof -
  have p: "p < 64"
    using assms(4) by simp
  obtain c1 fb1 where c1: "cache_alloc (fst c) (snd c) None n 0 = Some c1"
    and fb1: "cache_alloc (fst fb) (fst (snd fb)) (snd (snd fb)) n (2 ^ p) = Some fb1" and len: "length fd \<le> 2 ^ p"
    and fc: "fc = \<lparr>fc_refcnt = 1, fc_policy = KDUMP_MMAP_TRY, fc_pgsz = 2 ^ p, fc_mmapsz = push_bit order (2 ^ p),
              fc_cache = set_cache_entry_cleanup True c1, fc_fbcache = fb1,
              fc_info = map (\<lambda>d. \<lparr>fi_fd = d, fi_filesz = (case stat d of Some sz \<Rightarrow> sz | None \<Rightarrow> 2 ^ 63 - 1)\<rparr>) fd,
              fc_mem = heap, fc_maps = []\<rparr>"
    using assms(1) unat_two_pow [OF p] by (auto simp: fcache_new_def bind_Some_iff split: if_splits)
  have "fc_geom os p (p + order) fc"
    using assms(4,5) len by (simp add: fc_geom_def fc push_bit_eq_mult power_add)
  moreover have "read_inv os p fc (buffers fb1) (a_new fb1)"
  proof -
    have "c_elemsize fb1 = 2 ^ p"
    proof -
      obtain c0 where c0: "fb1 = cache_flush c0" "c_cap c0 = n" "c_elemsize c0 = 2 ^ p"
        using fb1 by (auto simp: cache_alloc_def bind_Some_iff split: if_splits)
      then show ?thesis
        using flush_fields(3) [of c0 fb1] assms(3) by simp
    qed
    then show ?thesis
      using alloc_idle [OF fb1 assms(2,3)] buffers_distinct [of fb1] by (simp add: read_inv_def fc)
  qed
  moreover have "map_inv p fc (buffers c1) ((a_new c1)\<lparr>a_cleanup := True\<rparr>)"
    using idle_cleanup [OF alloc_idle(1) [OF c1 assms(2,3)]] alloc_idle(2) [OF c1 assms(2,3)]
    by (simp add: map_inv_def fc a_cached_def)
  moreover have "refs_le 0 ((a_new c1)\<lparr>a_cleanup := True\<rparr>)"
    using alloc_idle(3) [OF c1 assms(2,3)] by (simp add: refs_le_def)
  ultimately show ?thesis
    using alloc_idle(3) [OF fb1 assms(2,3)] unfolding fc_ok_def by blast
qed

subsection \<open>One entry\<close>

lemma read_ok:
  assumes "fc_ok os p m n k fc" and "k < UINT_SIZE - 1" and "fidx < length (fc_info fc)"
  defines "fd \<equiv> fi_fd (fc_info fc ! fidx)"
  obtains (fail) st fc' where "fcache_get_read os fidx pos fc = Some (Inl st, fc')" and "st \<noteq> KDUMP_OK" and "fc_ok os p m n k fc'"
      and "fc_info fc' = fc_info fc" and "fc_policy fc' = fc_policy fc"
      and "0 < k \<or> sint (blk_pos (2 ^ p) pos) < 0 \<or> os_pread_fails os fd (sint (blk_pos (2 ^ p) pos))"
  | (ok) fce fc' where "fcache_get_read os fidx pos fc = Some (Inr fce, fc')" and "fc_ok os p m n k (fcache_put fce fc')"
      and "fc_info (fcache_put fce fc') = fc_info fc" and "fc_policy (fcache_put fce fc') = fc_policy fc" and "0 < fce_len fce"
      and "\<forall>j\<le>fce_len fce. fce_bytes os fc' (fce_data fce) j = Some (file_bytes os fd (unat pos) j)"
proof -
  obtain B a where geom: "fc_geom os p m fc" and r: "read_inv os p fc B a" "refs_le k a" and mp: "\<exists>B a. map_inv p fc B a \<and> refs_le n a"
    using assms(1) unfolding fc_ok_def by blast
  have same: "fc_ok os p m n k fc'" if "fb_frame fc fc'" "read_inv os p fc' B a'" "same_refs a a'" for fc' a'
  proof -
    have "idle B (fc_fbcache fc) a" "idle B (fc_fbcache fc') a'"
      using r(1) that(2) by (simp_all add: read_inv_def)
    then have "a_cap a' = a_cap a"
      using same_cap [of B "fc_fbcache fc" a "fc_fbcache fc'" a'] by (simp add: idle_def)
    then have "refs_le k a'"
      by (rule refs_le_same [OF r(2)]) (use that(3) in \<open>simp add: same_refs_def\<close>)
    then show ?thesis
      unfolding fc_ok_def fb_frameD(5,6) [OF that(1)] using geom mp that(2) by blast
  qed
  show thesis
  proof (rule get_read [OF geom r assms(2,3), of pos])
    fix fc'
    assume g: "fcache_get_read os fidx pos fc = Some (Inl KDUMP_ERR_BUSY, fc')" "fb_frame fc fc'" "read_inv os p fc' B a" "a_cap a \<le> a_inuse a"
    have "0 < k"
    proof (rule ccontr)
      assume "\<not> 0 < k"
      have idle: "idle B (fc_fbcache fc) a"
        using r(1) by (simp add: read_inv_def)
      then have f: "fit B (fc_fbcache fc) a"
        by (simp add: idle_def)
      have "\<forall>i\<in>a_cached a. k_ref (a_cont a i) = 0"
        using member_less [OF f] r(2) \<open>\<not> 0 < k\<close> by (auto simp: refs_le_def)
      moreover have "0 < a_cap a"
        using f rep_facts(4) by (auto simp: fit_def)
      ultimately show False
        using no_use_room [of a] idle g(4) by (simp add: idle_def)
    qed
    moreover have "same_refs a a"
      by (simp add: same_refs_def)
    ultimately show thesis
      using same [OF g(2,3)] fb_frameD(1,4) [OF g(2)] by (intro fail [OF g(1)]) simp_all
  next
    fix fc' a'
    assume g: "fcache_get_read os fidx pos fc = Some (Inl KDUMP_ERR_SYSTEM, fc')" "fb_frame fc fc'" "read_inv os p fc' B a'" "same_refs a a'"
      "sint (blk_pos (2 ^ p) pos) < 0 \<or> os_pread_fails os (fi_fd (fc_info fc ! fidx)) (sint (blk_pos (2 ^ p) pos))"
    then show thesis
      using same [OF g(2,3,4)] fb_frameD(1,4) [OF g(2)] by (intro fail [OF g(1)]) (simp_all add: fd_def)
  next
    fix fce fc' a'
    assume g: "fcache_get_read os fidx pos fc = Some (Inr fce, fc')" "fb_frame fc (fcache_put fce fc')"
      "read_inv os p (fcache_put fce fc') B a'" "same_refs a a'" "fce_len fce = 2 ^ p - unat pos mod 2 ^ p"
      "\<forall>k\<le>fce_len fce. fce_bytes os fc' (fce_data fce) k = Some (file_bytes os (fi_fd (fc_info fc ! fidx)) (unat pos) k)"
    have "0 < fce_len fce"
      using g(5) by simp
    then show thesis
      using same [OF g(2,3,4)] fb_frameD(1,4) [OF g(2)] g(6) by (intro ok [OF g(1)]) (simp_all add: fd_def)
  qed
qed

text \<open>What the policy makes of both.\<close>

lemma policy_only:
  "fc_ok os p m n k (fc\<lparr>fc_policy := x\<rparr>) = fc_ok os p m n k fc" "fc_info (fc\<lparr>fc_policy := x\<rparr>) = fc_info fc"
  "fce_bytes os (fc\<lparr>fc_policy := x\<rparr>) d j = fce_bytes os fc d j"
  "fcache_put fce (fc\<lparr>fc_policy := x\<rparr>) = (fcache_put fce fc)\<lparr>fc_policy := x\<rparr>"
  by (simp_all add: fc_ok_def fc_geom_def read_inv_def page_cached_def names_block_def map_inv_def block_mapped_def
      fce_bytes_def fcache_put_def split: fce_mem.split option.split)

lemma get_ok':
  assumes "os_ok os" and "fc_ok os p m n k fc" and "n < UINT_SIZE - 1" and "k < UINT_SIZE - 1" and "fidx < length (fc_info fc)"
  defines "fd \<equiv> fi_fd (fc_info fc ! fidx)"
  obtains (fail) st fc' where "fcache_get os fidx pos fc = Some (Inl st, fc')" and "st \<noteq> KDUMP_OK" and "fc_ok os p m (Suc n) k fc'"
      and "fc_info fc' = fc_info fc"
      and "fc_policy fc \<in> {KDUMP_MMAP_NEVER, KDUMP_MMAP_TRY} \<Longrightarrow>
           0 < k \<or> sint (blk_pos (2 ^ p) pos) < 0 \<or> os_pread_fails os fd (sint (blk_pos (2 ^ p) pos))"
  | (ok) fce fc' where "fcache_get os fidx pos fc = Some (Inr fce, fc')" and "fc_ok os p m (Suc n) k (fcache_put fce fc')"
      and "fc_info (fcache_put fce fc') = fc_info fc" and "0 < fce_len fce"
      and "fc_policy fc \<in> {KDUMP_MMAP_NEVER, KDUMP_MMAP_TRY} \<Longrightarrow> fc_policy (fcache_put fce fc') = fc_policy fc"
      and "\<forall>j\<le>fce_len fce. unat pos + j \<le> file_end os p fd \<longrightarrow>
           fce_bytes os fc' (fce_data fce) j = Some (file_bytes os fd (unat pos) j)"
proof -
  have via: thesis if get: "fcache_get os fidx pos fc = fcache_get_read os fidx pos fc1" and ok1: "fc_ok os p m (Suc n) k fc1"
    and info: "fc_info fc1 = fc_info fc"
    and p1: "fc_policy fc \<in> {KDUMP_MMAP_NEVER, KDUMP_MMAP_TRY} \<longrightarrow> fc_policy fc1 = fc_policy fc" for fc1
  proof -
    have l: "fidx < length (fc_info fc1)"
      by (simp add: info assms(5))
    show thesis
    proof (rule read_ok [OF ok1 assms(4) l, of pos, unfolded info, folded fd_def get])
      fix st fc'
      assume g: "fcache_get os fidx pos fc = Some (Inl st, fc')" "st \<noteq> KDUMP_OK" "fc_ok os p m (Suc n) k fc'" "fc_info fc' = fc_info fc"
        "0 < k \<or> sint (blk_pos (2 ^ p) pos) < 0 \<or> os_pread_fails os fd (sint (blk_pos (2 ^ p) pos))"
      show thesis
        by (rule fail [OF g(1-4)]) (rule g(5))
    next
      fix fce fc'
      assume g: "fcache_get os fidx pos fc = Some (Inr fce, fc')" "fc_ok os p m (Suc n) k (fcache_put fce fc')"
        "fc_info (fcache_put fce fc') = fc_info fc" "fc_policy (fcache_put fce fc') = fc_policy fc1" "0 < fce_len fce"
        "\<forall>j\<le>fce_len fce. fce_bytes os fc' (fce_data fce) j = Some (file_bytes os fd (unat pos) j)"
      show thesis
        by (rule ok [OF g(1-3,5)]) (use g(4,6) p1 in simp_all)
    qed
  qed
  show thesis
  proof (cases "fc_policy fc = KDUMP_MMAP_NEVER")
    case True
    then show thesis
      using fc_ok_mono [OF assms(2), of "Suc n"] by (intro via [of fc]) (simp_all add: fcache_get_def)
  next
    case pol: False
    obtain B a where geom: "fc_geom os p m fc" and mp: "map_inv p fc B a" "refs_le n a" and rd: "\<exists>B a. read_inv os p fc B a \<and> refs_le k a"
      using assms(2) unfolding fc_ok_def by blast
    define setp where "setp = (\<lambda>ok fc'. if fc_policy fc = KDUMP_MMAP_TRY_ONCE
      then fc'\<lparr>fc_policy := (if ok then KDUMP_MMAP_ALWAYS else KDUMP_MMAP_NEVER)\<rparr> else fc' :: fcache)"
    have setp: "fc_ok os p m n' k (setp b fc') = fc_ok os p m n' k fc'" "fc_info (setp b fc') = fc_info fc'"
      "fce_bytes os (setp b fc') d j = fce_bytes os fc' d j" "fc_policy fc \<noteq> KDUMP_MMAP_TRY_ONCE \<Longrightarrow> setp b fc' = fc'"
      "fcache_put fce (setp b fc') = setp b (fcache_put fce fc')" for b fc' n' d j fce
      by (simp_all add: setp_def policy_only)
    have same: "fc_ok os p m (Suc n) k fc'" if "map_frame fc fc'" "map_inv p fc' B' a'" "refs_le (Suc n) a'" for fc' B' a'
      unfolding fc_ok_def map_frameD(5,6) [OF that(1)] using geom rd that(2,3) by blast
    show thesis
    proof (rule get_mmap [OF assms(1) geom mp assms(3,5), of pos])
      fix st fc' B' a'
      assume g: "fcache_get_mmap os fidx pos fc = Some (Inl st, fc')" "map_frame fc fc'" "map_inv p fc' B' a'" "refs_le (Suc n) a'"
      have st: "st \<noteq> KDUMP_OK"
        using g(1) by (auto simp: fcache_get_mmap_def Let_def bind_Some_iff split: if_splits option.splits prod.splits)
      note fr = map_frameD [OF g(2)]
      show thesis
      proof (cases "fc_policy fc = KDUMP_MMAP_ALWAYS")
        case True
        then have get: "fcache_get os fidx pos fc = Some (Inl st, fc')"
          using g(1) by (simp add: fcache_get_def)
        show thesis
          by (rule fail [OF get st same [OF g(2-4)] fr(1)]) (use True in simp_all)
      next
        case False
        define fc1 where "fc1 = setp False fc'"
        have get: "fcache_get os fidx pos fc = fcache_get_read os fidx pos fc1"
          using g(1) pol False by (simp add: fcache_get_def fc1_def setp_def)
        have ok1: "fc_ok os p m (Suc n) k fc1"
          using same [OF g(2-4)] by (simp add: fc1_def setp)
        have info: "fc_info fc1 = fc_info fc"
          by (simp add: fc1_def setp fr(1))
        have p1: "fc_policy fc \<in> {KDUMP_MMAP_NEVER, KDUMP_MMAP_TRY} \<longrightarrow> fc_policy fc1 = fc_policy fc"
          using setp(4) [of False fc'] fr(4) by (auto simp: fc1_def)
        show thesis
          by (rule via [OF get ok1 info p1])
      qed
    next
      fix fce fc' B' a'
      assume g: "fcache_get_mmap os fidx pos fc = Some (Inr fce, fc')" "map_frame fc (fcache_put fce fc')" "map_inv p (fcache_put fce fc') B' a'"
        "refs_le n a'" "fce_len fce = 2 ^ m - unat pos mod 2 ^ m"
        "\<forall>k. unat pos + k \<le> file_end os p (fi_fd (fc_info fc ! fidx)) \<longrightarrow>
             fce_bytes os fc' (fce_data fce) k = Some (file_bytes os (fi_fd (fc_info fc ! fidx)) (unat pos) k)"
      define fc1 where "fc1 = setp True fc'"
      note fr = map_frameD [OF g(2)]
      have get: "fcache_get os fidx pos fc = Some (Inr fce, fc1)"
        using g(1) pol by (simp add: fcache_get_def fc1_def setp_def)
      have "fc_ok os p m (Suc n) k (fcache_put fce fc1)"
        using same [OF g(2,3) refs_le_mono [OF g(4)]] by (simp add: fc1_def setp)
      moreover have "fc_info (fcache_put fce fc1) = fc_info fc"
        by (simp add: fc1_def setp fr(1))
      moreover have "0 < fce_len fce"
        using g(5) by simp
      moreover have "fc_policy (fcache_put fce fc1) = fc_policy fc" if "fc_policy fc \<in> {KDUMP_MMAP_NEVER, KDUMP_MMAP_TRY}"
        using that setp(4) [of True "fcache_put fce fc'"] fr(4) by (auto simp: fc1_def setp(5))
      ultimately show thesis
        using g(6) by (intro ok [OF get]) (simp_all add: fc1_def setp(3) fd_def)
    qed
  qed
qed

subsection \<open>The loop\<close>

lemma sint_nonneg: "unat b < 2 ^ 63 \<Longrightarrow> 0 \<le> sint b" for b :: u64
proof -
  assume "unat b < 2 ^ 63"
  then have "\<not> bit (unat b) 63"
    by (simp add: bit_iff_odd)
  then have "\<not> bit b 63"
    by (simp add: bit_unsigned_iff)
  then show ?thesis
    using bit_last_iff [of b] by simp
qed

lemma add_of_nat: "unat pos + n < 2 ^ 64 \<Longrightarrow> unat (pos + of_nat n) = unat pos + n" for pos :: u64
  by (simp add: unat_word_ariths unat_of_nat take_bit_nat_eq_self)

lemma pread_transparent:
  assumes "os_ok os" and "fc_ok os p m n k fc" and "n + len < UINT_SIZE - 1" and "k < UINT_SIZE - 1" and "fidx < length (fc_info fc)"
    and "fd = fi_fd (fc_info fc ! fidx)" and "unat pos + len \<le> file_end os p fd" and "unat pos + len < 2 ^ 63"
  shows "\<exists>st bs fc'. fcache_pread os len fidx pos fc = Some (st, bs, fc') \<and> fc_ok os p m (n + len) k fc'
    \<and> fc_info fc' = fc_info fc
    \<and> (st = KDUMP_OK \<longrightarrow> bs = file_bytes os fd (unat pos) len)
    \<and> (fc_policy fc \<in> {KDUMP_MMAP_NEVER, KDUMP_MMAP_TRY} \<and> k = 0 \<and> (\<forall>q. \<not> os_pread_fails os fd q) \<longrightarrow>
        st = KDUMP_OK \<and> fc_policy fc' = fc_policy fc)"
  using assms(2-)
proof (induction len arbitrary: n pos fc rule: less_induct)
  case (less len)
  note step = fcache_pread.simps [of os len fidx pos fc]
  show ?case
  proof (cases "len = 0")
    case True
    then show ?thesis
      using less.prems(1) by (subst step) (simp add: file_bytes_def)
  next
    case pos: False
    have n: "n < UINT_SIZE - 1"
      using less.prems(2) by linarith
    have nonneg: "0 \<le> sint (blk_pos (2 ^ p) pos)"
    proof -
      have "p < 64"
        using less.prems(1) by (auto simp: fc_ok_def fc_geom_def)
      then show ?thesis
        using block_parts(1) [of p pos] less.prems(7) by (intro sint_nonneg) linarith
    qed
    show ?thesis
    proof (rule get_ok' [OF assms(1) less.prems(1) n less.prems(3,4), of pos, folded less.prems(5)])
      fix st fc'
      assume g: "fcache_get os fidx pos fc = Some (Inl st, fc')" "st \<noteq> KDUMP_OK" "fc_ok os p m (Suc n) k fc'" "fc_info fc' = fc_info fc"
        "fc_policy fc \<in> {KDUMP_MMAP_NEVER, KDUMP_MMAP_TRY} \<Longrightarrow>
          0 < k \<or> sint (blk_pos (2 ^ p) pos) < 0 \<or> os_pread_fails os fd (sint (blk_pos (2 ^ p) pos))"
      have "fcache_pread os len fidx pos fc = Some (st, [], fc')"
        using pos g(1) by (subst step) simp
      moreover have "fc_ok os p m (n + len) k fc'"
        using fc_ok_mono [OF g(3), of "n + len"] pos by simp
      ultimately show ?thesis
        using g(2,4,5) nonneg by fastforce
    next
      fix fce fc'
      assume g: "fcache_get os fidx pos fc = Some (Inr fce, fc')" "fc_ok os p m (Suc n) k (fcache_put fce fc')"
        "fc_info (fcache_put fce fc') = fc_info fc" "0 < fce_len fce"
        "fc_policy fc \<in> {KDUMP_MMAP_NEVER, KDUMP_MMAP_TRY} \<Longrightarrow> fc_policy (fcache_put fce fc') = fc_policy fc"
        "\<forall>j\<le>fce_len fce. unat pos + j \<le> file_end os p fd \<longrightarrow> fce_bytes os fc' (fce_data fce) j = Some (file_bytes os fd (unat pos) j)"
      define part where "part = (if fce_len fce < len then fce_len fce else len)"
      have part: "0 < part" "part \<le> len" "part \<le> fce_len fce"
        using g(4) pos by (auto simp: part_def)
      have bs: "fce_bytes os fc' (fce_data fce) part = Some (file_bytes os fd (unat pos) part)"
        using g(6) part less.prems(6) by simp
      have up: "unat (pos + of_nat part) = unat pos + part"
        using less.prems(7) part(2) by (intro add_of_nat) simp
      have "\<exists>st bs fc''. fcache_pread os (len - part) fidx (pos + of_nat part) (fcache_put fce fc') = Some (st, bs, fc'')
        \<and> fc_ok os p m (Suc n + (len - part)) k fc'' \<and> fc_info fc'' = fc_info (fcache_put fce fc')
        \<and> (st = KDUMP_OK \<longrightarrow> bs = file_bytes os fd (unat (pos + of_nat part)) (len - part))
        \<and> (fc_policy (fcache_put fce fc') \<in> {KDUMP_MMAP_NEVER, KDUMP_MMAP_TRY} \<and> k = 0 \<and> (\<forall>q. \<not> os_pread_fails os fd q) \<longrightarrow>
            st = KDUMP_OK \<and> fc_policy fc'' = fc_policy (fcache_put fce fc'))"
        by (rule less.IH [OF _ g(2)]) (use less.prems part up g(3) in simp_all)
      then obtain st rest fc'' where r: "fcache_pread os (len - part) fidx (pos + of_nat part) (fcache_put fce fc') = Some (st, rest, fc'')"
        "fc_ok os p m (Suc n + (len - part)) k fc''" "fc_info fc'' = fc_info fc"
        "st = KDUMP_OK \<longrightarrow> rest = file_bytes os fd (unat pos + part) (len - part)"
        "fc_policy (fcache_put fce fc') \<in> {KDUMP_MMAP_NEVER, KDUMP_MMAP_TRY} \<and> k = 0 \<and> (\<forall>q. \<not> os_pread_fails os fd q) \<longrightarrow>
            st = KDUMP_OK \<and> fc_policy fc'' = fc_policy (fcache_put fce fc')"
        unfolding up g(3) by blast
      have "fcache_pread os len fidx pos fc = Some (st, file_bytes os fd (unat pos) part @ rest, fc'')"
        using pos g(1) bs r(1) by (subst step) (simp add: part_def [symmetric] Let_def)
      moreover have "fc_ok os p m (n + len) k fc''"
        using fc_ok_mono [OF r(2), of "n + len"] part by simp
      moreover have "st = KDUMP_OK \<longrightarrow> file_bytes os fd (unat pos) part @ rest = file_bytes os fd (unat pos) len"
        using r(4) file_bytes_split [of os fd "unat pos" part "len - part"] part(2) by simp
      ultimately show ?thesis
        using r(3,5) g(5) by fastforce
    qed
  qed
qed

subsection \<open>Histories of a file cache\<close>

text \<open>
  A file cache that was made for the files of \<open>os\<close> and has served reads of at most \<open>tot\<close> bytes, whatever their
  results were.
\<close>

definition inside_file :: "os \<Rightarrow> nat \<Rightarrow> fcache \<Rightarrow> nat \<Rightarrow> u64 \<Rightarrow> nat \<Rightarrow> bool" where
  "inside_file os p fc fidx pos len \<longleftrightarrow> fidx < length (fc_info fc)
     \<and> unat pos + len \<le> file_end os p (fi_fd (fc_info fc ! fidx)) \<and> unat pos + len < 2 ^ 63"

inductive file_reads :: "os \<Rightarrow> nat \<Rightarrow> nat \<Rightarrow> fcache \<Rightarrow> bool" for os p where
  new: "fcache_new (\<lambda>d. Some (int (length (os_file os d)))) (2 ^ p) mem c fb heap fd n order = Some fc \<Longrightarrow> 0 < n \<Longrightarrow>
    4 * n < UINT_SIZE \<Longrightarrow> p + order < 63 \<Longrightarrow> file_reads os p 0 fc"
| pread: "file_reads os p tot fc \<Longrightarrow> inside_file os p fc fidx pos len \<Longrightarrow> tot + len < UINT_SIZE - 1 \<Longrightarrow>
    fcache_pread os len fidx pos fc = Some (st, bs, fc') \<Longrightarrow> file_reads os p (tot + len) fc'"

lemma file_reads_ok:
  assumes "os_ok os" and "file_reads os p tot fc"
  shows "\<exists>m. fc_ok os p m tot 0 fc \<and> ((\<forall>fd q. \<not> os_pread_fails os fd q) \<longrightarrow> fc_policy fc = KDUMP_MMAP_TRY)"
  using assms(2)
proof (induction rule: file_reads.induct)
  case (new mem c fb heap fd n order fc)
  have "fc_policy fc = KDUMP_MMAP_TRY"
    using new(1) by (auto simp: fcache_new_def bind_Some_iff split: if_splits)
  then show ?case
    using new_ok [OF new] by auto
next
  case (pread tot fc fidx pos len st bs fc')
  then obtain m where m: "fc_ok os p m tot 0 fc" "(\<forall>fd q. \<not> os_pread_fails os fd q) \<longrightarrow> fc_policy fc = KDUMP_MMAP_TRY"
    by blast
  have "0 < UINT_SIZE - 1"
    by simp
  from pread_transparent [OF assms(1) m(1) pread.hyps(3) this _ refl, of fidx pos] pread.hyps(2,4) m(2) show ?case
    unfolding inside_file_def by fastforce
qed

lemma file_reads_pread:
  assumes "os_ok os" and "file_reads os p tot fc" and "inside_file os p fc fidx pos len" and "tot + len < UINT_SIZE - 1"
  shows "\<exists>st bs fc'. fcache_pread os len fidx pos fc = Some (st, bs, fc')
    \<and> (st = KDUMP_OK \<longrightarrow> bs = file_bytes os (fcache_fd fc fidx) (unat pos) len)
    \<and> ((\<forall>fd q. \<not> os_pread_fails os fd q) \<longrightarrow> st = KDUMP_OK)"
proof -
  obtain m where m: "fc_ok os p m tot 0 fc" "(\<forall>fd q. \<not> os_pread_fails os fd q) \<longrightarrow> fc_policy fc = KDUMP_MMAP_TRY"
    using file_reads_ok [OF assms(1,2)] by blast
  have "0 < UINT_SIZE - 1"
    by simp
  from pread_transparent [OF assms(1) m(1) assms(4) this _ refl, of fidx pos] assms(3) m(2) show ?thesis
    unfolding inside_file_def fcache_fd_def by fastforce
qed

text \<open>
  C12. Whatever was read before through a file cache, \<open>fcache_pread\<close> of a range inside the pages of a file
  returns; if it reports success, the bytes are those of the file (zeros behind its end); and if \<open>pread\<close> does
  not fail it reports success, even if the system refuses to map the file.
\<close>

theorem fcache_pread_reads_file:
  assumes "os_ok os" and "file_reads os p tot fc" and "inside_file os p fc fidx pos len" and "tot + len < UINT_SIZE - 1"
  shows "\<exists>st bs fc'. fcache_pread os len fidx pos fc = Some (st, bs, fc')
    \<and> (st = KDUMP_OK \<longrightarrow> bs = file_bytes os (fcache_fd fc fidx) (unat pos) len)
    \<and> ((\<forall>fd q. \<not> os_pread_fails os fd q) \<longrightarrow> st = KDUMP_OK)"
  by (rule file_reads_pread [OF assms])

text \<open>A file of three bytes, on a system that does not map files.\<close>

definition ex_os :: os where
  "ex_os = \<lparr>os_file = (\<lambda>_. [1, 2, 3]), os_pread_fails = (\<lambda>_ _. False), os_mmap = (\<lambda>_ _ _. None)\<rparr>"

definition ex_cache :: pcache where
  "ex_cache = \<lparr>c_split = 0, c_nprec = 0, c_ngprec = 0, c_nprobe = 0, c_ngprobe = 0, c_dprobe = 0, c_cap = 0, c_inflight = 0,
     c_ninflight = 0, c_hits = 0, c_misses = 0, c_elemsize = 0, c_data = 0, c_cleanup = False, c_cleaned = [],
     c_ce = []\<rparr>"

definition ex_fcache :: fcache where
  "ex_fcache = the (fcache_new (\<lambda>d. Some (int (length (os_file ex_os d)))) (2 ^ 12) True (Some ex_cache, 0) (Some ex_cache, 0, Some 4096)
     (\<lambda>_. []) [7] 2 2)"

lemma ex_reads: "file_reads ex_os 12 0 ex_fcache \<and> fc_info ex_fcache = [\<lparr>fi_fd = 7, fi_filesz = 3\<rparr>]"
proof -
  obtain fc where fc: "fcache_new (\<lambda>d. Some (int (length (os_file ex_os d)))) (2 ^ 12) True (Some ex_cache, 0) (Some ex_cache, 0, Some 4096)
     (\<lambda>_. []) [7] 2 2 = Some fc" "fc_info fc = [\<lparr>fi_fd = 7, fi_filesz = 3\<rparr>]"
    by (simp add: fcache_new_def cache_alloc_def ex_cache_def ex_os_def)
  then have "ex_fcache = fc"
    by (simp add: ex_fcache_def)
  then show ?thesis
    using file_reads.new [OF fc(1)] fc(2) by simp
qed

theorem fcache_pread_reads_file_witness:
  "\<exists>fc'. fcache_pread ex_os 4 0 1 ex_fcache = Some (KDUMP_OK, [2, 3, 0, 0], fc')"
proof -
  have "os_ok ex_os" "inside_file ex_os 12 ex_fcache 0 1 4"
    using ex_reads by (simp_all add: os_ok_def ex_os_def inside_file_def file_end_def)
  from fcache_pread_reads_file [OF this(1) conjunct1 [OF ex_reads] this(2)] show ?thesis
    by (auto simp: ex_os_def fcache_fd_def file_bytes_def upt_conv_Cons)
qed

end
