(* ===== verification/Kdump_Util.thy ===== *)
theory Kdump_Util
  imports Kdump_Types
begin

section \<open>Utilities of libkdumpfile (src/kdumpfile/util.c)\<close>

text \<open>
  Hashing, checksums, run-length decoding, names of architectures and versions of operating systems. Buffers are
  lists of bytes. The host is a parameter where it matters: \<open>le\<close> tells that it is little-endian,
  \<open>schar\<close> that \<open>char\<close> is signed; an \<open>unsigned long\<close> has 64 bits. Attributes are parameters: a function that sets one gets
  the setter, which passes a state on.
\<close>


subsection \<open>Hashing\<close>

definition be_bytes :: "u8 list \<Rightarrow> u64" where
  "be_bytes bs = foldl (\<lambda>v b. 256 * v + ucast b) 0 bs"

definition get_unaligned_long :: "bool \<Rightarrow> u8 list \<Rightarrow> u64" where
  "get_unaligned_long le p = be_bytes (if le then rev (take 8 p) else take 8 p)"

definition add_to_hash :: "u64 \<Rightarrow> u64 \<Rightarrow> u64" where
  "add_to_hash hash x = (hash + x) * 9"

text \<open>The loop over whole words; the bytes that are left are returned as well.\<close>

function hash_words :: "bool \<Rightarrow> u64 \<Rightarrow> u8 list \<Rightarrow> u64 \<times> u8 list" where
  "hash_words le hash s =
     (if length s < 8 then (hash, s) else hash_words le (add_to_hash hash (get_unaligned_long le s)) (drop 8 s))"
  by auto
termination by (relation "measure (\<lambda>(le, hash, s). length s)") auto

definition char_value :: "bool \<Rightarrow> u8 \<Rightarrow> u64" where
  "char_value schar b = (if schar then scast b else ucast b)"

fun hash_tail :: "bool \<Rightarrow> u64 \<Rightarrow> u8 list \<Rightarrow> u64" where
  "hash_tail schar hash [] = hash"
| "hash_tail schar hash (b # s) = hash_tail schar (hash + push_bit (8 * length s) (char_value schar b)) s"

definition mem_hash :: "bool \<Rightarrow> bool \<Rightarrow> u8 list \<Rightarrow> u64" where
  "mem_hash le schar s = (let (hash, s) = hash_words le 0 s in hash_tail schar hash s)"

record phash =
  ph_val :: u64
  ph_idx :: nat
  ph_part :: "u8 list"

text \<open>The buffer for partial data is not initialised.\<close>

definition phash_init :: "u8 list \<Rightarrow> phash" where
  "phash_init junk = \<lparr>ph_val = 0, ph_idx = 0, ph_part = junk\<rparr>"

definition put_part :: "u8 \<Rightarrow> phash \<Rightarrow> phash" where
  "put_part b ph = ph\<lparr>ph_part := (ph_part ph)[ph_idx ph := b], ph_idx := ph_idx ph + 1\<rparr>"

fun fill_part :: "phash \<Rightarrow> u8 list \<Rightarrow> phash \<times> u8 list" where
  "fill_part ph [] = (ph, [])"
| "fill_part ph (b # s) = (if ph_idx ph < 8 then fill_part (put_part b ph) s else (ph, b # s))"

definition phash_update :: "bool \<Rightarrow> u8 list \<Rightarrow> phash \<Rightarrow> phash" where
  "phash_update le s ph =
     (let (ph, s) =
            (if ph_idx ph \<noteq> 0
             then let (ph, s) = fill_part ph s
                  in (if ph_idx ph \<ge> 8
                      then ph\<lparr>ph_val := add_to_hash (ph_val ph) (get_unaligned_long le (ph_part ph)), ph_idx := 0\<rparr>
                      else ph, s)
             else (ph, s));
          (val, s) = hash_words le (ph_val ph) s
      in fold put_part s (ph\<lparr>ph_val := val\<rparr>))"

text \<open>\<open>be64toh (get_unaligned_long p)\<close> is the number that the bytes are in big-endian order.\<close>

definition phash_value :: "phash \<Rightarrow> u64" where
  "phash_value ph =
     (if ph_idx ph \<noteq> 0 then ph_val ph + drop_bit (8 * (8 - ph_idx ph)) (be_bytes (take 8 (ph_part ph))) else ph_val ph)"

definition GOLDEN_RATIO_PRIME_64 :: u64 where
  "GOLDEN_RATIO_PRIME_64 = 11400714819323198549"

definition fold_hash :: "u64 \<Rightarrow> nat \<Rightarrow> u64" where
  "fold_hash hash bits = drop_bit (64 - bits) (hash * GOLDEN_RATIO_PRIME_64)"

subsection \<open>Run-length encoding\<close>

text \<open>
  \<open>remain\<close> is the room in the destination. The result is what is written there; \<open>None\<close> is the return value -1.
\<close>

fun uncompress_rle :: "nat \<Rightarrow> u8 list \<Rightarrow> u8 list option" where
  "uncompress_rle remain [] = Some []"
| "uncompress_rle remain (byte # src) =
     (if byte = 0
      then (case src of
              [] \<Rightarrow> None
            | cnt # src \<Rightarrow>
                if cnt \<noteq> 0
                then if remain < unat cnt then None
                     else (case src of
                             [] \<Rightarrow> None
                           | b # src \<Rightarrow> map_option (\<lambda>out. replicate (unat cnt) b @ out) (uncompress_rle (remain - unat cnt) src))
                else if remain = 0 then None else map_option (\<lambda>out. byte # out) (uncompress_rle (remain - 1) src))
      else if remain = 0 then None else map_option (\<lambda>out. byte # out) (uncompress_rle (remain - 1) src))"

subsection \<open>Checksums\<close>

definition be32 :: "u8 list \<Rightarrow> u32" where
  "be32 bs = foldl (\<lambda>v b. 256 * v + ucast b) 0 bs"

definition add_carry :: "u32 \<Rightarrow> u32 \<Rightarrow> u32" where
  "add_carry csum val = (let prevsum = csum; csum = csum + val in if csum < prevsum then csum + 1 else csum)"

fun cksum_tail :: "u32 \<Rightarrow> u8 list \<Rightarrow> u32" where
  "cksum_tail val [] = val"
| "cksum_tail val (b # bs) = cksum_tail (drop_bit 8 val OR push_bit 24 (ucast b)) bs"

function cksum32 :: "u8 list \<Rightarrow> u32 \<Rightarrow> u32" where
  "cksum32 buf csum =
     (if length buf \<ge> 4 then cksum32 (drop 4 buf) (add_carry csum (be32 (take 4 buf)))
      else if buf \<noteq> [] then add_carry csum (cksum_tail 0 buf) else csum)"
  by auto
termination by (relation "measure (\<lambda>(buf, csum). length buf)") auto

declare hash_words.simps [simp del] cksum32.simps [simp del]

subsection \<open>Architectures\<close>

datatype kdump_arch =
    ARCH_UNKNOWN | ARCH_AARCH64 | ARCH_ALPHA | ARCH_ARM | ARCH_IA32 | ARCH_IA64 | ARCH_MIPS | ARCH_PPC
  | ARCH_PPC64 | ARCH_RISCV32 | ARCH_RISCV64 | ARCH_S390 | ARCH_S390X | ARCH_X86_64

definition arch_ptr_size :: "kdump_arch \<Rightarrow> nat" where
  "arch_ptr_size arch =
     (if arch \<in> {ARCH_AARCH64, ARCH_ALPHA, ARCH_IA64, ARCH_PPC64, ARCH_RISCV64, ARCH_S390X, ARCH_X86_64} then 8 else 4)"

definition machine_arch_name :: "string \<Rightarrow> string option" where
  "machine_arch_name machine =
     (if machine = ''alpha'' then Some ''alpha''
      else if machine = ''ia64'' then Some ''ia64''
      else if machine = ''mips'' then Some ''mips''
      else if machine = ''ppc'' then Some ''ppc''
      else if machine = ''ppc64'' \<or> machine = ''ppc64le'' then Some ''ppc64''
      else if machine = ''riscv32'' then Some ''riscv32''
      else if machine = ''riscv64'' then Some ''riscv64''
      else if machine = ''s390'' then Some ''s390''
      else if machine = ''s390x'' then Some ''s390x''
      else if machine = ''i386'' \<or> machine = ''i586'' \<or> machine = ''i686'' then Some ''ia32''
      else if machine = ''x86_64'' then Some ''x86_64''
      else if machine = ''arm64'' \<or> machine = ''aarch64'' then Some ''aarch64''
      else if take 3 machine = ''arm'' then Some ''arm''
      else None)"

definition default_page_shift :: "kdump_arch \<Rightarrow> nat" where
  "default_page_shift arch =
     (if arch = ARCH_ALPHA then 13
      else if arch \<in> {ARCH_ARM, ARCH_MIPS, ARCH_RISCV32, ARCH_RISCV64, ARCH_S390, ARCH_S390X, ARCH_IA32, ARCH_X86_64} then 12
      else 0)"

definition canon_arch_names :: "(kdump_arch \<times> string) list" where
  "canon_arch_names =
     [(ARCH_UNKNOWN, ''''), (ARCH_AARCH64, ''aarch64''), (ARCH_ALPHA, ''alpha''), (ARCH_ARM, ''arm''), (ARCH_IA32, ''ia32''),
      (ARCH_IA64, ''ia64''), (ARCH_MIPS, ''mips''), (ARCH_PPC, ''ppc''), (ARCH_PPC64, ''ppc64''), (ARCH_RISCV32, ''riscv32''),
      (ARCH_RISCV64, ''riscv64''), (ARCH_S390, ''s390''), (ARCH_S390X, ''s390x''), (ARCH_X86_64, ''x86_64'')]"

definition arch_index :: "string \<Rightarrow> kdump_arch" where
  "arch_index name =
     (if name \<noteq> [] then (case find (\<lambda>(arch, n). n = name) canon_arch_names of Some (arch, n) \<Rightarrow> arch | None \<Rightarrow> ARCH_UNKNOWN)
      else ARCH_UNKNOWN)"

text \<open>The architectures that have operations.\<close>

definition arch_ops :: "kdump_arch \<Rightarrow> bool" where
  "arch_ops arch \<longleftrightarrow> arch \<in> {ARCH_AARCH64, ARCH_ARM, ARCH_IA32, ARCH_PPC64, ARCH_RISCV64, ARCH_S390X, ARCH_X86_64}"

subsection \<open>Versions\<close>

definition is_posix_space :: "char \<Rightarrow> bool" where
  "is_posix_space c \<longleftrightarrow> c \<in> {CHR '' '', CHR 0x0C, CHR 0x0A, CHR 0x0D, CHR 0x09, CHR 0x0B}"

text \<open>
  \<open>strtoul (s, \<dots>, 10)\<close> of the standard library: the value and the rest of the string; the rest is the whole
  string if there is no number.
\<close>

definition digit_value :: "char \<Rightarrow> nat" where
  "digit_value c = of_char c - 48"

definition is_digit :: "char \<Rightarrow> bool" where
  "is_digit c \<longleftrightarrow> (48 :: nat) \<le> of_char c \<and> of_char c \<le> (57 :: nat)"

definition strtoul :: "string \<Rightarrow> u64 \<times> string" where
  "strtoul s =
     (let t = dropWhile is_posix_space s;
          (neg, t) = (case t of c # t' \<Rightarrow> if c = CHR ''-'' then (True, t') else if c = CHR ''+'' then (False, t') else (False, t)
                      | [] \<Rightarrow> (False, t));
          ds = takeWhile is_digit t;
          n = foldl (\<lambda>v c. 10 * v + digit_value c) 0 ds;
          v = (if n \<ge> 2 ^ 64 then - 1 else if neg then - of_nat n else of_nat n)
      in if ds = [] then (0, s) else (v, dropWhile is_digit t))"

text \<open>
  The part of \<open>linux_ver_revalidate\<close> that parses the release: \<open>kver\<close> is the macro \<open>KERNEL_VERSION\<close> of the system header.
\<close>

definition linux_version_of :: "(u64 \<Rightarrow> u64 \<Rightarrow> u64 \<Rightarrow> u64) \<Rightarrow> string \<Rightarrow> kstatus + u64" where
  "linux_version_of kver p =
     (let (a, endp) = strtoul p
      in if endp = p \<or> endp = [] \<or> hd endp \<noteq> CHR ''.'' then Inl KDUMP_ERR_CORRUPT
         else let p = tl endp; (b, endp) = strtoul p
              in if endp = p \<or> endp = [] \<or> hd endp \<noteq> CHR ''.'' then Inl KDUMP_ERR_CORRUPT
                 else let p = tl endp; (c, endp) = strtoul p
                      in if endp = p then Inl KDUMP_ERR_CORRUPT else Inr (kver a b c))"

text \<open>
  Revalidation of \<open>linux.version_code\<close>: the release string, if it is set, the status of its
  revalidation, and the setter. \<open>Some v\<close> as the state is a value that was set.
\<close>

definition linux_ver_revalidate ::
  "(u64 \<Rightarrow> u64 \<Rightarrow> u64 \<Rightarrow> u64) \<Rightarrow> string option \<Rightarrow> kstatus \<Rightarrow> (u64 \<Rightarrow> 's \<Rightarrow> kstatus \<times> 's) \<Rightarrow> 's \<Rightarrow> kstatus \<times> 's" where
  "linux_ver_revalidate kver rel revalidated set_num s =
     (case rel of
        None \<Rightarrow> (KDUMP_OK, s)
      | Some p \<Rightarrow>
          if revalidated \<noteq> KDUMP_OK then (revalidated, s)
          else (case linux_version_of kver p of Inl st \<Rightarrow> (st, s) | Inr v \<Rightarrow> set_num v s))"

definition xen_ver_revalidate ::
  "u64 option \<Rightarrow> u64 option \<Rightarrow> kstatus \<Rightarrow> kstatus \<Rightarrow> (u64 \<Rightarrow> 's \<Rightarrow> kstatus \<times> 's) \<Rightarrow> 's \<Rightarrow> kstatus \<times> 's" where
  "xen_ver_revalidate major minor st_major st_minor set_num s =
     (case (major, minor) of
        (Some a, Some b) \<Rightarrow>
          if st_major \<noteq> KDUMP_OK then (st_major, s)
          else if st_minor \<noteq> KDUMP_OK then (st_minor, s)
          else set_num (push_bit 16 a OR b) s
      | _ \<Rightarrow> (KDUMP_OK, s))"

subsection \<open>System names\<close>

definition NEW_UTS_LEN :: nat where
  "NEW_UTS_LEN = 64"

definition UTS_SYSNAME :: string where
  "UTS_SYSNAME = ''Linux''"

text \<open>The fields are arrays of \<open>NEW_UTS_LEN + 1\<close> characters.\<close>

record new_utsname =
  uts_sysname :: string
  uts_nodename :: string
  uts_release :: string
  uts_version :: string
  uts_machine :: string
  uts_domainname :: string

datatype uts_key = UTS_sysname | UTS_nodename | UTS_release | UTS_version | UTS_machine | UTS_domainname

text \<open>The string in an array of characters.\<close>

definition c_string :: "string \<Rightarrow> string" where
  "c_string s = takeWhile (\<lambda>c. c \<noteq> CHR 0x00) s"

definition set_uts_string :: "(uts_key \<Rightarrow> string \<Rightarrow> 's \<Rightarrow> kstatus \<times> 's) \<Rightarrow> uts_key \<Rightarrow> string \<Rightarrow> 's \<Rightarrow> kstatus \<times> 's" where
  "set_uts_string set_str key src = set_str key (c_string (take NEW_UTS_LEN src @ [CHR 0x00]))"

fun set_uts_loop ::
  "(uts_key \<Rightarrow> string \<Rightarrow> 's \<Rightarrow> kstatus \<times> 's) \<Rightarrow> (uts_key \<times> string \<times> bool) list \<Rightarrow> 's \<Rightarrow> kstatus \<times> 's" where
  "set_uts_loop set_str [] s = (KDUMP_OK, s)"
| "set_uts_loop set_str ((key, src, empty_ok) # defs) s =
     (if hd src \<noteq> CHR 0x00 \<or> empty_ok
      then let (res, s) = set_uts_string set_str key src s
           in if res \<noteq> KDUMP_OK then (res, s) else set_uts_loop set_str defs s
      else set_uts_loop set_str defs s)"

definition set_uts :: "(uts_key \<Rightarrow> string \<Rightarrow> 's \<Rightarrow> kstatus \<times> 's) \<Rightarrow> new_utsname \<Rightarrow> 's \<Rightarrow> kstatus \<times> 's" where
  "set_uts set_str src =
     set_uts_loop set_str
       [(UTS_sysname, uts_sysname src, False), (UTS_nodename, uts_nodename src, True), (UTS_release, uts_release src, False),
        (UTS_version, uts_version src, False), (UTS_machine, uts_machine src, False), (UTS_domainname, uts_domainname src, True)]"

definition uts_looks_sane :: "new_utsname \<Rightarrow> bool" where
  "uts_looks_sane uts \<longleftrightarrow>
     \<not> (uts_sysname uts ! NEW_UTS_LEN \<noteq> CHR 0x00 \<or> uts_nodename uts ! NEW_UTS_LEN \<noteq> CHR 0x00
        \<or> uts_release uts ! NEW_UTS_LEN \<noteq> CHR 0x00 \<or> uts_version uts ! NEW_UTS_LEN \<noteq> CHR 0x00
        \<or> uts_machine uts ! NEW_UTS_LEN \<noteq> CHR 0x00)
     \<and> \<not> (uts_release uts ! 0 = CHR 0x00 \<or> uts_version uts ! 0 = CHR 0x00 \<or> uts_machine uts ! 0 = CHR 0x00)
     \<and> c_string (uts_sysname uts) = UTS_SYSNAME"

subsection \<open>Page size and cache size\<close>

text \<open>
  \<open>ffsl\<close> of the standard library: the number of the lowest bit that is set, from 1, or 0. The shift that is set is a 64-bit number.
\<close>

definition ffsl :: "u64 \<Rightarrow> nat" where
  "ffsl x = (case find (\<lambda>n. bit x n) [0..<64] of Some n \<Rightarrow> n + 1 | None \<Rightarrow> 0)"

definition page_size_pre_hook :: "(u64 \<Rightarrow> 's \<Rightarrow> kstatus \<times> 's) \<Rightarrow> u64 \<Rightarrow> 's \<Rightarrow> kstatus \<times> 's" where
  "page_size_pre_hook set_page_shift page_size s =
     (if page_size \<noteq> (page_size AND NOT (page_size - 1)) then (KDUMP_ERR_CORRUPT, s)
      else set_page_shift (of_nat (ffsl page_size) - 1) s)"

text \<open>The result is \<open>None\<close> for a shift by 64 or more, which is not defined.\<close>

definition page_shift_post_hook :: "(u64 \<Rightarrow> 's \<Rightarrow> kstatus \<times> 's) \<Rightarrow> u64 \<Rightarrow> 's \<Rightarrow> (kstatus \<times> 's) option" where
  "page_shift_post_hook set_page_size shift s = (if shift < 64 then Some (set_page_size (push_bit (unat shift) 1) s) else None)"

definition cache_size_pre_hook :: "u64 \<Rightarrow> kstatus" where
  "cache_size_pre_hook val = (if val > 2 ^ 32 - 1 then KDUMP_ERR_INVALID else KDUMP_OK)"

end
