(* ===== verification/Kdump_Util_Facts.thy ===== *)
theory Kdump_Util_Facts
  imports Kdump_Util
begin

section \<open>What the utilities of libkdumpfile compute\<close>

text \<open>
  The incremental hash is the hash of all the data, however they are cut into pieces; run-length decoding
  accepts exactly the encoded sequences of literals and runs; the checksum is a sum with end-around carry.
\<close>

subsection \<open>Hashing in pieces\<close>

lemma hash_words_short: "length s < 8 \<Longrightarrow> hash_words le v s = (v, s)"
  by (simp add: hash_words.simps)

lemma get_unaligned_long_append: "8 \<le> length p \<Longrightarrow> get_unaligned_long le (p @ q) = get_unaligned_long le p"
  by (simp add: get_unaligned_long_def)

lemma hash_words_append: "hash_words le v (a @ s) = hash_words le (fst (hash_words le v a)) (snd (hash_words le v a) @ s)"
proof (induction le v a rule: hash_words.induct)
  case (1 le v a)
  show ?case
  proof (cases "length a < 8")
    case True
    then show ?thesis
      by (simp add: hash_words_short)
  next
    case False
    then have "hash_words le v (a @ s) = hash_words le (add_to_hash v (get_unaligned_long le a)) (drop 8 a @ s)"
      by (subst hash_words.simps) (simp add: get_unaligned_long_append)
    moreover have "hash_words le v a = hash_words le (add_to_hash v (get_unaligned_long le a)) (drop 8 a)"
      using False by (subst hash_words.simps) simp
    ultimately show ?thesis
      using 1 [OF False] by simp
  qed
qed

lemma hash_words_rest: "length (snd (hash_words le v a)) < 8"
  by (induction le v a rule: hash_words.induct) (subst hash_words.simps, simp)

text \<open>The state of a partial hash after the bytes \<open>bs\<close>.\<close>

definition hashed :: "bool \<Rightarrow> u8 list \<Rightarrow> phash \<Rightarrow> bool" where
  "hashed le bs ph \<longleftrightarrow> length (ph_part ph) = 8 \<and> ph_idx ph < 8 \<and> hash_words le 0 bs = (ph_val ph, take (ph_idx ph) (ph_part ph))"

lemma fill_part_run:
  "length (ph_part ph) = 8 \<Longrightarrow> ph_idx ph \<le> 8 \<Longrightarrow> fill_part ph s = (ph', s') \<Longrightarrow>
     \<exists>k. ph_idx ph' = ph_idx ph + k \<and> k \<le> length s \<and> ph_idx ph' \<le> 8 \<and> s' = drop k s \<and> ph_val ph' = ph_val ph \<and> length (ph_part ph') = 8
       \<and> take (ph_idx ph') (ph_part ph') = take (ph_idx ph) (ph_part ph) @ take k s \<and> (ph_idx ph' < 8 \<longrightarrow> s' = [])"
proof (induction ph s rule: fill_part.induct)
  case (1 ph)
  then show ?case
    by (intro exI [of _ 0]) auto
next
  case (2 ph b s)
  show ?case
  proof (cases "ph_idx ph < 8")
    case True
    define q where "q = put_part b ph"
    have q: "length (ph_part q) = 8" "ph_idx q = ph_idx ph + 1" "ph_val q = ph_val ph"
      "take (ph_idx q) (ph_part q) = take (ph_idx ph) (ph_part ph) @ [b]"
      using 2(2) True by (simp_all add: q_def put_part_def take_Suc_conv_app_nth)
    have "fill_part q s = (ph', s')"
      using 2(4) True by (simp add: q_def)
    then obtain k where "ph_idx ph' = ph_idx q + k \<and> k \<le> length s \<and> ph_idx ph' \<le> 8 \<and> s' = drop k s \<and> ph_val ph' = ph_val q
      \<and> length (ph_part ph') = 8 \<and> take (ph_idx ph') (ph_part ph') = take (ph_idx q) (ph_part q) @ take k s \<and> (ph_idx ph' < 8 \<longrightarrow> s' = [])"
      using 2(1) [OF True] q True by (auto simp: q_def [symmetric])
    then show ?thesis
      using q by (intro exI [of _ "Suc k"]) auto
  next
    case False
    then show ?thesis
      using 2(2-) by (intro exI [of _ 0]) auto
  qed
qed

lemma put_parts:
  "length (ph_part ph) = 8 \<Longrightarrow> ph_idx ph + length s \<le> 8 \<Longrightarrow>
     ph_idx (fold put_part s ph) = ph_idx ph + length s \<and> ph_val (fold put_part s ph) = ph_val ph
     \<and> length (ph_part (fold put_part s ph)) = 8
     \<and> take (ph_idx ph + length s) (ph_part (fold put_part s ph)) = take (ph_idx ph) (ph_part ph) @ s"
proof (induction s arbitrary: ph)
  case (Cons b s)
  define q where "q = put_part b ph"
  have q: "length (ph_part q) = 8" "ph_idx q = ph_idx ph + 1" "ph_val q = ph_val ph"
    "take (ph_idx q) (ph_part q) = take (ph_idx ph) (ph_part ph) @ [b]"
    using Cons.prems by (simp_all add: q_def put_part_def take_Suc_conv_app_nth)
  then show ?case
    using Cons.IH [of q] Cons.prems by (simp add: q_def [symmetric])
qed simp

lemma hashed_update:
  assumes "hashed le bs ph"
  shows "hashed le (bs @ s) (phash_update le s ph)"
proof -
  have ph: "length (ph_part ph) = 8" "ph_idx ph < 8" "hash_words le 0 bs = (ph_val ph, take (ph_idx ph) (ph_part ph))"
    using assms by (simp_all add: hashed_def)
  have all: "hash_words le 0 (bs @ s) = hash_words le (ph_val ph) (take (ph_idx ph) (ph_part ph) @ s)"
    using hash_words_append [of le 0 bs s] ph(3) by simp
  obtain q r where q: "(if ph_idx ph \<noteq> 0
             then let (ph, s) = fill_part ph s
                  in (if ph_idx ph \<ge> 8
                      then ph\<lparr>ph_val := add_to_hash (ph_val ph) (get_unaligned_long le (ph_part ph)), ph_idx := 0\<rparr>
                      else ph, s)
             else (ph, s)) = (q, r)"
    by fastforce
  have qr: "length (ph_part q) = 8 \<and> ph_idx q < 8 \<and> (ph_idx q \<noteq> 0 \<longrightarrow> r = [])
    \<and> hash_words le (ph_val ph) (take (ph_idx ph) (ph_part ph) @ s) = hash_words le (ph_val q) (take (ph_idx q) (ph_part q) @ r)"
  proof (cases "ph_idx ph = 0")
    case True
    then show ?thesis
      using q ph by simp
  next
    case False
    obtain p' s' where f: "fill_part ph s = (p', s')"
      by fastforce
    obtain k where k: "ph_idx p' = ph_idx ph + k" "k \<le> length s" "ph_idx p' \<le> 8" "s' = drop k s" "ph_val p' = ph_val ph"
      "length (ph_part p') = 8" "take (ph_idx p') (ph_part p') = take (ph_idx ph) (ph_part ph) @ take k s" "ph_idx p' < 8 \<longrightarrow> s' = []"
      using fill_part_run [OF ph(1) _ f] ph(2) by auto
    have split: "take (ph_idx ph) (ph_part ph) @ s = take (ph_idx p') (ph_part p') @ s'"
      using k(4,7) by simp
    show ?thesis
    proof (cases "ph_idx p' < 8")
      case True
      then show ?thesis
        using q False f k(5,6,8) split by auto
    next
      case full: False
      then have "ph_idx p' = 8"
        using k(3) by simp
      then have w: "hash_words le (ph_val ph) (take (ph_idx ph) (ph_part ph) @ s)
        = hash_words le (add_to_hash (ph_val ph) (get_unaligned_long le (ph_part p'))) s'"
        unfolding split using k(6) by (subst hash_words.simps) (simp add: get_unaligned_long_append)
      have "q = p'\<lparr>ph_val := add_to_hash (ph_val p') (get_unaligned_long le (ph_part p')), ph_idx := 0\<rparr>" "r = s'"
        using q False f full by auto
      then show ?thesis
        using w k(5,6) by simp
    qed
  qed
  obtain v t where t: "hash_words le (ph_val q) r = (v, t)"
    by fastforce
  have "length t < 8"
    using hash_words_rest [of le "ph_val q" r] t by simp
  have room: "ph_idx q + length t \<le> 8 \<and> hash_words le (ph_val q) (take (ph_idx q) (ph_part q) @ r) = (v, take (ph_idx q) (ph_part q) @ t)
     \<and> ph_idx q + length t < 8"
  proof (cases "ph_idx q = 0")
    case True
    then show ?thesis
      using t \<open>length t < 8\<close> by simp
  next
    case False
    then have "r = []"
      using qr by blast
    then show ?thesis
      using t qr by (auto simp: hash_words_short)
  qed
  have u: "phash_update le s ph = fold put_part t (q\<lparr>ph_val := v\<rparr>)"
    unfolding phash_update_def q using t by simp
  show ?thesis
    using put_parts [of "q\<lparr>ph_val := v\<rparr>" t] room qr all unfolding hashed_def u by simp
qed

lemma hashed_pieces: "hashed le bs ph \<Longrightarrow> hashed le (bs @ concat ps) (fold (phash_update le) ps ph)"
proof (induction ps arbitrary: bs ph)
  case (Cons p ps)
  then show ?case
    using Cons.IH [OF hashed_update [OF Cons.prems, of p]] by simp
qed simp

text \<open>The bytes that do not fill a word.\<close>

lemma hash_tail_bytes:
  "(\<And>b. b \<in> set s \<Longrightarrow> char_value schar b = ucast b) \<Longrightarrow> hash_tail schar v s = v + foldl (\<lambda>v b. 256 * v + ucast b) 0 s"
proof -
  have f: "foldl (\<lambda>v b. 256 * v + ucast b) w s = w * 256 ^ length s + foldl (\<lambda>v b. 256 * v + ucast b) 0 s" for w :: u64 and s :: "u8 list"
  proof (induction s arbitrary: w)
    case (Cons b s)
    show ?case
      using Cons.IH [of "256 * w + ucast b"] Cons.IH [of "ucast b"] by (simp add: algebra_simps)
  qed simp
  show "(\<And>b. b \<in> set s \<Longrightarrow> char_value schar b = ucast b) \<Longrightarrow> hash_tail schar v s = v + foldl (\<lambda>v b. 256 * v + ucast b) 0 s"
  proof (induction s arbitrary: v)
    case (Cons b s)
    have "push_bit (8 * length s) (ucast b :: u64) = ucast b * 256 ^ length s"
      by (simp add: push_bit_eq_mult power_mult)
    then show ?case
      using Cons f [of "ucast b" s] by simp
  qed simp
qed

definition nat_be :: "u8 list \<Rightarrow> nat" where
  "nat_be bs = foldl (\<lambda>v b. 256 * v + unat b) 0 bs"

lemma nat_be_snoc: "nat_be (bs @ [b]) = 256 * nat_be bs + unat b"
  by (simp add: nat_be_def)

lemma nat_be_append: "nat_be (a @ b) = nat_be a * 256 ^ length b + nat_be b"
  by (induction b rule: rev_induct) (simp_all add: nat_be_def algebra_simps)

lemma nat_be_less: "nat_be bs < 256 ^ length bs"
proof (induction bs rule: rev_induct)
  case (snoc b bs)
  have "unat b < 256"
    using unsigned_less [of b] by simp
  then show ?case
    using snoc unfolding nat_be_snoc by simp
qed (simp add: nat_be_def)

lemma be_bytes_nat: "be_bytes bs = of_nat (nat_be bs)"
  by (induction bs rule: rev_induct) (simp_all add: be_bytes_def nat_be_def)

lemma unat_be_bytes:
  assumes "length bs \<le> 8"
  shows "unat (be_bytes bs) = nat_be bs"
proof -
  have "nat_be bs < 256 ^ 8"
    using less_le_trans [OF nat_be_less power_increasing [OF assms, of "256 :: nat"]] by simp
  then show ?thesis
    unfolding be_bytes_nat unat_of_nat by (simp add: take_bit_nat_eq_self)
qed

lemma be_bytes_front:
  assumes "length p = 8" and "n \<le> 8"
  shows "drop_bit (8 * (8 - n)) (be_bytes p) = be_bytes (take n p)"
proof -
  have l: "length (drop n p) = 8 - n" "length (take n p) \<le> 8"
    using assms by simp_all
  have "unat (drop_bit (8 * (8 - n)) (be_bytes p)) = nat_be p div 256 ^ (8 - n)"
    unfolding unat_drop_bit_eq unfolding drop_bit_eq_div using assms(1) by (simp add: unat_be_bytes power_mult)
  also have "\<dots> = nat_be (take n p)"
  proof -
    have eq: "nat_be p = nat_be (drop n p) + nat_be (take n p) * 256 ^ (8 - n)"
      using nat_be_append [of "take n p" "drop n p"] l(1) by simp
    have "nat_be (drop n p) < 256 ^ (8 - n)"
      using nat_be_less [of "drop n p"] l(1) by simp
    then show ?thesis
      by (subst eq, subst div_mult_self1) simp_all
  qed
  also have "\<dots> = unat (be_bytes (take n p))"
    by (rule unat_be_bytes [OF l(2), symmetric])
  finally show ?thesis
    by (simp only: word_unat_eq_iff)
qed

lemma phash_hashed:
  assumes "hashed le bs ph" and "\<forall>b\<in>set bs. char_value schar b = ucast b"
  shows "phash_value ph = mem_hash le schar bs"
proof -
  have ph: "length (ph_part ph) = 8" "ph_idx ph < 8" "hash_words le 0 bs = (ph_val ph, take (ph_idx ph) (ph_part ph))"
    using assms(1) by (simp_all add: hashed_def)
  have sub: "set (snd (hash_words le v a)) \<subseteq> set a" for v a
  proof (induction le v a rule: hash_words.induct)
    case (1 le v a)
    then show ?case
      using set_drop_subset [of 8 a] by (subst hash_words.simps) auto
  qed
  have "mem_hash le schar bs = ph_val ph + be_bytes (take (ph_idx ph) (ph_part ph))"
    unfolding mem_hash_def ph(3) Let_def prod.case be_bytes_def
    by (rule hash_tail_bytes) (use assms(2) sub [of 0 bs] ph(3) in auto)
  also have "be_bytes (take (ph_idx ph) (ph_part ph)) = drop_bit (8 * (8 - ph_idx ph)) (be_bytes (take 8 (ph_part ph)))"
    using be_bytes_front [OF ph(1), of "ph_idx ph"] ph(1,2) by simp
  finally show ?thesis
    by (simp add: phash_value_def be_bytes_def)
qed

lemma hashed_init: "length junk = 8 \<Longrightarrow> hashed le [] (phash_init junk)"
  by (simp add: hashed_def phash_init_def hash_words_short)

text \<open>
  C32. The incremental hash: however the data are cut into pieces, and whatever the uninitialised buffer holds, the value is the
  hash that \<open>mem_hash\<close> computes of all the data at once, for data without bytes above 127 or a host with an unsigned \<open>char\<close>.
\<close>

theorem phash_is_mem_hash:
  assumes "length junk = 8" and "schar \<longrightarrow> (\<forall>b\<in>set (concat pieces). b < 128)"
  shows "phash_value (fold (phash_update le) pieces (phash_init junk)) = mem_hash le schar (concat pieces)"
proof -
  have "\<forall>b\<in>set (concat pieces). char_value schar b = ucast b"
  proof
    fix b
    assume "b \<in> set (concat pieces)"
    then have "schar \<longrightarrow> b < 128"
      using assms(2) by blast
    moreover have "scast b = (ucast b :: u64)" if "b < 128"
    proof -
      have "unat b < 128"
        using that by (simp add: word_less_nat_alt)
      then have "\<not> bit b 7"
        by (simp add: bit_iff_odd_drop_bit drop_bit_eq_div word_arith_nat_div bit_unsigned_iff [symmetric] flip: unat_eq_0)
      then have "\<not> bit b n" if "7 \<le> n" for n
        using that bit_imp_le_length [of b n] by (cases "n = 7") auto
      then show ?thesis
        by (auto simp: bit_eq_iff bit_simps min_def not_le)
    qed
    ultimately show "char_value schar b = ucast b"
      by (simp add: char_value_def)
  qed
  then show ?thesis
    using phash_hashed [OF hashed_pieces [OF hashed_init [OF assms(1)], of le pieces, simplified]] by simp
qed

theorem phash_is_mem_hash_witness:
  "phash_value (fold (phash_update True) [[1, 2, 3], [4, 5, 6, 7, 8, 9]] (phash_init (replicate 8 255)))
     = mem_hash True True [1, 2, 3, 4, 5, 6, 7, 8, 9]"
  using phash_is_mem_hash [of "replicate 8 255" True "[[1, 2, 3], [4, 5, 6, 7, 8, 9]]" True] by simp

text \<open>On a host with a signed \<open>char\<close> the two differ for other bytes.\<close>

lemma mem_hash_signed_char: "mem_hash True True [255] = - 1" and phash_byte: "phash_value (phash_update True [255] (phash_init (replicate 8 0))) = 255"
  by code_simp+

subsection \<open>Run-length decoding\<close>

datatype rle = Lit u8 | Run u8 u8

fun rle_ok :: "rle \<Rightarrow> bool" where
  "rle_ok (Lit b) = True"
| "rle_ok (Run n b) = (n \<noteq> 0)"

fun rle_code :: "rle \<Rightarrow> u8 list" where
  "rle_code (Lit b) = (if b = 0 then [0, 0] else [b])"
| "rle_code (Run n b) = [0, n, b]"

fun rle_data :: "rle \<Rightarrow> u8 list" where
  "rle_data (Lit b) = [b]"
| "rle_data (Run n b) = replicate (unat n) b"

lemma rle_decode:
  "(\<forall>t\<in>set ts. rle_ok t) \<Longrightarrow> length (concat (map rle_data ts)) \<le> n \<Longrightarrow>
     uncompress_rle n (concat (map rle_code ts)) = Some (concat (map rle_data ts))"
proof (induction ts arbitrary: n)
  case (Cons t ts)
  show ?case
  proof (cases t)
    case (Lit b)
    then show ?thesis
      using Cons by simp
  next
    case (Run c b)
    then have "length (concat (map rle_data ts)) \<le> n - unat c" "unat c \<le> n" "c \<noteq> 0"
      using Cons.prems by auto
    then show ?thesis
      using Cons.IH [of "n - unat c"] Cons.prems(1) Run by simp
  qed
qed simp

lemma rle_encoded:
  "uncompress_rle n src = Some out \<Longrightarrow>
     \<exists>ts. (\<forall>t\<in>set ts. rle_ok t) \<and> src = concat (map rle_code ts) \<and> out = concat (map rle_data ts) \<and> length out \<le> n"
proof (induction n src arbitrary: out rule: uncompress_rle.induct)
  case (1 n)
  then show ?case
    by (intro exI [of _ "[]"]) simp
next
  case (2 n byte src)
  have lit: ?case if p: "out = byte # o'" "0 < n" "byte # src = rle_code (Lit byte) @ s'"
    "\<exists>ts. (\<forall>t\<in>set ts. rle_ok t) \<and> s' = concat (map rle_code ts) \<and> o' = concat (map rle_data ts) \<and> length o' \<le> n - 1" for o' s'
  proof -
    obtain ts where "\<forall>t\<in>set ts. rle_ok t" "s' = concat (map rle_code ts)" "o' = concat (map rle_data ts)" "length o' \<le> n - 1"
      using p(4) by blast
    then show ?thesis
      using p(1-3) by (intro exI [of _ "Lit byte # ts"]) auto
  qed
  show ?case
  proof (cases "byte = 0")
    case False
    then obtain o' where o': "uncompress_rle (n - 1) src = Some o'" "out = byte # o'" "n \<noteq> 0"
      using 2(4) by (auto split: if_splits)
    show ?thesis
      by (rule lit [OF o'(2) _ _ 2(3) [OF False o'(3,1)]]) (use False o'(3) in simp_all)
  next
    case zero: True
    then obtain cnt src' where s: "src = cnt # src'"
      using 2(4) by (cases src) auto
    show ?thesis
    proof (cases "cnt = 0")
      case True
      then obtain o' where o': "uncompress_rle (n - 1) src' = Some o'" "out = byte # o'" "n \<noteq> 0"
        using 2(4) zero s by (auto split: if_splits)
      show ?thesis
        by (rule lit [OF o'(2) _ _ 2(2) [OF zero s _ o'(3,1)]]) (use True zero s o'(3) in simp_all)
    next
      case False
      then obtain b src'' o' where o': "src' = b # src''" "\<not> n < unat cnt" "uncompress_rle (n - unat cnt) src'' = Some o'"
        "out = replicate (unat cnt) b @ o'"
        using 2(4) zero s by (auto split: if_splits list.splits)
      obtain ts where "\<forall>t\<in>set ts. rle_ok t" "src'' = concat (map rle_code ts)" "o' = concat (map rle_data ts)" "length o' \<le> n - unat cnt"
        using 2(1) [OF zero s False o'(2,1,3)] by blast
      then show ?thesis
        using o' s zero False by (intro exI [of _ "Run cnt b # ts"]) auto
    qed
  qed
qed

text \<open>
  C31. Run-length decoding: \<open>uncompress_rle\<close> succeeds exactly on the encodings of sequences of literal bytes and runs whose data fit into
  the destination, and then has written those data; so it never writes behind the end of the destination.
\<close>

theorem uncompress_rle_decodes:
  "uncompress_rle n src = Some out \<longleftrightarrow>
     (\<exists>ts. list_all rle_ok ts \<and> src = concat (map rle_code ts) \<and> out = concat (map rle_data ts) \<and> length out \<le> n)"
  using rle_encoded [of n src out] rle_decode by (auto simp: list_all_iff)

subsection \<open>Checksums\<close>


lemma add_carry_zero: "add_carry c v = 0 \<longleftrightarrow> c = 0 \<and> v = 0"
proof
  assume "add_carry c v = 0"
  show "c = 0 \<and> v = 0"
  proof (cases "c + v < c")
    case True
    then have "c + v + 1 = 0"
      using \<open>add_carry c v = 0\<close> by (simp add: add_carry_def)
    then have "c + v = - 1"
      by (simp add: eq_neg_iff_add_eq_0)
    then show ?thesis
      using True by (simp add: word_less_nat_alt) (meson not_less word_le_nat_alt word_n1_ge)
  next
    case False
    then have "c + v = 0" "\<not> 0 < c"
      using \<open>add_carry c v = 0\<close> by (simp_all add: add_carry_def)
    then show ?thesis
      by (simp add: word_gt_0)
  qed
qed (simp add: add_carry_def)







text \<open>
  Two or three bytes at the end are put together in the opposite order of the bytes of the words: the checksum is not
  that of the buffer padded with zeros.
\<close>

lemma cksum32_tail_order: "cksum32 [1, 2] 0 = 0x02010000" "cksum32 [1, 2, 0, 0] 0 = 0x01020000"
  by code_simp+

subsection \<open>Names and versions\<close>

lemma machine_arch_known: "machine_arch_name m = Some n \<Longrightarrow> arch_index n \<noteq> ARCH_UNKNOWN"
  unfolding machine_arch_name_def by (auto simp: arch_index_def canon_arch_names_def split: if_splits)

text \<open>A release with two numbers is refused, although the third number is meant to be optional.\<close>

lemma strtoul_example: "strtoul ''6.5'' = (6, ''.5'')" "strtoul ''5'' = (5, [])"
  by (simp_all add: strtoul_def is_digit_def digit_value_def is_posix_space_def of_char_Char)

lemma linux_version_needs_three: "linux_version_of kver ''6.5'' = Inl KDUMP_ERR_CORRUPT"
  by (simp add: linux_version_of_def strtoul_example)

text \<open>A page size of zero passes the check for powers of two, and the shift that it sets is not below 64.\<close>

lemma ffsl_0: "ffsl 0 = 0"
proof -
  have "find (\<lambda>n. bit (0 :: u64) n) [0..<64] = None"
    by (simp only: find_None_iff) simp
  then show ?thesis
    by (simp add: ffsl_def)
qed

lemma page_size_zero:
  "page_size_pre_hook set_shift 0 s = set_shift (- 1) s" and "page_shift_post_hook set_size (- 1) s = None"
  by (simp_all add: page_size_pre_hook_def ffsl_0 page_shift_post_hook_def)

end
