(* ===== verification/Flatmap.thy ===== *)
theory Flatmap
  imports Xlat_Map Kdump_Util Fcache
begin

section \<open>Files in the flattened format (src/kdumpfile/flatmap.c)\<close>

text \<open>
  A flattened file is a sequence of segments, each with the offset of its data in the rearranged file. The headers are
  read once; an address translation map takes an offset of the rearranged file to the index of a segment, whose
  difference between the two offsets is in an array. \<open>off_t\<close> values are 64-bit words; positions in the flattened file
  are natural numbers, and a sum above the largest \<open>off_t\<close> is not defined. The outcomes of allocations are
  arguments. The result \<open>None\<close> stands for undefined behaviour.
\<close>

definition MDF_HEADER_SIZE :: nat where
  "MDF_HEADER_SIZE = 4096"

definition ALLOC_INC :: nat where
  "ALLOC_INC = 32"

text \<open>The method number in a range is an index of a segment.\<close>

definition meth_of_num :: "nat \<Rightarrow> sys_meth" where
  "meth_of_num n =
     (if n < 8
      then [ADDRXLAT_SYS_METH_PGT, ADDRXLAT_SYS_METH_UPGT, ADDRXLAT_SYS_METH_DIRECT, ADDRXLAT_SYS_METH_KTEXT, ADDRXLAT_SYS_METH_VMEMMAP,
            ADDRXLAT_SYS_METH_RDIRECT, ADDRXLAT_SYS_METH_MACHPHYS_KPHYS, ADDRXLAT_SYS_METH_KPHYS_MACHPHYS] ! n
      else ADDRXLAT_SYS_METH_CUSTOM (n - 8))"

fun num_of_meth :: "sys_meth \<Rightarrow> nat option" where
  "num_of_meth ADDRXLAT_SYS_METH_NONE = None"
| "num_of_meth ADDRXLAT_SYS_METH_PGT = Some 0"
| "num_of_meth ADDRXLAT_SYS_METH_UPGT = Some 1"
| "num_of_meth ADDRXLAT_SYS_METH_DIRECT = Some 2"
| "num_of_meth ADDRXLAT_SYS_METH_KTEXT = Some 3"
| "num_of_meth ADDRXLAT_SYS_METH_VMEMMAP = Some 4"
| "num_of_meth ADDRXLAT_SYS_METH_RDIRECT = Some 5"
| "num_of_meth ADDRXLAT_SYS_METH_MACHPHYS_KPHYS = Some 6"
| "num_of_meth ADDRXLAT_SYS_METH_KPHYS_MACHPHYS = Some 7"
| "num_of_meth (ADDRXLAT_SYS_METH_CUSTOM n) = Some (n + 8)"

record flattened_file_map =
  ffm_map :: "xmap option"
  ffm_offs :: "u64 list"

text \<open>The file cache is passed along as the state; \<open>fm_cache\<close> tells whether the pointer to it is set.\<close>

record flattened_map =
  fm_cache :: bool
  fm_files :: "flattened_file_map list"

subsection \<open>Reading the segment headers\<close>

text \<open>\<open>alloc\<close> and \<open>grown\<close> are the outcomes of \<open>realloc\<close> and of the allocation in \<open>addrxlat_map_set\<close> for a segment.\<close>

partial_function (option) segments_loop ::
  "os \<Rightarrow> (nat \<Rightarrow> bool) \<Rightarrow> (nat \<Rightarrow> bool) \<Rightarrow> nat \<Rightarrow> nat \<Rightarrow> nat \<Rightarrow> xmap \<Rightarrow> u64 list \<Rightarrow> fcache \<Rightarrow>
   (kstatus \<times> xmap \<times> u64 list \<times> fcache) option" where
  "segments_loop os alloc grown fidx segidx flatpos m offs fc = do {
     (status, hdr, fc) \<leftarrow> fcache_pread os 16 fidx (of_nat flatpos) fc;
     if status \<noteq> KDUMP_OK then Some (status, m, offs, fc)
     else
       let pos = be_bytes (take 8 hdr); sz = be_bytes (drop 8 hdr)
       in if pos = - 1 then Some (KDUMP_OK, m, offs, fc)
          else if sint pos < 0 then Some (KDUMP_ERR_CORRUPT, m, offs, fc)
          else if sint sz \<le> 0 then Some (KDUMP_ERR_CORRUPT, m, offs, fc)
          else if segidx mod ALLOC_INC = 0 \<and> \<not> alloc segidx then Some (KDUMP_ERR_SYSTEM, m, offs, fc)
          else if flatpos + 16 + unat sz \<ge> 2 ^ 63 then None
          else
            let offs = offs @ [of_nat (flatpos + 16) - pos];
                (ret, m) = map_set (grown segidx) m pos \<lparr>endoff = sz - 1, meth = meth_of_num segidx\<rparr>
            in if ret \<noteq> ADDRXLAT_OK then Some (KDUMP_ERR_SYSTEM, m, offs, fc)
               else segments_loop os alloc grown fidx (segidx + 1) (flatpos + 16 + unat sz) m offs fc
   }"

definition flatmap_file_init ::
  "os \<Rightarrow> bool \<Rightarrow> (nat \<Rightarrow> bool) \<Rightarrow> (nat \<Rightarrow> bool) \<Rightarrow> nat \<Rightarrow> fcache \<Rightarrow> (kstatus \<times> flattened_file_map \<times> fcache) option" where
  "flatmap_file_init os allocated alloc grown fidx fc =
     (case map_new allocated of
        None \<Rightarrow> Some (KDUMP_ERR_SYSTEM, \<lparr>ffm_map = None, ffm_offs = []\<rparr>, fc)
      | Some m \<Rightarrow> do {
          (status, m, offs, fc) \<leftarrow> segments_loop os alloc grown fidx 0 MDF_HEADER_SIZE m [] fc;
          Some (status, \<lparr>ffm_map = Some m, ffm_offs = offs\<rparr>, fc)
        })"

definition flatmap_file_cleanup :: "flattened_file_map \<Rightarrow> xmap option" where
  "flatmap_file_cleanup fmap = (case ffm_map fmap of Some m \<Rightarrow> snd (map_decref m) | None \<Rightarrow> None)"

definition flatmap_alloc :: "bool \<Rightarrow> nat \<Rightarrow> flattened_map option" where
  "flatmap_alloc allocated nfiles =
     (if allocated then Some \<lparr>fm_cache = False, fm_files = replicate nfiles \<lparr>ffm_map = None, ffm_offs = []\<rparr>\<rparr> else None)"

text \<open>The characters of the signature, padded to 16 bytes with zeros.\<close>

definition MDF_SIGNATURE :: "u8 list" where
  "MDF_SIGNATURE = map of_char ''makedumpfile'' @ replicate 4 0"

definition MDF_TYPE_FLAT_HEADER :: u64 where
  "MDF_TYPE_FLAT_HEADER = 1"

definition MDF_VERSION_FLAT_HEADER :: u64 where
  "MDF_VERSION_FLAT_HEADER = 1"

fun flatmap_init_loop ::
  "os \<Rightarrow> (nat \<Rightarrow> bool \<times> (nat \<Rightarrow> bool) \<times> (nat \<Rightarrow> bool)) \<Rightarrow> nat list \<Rightarrow> flattened_map \<Rightarrow> fcache \<Rightarrow>
   (kstatus \<times> flattened_map \<times> fcache) option" where
  "flatmap_init_loop os allocs [] fm fc = Some (KDUMP_OK, fm, fc)"
| "flatmap_init_loop os allocs (fidx # fidxs) fm fc = do {
     (status, hdr, fc) \<leftarrow> fcache_pread os 32 fidx 0 fc;
     if status \<noteq> KDUMP_OK then Some (status, fm, fc)
     else if take 16 hdr \<noteq> MDF_SIGNATURE then flatmap_init_loop os allocs fidxs fm fc
     else if be_bytes (take 8 (drop 16 hdr)) \<noteq> MDF_TYPE_FLAT_HEADER then Some (KDUMP_ERR_NOTIMPL, fm, fc)
     else if be_bytes (drop 24 hdr) \<noteq> MDF_VERSION_FLAT_HEADER then Some (KDUMP_ERR_NOTIMPL, fm, fc)
     else
       let (allocated, alloc, grown) = allocs fidx
       in do {
            (status, f, fc) \<leftarrow> flatmap_file_init os allocated alloc grown fidx fc;
            let fm = fm\<lparr>fm_files := (fm_files fm)[fidx := f]\<rparr>;
            if status \<noteq> KDUMP_OK then Some (status, fm, fc) else flatmap_init_loop os allocs fidxs fm fc
          }
   }"

definition flatmap_init ::
  "os \<Rightarrow> (nat \<Rightarrow> bool \<times> (nat \<Rightarrow> bool) \<times> (nat \<Rightarrow> bool)) \<Rightarrow> flattened_map \<Rightarrow> fcache \<Rightarrow> (kstatus \<times> flattened_map \<times> fcache) option" where
  "flatmap_init os allocs fm fc =
     flatmap_init_loop os allocs [0..<length (fm_files fm)] (fm\<lparr>fm_cache := True\<rparr>) (snd (fcache_incref fc))"

text \<open>What is left: the maps that are still referenced, and the file cache or the mappings that it leaves.\<close>

definition flatmap_free ::
  "nat \<Rightarrow> flattened_map option \<Rightarrow> fcache \<Rightarrow> xmap option list \<times> (fcache + (nat \<times> nat \<times> int) list)" where
  "flatmap_free self map' fc =
     (case map' of
        None \<Rightarrow> ([], Inl fc)
      | Some fm \<Rightarrow>
          (map flatmap_file_cleanup (fm_files fm),
           if fm_cache fm then (case fcache_decref self fc of Inl (n, fc) \<Rightarrow> Inl fc | Inr left \<Rightarrow> Inr left) else Inl fc))"

subsection \<open>Reading rearranged data\<close>

fun skip_ranges :: "range list \<Rightarrow> u64 \<Rightarrow> range list \<times> u64" where
  "skip_ranges [] off = ([], off)"
| "skip_ranges (r # rs) off = (if off > endoff r then skip_ranges rs (off - (endoff r + 1)) else (r # rs, off))"

text \<open>The bytes that were stored in the buffer are returned even if a read fails.\<close>

fun flat_read_loop ::
  "os \<Rightarrow> u64 list \<Rightarrow> nat \<Rightarrow> range list \<Rightarrow> u64 \<Rightarrow> nat \<Rightarrow> u64 \<Rightarrow> fcache \<Rightarrow> (kstatus \<times> u8 list \<times> fcache) option" where
  "flat_read_loop os offs fidx [] off len pos fc = Some (KDUMP_OK, replicate len 0, fc)"
| "flat_read_loop os offs fidx (r # rs) off len pos fc =
     (if len = 0 then Some (KDUMP_OK, [], fc)
      else
        let seglen = unat (endoff r + 1 - off); seglen = (if seglen > len then len else seglen)
        in do {
             (ret, bs, fc) \<leftarrow>
               (if meth r \<noteq> ADDRXLAT_SYS_METH_NONE
                then do {
                  i \<leftarrow> num_of_meth (meth r);
                  if i < length offs then fcache_pread os seglen fidx (pos + offs ! i) fc else None
                }
                else Some (KDUMP_OK, replicate seglen 0, fc));
             if ret \<noteq> KDUMP_OK then Some (ret, bs, fc)
             else do {
               (ret, rest, fc) \<leftarrow> flat_read_loop os offs fidx rs 0 (len - seglen) (pos + of_nat seglen) fc;
               Some (ret, bs @ rest, fc)
             }
           })"

definition flatmap_pread_flat ::
  "os \<Rightarrow> flattened_map \<Rightarrow> nat \<Rightarrow> nat \<Rightarrow> u64 \<Rightarrow> fcache \<Rightarrow> (kstatus \<times> u8 list \<times> fcache) option" where
  "flatmap_pread_flat os fm len fidx pos fc =
     (let fmap = fm_files fm ! fidx
      in do {
           m \<leftarrow> ffm_map fmap;
           let (rs, off) = skip_ranges (map_ranges m) pos;
           flat_read_loop os (ffm_offs fmap) fidx rs off len pos fc
         })"

definition flatmap_isflattened :: "flattened_map \<Rightarrow> nat \<Rightarrow> bool" where
  "flatmap_isflattened fm fidx \<longleftrightarrow> fidx < length (fm_files fm) \<and> ffm_map (fm_files fm ! fidx) \<noteq> None"

definition flatmap_pread ::
  "os \<Rightarrow> flattened_map \<Rightarrow> nat \<Rightarrow> nat \<Rightarrow> u64 \<Rightarrow> fcache \<Rightarrow> (kstatus \<times> u8 list \<times> fcache) option" where
  "flatmap_pread os fm len fidx pos fc =
     (if flatmap_isflattened fm fidx then flatmap_pread_flat os fm len fidx pos fc else fcache_pread os len fidx pos fc)"

text \<open>
  The range that is found may be behind the array, or a hole, which has no offset. The two allocations of the
  file cache and that of a buffer are arguments.
\<close>

definition flatmap_get_chunk_flat ::
  "os \<Rightarrow> bool \<Rightarrow> bool \<Rightarrow> bool \<Rightarrow> flattened_map \<Rightarrow> nat \<Rightarrow> nat \<Rightarrow> u64 \<Rightarrow> fcache \<Rightarrow> ((kstatus + fcache_chunk) \<times> fcache) option" where
  "flatmap_get_chunk_flat os alloc_fces alloc_data allocated fm len fidx pos fc =
     (let fmap = fm_files fm ! fidx
      in do {
           m \<leftarrow> ffm_map fmap;
           (case skip_ranges (map_ranges m) pos of
              ([], off) \<Rightarrow> None
            | (r # rs, off) \<Rightarrow>
                if len \<le> unat (endoff r + 1 - off)
                then do {
                  i \<leftarrow> num_of_meth (meth r);
                  if i < length (ffm_offs fmap)
                  then fcache_get_chunk os alloc_fces alloc_data len fidx (pos + ffm_offs fmap ! i) fc
                  else None
                }
                else if \<not> allocated then Some (Inl KDUMP_ERR_SYSTEM, fc)
                else do {
                  (status, bs, fc) \<leftarrow> flatmap_pread os fm len fidx pos fc;
                  Some (if status = KDUMP_OK then Inr \<lparr>fch_fces = [], fch_copy = bs\<rparr> else Inl status, fc)
                })
         })"

definition flatmap_get_chunk ::
  "os \<Rightarrow> bool \<Rightarrow> bool \<Rightarrow> bool \<Rightarrow> flattened_map \<Rightarrow> nat \<Rightarrow> nat \<Rightarrow> u64 \<Rightarrow> fcache \<Rightarrow> ((kstatus + fcache_chunk) \<times> fcache) option" where
  "flatmap_get_chunk os alloc_fces alloc_data allocated fm len fidx pos fc =
     (if flatmap_isflattened fm fidx then flatmap_get_chunk_flat os alloc_fces alloc_data allocated fm len fidx pos fc
      else fcache_get_chunk os alloc_fces alloc_data len fidx pos fc)"

end
