(* ===== verification/Flatmap_Facts.thy ===== *)
theory Flatmap_Facts
  imports Flatmap Fcache_Pread
begin

section \<open>Reading flattened files\<close>

text \<open>
  A flattened file stands for the file that its segments make: a later segment replaces what earlier ones
  have put at the same place, and there are zeros where no segment is. Reads through the map of a flattened file
  deliver that.
\<close>

subsection \<open>The rearranged file\<close>

lemma num_of_meth_num [simp]: "num_of_meth (meth_of_num n) = Some n"
proof (cases "n < 8")
  case True
  then have "n \<in> {0, 1, 2, 3, 4, 5, 6, 7}"
    by auto
  then show ?thesis
    by (auto simp: meth_of_num_def)
qed (simp add: meth_of_num_def)

lemma num_of_meth_None: "num_of_meth k = None \<longleftrightarrow> k = ADDRXLAT_SYS_METH_NONE"
  by (cases k) simp_all

text \<open>A segment: its offset in the rearranged file, that of its data, and its length.\<close>

type_synonym seg = "nat \<times> nat \<times> nat"

definition seg_has :: "seg \<Rightarrow> nat \<Rightarrow> bool" where
  "seg_has = (\<lambda>(p, d, n) x. p \<le> x \<and> x < p + n)"

definition cover :: "seg list \<Rightarrow> nat \<Rightarrow> nat option" where
  "cover segs x = find (\<lambda>i. seg_has (segs ! i) x) (rev [0..<length segs])"

definition rearranged :: "os \<Rightarrow> nat \<Rightarrow> seg list \<Rightarrow> nat \<Rightarrow> u8" where
  "rearranged os fd segs x =
     (case cover segs x of
        None \<Rightarrow> 0
      | Some i \<Rightarrow> (case segs ! i of (p, d, n) \<Rightarrow> if d + (x - p) < length (os_file os fd) then os_file os fd ! (d + (x - p)) else 0))"

lemma cover_Nil [simp]: "cover [] x = None"
  by (simp add: cover_def)

lemma cover_snoc: "cover (segs @ [s]) x = (if seg_has s x then Some (length segs) else cover segs x)"
proof -
  have "find (\<lambda>i. seg_has ((segs @ [s]) ! i) x) (rev [0..<length segs]) = cover segs x"
    unfolding cover_def by (rule find_cong) (auto simp: nth_append)
  then show ?thesis
    by (simp add: cover_def nth_append)
qed

lemma cover_Some: "cover segs x = Some i \<Longrightarrow> i < length segs \<and> seg_has (segs ! i) x"
proof -
  assume "cover segs x = Some i"
  then obtain j where "j < length (rev [0..<length segs])" "seg_has (segs ! (rev [0..<length segs] ! j)) x" "i = rev [0..<length segs] ! j"
    unfolding cover_def find_Some_iff by blast
  moreover from this have "i \<in> set (rev [0..<length segs])"
    using nth_mem by blast
  ultimately show ?thesis
    by simp
qed

text \<open>The segments of a flattened file from the position \<open>q\<close> on; the file holds all of their data.\<close>

inductive flat_segs :: "os \<Rightarrow> nat \<Rightarrow> nat \<Rightarrow> nat \<Rightarrow> seg list \<Rightarrow> bool" for os p fd where
  last_seg: "q + 16 \<le> file_end os p fd \<Longrightarrow> q + 16 < 2 ^ 63 \<Longrightarrow> be_bytes (file_bytes os fd q 8) = - 1 \<Longrightarrow> flat_segs os p fd q []"
| next_seg: "pos = be_bytes (file_bytes os fd q 8) \<Longrightarrow> sz = be_bytes (file_bytes os fd (q + 8) 8) \<Longrightarrow> 0 \<le> sint pos \<Longrightarrow> 0 < sint sz \<Longrightarrow>
    q + 16 + unat sz \<le> file_end os p fd \<Longrightarrow> q + 16 + unat sz < 2 ^ 63 \<Longrightarrow> flat_segs os p fd (q + 16 + unat sz) ss \<Longrightarrow>
    flat_segs os p fd q ((unat pos, q + 16, unat sz) # ss)"

definition in_file :: "os \<Rightarrow> nat \<Rightarrow> nat \<Rightarrow> seg \<Rightarrow> bool" where
  "in_file os p fd = (\<lambda>(x, d, n). d + n \<le> file_end os p fd \<and> d + n < 2 ^ 63 \<and> 0 < n \<and> x < 2 ^ 63)"

lemma flat_segs_in_file: "flat_segs os p fd q ss \<Longrightarrow> list_all (in_file os p fd) ss"
proof (induction rule: flat_segs.induct)
  case (next_seg pos q sz ss)
  have "0 < unat sz"
    using next_seg.hyps(4) sint_unat(1) [of sz] by auto
  then show ?case
    using next_seg sint_unat(2) [of pos] by (simp add: in_file_def)
qed simp

subsection \<open>The map of a flattened file\<close>

definition represents :: "seg list \<Rightarrow> xmap \<Rightarrow> u64 list \<Rightarrow> bool" where
  "represents segs m offs \<longleftrightarrow> map_wf m \<and> offs = map (\<lambda>(p, d, n). of_nat d - of_nat p) segs
     \<and> (\<forall>x. num_of_meth (map_search m x) = cover segs (unat x))"

lemma represents_snoc:
  assumes "represents segs m offs" and "map_set grown m pos \<lparr>endoff = sz - 1, meth = meth_of_num (length segs)\<rparr> = (ADDRXLAT_OK, m')"
    and "0 \<le> sint pos" and "0 < sint sz"
  shows "represents (segs @ [(unat pos, d, unat sz)]) m' (offs @ [of_nat d - pos])"
proof -
  have pos: "unat pos < 2 ^ 63" and sz: "unat sz < 2 ^ 63" "0 < unat sz"
    using sint_unat [OF assms(3)] sint_unat [of sz] assms(4) by auto
  then have s1: "unat (sz - 1) = unat sz - 1"
    using unat_minus_no_underflow [of 1 sz] by (simp add: word_le_nat_alt)
  have ov: "unat pos + unat (endoff \<lparr>endoff = sz - 1, meth = meth_of_num (length segs)\<rparr>) < 2 ^ 64"
    using pos sz s1 by simp
  have e: "unat (pos + (sz - 1)) = unat pos + (unat sz - 1)"
    using ov s1 by (simp add: unat_plus_no_overflow)
  have wf: "map_wf m"
    using assms(1) by (simp add: represents_def)
  note u = xm.update_ok [OF wf ov assms(2)]
  have "num_of_meth (map_search m' x) = cover (segs @ [(unat pos, d, unat sz)]) (unat x)" for x
    using u [of x] assms(1) e sz(2)
    by (auto simp: represents_def cover_snoc seg_has_def word_le_nat_alt)
  then show ?thesis
    using u assms(1) by (simp add: represents_def)
qed

text \<open>Reading a header.\<close>

definition never_fails :: "os \<Rightarrow> bool" where
  "never_fails os \<longleftrightarrow> (\<forall>fd q. \<not> os_pread_fails os fd q)"

abbreviation lenient :: "fcache \<Rightarrow> bool" where
  "lenient fc \<equiv> fc_policy fc \<in> {KDUMP_MMAP_NEVER, KDUMP_MMAP_TRY}"

lemma pread_at:
  assumes "os_ok os" and "fc_ok os p m n 0 fc" and "n + len < UINT_SIZE - 1" and "fidx < length (fc_info fc)"
    and "fd = fcache_fd fc fidx" and "q + len \<le> file_end os p fd" and "q + len < 2 ^ 63" and "pos = of_nat q"
  obtains st bs fc' where "fcache_pread os len fidx pos fc = Some (st, bs, fc')" and "fc_ok os p m (n + len) 0 fc'"
    and "fc_info fc' = fc_info fc" and "st = KDUMP_OK \<longrightarrow> bs = file_bytes os fd q len"
    and "never_fails os \<and> lenient fc \<longrightarrow> st = KDUMP_OK \<and> lenient fc'"
proof -
  have q: "unat pos = q"
    using assms(7,8) by (simp add: unat_of_nat take_bit_nat_eq_self)
  have "0 < UINT_SIZE - 1"
    by simp
  from pread_transparent [OF assms(1-3) this assms(4), of fd pos] assms(5-7) q obtain st bs fc' where g:
    "fcache_pread os len fidx pos fc = Some (st, bs, fc')" "fc_ok os p m (n + len) 0 fc'" "fc_info fc' = fc_info fc"
    "st = KDUMP_OK \<longrightarrow> bs = file_bytes os fd q len"
    "lenient fc \<and> (0 :: nat) = 0 \<and> (\<forall>q. \<not> os_pread_fails os fd q) \<longrightarrow> st = KDUMP_OK \<and> fc_policy fc' = fc_policy fc"
    by (auto simp: fcache_fd_def)
  show thesis
    by (rule that [OF g(1-4)]) (use g(5) in \<open>auto simp: never_fails_def\<close>)
qed

lemma segments_loop_reads:
  assumes "os_ok os" and "flat_segs os p fd q ss"
  shows "fc_ok os p m n 0 fc \<Longrightarrow> n + 16 * (length ss + 1) < UINT_SIZE - 1 \<Longrightarrow> fidx < length (fc_info fc) \<Longrightarrow> fd = fcache_fd fc fidx \<Longrightarrow>
    represents segs mp offs \<Longrightarrow>
    \<exists>st mp' offs' fc'. segments_loop os alloc grown fidx (length segs) q mp offs fc = Some (st, mp', offs', fc')
      \<and> fc_ok os p m (n + 16 * (length ss + 1)) 0 fc' \<and> fc_info fc' = fc_info fc
      \<and> (st = KDUMP_OK \<longrightarrow> represents (segs @ ss) mp' offs')
      \<and> (never_fails os \<and> lenient fc \<and> (\<forall>i. alloc i \<and> grown i) \<longrightarrow> st = KDUMP_OK \<and> lenient fc')"
  using assms(2)
proof (induction arbitrary: n fc segs mp offs rule: flat_segs.induct)
  case (last_seg q)
  obtain st bs fc' where r: "fcache_pread os 16 fidx (of_nat q) fc = Some (st, bs, fc')" "fc_ok os p m (n + 16) 0 fc'"
    "fc_info fc' = fc_info fc" "st = KDUMP_OK \<longrightarrow> bs = file_bytes os fd q 16" "never_fails os \<and> lenient fc \<longrightarrow> st = KDUMP_OK \<and> lenient fc'"
    by (rule pread_at [OF assms(1) last_seg(4) _ last_seg(6,7) last_seg(1,2) refl]) (use last_seg(5) in auto)
  have "take 8 (file_bytes os fd q 16) = file_bytes os fd q 8"
    using file_bytes_part [of 0 8 16 os fd q] by simp
  then show ?case
    using r last_seg(3,8) by (subst segments_loop.simps) auto
next
  case (next_seg pos q sz ss)
  have b: "n + 16 < UINT_SIZE - 1" "q + 16 \<le> file_end os p fd" "q + 16 < 2 ^ 63"
    using next_seg(5,6,10) by simp_all
  obtain st bs fc' where r: "fcache_pread os 16 fidx (of_nat q) fc = Some (st, bs, fc')" "fc_ok os p m (n + 16) 0 fc'"
    "fc_info fc' = fc_info fc" "st = KDUMP_OK \<longrightarrow> bs = file_bytes os fd q 16" "never_fails os \<and> lenient fc \<longrightarrow> st = KDUMP_OK \<and> lenient fc'"
    using pread_at [OF assms(1) next_seg(9) b(1) next_seg(11,12) b(2,3) refl] by blast
  have hdr: "be_bytes (take 8 (file_bytes os fd q 16)) = pos" "be_bytes (drop 8 (file_bytes os fd q 16)) = sz"
    using file_bytes_part [of 0 8 16 os fd q] file_bytes_part [of 8 8 16 os fd q] next_seg(1,2) by simp_all
  have pos: "pos \<noteq> - 1"
    using next_seg(3) by auto
  have keep: "fc_ok os p m (n + 16 * (length (s # ss) + 1)) 0 fc'" for s :: seg
    using fc_ok_mono [OF r(2)] by simp
  show ?case
  proof (cases "st = KDUMP_OK")
    case False
    then show ?thesis
      using r keep by (subst segments_loop.simps) auto
  next
    case ok: True
    obtain ret mp1 where set: "map_set (grown (length segs)) mp pos \<lparr>endoff = sz - 1, meth = meth_of_num (length segs)\<rparr> = (ret, mp1)"
      by fastforce
    show ?thesis
    proof (cases "length segs mod ALLOC_INC = 0 \<and> \<not> alloc (length segs) \<or> ret \<noteq> ADDRXLAT_OK")
      case True
      have "ret = ADDRXLAT_OK" if "grown (length segs)"
        using xm.update_fail [OF set] that by blast
      then show ?thesis
        using True r ok hdr pos set keep next_seg(3,4,6) by (subst segments_loop.simps) auto
    next
      case False
      define offs1 where "offs1 = offs @ [of_nat (q + 16) - pos]"
      have rep: "represents (segs @ [(unat pos, q + 16, unat sz)]) mp1 offs1"
        unfolding offs1_def using represents_snoc [OF next_seg(13) _ next_seg(3,4)] set False by blast
      have "segments_loop os alloc grown fidx (length segs) q mp offs fc
        = segments_loop os alloc grown fidx (length (segs @ [(unat pos, q + 16, unat sz)])) (q + 16 + unat sz) mp1 offs1 fc'"
        using False r ok hdr pos set next_seg(3,4,6) by (subst segments_loop.simps) (auto simp: offs1_def)
      moreover have "\<exists>st mp' offs' fc''. segments_loop os alloc grown fidx (length (segs @ [(unat pos, q + 16, unat sz)])) (q + 16 + unat sz) mp1 offs1 fc'
          = Some (st, mp', offs', fc'')
        \<and> fc_ok os p m (n + 16 + 16 * (length ss + 1)) 0 fc'' \<and> fc_info fc'' = fc_info fc'
        \<and> (st = KDUMP_OK \<longrightarrow> represents ((segs @ [(unat pos, q + 16, unat sz)]) @ ss) mp' offs')
        \<and> (never_fails os \<and> lenient fc' \<and> (\<forall>i. alloc i \<and> grown i) \<longrightarrow> st = KDUMP_OK \<and> lenient fc'')"
        by (rule next_seg(8) [OF r(2) _ _ _ rep]) (use next_seg(10-12) r(3) in \<open>auto simp: fcache_fd_def\<close>)
      then obtain st2 mp2 offs2 fc2 where f: "segments_loop os alloc grown fidx (length (segs @ [(unat pos, q + 16, unat sz)])) (q + 16 + unat sz) mp1 offs1 fc'
          = Some (st2, mp2, offs2, fc2)"
        "fc_ok os p m (n + 16 + 16 * (length ss + 1)) 0 fc2" "fc_info fc2 = fc_info fc'"
        "st2 = KDUMP_OK \<longrightarrow> represents ((segs @ [(unat pos, q + 16, unat sz)]) @ ss) mp2 offs2"
        "never_fails os \<and> lenient fc' \<and> (\<forall>i. alloc i \<and> grown i) \<longrightarrow> st2 = KDUMP_OK \<and> lenient fc2"
        by blast
      ultimately have "segments_loop os alloc grown fidx (length segs) q mp offs fc = Some (st2, mp2, offs2, fc2)"
        by simp
      then show ?thesis
        using f(2-5) r(3,5) by (intro exI [of _ st2] exI [of _ mp2] exI [of _ offs2] exI [of _ fc2]) (simp add: add.assoc)
    qed
  qed
qed

subsection \<open>The loop over the ranges\<close>

lemma flat_read_done: "flat_read_loop os offs fidx rs off 0 pos fc = Some (KDUMP_OK, [], fc)"
  by (cases rs) simp_all

lemma file_bytes_rearranged:
  assumes "\<And>x. P \<le> x \<Longrightarrow> x < P + n \<Longrightarrow> cover segs x = Some i" and "segs ! i = (p, d, k)" and "p \<le> P"
  shows "file_bytes os fd (d + (P - p)) n = map (rearranged os fd segs) [P..<P + n]"
proof (rule nth_equalityI)
  fix j
  assume "j < length (file_bytes os fd (d + (P - p)) n)"
  then have "cover segs (P + j) = Some i"
    using assms(1) by simp
  then show "file_bytes os fd (d + (P - p)) n ! j = map (rearranged os fd segs) [P..<P + n] ! j"
    using assms(2,3) \<open>j < _\<close> by (simp add: file_bytes_def rearranged_def add.assoc)
qed simp

lemma segment_source:
  assumes "unat pos = P" and "P < 2 ^ 63" and "p \<le> P" and "p < 2 ^ 63"
  shows "pos + (of_nat d - of_nat p) = (of_nat (d + (P - p)) :: u64)"
proof -
  have "(of_nat P :: u64) = pos"
    by (simp add: assms(1) [symmetric])
  then show ?thesis
    using assms(3) by (simp add: of_nat_diff algebra_simps)
qed

lemma unat_uminus: "0 < unat off \<Longrightarrow> unat (- off) = 2 ^ 64 - unat off" for off :: u64
proof -
  assume pos: "0 < unat off"
  have "(of_nat (2 ^ 64 - unat off) :: u64) = of_nat (2 ^ 64) - of_nat (unat off)"
    using unat_u64_less [of off] by (intro of_nat_diff) simp
  then have "- off = of_nat (2 ^ 64 - unat off)"
    by simp
  then show ?thesis
    using pos by (simp add: unat_of_nat take_bit_nat_eq_self)
qed

lemma flat_read_reads:
  assumes "os_ok os" and "list_all (in_file os p fd) segs" and "offs = map (\<lambda>(p, d, n). of_nat d - of_nat p) segs"
  shows "fc_ok os p m n 0 fc \<Longrightarrow> n + len < UINT_SIZE - 1 \<Longrightarrow> fidx < length (fc_info fc) \<Longrightarrow> fd = fcache_fd fc fidx \<Longrightarrow>
    s + span rs = 2 ^ 64 \<Longrightarrow> (rs \<noteq> [] \<longrightarrow> unat off < usize (hd rs)) \<Longrightarrow> unat pos = s + unat off \<Longrightarrow> unat pos + len \<le> 2 ^ 63 \<Longrightarrow>
    (\<forall>x. s \<le> x \<and> x < 2 ^ 64 \<longrightarrow> num_of_meth (seg_lookup rs (x - s)) = cover segs x) \<Longrightarrow>
    \<exists>ret bs fc'. flat_read_loop os offs fidx rs off len pos fc = Some (ret, bs, fc')
      \<and> fc_ok os p m (n + len) 0 fc' \<and> fc_info fc' = fc_info fc
      \<and> (ret = KDUMP_OK \<longrightarrow> bs = map (rearranged os fd segs) [unat pos..<unat pos + len])
      \<and> (never_fails os \<and> lenient fc \<longrightarrow> ret = KDUMP_OK \<and> lenient fc')"
proof (induction rs arbitrary: s off len pos fc n)
  case Nil
  then show ?case
    using unat_u64_less [of pos] by simp
next
  case (Cons r rs)
  show ?case
  proof (cases "len = 0")
    case True
    then show ?thesis
      using Cons.prems(1) by simp
  next
    case len: False
    have none: "cover segs (2 ^ 64 - 1) = None"
    proof (rule ccontr)
      assume "cover segs (2 ^ 64 - 1) \<noteq> None"
      then obtain i where i: "i < length segs" "seg_has (segs ! i) (2 ^ 64 - 1)"
        using cover_Some by blast
      then have "in_file os p fd (segs ! i)"
        using assms(2) by (simp add: list_all_length)
      then show False
        using i(2) by (auto simp: in_file_def seg_has_def split: prod.splits)
    qed
    show ?thesis
    proof (cases "usize r = 2 ^ 64 \<and> off = 0")
      case True
      then have "s = 0" "rs = []"
        using Cons.prems(5) by (auto, cases rs, auto simp: usize_def)
      then have m: "num_of_meth (meth r) = cover segs x" if "x < 2 ^ 64" for x
        using Cons.prems(9) that True by simp
      then have "num_of_meth (meth r) = None"
        using none by (metis diff_less zero_less_numeral zero_less_one zero_less_power)
      then have "meth r = ADDRXLAT_SYS_METH_NONE" "\<forall>x<2 ^ 64. cover segs x = None"
        using m by (auto simp: num_of_meth_None)
      moreover have "endoff r + 1 - off = 0"
      proof -
        have "unat (endoff r + 1) = 0"
          using True unat_u64_less [of "endoff r"] by (simp add: usize_def unat_word_ariths)
        then show ?thesis
          using True by (simp add: unat_eq_zero)
      qed
      moreover have "map (rearranged os fd segs) [unat pos..<unat pos + len] = replicate len 0"
        using Cons.prems(8) calculation(2) by (intro nth_equalityI) (auto simp: rearranged_def)
      ultimately show ?thesis
        using len \<open>rs = []\<close> fc_ok_mono [OF Cons.prems(1), of "n + len"] by simp
    next
      case part: False
      define sl where "sl = unat (endoff r + 1 - off)"
      have sl: "sl = usize r - unat off"
      proof (cases "usize r = 2 ^ 64")
        case True
        then have "unat (endoff r + 1) = 0"
          using unat_u64_less [of "endoff r"] by (simp add: usize_def unat_word_ariths)
        then have "endoff r + 1 = 0"
          by (simp add: unat_eq_zero)
        moreover have "0 < unat off"
          using True part by (simp add: unat_gt_0)
        note unat_uminus [OF this]
        ultimately show ?thesis
          using True by (simp add: sl_def)
      next
        case False
        then have "unat (endoff r + 1) = usize r"
          using unat_u64_less [of "endoff r"] by (simp add: usize_def unat_word_ariths)
        then show ?thesis
          using Cons.prems(6) by (simp add: sl_def unat_minus_no_underflow)
      qed
      define k where "k = (if sl > len then len else sl)"
      have kk: "(if unat (endoff r + 1 - off) > len then len else unat (endoff r + 1 - off)) = k"
        by (simp add: k_def sl_def)
      have k: "k \<le> len" "k \<le> usize r - unat off" "0 < k"
        using sl len Cons.prems(6) by (auto simp: k_def)
      have range: "num_of_meth (meth r) = cover segs x" if "unat pos \<le> x" "x < unat pos + k" for x
      proof -
        have "x - s < usize r" "s \<le> x" "x < 2 ^ 64"
          using that k(2) Cons.prems(6-8) k(1) by auto
        then show ?thesis
          using Cons.prems(9) by auto
      qed
      define part where "part = (if meth r \<noteq> ADDRXLAT_SYS_METH_NONE
                then do {
                  i \<leftarrow> num_of_meth (meth r);
                  if i < length offs then fcache_pread os k fidx (pos + offs ! i) fc else None
                }
                else Some (KDUMP_OK, replicate k 0, fc))"
      obtain ret bs fc1 where one: "part = Some (ret, bs, fc1)" "fc_ok os p m (n + k) 0 fc1" "fc_info fc1 = fc_info fc"
        "ret = KDUMP_OK \<longrightarrow> bs = map (rearranged os fd segs) [unat pos..<unat pos + k]"
        "never_fails os \<and> lenient fc \<longrightarrow> ret = KDUMP_OK \<and> lenient fc1"
      proof (cases "num_of_meth (meth r)")
        case None
        then have "map (rearranged os fd segs) [unat pos..<unat pos + k] = replicate k 0"
          using range by (intro nth_equalityI) (auto simp: rearranged_def)
        moreover have "part = Some (KDUMP_OK, replicate k 0, fc)"
          using None by (simp add: part_def num_of_meth_None)
        ultimately show ?thesis
          using fc_ok_mono [OF Cons.prems(1), of "n + k"] by (intro that [of KDUMP_OK "replicate k 0" fc]) simp_all
      next
        case (Some i)
        obtain x d l where seg: "segs ! i = (x, d, l)"
          by (cases "segs ! i")
        have cov: "cover segs y = Some i" if "unat pos \<le> y" "y < unat pos + k" for y
          using range [OF that] Some by simp
        have i: "i < length segs" "x \<le> unat pos" "unat pos + k \<le> x + l"
        proof -
          have "cover segs (unat pos) = Some i" "cover segs (unat pos + (k - 1)) = Some i"
            using k(3) by (auto intro!: cov)
          from this [THEN cover_Some] show "i < length segs" "x \<le> unat pos" "unat pos + k \<le> x + l"
            using k(3) seg by (simp_all add: seg_has_def) linarith
        qed
        have inf: "d + l \<le> file_end os p fd" "d + l < 2 ^ 63" "x < 2 ^ 63"
          using assms(2) i(1) seg by (auto simp: list_all_length in_file_def dest!: spec [of _ i])
        define q where "q = d + (unat pos - x)"
        have q: "q + k \<le> file_end os p fd" "q + k < 2 ^ 63"
          using i inf by (simp_all add: q_def)
        have src: "pos + offs ! i = of_nat q"
          using segment_source [OF refl _ i(2) inf(3), of d] Cons.prems(8) k i(1) seg by (simp add: assms(3) q_def)
        have room: "n + k < UINT_SIZE - 1"
          using Cons.prems(2) k(1) by linarith
        obtain st bs fc' where g: "fcache_pread os k fidx (pos + offs ! i) fc = Some (st, bs, fc')" "fc_ok os p m (n + k) 0 fc'"
          "fc_info fc' = fc_info fc" "st = KDUMP_OK \<longrightarrow> bs = file_bytes os fd q k" "never_fails os \<and> lenient fc \<longrightarrow> st = KDUMP_OK \<and> lenient fc'"
          using pread_at [OF assms(1) Cons.prems(1) room Cons.prems(3,4) q src] by blast
        have "part = Some (st, bs, fc')"
          using Some g(1) i(1) by (auto simp: part_def assms(3) num_of_meth_None [symmetric])
        moreover have "file_bytes os fd q k = map (rearranged os fd segs) [unat pos..<unat pos + k]"
          unfolding q_def by (rule file_bytes_rearranged [OF cov seg i(2)])
        ultimately show ?thesis
          using g by (intro that [of st bs fc']) simp_all
      qed
      have step: "flat_read_loop os offs fidx (r # rs) off len pos fc = do {
          (ret, bs, fc) \<leftarrow> part;
          if ret \<noteq> KDUMP_OK then Some (ret, bs, fc)
          else do {
            (ret, rest, fc) \<leftarrow> flat_read_loop os offs fidx rs 0 (len - k) (pos + of_nat k) fc;
            Some (ret, bs @ rest, fc)
          }
        }"
        unfolding flat_read_loop.simps Let_def kk part_def using len by simp
      show ?thesis
      proof (cases "ret = KDUMP_OK")
        case False
        then show ?thesis
          using step one fc_ok_mono [OF one(2), of "n + len"] k(1) by simp
      next
        case ok: True
        have up: "unat (pos + of_nat k) = unat pos + k"
          using Cons.prems(8) k(1) by (intro add_of_nat) simp
        have "\<exists>ret bs fc2. flat_read_loop os offs fidx rs 0 (len - k) (pos + of_nat k) fc1 = Some (ret, bs, fc2)
          \<and> fc_ok os p m (n + k + (len - k)) 0 fc2 \<and> fc_info fc2 = fc_info fc1
          \<and> (ret = KDUMP_OK \<longrightarrow> bs = map (rearranged os fd segs) [unat (pos + of_nat k)..<unat (pos + of_nat k) + (len - k)])
          \<and> (never_fails os \<and> lenient fc1 \<longrightarrow> ret = KDUMP_OK \<and> lenient fc2)"
        proof (cases "k < len")
          case True
          then have full: "k = usize r - unat off"
            using sl by (simp add: k_def split: if_splits)
          have look: "num_of_meth (seg_lookup rs (x - (s + usize r))) = cover segs x" if "s + usize r \<le> x \<and> x < 2 ^ 64" for x
          proof -
            have "s \<le> x \<and> x < 2 ^ 64" "\<not> x - s < usize r" "x - s - usize r = x - (s + usize r)"
              using that by linarith+
            then show ?thesis
              using spec [OF Cons.prems(9), of x] by simp
          qed
          show ?thesis
          proof (rule Cons.IH [OF one(2)])
            show "s + usize r + span rs = 2 ^ 64"
              using Cons.prems(5) by simp
            show "unat (pos + of_nat k) = s + usize r + unat (0 :: u64)"
              using up full Cons.prems(6,7) by simp
            show "\<forall>x. s + usize r \<le> x \<and> x < 2 ^ 64 \<longrightarrow> num_of_meth (seg_lookup rs (x - (s + usize r))) = cover segs x"
              using look by blast
          qed (use Cons.prems k(1) up one(3) in \<open>auto simp: fcache_fd_def\<close>)
        next
          case False
          then have "len - k = 0"
            by simp
          then show ?thesis
            using one(2) by (simp add: flat_read_done)
        qed
        then obtain ret2 rest fc2 where two: "flat_read_loop os offs fidx rs 0 (len - k) (pos + of_nat k) fc1 = Some (ret2, rest, fc2)"
          "fc_ok os p m (n + k + (len - k)) 0 fc2" "fc_info fc2 = fc_info fc1"
          "ret2 = KDUMP_OK \<longrightarrow> rest = map (rearranged os fd segs) [unat pos + k..<unat pos + k + (len - k)]"
          "never_fails os \<and> lenient fc1 \<longrightarrow> ret2 = KDUMP_OK \<and> lenient fc2"
          unfolding up by blast
        have "[unat pos..<unat pos + len] = [unat pos..<unat pos + k] @ [unat pos + k..<unat pos + k + (len - k)]"
          using upt_add_eq_append [of "unat pos" "unat pos + k" "len - k"] k(1) by simp
        then have "ret2 = KDUMP_OK \<longrightarrow> bs @ rest = map (rearranged os fd segs) [unat pos..<unat pos + len]"
          using one(4) two(4) ok by simp
        then show ?thesis
          using step one two ok k(1) by (intro exI [of _ ret2] exI [of _ "bs @ rest"] exI [of _ fc2]) auto
      qed
    qed
  qed
qed

text \<open>The ranges in front of the position.\<close>

lemma skip_ranges_span:
  assumes "skip_ranges rs off = (rs', off')" and "unat off < span rs" and "span rs \<le> 2 ^ 64"
  obtains s where "s + span rs' = span rs" and "s + unat off' = unat off" and "rs' \<noteq> []" and "unat off' < usize (hd rs')"
    and "\<forall>x. s \<le> x \<longrightarrow> seg_lookup rs x = seg_lookup rs' (x - s)"
  using assms
proof (induction rs arbitrary: off thesis)
  case Nil
  then show ?case
    by simp
next
  case (Cons r rs)
  show ?case
  proof (cases "off > endoff r")
    case False
    then show ?thesis
      using Cons.prems(2) by (intro Cons.prems(1) [of 0]) (auto simp: word_less_nat_alt usize_def)
  next
    case True
    then have less: "usize r \<le> unat off"
      by (simp add: word_less_nat_alt usize_def)
    then have u: "unat (endoff r + 1) = usize r"
      using unat_u64_less [of off] by (simp add: usize_def unat_word_ariths)
    have o: "unat (off - (endoff r + 1)) = unat off - usize r"
      using less u by (simp add: unat_minus_no_underflow)
    have sk: "skip_ranges rs (off - (endoff r + 1)) = (rs', off')"
      using Cons.prems(2) True by simp
    have le: "unat (off - (endoff r + 1)) < span rs" "span rs \<le> 2 ^ 64"
      using Cons.prems(3,4) o less by simp_all
    obtain s where s: "s + span rs' = span rs" "s + unat off' = unat (off - (endoff r + 1))" "rs' \<noteq> []" "unat off' < usize (hd rs')"
      "\<forall>x. s \<le> x \<longrightarrow> seg_lookup rs x = seg_lookup rs' (x - s)"
      using Cons.IH [OF _ sk le] by blast
    have "seg_lookup (r # rs) x = seg_lookup rs' (x - (usize r + s))" if "usize r + s \<le> x" for x
      using s(5) that by simp
    then show ?thesis
      using s o less by (intro Cons.prems(1) [of "usize r + s"]) auto
  qed
qed

lemma pread_flat_reads:
  assumes "os_ok os" and "list_all (in_file os p fd) segs" and "represents segs mp offs" and "fc_ok os p m n 0 fc"
    and "n + len < UINT_SIZE - 1" and "fidx < length (fc_info fc)" and "fd = fcache_fd fc fidx" and "unat pos + len \<le> 2 ^ 63"
    and "fm_files fm ! fidx = \<lparr>ffm_map = Some mp, ffm_offs = offs\<rparr>"
  shows "\<exists>ret bs fc'. flatmap_pread_flat os fm len fidx pos fc = Some (ret, bs, fc')
      \<and> (ret = KDUMP_OK \<longrightarrow> bs = map (rearranged os fd segs) [unat pos..<unat pos + len])
      \<and> (never_fails os \<and> lenient fc \<longrightarrow> ret = KDUMP_OK)"
proof -
  have wf: "map_wf mp" and offs: "offs = map (\<lambda>(p, d, n). of_nat d - of_nat p) segs"
    and look: "\<And>x. num_of_meth (map_search mp x) = cover segs (unat x)"
    using assms(3) by (simp_all add: represents_def)
  have cov: "num_of_meth (seg_lookup (ranges mp) x) = cover segs x" if "x < 2 ^ 64" for x
  proof -
    have "unat (of_nat x :: u64) = x"
      using that by (simp add: unat_of_nat take_bit_nat_eq_self)
    then show ?thesis
      using look [of "of_nat x"] by (simp add: map_search_abs [OF wf] map_abs_def)
  qed
  obtain rs off where sk: "skip_ranges (ranges mp) pos = (rs, off)"
    by fastforce
  have "\<exists>ret bs fc'. flat_read_loop os offs fidx rs off len pos fc = Some (ret, bs, fc')
      \<and> fc_ok os p m (n + len) 0 fc' \<and> fc_info fc' = fc_info fc
      \<and> (ret = KDUMP_OK \<longrightarrow> bs = map (rearranged os fd segs) [unat pos..<unat pos + len])
      \<and> (never_fails os \<and> lenient fc \<longrightarrow> ret = KDUMP_OK \<and> lenient fc')"
  proof (cases "ranges mp = []")
    case True
    have "map (rearranged os fd segs) [unat pos..<unat pos + len] = replicate len 0"
    proof -
      have z: "rearranged os fd segs x = 0" if "x < 2 ^ 64" for x
        using cov [OF that] True by (simp add: rearranged_def)
      show ?thesis
        using assms(8) by (intro nth_equalityI) (auto intro!: z)
    qed
    then show ?thesis
      using sk True fc_ok_mono [OF assms(4), of "n + len"] by simp
  next
    case False
    then have sp: "span (ranges mp) = 2 ^ 64"
      using wf by (simp add: map_wf_def)
    have "unat pos < span (ranges mp)"
      using unat_u64_less [of pos] sp by simp
    then obtain s where s: "s + span rs = span (ranges mp)" "s + unat off = unat pos" "rs \<noteq> []" "unat off < usize (hd rs)"
      "\<forall>x. s \<le> x \<longrightarrow> seg_lookup (ranges mp) x = seg_lookup rs (x - s)"
      using skip_ranges_span [OF sk] sp by (metis order_refl)
    have "\<forall>x. s \<le> x \<and> x < 2 ^ 64 \<longrightarrow> num_of_meth (seg_lookup rs (x - s)) = cover segs x"
      using s(5) cov by metis
    then show ?thesis
      by (intro flat_read_reads [OF assms(1,2) offs assms(4-7), of s]) (use s sp assms(8) in simp_all)
  qed
  then show ?thesis
    using sk assms(9) by (auto simp: flatmap_pread_flat_def map_ranges_def)
qed

lemma flattened_reads:
  assumes "os_ok os" and "file_reads os p tot fc" and "fidx < length (fc_info fc)" and "fd = fcache_fd fc fidx"
    and "flat_segs os p fd 4096 ss" and "tot + 16 * (length ss + 1) + len < UINT_SIZE - 1" and "unat pos + len \<le> 2 ^ 63"
  shows "\<exists>st f fc1. flatmap_file_init os True (\<lambda>_. True) (\<lambda>_. True) fidx fc = Some (st, f, fc1) \<and> (never_fails os \<longrightarrow> st = KDUMP_OK)
    \<and> (st = KDUMP_OK \<and> fm_files fm ! fidx = f \<longrightarrow>
        (\<exists>ret bs fc2. flatmap_pread_flat os fm len fidx pos fc1 = Some (ret, bs, fc2)
          \<and> (ret = KDUMP_OK \<longrightarrow> bs = map (rearranged os fd ss) [unat pos..<unat pos + len]) \<and> (never_fails os \<longrightarrow> ret = KDUMP_OK)))"
proof -
  obtain m where m: "fc_ok os p m tot 0 fc" "never_fails os \<longrightarrow> lenient fc"
    using file_reads_ok [OF assms(1,2)] by (auto simp: never_fails_def)
  define mp where "mp = \<lparr>map_refcnt = 1, ranges = []\<rparr>"
  have rep: "represents [] mp []"
    by (simp add: represents_def mp_def map_wf_def map_search_def)
  have room: "tot + 16 * (length ss + 1) < UINT_SIZE - 1"
    using assms(6) by linarith
  obtain st mp' offs fc1 where i: "segments_loop os (\<lambda>_. True) (\<lambda>_. True) fidx 0 4096 mp [] fc = Some (st, mp', offs, fc1)"
    "fc_ok os p m (tot + 16 * (length ss + 1)) 0 fc1" "fc_info fc1 = fc_info fc" "st = KDUMP_OK \<longrightarrow> represents ss mp' offs"
    "never_fails os \<longrightarrow> st = KDUMP_OK \<and> lenient fc1"
    using segments_loop_reads [OF assms(1,5) m(1) room assms(3,4) rep, where alloc = "\<lambda>_. True" and grown = "\<lambda>_. True"] m(2)
    by (simp only: list.size append_Nil) blast
  define f where "f = \<lparr>ffm_map = Some mp', ffm_offs = offs\<rparr>"
  have "flatmap_file_init os True (\<lambda>_. True) (\<lambda>_. True) fidx fc = Some (st, f, fc1)"
    using i(1) by (simp add: flatmap_file_init_def map_new_def MDF_HEADER_SIZE_def mp_def f_def)
  moreover have "\<exists>ret bs fc2. flatmap_pread_flat os fm len fidx pos fc1 = Some (ret, bs, fc2)
          \<and> (ret = KDUMP_OK \<longrightarrow> bs = map (rearranged os fd ss) [unat pos..<unat pos + len]) \<and> (never_fails os \<longrightarrow> ret = KDUMP_OK)"
    if "st = KDUMP_OK" "fm_files fm ! fidx = f"
  proof -
    have rep': "represents ss mp' offs"
      using i(4) that(1) by blast
    have "fidx < length (fc_info fc1)" "fd = fcache_fd fc1 fidx"
      using assms(3,4) i(3) by (simp_all add: fcache_fd_def)
    from pread_flat_reads [OF assms(1) flat_segs_in_file [OF assms(5)] rep' i(2) assms(6) this assms(7) that(2) [unfolded f_def]] i(5)
    show ?thesis
      by blast
  qed
  ultimately show ?thesis
    using i(5) by blast
qed

text \<open>
  C13. Flattened files: for a file whose segments are complete, \<open>flatmap_file_init\<close> returns; if it succeeds, and it does if no read fails, then
  \<open>flatmap_pread_flat\<close> of any range of the rearranged file returns, and if it succeeds, which it again does if no read fails, it delivers
  the file that the segments make: the last segment with a byte provides it, and bytes in no segment are zero.
\<close>

theorem flattened_file_is_rearranged:
  assumes "os_ok os" and "file_reads os p tot fc" and "fidx < length (fc_info fc)" and "fd = fcache_fd fc fidx"
    and "flat_segs os p fd 4096 ss" and "tot + 16 * (length ss + 1) + len < UINT_SIZE - 1" and "unat pos + len \<le> 2 ^ 63"
  shows "\<exists>st f fc1. flatmap_file_init os True (\<lambda>_. True) (\<lambda>_. True) fidx fc = Some (st, f, fc1) \<and> (never_fails os \<longrightarrow> st = KDUMP_OK)
    \<and> (st = KDUMP_OK \<and> fm_files fm ! fidx = f \<longrightarrow>
        (\<exists>ret bs fc2. flatmap_pread_flat os fm len fidx pos fc1 = Some (ret, bs, fc2)
          \<and> (ret = KDUMP_OK \<longrightarrow> bs = map (rearranged os fd ss) [unat pos..<unat pos + len]) \<and> (never_fails os \<longrightarrow> ret = KDUMP_OK)))"
  by (rule flattened_reads [OF assms])

text \<open>
  A flattened file with two overlapping segments: the bytes 1 to 4 at offset 2, then 9 at offset 3.
\<close>

definition flat_tail :: "u8 list" where
  "flat_tail = [0, 0, 0, 0, 0, 0, 0, 2, 0, 0, 0, 0, 0, 0, 0, 4, 1, 2, 3, 4, 0, 0, 0, 0, 0, 0, 0, 3, 0, 0, 0, 0, 0, 0, 0, 1, 9,
     255, 255, 255, 255, 255, 255, 255, 255, 255, 255, 255, 255, 255, 255, 255, 255]"

definition flat_example :: "u8 list" where
  "flat_example = replicate 4096 0 @ flat_tail"

lemma flat_lengths: "length flat_tail = 53" "length flat_example = 4149"
  by (simp_all add: flat_example_def flat_tail_def)

definition flat_os :: os where
  "flat_os = ex_os\<lparr>os_file := (\<lambda>_. flat_example)\<rparr>"

definition flat_fcache :: fcache where
  "flat_fcache = the (fcache_new (\<lambda>d. Some (int (length (os_file flat_os d)))) (2 ^ 12) True (Some ex_cache, 0) (Some ex_cache, 0, Some 4096)
     (\<lambda>_. []) [7] 2 2)"

lemma flat_fcache_reads: "file_reads flat_os 12 0 flat_fcache \<and> fc_info flat_fcache = [\<lparr>fi_fd = 7, fi_filesz = 4149\<rparr>]"
proof -
  obtain fc where fc: "fcache_new (\<lambda>d. Some (int (length (os_file flat_os d)))) (2 ^ 12) True (Some ex_cache, 0) (Some ex_cache, 0, Some 4096)
     (\<lambda>_. []) [7] 2 2 = Some fc" "fc_info fc = [\<lparr>fi_fd = 7, fi_filesz = 4149\<rparr>]"
    by (simp add: fcache_new_def cache_alloc_def ex_cache_def flat_os_def ex_os_def flat_lengths)
  then have "flat_fcache = fc"
    by (simp add: flat_fcache_def)
  then show ?thesis
    using file_reads.new [OF fc(1)] fc(2) by simp
qed

lemma flat_example_byte: "4096 \<le> i \<Longrightarrow> flat_example ! i = flat_tail ! (i - 4096)"
  by (simp add: flat_example_def nth_append)

lemma flat_example_bytes:
  "4096 \<le> q \<Longrightarrow> q + n \<le> 4149 \<Longrightarrow> file_bytes flat_os 7 q n = take n (drop (q - 4096) flat_tail)"
  by (rule nth_equalityI) (auto simp: file_bytes_def flat_os_def flat_lengths flat_example_byte)

lemma flat_example_segs: "flat_segs flat_os 12 7 4096 [(2, 4112, 4), (3, 4132, 1)]"
proof -
  have e: "file_end flat_os 12 7 = 8192"
    by (simp add: file_end_def flat_os_def flat_lengths)
  have b: "be_bytes (file_bytes flat_os 7 4096 8) = 2" "be_bytes (file_bytes flat_os 7 4104 8) = 4"
    "be_bytes (file_bytes flat_os 7 4116 8) = 3" "be_bytes (file_bytes flat_os 7 4124 8) = 1" "be_bytes (file_bytes flat_os 7 4133 8) = - 1"
    by (simp_all add: flat_example_bytes flat_tail_def be_bytes_def)
  have "flat_segs flat_os 12 7 4133 []"
    by (rule last_seg) (simp_all add: e b)
  then have "flat_segs flat_os 12 7 4116 [(3, 4132, 1)]"
    using next_seg [of 3 flat_os 7 4116 1 12 "[]"] by (simp add: e b)
  then show ?thesis
    using next_seg [of 2 flat_os 7 4096 4 12 "[(3, 4132, 1)]"] by (simp add: e b)
qed

theorem flattened_file_is_rearranged_witness:
  "\<exists>f fc1 fc2. flatmap_file_init flat_os True (\<lambda>_. True) (\<lambda>_. True) 0 flat_fcache = Some (KDUMP_OK, f, fc1)
     \<and> flatmap_pread_flat flat_os \<lparr>fm_cache = True, fm_files = [f]\<rparr> 6 0 1 fc1 = Some (KDUMP_OK, [0, 1, 9, 3, 4, 0], fc2)"
proof -
  have ok: "os_ok flat_os" "never_fails flat_os" "7 = fcache_fd flat_fcache 0" "0 < length (fc_info flat_fcache)"
    using flat_fcache_reads by (simp_all add: os_ok_def never_fails_def flat_os_def ex_os_def fcache_fd_def)
  have c: "map (rearranged flat_os 7 [(2, 4112, 4), (3, 4132, 1)]) [1..<7] = [0, 1, 9, 3, 4, 0]"
    by (simp add: upt_conv_Cons rearranged_def cover_def seg_has_def flat_os_def flat_lengths flat_example_byte)
      (simp add: flat_tail_def)
  have r: "\<exists>st f fc1. flatmap_file_init flat_os True (\<lambda>_. True) (\<lambda>_. True) 0 flat_fcache = Some (st, f, fc1) \<and> (never_fails flat_os \<longrightarrow> st = KDUMP_OK)
    \<and> (st = KDUMP_OK \<and> fm_files fm ! 0 = f \<longrightarrow>
        (\<exists>ret bs fc2. flatmap_pread_flat flat_os fm 6 0 1 fc1 = Some (ret, bs, fc2)
          \<and> (ret = KDUMP_OK \<longrightarrow> bs = map (rearranged flat_os 7 [(2, 4112, 4), (3, 4132, 1)]) [unat (1 :: u64)..<unat (1 :: u64) + 6])
          \<and> (never_fails flat_os \<longrightarrow> ret = KDUMP_OK)))" for fm
    by (rule flattened_file_is_rearranged [OF ok(1) conjunct1 [OF flat_fcache_reads] ok(4,3) flat_example_segs]) simp_all
  obtain f fc1 where i: "flatmap_file_init flat_os True (\<lambda>_. True) (\<lambda>_. True) 0 flat_fcache = Some (KDUMP_OK, f, fc1)"
    using r [of undefined] ok(2) by blast
  then show ?thesis
    using r [of "\<lparr>fm_cache = True, fm_files = [f]\<rparr>"] ok(2) c by auto
qed

subsection \<open>Chunks of holes\<close>

text \<open>A chunk inside a hole reads the offset in front of the array, and one of an empty file the range behind the map.\<close>

lemma chunk_of_hole_undefined:
  assumes "fm_files fm ! fidx = f" and "ffm_map f = Some m" and "skip_ranges (map_ranges m) pos = (r # rs, off)"
    and "meth r = ADDRXLAT_SYS_METH_NONE" and "len \<le> unat (endoff r + 1 - off)"
  shows "flatmap_get_chunk_flat os a d e fm len fidx pos fc = None"
  using assms by (simp add: flatmap_get_chunk_flat_def Let_def)

lemma chunk_of_empty_undefined:
  assumes "fm_files fm ! fidx = f" and "ffm_map f = Some m" and "map_ranges m = []"
  shows "flatmap_get_chunk_flat os a d e fm len fidx pos fc = None"
  using assms by (simp add: flatmap_get_chunk_flat_def Let_def)

end
