(* ===== verification/Blob.thy ===== *)
theory Blob
  imports Kdump_Util
begin

section \<open>Blobs (src/kdumpfile/blob.c)\<close>

text \<open>
  A blob is a reference-counted buffer that can be pinned. A buffer is its address with its contents, \<open>None\<close> is a null
  pointer; the outcomes of \<open>malloc\<close> are arguments, and what is passed to \<open>free\<close> is a result.
\<close>

type_synonym buffer = "nat \<times> u8 list"

record kdump_blob =
  bl_refcnt :: u64
  bl_pincnt :: u64
  bl_data :: "buffer option"
  bl_size :: nat

definition kdump_blob_new :: "bool \<Rightarrow> buffer option \<Rightarrow> nat \<Rightarrow> kdump_blob option" where
  "kdump_blob_new alloc data sz =
     (if alloc then Some \<lparr>bl_refcnt = 1, bl_pincnt = 0, bl_data = data, bl_size = sz\<rparr> else None)"

text \<open>The first allocation is that of the copy, at the given address, the second that of the blob.\<close>

definition kdump_blob_new_dup :: "nat option \<Rightarrow> bool \<Rightarrow> u8 list option \<Rightarrow> nat \<Rightarrow> kdump_blob option \<times> buffer list" where
  "kdump_blob_new_dup mem alloc data sz =
     (case data of
        Some bs \<Rightarrow>
          (case mem of
             None \<Rightarrow> (None, [])
           | Some a \<Rightarrow>
               let newdata = (a, take sz bs); ret = kdump_blob_new alloc (Some newdata) sz
               in (ret, if ret = None then [newdata] else []))
      | None \<Rightarrow> (kdump_blob_new alloc None sz, []))"

definition kdump_blob_incref :: "kdump_blob \<Rightarrow> u64 \<times> kdump_blob" where
  "kdump_blob_incref blob = (let n = bl_refcnt blob + 1 in (n, blob\<lparr>bl_refcnt := n\<rparr>))"

text \<open>The blob is gone when the count reaches zero.\<close>

definition kdump_blob_decref :: "kdump_blob \<Rightarrow> u64 \<times> kdump_blob option \<times> buffer list" where
  "kdump_blob_decref blob =
     (let refcnt = bl_refcnt blob - 1
      in if refcnt = 0
         then (refcnt, None, case bl_data blob of Some d \<Rightarrow> [d] | None \<Rightarrow> [])
         else (refcnt, Some (blob\<lparr>bl_refcnt := refcnt\<rparr>), []))"

definition kdump_blob_pin :: "kdump_blob \<Rightarrow> buffer option \<times> kdump_blob" where
  "kdump_blob_pin blob = (bl_data blob, blob\<lparr>bl_pincnt := bl_pincnt blob + 1\<rparr>)"

definition kdump_blob_unpin :: "kdump_blob \<Rightarrow> u64 \<times> kdump_blob" where
  "kdump_blob_unpin blob = (let n = bl_pincnt blob - 1 in (n, blob\<lparr>bl_pincnt := n\<rparr>))"

definition kdump_blob_size :: "kdump_blob \<Rightarrow> nat" where
  "kdump_blob_size blob = bl_size blob"

definition kdump_blob_set :: "buffer option \<Rightarrow> nat \<Rightarrow> kdump_blob \<Rightarrow> kstatus \<times> kdump_blob \<times> buffer list" where
  "kdump_blob_set data sz blob =
     (if bl_pincnt blob \<noteq> 0 then (KDUMP_ERR_BUSY, blob, [])
      else
        let freed = (case bl_data blob of Some d \<Rightarrow> if map_option fst data \<noteq> Some (fst d) then [d] else [] | None \<Rightarrow> []);
            sz = (if data = None then 0 else sz)
        in (KDUMP_OK, blob\<lparr>bl_data := data, bl_size := sz\<rparr>, freed))"

text \<open>
  A sized blob has as many bytes as its size tells. All operations keep this for buffers of the given size, but a blob
  that was made from a null pointer has the size that was given with it.
\<close>

fun blob_sized :: "kdump_blob \<Rightarrow> bool" where
  "blob_sized blob = (case bl_data blob of Some (a, bs) \<Rightarrow> length bs = bl_size blob | None \<Rightarrow> bl_size blob = 0)"

lemma blob_new_sized:
  "kdump_blob_new alloc (Some (a, bs)) (length bs) = Some blob \<Longrightarrow> blob_sized blob"
  by (auto simp: kdump_blob_new_def split: if_splits)

lemma blob_set_sized:
  "blob_sized blob \<Longrightarrow> (\<forall>d. data = Some d \<longrightarrow> length (snd d) = sz) \<Longrightarrow> kdump_blob_set data sz blob = (st, blob', fs) \<Longrightarrow> blob_sized blob'"
  by (auto simp: kdump_blob_set_def Let_def split: if_splits option.splits prod.splits)

lemma blob_pinned_kept:
  assumes "bl_pincnt blob \<noteq> 0"
  shows "kdump_blob_set data sz blob = (KDUMP_ERR_BUSY, blob, [])"
  using assms by (simp add: kdump_blob_set_def)

lemma blob_null_has_size: "\<exists>blob. kdump_blob_new True None 8 = Some blob \<and> kdump_blob_size blob = 8 \<and> fst (kdump_blob_pin blob) = None"
  by (simp add: kdump_blob_new_def kdump_blob_size_def kdump_blob_pin_def)

end
