(* ===== verification/Attr_Dict.thy ===== *)
theory Attr_Dict
  imports Blob
begin

section \<open>Attribute dictionaries (src/kdumpfile/attr.c)\<close>

text \<open>
  The attributes of a dump file form a tree, and each dictionary has a hash table of the full paths. Attributes, templates,
  operations, dictionaries, blobs and bitmaps live at addresses in a heap. A list of the hash table is kept as the list of
  its attributes; each attribute knows the list it is in, as its links do. The members of the unions of an attribute are separate
  fields, since the type of the template and the flag \<open>indirect\<close> tell which is used. Hooks are function
  pointers, whose meaning is an argument, and act on the rest of the context. Locks are not modelled:
  an operation runs alone. Strings are values, the outcome of their allocation comes from the heap; messages of errors are dropped.
  A run that uses memory that is not there has no result.
\<close>

subsection \<open>Attributes and templates\<close>

datatype attr_type = KDUMP_NIL | KDUMP_DIRECTORY | KDUMP_NUMBER | KDUMP_ADDRESS | KDUMP_STRING | KDUMP_BITMAP | KDUMP_BLOB

text \<open>The value of zeroed memory, and those of the members of the union; bitmaps and blobs are addresses.\<close>

datatype attr_val = Zero_Val | Number u64 | Address u64 | Str string | Bitmap nat | Blob nat

record attr_flags =
  isset :: bool
  persist :: bool
  dynstr :: bool
  indirect :: bool
  invalid :: bool

definition ATTR_DEFAULT :: attr_flags where
  "ATTR_DEFAULT = \<lparr>isset = False, persist = False, dynstr = False, indirect = False, invalid = False\<rparr>"

definition ATTR_PERSIST :: attr_flags where
  "ATTR_PERSIST = ATTR_DEFAULT\<lparr>persist := True\<rparr>"

definition ATTR_INDIRECT :: attr_flags where
  "ATTR_INDIRECT = ATTR_DEFAULT\<lparr>indirect := True\<rparr>"

definition ATTR_INVALID :: attr_flags where
  "ATTR_INVALID = ATTR_DEFAULT\<lparr>invalid := True\<rparr>"

definition ATTR_PERSIST_INDIRECT :: attr_flags where
  "ATTR_PERSIST_INDIRECT = ATTR_DEFAULT\<lparr>persist := True, indirect := True\<rparr>"

definition ATTR_DYNSTR :: attr_flags where
  "ATTR_DYNSTR = ATTR_DEFAULT\<lparr>dynstr := True\<rparr>"

record attr_ops =
  pre_set :: "nat option"
  post_set :: "nat option"
  pre_clear :: "nat option"
  revalidate :: "nat option"

text \<open>The union of a template: the template that is overridden, or a number.\<close>

datatype tmpl_link = Parent nat | Parent_Key nat | Depth nat | Optidx nat | Fidx nat | No_Link

record attr_template =
  t_key :: string
  t_link :: tmpl_link
  t_type :: attr_type
  t_override :: bool
  t_ops :: "nat option"

record attr_data =
  at_next :: "nat option"
  at_parent :: "nat option"
  at_template :: nat
  at_flags :: attr_flags
  at_dyntmpl :: bool
  at_val :: attr_val
  at_dir :: "nat option"
  at_pval :: nat
  at_list :: "nat \<times> nat"

definition ATTR_HASH_BITS :: nat where
  "ATTR_HASH_BITS = 10"

record attr_dict =
  d_refcnt :: u64
  d_table :: "nat \<Rightarrow> nat list"
  d_fallback :: "nat option"
  d_global :: "nat \<Rightarrow> nat option"
  d_live :: bool

text \<open>
  The heap: \<open>h_static\<close> holds the values of indirect attributes, \<open>h_shared\<close> the reference count of the shared data. The allocation at the
  address \<open>h_fresh\<close> succeeds if \<open>h_mem\<close> says so.
\<close>

record 'x attr_heap =
  h_nodes :: "nat \<Rightarrow> attr_data option"
  h_tmpls :: "nat \<Rightarrow> attr_template option"
  h_ops :: "nat \<Rightarrow> attr_ops"
  h_dicts :: "nat \<Rightarrow> attr_dict option"
  h_static :: "nat \<Rightarrow> attr_val"
  h_blobs :: "nat \<Rightarrow> kdump_blob option"
  h_bmps :: "nat \<Rightarrow> u64 option"
  h_shared :: u64
  h_fresh :: nat
  h_mem :: "nat \<Rightarrow> bool"
  h_ctx :: 'x

definition alloc :: "'x attr_heap \<Rightarrow> nat option \<times> 'x attr_heap" where
  "alloc h = (if h_mem h (h_fresh h) then Some (h_fresh h) else None, h\<lparr>h_fresh := h_fresh h + 1\<rparr>)"

definition upd_node :: "nat \<Rightarrow> (attr_data \<Rightarrow> attr_data) \<Rightarrow> 'x attr_heap \<Rightarrow> 'x attr_heap option" where
  "upd_node n f h = do { a \<leftarrow> h_nodes h n; Some (h\<lparr>h_nodes := (h_nodes h)(n \<mapsto> f a)\<rparr>) }"

definition upd_dict :: "nat \<Rightarrow> (attr_dict \<Rightarrow> attr_dict) \<Rightarrow> 'x attr_heap \<Rightarrow> 'x attr_heap option" where
  "upd_dict d f h = do { D \<leftarrow> h_dicts h d; if d_live D then Some (h\<lparr>h_dicts := (h_dicts h)(d \<mapsto> f D)\<rparr>) else None }"

definition dict_of :: "'x attr_heap \<Rightarrow> nat \<Rightarrow> attr_dict option" where
  "dict_of h d = do { D \<leftarrow> h_dicts h d; if d_live D then Some D else None }"

definition tmpl_of :: "'x attr_heap \<Rightarrow> nat \<Rightarrow> attr_template option" where
  "tmpl_of h n = do { a \<leftarrow> h_nodes h n; h_tmpls h (at_template a) }"

definition key_of :: "'x attr_heap \<Rightarrow> nat \<Rightarrow> string option" where
  "key_of h n = do { t \<leftarrow> tmpl_of h n; Some (t_key t) }"

definition attr_isset :: "attr_data \<Rightarrow> bool" where
  "attr_isset a = isset (at_flags a)"

definition attr_value :: "'x attr_heap \<Rightarrow> attr_data \<Rightarrow> attr_val" where
  "attr_value h a = (if indirect (at_flags a) then h_static h (at_pval a) else at_val a)"

definition attr_embed_value :: "nat \<Rightarrow> 'x attr_heap \<Rightarrow> 'x attr_heap option" where
  "attr_embed_value n h =
     upd_node n (\<lambda>a. if indirect (at_flags a)
                     then a\<lparr>at_val := h_static h (at_pval a), at_flags := (at_flags a)\<lparr>indirect := False\<rparr>\<rparr>
                     else a) h"

subsection \<open>Paths and hashing\<close>

partial_function (option) pathlen_loop :: "'x attr_heap \<Rightarrow> nat \<Rightarrow> nat \<Rightarrow> nat \<Rightarrow> nat option" where
  "pathlen_loop h attr d len = do {
     a \<leftarrow> h_nodes h d;
     case at_parent a of
       None \<Rightarrow> Some len
     | Some p \<Rightarrow> do {
         k \<leftarrow> key_of h d;
         pathlen_loop h attr p (len + length k + (if d \<noteq> attr then 1 else 0))
       }
   }"

definition attr_pathlen :: "'x attr_heap \<Rightarrow> nat \<Rightarrow> nat option" where
  "attr_pathlen h attr = pathlen_loop h attr attr 0"

text \<open>The path is written from its end; the result is what is in the buffer.\<close>

partial_function (option) make_path_loop :: "'x attr_heap \<Rightarrow> nat \<Rightarrow> nat \<Rightarrow> string \<Rightarrow> string option" where
  "make_path_loop h attr d buf = do {
     a \<leftarrow> h_nodes h d;
     case at_parent a of
       None \<Rightarrow> Some buf
     | Some p \<Rightarrow> do {
         k \<leftarrow> key_of h d;
         make_path_loop h attr p (k @ (if d \<noteq> attr then CHR ''.'' # buf else buf))
       }
   }"

definition make_attr_path :: "'x attr_heap \<Rightarrow> nat \<Rightarrow> string option" where
  "make_attr_path h attr = make_path_loop h attr attr []"

text \<open>The first \<open>n\<close> characters of a string are searched for the last dot.\<close>

fun memrchr_dot :: "string \<Rightarrow> nat \<Rightarrow> nat option" where
  "memrchr_dot s 0 = None"
| "memrchr_dot s (Suc n) = (if s ! n = CHR ''.'' then Some n else memrchr_dot s n)"

lemma memrchr_dot_less: "memrchr_dot s n = Some i \<Longrightarrow> i < n"
  by (induction n) (auto split: if_splits)

lemma memrchr_dot_le: "memrchr_dot s n = Some i \<Longrightarrow> Suc i \<le> n"
  using memrchr_dot_less by force

text \<open>
  \<open>keycmp\<close> tells whether an attribute is at the key under a directory, that is whether the C function returns zero. The
  loop ends at the start of the key, and at a dot that the key starts with.
\<close>

function keycmp :: "'x attr_heap \<Rightarrow> nat \<Rightarrow> nat \<Rightarrow> string \<Rightarrow> nat \<Rightarrow> bool option" where
  "keycmp h attr dir key len = do {
     let dot = memrchr_dot key len;
     let p = (case dot of Some i \<Rightarrow> Suc i | None \<Rightarrow> 0);
     k \<leftarrow> key_of h attr;
     if k \<noteq> take (len - p) (drop p key) then Some False
     else do {
       a \<leftarrow> h_nodes h attr;
       case at_parent a of
         None \<Rightarrow> Some False
       | Some parent \<Rightarrow>
           (case dot of
              Some (Suc i) \<Rightarrow> keycmp h parent dir key (Suc i)
            | _ \<Rightarrow> do { a \<leftarrow> h_nodes h parent; d \<leftarrow> h_nodes h dir; Some (at_template a = at_template d) })
     }
   }"
  by auto
termination
  by (relation "measure (\<lambda>(h, attr, dir, key, len). len)") (auto dest!: memrchr_dot_less [OF sym])

definition bytes :: "string \<Rightarrow> u8 list" where
  "bytes s = map of_char s"

partial_function (option) path_hash :: "bool \<Rightarrow> 'x attr_heap \<Rightarrow> phash \<Rightarrow> nat \<Rightarrow> phash option" where
  "path_hash le h ph dir = do {
     a \<leftarrow> h_nodes h dir;
     case at_parent a of
       None \<Rightarrow> Some ph
     | Some p \<Rightarrow> do {
         ph \<leftarrow> path_hash le h ph p;
         k \<leftarrow> key_of h dir;
         Some (phash_update le (bytes ''.'') (phash_update le (bytes k) ph))
       }
   }"

text \<open>The part of the hash that is not initialised is taken to be zero; the value does not depend on it.\<close>

definition hash_start :: phash where
  "hash_start = phash_init (replicate 8 0)"

definition attr_hash_index :: "bool \<Rightarrow> 'x attr_heap \<Rightarrow> nat option \<Rightarrow> string \<Rightarrow> nat option" where
  "attr_hash_index le h parent key = do {
     ph \<leftarrow> (case parent of Some p \<Rightarrow> path_hash le h hash_start p | None \<Rightarrow> Some hash_start);
     Some (unat (fold_hash (phash_value (phash_update le (bytes key) ph)) ATTR_HASH_BITS))
   }"

subsection \<open>Lookups\<close>

fun find_attr :: "'x attr_heap \<Rightarrow> nat \<Rightarrow> string \<Rightarrow> nat \<Rightarrow> nat list \<Rightarrow> nat option option" where
  "find_attr h dir key len [] = Some None"
| "find_attr h dir key len (n # ns) = do {
     same \<leftarrow> keycmp h n dir key len;
     if same then Some (Some n) else find_attr h dir key len ns
   }"

definition lookup_dir_attr_no_fallback :: "bool \<Rightarrow> 'x attr_heap \<Rightarrow> nat \<Rightarrow> nat \<Rightarrow> string \<Rightarrow> nat \<Rightarrow> nat option option" where
  "lookup_dir_attr_no_fallback le h dict dir key keylen = do {
     D \<leftarrow> dict_of h dict;
     hash \<leftarrow> attr_hash_index le h (Some dir) (take keylen key);
     find_attr h dir key keylen (d_table D hash)
   }"

partial_function (option) lookup_dicts :: "'x attr_heap \<Rightarrow> nat \<Rightarrow> nat \<Rightarrow> string \<Rightarrow> nat \<Rightarrow> nat \<Rightarrow> nat option option" where
  "lookup_dicts h dict dir key keylen hash = do {
     D \<leftarrow> dict_of h dict;
     r \<leftarrow> find_attr h dir key keylen (d_table D hash);
     case r of
       Some n \<Rightarrow> Some (Some n)
     | None \<Rightarrow> (case d_fallback D of Some d \<Rightarrow> lookup_dicts h d dir key keylen hash | None \<Rightarrow> Some None)
   }"

text \<open>
  The first character of the key is read even if \<open>keylen\<close> is zero; if it is a dot, the length wraps around and the hash reads
  memory behind the key.
\<close>

definition lookup_dir_attr :: "bool \<Rightarrow> 'x attr_heap \<Rightarrow> nat \<Rightarrow> nat \<Rightarrow> string \<Rightarrow> nat \<Rightarrow> nat option option" where
  "lookup_dir_attr le h dict dir key keylen =
     (if key \<noteq> [] \<and> hd key = CHR ''.''
      then (if keylen = 0 then None else lookup_dir_attr_no_fallback le h dict dir (tl key) (keylen - 1))
      else do {
        hash \<leftarrow> attr_hash_index le h (Some dir) (take keylen key);
        lookup_dicts h dict dir key keylen hash
      })"

partial_function (option) child_loop :: "'x attr_heap \<Rightarrow> nat \<Rightarrow> nat option \<Rightarrow> nat option option" where
  "child_loop h tmpl child =
     (case child of
        None \<Rightarrow> Some None
      | Some c \<Rightarrow> do {
          a \<leftarrow> h_nodes h c;
          if at_template a = tmpl then Some (Some c) else child_loop h tmpl (at_next a)
        })"

definition lookup_attr_child :: "'x attr_heap \<Rightarrow> nat \<Rightarrow> nat \<Rightarrow> nat option option" where
  "lookup_attr_child h dir tmpl = do { a \<leftarrow> h_nodes h dir; child_loop h tmpl (at_dir a) }"

definition GKI_dir_root :: nat where
  "GKI_dir_root = 0"

definition dgattr :: "'x attr_heap \<Rightarrow> nat \<Rightarrow> nat \<Rightarrow> nat option" where
  "dgattr h dict idx = do { D \<leftarrow> dict_of h dict; d_global D idx }"

definition lookup_attr_part :: "bool \<Rightarrow> 'x attr_heap \<Rightarrow> nat \<Rightarrow> string \<Rightarrow> nat \<Rightarrow> nat option option" where
  "lookup_attr_part le h dict key keylen = do {
     root \<leftarrow> dgattr h dict GKI_dir_root;
     lookup_dir_attr le h dict root key keylen
   }"

definition lookup_attr :: "bool \<Rightarrow> 'x attr_heap \<Rightarrow> nat \<Rightarrow> string option \<Rightarrow> nat option option" where
  "lookup_attr le h dict key =
     (case key of
        Some k \<Rightarrow> lookup_attr_part le h dict k (length k)
      | None \<Rightarrow> do { root \<leftarrow> dgattr h dict GKI_dir_root; Some (Some root) })"

end
