(* ===== verification/Attr_Tree.thy ===== *)
theory Attr_Tree
  imports Attr_Dict
begin

section \<open>Creation, clearing and cloning of attributes (src/kdumpfile/attr.c)\<close>

text \<open>
  The operations that change the tree and the hash table. The meaning of the hooks is an argument; a hook gets the attribute and the heap
  and returns the heap. Loops over the children of a directory follow the links of the heap as it is then.
\<close>

subsection \<open>Lists of the hash table\<close>

definition hlist_add_head :: "nat \<Rightarrow> nat \<Rightarrow> nat \<Rightarrow> 'x attr_heap \<Rightarrow> 'x attr_heap option" where
  "hlist_add_head n dict hash h = do {
     h \<leftarrow> upd_node n (\<lambda>a. a\<lparr>at_list := (dict, hash)\<rparr>) h;
     upd_dict dict (\<lambda>D. D\<lparr>d_table := (d_table D)(hash := n # d_table D hash)\<rparr>) h
   }"

text \<open>
  The first element of a list writes to the head of the list, which is inside the dictionary; the others write to their predecessor.
\<close>

definition hlist_del :: "nat \<Rightarrow> 'x attr_heap \<Rightarrow> 'x attr_heap option" where
  "hlist_del n h = do {
     a \<leftarrow> h_nodes h n;
     let (dict, hash) = at_list a;
     D \<leftarrow> h_dicts h dict;
     let ns = d_table D hash;
     if n \<notin> set ns \<or> (\<not> d_live D \<and> hd ns = n) then None
     else Some (h\<lparr>h_dicts := (h_dicts h)(dict \<mapsto> D\<lparr>d_table := (d_table D)(hash := remove1 n ns)\<rparr>)\<rparr>)
   }"

definition no_attr :: attr_data where
  "no_attr = \<lparr>at_next = None, at_parent = None, at_template = 0, at_flags = ATTR_DEFAULT, at_dyntmpl = False, at_val = Zero_Val,
     at_dir = None, at_pval = 0, at_list = (0, 0)\<rparr>"

definition alloc_attr :: "bool \<Rightarrow> nat \<Rightarrow> nat option \<Rightarrow> nat \<Rightarrow> 'x attr_heap \<Rightarrow> (nat option \<times> 'x attr_heap) option" where
  "alloc_attr le dict parent tmpl h =
     (case alloc h of
        (None, h) \<Rightarrow> Some (None, h)
      | (Some n, h) \<Rightarrow> do {
          let h = h\<lparr>h_nodes := (h_nodes h)(n \<mapsto> no_attr\<lparr>at_parent := parent, at_template := tmpl\<rparr>)\<rparr>;
          k \<leftarrow> key_of h n;
          hash \<leftarrow> attr_hash_index le h parent k;
          h \<leftarrow> hlist_add_head n dict hash h;
          Some (Some n, h)
        })"

subsection \<open>Values\<close>

definition blob_unref :: "nat \<Rightarrow> 'x attr_heap \<Rightarrow> 'x attr_heap option" where
  "blob_unref b h = do {
     blob \<leftarrow> h_blobs h b;
     Some (h\<lparr>h_blobs := (h_blobs h)(b := fst (snd (kdump_blob_decref blob)))\<rparr>)
   }"

definition bmp_unref :: "nat \<Rightarrow> 'x attr_heap \<Rightarrow> 'x attr_heap option" where
  "bmp_unref b h = do {
     n \<leftarrow> h_bmps h b;
     Some (h\<lparr>h_bmps := (h_bmps h)(b := if n - 1 = 0 then None else Some (n - 1))\<rparr>)
   }"

text \<open>The release of a string has no effect on the model, where strings are values.\<close>

definition discard_value :: "attr_val \<Rightarrow> attr_type \<Rightarrow> attr_flags \<Rightarrow> 'x attr_heap \<Rightarrow> 'x attr_heap option" where
  "discard_value val type flags h =
     (case type of
        KDUMP_BITMAP \<Rightarrow> (case val of Bitmap b \<Rightarrow> bmp_unref b h | _ \<Rightarrow> None)
      | KDUMP_BLOB \<Rightarrow> (case val of Blob b \<Rightarrow> blob_unref b h | _ \<Rightarrow> None)
      | _ \<Rightarrow> Some h)"

definition discard_attr_value :: "nat \<Rightarrow> 'x attr_heap \<Rightarrow> 'x attr_heap option" where
  "discard_attr_value n h = do {
     a \<leftarrow> h_nodes h n;
     if \<not> attr_isset a then Some h
     else do {
       t \<leftarrow> tmpl_of h n;
       h \<leftarrow> discard_value (attr_value h a) (t_type t) (at_flags a) h;
       upd_node n (\<lambda>a. a\<lparr>at_flags := (at_flags a)\<lparr>dynstr := False\<rparr>\<rparr>) h
     }
   }"

subsection \<open>Clearing\<close>

record 'x attr_hooks =
  run_pre_set :: "nat \<Rightarrow> nat \<Rightarrow> attr_val \<Rightarrow> 'x attr_heap \<Rightarrow> (kstatus \<times> attr_val \<times> 'x attr_heap) option"
  run_post_set :: "nat \<Rightarrow> nat \<Rightarrow> 'x attr_heap \<Rightarrow> (kstatus \<times> 'x attr_heap) option"
  run_pre_clear :: "nat \<Rightarrow> nat \<Rightarrow> 'x attr_heap \<Rightarrow> 'x attr_heap option"
  run_revalidate :: "nat \<Rightarrow> nat \<Rightarrow> 'x attr_heap \<Rightarrow> (kstatus \<times> 'x attr_heap) option"
  run_attr_cleanup :: "nat \<Rightarrow> 'x attr_heap \<Rightarrow> 'x attr_heap option"

definition hook_of :: "(attr_ops \<Rightarrow> nat option) \<Rightarrow> 'x attr_heap \<Rightarrow> attr_template \<Rightarrow> nat option" where
  "hook_of sel h t = (case t_ops t of Some ops \<Rightarrow> sel (h_ops h ops) | None \<Rightarrow> None)"

definition clear_single_attr :: "'x attr_hooks \<Rightarrow> nat \<Rightarrow> 'x attr_heap \<Rightarrow> 'x attr_heap option" where
  "clear_single_attr H n h = do {
     t \<leftarrow> tmpl_of h n;
     h \<leftarrow> (case hook_of pre_clear h t of Some f \<Rightarrow> run_pre_clear H f n h | None \<Rightarrow> Some h);
     h \<leftarrow> discard_attr_value n h;
     upd_node n (\<lambda>a. a\<lparr>at_flags := (at_flags a)\<lparr>isset := False\<rparr>\<rparr>) h
   }"

text \<open>A list of children, each with its own children, as the recursion of \<open>clear_attr\<close> does it.\<close>

partial_function (option) clear_children :: "'x attr_hooks \<Rightarrow> nat option \<Rightarrow> 'x attr_heap \<Rightarrow> 'x attr_heap option" where
  "clear_children H child h =
     (case child of
        None \<Rightarrow> Some h
      | Some c \<Rightarrow> do {
          t \<leftarrow> tmpl_of h c;
          a \<leftarrow> h_nodes h c;
          h \<leftarrow> (if t_type t = KDUMP_DIRECTORY then clear_children H (at_dir a) h else Some h);
          h \<leftarrow> clear_single_attr H c h;
          a \<leftarrow> h_nodes h c;
          clear_children H (at_next a) h
        })"

definition clear_attr :: "'x attr_hooks \<Rightarrow> nat \<Rightarrow> 'x attr_heap \<Rightarrow> 'x attr_heap option" where
  "clear_attr H n h = do {
     t \<leftarrow> tmpl_of h n;
     a \<leftarrow> h_nodes h n;
     h \<leftarrow> (if t_type t = KDUMP_DIRECTORY then clear_children H (at_dir a) h else Some h);
     clear_single_attr H n h
   }"

partial_function (option) clear_volatile_children ::
  "'x attr_hooks \<Rightarrow> nat option \<Rightarrow> bool \<Rightarrow> 'x attr_heap \<Rightarrow> (bool \<times> 'x attr_heap) option" where
  "clear_volatile_children H child p h =
     (case child of
        None \<Rightarrow> Some (p, h)
      | Some c \<Rightarrow> do {
          t \<leftarrow> tmpl_of h c;
          a \<leftarrow> h_nodes h c;
          (q, h) \<leftarrow> (if t_type t = KDUMP_DIRECTORY then clear_volatile_children H (at_dir a) (persist (at_flags a)) h
                    else Some (persist (at_flags a), h));
          h \<leftarrow> (if q then Some h else clear_single_attr H c h);
          a \<leftarrow> h_nodes h c;
          clear_volatile_children H (at_next a) (p \<or> q) h
        })"

definition clear_volatile :: "'x attr_hooks \<Rightarrow> nat \<Rightarrow> 'x attr_heap \<Rightarrow> (bool \<times> 'x attr_heap) option" where
  "clear_volatile H n h = do {
     t \<leftarrow> tmpl_of h n;
     a \<leftarrow> h_nodes h n;
     (q, h) \<leftarrow> (if t_type t = KDUMP_DIRECTORY then clear_volatile_children H (at_dir a) (persist (at_flags a)) h
               else Some (persist (at_flags a), h));
     h \<leftarrow> (if q then Some h else clear_single_attr H n h);
     Some (q, h)
   }"

definition clear_volatile_attrs :: "'x attr_hooks \<Rightarrow> nat \<Rightarrow> 'x attr_heap \<Rightarrow> 'x attr_heap option" where
  "clear_volatile_attrs H dict h = do { root \<leftarrow> dgattr h dict GKI_dir_root; map_option snd (clear_volatile H root h) }"

subsection \<open>Deallocation\<close>

definition free_attr :: "nat \<Rightarrow> 'x attr_heap \<Rightarrow> 'x attr_heap option" where
  "free_attr n h = do {
     h \<leftarrow> discard_attr_value n h;
     a \<leftarrow> h_nodes h n;
     let h = (if at_dyntmpl a then h\<lparr>h_tmpls := (h_tmpls h)(at_template a := None)\<rparr> else h);
     h \<leftarrow> hlist_del n h;
     Some (h\<lparr>h_nodes := (h_nodes h)(n := None)\<rparr>)
   }"

partial_function (option) dealloc_children :: "nat option \<Rightarrow> 'x attr_heap \<Rightarrow> 'x attr_heap option" where
  "dealloc_children child h =
     (case child of
        None \<Rightarrow> Some h
      | Some c \<Rightarrow> do {
          a \<leftarrow> h_nodes h c;
          t \<leftarrow> tmpl_of h c;
          h \<leftarrow> (if t_type t = KDUMP_DIRECTORY then dealloc_children (at_dir a) h else Some h);
          h \<leftarrow> free_attr c h;
          dealloc_children (at_next a) h
        })"

definition dealloc_attr :: "nat \<Rightarrow> 'x attr_heap \<Rightarrow> 'x attr_heap option" where
  "dealloc_attr n h = do {
     a \<leftarrow> h_nodes h n;
     t \<leftarrow> tmpl_of h n;
     h \<leftarrow> (if t_type t = KDUMP_DIRECTORY then dealloc_children (at_dir a) h else Some h);
     free_attr n h
   }"

subsection \<open>Creation\<close>

definition reuse_attr :: "nat \<Rightarrow> nat \<Rightarrow> 'x attr_heap \<Rightarrow> 'x attr_heap option" where
  "reuse_attr n tmpl h = do {
     h \<leftarrow> discard_attr_value n h;
     a \<leftarrow> h_nodes h n;
     let h = (if at_dyntmpl a then h\<lparr>h_tmpls := (h_tmpls h)(at_template a := None)\<rparr> else h);
     upd_node n (\<lambda>a. a\<lparr>at_template := tmpl, at_flags := ATTR_DEFAULT, at_dyntmpl := False, at_val := Zero_Val, at_dir := None, at_pval := 0\<rparr>) h
   }"

definition link_child :: "nat \<Rightarrow> nat \<Rightarrow> 'x attr_heap \<Rightarrow> 'x attr_heap option" where
  "link_child n p h = do {
     pa \<leftarrow> h_nodes h p;
     h \<leftarrow> upd_node n (\<lambda>a. a\<lparr>at_next := at_dir pa\<rparr>) h;
     upd_node p (\<lambda>a. a\<lparr>at_dir := Some n\<rparr>) h
   }"

definition new_attr :: "bool \<Rightarrow> nat \<Rightarrow> nat option \<Rightarrow> nat \<Rightarrow> 'x attr_heap \<Rightarrow> (nat option \<times> 'x attr_heap) option" where
  "new_attr le dict parent tmpl h = do {
     t \<leftarrow> h_tmpls h tmpl;
     old \<leftarrow> (case parent of
               Some p \<Rightarrow> lookup_dir_attr_no_fallback le h dict p (t_key t) (length (t_key t))
             | None \<Rightarrow> Some None);
     case old of
       Some n \<Rightarrow> do { h \<leftarrow> reuse_attr n tmpl h; Some (Some n, h) }
     | None \<Rightarrow> do {
         (r, h) \<leftarrow> alloc_attr le dict parent tmpl h;
         case (r, parent) of
           (Some n, Some p) \<Rightarrow> do { h \<leftarrow> link_child n p h; Some (Some n, h) }
         | _ \<Rightarrow> Some (r, h)
       }
   }"

definition alloc_attr_template :: "attr_template \<Rightarrow> string \<Rightarrow> 'x attr_heap \<Rightarrow> nat option \<times> 'x attr_heap" where
  "alloc_attr_template tmpl key h =
     (case alloc h of
        (Some t, h) \<Rightarrow> (Some t, h\<lparr>h_tmpls := (h_tmpls h)(t \<mapsto> tmpl\<lparr>t_key := key\<rparr>)\<rparr>)
      | (None, h) \<Rightarrow> (None, h))"

definition dir_template :: attr_template where
  "dir_template = \<lparr>t_key = [], t_link = No_Link, t_type = KDUMP_DIRECTORY, t_override = False, t_ops = None\<rparr>"

text \<open>
  The longest prefix of the path that exists: its end, or \<open>None\<close> when no part of it does and the base directory is taken.
\<close>

function find_prefix :: "bool \<Rightarrow> 'x attr_heap \<Rightarrow> nat \<Rightarrow> nat \<Rightarrow> string \<Rightarrow> nat \<Rightarrow> (nat option \<times> nat) option" where
  "find_prefix le h dict dir path n = do {
     r \<leftarrow> lookup_dir_attr le h dict dir path n;
     case r of
       Some attr \<Rightarrow> Some (Some n, attr)
     | None \<Rightarrow> (case memrchr_dot path n of Some i \<Rightarrow> find_prefix le h dict dir path i | None \<Rightarrow> Some (None, dir))
   }"
  by auto
termination
  by (relation "measure (\<lambda>(le, h, dict, dir, path, n). n)") (auto dest!: memrchr_dot_less [OF sym] memrchr_dot_less)

text \<open>The first dot of a string.\<close>

fun split_dot :: "string \<Rightarrow> string \<times> string option" where
  "split_dot [] = ([], None)"
| "split_dot (c # s) = (if c = CHR ''.'' then ([], Some s) else case split_dot s of (k, r) \<Rightarrow> (c # k, r))"

lemma split_dot_length: "split_dot s = (k, Some r) \<Longrightarrow> length r < length s"
  by (induction s arbitrary: k r) (auto split: if_splits prod.splits)

function create_rest :: "bool \<Rightarrow> nat \<Rightarrow> nat \<Rightarrow> string \<Rightarrow> attr_template \<Rightarrow> 'x attr_heap \<Rightarrow> (nat option \<times> 'x attr_heap) option" where
  "create_rest le dict attr rest atmpl h =
     (let (key, rest') = split_dot rest
      in case alloc_attr_template (if rest' \<noteq> None then dir_template else atmpl) key h of
           (None, h) \<Rightarrow> Some (None, h)
         | (Some t, h) \<Rightarrow> do {
             (r, h) \<leftarrow> new_attr le dict (Some attr) t h;
             case r of
               None \<Rightarrow> Some (None, h\<lparr>h_tmpls := (h_tmpls h)(t := None)\<rparr>)
             | Some n \<Rightarrow> do {
                 h \<leftarrow> upd_node n (\<lambda>a. a\<lparr>at_dyntmpl := True\<rparr>) h;
                 case rest' of None \<Rightarrow> Some (Some n, h) | Some rest' \<Rightarrow> create_rest le dict n rest' atmpl h
               }
           })"
  by pat_completeness auto
termination
  by (relation "measure (\<lambda>(le, dict, attr, rest, atmpl, h). length rest)") (auto dest!: split_dot_length [OF sym])

definition create_attr_path :: "bool \<Rightarrow> nat \<Rightarrow> nat \<Rightarrow> string \<Rightarrow> nat \<Rightarrow> attr_template \<Rightarrow> 'x attr_heap \<Rightarrow> (nat option \<times> 'x attr_heap) option" where
  "create_attr_path le dict dir path pathlen atmpl h = do {
     (endp, attr) \<leftarrow> find_prefix le h dict dir path pathlen;
     if endp = Some pathlen then Some (Some attr, h)
     else create_rest le dict attr (take (pathlen - (case endp of Some i \<Rightarrow> Suc i | None \<Rightarrow> 0)) (drop (case endp of Some i \<Rightarrow> Suc i | None \<Rightarrow> 0) path)) atmpl h
   }"

end
