(* ===== verification/Attr_Set.thy ===== *)
theory Attr_Set
  imports Attr_Tree
begin

section \<open>Dictionaries, values and the interface of attributes (src/kdumpfile/attr.c)\<close>

text \<open>
  Cloning, the life cycle of dictionaries, and the functions that set and get values, up to those of the interface of the library.
\<close>

subsection \<open>Global attributes\<close>

text \<open>
  The lines of global-attr.def and static-attr.def: directory, key, field, type and operations. The static attributes are those behind
  the first \<open>GKI_static_first\<close>.
\<close>

definition global_attr_defs :: "(string \<times> string \<times> string \<times> attr_type \<times> string) list" where
  "global_attr_defs = [
    (''root'', [], ''dir_root'', KDUMP_DIRECTORY, []),
    (''root'', ''arch'', ''dir_arch'', KDUMP_DIRECTORY, []),
    (''root'', ''cache'', ''dir_cache'', KDUMP_DIRECTORY, []),
    (''root'', ''cpu'', ''dir_cpu'', KDUMP_DIRECTORY, []),
    (''root'', ''file'', ''dir_file'', KDUMP_DIRECTORY, []),
    (''root'', ''memory'', ''dir_memory'', KDUMP_DIRECTORY, []),
    (''arch'', ''pteval_size'', ''pteval_size'', KDUMP_NUMBER, []),
    (''root'', ''addrxlat'', ''dir_addrxlat'', KDUMP_DIRECTORY, []),
    (''addrxlat'', ''default'', ''dir_xlat_default'', KDUMP_DIRECTORY, []),
    (''addrxlat'', ''force'', ''dir_xlat_force'', KDUMP_DIRECTORY, []),
    (''addrxlat'', ''ostype'', ''ostype'', KDUMP_STRING, ''ostype_ops''),
    (''cache'', ''size'', ''cache_size'', KDUMP_NUMBER, ''cache_size_ops''),
    (''cache'', ''hits'', ''cache_hits'', KDUMP_NUMBER, []),
    (''cache'', ''misses'', ''cache_misses'', KDUMP_NUMBER, []),
    (''file'', ''format'', ''file_format'', KDUMP_STRING, []),
    (''file'', ''description'', ''file_description'', KDUMP_STRING, []),
    (''file'', ''mmap_cache'', ''dir_file_mmap_cache'', KDUMP_DIRECTORY, []),
    (''file_mmap_cache'', ''hits'', ''mmap_cache_hits'', KDUMP_NUMBER, []),
    (''file_mmap_cache'', ''misses'', ''mmap_cache_misses'', KDUMP_NUMBER, []),
    (''file'', ''read_cache'', ''dir_file_read_cache'', KDUMP_DIRECTORY, []),
    (''file_read_cache'', ''hits'', ''read_cache_hits'', KDUMP_NUMBER, []),
    (''file_read_cache'', ''misses'', ''read_cache_misses'', KDUMP_NUMBER, []),
    (''file'', ''set'', ''dir_file_set'', KDUMP_DIRECTORY, []),
    (''file'', ''fd'', ''file_fd'', KDUMP_NUMBER, ''file_fd_ops''),
    (''file'', ''mmap_policy'', ''file_mmap_policy'', KDUMP_NUMBER, []),
    (''file'', ''eraseinfo'', ''dir_file_eraseinfo'', KDUMP_DIRECTORY, []),
    (''file_eraseinfo'', ''raw'', ''file_eraseinfo_raw'', KDUMP_BLOB, []),
    (''root'', ''linux'', ''dir_linux'', KDUMP_DIRECTORY, []),
    (''linux'', ''version_code'', ''linux_version_code'', KDUMP_NUMBER, ''linux_version_code_ops''),
    (''linux'', ''task_struct'', ''linux_task_struct'', KDUMP_BLOB, []),
    (''linux'', ''uts'', ''dir_linux_uts'', KDUMP_DIRECTORY, []),
    (''linux_uts'', ''sysname'', ''linux_uts_sysname'', KDUMP_STRING, []),
    (''linux_uts'', ''nodename'', ''linux_uts_nodename'', KDUMP_STRING, []),
    (''linux_uts'', ''release'', ''linux_uts_release'', KDUMP_STRING, ''linux_ver_ops''),
    (''linux_uts'', ''version'', ''linux_uts_version'', KDUMP_STRING, []),
    (''linux_uts'', ''machine'', ''linux_uts_machine'', KDUMP_STRING, ''uts_machine_ops''),
    (''linux_uts'', ''domainname'', ''linux_uts_domainname'', KDUMP_STRING, []),
    (''linux'', ''vmcoreinfo'', ''dir_linux_vmcoreinfo'', KDUMP_DIRECTORY, []),
    (''linux_vmcoreinfo'', ''lines'', ''linux_vmcoreinfo_lines'', KDUMP_DIRECTORY, []),
    (''linux_vmcoreinfo'', ''raw'', ''linux_vmcoreinfo_raw'', KDUMP_BLOB, ''vmcoreinfo_raw_ops''),
    (''linux_vmcoreinfo'', ''LENGTH'', ''linux_length'', KDUMP_DIRECTORY, []),
    (''linux_vmcoreinfo'', ''NUMBER'', ''linux_number'', KDUMP_DIRECTORY, []),
    (''linux_vmcoreinfo'', ''OFFSET'', ''linux_offset'', KDUMP_DIRECTORY, []),
    (''linux_vmcoreinfo'', ''SIZE'', ''linux_size'', KDUMP_DIRECTORY, []),
    (''linux_vmcoreinfo'', ''SYMBOL'', ''linux_symbol'', KDUMP_DIRECTORY, []),
    (''memory'', ''pagemap'', ''memory_pagemap'', KDUMP_BITMAP, []),
    (''root'', ''xen'', ''dir_xen'', KDUMP_DIRECTORY, []),
    (''xen'', ''p2m_mfn'', ''xen_p2m_mfn'', KDUMP_ADDRESS, ''dirty_xlat_ops''),
    (''xen'', ''phys_start'', ''xen_phys_start'', KDUMP_ADDRESS, ''xen_dirty_xlat_ops''),
    (''xen'', ''version'', ''dir_xen_version'', KDUMP_DIRECTORY, []),
    (''xen_version'', ''major'', ''xen_ver_major'', KDUMP_NUMBER, ''xen_ver_ops''),
    (''xen_version'', ''minor'', ''xen_ver_minor'', KDUMP_NUMBER, ''xen_ver_ops''),
    (''xen_version'', ''extra'', ''xen_ver_extra'', KDUMP_STRING, []),
    (''xen_version'', ''extra_addr'', ''xen_ver_extra_addr'', KDUMP_ADDRESS, []),
    (''xen'', ''version_code'', ''xen_version_code'', KDUMP_NUMBER, ''xen_version_code_ops''),
    (''xen'', ''vmcoreinfo'', ''dir_xen_vmcoreinfo'', KDUMP_DIRECTORY, []),
    (''xen_vmcoreinfo'', ''lines'', ''xen_vmcoreinfo_lines'', KDUMP_DIRECTORY, []),
    (''xen_vmcoreinfo'', ''raw'', ''xen_vmcoreinfo_raw'', KDUMP_BLOB, ''vmcoreinfo_raw_ops''),
    (''xen_vmcoreinfo'', ''LENGTH'', ''xen_length'', KDUMP_DIRECTORY, []),
    (''xen_vmcoreinfo'', ''NUMBER'', ''xen_number'', KDUMP_DIRECTORY, []),
    (''xen_vmcoreinfo'', ''OFFSET'', ''xen_offset'', KDUMP_DIRECTORY, []),
    (''xen_vmcoreinfo'', ''SIZE'', ''xen_size'', KDUMP_DIRECTORY, []),
    (''xen_vmcoreinfo'', ''SYMBOL'', ''xen_symbol'', KDUMP_DIRECTORY, [])]"

definition static_attr_defs :: "(string \<times> string \<times> string \<times> attr_type \<times> string) list" where
  "static_attr_defs = [
    (''root'', ''max_pfn'', ''max_pfn'', KDUMP_NUMBER, []),
    (''arch'', ''name'', ''arch_name'', KDUMP_STRING, ''arch_name_ops''),
    (''arch'', ''machine'', ''arch_machine'', KDUMP_NUMBER, []),
    (''arch'', ''byte_order'', ''byte_order'', KDUMP_NUMBER, []),
    (''arch'', ''ptr_size'', ''ptr_size'', KDUMP_NUMBER, []),
    (''arch'', ''page_size'', ''page_size'', KDUMP_NUMBER, ''page_size_ops''),
    (''arch'', ''page_shift'', ''page_shift'', KDUMP_NUMBER, ''page_shift_ops''),
    (''cpu'', ''number'', ''num_cpus'', KDUMP_NUMBER, []),
    (''cpu'', ''qemu_number'', ''num_qemu_cpus'', KDUMP_NUMBER, []),
    (''file_set'', ''number'', ''num_files'', KDUMP_NUMBER, ''num_files_ops''),
    (''file'', ''pagemap'', ''file_pagemap'', KDUMP_BITMAP, []),
    (''file'', ''zero_excluded'', ''zero_excluded'', KDUMP_NUMBER, []),
    (''linux'', ''phys_base'', ''phys_base'', KDUMP_ADDRESS, ''linux_dirty_xlat_ops''),
    (''xen'', ''type'', ''xen_type'', KDUMP_NUMBER, ''dirty_xlat_ops''),
    (''xen'', ''xlat'', ''xen_xlat'', KDUMP_NUMBER, ''dirty_xlat_ops'')]"

definition attr_defs :: "(string \<times> string \<times> string \<times> attr_type \<times> string) list" where
  "attr_defs = global_attr_defs @ static_attr_defs"

definition GKI_static_first :: nat where
  "GKI_static_first = length global_attr_defs"

definition NR_GLOBAL_ATTRS :: nat where
  "NR_GLOBAL_ATTRS = length attr_defs"

definition GKI :: "string \<Rightarrow> nat" where
  "GKI field = length (takeWhile (\<lambda>(dir, key, f, ty, ops). f \<noteq> field) attr_defs)"

text \<open>The template of a global attribute; the operations are at the address that the argument gives to their name.\<close>

definition global_key :: "(string \<Rightarrow> nat option) \<Rightarrow> nat \<Rightarrow> attr_template" where
  "global_key ops i =
     (case attr_defs ! i of
        (dir, key, field, ty, op) \<Rightarrow>
          \<lparr>t_key = key, t_link = Parent_Key (GKI (''dir_'' @ dir)), t_type = ty, t_override = False, t_ops = ops op\<rparr>)"

text \<open>A heap in which the global templates are at the addresses of their indices.\<close>

definition global_keys :: "(string \<Rightarrow> nat option) \<Rightarrow> 'x attr_heap \<Rightarrow> bool" where
  "global_keys ops h \<longleftrightarrow> (\<forall>i<NR_GLOBAL_ATTRS. h_tmpls h i = Some (global_key ops i))"

subsection \<open>Cloning\<close>

text \<open>The second result is false if memory runs out, or if the type cannot be copied.\<close>

definition copy_data :: "nat \<Rightarrow> nat \<Rightarrow> 'x attr_heap \<Rightarrow> (bool \<times> 'x attr_heap) option" where
  "copy_data dest src h = do {
     s \<leftarrow> h_nodes h src;
     t \<leftarrow> tmpl_of h src;
     h \<leftarrow> upd_node dest (\<lambda>a. a\<lparr>at_flags := (at_flags a)\<lparr>isset := True, persist := persist (at_flags s)\<rparr>\<rparr>) h;
     case t_type t of
       KDUMP_DIRECTORY \<Rightarrow> Some (True, h)
     | KDUMP_NUMBER \<Rightarrow> do { h \<leftarrow> upd_node dest (\<lambda>a. a\<lparr>at_val := attr_value h s\<rparr>) h; Some (True, h) }
     | KDUMP_ADDRESS \<Rightarrow> do { h \<leftarrow> upd_node dest (\<lambda>a. a\<lparr>at_val := attr_value h s\<rparr>) h; Some (True, h) }
     | KDUMP_STRING \<Rightarrow>
         (case alloc h of
            (None, h) \<Rightarrow> do { h \<leftarrow> upd_node dest (\<lambda>a. a\<lparr>at_val := Zero_Val\<rparr>) h; Some (False, h) }
          | (Some _, h) \<Rightarrow> do {
              h \<leftarrow> upd_node dest (\<lambda>a. a\<lparr>at_val := attr_value h s, at_flags := (at_flags a)\<lparr>dynstr := True\<rparr>\<rparr>) h;
              Some (True, h)
            })
     | _ \<Rightarrow> Some (False, h)
   }"

definition clone_attr :: "bool \<Rightarrow> nat \<Rightarrow> nat \<Rightarrow> nat \<Rightarrow> 'x attr_heap \<Rightarrow> (nat option \<times> 'x attr_heap) option" where
  "clone_attr le dict dir orig h = do {
     ao \<leftarrow> h_nodes h orig;
     (r, h) \<leftarrow> new_attr le dict (Some dir) (at_template ao) h;
     case r of
       None \<Rightarrow> Some (None, h)
     | Some n \<Rightarrow> do {
         ao \<leftarrow> h_nodes h orig;
         (ok, h) \<leftarrow> (if attr_isset ao then copy_data n orig h else Some (True, h));
         if \<not> ok then Some (None, h)
         else do {
           a \<leftarrow> h_nodes h n;
           h \<leftarrow> (if at_template a < NR_GLOBAL_ATTRS
                then upd_dict dict (\<lambda>D. D\<lparr>d_global := (d_global D)(at_template a \<mapsto> n)\<rparr>) h
                else Some h);
           Some (Some n, h)
         }
       }
   }"

text \<open>\<open>orig\<close> is the first of the children that are still to be cloned.\<close>

partial_function (option) clone_children :: "bool \<Rightarrow> nat \<Rightarrow> nat \<Rightarrow> nat option \<Rightarrow> 'x attr_heap \<Rightarrow> (bool \<times> 'x attr_heap) option" where
  "clone_children le dict dir orig h =
     (case orig of
        None \<Rightarrow> Some (True, h)
      | Some n \<Rightarrow> do {
          (r, h) \<leftarrow> clone_attr le dict dir n h;
          case r of
            None \<Rightarrow> Some (False, h)
          | Some new \<Rightarrow> do {
              t \<leftarrow> tmpl_of h n;
              a \<leftarrow> h_nodes h n;
              (ok, h) \<leftarrow> (if t_type t = KDUMP_DIRECTORY then clone_children le dict new (at_dir a) h else Some (True, h));
              if \<not> ok then Some (False, h)
              else do { a \<leftarrow> h_nodes h n; clone_children le dict dir (at_next a) h }
            }
        })"

definition clone_subtree :: "bool \<Rightarrow> nat \<Rightarrow> nat \<Rightarrow> nat \<Rightarrow> 'x attr_heap \<Rightarrow> (bool \<times> 'x attr_heap) option" where
  "clone_subtree le dict dir orig h = do { ao \<leftarrow> h_nodes h orig; clone_children le dict dir (at_dir ao) h }"

text \<open>The path has a dot in front, which keeps the lookups from the fallback. The positions are relative to the path without the dot.\<close>

function clone_prefix :: "bool \<Rightarrow> 'x attr_heap \<Rightarrow> nat \<Rightarrow> string \<Rightarrow> nat \<Rightarrow> (nat option \<times> nat) option" where
  "clone_prefix le h dict path n = do {
     r \<leftarrow> lookup_attr_part le h dict (CHR ''.'' # path) (Suc n);
     case r of
       Some attr \<Rightarrow> Some (Some n, attr)
     | None \<Rightarrow>
         (case memrchr_dot path n of
            Some i \<Rightarrow> clone_prefix le h dict path i
          | None \<Rightarrow> do { root \<leftarrow> dgattr h dict GKI_dir_root; Some (None, root) })
   }"
  by auto
termination
  by (relation "measure (\<lambda>(le, h, dict, path, n). n)") (auto dest!: memrchr_dot_less [OF sym] memrchr_dot_less)

lemma split_dot_less: "split_dot (drop start path) = (key, Some r) \<Longrightarrow> start < length path"
  using split_dot_length [of "drop start path" key r] by simp

text \<open>The part of the path behind position \<open>start\<close> is cloned; the results are whether all went well, the last attribute and the last original.\<close>

function clone_rest :: "bool \<Rightarrow> nat \<Rightarrow> string \<Rightarrow> nat \<Rightarrow> nat \<Rightarrow> nat \<Rightarrow> 'x attr_heap \<Rightarrow> (bool \<times> nat \<times> nat \<times> 'x attr_heap) option" where
  "clone_rest le dict path start attr orig h =
     (let (key, rest) = split_dot (drop start path); endp = start + length key
      in do {
           r \<leftarrow> (if rest \<noteq> None then lookup_attr_part le h dict path endp else lookup_attr le h dict (Some path));
           orig \<leftarrow> r;
           (new, h) \<leftarrow> clone_attr le dict attr orig h;
           case new of
             None \<Rightarrow> Some (False, attr, orig, h)
           | Some n \<Rightarrow> if rest = None then Some (True, n, orig, h) else clone_rest le dict path (Suc endp) n orig h
         })"
  by pat_completeness auto
termination
  by (relation "measure (\<lambda>(le, dict, path, start, attr, orig, h). length path - start)") (auto dest!: split_dot_less [OF sym])

partial_function (option) undo_clone :: "nat \<Rightarrow> nat \<Rightarrow> 'x attr_heap \<Rightarrow> 'x attr_heap option" where
  "undo_clone base attr h =
     (if attr = base then Some h
      else do {
        a \<leftarrow> h_nodes h attr;
        h \<leftarrow> dealloc_attr attr h;
        p \<leftarrow> at_parent a;
        undo_clone base p h
      })"

definition clone_attr_path :: "bool \<Rightarrow> nat \<Rightarrow> nat \<Rightarrow> 'x attr_heap \<Rightarrow> (nat option \<times> 'x attr_heap) option" where
  "clone_attr_path le dict orig h = do {
     path \<leftarrow> make_attr_path h orig;
     (endp, base) \<leftarrow> clone_prefix le h dict path (length path);
     (ok, attr, orig, h) \<leftarrow>
       (if endp = Some (length path) then Some (True, base, orig, h)
        else clone_rest le dict path (case endp of Some i \<Rightarrow> Suc i | None \<Rightarrow> 0) base orig h);
     t \<leftarrow> tmpl_of h orig;
     (ok, h) \<leftarrow> (if ok \<and> t_type t = KDUMP_DIRECTORY then clone_subtree le dict attr orig h else Some (ok, h));
     if ok then Some (Some attr, h)
     else do { h \<leftarrow> undo_clone base attr h; Some (None, h) }
   }"

subsection \<open>Dictionaries\<close>

definition attr_dict_incref :: "nat \<Rightarrow> 'x attr_heap \<Rightarrow> 'x attr_heap option" where
  "attr_dict_incref dict h = upd_dict dict (\<lambda>D. D\<lparr>d_refcnt := d_refcnt D + 1\<rparr>) h"

text \<open>The last reference frees the dictionary and drops its references; the clean-up of the architecture and the format is a hook.\<close>

partial_function (option) attr_dict_decref :: "'x attr_hooks \<Rightarrow> nat \<Rightarrow> 'x attr_heap \<Rightarrow> (u64 \<times> 'x attr_heap) option" where
  "attr_dict_decref H dict h = do {
     h \<leftarrow> upd_dict dict (\<lambda>D. D\<lparr>d_refcnt := d_refcnt D - 1\<rparr>) h;
     D \<leftarrow> dict_of h dict;
     if d_refcnt D \<noteq> 0 then Some (d_refcnt D, h)
     else do {
       h \<leftarrow> run_attr_cleanup H dict h;
       root \<leftarrow> dgattr h dict GKI_dir_root;
       h \<leftarrow> dealloc_attr root h;
       h \<leftarrow> (case d_fallback D of Some f \<Rightarrow> do { (_, h) \<leftarrow> attr_dict_decref H f h; Some h } | None \<Rightarrow> Some h);
       let h = h\<lparr>h_shared := h_shared h - 1\<rparr>;
       h \<leftarrow> upd_dict dict (\<lambda>D. D\<lparr>d_live := False\<rparr>) h;
       Some (0, h)
     }
   }"

definition empty_dict :: attr_dict where
  "empty_dict = \<lparr>d_refcnt = 1, d_table = (\<lambda>_. []), d_fallback = None, d_global = (\<lambda>_. None), d_live = True\<rparr>"

fun new_globals :: "bool \<Rightarrow> nat \<Rightarrow> nat list \<Rightarrow> 'x attr_heap \<Rightarrow> (bool \<times> 'x attr_heap) option" where
  "new_globals le dict [] h = Some (True, h)"
| "new_globals le dict (i # is) h = do {
     t \<leftarrow> h_tmpls h i;
     D \<leftarrow> dict_of h dict;
     let parent = (case t_link t of Parent_Key k \<Rightarrow> d_global D k | _ \<Rightarrow> None);
     (r, h) \<leftarrow> new_attr le dict parent i h;
     case r of
       None \<Rightarrow> Some (False, h)
     | Some n \<Rightarrow> do {
         h \<leftarrow> upd_dict dict (\<lambda>D. D\<lparr>d_global := (d_global D)(i \<mapsto> n)\<rparr>) h;
         h \<leftarrow> (if GKI_static_first \<le> i
              then upd_node n (\<lambda>a. a\<lparr>at_flags := (at_flags a)\<lparr>indirect := True\<rparr>, at_pval := i - GKI_static_first\<rparr>) h
              else Some h);
         new_globals le dict is h
       }
   }"

definition attr_dict_new :: "bool \<Rightarrow> 'x attr_heap \<Rightarrow> (nat option \<times> 'x attr_heap) option" where
  "attr_dict_new le h =
     (case alloc h of
        (None, h) \<Rightarrow> Some (None, h)
      | (Some dict, h) \<Rightarrow> do {
          (ok, h) \<leftarrow> new_globals le dict [0..<NR_GLOBAL_ATTRS] (h\<lparr>h_dicts := (h_dicts h)(dict \<mapsto> empty_dict)\<rparr>);
          Some (if ok then (Some dict, h\<lparr>h_shared := h_shared h + 1\<rparr>) else (None, h))
        })"

definition attr_dict_clone :: "bool \<Rightarrow> nat \<Rightarrow> 'x attr_heap \<Rightarrow> (nat option \<times> 'x attr_heap) option" where
  "attr_dict_clone le orig h =
     (case alloc h of
        (None, h) \<Rightarrow> Some (None, h)
      | (Some dict, h) \<Rightarrow> do {
          OD \<leftarrow> dict_of h orig;
          (r, h) \<leftarrow> new_attr le dict None GKI_dir_root (h\<lparr>h_dicts := (h_dicts h)(dict \<mapsto> empty_dict\<lparr>d_global := d_global OD\<rparr>)\<rparr>);
          case r of
            None \<Rightarrow> Some (None, h\<lparr>h_dicts := (h_dicts h)(dict := None)\<rparr>)
          | Some rootdir \<Rightarrow> do {
              h \<leftarrow> upd_dict dict (\<lambda>D. D\<lparr>d_global := (d_global D)(GKI_dir_root \<mapsto> rootdir), d_fallback := Some orig\<rparr>) h;
              h \<leftarrow> attr_dict_incref orig h;
              Some (Some dict, h\<lparr>h_shared := h_shared h + 1\<rparr>)
            }
        })"

end
