(* ===== verification/Attr_Api.thy ===== *)
theory Attr_Api
  imports Attr_Set
begin

section \<open>Values and the interface of attributes (src/kdumpfile/attr.c)\<close>

text \<open>
  Setting, getting and iterating, from \<open>set_attr\<close> to the functions of the library's interface. A value that is passed by address is given
  as itself or as the place of a static value, which the flag \<open>indirect\<close> needs.
\<close>

partial_function (option) instantiate_path :: "nat \<Rightarrow> 'x attr_heap \<Rightarrow> 'x attr_heap option" where
  "instantiate_path n h = do {
     a \<leftarrow> h_nodes h n;
     if attr_isset a then Some h
     else do {
       h \<leftarrow> upd_node n (\<lambda>a. a\<lparr>at_flags := (at_flags a)\<lparr>isset := True\<rparr>\<rparr>) h;
       case at_parent a of None \<Rightarrow> Some h | Some p \<Rightarrow> instantiate_path p h
     }
   }"

text \<open>A value of another type than the template would be read as a wrong member of the union.\<close>

fun same_value :: "attr_type \<Rightarrow> attr_val \<Rightarrow> attr_val \<Rightarrow> bool option" where
  "same_value KDUMP_DIRECTORY _ _ = Some True"
| "same_value KDUMP_NUMBER (Number m) (Number n) = Some (m = n)"
| "same_value KDUMP_ADDRESS (Address m) (Address n) = Some (m = n)"
| "same_value KDUMP_STRING (Str s) (Str t) = Some (s = t)"
| "same_value KDUMP_BITMAP (Bitmap a) (Bitmap b) = Some (a = b)"
| "same_value KDUMP_BLOB (Blob a) (Blob b) = Some (a = b)"
| "same_value KDUMP_NIL _ _ = Some False"
| "same_value _ _ _ = None"

definition attr_has_value :: "nat \<Rightarrow> attr_val \<Rightarrow> 'x attr_heap \<Rightarrow> bool option" where
  "attr_has_value n newval h = do {
     a \<leftarrow> h_nodes h n;
     t \<leftarrow> tmpl_of h n;
     if \<not> attr_isset a then Some False else same_value (t_type t) (attr_value h a) newval
   }"

datatype val_arg = Here attr_val | At nat

fun arg_value :: "'x attr_heap \<Rightarrow> val_arg \<Rightarrow> attr_val" where
  "arg_value h (Here v) = v"
| "arg_value h (At l) = h_static h l"

text \<open>The hook may change the value behind the pointer.\<close>

fun put_arg :: "val_arg \<Rightarrow> attr_val \<Rightarrow> 'x attr_heap \<Rightarrow> val_arg \<times> 'x attr_heap" where
  "put_arg (Here _) v h = (Here v, h)"
| "put_arg (At l) v h = (At l, h\<lparr>h_static := (h_static h)(l := v)\<rparr>)"

text \<open>The part between the hooks: the attribute gets its flags, and its value unless it is a directory.\<close>

definition store_value :: "nat \<Rightarrow> attr_flags \<Rightarrow> val_arg \<Rightarrow> 'x attr_heap \<Rightarrow> 'x attr_heap option" where
  "store_value n flags pval h = do {
     t \<leftarrow> tmpl_of h n;
     if t_type t = KDUMP_DIRECTORY
     then upd_node n (\<lambda>a. a\<lparr>at_flags := flags\<lparr>isset := True\<rparr>\<rparr>) h
     else do {
       h \<leftarrow> discard_attr_value n h;
       a \<leftarrow> h_nodes h n;
       if indirect flags
       then (case pval of
               At l \<Rightarrow> upd_node n (\<lambda>a. a\<lparr>at_pval := l, at_flags := flags\<lparr>isset := True\<rparr>\<rparr>) h
             | Here _ \<Rightarrow> None)
       else if indirect (at_flags a)
       then upd_node n (\<lambda>a. a\<lparr>at_flags := flags\<lparr>indirect := True, isset := True\<rparr>\<rparr>)
              (h\<lparr>h_static := (h_static h)(at_pval a := arg_value h pval)\<rparr>)
       else upd_node n (\<lambda>a. a\<lparr>at_val := arg_value h pval, at_flags := flags\<lparr>isset := True\<rparr>\<rparr>) h
     }
   }"

definition set_attr :: "'x attr_hooks \<Rightarrow> nat \<Rightarrow> attr_flags \<Rightarrow> val_arg \<Rightarrow> 'x attr_heap \<Rightarrow> (kstatus \<times> 'x attr_heap) option" where
  "set_attr H n flags pval h = do {
     skiphooks \<leftarrow> attr_has_value n (arg_value h pval) h;
     t \<leftarrow> tmpl_of h n;
     (res, v, h) \<leftarrow>
       (case (skiphooks, hook_of pre_set h t) of
          (False, Some f) \<Rightarrow> run_pre_set H f n (arg_value h pval) h
        | _ \<Rightarrow> Some (KDUMP_OK, arg_value h pval, h));
     let (pval, h) = put_arg pval v h;
     if res \<noteq> KDUMP_OK then do {
       t \<leftarrow> tmpl_of h n;
       h \<leftarrow> discard_value v (t_type t) (flags\<lparr>indirect := False\<rparr>) h;
       Some (res, h)
     } else do {
       a \<leftarrow> h_nodes h n;
       p \<leftarrow> at_parent a;
       h \<leftarrow> instantiate_path p h;
       h \<leftarrow> store_value n flags pval h;
       t \<leftarrow> tmpl_of h n;
       (case (skiphooks, hook_of post_set h t) of
          (False, Some f) \<Rightarrow> run_post_set H f n h
        | _ \<Rightarrow> Some (KDUMP_OK, h))
     }
   }"

definition set_attr_number :: "'x attr_hooks \<Rightarrow> nat \<Rightarrow> attr_flags \<Rightarrow> u64 \<Rightarrow> 'x attr_heap \<Rightarrow> (kstatus \<times> 'x attr_heap) option" where
  "set_attr_number H n flags num h = set_attr H n flags (Here (Number num)) h"

definition set_attr_address :: "'x attr_hooks \<Rightarrow> nat \<Rightarrow> attr_flags \<Rightarrow> u64 \<Rightarrow> 'x attr_heap \<Rightarrow> (kstatus \<times> 'x attr_heap) option" where
  "set_attr_address H n flags addr h = set_attr H n flags (Here (Address addr)) h"

definition set_attr_string :: "'x attr_hooks \<Rightarrow> nat \<Rightarrow> attr_flags \<Rightarrow> string \<Rightarrow> 'x attr_heap \<Rightarrow> (kstatus \<times> 'x attr_heap) option" where
  "set_attr_string H n flags str h =
     (case alloc h of
        (None, h) \<Rightarrow> Some (KDUMP_ERR_SYSTEM, h)
      | (Some _, h) \<Rightarrow> set_attr H n (flags\<lparr>dynstr := True\<rparr>) (Here (Str str)) h)"

text \<open>The copy ends at the first null character, as every string does.\<close>

definition set_attr_sized_string :: "'x attr_hooks \<Rightarrow> nat \<Rightarrow> attr_flags \<Rightarrow> string \<Rightarrow> nat \<Rightarrow> 'x attr_heap \<Rightarrow> (kstatus \<times> 'x attr_heap) option" where
  "set_attr_sized_string H n flags str len h =
     (case alloc h of
        (None, h) \<Rightarrow> Some (KDUMP_ERR_SYSTEM, h)
      | (Some _, h) \<Rightarrow> set_attr H n (flags\<lparr>dynstr := True\<rparr>) (Here (Str (c_string (take len str)))) h)"

definition set_attr_static_string :: "'x attr_hooks \<Rightarrow> nat \<Rightarrow> attr_flags \<Rightarrow> string \<Rightarrow> 'x attr_heap \<Rightarrow> (kstatus \<times> 'x attr_heap) option" where
  "set_attr_static_string H n flags str h = set_attr H n flags (Here (Str str)) h"

subsection \<open>Overrides\<close>

text \<open>An override is the address of its template and that of its operations.\<close>

definition attr_add_override :: "nat \<Rightarrow> nat \<Rightarrow> nat \<Rightarrow> 'x attr_heap \<Rightarrow> 'x attr_heap option" where
  "attr_add_override n ot oo h = do {
     a \<leftarrow> h_nodes h n;
     t \<leftarrow> tmpl_of h n;
     let no_ops = \<lparr>pre_set = None, post_set = None, pre_clear = None, revalidate = None\<rparr>;
     let h = h\<lparr>h_ops := (h_ops h)(oo := (case t_ops t of Some ops \<Rightarrow> h_ops h ops | None \<Rightarrow> no_ops)),
               h_tmpls := (h_tmpls h)(ot \<mapsto> \<lparr>t_key = t_key t, t_link = Parent (at_template a), t_type = t_type t,
                                               t_override = True, t_ops = Some oo\<rparr>)\<rparr>;
     upd_node n (\<lambda>a. a\<lparr>at_template := ot\<rparr>) h
   }"

text \<open>Returns the template that the link in front of the override is to be set to; \<open>prev\<close> is the template with that link.\<close>

partial_function (option) unlink_override :: "nat \<Rightarrow> nat \<Rightarrow> nat \<Rightarrow> 'x attr_heap \<Rightarrow> 'x attr_heap option" where
  "unlink_override prev cur ot h = do {
     t \<leftarrow> h_tmpls h cur;
     if cur = ot then do {
       p \<leftarrow> h_tmpls h prev;
       Some (h\<lparr>h_tmpls := (h_tmpls h)(prev \<mapsto> p\<lparr>t_link := t_link t\<rparr>)\<rparr>)
     } else if t_override t then (case t_link t of Parent q \<Rightarrow> unlink_override cur q ot h | _ \<Rightarrow> None)
     else Some h
   }"

definition attr_remove_override :: "nat \<Rightarrow> nat \<Rightarrow> 'x attr_heap \<Rightarrow> 'x attr_heap option" where
  "attr_remove_override n ot h = do {
     a \<leftarrow> h_nodes h n;
     t \<leftarrow> h_tmpls h (at_template a);
     if at_template a = ot
     then (case t_link t of Parent q \<Rightarrow> upd_node n (\<lambda>a. a\<lparr>at_template := q\<rparr>) h | _ \<Rightarrow> None)
     else if t_override t then (case t_link t of Parent q \<Rightarrow> unlink_override (at_template a) q ot h | _ \<Rightarrow> None)
     else Some h
   }"

subsection \<open>Getting\<close>

definition attr_revalidate :: "'x attr_hooks \<Rightarrow> nat \<Rightarrow> 'x attr_heap \<Rightarrow> (kstatus \<times> 'x attr_heap) option" where
  "attr_revalidate H n h = do {
     a \<leftarrow> h_nodes h n;
     if invalid (at_flags a)
     then do { t \<leftarrow> tmpl_of h n; f \<leftarrow> hook_of revalidate h t; run_revalidate H f n h }
     else Some (KDUMP_OK, h)
   }"

definition get_attr_data :: "'x attr_hooks \<Rightarrow> nat \<Rightarrow> 'x attr_heap \<Rightarrow> (kstatus \<times> attr_val option \<times> 'x attr_heap) option" where
  "get_attr_data H n h = do {
     a \<leftarrow> h_nodes h n;
     if \<not> attr_isset a then Some (KDUMP_ERR_NODATA, None, h)
     else do {
       (ret, h) \<leftarrow> attr_revalidate H n h;
       if ret \<noteq> KDUMP_OK then Some (ret, None, h)
       else do { a \<leftarrow> h_nodes h n; Some (KDUMP_OK, Some (attr_value h a), h) }
     }
   }"

type_synonym kdump_attr = "attr_type \<times> attr_val"

definition kdump_get_attr ::
  "'x attr_hooks \<Rightarrow> bool \<Rightarrow> nat \<Rightarrow> string option \<Rightarrow> 'x attr_heap \<Rightarrow> (kstatus \<times> attr_type option \<times> attr_val option \<times> 'x attr_heap) option" where
  "kdump_get_attr H le dict key h = do {
     r \<leftarrow> lookup_attr le h dict key;
     case r of
       None \<Rightarrow> Some (KDUMP_ERR_NOKEY, None, None, h)
     | Some n \<Rightarrow> do {
         t \<leftarrow> tmpl_of h n;
         (ret, v, h) \<leftarrow> get_attr_data H n h;
         Some (ret, Some (t_type t), v, h)
       }
   }"

definition kdump_get_typed_attr ::
  "'x attr_hooks \<Rightarrow> bool \<Rightarrow> nat \<Rightarrow> string option \<Rightarrow> attr_type \<Rightarrow> 'x attr_heap \<Rightarrow> (kstatus \<times> attr_val option \<times> 'x attr_heap) option" where
  "kdump_get_typed_attr H le dict key type h = do {
     r \<leftarrow> lookup_attr le h dict key;
     case r of
       None \<Rightarrow> Some (KDUMP_ERR_NOKEY, None, h)
     | Some n \<Rightarrow> do {
         t \<leftarrow> tmpl_of h n;
         if t_type t \<noteq> type then Some (KDUMP_ERR_INVALID, None, h) else get_attr_data H n h
       }
   }"

subsection \<open>Setting\<close>

definition check_set_attr :: "'x attr_hooks \<Rightarrow> nat \<Rightarrow> kdump_attr \<Rightarrow> 'x attr_heap \<Rightarrow> (kstatus \<times> 'x attr_heap) option" where
  "check_set_attr H n valp h =
     (if fst valp = KDUMP_NIL then do { h \<leftarrow> clear_attr H n h; Some (KDUMP_OK, h) }
      else do {
        t \<leftarrow> tmpl_of h n;
        if fst valp \<noteq> t_type t
        then do { h \<leftarrow> discard_value (snd valp) (fst valp) ATTR_DEFAULT h; Some (KDUMP_ERR_INVALID, h) }
        else if fst valp = KDUMP_STRING
        then (case snd valp of Str s \<Rightarrow> set_attr_string H n ATTR_PERSIST s h | _ \<Rightarrow> None)
        else set_attr H n ATTR_PERSIST (Here (snd valp)) h
      })"

definition kdump_set_attr ::
  "'x attr_hooks \<Rightarrow> bool \<Rightarrow> nat \<Rightarrow> string option \<Rightarrow> kdump_attr \<Rightarrow> 'x attr_heap \<Rightarrow> (kstatus \<times> 'x attr_heap) option" where
  "kdump_set_attr H le dict key valp h = do {
     r \<leftarrow> lookup_attr le h dict key;
     case r of
       None \<Rightarrow> do { h \<leftarrow> discard_value (snd valp) (fst valp) ATTR_DEFAULT h; Some (KDUMP_ERR_NODATA, h) }
     | Some n \<Rightarrow> check_set_attr H n valp h
   }"

subsection \<open>References\<close>

definition kdump_attr_ref :: "bool \<Rightarrow> nat \<Rightarrow> string option \<Rightarrow> 'x attr_heap \<Rightarrow> (kstatus \<times> nat option) option" where
  "kdump_attr_ref le dict key h = do {
     r \<leftarrow> lookup_attr le h dict key;
     Some (case r of None \<Rightarrow> (KDUMP_ERR_NOKEY, None) | Some n \<Rightarrow> (KDUMP_OK, Some n))
   }"

definition kdump_sub_attr_ref :: "bool \<Rightarrow> nat \<Rightarrow> nat \<Rightarrow> string \<Rightarrow> 'x attr_heap \<Rightarrow> (kstatus \<times> nat option) option" where
  "kdump_sub_attr_ref le dict base subkey h = do {
     r \<leftarrow> lookup_dir_attr le h dict base subkey (length subkey);
     Some (case r of None \<Rightarrow> (KDUMP_ERR_NOKEY, None) | Some n \<Rightarrow> (KDUMP_OK, Some n))
   }"

definition kdump_attr_ref_type :: "nat \<Rightarrow> 'x attr_heap \<Rightarrow> attr_type option" where
  "kdump_attr_ref_type ref h = do { t \<leftarrow> tmpl_of h ref; Some (t_type t) }"

definition kdump_attr_ref_isset :: "nat \<Rightarrow> 'x attr_heap \<Rightarrow> bool option" where
  "kdump_attr_ref_isset ref h = do { a \<leftarrow> h_nodes h ref; Some (attr_isset a) }"

definition blob_ref :: "nat \<Rightarrow> 'x attr_heap \<Rightarrow> 'x attr_heap option" where
  "blob_ref b h = do { blob \<leftarrow> h_blobs h b; Some (h\<lparr>h_blobs := (h_blobs h)(b \<mapsto> snd (kdump_blob_incref blob))\<rparr>) }"

definition bmp_ref :: "nat \<Rightarrow> 'x attr_heap \<Rightarrow> 'x attr_heap option" where
  "bmp_ref b h = do { n \<leftarrow> h_bmps h b; Some (h\<lparr>h_bmps := (h_bmps h)(b \<mapsto> n + 1)\<rparr>) }"

definition hold_attr_data :: "kdump_attr \<Rightarrow> 'x attr_heap \<Rightarrow> (kstatus \<times> 'x attr_heap) option" where
  "hold_attr_data valp h =
     (case valp of
        (KDUMP_STRING, _) \<Rightarrow> (case alloc h of (r, h) \<Rightarrow> Some (if r = None then KDUMP_ERR_SYSTEM else KDUMP_OK, h))
      | (KDUMP_BITMAP, Bitmap b) \<Rightarrow> do { h \<leftarrow> bmp_ref b h; Some (KDUMP_OK, h) }
      | (KDUMP_BITMAP, _) \<Rightarrow> None
      | (KDUMP_BLOB, Blob b) \<Rightarrow> do { h \<leftarrow> blob_ref b h; Some (KDUMP_OK, h) }
      | (KDUMP_BLOB, _) \<Rightarrow> None
      | _ \<Rightarrow> Some (KDUMP_OK, h))"

definition kdump_attr_ref_get :: "'x attr_hooks \<Rightarrow> nat \<Rightarrow> 'x attr_heap \<Rightarrow> (kstatus \<times> kdump_attr \<times> 'x attr_heap) option" where
  "kdump_attr_ref_get H ref h = do {
     t \<leftarrow> tmpl_of h ref;
     (ret, v, h) \<leftarrow> get_attr_data H ref h;
     case v of
       None \<Rightarrow> Some (ret, (KDUMP_NIL, Zero_Val), h)
     | Some v \<Rightarrow> do {
         (ret, h) \<leftarrow> hold_attr_data (t_type t, v) h;
         Some (ret, (if ret \<noteq> KDUMP_OK then KDUMP_NIL else t_type t, v), h)
       }
   }"

definition kdump_attr_discard :: "kdump_attr \<Rightarrow> 'x attr_heap \<Rightarrow> 'x attr_heap option" where
  "kdump_attr_discard valp h = discard_value (snd valp) (fst valp) ATTR_DYNSTR h"

definition kdump_attr_ref_set :: "'x attr_hooks \<Rightarrow> nat \<Rightarrow> kdump_attr \<Rightarrow> 'x attr_heap \<Rightarrow> (kstatus \<times> 'x attr_heap) option" where
  "kdump_attr_ref_set H ref valp h = check_set_attr H ref valp h"

definition kdump_set_sub_attr ::
  "'x attr_hooks \<Rightarrow> bool \<Rightarrow> nat \<Rightarrow> nat \<Rightarrow> string \<Rightarrow> kdump_attr \<Rightarrow> 'x attr_heap \<Rightarrow> (kstatus \<times> 'x attr_heap) option" where
  "kdump_set_sub_attr H le dict base subkey valp h = do {
     r \<leftarrow> lookup_dir_attr le h dict base subkey (length subkey);
     case r of None \<Rightarrow> Some (KDUMP_ERR_NOKEY, h) | Some n \<Rightarrow> check_set_attr H n valp h
   }"

subsection \<open>Iteration\<close>

text \<open>The position of an iterator with its key.\<close>

partial_function (option) set_iter_pos :: "'x attr_heap \<Rightarrow> nat option \<Rightarrow> (nat \<times> string) option option" where
  "set_iter_pos h attr =
     (case attr of
        None \<Rightarrow> Some None
      | Some n \<Rightarrow> do {
          a \<leftarrow> h_nodes h n;
          if attr_isset a then do { k \<leftarrow> key_of h n; Some (Some (n, k)) } else set_iter_pos h (at_next a)
        })"

definition attr_iter_start :: "'x attr_heap \<Rightarrow> nat \<Rightarrow> (kstatus \<times> (nat \<times> string) option) option" where
  "attr_iter_start h attr = do {
     a \<leftarrow> h_nodes h attr;
     t \<leftarrow> tmpl_of h attr;
     if \<not> attr_isset a then Some (KDUMP_ERR_NODATA, None)
     else if t_type t \<noteq> KDUMP_DIRECTORY then Some (KDUMP_ERR_INVALID, None)
     else do { pos \<leftarrow> set_iter_pos h (at_dir a); Some (KDUMP_OK, pos) }
   }"

definition kdump_attr_iter_start :: "bool \<Rightarrow> nat \<Rightarrow> string option \<Rightarrow> 'x attr_heap \<Rightarrow> (kstatus \<times> (nat \<times> string) option) option" where
  "kdump_attr_iter_start le dict path h = do {
     r \<leftarrow> lookup_attr le h dict path;
     case r of Some d \<Rightarrow> attr_iter_start h d | None \<Rightarrow> Some (KDUMP_ERR_NOKEY, None)
   }"

definition kdump_attr_ref_iter_start :: "nat \<Rightarrow> 'x attr_heap \<Rightarrow> (kstatus \<times> (nat \<times> string) option) option" where
  "kdump_attr_ref_iter_start ref h = attr_iter_start h ref"

definition kdump_attr_iter_next :: "(nat \<times> string) option \<Rightarrow> 'x attr_heap \<Rightarrow> (kstatus \<times> (nat \<times> string) option) option" where
  "kdump_attr_iter_next iter h =
     (case iter of
        Some (d, _) \<Rightarrow> do { a \<leftarrow> h_nodes h d; pos \<leftarrow> set_iter_pos h (at_next a); Some (KDUMP_OK, pos) }
      | None \<Rightarrow> Some (KDUMP_ERR_INVALID, None))"

text \<open>\<open>osdir\<close> is the index of the directory of the operating system, if it is known.\<close>

definition ostype_attr :: "'x attr_hooks \<Rightarrow> bool \<Rightarrow> nat \<Rightarrow> nat option \<Rightarrow> string \<Rightarrow> 'x attr_heap \<Rightarrow> (kstatus \<times> nat option \<times> 'x attr_heap) option" where
  "ostype_attr H le dict osdir name h =
     (case osdir of
        None \<Rightarrow> Some (KDUMP_ERR_NODATA, None, h)
      | Some idx \<Rightarrow> do {
          d \<leftarrow> dgattr h dict idx;
          r \<leftarrow> lookup_dir_attr le h dict d name (length name);
          case r of
            None \<Rightarrow> Some (KDUMP_ERR_NODATA, None, h)
          | Some n \<Rightarrow> do {
              a \<leftarrow> h_nodes h n;
              if \<not> attr_isset a then Some (KDUMP_ERR_NODATA, None, h)
              else do {
                (status, h) \<leftarrow> attr_revalidate H n h;
                Some (if status \<noteq> KDUMP_OK then (status, None, h) else (KDUMP_OK, Some n, h))
              }
            }
        })"

end
