(* ===== verification/Attr_Facts.thy ===== *)
theory Attr_Facts
  imports Attr_Api Kdump_Util_Facts
begin

section \<open>Lookups in dictionaries of attributes\<close>

text \<open>
  The hash of an attribute depends on its path only, however the path is cut into pieces; so a lookup searches the list that holds the
  attribute. The specification of a dictionary is the tree: a path is a list of names, and \<open>up\<close> climbs from an attribute
  along such a list.
\<close>

declare keycmp.simps [simp del] find_prefix.simps [simp del] create_rest.simps [simp del] clone_prefix.simps [simp del] clone_rest.simps [simp del]

subsection \<open>Paths\<close>

fun join :: "string list \<Rightarrow> string" where
  "join [] = []"
| "join [k] = k"
| "join (k # ks) = k @ CHR ''.'' # join ks"

lemma join_Cons: "ks \<noteq> [] \<Longrightarrow> join (k # ks) = k @ CHR ''.'' # join ks"
  by (cases ks) simp_all

lemma join_snoc: "ks \<noteq> [] \<Longrightarrow> join (ks @ [k]) = join ks @ CHR ''.'' # k"
  by (induction ks rule: join.induct) simp_all

lemma join_append: "ks \<noteq> [] \<Longrightarrow> ls \<noteq> [] \<Longrightarrow> join (ks @ ls) = join ks @ CHR ''.'' # join ls"
  by (induction ks rule: join.induct) (simp_all add: join_Cons)

definition dotfree :: "string \<Rightarrow> bool" where
  "dotfree k \<longleftrightarrow> CHR ''.'' \<notin> set k"

text \<open>A path does not start with a dot.\<close>

definition path_ok :: "string list \<Rightarrow> bool" where
  "path_ok ks \<longleftrightarrow> ks \<noteq> [] \<and> (hd ks = [] \<longrightarrow> length ks = 1) \<and> list_all dotfree ks"

lemma path_ok_single [simp]: "path_ok [k] \<longleftrightarrow> dotfree k"
  by (simp add: path_ok_def)

lemma path_ok_butlast: "path_ok (ks @ [k]) \<Longrightarrow> ks \<noteq> [] \<Longrightarrow> path_ok ks \<and> join ks \<noteq> [] \<and> dotfree k"
  by (cases ks) (auto simp: path_ok_def join_Cons, cases "tl ks", auto simp: join_Cons)

lemma path_ok_hd:
  assumes "path_ok ks" and "join ks \<noteq> []"
  shows "hd (join ks) \<noteq> CHR ''.''"
proof -
  obtain k ls where ks: "ks = k # ls" "dotfree k" "k = [] \<longrightarrow> ls = []"
    using assms(1) by (cases ks) (auto simp: path_ok_def)
  then obtain t where "join ks = k @ t" "k \<noteq> []"
    using assms(2) by (cases "ls = []") (auto simp: join_Cons)
  moreover have "hd k \<noteq> CHR ''.''"
    using ks(2) \<open>k \<noteq> []\<close> by (cases k) (auto simp: dotfree_def)
  ultimately show ?thesis
    by simp
qed

lemma memrchr_dot_skip: "dotfree k \<Longrightarrow> n \<le> length k \<Longrightarrow> memrchr_dot (s @ k @ t) (length s + n) = memrchr_dot s (length s)"
proof (induction n)
  case 0
  have "memrchr_dot (s @ u) m = memrchr_dot s m" if "m \<le> length s" for u m
    using that by (induction m) (simp_all add: nth_append)
  then show ?case
    by simp
next
  case (Suc n)
  then have "k ! n \<in> set k"
    by simp
  then have "k ! n \<noteq> CHR ''.''"
    using Suc.prems(1) by (auto simp: dotfree_def)
  then show ?case
    using Suc by (simp add: nth_append)
qed

lemma memrchr_dot_join:
  assumes "dotfree k"
  shows "memrchr_dot (k @ t) (length k) = None" and "memrchr_dot (s @ CHR ''.'' # k @ t) (length s + 1 + length k) = Some (length s)"
proof -
  show "memrchr_dot (k @ t) (length k) = None"
    using memrchr_dot_skip [OF assms, of "length k" "[]" t] by simp
  show "memrchr_dot (s @ CHR ''.'' # k @ t) (length s + 1 + length k) = Some (length s)"
    using memrchr_dot_skip [OF assms, of "length k" "s @ [CHR ''.'']" t] by simp
qed

fun up :: "'x attr_heap \<Rightarrow> nat \<Rightarrow> string list \<Rightarrow> nat option" where
  "up h n [] = Some n"
| "up h n (k # ks) = do {
     a \<leftarrow> h_nodes h n;
     k' \<leftarrow> key_of h n;
     p \<leftarrow> at_parent a;
     if k' = k then up h p ks else None
   }"

lemma up_append: "up h n (ks @ ls) = do { m \<leftarrow> up h n ks; up h m ls }"
  by (induction ks arbitrary: n) (auto intro!: bind_cong_Some)

text \<open>The part of the path of a directory that is hashed, with a dot at its end.\<close>

inductive dir_prefix :: "'x attr_heap \<Rightarrow> nat \<Rightarrow> string \<Rightarrow> bool" for h where
  dir_root: "h_nodes h n = Some a \<Longrightarrow> at_parent a = None \<Longrightarrow> dir_prefix h n []"
| dir_child: "dir_prefix h p s \<Longrightarrow> h_nodes h n = Some a \<Longrightarrow> at_parent a = Some p \<Longrightarrow> key_of h n = Some k \<Longrightarrow> dir_prefix h n (s @ k @ ''.'')"

inductive_cases dir_prefix_cases: "dir_prefix h n s"

lemma dir_prefix_rootD: "dir_prefix h n t \<Longrightarrow> h_nodes h n = Some a \<Longrightarrow> at_parent a = None \<Longrightarrow> t = []"
  by (erule dir_prefix_cases) simp_all

lemma dir_prefix_childD:
  "dir_prefix h n t \<Longrightarrow> h_nodes h n = Some a \<Longrightarrow> at_parent a = Some p \<Longrightarrow> key_of h n = Some k \<Longrightarrow> \<exists>s. dir_prefix h p s \<and> t = s @ k @ ''.''"
  by (erule dir_prefix_cases) auto

lemma dir_prefix_unique: "dir_prefix h n s \<Longrightarrow> dir_prefix h n t \<Longrightarrow> s = t"
proof (induction arbitrary: t rule: dir_prefix.induct)
  case (dir_root n a)
  then show ?case
    using dir_prefix_rootD by blast
next
  case (dir_child p s n a k)
  then show ?case
    using dir_prefix_childD [of h n t a p k] by blast
qed

lemma dir_prefix_node: "dir_prefix h n s \<Longrightarrow> h_nodes h n \<noteq> None"
  by (auto elim: dir_prefix_cases)

definition path_index :: "bool \<Rightarrow> string \<Rightarrow> nat" where
  "path_index le s = unat (fold_hash (mem_hash le False (bytes s)) ATTR_HASH_BITS)"

lemma bytes_append: "bytes (s @ t) = bytes s @ bytes t"
  by (simp add: bytes_def)

lemma path_hash_prefix:
  "dir_prefix h n s \<Longrightarrow> hashed le bs ph \<Longrightarrow> \<exists>ph'. path_hash le h ph n = Some ph' \<and> hashed le (bs @ bytes s) ph'"
proof (induction rule: dir_prefix.induct)
  case (dir_root n a)
  then show ?case
    by (subst path_hash.simps) (simp add: bytes_def)
next
  case (dir_child p s n a k)
  then obtain ph' where ph': "path_hash le h ph p = Some ph'" "hashed le (bs @ bytes s) ph'"
    by blast
  have "hashed le (((bs @ bytes s) @ bytes k) @ bytes ''.'') (phash_update le (bytes ''.'') (phash_update le (bytes k) ph'))"
    by (intro hashed_update ph'(2))
  then show ?case
    using dir_child ph'(1) by (subst path_hash.simps) (simp add: bytes_append)
qed

lemma hash_index_path:
  assumes "hashed le (bytes s) ph"
  shows "unat (fold_hash (phash_value (phash_update le (bytes k) ph)) ATTR_HASH_BITS) = path_index le (s @ k)"
  using phash_hashed [OF hashed_update [OF assms, of "bytes k"], of False]
  by (simp add: path_index_def bytes_append char_value_def)

lemma attr_hash_index_path:
  assumes "dir_prefix h p s"
  shows "attr_hash_index le h (Some p) k = Some (path_index le (s @ k))"
proof -
  have "hashed le [] hash_start"
    by (simp add: hash_start_def hashed_init)
  then obtain ph where "path_hash le h hash_start p = Some ph" "hashed le (bytes s) ph"
    using path_hash_prefix [OF assms] by fastforce
  then show ?thesis
    using hash_index_path by (simp add: attr_hash_index_def)
qed

lemma attr_hash_index_root: "attr_hash_index le h None k = Some (path_index le k)"
  using hash_index_path [of le "[]" hash_start k] by (simp add: attr_hash_index_def hash_start_def hashed_init bytes_def)

text \<open>A path below a directory has the prefix of the directory in front.\<close>

lemma up_prefix:
  "up h n (rev (ks @ [k])) = Some dir \<Longrightarrow> dir_prefix h dir s \<Longrightarrow>
     \<exists>a p sp. h_nodes h n = Some a \<and> at_parent a = Some p \<and> key_of h n = Some k \<and> dir_prefix h p sp \<and> sp @ k = s @ join (ks @ [k])"
proof (induction ks arbitrary: n k rule: rev_induct)
  case Nil
  then show ?case
    by (auto simp: bind_Some_iff split: if_splits)
next
  case (snoc l ks)
  then obtain a p where p: "h_nodes h n = Some a" "at_parent a = Some p" "key_of h n = Some k" "up h p (rev (ks @ [l])) = Some dir"
    by (auto simp: bind_Some_iff split: if_splits)
  then obtain b q sq where q: "h_nodes h p = Some b" "at_parent b = Some q" "key_of h p = Some l" "dir_prefix h q sq" "sq @ l = s @ join (ks @ [l])"
    using snoc.IH [of p l] snoc.prems(2) by blast
  then have "dir_prefix h p (sq @ l @ ''.'')"
    by (blast intro: dir_child)
  moreover have "(sq @ l @ ''.'') @ k = s @ join ((ks @ [l]) @ [k])"
    using q(5) join_snoc [of "ks @ [l]" k] by simp
  ultimately show ?case
    using p by blast
qed

subsection \<open>Comparison with a key\<close>

text \<open>The comparison climbs as \<open>up\<close> does, and then compares templates.\<close>

definition same_tmpl :: "'x attr_heap \<Rightarrow> nat \<Rightarrow> nat \<Rightarrow> bool" where
  "same_tmpl h m n \<longleftrightarrow> map_option at_template (h_nodes h m) = map_option at_template (h_nodes h n)"

text \<open>The attributes above an attribute are there, with templates.\<close>

inductive rooted :: "'x attr_heap \<Rightarrow> nat \<Rightarrow> bool" for h where
  rooted_root: "h_nodes h n = Some a \<Longrightarrow> at_parent a = None \<Longrightarrow> key_of h n = Some k \<Longrightarrow> rooted h n"
| rooted_child: "rooted h p \<Longrightarrow> h_nodes h n = Some a \<Longrightarrow> at_parent a = Some p \<Longrightarrow> key_of h n = Some k \<Longrightarrow> rooted h n"

inductive_cases rooted_cases: "rooted h n"

lemma rooted_prefix: "rooted h n \<Longrightarrow> \<exists>s. dir_prefix h n s"
  by (induction rule: rooted.induct) (blast intro: dir_prefix.intros)+

lemma rooted_parent: "rooted h n \<Longrightarrow> h_nodes h n = Some a \<Longrightarrow> at_parent a = Some p \<Longrightarrow> rooted h p"
  by (auto elim: rooted_cases)

lemma rooted_node: "rooted h n \<Longrightarrow> \<exists>a k. h_nodes h n = Some a \<and> key_of h n = Some k"
  by (auto elim: rooted_cases)

lemma keycmp_join:
  "path_ok ks \<Longrightarrow> rooted h n \<Longrightarrow> h_nodes h dir \<noteq> None \<Longrightarrow>
     keycmp h n dir (join ks @ junk) (length (join ks)) = Some (\<exists>m. up h n (rev ks) = Some m \<and> same_tmpl h m dir)"
proof (induction ks arbitrary: n junk rule: rev_induct)
  case Nil
  then show ?case
    by (simp add: path_ok_def)
next
  case (snoc k ks)
  obtain a k' where a: "h_nodes h n = Some a" "key_of h n = Some k'"
    using rooted_node [OF snoc.prems(2)] by blast
  obtain d where d: "h_nodes h dir = Some d"
    using snoc.prems(3) by blast
  show ?case
  proof (cases "ks = []")
    case True
    then have k: "dotfree k"
      using snoc.prems(1) by simp
    show ?thesis
    proof (cases "at_parent a")
      case None
      then show ?thesis
        using True a by (subst keycmp.simps) (simp add: memrchr_dot_join [OF k])
    next
      case (Some p)
      then obtain b where b: "h_nodes h p = Some b"
        using rooted_node [OF rooted_parent [OF snoc.prems(2) a(1)]] by blast
      then show ?thesis
        using True a Some d by (subst keycmp.simps) (simp add: memrchr_dot_join [OF k] same_tmpl_def)
    qed
  next
    case False
    then have ks: "path_ok ks" "join ks \<noteq> []" "dotfree k"
      using path_ok_butlast [OF snoc.prems(1)] by simp_all
    then obtain i where i: "length (join ks) = Suc i"
      by (cases "join ks") simp_all
    have dot: "memrchr_dot (join ks @ CHR ''.'' # k @ junk) (length (join ks @ CHR ''.'' # k)) = Some (Suc i)"
      using memrchr_dot_join(2) [OF ks(3), of "join ks" junk] i by simp
    have dropk: "take (length (join ks @ CHR ''.'' # k) - Suc (Suc i)) (drop (Suc (Suc i)) (join ks @ CHR ''.'' # k @ junk)) = k"
      using i by (simp flip: i)
    show ?thesis
    proof (cases "at_parent a")
      case None
      then show ?thesis
        using a dot dropk join_snoc [OF False, of k] by (subst keycmp.simps) simp
    next
      case (Some p)
      then have "keycmp h p dir (join ks @ CHR ''.'' # k @ junk) (length (join ks)) = Some (\<exists>m. up h p (rev ks) = Some m \<and> same_tmpl h m dir)"
        using snoc.IH [OF ks(1) rooted_parent [OF snoc.prems(2) a(1)] snoc.prems(3)] by blast
      then show ?thesis
        using a Some dot dropk i join_snoc [OF False, of k] by (subst keycmp.simps) simp
    qed
  qed
qed

subsection \<open>Well-formed dictionaries\<close>

definition own :: "'x attr_heap \<Rightarrow> nat \<Rightarrow> nat \<Rightarrow> bool" where
  "own h d n \<longleftrightarrow> (\<exists>a. h_nodes h n = Some a \<and> fst (at_list a) = d)"

text \<open>
  What holds of the attributes of a dictionary: their parents are attributes of the dictionary, up to a root; an attribute is in the list of the
  hash of its path, and in no other; two children of a directory have different names.
\<close>

definition node_ok :: "bool \<Rightarrow> 'x attr_heap \<Rightarrow> nat \<Rightarrow> nat \<Rightarrow> attr_data \<Rightarrow> bool" where
  "node_ok le h d n a \<longleftrightarrow> rooted h n \<and> (\<forall>k. key_of h n = Some k \<longrightarrow> dotfree k) \<and> (\<forall>p. at_parent a = Some p \<longrightarrow> own h d p)
     \<and> (\<forall>p s k. at_parent a = Some p \<and> dir_prefix h p s \<and> key_of h n = Some k \<longrightarrow> snd (at_list a) = path_index le (s @ k))"

definition dict_ok :: "bool \<Rightarrow> 'x attr_heap \<Rightarrow> nat \<Rightarrow> bool" where
  "dict_ok le h d \<longleftrightarrow> (\<exists>D. dict_of h d = Some D
     \<and> (\<forall>n a. h_nodes h n = Some a \<and> fst (at_list a) = d \<longrightarrow> node_ok le h d n a)
     \<and> (\<forall>i n. n \<in> set (d_table D i) \<longleftrightarrow> (\<exists>a. h_nodes h n = Some a \<and> at_list a = (d, i)))
     \<and> (\<forall>m n k p. own h d m \<and> own h d n \<and> up h m [k] = Some p \<and> up h n [k] = Some p \<longrightarrow> m = n))"

text \<open>The templates of two directories of a dictionary may be the same; then a lookup below one may find an attribute below the other.\<close>

definition sole :: "'x attr_heap \<Rightarrow> nat \<Rightarrow> nat \<Rightarrow> bool" where
  "sole h d n \<longleftrightarrow> own h d n \<and> (\<forall>m. own h d m \<and> same_tmpl h m n \<longrightarrow> m = n)"

lemma own_node: "own h d n \<Longrightarrow> h_nodes h n \<noteq> None"
  by (auto simp: own_def)

lemma dict_ok_node: "dict_ok le h d \<Longrightarrow> h_nodes h n = Some a \<Longrightarrow> fst (at_list a) = d \<Longrightarrow> node_ok le h d n a"
  by (auto simp: dict_ok_def)

lemma dict_ok_rooted: "dict_ok le h d \<Longrightarrow> own h d n \<Longrightarrow> rooted h n"
  by (auto simp: own_def dict_ok_def node_ok_def)

lemma dict_ok_table: "dict_ok le h d \<Longrightarrow> dict_of h d = Some D \<Longrightarrow> n \<in> set (d_table D i) \<longleftrightarrow> (\<exists>a. h_nodes h n = Some a \<and> at_list a = (d, i))"
  by (auto simp: dict_ok_def)

lemma up_single: "up h n [k] = Some p \<longleftrightarrow> (\<exists>a. h_nodes h n = Some a \<and> at_parent a = Some p \<and> key_of h n = Some k)"
  by (auto simp: bind_Some_iff split: if_splits)

lemma dict_ok_siblings:
  "dict_ok le h d \<Longrightarrow> own h d m \<Longrightarrow> own h d n \<Longrightarrow> up h m [k] = Some p \<Longrightarrow> up h n [k] = Some p \<Longrightarrow> m = n"
  unfolding dict_ok_def by blast

lemma own_up: "dict_ok le h d \<Longrightarrow> own h d n \<Longrightarrow> up h n ks = Some m \<Longrightarrow> own h d m"
proof (induction ks arbitrary: n)
  case (Cons k ks)
  then obtain a p where a: "h_nodes h n = Some a" "at_parent a = Some p" "up h p ks = Some m"
    by (auto simp: bind_Some_iff split: if_splits)
  moreover have "fst (at_list a) = d"
    using Cons.prems(2) a(1) by (simp add: own_def)
  ultimately show ?case
    using Cons.IH [OF Cons.prems(1), of p] dict_ok_node [OF Cons.prems(1) a(1)] by (simp add: node_ok_def)
qed simp

lemma up_unique:
  "dict_ok le h d \<Longrightarrow> own h d m \<Longrightarrow> own h d n \<Longrightarrow> up h m ks = Some p \<Longrightarrow> up h n ks = Some p \<Longrightarrow> m = n"
proof (induction ks arbitrary: m n)
  case (Cons k ks)
  obtain q where q: "up h m [k] = Some q" "up h q ks = Some p"
    using Cons.prems(4) by (auto simp: bind_Some_iff split: if_splits)
  obtain r where r: "up h n [k] = Some r" "up h r ks = Some p"
    using Cons.prems(5) by (auto simp: bind_Some_iff split: if_splits)
  have "q = r"
    using Cons.IH [OF Cons.prems(1) _ _ q(2) r(2)] own_up [OF Cons.prems(1,2) q(1)] own_up [OF Cons.prems(1,3) r(1)] by blast
  then show ?case
    using dict_ok_siblings [OF Cons.prems(1-3) q(1)] r(1) by simp
qed simp

lemma sole_prefix: "dict_ok le h d \<Longrightarrow> sole h d dir \<Longrightarrow> \<exists>s. dir_prefix h dir s"
  unfolding sole_def by (blast intro: rooted_prefix dict_ok_rooted)

subsection \<open>Lookups\<close>

lemma find_attr_list:
  "\<forall>n\<in>set ns. keycmp h n dir key len = Some (P n) \<Longrightarrow> find_attr h dir key len ns = Some (find P ns)"
  by (induction ns) auto

text \<open>The attribute at a path below a directory is in the list that the lookup searches.\<close>

lemma at_path_bucket:
  assumes "dict_ok le h d" and "own h d n" and "up h n (rev ks) = Some dir" and "ks \<noteq> []" and "dir_prefix h dir s"
    and "h_nodes h n = Some a"
  shows "at_list a = (d, path_index le (s @ join ks))"
proof -
  obtain ls k where ks: "ks = ls @ [k]"
    using assms(4) by (cases ks rule: rev_cases) simp_all
  obtain p sp where p: "at_parent a = Some p" "key_of h n = Some k" "dir_prefix h p sp" "sp @ k = s @ join ks"
    using up_prefix [OF assms(3) [unfolded ks] assms(5)] assms(6) ks by auto
  moreover have "fst (at_list a) = d"
    using assms(2,6) by (simp add: own_def)
  ultimately have "snd (at_list a) = path_index le (sp @ k)"
    using dict_ok_node [OF assms(1,6)] by (auto simp: node_ok_def)
  then show ?thesis
    using \<open>fst (at_list a) = d\<close> p(4) by (metis prod.collapse)
qed

text \<open>The search of a list finds the attribute at the path, if the directory is the only one with its template.\<close>

lemma find_attr_at:
  assumes "dict_ok le h d" and "sole h d dir" and "path_ok ks" and "dict_of h d = Some D" and "dir_prefix h dir s"
  shows "\<exists>r. find_attr h dir (join ks @ junk) (length (join ks)) (d_table D (path_index le (s @ join ks))) = Some r
    \<and> (\<forall>n. r = Some n \<longleftrightarrow> own h d n \<and> up h n (rev ks) = Some dir)"
proof -
  let ?ns = "d_table D (path_index le (s @ join ks))"
  let ?P = "\<lambda>n. \<exists>m. up h n (rev ks) = Some m \<and> same_tmpl h m dir"
  have ownd: "own h d dir"
    using assms(2) by (simp add: sole_def)
  have mem: "own h d n" if "n \<in> set ?ns" for n
    using dict_ok_table [OF assms(1,4)] that by (auto simp: own_def)
  have P: "?P n \<longleftrightarrow> up h n (rev ks) = Some dir" if "own h d n" for n
    using own_up [OF assms(1) that] assms(2) ownd by (auto simp: sole_def same_tmpl_def)
  have "find_attr h dir (join ks @ junk) (length (join ks)) ?ns = Some (find ?P ?ns)"
    by (rule find_attr_list) (use keycmp_join [OF assms(3)] mem dict_ok_rooted [OF assms(1)] own_node [OF ownd] in blast)
  moreover have "find ?P ?ns = Some n \<longleftrightarrow> own h d n \<and> up h n (rev ks) = Some dir" for n
  proof
    assume "find ?P ?ns = Some n"
    then have "n \<in> set ?ns" "?P n"
      by (auto simp: find_Some_iff)
    then show "own h d n \<and> up h n (rev ks) = Some dir"
      using mem P by blast
  next
    assume n: "own h d n \<and> up h n (rev ks) = Some dir"
    then obtain a where a: "h_nodes h n = Some a"
      by (auto simp: own_def)
    have "at_list a = (d, path_index le (s @ join ks))"
      using at_path_bucket [OF assms(1) _ _ _ assms(5) a] n assms(3) by (auto simp: path_ok_def)
    then have "n \<in> set ?ns"
      using dict_ok_table [OF assms(1,4)] a by blast
    moreover have "?P n"
      using P n by blast
    ultimately have "find ?P ?ns \<noteq> None"
      unfolding find_None_iff by blast
    then obtain m where m: "find ?P ?ns = Some m"
      by blast
    then have "m \<in> set ?ns" "?P m"
      by (auto simp: find_Some_iff)
    then have "own h d m" "up h m (rev ks) = Some dir"
      using mem P by blast+
    then show "find ?P ?ns = Some n"
      using up_unique [OF assms(1), of m n "rev ks" dir] n m by simp
  qed
  ultimately show ?thesis
    by blast
qed

lemma lookup_no_fallback_at:
  assumes "dict_ok le h d" and "sole h d dir" and "path_ok ks"
  shows "\<exists>r. lookup_dir_attr_no_fallback le h d dir (join ks @ junk) (length (join ks)) = Some r
    \<and> (\<forall>n. r = Some n \<longleftrightarrow> own h d n \<and> up h n (rev ks) = Some dir)"
proof -
  obtain D where D: "dict_of h d = Some D"
    using assms(1) by (auto simp: dict_ok_def)
  obtain s where s: "dir_prefix h dir s"
    using sole_prefix [OF assms(1,2)] by blast
  show ?thesis
    using find_attr_at [OF assms D s, of junk] by (simp add: lookup_dir_attr_no_fallback_def D attr_hash_index_path [OF s])
qed

lemma lookup_at:
  assumes "dict_ok le h d" and "sole h d dir" and "path_ok ks" and "dict_of h d = Some D" and "d_fallback D = None"
    and "join ks = [] \<longrightarrow> junk = [] \<or> hd junk \<noteq> CHR ''.''"
  shows "\<exists>r. lookup_dir_attr le h d dir (join ks @ junk) (length (join ks)) = Some r
    \<and> (\<forall>n. r = Some n \<longleftrightarrow> own h d n \<and> up h n (rev ks) = Some dir)"
proof -
  obtain s where s: "dir_prefix h dir s"
    using sole_prefix [OF assms(1,2)] by blast
  obtain r where r: "find_attr h dir (join ks @ junk) (length (join ks)) (d_table D (path_index le (s @ join ks))) = Some r"
    "\<forall>n. r = Some n \<longleftrightarrow> own h d n \<and> up h n (rev ks) = Some dir"
    using find_attr_at [OF assms(1-4) s] by blast
  have nd: "\<not> (join ks @ junk \<noteq> [] \<and> hd (join ks @ junk) = CHR ''.'')"
    using assms(6) path_ok_hd [OF assms(3)] by (cases "join ks") auto
  have "lookup_dicts h d dir (join ks @ junk) (length (join ks)) (path_index le (s @ join ks)) = Some r"
    using r(1) assms(4,5) by (subst lookup_dicts.simps) (auto split: option.split)
  then show ?thesis
    unfolding lookup_dir_attr_def if_not_P [OF nd] using r(2) by (simp add: attr_hash_index_path [OF s])
qed

subsection \<open>Edge cases\<close>

text \<open>A path that starts with a dot, and is not there, makes \<open>create_attr_path\<close> look up a prefix of length zero, whose length wraps around.\<close>

lemma create_dot_path_undefined:
  assumes "dotfree s" and "lookup_dir_attr_no_fallback le h d dir s (length s) = Some None"
  shows "create_attr_path le d dir (CHR ''.'' # s) (Suc (length s)) tm h = None"
proof -
  have "memrchr_dot (CHR ''.'' # s) (Suc (length s)) = Some 0"
    using memrchr_dot_join(2) [OF assms(1), of "[]" "[]"] by simp
  moreover have "find_prefix le h d dir (CHR ''.'' # s) 0 = None"
    by (subst find_prefix.simps) (simp add: lookup_dir_attr_def)
  ultimately have "find_prefix le h d dir (CHR ''.'' # s) (Suc (length s)) = None"
    using assms(2) by (subst find_prefix.simps) (simp add: lookup_dir_attr_def)
  then show ?thesis
    by (simp add: create_attr_path_def)
qed

text \<open>Setting the root directory uses its parent, which is not there.\<close>

lemma set_root_undefined:
  assumes "h_nodes h n = Some a" and "at_parent a = None" and "tmpl_of h n = Some t" and "hook_of pre_set h t = None"
  shows "set_attr H n flags (Here v) h = None"
  using assms by (simp add: set_attr_def Let_def split: bool.split Option.bind_split)

end
