(* ===== verification/Attr_Create.thy ===== *)
theory Attr_Create
  imports Attr_Facts
begin

section \<open>Creation of attributes\<close>

text \<open>
  Creating attributes extends the tree: what was there keeps its place, its name and its value, and the dictionary stays well-formed. So
  the lookups of the paths that were there give the same attributes as before.
\<close>

subsection \<open>Extensions of a heap\<close>

definition ext :: "'x attr_heap \<Rightarrow> 'x attr_heap \<Rightarrow> bool" where
  "ext h h' \<longleftrightarrow> (\<forall>n a. h_nodes h n = Some a \<longrightarrow> (\<exists>x y. h_nodes h' n = Some (a\<lparr>at_next := x, at_dir := y\<rparr>)))
     \<and> (\<forall>t T. h_tmpls h t = Some T \<longrightarrow> h_tmpls h' t = Some T) \<and> h_static h' = h_static h"

lemma link_exs: "\<exists>x y. a = a\<lparr>at_next := x, at_dir := y\<rparr>" "\<exists>x y. a\<lparr>at_dir := z\<rparr> = a\<lparr>at_next := x, at_dir := y\<rparr>"
  by (intro exI [of _ "at_next a"] exI [of _ "at_dir a"], simp) (intro exI [of _ "at_next a"] exI [of _ z], simp)

lemma ext_refl: "ext h h"
  by (simp add: ext_def link_exs(1))

lemma ext_node: "ext h h' \<Longrightarrow> h_nodes h n = Some a \<Longrightarrow> \<exists>x y. h_nodes h' n = Some (a\<lparr>at_next := x, at_dir := y\<rparr>)"
  by (simp add: ext_def)

lemma ext_tmpl: "ext h h' \<Longrightarrow> h_tmpls h t = Some T \<Longrightarrow> h_tmpls h' t = Some T"
  by (simp add: ext_def)

lemma ext_trans:
  assumes "ext h h'" and "ext h' h''"
  shows "ext h h''"
  unfolding ext_def
proof (intro conjI allI impI)
  fix n a
  assume "h_nodes h n = Some a"
  then obtain x y where "h_nodes h' n = Some (a\<lparr>at_next := x, at_dir := y\<rparr>)"
    using ext_node [OF assms(1)] by blast
  then show "\<exists>x y. h_nodes h'' n = Some (a\<lparr>at_next := x, at_dir := y\<rparr>)"
    using ext_node [OF assms(2)] by fastforce
qed (use assms in \<open>simp_all add: ext_def\<close>)

text \<open>What the tree needs is that parents, templates and lists stay.\<close>

definition grows :: "'x attr_heap \<Rightarrow> 'x attr_heap \<Rightarrow> bool" where
  "grows h h' \<longleftrightarrow>
     (\<forall>n a. h_nodes h n = Some a \<longrightarrow>
        (\<exists>b. h_nodes h' n = Some b \<and> at_parent b = at_parent a \<and> at_template b = at_template a \<and> at_list b = at_list a))
     \<and> (\<forall>t T. h_tmpls h t = Some T \<longrightarrow> h_tmpls h' t = Some T)"

lemma ext_grows: "ext h h' \<Longrightarrow> grows h h'"
  by (fastforce simp: ext_def grows_def)

lemma grows_node:
  assumes "grows h h'" and "h_nodes h n = Some a"
  obtains b where "h_nodes h' n = Some b" and "at_parent b = at_parent a" and "at_template b = at_template a" and "at_list b = at_list a"
  using assms unfolding grows_def by blast

lemma grows_key:
  assumes "grows h h'" and "key_of h n = Some k"
  shows "key_of h' n = Some k"
proof -
  obtain a T where a: "h_nodes h n = Some a" "h_tmpls h (at_template a) = Some T" "t_key T = k"
    using assms(2) by (auto simp: key_of_def tmpl_of_def bind_Some_iff)
  obtain b where "h_nodes h' n = Some b" "at_template b = at_template a"
    by (rule grows_node [OF assms(1) a(1)])
  moreover have "h_tmpls h' (at_template a) = Some T"
    using assms(1) a(2) by (simp add: grows_def)
  ultimately show ?thesis
    using a(3) by (simp add: key_of_def tmpl_of_def)
qed

lemma grows_rooted: "grows h h' \<Longrightarrow> rooted h n \<Longrightarrow> rooted h' n"
proof (rotate_tac, induction rule: rooted.induct)
  case (rooted_root n a k)
  obtain b where "h_nodes h' n = Some b" "at_parent b = at_parent a"
    by (rule grows_node [OF rooted_root(4,1)])
  then show ?case
    using rooted_root grows_key by (metis rooted.rooted_root)
next
  case (rooted_child p n a k)
  obtain b where "h_nodes h' n = Some b" "at_parent b = at_parent a"
    by (rule grows_node [OF rooted_child(6,2)])
  then show ?case
    using rooted_child grows_key by (metis rooted.rooted_child)
qed

lemma grows_prefix: "grows h h' \<Longrightarrow> dir_prefix h n s \<Longrightarrow> dir_prefix h' n s"
proof (rotate_tac, induction rule: dir_prefix.induct)
  case (dir_root n a)
  obtain b where "h_nodes h' n = Some b" "at_parent b = at_parent a"
    by (rule grows_node [OF dir_root(3,1)])
  then show ?case
    using dir_root by (metis dir_prefix.dir_root)
next
  case (dir_child p s n a k)
  obtain b where "h_nodes h' n = Some b" "at_parent b = at_parent a"
    by (rule grows_node [OF dir_child(6,2)])
  then show ?case
    using dir_child grows_key by (metis dir_prefix.dir_child)
qed

lemma grows_prefix_iff: "grows h h' \<Longrightarrow> rooted h n \<Longrightarrow> dir_prefix h' n s \<longleftrightarrow> dir_prefix h n s"
  using grows_prefix rooted_prefix dir_prefix_unique by metis

lemma grows_key_iff: "grows h h' \<Longrightarrow> rooted h n \<Longrightarrow> key_of h' n = key_of h n"
  using grows_key rooted_node by metis

lemma grows_up: "grows h h' \<Longrightarrow> rooted h n \<Longrightarrow> up h' n ks = up h n ks"
proof (induction ks arbitrary: n)
  case (Cons k ks)
  obtain a k' where a: "h_nodes h n = Some a" "key_of h n = Some k'"
    using rooted_node [OF Cons.prems(2)] by blast
  obtain b where b: "h_nodes h' n = Some b" "at_parent b = at_parent a"
    by (rule grows_node [OF Cons.prems(1) a(1)])
  show ?case
    using a b grows_key [OF Cons.prems(1) a(2)] Cons.IH [OF Cons.prems(1)] rooted_parent [OF Cons.prems(2) a(1)]
    by (cases "at_parent a") simp_all
qed simp

lemma grows_own: "grows h h' \<Longrightarrow> own h d n \<Longrightarrow> own h' d n"
  by (fastforce simp: own_def grows_def)

lemmas ext_key = grows_key [OF ext_grows] and ext_rooted = grows_rooted [OF ext_grows] and ext_prefix = grows_prefix [OF ext_grows]
  and ext_prefix_iff = grows_prefix_iff [OF ext_grows] and ext_key_iff = grows_key_iff [OF ext_grows] and ext_up = grows_up [OF ext_grows]
  and ext_own = grows_own [OF ext_grows]

lemma dict_okI:
  assumes "dict_of h d = Some D" and "\<And>n a. h_nodes h n = Some a \<Longrightarrow> fst (at_list a) = d \<Longrightarrow> node_ok le h d n a"
    and "\<And>n i. n \<in> set (d_table D i) \<longleftrightarrow> (\<exists>a. h_nodes h n = Some a \<and> at_list a = (d, i))"
    and "\<And>m n k p. own h d m \<Longrightarrow> own h d n \<Longrightarrow> up h m [k] = Some p \<Longrightarrow> up h n [k] = Some p \<Longrightarrow> m = n"
  shows "dict_ok le h d"
  unfolding dict_ok_def by (intro exI [of _ D] conjI allI impI; (elim conjE)?) (fact assms)+

text \<open>A dictionary stays well-formed if no attribute comes or goes and its lists stay.\<close>

lemma dict_ok_grows:
  assumes "dict_ok le h d" and "grows h h'" and "dict_of h' d = dict_of h d" and "\<forall>n. h_nodes h n = None \<longrightarrow> h_nodes h' n = None"
  shows "dict_ok le h' d"
proof -
  obtain D where D: "dict_of h d = Some D"
    using assms(1) unfolding dict_ok_def by blast
  have same: "\<exists>a. h_nodes h n = Some a \<and> at_parent a = at_parent b \<and> at_list a = at_list b" if "h_nodes h' n = Some b" for n b
    using that assms(2,4) by (cases "h_nodes h n") (fastforce elim: grows_node)+
  have own: "own h' d n \<longleftrightarrow> own h d n" for n
    using same grows_own [OF assms(2)] by (fastforce simp: own_def)
  have rooted: "own h d n \<Longrightarrow> rooted h n" for n
    by (rule dict_ok_rooted [OF assms(1)])
  have up: "own h d n \<Longrightarrow> up h' n ks = up h n ks" for n ks
    using grows_up [OF assms(2) rooted] .
  have "node_ok le h' d n b" if b: "h_nodes h' n = Some b" "fst (at_list b) = d" for n b
  proof -
    obtain a where a: "h_nodes h n = Some a" "at_parent a = at_parent b" "at_list a = at_list b"
      using same [OF b(1)] by blast
    then have ok: "node_ok le h d n a"
      using dict_ok_node [OF assms(1) a(1)] b(2) by simp
    then have "at_parent a = Some p \<Longrightarrow> rooted h p" for p
      using rooted by (simp add: node_ok_def)
    then show ?thesis
      using ok a grows_rooted [OF assms(2)] grows_key_iff [OF assms(2)] own grows_prefix_iff [OF assms(2)] by (auto simp: node_ok_def)
  qed
  moreover have "n \<in> set (d_table D i) \<longleftrightarrow> (\<exists>b. h_nodes h' n = Some b \<and> at_list b = (d, i))" for n i
  proof -
    have "(\<exists>b. h_nodes h' n = Some b \<and> at_list b = (d, i)) \<longleftrightarrow> (\<exists>a. h_nodes h n = Some a \<and> at_list a = (d, i))"
      using same assms(2) by (fastforce elim: grows_node)
    then show ?thesis
      using dict_ok_table [OF assms(1) D] by simp
  qed
  moreover have "m = n" if "own h' d m" "own h' d n" "up h' m [k] = Some p" "up h' n [k] = Some p" for m n k p
    using that own up dict_ok_siblings [OF assms(1)] by metis
  moreover have "dict_of h' d = Some D"
    using D assms(3) by simp
  ultimately show ?thesis
    by (intro dict_okI)
qed

definition fresh_ok :: "'x attr_heap \<Rightarrow> bool" where
  "fresh_ok h \<longleftrightarrow> (\<forall>n\<ge>h_fresh h. h_nodes h n = None \<and> h_tmpls h n = None)"

subsection \<open>A new attribute\<close>

text \<open>The heap with one more attribute \<open>n\<close>, below \<open>p\<close>.\<close>

definition added :: "bool \<Rightarrow> nat \<Rightarrow> nat \<Rightarrow> nat \<Rightarrow> string \<Rightarrow> 'x attr_heap \<Rightarrow> 'x attr_heap \<Rightarrow> bool" where
  "added le d p n k h h' \<longleftrightarrow> ext h h' \<and> h_nodes h n = None \<and> (\<forall>m. h_nodes h' m \<noteq> None \<longleftrightarrow> m = n \<or> h_nodes h m \<noteq> None) \<and> key_of h' n = Some k
     \<and> (\<exists>a D s i. h_nodes h' n = Some a \<and> at_parent a = Some p \<and> dir_prefix h p s \<and> i = path_index le (s @ k) \<and> at_list a = (d, i)
          \<and> dict_of h d = Some D \<and> dict_of h' d = Some (D\<lparr>d_table := (d_table D)(i := n # d_table D i)\<rparr>))"

lemma added_own: "added le d p n k h h' \<Longrightarrow> own h' d m \<longleftrightarrow> m = n \<or> own h d m"
proof (cases "h_nodes h m")
  case None
  then show "added le d p n k h h' \<Longrightarrow> own h' d m \<longleftrightarrow> m = n \<or> own h d m"
    by (auto simp: added_def own_def)
next
  case (Some a)
  assume "added le d p n k h h'"
  then show ?thesis
    using Some ext_node [of h h' m a] by (auto simp: added_def own_def)
qed

lemma added_dom: "added le d p n k h h' \<Longrightarrow> h_nodes h' m = None \<longleftrightarrow> m \<noteq> n \<and> h_nodes h m = None"
  unfolding added_def by blast

lemma added_up: "added le d p n k h h' \<Longrightarrow> up h' n (l # ks) = (if l = k then up h' p ks else None)"
  by (auto simp: added_def)

lemma dict_ok_added:
  assumes "dict_ok le h d" and "own h d p" and "dotfree k" and "added le d p n k h h'" and "\<forall>m. own h d m \<longrightarrow> up h m [k] \<noteq> Some p"
  shows "dict_ok le h' d"
proof -
  have e: "ext h h'" and fresh: "h_nodes h n = None" and kn: "key_of h' n = Some k"
    using assms(4) by (simp_all add: added_def)
  obtain a D s i where a: "h_nodes h' n = Some a" "at_parent a = Some p" "dir_prefix h p s" "i = path_index le (s @ k)" "at_list a = (d, i)"
    "dict_of h d = Some D" "dict_of h' d = Some (D\<lparr>d_table := (d_table D)(i := n # d_table D i)\<rparr>)"
    using assms(4) unfolding added_def by blast
  have own_iff: "own h' d m \<longleftrightarrow> m = n \<or> own h d m" for m
    by (rule added_own [OF assms(4)])
  have rooted: "rooted h m" if "own h d m" for m
    by (rule dict_ok_rooted [OF assms(1) that])
  have old: "node_ok le h' d m b'" if m: "h_nodes h' m = Some b'" "fst (at_list b') = d" "m \<noteq> n" for m b'
  proof -
    obtain b where b: "h_nodes h m = Some b"
      using assms(4) m(1,3) by (fastforce simp: added_def)
    then obtain x y where b': "b' = b\<lparr>at_next := x, at_dir := y\<rparr>"
      using ext_node [OF e b] m(1) by auto
    have "node_ok le h d m b"
      using dict_ok_node [OF assms(1) b] m(2) b' by simp
    moreover from this have "at_parent b = Some q \<Longrightarrow> rooted h q" for q
      using rooted by (simp add: node_ok_def)
    ultimately show ?thesis
      using ext_rooted [OF e] ext_key_iff [OF e] ext_own [OF e] ext_prefix_iff [OF e] b' by (auto simp: node_ok_def)
  qed
  have new: "node_ok le h' d n a"
  proof -
    have "rooted h' n"
      using ext_rooted [OF e rooted [OF assms(2)]] a(1,2) kn by (blast intro: rooted_child)
    then show ?thesis
      using a(2,4,5) kn assms(3) ext_own [OF e assms(2)] ext_prefix_iff [OF e rooted [OF assms(2)]] dir_prefix_unique [OF a(3)]
      by (auto simp: node_ok_def)
  qed
  have table: "m \<in> set (d_table (D\<lparr>d_table := (d_table D)(i := n # d_table D i)\<rparr>) j) \<longleftrightarrow> (\<exists>b. h_nodes h' m = Some b \<and> at_list b = (d, j))" for m j
  proof (cases "m = n")
    case True
    have "n \<notin> set (d_table D j)"
      using dict_ok_table [OF assms(1) a(6)] fresh by simp
    then show ?thesis
      using True a(1,5) by auto
  next
    case False
    have "(\<exists>b. h_nodes h' m = Some b \<and> at_list b = (d, j)) \<longleftrightarrow> (\<exists>b. h_nodes h m = Some b \<and> at_list b = (d, j))"
    proof (cases "h_nodes h m")
      case None
      then show ?thesis
        using assms(4) False by (auto simp: added_def)
    next
      case (Some b)
      then show ?thesis
        using ext_node [OF e Some] by auto
    qed
    then show ?thesis
      using False dict_ok_table [OF assms(1) a(6)] by auto
  qed
  have "m = m'" if m: "own h' d m" "own h' d m'" "up h' m [l] = Some q" "up h' m' [l] = Some q" for m m' l q
  proof -
    have up: "up h' m [l] = up h m [l]" if "own h d m" for m
      using ext_up [OF e rooted [OF that]] .
    have upn: "up h' n [l] = Some q \<longleftrightarrow> l = k \<and> q = p"
      using added_up [OF assms(4), of l "[]"] by auto
    show ?thesis
    proof (cases "m = n"; cases "m' = n")
      assume "m \<noteq> n" "m' \<noteq> n"
      then show ?thesis
        using m own_iff up dict_ok_siblings [OF assms(1), of m m' l q] by simp
    next
      assume "m = n" "m' \<noteq> n"
      then show ?thesis
        using m own_iff up upn assms(5) by auto
    next
      assume "m \<noteq> n" "m' = n"
      then show ?thesis
        using m own_iff up upn assms(5) by auto
    qed simp
  qed
  moreover have "node_ok le h' d m b" if "h_nodes h' m = Some b" "fst (at_list b) = d" for m b
    using old [OF that] new a(1) that by (cases "m = n") auto
  ultimately show ?thesis
    unfolding dict_ok_def using a(7) table by blast
qed

lemma lookup_no_namesake:
  assumes "dict_ok le h d" and "sole h d p" and "dotfree k" and "\<forall>m. own h d m \<longrightarrow> up h m [k] \<noteq> Some p"
  shows "lookup_dir_attr_no_fallback le h d p k (length k) = Some None"
proof -
  obtain r where r: "lookup_dir_attr_no_fallback le h d p k (length k) = Some r" "\<forall>n. r = Some n \<longleftrightarrow> own h d n \<and> up h n [k] = Some p"
    using lookup_no_fallback_at [OF assms(1,2), of "[k]" "[]"] assms(3) by (auto simp del: up.simps)
  then have "r \<noteq> Some n" for n
    using assms(4) by blast
  then have "r = None"
    by (metis option.exhaust)
  then show ?thesis
    using r(1) by simp
qed

lemma dict_ok_dict:
  assumes "dict_ok le h d"
  obtains D where "h_dicts h d = Some D" and "d_live D" and "dict_of h d = Some D"
proof -
  obtain D where "dict_of h d = Some D"
    using assms unfolding dict_ok_def by blast
  then show ?thesis
    using that [of D] by (auto simp: dict_of_def bind_Some_iff split: if_splits)
qed

text \<open>An attribute without a namesake below its parent is added; if memory runs out, nothing changes.\<close>

lemma new_attr_adds:
  assumes "dict_ok le h d" and "sole h d p" and "h_tmpls h t = Some T" and "dotfree (t_key T)" and "fresh_ok h"
    and "\<forall>m. own h d m \<longrightarrow> up h m [t_key T] \<noteq> Some p" and "h_mem h (h_fresh h)"
  shows "\<exists>h' a. new_attr le d (Some p) t h = Some (Some (h_fresh h), h') \<and> added le d p (h_fresh h) (t_key T) h h'
    \<and> h_nodes h' (h_fresh h) = Some a \<and> at_template a = t \<and> at_flags a = ATTR_DEFAULT \<and> h_tmpls h' = h_tmpls h \<and> h_fresh h' = Suc (h_fresh h) \<and> h_mem h' = h_mem h"
proof -
  let ?k = "t_key T" and ?n = "h_fresh h"
  obtain s where s: "dir_prefix h p s"
    using sole_prefix [OF assms(1,2)] by blast
  have none: "lookup_dir_attr_no_fallback le h d p ?k (length ?k) = Some None"
    by (rule lookup_no_namesake [OF assms(1,2,4,6)])
  obtain D where D: "h_dicts h d = Some D" "d_live D"
    using dict_ok_dict [OF assms(1)] by metis
  obtain pa where pa: "h_nodes h p = Some pa"
    using assms(2) by (auto simp: sole_def own_def)
  have pn: "p \<noteq> ?n" and fresh: "h_nodes h ?n = None"
    using pa assms(5) by (auto simp: fresh_ok_def)
  define i where "i = path_index le (s @ ?k)"
  define a where "a = no_attr\<lparr>at_parent := Some p, at_template := t\<rparr>"
  define h1 where "h1 = h\<lparr>h_fresh := Suc ?n, h_nodes := (h_nodes h)(?n \<mapsto> a)\<rparr>"
  define h2 where "h2 = h1\<lparr>h_nodes := (h_nodes h)(?n \<mapsto> a\<lparr>at_list := (d, i)\<rparr>),
    h_dicts := (h_dicts h)(d \<mapsto> D\<lparr>d_table := (d_table D)(i := ?n # d_table D i)\<rparr>)\<rparr>"
  define h3 where "h3 = h2\<lparr>h_nodes := (h_nodes h)(?n \<mapsto> a\<lparr>at_list := (d, i), at_next := at_dir pa\<rparr>, p \<mapsto> pa\<lparr>at_dir := Some ?n\<rparr>)\<rparr>"
  have e1: "ext h h1"
    using fresh ext_refl [of h] by (auto simp: ext_def h1_def)
  have "key_of h1 ?n = Some ?k"
    using assms(3) by (simp add: key_of_def tmpl_of_def h1_def a_def)
  moreover have "attr_hash_index le h1 (Some p) ?k = Some i"
    using attr_hash_index_path [OF ext_prefix [OF e1 s]] by (simp add: i_def)
  ultimately have "alloc_attr le d (Some p) t h = Some (Some ?n, h2)"
    using assms(7) D
    by (simp add: alloc_attr_def alloc_def a_def [symmetric] h1_def [symmetric] hlist_add_head_def upd_node_def upd_dict_def h2_def)
      (simp add: h1_def)
  moreover have "link_child ?n p h2 = Some h3"
    using pa pn by (simp add: link_child_def upd_node_def h2_def h3_def h1_def fun_upd_twist)
  ultimately have new: "new_attr le d (Some p) t h = Some (Some ?n, h3)"
    using none assms(3) by (simp add: new_attr_def)
  have tm: "h_tmpls h3 = h_tmpls h" "h_fresh h3 = Suc ?n" "h_mem h3 = h_mem h" "h_static h3 = h_static h"
    by (simp_all add: h3_def h2_def h1_def)
  have "ext h h3"
    unfolding ext_def
  proof (intro conjI allI impI)
    fix m b
    assume b: "h_nodes h m = Some b"
    then have "m \<noteq> ?n"
      using fresh by auto
    then show "\<exists>x y. h_nodes h3 m = Some (b\<lparr>at_next := x, at_dir := y\<rparr>)"
      using b pa by (cases "m = p") (simp_all add: h3_def link_exs)
  qed (simp_all add: tm)
  moreover have "\<forall>m. h_nodes h3 m \<noteq> None \<longleftrightarrow> m = ?n \<or> h_nodes h m \<noteq> None"
    using pa by (simp add: h3_def)
  moreover have "key_of h3 ?n = Some ?k"
    using pn assms(3) by (simp add: key_of_def tmpl_of_def h3_def h2_def h1_def a_def)
  moreover have n3: "h_nodes h3 ?n = Some (a\<lparr>at_list := (d, i), at_next := at_dir pa\<rparr>)"
    using pn by (simp add: h3_def)
  moreover have "dict_of h d = Some D" "dict_of h3 d = Some (D\<lparr>d_table := (d_table D)(i := ?n # d_table D i)\<rparr>)"
    using D by (simp_all add: dict_of_def h3_def h2_def h1_def)
  ultimately have "added le d p ?n ?k h h3"
    unfolding added_def using fresh s i_def by (simp add: a_def) blast
  then show ?thesis
    using new n3 tm by (auto simp: a_def no_attr_def)
qed

lemma new_attr_no_memory:
  assumes "dict_ok le h d" and "sole h d p" and "h_tmpls h t = Some T" and "dotfree (t_key T)"
    and "\<forall>m. own h d m \<longrightarrow> up h m [t_key T] \<noteq> Some p" and "\<not> h_mem h (h_fresh h)"
  shows "new_attr le d (Some p) t h = Some (None, h\<lparr>h_fresh := Suc (h_fresh h)\<rparr>)"
  using lookup_no_namesake [OF assms(1,2,4,5)] assms(3,6) by (simp add: new_attr_def alloc_attr_def alloc_def)

subsection \<open>A path\<close>

lemma split_dot_join: "dotfree k \<Longrightarrow> split_dot (join (k # ks)) = (k, if ks = [] then None else Some (join ks))"
proof (induction k)
  case Nil
  then show ?case
    by (cases ks) (simp_all add: join_Cons)
next
  case (Cons c k)
  then have "split_dot (join (k # ks)) = (k, if ks = [] then None else Some (join ks))" "c \<noteq> CHR ''.''"
    by (auto simp: dotfree_def)
  then show ?case
    by (cases ks) (simp_all add: join_Cons)
qed

lemma up_snoc: "up h m (rev (k # ks)) = do { n \<leftarrow> up h m (rev ks); up h n [k] }"
  using up_append [of h m "rev ks" "[k]"] by simp

lemma ext_sole:
  assumes "dict_ok le h d" and "ext h h'" and "fresh_ok h" and "sole h d x"
    and "\<forall>m a. own h' d m \<and> \<not> own h d m \<and> h_nodes h' m = Some a \<longrightarrow> h_fresh h \<le> at_template a"
  shows "sole h' d x"
proof -
  obtain a k where x: "h_nodes h x = Some a" "key_of h x = Some k"
    using rooted_node [OF dict_ok_rooted [OF assms(1)]] assms(4) unfolding sole_def by blast
  then have "h_tmpls h (at_template a) \<noteq> None"
    by (auto simp: key_of_def tmpl_of_def bind_Some_iff)
  then have less: "at_template a < h_fresh h"
    using assms(3) by (meson fresh_ok_def not_le)
  have x': "map_option at_template (h_nodes h' x) = Some (at_template a)"
    using ext_node [OF assms(2) x(1)] by auto
  have "m = x" if m: "own h' d m" "same_tmpl h' m x" for m
  proof (cases "own h d m")
    case True
    then obtain b where b: "h_nodes h m = Some b"
      by (auto simp: own_def)
    then have "map_option at_template (h_nodes h' m) = Some (at_template b)"
      using ext_node [OF assms(2) b] by auto
    then have "same_tmpl h m x"
      using m(2) x' x(1) b by (auto simp: same_tmpl_def)
    then show ?thesis
      using assms(4) True by (simp add: sole_def)
  next
    case False
    obtain b where b: "h_nodes h' m = Some b"
      using m(1) by (auto simp: own_def)
    then have "h_fresh h \<le> at_template b"
      using assms(5) m(1) False by blast
    then show ?thesis
      using m(2) x' b less by (simp add: same_tmpl_def)
  qed
  then show ?thesis
    using ext_own [OF assms(2)] assms(4) by (simp add: sole_def)
qed

text \<open>What a creation does: the heap grows, by attributes along the path that have templates of their own.\<close>

definition creates :: "bool \<Rightarrow> nat \<Rightarrow> nat \<Rightarrow> string list \<Rightarrow> 'x attr_heap \<Rightarrow> nat option \<Rightarrow> 'x attr_heap \<Rightarrow> bool" where
  "creates le d dir ks h r h' \<longleftrightarrow> dict_ok le h' d \<and> fresh_ok h' \<and> ext h h' \<and> h_fresh h \<le> h_fresh h' \<and> h_mem h' = h_mem h
     \<and> (\<exists>D t. dict_of h d = Some D \<and> dict_of h' d = Some (D\<lparr>d_table := t\<rparr>))
     \<and> ((\<forall>i. h_mem h i) \<longrightarrow> r \<noteq> None)
     \<and> (\<forall>n. r = Some n \<longrightarrow> own h' d n \<and> up h' n (rev ks) = Some dir)
     \<and> (\<forall>m a. own h' d m \<and> \<not> own h d m \<and> h_nodes h' m = Some a \<longrightarrow>
          h_fresh h \<le> at_template a \<and> at_flags a = ATTR_DEFAULT \<and> (\<exists>j>0. j \<le> length ks \<and> up h' m (rev (take j ks)) = Some dir))"

text \<open>An attribute with a new template below an attribute.\<close>

lemma new_template:
  assumes "dict_ok le h d" and "fresh_ok h"
  shows "\<exists>r h'. alloc_attr_template tm k h = (r, h') \<and> dict_ok le h' d \<and> fresh_ok h' \<and> ext h h' \<and> h_nodes h' = h_nodes h \<and> h_mem h' = h_mem h
    \<and> dict_of h' d = dict_of h d \<and> h_fresh h' = Suc (h_fresh h) \<and> (h_mem h (h_fresh h) \<longleftrightarrow> r \<noteq> None)
    \<and> (\<forall>t. r = Some t \<longrightarrow> t = h_fresh h \<and> h_tmpls h' = (h_tmpls h)(t \<mapsto> tm\<lparr>t_key := k\<rparr>)) \<and> (r = None \<longrightarrow> h_tmpls h' = h_tmpls h)"
proof -
  obtain r h' where a: "alloc_attr_template tm k h = (r, h')"
    by fastforce
  have h': "h_nodes h' = h_nodes h" "h_mem h' = h_mem h" "h_dicts h' = h_dicts h" "h_fresh h' = Suc (h_fresh h)" "h_static h' = h_static h"
    "h_mem h (h_fresh h) \<longleftrightarrow> r \<noteq> None" "r = Some t \<Longrightarrow> t = h_fresh h \<and> h_tmpls h' = (h_tmpls h)(t \<mapsto> tm\<lparr>t_key := k\<rparr>)"
    "r = None \<Longrightarrow> h_tmpls h' = h_tmpls h" for t
    using a by (auto simp: alloc_attr_template_def alloc_def split: if_splits)
  have none: "h_tmpls h (h_fresh h) = None"
    using assms(2) by (simp add: fresh_ok_def)
  have e: "ext h h'"
    using h' none by (cases r) (auto simp: ext_def link_exs(1))
  moreover have "dict_ok le h' d"
    by (rule dict_ok_grows [OF assms(1) ext_grows [OF e]]) (simp_all add: h' dict_of_def)
  moreover have "fresh_ok h'"
    using assms(2) h' by (cases r) (auto simp: fresh_ok_def)
  ultimately show ?thesis
    using a h' by (simp add: dict_of_def)
qed

lemma create_step:
  assumes "dict_ok le h d" and "sole h d p" and "fresh_ok h" and "dotfree k" and "\<forall>m. own h d m \<longrightarrow> up h m [k] \<noteq> Some p"
    and "h_nodes g = h_nodes h" and "dict_ok le g d" and "fresh_ok g" and "ext h g" and "h_mem g = h_mem h" and "dict_of g d = dict_of h d"
    and "h_fresh g = Suc (h_fresh h)" and "h_tmpls g = (h_tmpls h)(h_fresh h \<mapsto> tm\<lparr>t_key := k\<rparr>)" and "h_mem h (h_fresh g)"
  shows "\<exists>h1 h2. new_attr le d (Some p) (h_fresh h) g = Some (Some (h_fresh g), h1)
    \<and> upd_node (h_fresh g) (\<lambda>a. a\<lparr>at_dyntmpl := True\<rparr>) h1 = Some h2
    \<and> creates le d p [k] h (Some (h_fresh g)) h2 \<and> sole h2 d (h_fresh g)
    \<and> (\<forall>m l. own h2 d m \<longrightarrow> up h2 m [l] \<noteq> Some (h_fresh g))"
proof -
  let ?n = "h_fresh g"
  have upg: "up g m ks = up h m ks" if "own h d m" for m ks
    by (rule ext_up [OF assms(9) dict_ok_rooted [OF assms(1) that]])
  have owng: "own g d m \<longleftrightarrow> own h d m" for m
    by (simp add: own_def assms(6))
  have soleg: "sole g d p"
    using assms(2) by (simp add: sole_def own_def same_tmpl_def assms(6))
  have fresh: "h_nodes h ?n = None" "h_tmpls h (h_fresh h) = None"
    using assms(3,12) by (simp_all add: fresh_ok_def)
  have nog: "\<forall>m. own g d m \<longrightarrow> up g m [t_key (tm\<lparr>t_key := k\<rparr>)] \<noteq> Some p"
    using assms(5) owng upg by (simp del: up.simps)
  have tmg: "h_tmpls g (h_fresh h) = Some (tm\<lparr>t_key := k\<rparr>)"
    by (simp add: assms(13))
  obtain h1 a where h1: "new_attr le d (Some p) (h_fresh h) g = Some (Some ?n, h1)" "added le d p ?n k g h1" "h_nodes h1 ?n = Some a"
    "at_template a = h_fresh h" "at_flags a = ATTR_DEFAULT" "h_tmpls h1 = h_tmpls g" "h_fresh h1 = Suc ?n" "h_mem h1 = h_mem g"
    using new_attr_adds [OF assms(7) soleg tmg _ assms(8) nog] assms(4,10,14) by auto
  define h2 where "h2 = h1\<lparr>h_nodes := (h_nodes h1)(?n \<mapsto> a\<lparr>at_dyntmpl := True\<rparr>)\<rparr>"
  have u: "upd_node ?n (\<lambda>a. a\<lparr>at_dyntmpl := True\<rparr>) h1 = Some h2"
    using h1(3) by (simp add: upd_node_def h2_def)
  have e1: "ext h h1"
    using h1(2) ext_trans [OF assms(9)] by (simp add: added_def)
  have e2: "ext h h2"
    unfolding ext_def
  proof (intro conjI allI impI)
    fix m b
    assume "h_nodes h m = Some b"
    then show "\<exists>x y. h_nodes h2 m = Some (b\<lparr>at_next := x, at_dir := y\<rparr>)"
      using ext_node [OF e1] fresh(1) by (cases "m = ?n") (auto simp: h2_def)
  qed (use e1 in \<open>simp_all add: ext_def h2_def\<close>)
  have g12: "grows h1 h2"
    using h1(3) by (auto simp: grows_def h2_def)
  have ok1: "dict_ok le h1 d"
    by (rule dict_ok_added [OF assms(7) _ assms(4) h1(2)]) (use soleg nog in \<open>simp_all add: sole_def del: up.simps\<close>)
  have ok2: "dict_ok le h2 d"
    by (rule dict_ok_grows [OF ok1 g12]) (use h1(3) in \<open>auto simp: h2_def dict_of_def\<close>)
  have own2: "own h2 d m \<longleftrightarrow> m = ?n \<or> own h d m" for m
  proof -
    have "own h2 d m \<longleftrightarrow> own h1 d m"
      using h1(3) by (auto simp: own_def h2_def)
    then show ?thesis
      using added_own [OF h1(2)] owng by simp
  qed
  have up2: "up h2 m ks = up h m ks" if "own h d m" for m ks
    by (rule ext_up [OF e2 dict_ok_rooted [OF assms(1) that]])
  have "rooted h1 ?n"
    by (rule dict_ok_rooted [OF ok1]) (use added_own [OF h1(2)] in simp)
  then have upn: "up h2 ?n [l] = (if l = k then Some p else None)" for l
    using grows_up [OF g12, of ?n "[l]"] added_up [OF h1(2), of l "[]"] by simp
  have n2: "h_nodes h2 ?n = Some (a\<lparr>at_dyntmpl := True\<rparr>)"
    by (simp add: h2_def)
  have pn: "p \<noteq> ?n"
    using assms(2) fresh(1) by (auto simp: sole_def own_def)
  have "fresh_ok h2"
    unfolding fresh_ok_def
  proof (intro allI impI conjI)
    fix m
    assume "h_fresh h2 \<le> m"
    then have m: "m \<noteq> ?n" "h_fresh g \<le> m"
      using h1(7) by (simp_all add: h2_def)
    then have "h_nodes g m = None" "h_tmpls g m = None"
      using assms(8) by (simp_all add: fresh_ok_def)
    then show "h_nodes h2 m = None" "h_tmpls h2 m = None"
      using m(1) h1(6) added_dom [OF h1(2), of m] by (simp_all add: h2_def)
  qed
  moreover have "\<exists>D t. dict_of h d = Some D \<and> dict_of h2 d = Some (D\<lparr>d_table := t\<rparr>)"
    using h1(2) assms(11) by (auto simp: added_def dict_of_def h2_def)
  ultimately have "creates le d p [k] h (Some ?n) h2"
    unfolding creates_def using ok2 e2 own2 upn n2 h1(4,5,7,8) assms(10,12)
    by (auto simp: h2_def intro!: exI [of _ "1 :: nat"])
  moreover have "sole h2 d ?n"
    unfolding sole_def
  proof (intro conjI allI impI)
    fix m
    assume m: "own h2 d m \<and> same_tmpl h2 m ?n"
    show "m = ?n"
    proof (rule ccontr)
      assume "m \<noteq> ?n"
      then have "own h d m"
        using m own2 by simp
      then obtain b l where b: "h_nodes h m = Some b" "key_of h m = Some l"
        using rooted_node [OF dict_ok_rooted [OF assms(1)]] by blast
      then have "at_template b \<noteq> h_fresh h"
        using fresh(2) by (auto simp: key_of_def tmpl_of_def)
      then show False
        using m ext_node [OF e2 b(1)] n2 h1(4) by (auto simp: same_tmpl_def)
    qed
  qed (simp add: own2)
  moreover have "\<forall>m l. own h2 d m \<longrightarrow> up h2 m [l] \<noteq> Some ?n"
  proof (intro allI impI notI)
    fix m l
    assume m: "own h2 d m" "up h2 m [l] = Some ?n"
    show False
    proof (cases "m = ?n")
      case True
      then show ?thesis
        using m(2) upn pn by (simp split: if_splits)
    next
      case False
      then have "own h d ?n"
        using m own2 up2 own_up [OF assms(1), of m "[l]"] by metis
      then show ?thesis
        using fresh(1) by (simp add: own_def)
    qed
  qed
  ultimately show ?thesis
    using h1(1) u by blast
qed

lemma creates_trans:
  assumes "dict_ok le h d" and "fresh_ok h" and "own h d p" and "creates le d p [k] h (Some n) h2" and "creates le d n ks h2 r h'"
  shows "creates le d p (k # ks) h r h'"
proof -
  have e: "ext h h2" "ext h2 h'" "ext h h'"
    using assms(4,5) ext_trans unfolding creates_def by blast+
  have ok: "dict_ok le h2 d" "own h2 d n" "up h2 n [k] = Some p" "h_fresh h \<le> h_fresh h2" "h_mem h2 = h_mem h"
    using assms(4) unfolding creates_def by auto
  have upn: "up h' n [k] = Some p"
    using ext_up [OF e(2) dict_ok_rooted [OF ok(1,2)]] ok(3) by metis
  have lift: "up h' m (rev (k # ls)) = Some p" if "up h' m (rev ls) = Some n" for m ls
    using that upn by (simp only: up_snoc) simp
  have news: "h_fresh h \<le> at_template a \<and> at_flags a = ATTR_DEFAULT \<and> (\<exists>j>0. j \<le> length (k # ks) \<and> up h' m (rev (take j (k # ks))) = Some p)"
    if m: "own h' d m" "\<not> own h d m" "h_nodes h' m = Some a" for m a
  proof (cases "own h2 d m")
    case True
    then obtain b where b: "h_nodes h2 m = Some b"
      by (auto simp: own_def)
    then have "h_fresh h \<le> at_template b \<and> at_flags b = ATTR_DEFAULT \<and> (\<exists>j>0. j \<le> length [k] \<and> up h2 m (rev (take j [k])) = Some p)"
      using assms(4) True m(2) unfolding creates_def by blast
    then have "h_fresh h \<le> at_template b" "at_flags b = ATTR_DEFAULT" "up h2 m [k] = Some p"
      by (auto simp: le_Suc_eq simp del: up.simps)
    moreover have "up h' m [k] = up h2 m [k]"
      by (rule ext_up [OF e(2) dict_ok_rooted [OF ok(1) True]])
    ultimately show ?thesis
      using ext_node [OF e(2) b] m(3) by (auto simp del: up.simps intro!: exI [of _ "1 :: nat"])
  next
    case False
    then obtain j where j: "h_fresh h2 \<le> at_template a" "at_flags a = ATTR_DEFAULT" "j > 0" "j \<le> length ks" "up h' m (rev (take j ks)) = Some n"
      using assms(5) m(1,3) unfolding creates_def by blast
    then show ?thesis
      using ok(4) lift [OF j(5)] by (intro conjI exI [of _ "Suc j"]) simp_all
  qed
  have "\<exists>D t. dict_of h d = Some D \<and> dict_of h' d = Some (D\<lparr>d_table := t\<rparr>)"
    using assms(4,5) unfolding creates_def by fastforce
  then show ?thesis
    using assms(5) e(3) ok(4,5) news lift unfolding creates_def by (simp del: rev.simps up.simps take_Suc_Cons) (meson order_trans)
qed

text \<open>A failure keeps the dictionary.\<close>

lemma creates_none:
  assumes "dict_ok le h' d" and "fresh_ok h'" and "ext h h'" and "h_nodes h' = h_nodes h" and "h_mem h' = h_mem h" and "h_fresh h \<le> h_fresh h'"
    and "dict_of h' d = dict_of h d" and "\<not> h_mem h i"
  shows "creates le d p ks h None h'"
proof -
  obtain D where "dict_of h d = Some D"
    using dict_ok_dict [OF assms(1)] assms(7) by metis
  then have "\<exists>D t. dict_of h d = Some D \<and> dict_of h' d = Some (D\<lparr>d_table := t\<rparr>)"
    using assms(7) by (intro exI [of _ D] exI [of _ "d_table D"]) simp
  then show ?thesis
    using assms unfolding creates_def own_def by auto
qed

lemma create_rest_step:
  assumes "dict_ok le h d" and "sole h d p" and "fresh_ok h" and "dotfree k" and "\<forall>m. own h d m \<longrightarrow> up h m [k] \<noteq> Some p"
  shows "(\<exists>h'. create_rest le d p (join (k # ks)) atmpl h = Some (None, h') \<and> creates le d p (k # ks) h None h')
    \<or> (\<exists>n h2. create_rest le d p (join (k # ks)) atmpl h = (if ks = [] then Some (Some n, h2) else create_rest le d n (join ks) atmpl h2)
        \<and> creates le d p [k] h (Some n) h2 \<and> sole h2 d n \<and> (\<forall>m l. own h2 d m \<longrightarrow> up h2 m [l] \<noteq> Some n))"
proof -
  define tm where "tm = (if ks \<noteq> [] then dir_template else atmpl)"
  obtain r g where g: "alloc_attr_template tm k h = (r, g)" "dict_ok le g d" "fresh_ok g" "ext h g" "h_nodes g = h_nodes h" "h_mem g = h_mem h"
    "dict_of g d = dict_of h d" "h_fresh g = Suc (h_fresh h)" "h_mem h (h_fresh h) \<longleftrightarrow> r \<noteq> None"
    "\<forall>t. r = Some t \<longrightarrow> t = h_fresh h \<and> h_tmpls g = (h_tmpls h)(t \<mapsto> tm\<lparr>t_key := k\<rparr>)" "r = None \<longrightarrow> h_tmpls g = h_tmpls h"
    using new_template [OF assms(1,3), of tm k] by blast
  have rest: "create_rest le d p (join (k # ks)) atmpl h =
      (case alloc_attr_template tm k h of
         (None, h) \<Rightarrow> Some (None, h)
       | (Some t, h) \<Rightarrow> do {
           (r, h) \<leftarrow> new_attr le d (Some p) t h;
           case r of
             None \<Rightarrow> Some (None, h\<lparr>h_tmpls := (h_tmpls h)(t := None)\<rparr>)
           | Some n \<Rightarrow> do {
               h \<leftarrow> upd_node n (\<lambda>a. a\<lparr>at_dyntmpl := True\<rparr>) h;
               if ks = [] then Some (Some n, h) else create_rest le d n (join ks) atmpl h
             }
         })"
    unfolding create_rest.simps [of le d p "join (k # ks)"] split_dot_join [OF assms(4)] tm_def
    by (cases "ks = []") (simp_all cong: option.case_cong prod.case_cong)
  show ?thesis
  proof (cases r)
    case None
    then show ?thesis
      using rest g creates_none [OF g(2,3,4,5,6) _ g(7), of "h_fresh h"] by auto
  next
    case (Some t)
    then have t: "t = h_fresh h" "h_tmpls g = (h_tmpls h)(h_fresh h \<mapsto> tm\<lparr>t_key := k\<rparr>)"
      using g(10) by auto
    show ?thesis
    proof (cases "h_mem h (h_fresh g)")
      case True
      then show ?thesis
      proof -
        obtain h1 h2 where h2: "new_attr le d (Some p) (h_fresh h) g = Some (Some (h_fresh g), h1)"
          "upd_node (h_fresh g) (\<lambda>a. a\<lparr>at_dyntmpl := True\<rparr>) h1 = Some h2" "creates le d p [k] h (Some (h_fresh g)) h2" "sole h2 d (h_fresh g)"
          "\<forall>m l. own h2 d m \<longrightarrow> up h2 m [l] \<noteq> Some (h_fresh g)"
          using create_step [OF assms(1-5) g(5,2,3,4,6,7,8) t(2) True] by blast
        have "create_rest le d p (join (k # ks)) atmpl h = (if ks = [] then Some (Some (h_fresh g), h2) else create_rest le d (h_fresh g) (join ks) atmpl h2)"
          using rest g(1) Some t(1) h2(1,2) by simp
        then show ?thesis
          using h2(3-5) by blast
      qed
    next
      case False
      define f where "f = g\<lparr>h_fresh := Suc (h_fresh g), h_tmpls := (h_tmpls g)(t := None)\<rparr>"
      have owng: "own g d m \<longleftrightarrow> own h d m" for m
        by (simp add: own_def g(5))
      have soleg: "sole g d p"
        using assms(2) by (simp add: sole_def own_def same_tmpl_def g(5))
      have upg: "up g m ks = up h m ks" if "own h d m" for m ks
        by (rule ext_up [OF g(4) dict_ok_rooted [OF assms(1) that]])
      have nog: "\<forall>m. own g d m \<longrightarrow> up g m [t_key (tm\<lparr>t_key := k\<rparr>)] \<noteq> Some p"
        using assms(5) owng upg by (simp del: up.simps)
      have "new_attr le d (Some p) t g = Some (None, g\<lparr>h_fresh := Suc (h_fresh g)\<rparr>)"
        by (rule new_attr_no_memory [OF g(2) soleg _ _ nog]) (use t False assms(4) g(6) in simp_all)
      then have run: "create_rest le d p (join (k # ks)) atmpl h = Some (None, f)"
        using rest g(1) Some by (simp add: f_def)
      have "h_tmpls h (h_fresh h) = None"
        using assms(3) by (simp add: fresh_ok_def)
      then have tf: "h_tmpls f = h_tmpls h"
        using t by (auto simp: f_def)
      have ef: "ext h f"
        using g(4) tf by (simp add: ext_def f_def g(5) link_exs(1))
      moreover have "dict_ok le f d"
        by (rule dict_ok_grows [OF assms(1) ext_grows [OF ef]]) (use g(5,7) in \<open>simp_all add: f_def dict_of_def\<close>)
      moreover have "fresh_ok f"
        using assms(3) g(5,8) tf by (simp add: fresh_ok_def f_def)
      ultimately show ?thesis
        using run creates_none [of le f d h "h_fresh g" p "k # ks"] False g(5,6,7,8) by (auto simp: f_def dict_of_def)
    qed
  qed
qed

lemma create_rest_creates:
  "dict_ok le h d \<Longrightarrow> sole h d p \<Longrightarrow> fresh_ok h \<Longrightarrow> list_all dotfree (k # ks) \<Longrightarrow> \<forall>m. own h d m \<longrightarrow> up h m [k] \<noteq> Some p \<Longrightarrow>
     \<exists>r h'. create_rest le d p (join (k # ks)) atmpl h = Some (r, h') \<and> creates le d p (k # ks) h r h'"
proof (induction ks arbitrary: p k h)
  case Nil
  then have "dotfree k"
    by simp
  then show ?case
    using create_rest_step [OF Nil(1-3) _ Nil(5), of "[]" atmpl] by auto
next
  case (Cons l ks)
  then have "dotfree k" "list_all dotfree (l # ks)"
    by simp_all
  note step = create_rest_step [OF Cons.prems(1-3) this(1) Cons.prems(5), of "l # ks" atmpl]
  show ?case
  proof (cases "\<exists>h'. create_rest le d p (join (k # l # ks)) atmpl h = Some (None, h') \<and> creates le d p (k # l # ks) h None h'")
    case False
    then obtain n h2 where n: "create_rest le d p (join (k # l # ks)) atmpl h = create_rest le d n (join (l # ks)) atmpl h2"
      "creates le d p [k] h (Some n) h2" "sole h2 d n" "\<forall>m l. own h2 d m \<longrightarrow> up h2 m [l] \<noteq> Some n"
      using step by auto
    then have "dict_ok le h2 d" "fresh_ok h2"
      by (simp_all add: creates_def)
    then obtain r h' where r: "create_rest le d n (join (l # ks)) atmpl h2 = Some (r, h')" "creates le d n (l # ks) h2 r h'"
      using Cons.IH [of h2 n l] n(3,4) \<open>list_all dotfree (l # ks)\<close> by blast
    moreover have "creates le d p (k # l # ks) h r h'"
      by (rule creates_trans [OF Cons.prems(1,3) _ n(2) r(2)]) (use Cons.prems(2) in \<open>simp add: sole_def\<close>)
    ultimately show ?thesis
      using n(1) by auto
  qed blast
qed

end
