(* ===== verification/Attr_Paths.thy ===== *)
theory Attr_Paths
  imports Attr_Create
begin

section \<open>Lookup of created attributes\<close>

text \<open>
  The search for the longest prefix that exists, and what \<open>create_attr_path\<close> does to the lookups of a dictionary without a fallback.
\<close>

definition no_fallback :: "'x attr_heap \<Rightarrow> nat \<Rightarrow> bool" where
  "no_fallback h d \<longleftrightarrow> (\<exists>D. dict_of h d = Some D \<and> d_fallback D = None)"

text \<open>Every attribute along the path is the only one with its template.\<close>

definition sole_path :: "'x attr_heap \<Rightarrow> nat \<Rightarrow> nat \<Rightarrow> string list \<Rightarrow> bool" where
  "sole_path h d dir ks \<longleftrightarrow> (\<forall>i m. i \<le> length ks \<and> own h d m \<and> up h m (rev (take i ks)) = Some dir \<longrightarrow> sole h d m)"

definition absent :: "'x attr_heap \<Rightarrow> nat \<Rightarrow> nat \<Rightarrow> string list \<Rightarrow> bool" where
  "absent h d dir ks \<longleftrightarrow> (\<forall>m. own h d m \<longrightarrow> up h m (rev ks) \<noteq> Some dir)"

lemma lookup_prefix:
  assumes "dict_ok le h d" and "sole h d dir" and "no_fallback h d" and "path_ok (pre @ suf)" and "pre \<noteq> []"
  shows "\<exists>r. lookup_dir_attr le h d dir (join (pre @ suf)) (length (join pre)) = Some r
    \<and> (\<forall>n. r = Some n \<longleftrightarrow> own h d n \<and> up h n (rev pre) = Some dir)"
proof -
  obtain D where D: "dict_of h d = Some D" "d_fallback D = None"
    using assms(3) by (auto simp: no_fallback_def)
  have pre: "path_ok pre"
    using assms(4,5) by (cases pre) (auto simp: path_ok_def)
  obtain junk where junk: "join (pre @ suf) = join pre @ junk" "join pre = [] \<longrightarrow> junk = []"
  proof (cases "suf = []")
    case True
    then show ?thesis
      using that [of "[]"] by simp
  next
    case False
    then have "join pre \<noteq> []"
      using assms(4,5) by (cases pre rule: join.cases) (auto simp: path_ok_def)
    then show ?thesis
      using that join_append [OF assms(5) False] by blast
  qed
  then show ?thesis
    using lookup_at [OF assms(1,2) pre D, of junk] by auto
qed

text \<open>The prefix that is found is the longest.\<close>

lemma find_prefix_longest:
  "dict_ok le h d \<Longrightarrow> sole h d dir \<Longrightarrow> no_fallback h d \<Longrightarrow> path_ok (pre @ suf) \<Longrightarrow> pre \<noteq> [] \<Longrightarrow>
     \<exists>i attr. i \<le> length pre \<and> find_prefix le h d dir (join (pre @ suf)) (length (join pre)) =
         Some (if i = 0 then None else Some (length (join (take i pre))), attr)
       \<and> own h d attr \<and> up h attr (rev (take i pre)) = Some dir \<and> (\<forall>j. i < j \<and> j \<le> length pre \<longrightarrow> absent h d dir (take j pre))"
proof (induction pre arbitrary: suf rule: rev_induct)
  case (snoc k pre)
  note prems = snoc.prems
  let ?ks = "pre @ [k]" and ?path = "join ((pre @ [k]) @ suf)"
  obtain r where r: "lookup_dir_attr le h d dir ?path (length (join ?ks)) = Some r"
    "\<forall>n. r = Some n \<longleftrightarrow> own h d n \<and> up h n (rev ?ks) = Some dir"
    using lookup_prefix [OF prems(1-4)] by blast
  show ?case
  proof (cases r)
    case (Some n)
    then have "find_prefix le h d dir ?path (length (join ?ks)) = Some (Some (length (join ?ks)), n)"
      using r(1) by (subst find_prefix.simps) simp
    moreover have "own h d n" "up h n (rev ?ks) = Some dir"
      using r(2) Some by blast+
    ultimately show ?thesis
      by - (rule exI [of _ "length ?ks"], rule exI [of _ n], auto simp del: rev_append up.simps)
  next
    case None
    then have gone: "absent h d dir ?ks"
      using r(2) by (auto simp: absent_def simp del: rev_append up.simps)
    have k: "dotfree k"
      using prems(4) by (simp add: path_ok_def)
    show ?thesis
    proof (cases "pre = []")
      case True
      obtain t where t: "?path = k @ t"
        using True by (cases "suf = []") (auto simp: join_Cons)
      have "find_prefix le h d dir ?path (length (join ?ks)) = Some (None, dir)"
        using r(1) None True memrchr_dot_join(1) [OF k, of t] t by (subst find_prefix.simps) simp
      then show ?thesis
        using gone True prems(2) by - (rule exI [of _ 0], rule exI [of _ dir], auto simp: sole_def le_Suc_eq)
    next
      case False
      obtain t where t: "?path = join pre @ CHR ''.'' # k @ t"
        using False by (cases "suf = []") (auto simp: join_snoc join_append join_Cons)
      have "length (join ?ks) = length (join pre) + 1 + length k"
        using False by (simp add: join_snoc)
      then have "find_prefix le h d dir ?path (length (join ?ks)) = find_prefix le h d dir ?path (length (join pre))"
        using r(1) None memrchr_dot_join(2) [OF k, of "join pre" t] t by (subst find_prefix.simps) simp
      moreover obtain i attr where i: "i \<le> length pre" "find_prefix le h d dir ?path (length (join pre)) =
          Some (if i = 0 then None else Some (length (join (take i pre))), attr)" "own h d attr" "up h attr (rev (take i pre)) = Some dir"
        "\<forall>j. i < j \<and> j \<le> length pre \<longrightarrow> absent h d dir (take j pre)"
        using snoc.IH [OF prems(1-3), of "[k] @ suf"] prems(4) False by auto
      ultimately show ?thesis
        using gone by - (rule exI [of _ i], rule exI [of _ attr], auto simp: le_Suc_eq)
    qed
  qed
qed simp

text \<open>An extension keeps what a lookup finds.\<close>

lemma lookup_kept:
  assumes "dict_ok le h d" and "sole h d dir" and "no_fallback h d" and "path_ok ks"
    and "dict_ok le h' d" and "sole h' d dir" and "no_fallback h' d" and "ext h h'"
    and "\<forall>m. own h' d m \<and> \<not> own h d m \<longrightarrow> up h' m (rev ks) \<noteq> Some dir"
  shows "lookup_dir_attr le h' d dir (join ks) (length (join ks)) = lookup_dir_attr le h d dir (join ks) (length (join ks))"
proof -
  have ks: "path_ok (ks @ [])" "ks \<noteq> []"
    using assms(4) by (auto simp: path_ok_def)
  obtain r where r: "lookup_dir_attr le h d dir (join ks) (length (join ks)) = Some r" "\<forall>n. r = Some n \<longleftrightarrow> own h d n \<and> up h n (rev ks) = Some dir"
    using lookup_prefix [OF assms(1-3) ks] by auto
  obtain r' where r': "lookup_dir_attr le h' d dir (join ks) (length (join ks)) = Some r'" "\<forall>n. r' = Some n \<longleftrightarrow> own h' d n \<and> up h' n (rev ks) = Some dir"
    using lookup_prefix [OF assms(5-7) ks] by auto
  have "r' = Some n \<longleftrightarrow> r = Some n" for n
    using r(2) r'(2) assms(9) ext_own [OF assms(8)] ext_up [OF assms(8) dict_ok_rooted [OF assms(1)]] by metis
  then have "r' = r"
    by (cases r; cases r') auto
  then show ?thesis
    using r(1) r'(1) by simp
qed

text \<open>The whole creation: nothing, if the attribute is there, and else the part that is missing.\<close>

lemma create_attr_path_creates:
  assumes "dict_ok le h d" and "fresh_ok h" and "no_fallback h d" and "path_ok ks" and "own h d dir" and "sole_path h d dir ks"
  shows "\<exists>r h'. create_attr_path le d dir (join ks) (length (join ks)) atmpl h = Some (r, h')
    \<and> (if absent h d dir ks then creates le d dir ks h r h' else h' = h \<and> (\<exists>n. r = Some n \<and> own h d n \<and> up h n (rev ks) = Some dir))"
proof -
  have sole: "sole h d dir"
    using assms(5,6) unfolding sole_path_def by (metis le0 rev.simps(1) take_0 up.simps(1))
  have ks: "path_ok (ks @ [])" "ks \<noteq> []"
    using assms(4) by (auto simp: path_ok_def)
  obtain i attr where i: "i \<le> length ks" "find_prefix le h d dir (join ks) (length (join ks)) = Some (if i = 0 then None else Some (length (join (take i ks))), attr)"
    "own h d attr" "up h attr (rev (take i ks)) = Some dir" "\<forall>j. i < j \<and> j \<le> length ks \<longrightarrow> absent h d dir (take j ks)"
    using find_prefix_longest [OF assms(1) sole assms(3) ks] by auto
  show ?thesis
  proof (cases "i = length ks")
    case True
    then have "create_attr_path le d dir (join ks) (length (join ks)) atmpl h = Some (Some attr, h)"
      using i(2) ks(2) by (simp add: create_attr_path_def)
    then show ?thesis
      using True i(3,4) by (auto simp: absent_def)
  next
    case False
    then have less: "i < length ks"
      using i(1) by simp
    obtain k ls where kls: "drop i ks = k # ls"
      using less by (cases "drop i ks") auto
    have ksi: "ks = take i ks @ k # ls"
      using kls by (metis append_take_drop_id)
    have gone: "absent h d dir ks"
      using i(5) less by (metis le_refl take_all_iff)
    have join: "join ks = join (take i ks) @ CHR ''.'' # join (k # ls)" if "i \<noteq> 0"
      using join_append [of "take i ks" "k # ls"] that less ksi by (metis list.distinct(1) list.size(3) not_less_zero take_eq_Nil)
    have rest: "take (length (join ks) - (case e of Some i \<Rightarrow> Suc i | None \<Rightarrow> 0)) (drop (case e of Some i \<Rightarrow> Suc i | None \<Rightarrow> 0) (join ks)) = join (k # ls)"
      if "e = (if i = 0 then None else Some (length (join (take i ks))))" for e
    proof (cases "i = 0")
      case True
      then show ?thesis
        using that kls by simp
    next
      case False
      then show ?thesis
        using that join [OF False] by simp
    qed
    have run: "create_attr_path le d dir (join ks) (length (join ks)) atmpl h = create_rest le d attr (join (k # ls)) atmpl h"
      using i(2) join rest by (auto simp: create_attr_path_def)
    have nochild: "up h m [k] \<noteq> Some attr" if "own h d m" for m
    proof
      assume "up h m [k] = Some attr"
      then have "up h m (rev (take i ks @ [k])) = Some dir"
        using i(4) by (simp only: rev_append up_append rev.simps append_Nil) simp
      moreover have "take i ks @ [k] = take (Suc i) ks"
        using kls less by (metis hd_drop_conv_nth list.sel(1) take_Suc_conv_app_nth)
      ultimately show False
        using i(5) less that by (auto simp: absent_def)
    qed
    have dots: "list_all dotfree (k # ls)"
      using assms(4) ksi by (metis list_all_append path_ok_def)
    obtain r h' where r: "create_rest le d attr (join (k # ls)) atmpl h = Some (r, h')" "creates le d attr (k # ls) h r h'"
      using create_rest_creates [OF assms(1) _ assms(2) dots, of attr atmpl] nochild assms(6) i(1,3,4) by (auto simp: sole_path_def simp del: up.simps)
    have e: "ext h h'" "dict_ok le h' d"
      using r(2) by (simp_all add: creates_def)
    have lift: "up h' m (rev (take i ks @ ls')) = Some dir" if "up h' m (rev ls') = Some attr" for m ls'
      using that i(4) ext_up [OF e(1) dict_ok_rooted [OF assms(1) i(3)]] by (simp only: rev_append up_append) simp
    have "creates le d dir ks h r h'"
      unfolding creates_def
    proof (intro conjI allI impI)
      fix n
      assume "r = Some n"
      then show "own h' d n" "up h' n (rev ks) = Some dir"
        using r(2) lift [of n "k # ls"] ksi by (auto simp: creates_def)
    next
      fix m a
      assume m: "own h' d m \<and> \<not> own h d m \<and> h_nodes h' m = Some a"
      then obtain j where j: "h_fresh h \<le> at_template a" "at_flags a = ATTR_DEFAULT" "j > 0" "j \<le> length (k # ls)" "up h' m (rev (take j (k # ls))) = Some attr"
        using r(2) unfolding creates_def by blast
      have "take i ks @ take j (k # ls) = take (i + j) ks"
        using kls by (simp add: take_add)
      then have "up h' m (rev (take (i + j) ks)) = Some dir"
        using lift [OF j(5)] by simp
      moreover have "i + j \<le> length ks"
        using j(4) kls by (metis add_le_cancel_left i(1) le_add_diff_inverse length_drop)
      ultimately show "h_fresh h \<le> at_template a" "at_flags a = ATTR_DEFAULT" "\<exists>j>0. j \<le> length ks \<and> up h' m (rev (take j ks)) = Some dir"
        using j(1-3) by (auto intro!: exI [of _ "i + j"])
    qed (use r(2) in \<open>auto simp: creates_def\<close>)
    then show ?thesis
      using run r(1) gone by auto
  qed
qed

subsection \<open>Paths are unique\<close>

lemma up_self:
  assumes "rooted h n" and "up h n ks = Some n"
  shows "ks = []"
proof (rule ccontr)
  assume "ks \<noteq> []"
  then obtain ls k where ks: "ks = rev (ls @ [k])"
    by (metis rev_exhaust rev_rev_ident rev_is_Nil_conv)
  obtain s where s: "dir_prefix h n s"
    using rooted_prefix [OF assms(1)] by blast
  obtain a p sp where a: "h_nodes h n = Some a" "at_parent a = Some p" "key_of h n = Some k" "dir_prefix h p sp" "sp @ k = s @ join (ls @ [k])"
    using up_prefix [OF assms(2) [unfolded ks] s] by blast
  have "dir_prefix h n (sp @ k @ ''.'')"
    by (rule dir_child [OF a(4,1,2,3)])
  then have "s = (sp @ k) @ ''.''"
    using dir_prefix_unique [OF s] by simp
  then have "length s = length ((s @ join (ls @ [k])) @ ''.'')"
    using a(5) by metis
  then show False
    by simp
qed

lemma up_paths: "rooted h m \<Longrightarrow> up h m ks = Some x \<Longrightarrow> up h m ls = Some x \<Longrightarrow> ks = ls"
proof (induction ks arbitrary: m ls)
  case Nil
  then show ?case
    using up_self by fastforce
next
  case (Cons k ks)
  obtain a p where a: "h_nodes h m = Some a" "at_parent a = Some p" "key_of h m = Some k" "up h p ks = Some x"
    using Cons.prems(2) by (auto simp: bind_Some_iff split: if_splits)
  show ?case
  proof (cases ls)
    case Nil
    then show ?thesis
      using up_self [OF Cons.prems(1), of "k # ks"] Cons.prems(2,3) by simp
  next
    case (Cons l ls')
    then have "l = k" "up h p ls' = Some x"
      using Cons.prems(3) a by (auto split: if_splits)
    then show ?thesis
      using Cons.IH [OF rooted_parent [OF Cons.prems(1) a(1,2)] a(4)] Cons by simp
  qed
qed

subsection \<open>A small dictionary\<close>

text \<open>A dictionary with a root and one number below it, for examples.\<close>

definition sample_node :: "nat option \<Rightarrow> nat \<Rightarrow> nat \<times> nat \<Rightarrow> nat option \<Rightarrow> attr_data" where
  "sample_node p t l d = \<lparr>at_next = None, at_parent = p, at_template = t, at_flags = ATTR_DEFAULT, at_dyntmpl = False, at_val = Zero_Val,
     at_dir = d, at_pval = 0, at_list = l\<rparr>"

definition sample_tmpl :: "string \<Rightarrow> attr_type \<Rightarrow> attr_template" where
  "sample_tmpl k ty = \<lparr>t_key = k, t_link = No_Link, t_type = ty, t_override = False, t_ops = None\<rparr>"

definition sample :: "unit attr_heap" where
  "sample = \<lparr>
     h_nodes = [0 \<mapsto> sample_node None 0 (0, 0) (Some 1), 1 \<mapsto> sample_node (Some 0) 1 (0, path_index True ''a'') None],
     h_tmpls = [0 \<mapsto> sample_tmpl [] KDUMP_DIRECTORY, 1 \<mapsto> sample_tmpl ''a'' KDUMP_NUMBER],
     h_ops = (\<lambda>_. \<lparr>pre_set = None, post_set = None, pre_clear = None, revalidate = None\<rparr>),
     h_dicts = [0 \<mapsto> \<lparr>d_refcnt = 1, d_table = (\<lambda>i. (if i = path_index True ''a'' then [1] else []) @ (if i = 0 then [0] else [])),
                      d_fallback = None, d_global = [0 \<mapsto> 0], d_live = True\<rparr>],
     h_static = (\<lambda>_. Zero_Val), h_blobs = Map.empty, h_bmps = Map.empty, h_shared = 1, h_fresh = 2, h_mem = (\<lambda>_. True), h_ctx = ()\<rparr>"

lemma sample_parts:
  "h_nodes sample n = (if n = 0 then Some (sample_node None 0 (0, 0) (Some 1))
     else if n = 1 then Some (sample_node (Some 0) 1 (0, path_index True ''a'') None) else None)"
  "h_tmpls sample n = (if n = 0 then Some (sample_tmpl [] KDUMP_DIRECTORY) else if n = 1 then Some (sample_tmpl ''a'' KDUMP_NUMBER) else None)"
  "dict_of sample n = (if n = 0 then Some \<lparr>d_refcnt = 1, d_table = (\<lambda>i. (if i = path_index True ''a'' then [1] else []) @ (if i = 0 then [0] else [])),
                      d_fallback = None, d_global = [0 \<mapsto> 0], d_live = True\<rparr> else None)"
  by (simp_all add: sample_def dict_of_def)

lemma sample_keys: "key_of sample n = (if n = 0 then Some [] else if n = 1 then Some ''a'' else None)"
  by (simp add: key_of_def tmpl_of_def sample_parts sample_node_def sample_tmpl_def)

lemma sample_own: "own sample 0 n \<longleftrightarrow> n = 0 \<or> n = 1"
  by (simp add: own_def sample_parts sample_node_def)

lemma sample_rooted: "rooted sample 0" "rooted sample 1"
proof -
  show r: "rooted sample 0"
    by (rule rooted_root [of _ _ "sample_node None 0 (0, 0) (Some 1)" "[]"]) (simp_all add: sample_parts sample_keys sample_node_def)
  show "rooted sample 1"
    by (rule rooted_child [OF r, of _ "sample_node (Some 0) 1 (0, path_index True ''a'') None" "''a''"])
      (simp_all add: sample_parts sample_keys sample_node_def)
qed

lemma sample_prefix: "dir_prefix sample 0 s \<longleftrightarrow> s = []"
proof
  show "dir_prefix sample 0 s \<Longrightarrow> s = []"
    by (erule dir_prefix_rootD [of _ _ _ "sample_node None 0 (0, 0) (Some 1)"]) (simp_all add: sample_parts sample_node_def)
  show "s = [] \<Longrightarrow> dir_prefix sample 0 s"
    using dir_root [of sample 0] by (simp add: sample_parts sample_node_def)
qed

lemma sample_up: "up sample n [k] = Some p \<longleftrightarrow> n = 1 \<and> k = ''a'' \<and> p = 0"
  unfolding up_single by (auto simp: sample_parts sample_keys sample_node_def split: if_splits)

lemma sample_node_ok: "n < 2 \<Longrightarrow> h_nodes sample n = Some a \<Longrightarrow> node_ok True sample 0 n a"
  using sample_rooted
  by (cases "n = 0") (auto simp: sample_prefix node_ok_def sample_parts sample_keys sample_own dotfree_def sample_node_def less_Suc_eq numeral_2_eq_2)

lemma sample_ok: "dict_ok True sample 0"
  unfolding dict_ok_def
proof (intro exI [of _ "the (dict_of sample 0)"] conjI)
  show "dict_of sample 0 = Some (the (dict_of sample 0))"
    by (simp add: sample_parts)
  show "\<forall>n a. h_nodes sample n = Some a \<and> fst (at_list a) = 0 \<longrightarrow> node_ok True sample 0 n a"
    using sample_node_ok by (auto simp: sample_parts(1) split: if_splits)
  show "\<forall>i n. n \<in> set (d_table (the (dict_of sample 0)) i) \<longleftrightarrow> (\<exists>a. h_nodes sample n = Some a \<and> at_list a = (0, i))"
    by (auto simp: sample_parts sample_node_def)
  show "\<forall>m n k p. own sample 0 m \<and> own sample 0 n \<and> up sample m [k] = Some p \<and> up sample n [k] = Some p \<longrightarrow> m = n"
    unfolding sample_up by blast
qed

lemma sample_sole: "n < 2 \<Longrightarrow> sole sample 0 n"
  by (auto simp: sole_def sample_own same_tmpl_def sample_parts sample_node_def less_Suc_eq numeral_2_eq_2)

lemma sample_fresh: "fresh_ok sample" and sample_fallback: "no_fallback sample 0"
  by (simp_all add: fresh_ok_def no_fallback_def sample_parts) (simp add: sample_def)

lemma sample_path: "sole_path sample 0 0 ks"
  using sample_sole by (auto simp: sole_path_def sample_own)

text \<open>
  C36. Creating an attribute: in a well-formed dictionary \<open>create_attr_path\<close> returns, with an attribute unless memory runs out; the dictionary
  is well-formed again, and a lookup of the path gives this attribute. The lookup of any path gives the same as before, unless there was nothing
  and the path is a part of the new one.
\<close>

theorem created_attr_is_found:
  assumes "dict_ok le h d" and "fresh_ok h" and "no_fallback h d" and "path_ok ks" and "own h d dir" and "sole_path h d dir ks"
  shows "\<exists>r h'. create_attr_path le d dir (join ks) (length (join ks)) atmpl h = Some (r, h') \<and> dict_ok le h' d \<and> fresh_ok h'
    \<and> ((\<forall>i. h_mem h i) \<longrightarrow> r \<noteq> None)
    \<and> (\<forall>n. r = Some n \<longrightarrow> lookup_dir_attr le h' d dir (join ks) (length (join ks)) = Some (Some n))
    \<and> (\<forall>ls. path_ok ls \<and> (lookup_dir_attr le h d dir (join ls) (length (join ls)) \<noteq> Some None \<or> (\<forall>j. ls \<noteq> take j ks)) \<longrightarrow>
         lookup_dir_attr le h' d dir (join ls) (length (join ls)) = lookup_dir_attr le h d dir (join ls) (length (join ls)))"
proof -
  have sole: "sole h d dir"
    using assms(5,6) unfolding sole_path_def by (metis le0 rev.simps(1) take_0 up.simps(1))
  have found: "lookup_dir_attr le g d dir (join ls) (length (join ls)) = Some (Some n)"
    if "dict_ok le g d" "sole g d dir" "no_fallback g d" "path_ok ls" "own g d n" "up g n (rev ls) = Some dir" for g ls n
  proof -
    have "path_ok (ls @ [])" "ls \<noteq> []"
      using that(4) by (auto simp: path_ok_def)
    then show ?thesis
      using lookup_prefix [OF that(1-3), of ls "[]"] that(5,6) by fastforce
  qed
  obtain r h' where r: "create_attr_path le d dir (join ks) (length (join ks)) atmpl h = Some (r, h')"
    "if absent h d dir ks then creates le d dir ks h r h' else h' = h \<and> (\<exists>n. r = Some n \<and> own h d n \<and> up h n (rev ks) = Some dir)"
    using create_attr_path_creates [OF assms] by blast
  show ?thesis
  proof (cases "absent h d dir ks")
    case False
    then show ?thesis
      using r assms(1,2) found [OF assms(1) sole assms(3,4)] by auto
  next
    case True
    then have c: "creates le d dir ks h r h'"
      using r(2) by simp
    then have ok: "dict_ok le h' d" "fresh_ok h'" "ext h h'"
      by (simp_all add: creates_def)
    have sole': "sole h' d dir"
      by (rule ext_sole [OF assms(1) ok(3) assms(2) sole]) (use c in \<open>auto simp: creates_def\<close>)
    have nf: "no_fallback h' d"
      using c assms(3) by (auto simp: creates_def no_fallback_def)
    have "lookup_dir_attr le h' d dir (join ls) (length (join ls)) = lookup_dir_attr le h d dir (join ls) (length (join ls))"
      if ls: "path_ok ls" "lookup_dir_attr le h d dir (join ls) (length (join ls)) \<noteq> Some None \<or> (\<forall>j. ls \<noteq> take j ks)" for ls
    proof (rule lookup_kept [OF assms(1) sole assms(3) ls(1) ok(1) sole' nf ok(3)], intro allI impI notI)
      fix m
      assume m: "own h' d m \<and> \<not> own h d m" "up h' m (rev ls) = Some dir"
      obtain b where "h_nodes h' m = Some b"
        using m(1) by (auto simp: own_def)
      then obtain j where "up h' m (rev (take j ks)) = Some dir"
        using c m(1) unfolding creates_def by blast
      then have "ls = take j ks"
        using up_paths [OF dict_ok_rooted [OF ok(1)] m(2)] m(1) by fastforce
      moreover have "lookup_dir_attr le h d dir (join ls) (length (join ls)) = Some None"
      proof (rule ccontr)
        assume n: "lookup_dir_attr le h d dir (join ls) (length (join ls)) \<noteq> Some None"
        have "path_ok (ls @ [])" "ls \<noteq> []"
          using ls(1) by (auto simp: path_ok_def)
        then obtain q where q: "own h d q" "up h q (rev ls) = Some dir"
          using lookup_prefix [OF assms(1) sole assms(3), of ls "[]"] n by auto
        then have "own h' d q" "up h' q (rev ls) = Some dir"
          using ext_own [OF ok(3)] ext_up [OF ok(3) dict_ok_rooted [OF assms(1)]] by metis+
        then show False
          using up_unique [OF ok(1), of m q] m q(1) by metis
      qed
      ultimately show False
        using ls(2) by blast
    qed
    then show ?thesis
      using r(1) ok(1,2) c found [OF ok(1) sole' nf assms(4)] by (auto simp: creates_def)
  qed
qed

theorem created_attr_is_found_witness:
  "\<exists>n h'. create_attr_path True 0 0 (join [''b'', ''c'']) (length (join [''b'', ''c''])) (sample_tmpl [] KDUMP_STRING) sample = Some (Some n, h')
     \<and> dict_ok True h' 0 \<and> lookup_dir_attr True h' 0 0 (join [''b'', ''c'']) (length (join [''b'', ''c''])) = Some (Some n)
     \<and> lookup_dir_attr True h' 0 0 (join [''a'']) (length (join [''a''])) = lookup_dir_attr True sample 0 0 (join [''a'']) (length (join [''a'']))"
proof -
  have ok: "path_ok [''b'', ''c'']" "path_ok [''a'']" "\<forall>j. [''a''] \<noteq> take j [''b'', ''c'']"
    by (simp_all add: path_ok_def dotfree_def take_Cons split: nat.split)
  have own: "own sample 0 0" and mem: "\<forall>i. h_mem sample i"
    by (simp add: sample_own) (simp add: sample_def)
  show ?thesis
    using created_attr_is_found [OF sample_ok sample_fresh sample_fallback ok(1) own sample_path, of "sample_tmpl [] KDUMP_STRING"] ok(2,3) mem
    by (elim exE conjE) blast
qed

end
