(* ===== verification/Attr_Values.thy ===== *)
theory Attr_Values
  imports Attr_Paths
begin

section \<open>Setting and getting values\<close>







subsection \<open>Directories become set\<close>

definition mark :: "nat set \<Rightarrow> 'x attr_heap \<Rightarrow> 'x attr_heap" where
  "mark S h = h\<lparr>h_nodes := (\<lambda>m. if m \<in> S then map_option (\<lambda>a. a\<lparr>at_flags := (at_flags a)\<lparr>isset := True\<rparr>\<rparr>) (h_nodes h m) else h_nodes h m)\<rparr>"

lemma mark_empty [simp]: "mark {} h = h"
  by (simp add: mark_def)

lemma mark_node: "h_nodes (mark S h) m = map_option (\<lambda>a. if m \<in> S then a\<lparr>at_flags := (at_flags a)\<lparr>isset := True\<rparr>\<rparr> else a) (h_nodes h m)"
  by (simp add: mark_def option.map_ident)






lemma mark_grows: "grows h (mark S h)"
  by (auto simp: grows_def mark_node) (auto simp: mark_def)

lemma mark_same [simp]:
  "h_tmpls (mark S h) = h_tmpls h" "h_static (mark S h) = h_static h" "h_ops (mark S h) = h_ops h" "h_dicts (mark S h) = h_dicts h"
  "tmpl_of (mark S h) n = tmpl_of h n" "h_fresh (mark S h) = h_fresh h" "h_mem (mark S h) = h_mem h" "hook_of f (mark S h) t = hook_of f h t"
  by (auto simp: mark_def tmpl_of_def hook_of_def split: option.split) (cases "h_nodes h n"; simp)

subsection \<open>One attribute is set\<close>







subsection \<open>The interface\<close>



end
