(* ===== verification/Kdump_Attrs.thy ===== *)
theory Kdump_Attrs
  imports Attr_Api Kdump_Util_Facts
begin

section \<open>Attributes of a dump (src/kdumpfile/kdumpfile-priv.h, src/kdumpfile/util.c)\<close>

text \<open>
  The functions by which the rest of the library uses attributes: accessors of global attributes, numbers in the byte order of the
  dump, attributes of processors, and attributes that are derived from a part of a blob. What a context holds besides its attributes is a
  part of the heap that only some functions look at.
\<close>

subsection \<open>Access to global attributes\<close>

text \<open>
  What the functions refer to: the hooks, the byte order of the host, the dictionary, the addresses of the static templates
  and of their operations, the offsets and lengths of the derived attributes by the address of their template, the architecture whose operations
  are in use, and what its operations do with the state of a processor.
\<close>

record 'x kenv =
  ke_hooks :: "'x attr_hooks"
  ke_le :: bool
  ke_dict :: nat
  ke_prstatus :: nat
  ke_qemu_cpustate :: nat
  ke_xen_prstatus :: nat
  ke_prstatus_ops :: nat
  ke_qemu_ops :: nat
  ke_xen_ops :: nat
  ke_lines_ops :: nat
  ke_dirty_xlat_ops :: nat
  ke_phys_base_ops :: nat
  ke_derived :: "nat \<Rightarrow> (nat \<times> nat) option"
  ke_arch_ops :: "'x \<Rightarrow> kdump_arch option"
  ke_osdir :: "'x \<Rightarrow> nat option"
  ke_set_dirty :: "'x \<Rightarrow> 'x"
  ke_process_prstatus :: "kdump_arch \<Rightarrow> (u32 \<Rightarrow> u8 list \<Rightarrow> nat \<Rightarrow> 'x attr_heap \<Rightarrow> (kstatus \<times> 'x attr_heap) option) option"
  ke_process_qemu :: "kdump_arch \<Rightarrow> (u32 \<Rightarrow> u8 list \<Rightarrow> nat \<Rightarrow> 'x attr_heap \<Rightarrow> (kstatus \<times> 'x attr_heap) option) option"

definition gattr :: "'x kenv \<Rightarrow> 'x attr_heap \<Rightarrow> nat \<Rightarrow> nat option" where
  "gattr E h idx = dgattr h (ke_dict E) idx"

text \<open>A static attribute is read at its place in the shared data, whether it is set or not.\<close>

definition get_static :: "string \<Rightarrow> 'x attr_heap \<Rightarrow> attr_val" where
  "get_static field h = h_static h (GKI field - GKI_static_first)"

definition get_number :: "string \<Rightarrow> 'x attr_heap \<Rightarrow> u64" where
  "get_number field h = (case get_static field h of Number v \<Rightarrow> v | _ \<Rightarrow> 0)"

definition isset_static :: "'x kenv \<Rightarrow> string \<Rightarrow> 'x attr_heap \<Rightarrow> bool option" where
  "isset_static E field h = do { n \<leftarrow> gattr E h (GKI field); a \<leftarrow> h_nodes h n; Some (attr_isset a) }"

definition set_static :: "'x kenv \<Rightarrow> string \<Rightarrow> attr_val \<Rightarrow> 'x attr_heap \<Rightarrow> (kstatus \<times> 'x attr_heap) option" where
  "set_static E field v h = do { n \<leftarrow> gattr E h (GKI field); set_attr (ke_hooks E) n ATTR_DEFAULT (Here v) h }"

definition set_page_size :: "'x kenv \<Rightarrow> u64 \<Rightarrow> 'x attr_heap \<Rightarrow> (kstatus \<times> 'x attr_heap) option" where
  "set_page_size E sz h = set_static E ''page_size'' (Number sz) h"

subsection \<open>Byte order\<close>

definition KDUMP_BIG_ENDIAN :: u64 where
  "KDUMP_BIG_ENDIAN = 0"

text \<open>A number is the bytes that it has in the memory of the dump, so a conversion reads or writes its bytes.\<close>

definition dump_toh :: "u8 list \<Rightarrow> 'x attr_heap \<Rightarrow> u64" where
  "dump_toh bs h = (if get_number ''byte_order'' h = KDUMP_BIG_ENDIAN then be_bytes bs else be_bytes (rev bs))"

definition le_bytes :: "nat \<Rightarrow> u64 \<Rightarrow> u8 list" where
  "le_bytes n v = map (\<lambda>i. ucast (drop_bit (8 * i) v)) [0..<n]"

definition htodump :: "nat \<Rightarrow> u64 \<Rightarrow> 'x attr_heap \<Rightarrow> u8 list" where
  "htodump n v h = (if get_number ''byte_order'' h = KDUMP_BIG_ENDIAN then rev (le_bytes n v) else le_bytes n v)"

text \<open>Bytes as characters; \<open>bytes\<close> is the converse.\<close>

definition chars :: "u8 list \<Rightarrow> string" where
  "chars = map (\<lambda>b. char_of (unat b))"

text \<open>A field of a structure; there is no result when the memory is not there.\<close>

definition field :: "nat \<Rightarrow> nat \<Rightarrow> u8 list \<Rightarrow> u8 list option" where
  "field off n bs = (if off + n \<le> length bs then Some (take n (drop off bs)) else None)"

definition dump_field :: "nat \<Rightarrow> nat \<Rightarrow> u8 list \<Rightarrow> 'x attr_heap \<Rightarrow> u64 option" where
  "dump_field off n bs h = do { f \<leftarrow> field off n bs; Some (dump_toh f h) }"

subsection \<open>Blobs in the heap\<close>

definition upd_blob :: "nat \<Rightarrow> (kdump_blob \<Rightarrow> kdump_blob) \<Rightarrow> 'x attr_heap \<Rightarrow> 'x attr_heap option" where
  "upd_blob b f h = do { blob \<leftarrow> h_blobs h b; Some (h\<lparr>h_blobs := (h_blobs h)(b \<mapsto> f blob)\<rparr>) }"

text \<open>The copy of the data is allocated, then the blob, at whose address it is in the heap.\<close>

definition blob_new_dup :: "u8 list \<Rightarrow> nat \<Rightarrow> 'x attr_heap \<Rightarrow> nat option \<times> 'x attr_heap" where
  "blob_new_dup data sz h =
     (case alloc h of
        (None, h) \<Rightarrow> (None, h)
      | (Some a, h) \<Rightarrow>
          (case alloc h of
             (b, h) \<Rightarrow>
               (case (b, fst (kdump_blob_new_dup (Some a) (b \<noteq> None) (Some data) sz)) of
                  (Some b, Some blob) \<Rightarrow> (Some b, h\<lparr>h_blobs := (h_blobs h)(b \<mapsto> blob)\<rparr>)
                | _ \<Rightarrow> (None, h))))"

definition set_blob_attr :: "'x kenv \<Rightarrow> nat \<Rightarrow> u8 list \<Rightarrow> nat \<Rightarrow> 'x attr_heap \<Rightarrow> (kstatus \<times> 'x attr_heap) option" where
  "set_blob_attr E idx data sz h =
     (case blob_new_dup data sz h of
        (None, h) \<Rightarrow> Some (KDUMP_ERR_SYSTEM, h)
      | (Some b, h) \<Rightarrow> do { n \<leftarrow> gattr E h idx; set_attr (ke_hooks E) n ATTR_DEFAULT (Here (Blob b)) h })"

definition set_file_description :: "'x kenv \<Rightarrow> string \<Rightarrow> 'x attr_heap \<Rightarrow> (kstatus \<times> 'x attr_heap) option" where
  "set_file_description E name h = do { n \<leftarrow> gattr E h (GKI ''file_description''); set_attr_static_string (ke_hooks E) n ATTR_DEFAULT name h }"

subsection \<open>Attributes of processors\<close>

text \<open>The conversion \<open>%u\<close> of \<open>sprintf\<close>.\<close>

fun decimal :: "nat \<Rightarrow> string" where
  "decimal n = (if n < 10 then [] else decimal (n div 10)) @ [char_of (48 + n mod 10)]"

declare decimal.simps [simp del]

definition cpu_dir :: "'x kenv \<Rightarrow> u32 \<Rightarrow> 'x attr_heap \<Rightarrow> (kstatus \<times> nat option \<times> 'x attr_heap) option" where
  "cpu_dir E cpu h = do {
     let cpukey = decimal (unat cpu);
     dir \<leftarrow> gattr E h (GKI ''dir_cpu'');
     (pdir, h) \<leftarrow> create_attr_path (ke_le E) (ke_dict E) dir cpukey (length cpukey) dir_template h;
     Some (if pdir \<noteq> None then KDUMP_OK else KDUMP_ERR_SYSTEM, pdir, h)
   }"

definition cpu_regs_dir :: "'x kenv \<Rightarrow> u32 \<Rightarrow> 'x attr_heap \<Rightarrow> (kstatus \<times> nat option \<times> 'x attr_heap) option" where
  "cpu_regs_dir E cpu h = do {
     let cpukey = decimal (unat cpu) @ ''.reg'';
     dir \<leftarrow> gattr E h (GKI ''dir_cpu'');
     (pdir, h) \<leftarrow> create_attr_path (ke_le E) (ke_dict E) dir cpukey (length cpukey) dir_template h;
     Some (if pdir \<noteq> None then KDUMP_OK else KDUMP_ERR_SYSTEM, pdir, h)
   }"

text \<open>If the attribute cannot be made, the status is still the one of the directory, which is \<open>KDUMP_OK\<close>.\<close>

definition init_cpu_blob_attr :: "'x kenv \<Rightarrow> u32 \<Rightarrow> u8 list \<Rightarrow> nat \<Rightarrow> nat \<Rightarrow> 'x attr_heap \<Rightarrow> (kstatus \<times> 'x attr_heap) option" where
  "init_cpu_blob_attr E cpu data sz tmpl h = do {
     (status, dir, h) \<leftarrow> cpu_dir E cpu h;
     if status \<noteq> KDUMP_OK then Some (status, h)
     else (case blob_new_dup data sz h of
             (None, h) \<Rightarrow> Some (KDUMP_ERR_SYSTEM, h)
           | (Some b, h) \<Rightarrow> do {
               (attr, h) \<leftarrow> new_attr (ke_le E) (ke_dict E) dir tmpl h;
               case attr of
                 None \<Rightarrow> do { h \<leftarrow> blob_unref b h; Some (status, h) }
               | Some n \<Rightarrow> set_attr (ke_hooks E) n ATTR_DEFAULT (Here (Blob b)) h
             })
   }"

definition blob_tmpl :: "string \<Rightarrow> attr_template" where
  "blob_tmpl k = \<lparr>t_key = k, t_link = No_Link, t_type = KDUMP_BLOB, t_override = False, t_ops = None\<rparr>"

definition prstatus_tmpl :: attr_template where
  "prstatus_tmpl = blob_tmpl ''PRSTATUS''"

definition qemu_cpustate_tmpl :: attr_template where
  "qemu_cpustate_tmpl = blob_tmpl ''QEMU_CPUSTATE''"

definition xen_prstatus_tmpl :: attr_template where
  "xen_prstatus_tmpl = blob_tmpl ''XEN_PRSTATUS''"

text \<open>The static templates and operations are at their addresses.\<close>

definition cpu_tmpls :: "'x kenv \<Rightarrow> 'x attr_heap \<Rightarrow> bool" where
  "cpu_tmpls E h \<longleftrightarrow> h_tmpls h (ke_prstatus E) = Some prstatus_tmpl \<and> h_tmpls h (ke_qemu_cpustate E) = Some qemu_cpustate_tmpl
     \<and> h_tmpls h (ke_xen_prstatus E) = Some xen_prstatus_tmpl"

definition init_cpu_prstatus :: "'x kenv \<Rightarrow> u32 \<Rightarrow> u8 list \<Rightarrow> nat \<Rightarrow> 'x attr_heap \<Rightarrow> (kstatus \<times> 'x attr_heap) option" where
  "init_cpu_prstatus E cpu data sz h = init_cpu_blob_attr E cpu data sz (ke_prstatus E) h"

definition init_qemu_cpustate :: "'x kenv \<Rightarrow> u32 \<Rightarrow> u8 list \<Rightarrow> nat \<Rightarrow> 'x attr_heap \<Rightarrow> (kstatus \<times> 'x attr_heap) option" where
  "init_qemu_cpustate E cpu data sz h = init_cpu_blob_attr E cpu data sz (ke_qemu_cpustate E) h"

definition init_xen_cpu_prstatus :: "'x kenv \<Rightarrow> u32 \<Rightarrow> u8 list \<Rightarrow> nat \<Rightarrow> 'x attr_heap \<Rightarrow> (kstatus \<times> 'x attr_heap) option" where
  "init_xen_cpu_prstatus E cpu data sz h = init_cpu_blob_attr E cpu data sz (ke_xen_prstatus E) h"

subsection \<open>Derived attributes\<close>

fun ancestor :: "nat \<Rightarrow> nat \<Rightarrow> 'x attr_heap \<Rightarrow> nat option" where
  "ancestor 0 n h = Some n"
| "ancestor (Suc i) n h = do { a \<leftarrow> h_nodes h n; p \<leftarrow> at_parent a; ancestor i p h }"

text \<open>The blob is taken from the attribute whether the attribute is set or not.\<close>

definition get_attr_blob :: "nat \<Rightarrow> nat \<Rightarrow> 'x attr_heap \<Rightarrow> (kstatus \<times> nat option) option" where
  "get_attr_blob n tmpl h = do {
     t \<leftarrow> tmpl_of h n;
     depth \<leftarrow> (case t_link t of Depth i \<Rightarrow> Some i | _ \<Rightarrow> None);
     n \<leftarrow> ancestor depth n h;
     a \<leftarrow> h_nodes h n;
     p \<leftarrow> at_parent a;
     raw \<leftarrow> lookup_attr_child h p tmpl;
     case raw of
       None \<Rightarrow> Some (KDUMP_ERR_NODATA, None)
     | Some r \<Rightarrow> do { a \<leftarrow> h_nodes h r; case at_val a of Blob b \<Rightarrow> Some (KDUMP_OK, Some b) | _ \<Rightarrow> None }
   }"

definition derived_length :: "nat \<Rightarrow> bool" where
  "derived_length n \<longleftrightarrow> n = 1 \<or> n = 2 \<or> n = 4 \<or> n = 8"

definition derived_attr_revalidate :: "'x kenv \<Rightarrow> nat \<Rightarrow> nat \<Rightarrow> 'x attr_heap \<Rightarrow> (kstatus \<times> 'x attr_heap) option" where
  "derived_attr_revalidate E n tmpl h = do {
     a \<leftarrow> h_nodes h n;
     (off, len) \<leftarrow> ke_derived E (at_template a);
     (status, b) \<leftarrow> get_attr_blob n tmpl h;
     if status \<noteq> KDUMP_OK then Some (status, h)
     else do {
       b \<leftarrow> b;
       h \<leftarrow> upd_blob b (\<lambda>blob. snd (kdump_blob_pin blob)) h;
       blob \<leftarrow> h_blobs h b;
       (status, h) \<leftarrow>
         (if bl_size blob < off + len then Some (KDUMP_ERR_CORRUPT, h)
          else if \<not> derived_length len then Some (KDUMP_ERR_NOTIMPL, h)
          else do {
            (_, data) \<leftarrow> bl_data blob;
            v \<leftarrow> dump_field off len data h;
            h \<leftarrow> upd_node n (\<lambda>a. a\<lparr>at_val := Number v\<rparr>) h;
            Some (KDUMP_OK, h)
          });
       h \<leftarrow> upd_blob b (\<lambda>blob. snd (kdump_blob_unpin blob)) h;
       Some (status, h)
     }
   }"

definition patch :: "nat \<Rightarrow> u8 list \<Rightarrow> u8 list \<Rightarrow> u8 list" where
  "patch off new bs = take off bs @ new @ drop (off + length new) bs"

definition derived_attr_update :: "'x kenv \<Rightarrow> nat \<Rightarrow> nat \<Rightarrow> 'x attr_heap \<Rightarrow> (kstatus \<times> 'x attr_heap) option" where
  "derived_attr_update E n tmpl h = do {
     a \<leftarrow> h_nodes h n;
     if invalid (at_flags a) then Some (KDUMP_OK, h)
     else do {
       (off, len) \<leftarrow> ke_derived E (at_template a);
       (status, b) \<leftarrow> get_attr_blob n tmpl h;
       if status \<noteq> KDUMP_OK then Some (status, h)
       else do {
         b \<leftarrow> b;
         h \<leftarrow> upd_blob b (\<lambda>blob. snd (kdump_blob_pin blob)) h;
         blob \<leftarrow> h_blobs h b;
         (status, h) \<leftarrow>
           (if bl_size blob < off + len then Some (KDUMP_ERR_CORRUPT, h)
            else do {
              (status, h) \<leftarrow>
                (if \<not> derived_length len then Some (KDUMP_ERR_NOTIMPL, h)
                 else do {
                   (addr, data) \<leftarrow> bl_data blob;
                   v \<leftarrow> (case at_val a of Number v \<Rightarrow> Some v | _ \<Rightarrow> None);
                   h \<leftarrow> (if off + len \<le> length data
                        then upd_blob b (\<lambda>blob. blob\<lparr>bl_data := Some (addr, patch off (htodump len v h) data)\<rparr>) h
                        else None);
                   Some (KDUMP_OK, h)
                 });
              h \<leftarrow> upd_node n (\<lambda>a. a\<lparr>at_flags := (at_flags a)\<lparr>invalid := True\<rparr>\<rparr>) h;
              Some (status, h)
            });
         h \<leftarrow> upd_blob b (\<lambda>blob. snd (kdump_blob_unpin blob)) h;
         Some (status, h)
       }
     }
   }"

text \<open>The number of steps up, \<open>1 - depth\<close>, wraps around for a depth above 1.\<close>

definition create_derived_attr :: "'x kenv \<Rightarrow> nat \<Rightarrow> nat \<Rightarrow> 'x attr_heap \<Rightarrow> (kstatus \<times> 'x attr_heap) option" where
  "create_derived_attr E dir def h = do {
     t \<leftarrow> h_tmpls h def;
     depth \<leftarrow> (case t_link t of Depth i \<Rightarrow> Some i | _ \<Rightarrow> None);
     dir \<leftarrow> ancestor (unat (1 - of_nat depth :: u32)) dir h;
     (attr, h) \<leftarrow> new_attr (ke_le E) (ke_dict E) (Some dir) def h;
     case attr of
       None \<Rightarrow> Some (KDUMP_ERR_SYSTEM, h)
     | Some n \<Rightarrow> set_attr_number (ke_hooks E) n ATTR_INVALID 0 h
   }"

definition prstatus_reg_revalidate :: "'x kenv \<Rightarrow> nat \<Rightarrow> 'x attr_heap \<Rightarrow> (kstatus \<times> 'x attr_heap) option" where
  "prstatus_reg_revalidate E n h = derived_attr_revalidate E n (ke_prstatus E) h"

definition prstatus_reg_update :: "'x kenv \<Rightarrow> nat \<Rightarrow> 'x attr_heap \<Rightarrow> (kstatus \<times> 'x attr_heap) option" where
  "prstatus_reg_update E n h = derived_attr_update E n (ke_prstatus E) h"

definition qemu_cpustate_reg_revalidate :: "'x kenv \<Rightarrow> nat \<Rightarrow> 'x attr_heap \<Rightarrow> (kstatus \<times> 'x attr_heap) option" where
  "qemu_cpustate_reg_revalidate E n h = derived_attr_revalidate E n (ke_qemu_cpustate E) h"

definition qemu_cpustate_reg_update :: "'x kenv \<Rightarrow> nat \<Rightarrow> 'x attr_heap \<Rightarrow> (kstatus \<times> 'x attr_heap) option" where
  "qemu_cpustate_reg_update E n h = derived_attr_update E n (ke_qemu_cpustate E) h"

definition xen_prstatus_reg_revalidate :: "'x kenv \<Rightarrow> nat \<Rightarrow> 'x attr_heap \<Rightarrow> (kstatus \<times> 'x attr_heap) option" where
  "xen_prstatus_reg_revalidate E n h = derived_attr_revalidate E n (ke_xen_prstatus E) h"

definition xen_prstatus_reg_update :: "'x kenv \<Rightarrow> nat \<Rightarrow> 'x attr_heap \<Rightarrow> (kstatus \<times> 'x attr_heap) option" where
  "xen_prstatus_reg_update E n h = derived_attr_update E n (ke_xen_prstatus E) h"

text \<open>The templates of the definitions get their operations before they are used.\<close>

fun create_regs :: "'x kenv \<Rightarrow> nat \<Rightarrow> nat \<Rightarrow> nat list \<Rightarrow> 'x attr_heap \<Rightarrow> (kstatus \<times> 'x attr_heap) option" where
  "create_regs E ops dir [] h = Some (KDUMP_OK, h)"
| "create_regs E ops dir (def # defs) h = do {
     t \<leftarrow> h_tmpls h def;
     (status, h) \<leftarrow> create_derived_attr E dir def (h\<lparr>h_tmpls := (h_tmpls h)(def \<mapsto> t\<lparr>t_ops := Some ops\<rparr>)\<rparr>);
     if status \<noteq> KDUMP_OK then Some (status, h) else create_regs E ops dir defs h
   }"

definition create_cpu_regs :: "'x kenv \<Rightarrow> u32 \<Rightarrow> nat list \<Rightarrow> 'x attr_heap \<Rightarrow> (kstatus \<times> 'x attr_heap) option" where
  "create_cpu_regs E cpu defs h = do {
     (status, dir, h) \<leftarrow> cpu_regs_dir E cpu h;
     case (status, dir) of (KDUMP_OK, Some dir) \<Rightarrow> create_regs E (ke_prstatus_ops E) dir defs h | _ \<Rightarrow> Some (status, h)
   }"

definition create_qemu_cpu_regs :: "'x kenv \<Rightarrow> u32 \<Rightarrow> nat list \<Rightarrow> 'x attr_heap \<Rightarrow> (kstatus \<times> 'x attr_heap) option" where
  "create_qemu_cpu_regs E cpu defs h = do {
     (status, dir, h) \<leftarrow> cpu_regs_dir E cpu h;
     case (status, dir) of (KDUMP_OK, Some dir) \<Rightarrow> create_regs E (ke_qemu_ops E) dir defs h | _ \<Rightarrow> Some (status, h)
   }"

definition create_xen_cpu_regs :: "'x kenv \<Rightarrow> u32 \<Rightarrow> nat list \<Rightarrow> 'x attr_heap \<Rightarrow> (kstatus \<times> 'x attr_heap) option" where
  "create_xen_cpu_regs E cpu defs h = do {
     (status, dir, h) \<leftarrow> cpu_regs_dir E cpu h;
     case (status, dir) of (KDUMP_OK, Some dir) \<Rightarrow> create_regs E (ke_xen_ops E) dir defs h | _ \<Rightarrow> Some (status, h)
   }"

end
