(* ===== verification/Cpu_Attrs_Facts.thy ===== *)
theory Cpu_Attrs_Facts
  imports Kdump_Attrs
begin

section \<open>Registers as attributes\<close>

text \<open>
  A derived attribute is a view of some bytes of a blob: what is written through the attribute is read back, and no other byte of the blob changes.
\<close>

lemma length_le_bytes [simp]: "length (le_bytes n v) = n"
  by (simp add: le_bytes_def)

lemma length_htodump [simp]: "length (htodump n v h) = n"
  by (simp add: htodump_def)

lemma le_bytes_Suc: "le_bytes (Suc n) v = ucast v # le_bytes n (drop_bit 8 v)"
  by (simp add: le_bytes_def upt_conv_Cons map_Suc_upt [symmetric] drop_bit_drop_bit add.commute del: upt_Suc map_Suc_upt)

lemma be_bytes_snoc: "be_bytes (bs @ [b]) = push_bit 8 (be_bytes bs) + ucast b"
  by (simp add: be_bytes_def push_bit_eq_mult)

lemma byte_above: "push_bit 8 (take_bit m (drop_bit 8 v)) + ucast (ucast v :: u8) = take_bit (m + 8) (v :: u64)"
proof -
  have "push_bit 8 (take_bit m (drop_bit 8 v)) + ucast (ucast v :: u8) = push_bit 8 (take_bit m (drop_bit 8 v)) OR ucast (ucast v :: u8)"
    by (rule disjunctive_add) (auto simp: bit_simps)
  also have "\<dots> = take_bit (m + 8) v"
    by (rule bit_eqI) (auto simp: bit_simps)
  finally show ?thesis .
qed

lemma be_le_bytes: "be_bytes (rev (le_bytes n v)) = take_bit (8 * n) v"
proof (induction n arbitrary: v)
  case 0
  then show ?case
    by (simp add: le_bytes_def be_bytes_def)
next
  case (Suc n)
  then show ?case
    using byte_above [of "8 * n" v] by (simp add: le_bytes_Suc be_bytes_snoc add.commute)
qed

lemma dump_htodump: "get_number ''byte_order'' g = get_number ''byte_order'' h \<Longrightarrow> dump_toh (htodump n v h) g = take_bit (8 * n) v"
  by (simp add: dump_toh_def htodump_def be_le_bytes)

lemma field_patch: "off + length new \<le> length bs \<Longrightarrow> field off (length new) (patch off new bs) = Some new"
  by (simp add: field_def patch_def)

lemma length_patch: "off + length new \<le> length bs \<Longrightarrow> length (patch off new bs) = length bs"
  by (simp add: patch_def)

lemma patch_other: "off + length new \<le> length bs \<Longrightarrow> i < off \<or> off + length new \<le> i \<Longrightarrow> patch off new bs ! i = bs ! i"
  by (auto simp: patch_def nth_append)

subsection \<open>Round trip through the blob\<close>

text \<open>What the update of a derived attribute does if it succeeds.\<close>

definition derived_at :: "'x kenv \<Rightarrow> nat \<Rightarrow> nat \<Rightarrow> nat \<Rightarrow> nat \<Rightarrow> nat \<Rightarrow> kdump_blob \<Rightarrow> nat \<Rightarrow> u8 list \<Rightarrow> 'x attr_heap \<Rightarrow> bool" where
  "derived_at E n tmpl off len b blob addr bs h \<longleftrightarrow> (\<exists>a. h_nodes h n = Some a \<and> ke_derived E (at_template a) = Some (off, len))
     \<and> get_attr_blob n tmpl h = Some (KDUMP_OK, Some b) \<and> h_blobs h b = Some blob \<and> bl_data blob = Some (addr, bs)
     \<and> off + len \<le> bl_size blob \<and> off + len \<le> length bs"

lemma pinned_unpinned:
  "blob\<lparr>bl_pincnt := bl_pincnt blob + 1, bl_data := d, bl_pincnt := bl_pincnt blob + 1 - 1\<rparr> = blob\<lparr>bl_data := d\<rparr>"
  "snd (kdump_blob_unpin (snd (kdump_blob_pin blob))) = blob"
  by (simp_all add: kdump_blob_unpin_def kdump_blob_pin_def Let_def)

text \<open>The heap with other contents of a blob, and with other flags and another embedded value of an attribute.\<close>

definition with_blob :: "nat \<Rightarrow> kdump_blob \<Rightarrow> nat \<Rightarrow> (attr_data \<Rightarrow> attr_data) \<Rightarrow> 'x attr_heap \<Rightarrow> 'x attr_heap" where
  "with_blob b blob n f h = h\<lparr>h_blobs := (h_blobs h)(b \<mapsto> blob), h_nodes := (h_nodes h)(n := map_option f (h_nodes h n))\<rparr>"

lemma derived_update_effect:
  assumes "derived_attr_update E n tmpl h = Some (KDUMP_OK, h')" and "h_nodes h n = Some a" and "\<not> invalid (at_flags a)"
  shows "\<exists>off len b blob addr bs v. derived_at E n tmpl off len b blob addr bs h \<and> derived_length len \<and> at_val a = Number v
    \<and> h' = with_blob b (blob\<lparr>bl_data := Some (addr, patch off (htodump len v h) bs)\<rparr>) n (\<lambda>a. a\<lparr>at_flags := (at_flags a)\<lparr>invalid := True\<rparr>\<rparr>) h"
proof -
  have "get_number f (h\<lparr>h_blobs := x\<rparr>) = get_number f h" for f x
    by (simp add: get_number_def get_static_def)
  then have "htodump len v (h\<lparr>h_blobs := x\<rparr>) = htodump len v h" for len v x
    by (simp add: htodump_def)
  then show ?thesis
    using assms
    by (auto simp: derived_attr_update_def derived_at_def with_blob_def upd_blob_def upd_node_def bind_Some_iff kdump_blob_pin_def kdump_blob_unpin_def
          Let_def split: if_splits attr_val.splits prod.splits)
qed

text \<open>Heaps that agree on everything but the flags of attributes find the same blob.\<close>

definition same_links :: "'x attr_heap \<Rightarrow> 'x attr_heap \<Rightarrow> bool" where
  "same_links h h' \<longleftrightarrow> (\<forall>n a. h_nodes h n = Some a \<longrightarrow> (\<exists>fl. h_nodes h' n = Some (a\<lparr>at_flags := fl\<rparr>))) \<and> h_tmpls h' = h_tmpls h"

lemma same_node: "same_links h h' \<Longrightarrow> h_nodes h n = Some a \<Longrightarrow> \<exists>fl. h_nodes h' n = Some (a\<lparr>at_flags := fl\<rparr>)"
  by (simp add: same_links_def)

lemma same_child:
  assumes "child_loop h t c = Some r" and "same_links h h'"
  shows "child_loop h' t c = Some r"
proof -
  have "same_links h h' \<longrightarrow> child_loop h' t c = Some r"
  proof (rule child_loop.raw_induct [of "\<lambda>h t c r. same_links h h' \<longrightarrow> child_loop h' t c = Some r", OF _ assms(1)])
    fix loop h t c r
    assume IH: "\<And>h t c r. loop h t c = Some r \<Longrightarrow> same_links h h' \<longrightarrow> child_loop h' t c = Some r"
      and step: "(case c of None \<Rightarrow> Some None
        | Some c \<Rightarrow> do { a \<leftarrow> h_nodes h c; if at_template a = t then Some (Some c) else loop h t (at_next a) }) = Some r"
    show "same_links h h' \<longrightarrow> child_loop h' t c = Some r"
    proof
      assume same: "same_links h h'"
      show "child_loop h' t c = Some r"
      proof (cases c)
        case None
        then show ?thesis
          using step by (subst child_loop.simps) simp
      next
        case (Some n)
        then obtain a where a: "h_nodes h n = Some a" "(if at_template a = t then Some (Some n) else loop h t (at_next a)) = Some r"
          using step by (auto simp: bind_Some_iff)
        obtain fl where "h_nodes h' n = Some (a\<lparr>at_flags := fl\<rparr>)"
          using same_node [OF same a(1)] by blast
        then show ?thesis
          using Some a(2) IH same by (subst child_loop.simps) (auto split: if_splits)
      qed
    qed
  qed
  then show ?thesis
    using assms(2) by blast
qed

lemma same_tmpl_of: "same_links h h' \<Longrightarrow> tmpl_of h n = Some t \<Longrightarrow> tmpl_of h' n = Some t"
  by (fastforce simp: tmpl_of_def bind_Some_iff same_links_def)

lemma same_ancestor: "same_links h h' \<Longrightarrow> ancestor i n h = Some m \<Longrightarrow> ancestor i n h' = Some m"
proof (induction i arbitrary: n)
  case (Suc i)
  then obtain a p where a: "h_nodes h n = Some a" "at_parent a = Some p" "ancestor i p h = Some m"
    by (auto simp: bind_Some_iff)
  then show ?case
    using Suc.IH [OF Suc.prems(1) a(3)] same_node [OF Suc.prems(1) a(1)] by auto
qed simp

lemma same_attr_blob:
  assumes "same_links h h'" and "get_attr_blob n tmpl h = Some (KDUMP_OK, Some b)"
  shows "get_attr_blob n tmpl h' = Some (KDUMP_OK, Some b)"
proof -
  obtain t i m a p pa r ra where h: "tmpl_of h n = Some t" "t_link t = Depth i" "ancestor i n h = Some m" "h_nodes h m = Some a"
    "at_parent a = Some p" "h_nodes h p = Some pa" "child_loop h tmpl (at_dir pa) = Some (Some r)" "h_nodes h r = Some ra" "at_val ra = Blob b"
    using assms(2)
    by (auto simp: get_attr_blob_def lookup_attr_child_def split: Option.bind_split_asm tmpl_link.split_asm option.split_asm attr_val.split_asm)
  obtain f1 f2 f3 where "h_nodes h' m = Some (a\<lparr>at_flags := f1\<rparr>)" "h_nodes h' p = Some (pa\<lparr>at_flags := f2\<rparr>)"
    "h_nodes h' r = Some (ra\<lparr>at_flags := f3\<rparr>)"
    using same_node [OF assms(1)] h(4,6,8) by metis
  then show ?thesis
    using h same_tmpl_of [OF assms(1) h(1)] same_ancestor [OF assms(1) h(3)] same_child [OF h(7) assms(1)]
    by (simp add: get_attr_blob_def lookup_attr_child_def)
qed

text \<open>
  C40. Registers: when a number that was set on a derived attribute has been written into its blob, a revalidation reads it back, cut to the
  length of the register; the other bytes of the blob are as before, and so are its references and its pins.
\<close>

theorem register_is_read_back:
  assumes "derived_attr_update E n tmpl h = Some (KDUMP_OK, h')" and "h_nodes h n = Some a" and "\<not> invalid (at_flags a)" and "at_val a = Number v"
  shows "\<exists>off len b blob addr bs h''. derived_at E n tmpl off len b blob addr bs h
    \<and> derived_attr_revalidate E n tmpl h' = Some (KDUMP_OK, h'')
    \<and> map_option at_val (h_nodes h'' n) = Some (Number (take_bit (8 * len) v)) \<and> map_option (invalid \<circ> at_flags) (h_nodes h'' n) = Some True
    \<and> (\<exists>bs'. h_blobs h'' b = Some (blob\<lparr>bl_data := Some (addr, bs')\<rparr>) \<and> length bs' = length bs
         \<and> (\<forall>i. i < off \<or> off + len \<le> i \<longrightarrow> bs' ! i = bs ! i))"
proof -
  obtain off len b blob addr bs where d: "derived_at E n tmpl off len b blob addr bs h" "derived_length len"
    "h' = with_blob b (blob\<lparr>bl_data := Some (addr, patch off (htodump len v h) bs)\<rparr>) n (\<lambda>a. a\<lparr>at_flags := (at_flags a)\<lparr>invalid := True\<rparr>\<rparr>) h"
    using derived_update_effect [OF assms(1-3)] assms(4) by fastforce
  let ?fl = "\<lambda>a. a\<lparr>at_flags := (at_flags a)\<lparr>invalid := True\<rparr>\<rparr>" and ?bs = "patch off (htodump len v h) bs"
  have same: "same_links h h'"
    using assms(2) by (auto simp: same_links_def d(3) with_blob_def) (metis attr_data.surjective attr_data.update_convs(4))
  have blob: "get_attr_blob n tmpl h' = Some (KDUMP_OK, Some b)"
    using d(1) same_attr_blob [OF same] by (simp add: derived_at_def)
  have len: "off + len \<le> length bs" "off + len \<le> bl_size blob"
    using d(1) by (simp_all add: derived_at_def)
  have bo: "get_number f (g\<lparr>h_blobs := x\<rparr>) = get_number f g" "get_number f h' = get_number f h" for f x and g :: "'a attr_heap"
    by (simp_all add: get_number_def get_static_def d(3) with_blob_def)
  have num: "dump_field off len ?bs (h'\<lparr>h_blobs := x\<rparr>) = Some (take_bit (8 * len) v)" for x
    using field_patch [of off "htodump len v h" bs] len dump_htodump [of "h'\<lparr>h_blobs := x\<rparr>" h len v] by (simp add: dump_field_def bo)
  obtain h'' where h'': "derived_attr_revalidate E n tmpl h' = Some (KDUMP_OK, h'')"
    "h_nodes h'' n = Some ((?fl a)\<lparr>at_val := Number (take_bit (8 * len) v)\<rparr>)" "h_blobs h'' b = Some (blob\<lparr>bl_data := Some (addr, ?bs)\<rparr>)"
    using d(1,2) blob num len assms(2)
    by (simp add: derived_attr_revalidate_def derived_at_def d(3) with_blob_def upd_blob_def upd_node_def kdump_blob_pin_def kdump_blob_unpin_def Let_def)
  have "length ?bs = length bs \<and> (\<forall>i. i < off \<or> off + len \<le> i \<longrightarrow> ?bs ! i = bs ! i)"
    using len length_patch [of off "htodump len v h" bs] patch_other [of off "htodump len v h" bs] by simp
  then show ?thesis
    using d(1) h''
    by - (rule exI [of _ off], rule exI [of _ len], rule exI [of _ b], rule exI [of _ blob], rule exI [of _ addr], rule exI [of _ bs], auto)
qed

subsection \<open>An example\<close>

text \<open>
  The directory of a processor (0) has the attribute \<open>PRSTATUS\<close> (1) and the directory of the registers (2), with one register (3) that has two bytes of
  the blob from its third on.
\<close>

definition reg_node :: "nat option \<Rightarrow> nat option \<Rightarrow> nat \<Rightarrow> nat option \<Rightarrow> attr_val \<Rightarrow> attr_data" where
  "reg_node next p t d v = \<lparr>at_next = next, at_parent = p, at_template = t, at_flags = ATTR_DEFAULT\<lparr>isset := True\<rparr>, at_dyntmpl = False, at_val = v,
     at_dir = d, at_pval = 0, at_list = (0, 0)\<rparr>"

definition reg_heap :: "unit attr_heap" where
  "reg_heap = \<lparr>
     h_nodes = [0 \<mapsto> reg_node None None 0 (Some 1) Zero_Val, 1 \<mapsto> reg_node (Some 2) (Some 0) 1 None (Blob 9),
                2 \<mapsto> reg_node None (Some 0) 2 (Some 3) Zero_Val, 3 \<mapsto> reg_node None (Some 2) 3 None (Number 0x12345)],
     h_tmpls = [1 \<mapsto> prstatus_tmpl, 3 \<mapsto> \<lparr>t_key = ''ax'', t_link = Depth 1, t_type = KDUMP_NUMBER, t_override = False, t_ops = None\<rparr>],
     h_ops = (\<lambda>_. \<lparr>pre_set = None, post_set = None, pre_clear = None, revalidate = None\<rparr>), h_dicts = Map.empty,
     h_static = (\<lambda>_. Zero_Val),
     h_blobs = [9 \<mapsto> \<lparr>bl_refcnt = 1, bl_pincnt = 0, bl_data = Some (8, [1, 2, 3, 4, 5]), bl_size = 5\<rparr>],
     h_bmps = Map.empty, h_shared = 1, h_fresh = 10, h_mem = (\<lambda>_. True), h_ctx = ()\<rparr>"

definition reg_env :: "unit kenv" where
  "reg_env = \<lparr>ke_hooks = \<lparr>run_pre_set = (\<lambda>_ _ v h. Some (KDUMP_OK, v, h)), run_post_set = (\<lambda>_ _ h. Some (KDUMP_OK, h)),
       run_pre_clear = (\<lambda>_ _. Some), run_revalidate = (\<lambda>_ _ h. Some (KDUMP_OK, h)), run_attr_cleanup = (\<lambda>_. Some)\<rparr>,
     ke_le = True, ke_dict = 0, ke_prstatus = 1, ke_qemu_cpustate = 4, ke_xen_prstatus = 5, ke_prstatus_ops = 0, ke_qemu_ops = 1, ke_xen_ops = 2,
     ke_lines_ops = 3, ke_dirty_xlat_ops = 4, ke_phys_base_ops = 5, ke_derived = [3 \<mapsto> (2, 2)], ke_arch_ops = Map.empty, ke_osdir = Map.empty, ke_set_dirty = id,
     ke_process_prstatus = Map.empty, ke_process_qemu = Map.empty\<rparr>"

lemma reg_blob: "get_attr_blob 3 1 reg_heap = Some (KDUMP_OK, Some 9)"
  by (simp add: get_attr_blob_def reg_heap_def reg_node_def tmpl_of_def lookup_attr_child_def child_loop.simps numeral_2_eq_2 eval_nat_numeral)

lemma reg_parts:
  "h_nodes reg_heap 3 = Some (reg_node None (Some 2) 3 None (Number 0x12345))" "ke_derived reg_env 3 = Some (2, 2)"
  "h_blobs reg_heap = [9 \<mapsto> \<lparr>bl_refcnt = 1, bl_pincnt = 0, bl_data = Some (8, [1, 2, 3, 4, 5]), bl_size = 5\<rparr>]"
  "\<not> invalid (at_flags (reg_node next p t d v))" "at_val (reg_node next p t d v) = v" "at_template (reg_node next p t d v) = t"
  by (simp_all add: reg_heap_def reg_env_def reg_node_def ATTR_DEFAULT_def)

lemma reg_update: "\<exists>h. derived_attr_update reg_env 3 1 reg_heap = Some (KDUMP_OK, h)"
  by (simp add: derived_attr_update_def reg_blob [simplified] reg_parts upd_blob_def upd_node_def kdump_blob_pin_def kdump_blob_unpin_def Let_def
       derived_length_def)

theorem register_is_read_back_witness:
  "\<exists>h' h''. derived_attr_update reg_env 3 1 reg_heap = Some (KDUMP_OK, h') \<and> derived_attr_revalidate reg_env 3 1 h' = Some (KDUMP_OK, h'')
     \<and> map_option at_val (h_nodes h'' 3) = Some (Number 0x2345)"
proof -
  obtain h' where h': "derived_attr_update reg_env 3 1 reg_heap = Some (KDUMP_OK, h')"
    using reg_update by blast
  from register_is_read_back [OF h' reg_parts(1,4,5)] obtain off len b blob addr bs h'' where r: "derived_at reg_env 3 1 off len b blob addr bs reg_heap"
    "derived_attr_revalidate reg_env 3 1 h' = Some (KDUMP_OK, h'')"
    "map_option at_val (h_nodes h'' 3) = Some (Number (take_bit (8 * len) 0x12345))"
    by blast
  moreover have "len = 2"
    using r(1) by (simp add: derived_at_def reg_parts)
  ultimately show ?thesis
    using h' by (auto simp: take_bit_eq_mask mask_eq_exp_minus_1)
qed

end
