(* ===== verification/Notes.thy ===== *)
theory Notes
  imports Kdump_Attrs
begin

section \<open>ELF notes (src/kdumpfile/notes.c)\<close>

text \<open>
  The notes of a core file: a header with the sizes of the name and of the descriptor, each padded to a multiple of four bytes. A function gets the memory
  from the name and from the descriptor on, with their sizes, so it may also look behind them. Sizes are natural numbers; on a host with 64-bit sizes
  the sums of 32-bit sizes do not wrap around.
\<close>

subsection \<open>Names and numbers\<close>

definition NT_PRSTATUS :: u64 where "NT_PRSTATUS = 1"
definition NT_TASKSTRUCT :: u64 where "NT_TASKSTRUCT = 4"

definition XEN_ELFNOTE_CRASH_INFO :: u64 where "XEN_ELFNOTE_CRASH_INFO = 0x1000001"
definition XEN_ELFNOTE_DUMPCORE_HEADER :: u64 where "XEN_ELFNOTE_DUMPCORE_HEADER = 0x2000001"
definition XEN_ELFNOTE_DUMPCORE_XEN_VERSION :: u64 where "XEN_ELFNOTE_DUMPCORE_XEN_VERSION = 0x2000002"
definition XEN_ELFNOTE_DUMPCORE_FORMAT_VERSION :: u64 where "XEN_ELFNOTE_DUMPCORE_FORMAT_VERSION = 0x2000003"
definition QEMU_ELFNOTE_CPUSTATE :: u64 where "QEMU_ELFNOTE_CPUSTATE = 0"
definition KDUMP_XEN_SYSTEM :: u64 where "KDUMP_XEN_SYSTEM = 1"

definition note_equal :: "string \<Rightarrow> u8 list \<Rightarrow> nat \<Rightarrow> bool" where
  "note_equal name notename sz =
     (if length name \<le> sz \<and> sz \<le> length name + 1 then take sz (bytes name @ [0]) = take sz notename else False)"

subsection \<open>Notes of the kernel and of QEMU\<close>

text \<open>When \<open>set_attr\<close> fails, it has released the blob already, and it is released again.\<close>

definition process_task_struct :: "'x kenv \<Rightarrow> u8 list \<Rightarrow> nat \<Rightarrow> 'x attr_heap \<Rightarrow> (kstatus \<times> 'x attr_heap) option" where
  "process_task_struct E data sz h =
     (case blob_new_dup data sz h of
        (None, h) \<Rightarrow> Some (KDUMP_ERR_SYSTEM, h)
      | (Some b, h) \<Rightarrow> do {
          n \<leftarrow> gattr E h (GKI ''linux_task_struct'');
          (status, h) \<leftarrow> set_attr (ke_hooks E) n ATTR_DEFAULT (Here (Blob b)) h;
          if status \<noteq> KDUMP_OK then do { h \<leftarrow> blob_unref b h; Some (status, h) } else Some (status, h)
        })"

text \<open>The number of the next processor, which is counted.\<close>

definition count_cpu :: "'x kenv \<Rightarrow> string \<Rightarrow> 'x attr_heap \<Rightarrow> (u32 \<times> 'x attr_heap) option" where
  "count_cpu E fld h = do {
     isset \<leftarrow> isset_static E fld h;
     let cpu = (if isset then ucast (get_number fld h) else 0 :: u32);
     (_, h) \<leftarrow> set_static E fld (Number (ucast (cpu + 1))) h;
     Some (cpu, h)
   }"

definition process_core_note :: "'x kenv \<Rightarrow> u64 \<Rightarrow> u8 list \<Rightarrow> nat \<Rightarrow> 'x attr_heap \<Rightarrow> (kstatus \<times> 'x attr_heap) option" where
  "process_core_note E type desc descsz h =
     (if type = NT_PRSTATUS then do {
        (cpu, h) \<leftarrow> count_cpu E ''num_cpus'' h;
        (status, h) \<leftarrow> init_cpu_prstatus E cpu desc descsz h;
        if status \<noteq> KDUMP_OK then Some (status, h)
        else (case Option.bind (ke_arch_ops E (h_ctx h)) (ke_process_prstatus E) of
                Some f \<Rightarrow> f cpu desc descsz h
              | None \<Rightarrow> Some (KDUMP_OK, h))
      }
      else if type = NT_TASKSTRUCT then process_task_struct E desc descsz h
      else Some (KDUMP_OK, h))"

definition process_qemu_note :: "'x kenv \<Rightarrow> u64 \<Rightarrow> u8 list \<Rightarrow> nat \<Rightarrow> 'x attr_heap \<Rightarrow> (kstatus \<times> 'x attr_heap) option" where
  "process_qemu_note E type desc descsz h =
     (if type = QEMU_ELFNOTE_CPUSTATE then do {
        (cpu, h) \<leftarrow> count_cpu E ''num_qemu_cpus'' h;
        (status, h) \<leftarrow> init_qemu_cpustate E cpu desc descsz h;
        if status \<noteq> KDUMP_OK then Some (status, h)
        else (case Option.bind (ke_arch_ops E (h_ctx h)) (ke_process_qemu E) of
                Some f \<Rightarrow> f cpu desc descsz h
              | None \<Rightarrow> Some (KDUMP_OK, h))
      }
      else Some (KDUMP_OK, h))"

subsection \<open>Notes of Xen\<close>

definition set_global_number :: "'x kenv \<Rightarrow> string \<Rightarrow> u64 \<Rightarrow> 'x attr_heap \<Rightarrow> (kstatus \<times> 'x attr_heap) option" where
  "set_global_number E fld v h = do { n \<leftarrow> gattr E h (GKI fld); set_attr_number (ke_hooks E) n ATTR_DEFAULT v h }"

definition set_global_address :: "'x kenv \<Rightarrow> string \<Rightarrow> u64 \<Rightarrow> 'x attr_heap \<Rightarrow> (kstatus \<times> 'x attr_heap) option" where
  "set_global_address E fld v h = do { n \<leftarrow> gattr E h (GKI fld); set_attr_address (ke_hooks E) n ATTR_DEFAULT v h }"

definition set_global_string :: "'x kenv \<Rightarrow> string \<Rightarrow> string \<Rightarrow> 'x attr_heap \<Rightarrow> (kstatus \<times> 'x attr_heap) option" where
  "set_global_string E fld v h = do { n \<leftarrow> gattr E h (GKI fld); set_attr_string (ke_hooks E) n ATTR_DEFAULT v h }"

text \<open>Steps one after the other until one fails.\<close>

fun steps :: "('s \<Rightarrow> (kstatus \<times> 's) option) list \<Rightarrow> 's \<Rightarrow> (kstatus \<times> 's) option" where
  "steps [] s = Some (KDUMP_OK, s)"
| "steps (f # fs) s = do { (res, s) \<leftarrow> f s; if res \<noteq> KDUMP_OK then Some (res, s) else steps fs s }"

text \<open>
  What the crash information says: the version, the address of the extra version, the list of frames and the physical start, where they are given. The
  sizes of the structures are 32, 64, 40 and 80; the 32-bit form compares its length with the size of the 64-bit one.
\<close>

definition crash_info_64 :: "bool \<Rightarrow> u8 list \<Rightarrow> nat \<Rightarrow> 'x attr_heap \<Rightarrow> (u64 \<times> u64 \<times> u64 \<times> u64 option \<times> u64 option) option" where
  "crash_info_64 x86 data len h = do {
     major \<leftarrow> dump_field 0 8 data h;
     minor \<leftarrow> dump_field 8 8 data h;
     extra \<leftarrow> dump_field 16 8 data h;
     p2m \<leftarrow> (if len > 64 then map_option Some (dump_field (8 * ((len - 8) div 8)) 8 data h) else Some None);
     phys \<leftarrow> (if x86 \<and> len \<ge> 80 then map_option Some (dump_field 64 8 data h) else Some None);
     Some (major, minor, extra, p2m, phys)
   }"

definition crash_info_32 :: "bool \<Rightarrow> u8 list \<Rightarrow> nat \<Rightarrow> 'x attr_heap \<Rightarrow> (u64 \<times> u64 \<times> u64 \<times> u64 option \<times> u64 option) option" where
  "crash_info_32 x86 data len h = do {
     major \<leftarrow> dump_field 0 4 data h;
     minor \<leftarrow> dump_field 4 4 data h;
     extra \<leftarrow> dump_field 8 4 data h;
     p2m \<leftarrow> (if len > 64 then map_option Some (dump_field (4 * ((len - 4) div 4)) 4 data h) else Some None);
     phys \<leftarrow> (if x86 \<and> len \<ge> 40 then map_option Some (dump_field 32 4 data h) else Some None);
     Some (major, minor, extra, p2m, phys)
   }"

text \<open>A physical start makes the list of frames be set too, to zero if it was not read.\<close>

definition process_xen_crash_info :: "'x kenv \<Rightarrow> u8 list \<Rightarrow> nat \<Rightarrow> 'x attr_heap \<Rightarrow> (kstatus \<times> 'x attr_heap) option" where
  "process_xen_crash_info E data len h = do {
     let ptr_size = get_number ''ptr_size'' h;
     (_, h) \<leftarrow> set_static E ''xen_type'' (Number KDUMP_XEN_SYSTEM) h;
     info \<leftarrow>
       (if ptr_size = 8 \<and> len \<ge> 64 then map_option Some (crash_info_64 (ke_arch_ops E (h_ctx h) = Some ARCH_X86_64) data len h)
        else if ptr_size = 4 \<and> len \<ge> 32 then map_option Some (crash_info_32 (ke_arch_ops E (h_ctx h) = Some ARCH_IA32) data len h)
        else Some None);
     case info of
       None \<Rightarrow> Some (KDUMP_OK, h)
     | Some (major, minor, extra, p2m, phys) \<Rightarrow>
         steps
           ([set_global_number E ''xen_ver_major'' major, set_global_number E ''xen_ver_minor'' minor,
             set_global_address E ''xen_ver_extra_addr'' extra]
            @ (if p2m \<noteq> None \<or> phys \<noteq> None then [set_global_address E ''xen_p2m_mfn'' (case p2m of Some v \<Rightarrow> v | None \<Rightarrow> 0)] else [])
            @ (case phys of Some v \<Rightarrow> [set_global_address E ''xen_phys_start'' v] | None \<Rightarrow> [])) h
   }"

text \<open>The two forms, of 1276 and 1280 bytes, agree in the fields that are used.\<close>

definition process_xen_dumpcore_version :: "'x kenv \<Rightarrow> u8 list \<Rightarrow> nat \<Rightarrow> 'x attr_heap \<Rightarrow> (kstatus \<times> 'x attr_heap) option" where
  "process_xen_dumpcore_version E data len h =
     (let ptr_size = get_number ''ptr_size'' h
      in if (ptr_size = 8 \<and> len \<ge> 1280) \<or> (ptr_size = 4 \<and> len \<ge> 1276)
         then do {
           major \<leftarrow> dump_field 0 8 data h;
           minor \<leftarrow> dump_field 8 8 data h;
           extra \<leftarrow> field 16 16 data;
           steps [set_global_number E ''xen_ver_major'' major, set_global_number E ''xen_ver_minor'' minor,
             set_global_string E ''xen_ver_extra'' (c_string (chars extra))] h
         }
         else Some (KDUMP_OK, h))"

text \<open>The status of the version note is dropped.\<close>

definition process_xen_note :: "'x kenv \<Rightarrow> u64 \<Rightarrow> u8 list \<Rightarrow> nat \<Rightarrow> 'x attr_heap \<Rightarrow> (kstatus \<times> 'x attr_heap) option" where
  "process_xen_note E type desc descsz h =
     (if type = XEN_ELFNOTE_CRASH_INFO then process_xen_crash_info E desc descsz h
      else if type = XEN_ELFNOTE_DUMPCORE_XEN_VERSION
      then do { (_, h) \<leftarrow> process_xen_dumpcore_version E desc descsz h; Some (KDUMP_OK, h) }
      else Some (KDUMP_OK, h))"

text \<open>The size of the descriptor is not checked here.\<close>

definition process_xc_xen_note :: "'x kenv \<Rightarrow> u64 \<Rightarrow> u8 list \<Rightarrow> nat \<Rightarrow> 'x attr_heap \<Rightarrow> (kstatus \<times> 'x attr_heap) option" where
  "process_xc_xen_note E type desc descsz h =
     (if type = XEN_ELFNOTE_DUMPCORE_HEADER then do { sz \<leftarrow> dump_field 24 8 desc h; set_page_size E sz h }
      else if type = XEN_ELFNOTE_DUMPCORE_FORMAT_VERSION
      then do { version \<leftarrow> dump_field 0 8 desc h; Some (if version \<noteq> 1 then KDUMP_ERR_NOTIMPL else KDUMP_OK, h) }
      else Some (KDUMP_OK, h))"

subsection \<open>All notes\<close>

type_synonym 's note_fn = "u64 \<Rightarrow> u8 list \<Rightarrow> nat \<Rightarrow> u8 list \<Rightarrow> nat \<Rightarrow> 's \<Rightarrow> (kstatus \<times> 's) option"

definition do_noarch_note :: "'x kenv \<Rightarrow> 'x attr_heap note_fn" where
  "do_noarch_note E type name namesz desc descsz h =
     (if note_equal ''VMCOREINFO'' name namesz then set_blob_attr E (GKI ''linux_vmcoreinfo_raw'') desc descsz h
      else if note_equal ''VMCOREINFO_XEN'' name namesz then set_blob_attr E (GKI ''xen_vmcoreinfo_raw'') desc descsz h
      else if note_equal ''ERASEINFO'' name namesz then set_blob_attr E (GKI ''file_eraseinfo_raw'') desc descsz h
      else Some (KDUMP_OK, h))"

definition do_arch_note :: "'x kenv \<Rightarrow> 'x attr_heap note_fn" where
  "do_arch_note E type name namesz desc descsz h =
     (if note_equal ''CORE'' name namesz then process_core_note E type desc descsz h
      else if note_equal ''QEMU'' name namesz then process_qemu_note E type desc descsz h
      else if note_equal ''Xen'' name namesz then process_xen_note E type desc descsz h
      else if note_equal ''.note.Xen'' name namesz then process_xc_xen_note E type desc descsz h
      else Some (KDUMP_OK, h))"

definition do_any_note :: "'x kenv \<Rightarrow> 'x attr_heap note_fn" where
  "do_any_note E type name namesz desc descsz h = do {
     (ret, h) \<leftarrow> do_noarch_note E type name namesz desc descsz h;
     if ret \<noteq> KDUMP_OK then Some (ret, h) else do_arch_note E type name namesz desc descsz h
   }"

definition roundup_size :: "nat \<Rightarrow> nat" where
  "roundup_size sz = 4 * ((sz + 3) div 4)"

text \<open>\<open>toh\<close> reads a 32-bit number of the dump; \<open>data\<close> is the memory from the header on, \<open>sz\<close> the size that is left.\<close>

function do_notes :: "('s \<Rightarrow> u8 list \<Rightarrow> u64) \<Rightarrow> 's note_fn \<Rightarrow> u8 list \<Rightarrow> nat \<Rightarrow> 's \<Rightarrow> (kstatus \<times> 's) option" where
  "do_notes toh do_note data sz s =
     (if sz < 12 then Some (KDUMP_OK, s)
      else do {
        f1 \<leftarrow> field 0 4 data;
        f2 \<leftarrow> field 4 4 data;
        f3 \<leftarrow> field 8 4 data;
        let namesz = unat (toh s f1);
        let descsz = unat (toh s f2);
        let type = toh s f3;
        let descoff = 12 + roundup_size namesz;
        if sz < descoff + descsz then Some (KDUMP_OK, s)
        else do {
          (ret, s) \<leftarrow> do_note type (drop 12 data) namesz (drop descoff data) descsz s;
          if ret \<noteq> KDUMP_OK then Some (ret, s)
          else do_notes toh do_note (drop (descoff + roundup_size descsz) data) (sz - descoff - roundup_size descsz) s
        }
      })"
  by pat_completeness auto
termination
  by (relation "measure (\<lambda>(toh, do_note, data, sz, s). sz)") auto

declare do_notes.simps [simp del]

definition process_noarch_notes :: "'x kenv \<Rightarrow> u8 list \<Rightarrow> nat \<Rightarrow> 'x attr_heap \<Rightarrow> (kstatus \<times> 'x attr_heap) option" where
  "process_noarch_notes E data sz h = do_notes (\<lambda>h bs. dump_toh bs h) (do_noarch_note E) data sz h"

definition process_arch_notes :: "'x kenv \<Rightarrow> u8 list \<Rightarrow> nat \<Rightarrow> 'x attr_heap \<Rightarrow> (kstatus \<times> 'x attr_heap) option" where
  "process_arch_notes E data sz h = do_notes (\<lambda>h bs. dump_toh bs h) (do_arch_note E) data sz h"

definition process_notes :: "'x kenv \<Rightarrow> u8 list \<Rightarrow> nat \<Rightarrow> 'x attr_heap \<Rightarrow> (kstatus \<times> 'x attr_heap) option" where
  "process_notes E data sz h = do_notes (\<lambda>h bs. dump_toh bs h) (do_any_note E) data sz h"

end
