(* ===== verification/Notes_Facts.thy ===== *)
theory Notes_Facts
  imports Notes Cpu_Attrs_Facts
begin

section \<open>Parsing of notes\<close>

text \<open>
  The loop over the notes is specified by the format: encoded notes, one after the other, are each given to the handler, until one fails. The loop always ends
  and reads only what it was given.
\<close>

definition pad4 :: "u8 list \<Rightarrow> u8 list" where
  "pad4 bs = bs @ replicate (roundup_size (length bs) - length bs) 0"

text \<open>\<open>enc\<close> writes a 32-bit number.\<close>

fun encode_note :: "(u64 \<Rightarrow> u8 list) \<Rightarrow> u64 \<times> u8 list \<times> u8 list \<Rightarrow> u8 list" where
  "encode_note enc (type, name, desc) = enc (of_nat (length name)) @ enc (of_nat (length desc)) @ enc type @ pad4 name @ pad4 desc"

text \<open>What the handler gets from a note, without the memory behind name and descriptor.\<close>

fun call_note :: "'s note_fn \<Rightarrow> u64 \<times> u8 list \<times> u8 list \<Rightarrow> 's \<Rightarrow> (kstatus \<times> 's) option" where
  "call_note f (type, name, desc) s = f type name (length name) desc (length desc) s"

definition looks_inside :: "'s note_fn \<Rightarrow> bool" where
  "looks_inside f \<longleftrightarrow> (\<forall>type name desc x y s. f type (name @ x) (length name) (desc @ y) (length desc) s = f type name (length name) desc (length desc) s)"

lemma le_roundup: "n \<le> roundup_size n"
  unfolding roundup_size_def by presburger

lemma length_pad4: "length (pad4 bs) = roundup_size (length bs)"
  using le_roundup [of "length bs"] by (simp add: pad4_def)

lemma length_encode_note: "length (enc (of_nat (length n))) = 4 \<Longrightarrow> length (enc (of_nat (length d))) = 4 \<Longrightarrow> length (enc t) = 4 \<Longrightarrow>
   length (encode_note enc (t, n, d)) = 12 + roundup_size (length n) + roundup_size (length d)"
  by (simp add: length_pad4)

text \<open>One step of the loop, on a note with anything behind it.\<close>

lemma do_notes_step:
  assumes "\<And>v. length (enc v) = 4" and "\<And>v. v < 2 ^ 32 \<Longrightarrow> toh s (enc v) = v" and "looks_inside f"
    and "type < 2 ^ 32" and "length name < 2 ^ 32" and "length desc < 2 ^ 32"
  shows "do_notes toh f (encode_note enc (type, name, desc) @ rest) (length (encode_note enc (type, name, desc)) + sz) s = do {
     (ret, s) \<leftarrow> call_note f (type, name, desc) s;
     if ret \<noteq> KDUMP_OK then Some (ret, s) else do_notes toh f rest sz s
   }"
proof -
  have len: "unat (of_nat n :: u64) = n" "(of_nat n :: u64) < 2 ^ 32" if "n < 2 ^ 32" for n
  proof -
    show "unat (of_nat n :: u64) = n"
      using that by (simp add: unsigned_of_nat take_bit_nat_eq_self)
    then show "(of_nat n :: u64) < 2 ^ 32"
      using that by (simp add: word_less_nat_alt)
  qed
  note num = assms(2) [OF len(2) [OF assms(5)]] assms(2) [OF len(2) [OF assms(6)]] assms(2) [OF assms(4)]
  define m where "m = roundup_size (length name)"
  define k where "k = roundup_size (length desc)"
  obtain p q where p: "pad4 name = name @ p" "pad4 desc = desc @ q"
    by (simp add: pad4_def)
  have mk: "length (pad4 name) = m" "length (pad4 desc) = k" "length desc \<le> k"
    by (simp_all add: length_pad4 m_def k_def le_roundup)
  define data where "data = encode_note enc (type, name, desc) @ rest"
  have d: "field 0 4 data = Some (enc (of_nat (length name)))" "field 4 4 data = Some (enc (of_nat (length desc)))" "field 8 4 data = Some (enc type)"
    "drop 12 data = name @ (p @ pad4 desc @ rest)" "drop (12 + m) data = desc @ (q @ rest)" "drop (12 + m + k) data = rest"
    using mk by (simp_all add: data_def field_def assms(1) p)
  have inside: "f type (name @ x) (length name) (desc @ y) (length desc) s = call_note f (type, name, desc) s" for x y
    using assms(3) by (simp add: looks_inside_def)
  have sz: "12 + m + k + sz - (12 + m) - k = sz"
    by simp
  have "do_notes toh f data (12 + m + k + sz) s = do {
      (ret, s) \<leftarrow> call_note f (type, name, desc) s;
      if ret \<noteq> KDUMP_OK then Some (ret, s) else do_notes toh f rest sz s
    }"
    using mk(3) by (subst do_notes.simps) (simp only: d num len(1) [OF assms(5)] len(1) [OF assms(6)] inside sz bind.bind_lunit Let_def flip: m_def k_def, simp)
  moreover have "length (encode_note enc (type, name, desc)) = 12 + m + k"
    using length_encode_note [of enc name desc type] assms(1) by (simp add: m_def k_def)
  ultimately show ?thesis
    by (simp only: data_def)
qed

text \<open>
  C39. Notes: \<open>do_notes\<close> calls the handler for exactly the notes that the memory holds, in their order, with their type, name and descriptor, until one fails.
  The handler must not look behind the name and the descriptor, and must keep what the byte order of the dump depends on.
\<close>

theorem notes_are_handled:
  assumes "\<And>v. length (enc v) = 4" and "\<And>v s. I s \<Longrightarrow> v < 2 ^ 32 \<Longrightarrow> toh s (enc v) = v" and "looks_inside f"
    and "\<And>type name nsz desc dsz s ret s'. I s \<Longrightarrow> f type name nsz desc dsz s = Some (ret, s') \<Longrightarrow> I s'"
    and "\<forall>(type, name, desc) \<in> set ns. type < 2 ^ 32 \<and> length name < 2 ^ 32 \<and> length desc < 2 ^ 32" and "sz < 12" and "I s"
  shows "do_notes toh f (concat (map (encode_note enc) ns) @ rest) (length (concat (map (encode_note enc) ns)) + sz) s
    = steps (map (call_note f) ns) s"
  using assms(5,7)
proof (induction ns arbitrary: s)
  case Nil
  then show ?case
    using assms(6) by (subst do_notes.simps) simp
next
  case (Cons n ns)
  obtain type name desc where n: "n = (type, name, desc)"
    by (cases n)
  let ?r = "concat (map (encode_note enc) ns)"
  have "do_notes toh f (encode_note enc n @ (?r @ rest)) (length (encode_note enc n) + (length ?r + sz)) s = do {
      (ret, s) \<leftarrow> call_note f n s;
      if ret \<noteq> KDUMP_OK then Some (ret, s) else do_notes toh f (?r @ rest) (length ?r + sz) s
    }"
    unfolding n by (rule do_notes_step) (use Cons.prems(1) n assms(1) assms(2) [OF Cons.prems(2)] assms(3) in auto)
  also have "\<dots> = do { (ret, s) \<leftarrow> call_note f n s; if ret \<noteq> KDUMP_OK then Some (ret, s) else steps (map (call_note f) ns) s }"
  proof (cases "call_note f n s")
    case (Some r)
    then have "I (snd r)"
      using assms(4) [OF Cons.prems(2)] n by (cases r) auto
    then have "do_notes toh f (?r @ rest) (length ?r + sz) (snd r) = steps (map (call_note f) ns) (snd r)"
      by (rule Cons.IH [rotated]) (use Cons.prems(1) in auto)
    then show ?thesis
      using Some by (cases r) simp
  qed simp
  finally show ?case
    by (simp add: add.assoc)
qed

definition record_note :: "(u64 \<times> u8 list \<times> u8 list) list note_fn" where
  "record_note type name nsz desc dsz s = Some (KDUMP_OK, s @ [(type, take nsz name, take dsz desc)])"

theorem notes_are_handled_witness:
  "do_notes (\<lambda>s. be_bytes) record_note
     (concat (map (encode_note (\<lambda>v. rev (le_bytes 4 v))) [(1, [67, 79, 82, 69], [7, 7]), (2, [1], [])]) @ [])
     (length (concat (map (encode_note (\<lambda>v. rev (le_bytes 4 v))) [(1, [67, 79, 82, 69], [7, 7]), (2, [1], [])])) + 0) []
   = Some (KDUMP_OK, [(1, [67, 79, 82, 69], [7, 7]), (2, [1], [])])"
proof -
  have "be_bytes (rev (le_bytes 4 v)) = v" if "v < 2 ^ 32" for v
    using that be_le_bytes [of 4 v] by (simp add: take_bit_eq_mask less_mask_eq)
  then show ?thesis
    using notes_are_handled [of "\<lambda>v. rev (le_bytes 4 v)" "\<lambda>_. True" "\<lambda>s. be_bytes" record_note "[(1, [67, 79, 82, 69], [7, 7]), (2, [1], [])]" 0 "[]" "[]"]
    by (simp add: looks_inside_def record_note_def)
qed

text \<open>The loop returns, and does not leave the memory it was given.\<close>

lemma do_notes_returns:
  assumes "\<And>type name nsz desc dsz s. length desc \<ge> dsz \<Longrightarrow> length name \<ge> nsz \<Longrightarrow> f type name nsz desc dsz s \<noteq> None" and "sz \<le> length data"
  shows "do_notes toh f data sz s \<noteq> None"
  using assms(2)
proof (induction sz arbitrary: data s rule: less_induct)
  case (less sz)
  show ?case
  proof (cases "sz < 12")
    case True
    then show ?thesis
      by (subst do_notes.simps) simp
  next
    case False
    then have f: "field i 4 data = Some (take 4 (drop i data))" if "i \<le> 8" for i
      using less.prems that by (simp add: field_def)
    define nsz where "nsz = unat (toh s (take 4 (drop 0 data)))"
    define dsz where "dsz = unat (toh s (take 4 (drop 4 data)))"
    define off where "off = 12 + roundup_size nsz"
    have eq: "do_notes toh f data sz s =
      (if sz < off + dsz then Some (KDUMP_OK, s)
       else do {
         (ret, s) \<leftarrow> f (toh s (take 4 (drop 8 data))) (drop 12 data) nsz (drop off data) dsz s;
         if ret \<noteq> KDUMP_OK then Some (ret, s)
         else do_notes toh f (drop (off + roundup_size dsz) data) (sz - off - roundup_size dsz) s
       })"
      using False by (subst do_notes.simps) (simp add: f Let_def nsz_def dsz_def off_def cong: if_cong)
    have IH: "do_notes toh f (drop (off + roundup_size dsz) data) (sz - off - roundup_size dsz) s' \<noteq> None" for s'
      by (rule less.IH) (use False less.prems in \<open>auto simp: off_def\<close>)
    show ?thesis
    proof (cases "sz < off + dsz")
      case False
      have "f (toh s (take 4 (drop 8 data))) (drop 12 data) nsz (drop off data) dsz s \<noteq> None"
        by (rule assms(1)) (use False less.prems le_roundup [of nsz] in \<open>simp_all add: off_def\<close>)
      then show ?thesis
        using False IH by (auto simp: eq)
    qed (simp add: eq)
  qed
qed

subsection \<open>Handlers\<close>

lemma note_equal_append [simp]: "note_equal key (name @ x) (length name) = note_equal key name (length name)"
  by (simp add: note_equal_def)

lemma blob_new_dup_append: "blob_new_dup (desc @ y) (length desc) h = blob_new_dup desc (length desc) h"
  by (simp add: blob_new_dup_def kdump_blob_new_dup_def split: option.split prod.split)

text \<open>The notes that no architecture is needed for are read inside their descriptors.\<close>

lemma noarch_looks_inside: "looks_inside (do_noarch_note E)"
  by (simp add: looks_inside_def do_noarch_note_def set_blob_attr_def blob_new_dup_append)

text \<open>Those of a Xen core file are not: the header of an empty descriptor is read from the memory behind it.\<close>

lemma xen_note_looks_behind:
  "process_xc_xen_note E XEN_ELFNOTE_DUMPCORE_HEADER [] 0 h = None"
  by (simp add: process_xc_xen_note_def dump_field_def field_def)

text \<open>The crash information of a 32-bit hypervisor has the list of frames at its end, but a list in up to 32 bytes behind the fixed part is missed.\<close>

lemma crash_info_32_misses_list:
  assumes "length data = 64" and "crash_info_32 x86 data 64 h = Some (major, minor, extra, p2m, phys)"
  shows "p2m = None"
  using assms(2) by (auto simp: crash_info_32_def bind_Some_iff)

end
