(* ===== verification/Vmcoreinfo.thy ===== *)
theory Vmcoreinfo
  imports Kdump_Attrs
begin

section \<open>VMCOREINFO (src/kdumpfile/vmcoreinfo.c)\<close>

text \<open>
  The text of a blob, one \<open>KEY=VALUE\<close> a line, becomes attributes: each line below \<open>lines\<close>, and numbers and addresses by their kind. The functions
  that run when an attribute is set are called through the hooks of the environment, which the client makes out of the functions here.
\<close>

subsection \<open>Numbers of the standard library\<close>

definition digit_of :: "char \<Rightarrow> nat option" where
  "digit_of c =
     (let n = of_char c :: nat
      in if 48 \<le> n \<and> n \<le> 57 then Some (n - 48)
         else if 97 \<le> n \<and> n \<le> 122 then Some (n - 87)
         else if 65 \<le> n \<and> n \<le> 90 then Some (n - 55)
         else None)"

definition in_base :: "nat \<Rightarrow> char \<Rightarrow> bool" where
  "in_base b c = (case digit_of c of Some d \<Rightarrow> d < b | None \<Rightarrow> False)"

text \<open>The prefix \<open>0x\<close> counts only if a digit follows; base 0 means what the prefix says.\<close>

definition hex_prefix :: "string \<Rightarrow> bool" where
  "hex_prefix t = (case t of c0 # x # d # _ \<Rightarrow> c0 = CHR ''0'' \<and> (x = CHR ''x'' \<or> x = CHR ''X'') \<and> in_base 16 d | _ \<Rightarrow> False)"

definition strtoull :: "nat \<Rightarrow> string \<Rightarrow> u64 \<times> string" where
  "strtoull base s =
     (let t = dropWhile is_posix_space s;
          (neg, t) = (case t of c # t' \<Rightarrow> if c = CHR ''-'' then (True, t') else if c = CHR ''+'' then (False, t') else (False, t)
                      | [] \<Rightarrow> (False, t));
          hex = ((base = 0 \<or> base = 16) \<and> hex_prefix t);
          b = (if hex then 16 else if base = 0 then (if t \<noteq> [] \<and> hd t = CHR ''0'' then 8 else 10) else base);
          t = (if hex then drop 2 t else t);
          ds = takeWhile (in_base b) t;
          n = foldl (\<lambda>v c. b * v + the (digit_of c)) 0 ds;
          v = (if n \<ge> 2 ^ 64 then - 1 else if neg then - of_nat n else of_nat n)
      in if ds = [] then (0, s) else (v, dropWhile (in_base b) t))"

subsection \<open>Parsed attributes\<close>

definition phys_base_post_hook :: "'x kenv \<Rightarrow> nat \<Rightarrow> 'x attr_heap \<Rightarrow> (kstatus \<times> 'x attr_heap) option" where
  "phys_base_post_hook E n h = do {
     a \<leftarrow> h_nodes h n;
     case attr_value h a of Number v \<Rightarrow> set_static E ''phys_base'' (Address v) h | _ \<Rightarrow> None
   }"

partial_function (option) dealloc_dirs :: "nat option \<Rightarrow> 'x attr_heap \<Rightarrow> 'x attr_heap option" where
  "dealloc_dirs child h =
     (case child of
        None \<Rightarrow> Some h
      | Some c \<Rightarrow> do {
          t \<leftarrow> tmpl_of h c;
          a \<leftarrow> h_nodes h c;
          h \<leftarrow> (if t_type t \<noteq> KDUMP_DIRECTORY then Some h
               else do { h \<leftarrow> dealloc_children (at_dir a) h; upd_node c (\<lambda>a. a\<lparr>at_dir := None\<rparr>) h });
          a \<leftarrow> h_nodes h c;
          dealloc_dirs (at_next a) h
        })"

definition dealloc_vmcoreinfo :: "nat \<Rightarrow> 'x attr_heap \<Rightarrow> 'x attr_heap option" where
  "dealloc_vmcoreinfo dir h = do {
     t \<leftarrow> tmpl_of h dir;
     a \<leftarrow> h_nodes h dir;
     if t_type t \<noteq> KDUMP_DIRECTORY then Some h else dealloc_dirs (at_dir a) h
   }"

definition lines_tmpl :: "'x kenv \<Rightarrow> attr_template" where
  "lines_tmpl E = \<lparr>t_key = [], t_link = No_Link, t_type = KDUMP_STRING, t_override = False, t_ops = Some (ke_lines_ops E)\<rparr>"

text \<open>The key is the beginning of the text that is left.\<close>

definition add_parsed_row :: "'x kenv \<Rightarrow> nat \<Rightarrow> string \<Rightarrow> nat \<Rightarrow> string \<Rightarrow> 'x attr_heap \<Rightarrow> (kstatus \<times> 'x attr_heap) option" where
  "add_parsed_row E dir key keylen val h = do {
     r \<leftarrow> lookup_dir_attr (ke_le E) h (ke_dict E) dir ''lines'' 5;
     case r of
       None \<Rightarrow> Some (KDUMP_ERR_NOKEY, h)
     | Some lines \<Rightarrow> do {
         (attr, h) \<leftarrow> create_attr_path (ke_le E) (ke_dict E) lines key keylen (lines_tmpl E) h;
         case attr of
           None \<Rightarrow> Some (KDUMP_ERR_SYSTEM, h)
         | Some n \<Rightarrow> set_attr_sized_string (ke_hooks E) n ATTR_DEFAULT val (length val) h
       }
   }"

text \<open>The path of a line below the directory of the lines.\<close>

partial_function (option) line_key :: "'x attr_heap \<Rightarrow> nat \<Rightarrow> nat \<Rightarrow> nat \<Rightarrow> string option \<Rightarrow> (nat \<times> string) option" where
  "line_key h lin xen n key =
     (if n = lin \<or> n = xen then do { k \<leftarrow> key; Some (n, k) }
      else do {
        k \<leftarrow> key_of h n;
        a \<leftarrow> h_nodes h n;
        p \<leftarrow> at_parent a;
        line_key h lin xen p (Some (case key of None \<Rightarrow> k | Some s \<Rightarrow> k @ CHR ''.'' # s))
      })"

text \<open>The key as kind and name, of the form \<open>KIND(NAME)\<close>.\<close>

definition split_kind :: "string \<Rightarrow> (string \<times> string) option" where
  "split_kind key =
     (let type = takeWhile (\<lambda>c. c \<noteq> CHR ''('') key; sym = drop (length type + 1) key; name = takeWhile (\<lambda>c. c \<noteq> CHR '')'') sym
      in if CHR ''('' \<in> set key \<and> length sym = length name + 1 then Some (type, name) else None)"

definition number_kinds :: "string list" where
  "number_kinds = [''LENGTH'', ''NUMBER'', ''OFFSET'', ''SIZE'']"

text \<open>The attribute that a line makes besides its string.\<close>

definition add_kind :: "'x kenv \<Rightarrow> nat \<Rightarrow> string \<Rightarrow> string \<Rightarrow> string \<Rightarrow> 'x attr_heap \<Rightarrow> (kstatus \<times> 'x attr_heap) option" where
  "add_kind E dir type name val h =
     (let (num, p) = strtoull (if type = ''SYMBOL'' then 16 else 0) val;
          ops = (if type = ''NUMBER'' \<and> name = ''phys_base'' then ke_phys_base_ops E else ke_dirty_xlat_ops E);
          tmpl = \<lparr>t_key = [], t_link = No_Link, t_type = (if type = ''SYMBOL'' then KDUMP_ADDRESS else KDUMP_NUMBER), t_override = False, t_ops = Some ops\<rparr>;
          key = type @ CHR ''.'' # name
      in if type \<noteq> ''SYMBOL'' \<and> type \<notin> set number_kinds then Some (KDUMP_OK, h)
         else if p \<noteq> [] then Some (KDUMP_OK, h)
         else do {
           (attr, h) \<leftarrow> create_attr_path (ke_le E) (ke_dict E) dir key (length key) tmpl h;
           case attr of
             None \<Rightarrow> Some (KDUMP_ERR_SYSTEM, h)
           | Some n \<Rightarrow>
               if t_type tmpl = KDUMP_NUMBER then set_attr_number (ke_hooks E) n ATTR_DEFAULT num h
               else set_attr_address (ke_hooks E) n ATTR_DEFAULT num h
         })"

text \<open>The lines with a meaning of their own. The second result is whether the hook returns at once.\<close>

definition special_line :: "'x kenv \<Rightarrow> string \<Rightarrow> string \<Rightarrow> 'x attr_heap \<Rightarrow> (kstatus \<times> bool \<times> 'x attr_heap) option" where
  "special_line E key val h =
     (if key = ''PAGESIZE''
      then let (page_size, p) = strtoul val
           in if p \<noteq> [] then Some (KDUMP_OK, True, h)
              else do { (res, h) \<leftarrow> set_page_size E page_size h; Some (res, res \<noteq> KDUMP_OK, h) }
      else if key = ''OSRELEASE''
      then do {
        attr \<leftarrow> gattr E h (GKI ''linux_uts_release'');
        (res, h) \<leftarrow> set_attr_string (ke_hooks E) attr ATTR_DEFAULT val h;
        Some (res, res \<noteq> KDUMP_OK, h)
      }
      else Some (KDUMP_OK, False, h))"

definition string_value :: "'x attr_heap \<Rightarrow> nat \<Rightarrow> string option" where
  "string_value h n = do { a \<leftarrow> h_nodes h n; case attr_value h a of Str s \<Rightarrow> Some s | _ \<Rightarrow> None }"

text \<open>The copy of the path ends before the first name if this name is empty; then the directory is that of the lines.\<close>

definition lines_post_hook :: "'x kenv \<Rightarrow> nat \<Rightarrow> 'x attr_heap \<Rightarrow> (kstatus \<times> 'x attr_heap) option" where
  "lines_post_hook E lineattr h = do {
     let h = h\<lparr>h_ctx := ke_set_dirty E (h_ctx h)\<rparr>;
     lin \<leftarrow> gattr E h (GKI ''linux_vmcoreinfo_lines'');
     xen \<leftarrow> gattr E h (GKI ''xen_vmcoreinfo_lines'');
     (attr, key) \<leftarrow> line_key h lin xen lineattr None;
     dir \<leftarrow> (if key = [] \<or> hd key = CHR ''.'' then Some attr else do { a \<leftarrow> h_nodes h attr; at_parent a });
     vmdir \<leftarrow> gattr E h (GKI ''dir_linux_vmcoreinfo'');
     val \<leftarrow> string_value h lineattr;
     (res, done, h) \<leftarrow> (if dir = vmdir then special_line E key val h else Some (KDUMP_OK, False, h));
     if done then Some (res, h)
     else (case split_kind key of
             None \<Rightarrow> Some (KDUMP_OK, h)
           | Some (type, name) \<Rightarrow> do { val \<leftarrow> string_value h lineattr; add_kind E dir type name val h })
   }"

text \<open>The loop over the lines; the status is that of the last line, and \<open>res\<close>, which is not initialised, if there is none.\<close>

function parse_rows :: "'x kenv \<Rightarrow> nat \<Rightarrow> string \<Rightarrow> kstatus \<Rightarrow> 'x attr_heap \<Rightarrow> (kstatus \<times> 'x attr_heap) option" where
  "parse_rows E dir p res h =
     (if p = [] then Some (res, h)
      else
        let line = takeWhile (\<lambda>c. c \<noteq> CHR 0x0A) p;
            key = takeWhile (\<lambda>c. c \<noteq> CHR ''='') line;
            val = drop (length key + 1) line
        in do {
             (res, h) \<leftarrow> add_parsed_row E dir p (length key) val h;
             if res \<noteq> KDUMP_OK then Some (res, h) else parse_rows E dir (drop (length line + 1) p) res h
           })"
  by pat_completeness auto
termination
  by (relation "measure (\<lambda>(E, dir, p, res, h). length p)") auto

declare parse_rows.simps [simp del]

definition vmcoreinfo_raw_post_hook :: "'x kenv \<Rightarrow> kstatus \<Rightarrow> nat \<Rightarrow> 'x attr_heap \<Rightarrow> (kstatus \<times> 'x attr_heap) option" where
  "vmcoreinfo_raw_post_hook E junk rawattr h = do {
     a \<leftarrow> h_nodes h rawattr;
     dir \<leftarrow> at_parent a;
     h \<leftarrow> dealloc_vmcoreinfo dir h;
     a \<leftarrow> h_nodes h rawattr;
     b \<leftarrow> (case attr_value h a of Blob b \<Rightarrow> Some b | _ \<Rightarrow> None);
     h \<leftarrow> upd_blob b (\<lambda>blob. snd (kdump_blob_pin blob)) h;
     blob \<leftarrow> h_blobs h b;
     data \<leftarrow> (if bl_size blob = 0 then Some [] else do { (_, bs) \<leftarrow> bl_data blob; field 0 (bl_size blob) bs });
     (res, h) \<leftarrow> parse_rows E dir (chars data) junk h;
     h \<leftarrow> upd_blob b (\<lambda>blob. snd (kdump_blob_unpin blob)) h;
     Some (res, h)
   }"

definition vmcoreinfo_raw_clear_hook :: "nat \<Rightarrow> 'x attr_heap \<Rightarrow> 'x attr_heap option" where
  "vmcoreinfo_raw_clear_hook rawattr h = do { a \<leftarrow> h_nodes h rawattr; p \<leftarrow> at_parent a; dealloc_vmcoreinfo p h }"

subsection \<open>The interface\<close>

definition os_attr :: "'x kenv \<Rightarrow> string \<Rightarrow> 'x attr_heap \<Rightarrow> (kstatus \<times> nat option \<times> 'x attr_heap) option" where
  "os_attr E name h = ostype_attr (ke_hooks E) (ke_le E) (ke_dict E) (ke_osdir E (h_ctx h)) name h"

definition get_raw_locked :: "'x kenv \<Rightarrow> 'x attr_heap \<Rightarrow> (kstatus \<times> u8 list option \<times> 'x attr_heap) option" where
  "get_raw_locked E h = do {
     (status, attr, h) \<leftarrow> os_attr E ''vmcoreinfo.raw'' h;
     case attr of
       None \<Rightarrow> Some (status, None, h)
     | Some n \<Rightarrow> do {
         a \<leftarrow> h_nodes h n;
         b \<leftarrow> (case attr_value h a of Blob b \<Rightarrow> Some b | _ \<Rightarrow> None);
         blob \<leftarrow> h_blobs h b;
         case alloc h of
           (None, h) \<Rightarrow> Some (KDUMP_ERR_SYSTEM, None, h)
         | (Some _, h) \<Rightarrow> do {
             data \<leftarrow> (if bl_size blob = 0 then Some [] else do { (_, bs) \<leftarrow> bl_data blob; field 0 (bl_size blob) bs });
             Some (KDUMP_OK, Some (data @ [0]), h)
           }
       }
   }"

definition kdump_vmcoreinfo_raw :: "'x kenv \<Rightarrow> 'x attr_heap \<Rightarrow> (kstatus \<times> u8 list option \<times> 'x attr_heap) option" where
  "kdump_vmcoreinfo_raw E h = get_raw_locked E h"

text \<open>The attribute below a directory of the operating system, if it has a value.\<close>

definition os_child :: "'x kenv \<Rightarrow> string \<Rightarrow> string \<Rightarrow> 'x attr_heap \<Rightarrow> (kstatus \<times> nat option \<times> 'x attr_heap) option" where
  "os_child E dir key h = do {
     (status, base, h) \<leftarrow> os_attr E dir h;
     case base of
       None \<Rightarrow> Some (status, None, h)
     | Some base \<Rightarrow> do {
         r \<leftarrow> lookup_dir_attr (ke_le E) h (ke_dict E) base key (length key);
         case r of
           None \<Rightarrow> Some (KDUMP_ERR_NODATA, None, h)
         | Some n \<Rightarrow> do {
             a \<leftarrow> h_nodes h n;
             if \<not> attr_isset a then Some (KDUMP_ERR_NODATA, None, h)
             else do {
               (status, h) \<leftarrow> attr_revalidate (ke_hooks E) n h;
               Some (status, if status = KDUMP_OK then Some n else None, h)
             }
           }
       }
   }"

definition get_line_locked :: "'x kenv \<Rightarrow> string \<Rightarrow> 'x attr_heap \<Rightarrow> (kstatus \<times> string option \<times> 'x attr_heap) option" where
  "get_line_locked E key h = do {
     (status, attr, h) \<leftarrow> os_child E ''vmcoreinfo.lines'' key h;
     case attr of
       None \<Rightarrow> Some (status, None, h)
     | Some n \<Rightarrow> do {
         val \<leftarrow> string_value h n;
         case alloc h of (r, h) \<Rightarrow> Some (if r = None then (KDUMP_ERR_SYSTEM, None, h) else (KDUMP_OK, Some val, h))
       }
   }"

definition kdump_vmcoreinfo_line :: "'x kenv \<Rightarrow> string \<Rightarrow> 'x attr_heap \<Rightarrow> (kstatus \<times> string option \<times> 'x attr_heap) option" where
  "kdump_vmcoreinfo_line E key h = get_line_locked E key h"

definition kdump_vmcoreinfo_symbol :: "'x kenv \<Rightarrow> string \<Rightarrow> 'x attr_heap \<Rightarrow> (kstatus \<times> u64 option \<times> 'x attr_heap) option" where
  "kdump_vmcoreinfo_symbol E symname h = do {
     (status, attr, h) \<leftarrow> os_child E ''vmcoreinfo.SYMBOL'' symname h;
     case attr of
       None \<Rightarrow> Some (status, None, h)
     | Some n \<Rightarrow> do {
         a \<leftarrow> h_nodes h n;
         case attr_value h a of Address v \<Rightarrow> Some (KDUMP_OK, Some v, h) | _ \<Rightarrow> None
       }
   }"

end
