(* ===== verification/Kdump_Shared.thy ===== *)
theory Kdump_Shared
  imports Kdump_Attrs Notes Flatmap Page_Cache Pfn_Map
begin

section \<open>Shared data of a dump file (src/kdumpfile/kdumpfile-priv.h, src/kdumpfile/util.c)\<close>

text \<open>
  What contexts share besides attributes: the rearranged files on top of the file cache, the page cache and the contents of its buffers by their
  addresses, the private data of the format, and
  the state of the translation. The attributes are in a heap whose context this is.
\<close>

record 'p kshared =
  ks_fm :: flattened_map
  ks_fc :: fcache
  ks_cache :: "pcache option"
  ks_pages :: "nat \<Rightarrow> u8 list"
  ks_fmtdata :: "'p option"
  ks_arch :: "kdump_arch option"
  ks_osdir :: "nat option"
  ks_dirty :: bool
  ks_xlat_caps :: u64

type_synonym 'p kheap = "'p kshared attr_heap"

text \<open>
  The environment of a format: that of the attributes, the operating system, the outcome of \<open>realloc\<close> by the size, and the alignment of a buffer.
\<close>

record 'p denv =
  de_attrs :: "'p kshared kenv"
  de_os :: os
  de_realloc :: "nat \<Rightarrow> bool"
  de_base :: nat

text \<open>The result of a probe, with \<open>KDUMP_NOPROBE\<close> for a dump of another format.\<close>

datatype probe_result = Noprobe | Probed kstatus

definition upd_shared :: "('p kshared \<Rightarrow> 'p kshared) \<Rightarrow> 'p kheap \<Rightarrow> 'p kheap" where
  "upd_shared f h = h\<lparr>h_ctx := f (h_ctx h)\<rparr>"

text \<open>The private data of the format, which a function uses without a check.\<close>

definition fmtdata :: "'p kheap \<Rightarrow> 'p option" where
  "fmtdata h = ks_fmtdata (h_ctx h)"

definition upd_fmtdata :: "('p \<Rightarrow> 'p) \<Rightarrow> 'p kheap \<Rightarrow> 'p kheap option" where
  "upd_fmtdata f h = do { p \<leftarrow> fmtdata h; Some (upd_shared (\<lambda>s. s\<lparr>ks_fmtdata := Some (f p)\<rparr>) h) }"

subsection \<open>Reading from the files\<close>

definition read_flat :: "'p denv \<Rightarrow> nat \<Rightarrow> nat \<Rightarrow> u64 \<Rightarrow> 'p kheap \<Rightarrow> (kstatus \<times> u8 list \<times> 'p kheap) option" where
  "read_flat D len i pos h = do {
     (st, bs, fc) \<leftarrow> flatmap_pread (de_os D) (ks_fm (h_ctx h)) len i pos (ks_fc (h_ctx h));
     Some (st, bs, upd_shared (\<lambda>s. s\<lparr>ks_fc := fc\<rparr>) h)
   }"

text \<open>The three allocations of a chunk, and the chunk with its data.\<close>

definition get_flat_chunk ::
  "'p denv \<Rightarrow> nat \<Rightarrow> nat \<Rightarrow> u64 \<Rightarrow> 'p kheap \<Rightarrow> ((kstatus + fcache_chunk \<times> u8 list) \<times> 'p kheap) option" where
  "get_flat_chunk D len i pos h = do {
     let (a, h) = alloc h;
     let (b, h) = alloc h;
     let (c, h) = alloc h;
     (r, fc) \<leftarrow> flatmap_get_chunk (de_os D) (a \<noteq> None) (b \<noteq> None) (c \<noteq> None) (ks_fm (h_ctx h)) len i pos (ks_fc (h_ctx h));
     let h = upd_shared (\<lambda>s. s\<lparr>ks_fc := fc\<rparr>) h;
     case r of
       Inl st \<Rightarrow> Some (Inl st, h)
     | Inr fch \<Rightarrow> do { bs \<leftarrow> chunk_data (de_os D) fc fch; Some (Inr (fch, bs), h) }
   }"

definition put_flat_chunk :: "fcache_chunk \<Rightarrow> 'p kheap \<Rightarrow> 'p kheap" where
  "put_flat_chunk fch h = upd_shared (\<lambda>s. s\<lparr>ks_fc := fcache_put_chunk fch (ks_fc s)\<rparr>) h"

definition read_blob_attr :: "'p denv \<Rightarrow> nat \<Rightarrow> u64 \<Rightarrow> nat \<Rightarrow> nat \<Rightarrow> 'p kheap \<Rightarrow> (kstatus \<times> 'p kheap) option" where
  "read_blob_attr D i off sz attr h = do {
     (r, h) \<leftarrow> get_flat_chunk D sz i off h;
     case r of
       Inl st \<Rightarrow> Some (st, h)
     | Inr (fch, bs) \<Rightarrow> do {
         (ret, h) \<leftarrow> set_blob_attr (de_attrs D) attr bs sz h;
         Some (ret, put_flat_chunk fch h)
       }
   }"

subsection \<open>Sizes and numbers\<close>

definition get_page_size :: "'x attr_heap \<Rightarrow> u64" where
  "get_page_size h = get_number ''page_size'' h"

definition get_page_shift :: "'x attr_heap \<Rightarrow> u64" where
  "get_page_shift h = get_number ''page_shift'' h"

definition get_max_pfn :: "'x attr_heap \<Rightarrow> u64" where
  "get_max_pfn h = get_number ''max_pfn'' h"

definition get_num_files :: "'x attr_heap \<Rightarrow> nat" where
  "get_num_files h = unat (get_number ''num_files'' h)"

text \<open>The result of setting it is not looked at.\<close>

definition set_max_pfn :: "'x kenv \<Rightarrow> u64 \<Rightarrow> 'x attr_heap \<Rightarrow> 'x attr_heap option" where
  "set_max_pfn E n h = do { (_, h) \<leftarrow> set_static E ''max_pfn'' (Number n) h; Some h }"

definition MIN_PAGE_SIZE :: int where
  "MIN_PAGE_SIZE = 2 ^ 12"

definition MAX_PAGE_SIZE :: int where
  "MAX_PAGE_SIZE = 2 ^ 18"

definition KDUMP_PFN_MAX :: u64 where
  "KDUMP_PFN_MAX = - 1"

text \<open>A 32-bit number as a signed one.\<close>

definition int32 :: "u64 \<Rightarrow> int" where
  "int32 v = sint (ucast v :: 32 word)"

end
