(* ===== verification/Diskdump.thy ===== *)
theory Diskdump
  imports Kdump_Shared
begin

section \<open>Diskdump and compressed kdump files (src/kdumpfile/diskdump.c)\<close>

text \<open>
  A dump starts with a block that holds the header, a sub-header and a bitmap of the pages that are in the file; descriptors of these pages follow, each with the
  position, the size and the flags of the page data. Structures of the target are read by the offsets of their fields. On the hosts for which this is a model,
  \<open>int_fast32_t\<close> has 64 bits. The functions that decompress data belong to other libraries and are arguments.
\<close>

record disk_dump_priv =
  dd_addr :: nat
  dd_num_files :: nat
  dd_mem_pagemap_off :: u64
  dd_mem_pagemap_size :: nat
  dd_mem_pagemap :: pfn_file_map
  dd_pdmap :: "pfn_file_map list"

type_synonym ddheap = "disk_dump_priv kheap"

type_synonym ddenv = "disk_dump_priv denv"

text \<open>A codec gets the data and the size of the page; it fails or returns what it has written. Without one the library has been built without it.\<close>

record codecs =
  co_inflate :: "(u8 list \<Rightarrow> nat \<Rightarrow> kstatus + u8 list) option"
  co_lzo :: "(u8 list \<Rightarrow> nat \<Rightarrow> u8 list option) option"
  co_snappy :: "(u8 list \<Rightarrow> nat \<Rightarrow> u8 list option) option"
  co_zstd :: "(u8 list \<Rightarrow> nat \<Rightarrow> u8 list option) option"

definition DUMP_DH_COMPRESSED_ZLIB :: u64 where "DUMP_DH_COMPRESSED_ZLIB = 0x1"
definition DUMP_DH_COMPRESSED_LZO :: u64 where "DUMP_DH_COMPRESSED_LZO = 0x2"
definition DUMP_DH_COMPRESSED_SNAPPY :: u64 where "DUMP_DH_COMPRESSED_SNAPPY = 0x4"
definition DUMP_DH_COMPRESSED_ZSTD :: u64 where "DUMP_DH_COMPRESSED_ZSTD = 0x20"

definition DUMP_DH_COMPRESSED :: u64 where
  "DUMP_DH_COMPRESSED = DUMP_DH_COMPRESSED_ZLIB OR DUMP_DH_COMPRESSED_LZO OR DUMP_DH_COMPRESSED_SNAPPY OR DUMP_DH_COMPRESSED_ZSTD"

definition PAGE_DESC_SIZE :: nat where
  "PAGE_DESC_SIZE = 24"

subsection \<open>Page maps\<close>

definition pfn_to_pdpos :: "pfn_file_map \<Rightarrow> u64 \<Rightarrow> u64" where
  "pfn_to_pdpos pdmap pfn =
     (case find_pfn_region pdmap pfn of
        Some i \<Rightarrow> let rgn = regions pdmap ! i
                  in if pfn \<ge> rgn_pfn rgn then rgn_pos rgn + (pfn - rgn_pfn rgn) * of_nat PAGE_DESC_SIZE else - 1
      | None \<Rightarrow> - 1)"

definition diskdump_get_bits :: "u64 \<Rightarrow> u64 \<Rightarrow> u8 list \<Rightarrow> ddheap \<Rightarrow> (kstatus \<times> u8 list) option" where
  "diskdump_get_bits first last' bits h = do {
     ddp \<leftarrow> fmtdata h;
     bits \<leftarrow> get_pfn_map_bits (dd_pdmap ddp) first last' bits;
     Some (KDUMP_OK, bits)
   }"

definition diskdump_find_set :: "u64 \<Rightarrow> ddheap \<Rightarrow> (kstatus \<times> u64) option" where
  "diskdump_find_set idx h = do {
     ddp \<leftarrow> fmtdata h;
     Some (case find_mapped_pfn (dd_pdmap ddp) idx of Some pfn \<Rightarrow> (KDUMP_OK, pfn) | None \<Rightarrow> (KDUMP_ERR_NODATA, idx))
   }"

definition diskdump_find_clear :: "u64 \<Rightarrow> ddheap \<Rightarrow> (kstatus \<times> u64) option" where
  "diskdump_find_clear idx h = do { ddp \<leftarrow> fmtdata h; Some (KDUMP_OK, find_unmapped_pfn (dd_pdmap ddp) idx) }"

definition mem_pagemap_get_bits :: "u64 \<Rightarrow> u64 \<Rightarrow> u8 list \<Rightarrow> ddheap \<Rightarrow> (kstatus \<times> u8 list) option" where
  "mem_pagemap_get_bits first last' bits h = do {
     ddp \<leftarrow> fmtdata h;
     bits \<leftarrow> get_pfn_map_bits [dd_mem_pagemap ddp] first last' bits;
     Some (KDUMP_OK, bits)
   }"

definition mem_pagemap_find_set :: "u64 \<Rightarrow> ddheap \<Rightarrow> (kstatus \<times> u64) option" where
  "mem_pagemap_find_set idx h = do {
     ddp \<leftarrow> fmtdata h;
     Some (case find_mapped_pfn [dd_mem_pagemap ddp] idx of Some pfn \<Rightarrow> (KDUMP_OK, pfn) | None \<Rightarrow> (KDUMP_ERR_NODATA, idx))
   }"

definition mem_pagemap_find_clear :: "u64 \<Rightarrow> ddheap \<Rightarrow> (kstatus \<times> u64) option" where
  "mem_pagemap_find_clear idx h = do { ddp \<leftarrow> fmtdata h; Some (KDUMP_OK, find_unmapped_pfn [dd_mem_pagemap ddp] idx) }"

definition diskdump_bmp_cleanup :: "ddheap \<Rightarrow> ddheap" where
  "diskdump_bmp_cleanup h = h\<lparr>h_shared := h_shared h - 1\<rparr>"

subsection \<open>Reading a page\<close>

definition uncompress_page_gzip :: "codecs \<Rightarrow> nat \<Rightarrow> u8 list \<Rightarrow> kstatus \<times> u8 list" where
  "uncompress_page_gzip C sz src =
     (case co_inflate C of
        None \<Rightarrow> (KDUMP_ERR_NOTIMPL, [])
      | Some f \<Rightarrow>
          (case f src sz of
             Inl st \<Rightarrow> (st, [])
           | Inr out \<Rightarrow> if length out < sz then (KDUMP_ERR_CORRUPT, []) else (KDUMP_OK, out)))"

definition uncompress_other :: "(u8 list \<Rightarrow> nat \<Rightarrow> u8 list option) \<Rightarrow> nat \<Rightarrow> u8 list \<Rightarrow> kstatus \<times> u8 list" where
  "uncompress_other f sz src =
     (case f src sz of
        None \<Rightarrow> (KDUMP_ERR_CORRUPT, [])
      | Some out \<Rightarrow> if length out \<noteq> sz then (KDUMP_ERR_CORRUPT, []) else (KDUMP_OK, out))"

text \<open>The data of a page from its chunk, with the chunk given back unless the method is not supported.\<close>

definition uncompress_page :: "codecs \<Rightarrow> u64 \<Rightarrow> nat \<Rightarrow> fcache_chunk \<Rightarrow> u8 list \<Rightarrow> ddheap \<Rightarrow> kstatus \<times> u8 list \<times> ddheap" where
  "uncompress_page C flags sz fch bs h =
     (if flags AND DUMP_DH_COMPRESSED_ZLIB \<noteq> 0
      then let (ret, page) = uncompress_page_gzip C sz bs in (ret, page, put_flat_chunk fch h)
      else
        let f = (if flags AND DUMP_DH_COMPRESSED_LZO \<noteq> 0 then co_lzo C
                 else if flags AND DUMP_DH_COMPRESSED_SNAPPY \<noteq> 0 then co_snappy C else co_zstd C)
        in case f of
             None \<Rightarrow> (KDUMP_ERR_NOTIMPL, [], h)
           | Some f \<Rightarrow> let (ret, page) = uncompress_other f sz bs in (ret, page, put_flat_chunk fch h))"

text \<open>The result is the contents of the buffer, which has the size of a page, if the status is \<open>KDUMP_OK\<close>.\<close>

definition diskdump_read_page :: "ddenv \<Rightarrow> codecs \<Rightarrow> u64 \<Rightarrow> ddheap \<Rightarrow> (kstatus \<times> u8 list \<times> ddheap) option" where
  "diskdump_read_page D C addr h = do {
     ddp \<leftarrow> fmtdata h;
     let pfn = drop_bit (unat (get_page_shift h)) addr;
     if pfn \<ge> get_max_pfn h then Some (KDUMP_ERR_NODATA, [], h)
     else do {
       let pdmap = (case find_pfn_file_map (dd_pdmap ddp) pfn of Some (pdmap # _) \<Rightarrow> Some pdmap | _ \<Rightarrow> None);
       let pd_pos = (case pdmap of Some m \<Rightarrow> if start_pfn m \<le> pfn then pfn_to_pdpos m pfn else - 1 | None \<Rightarrow> - 1);
       if pd_pos = - 1
       then Some (if get_number ''zero_excluded'' h \<noteq> 0 then (KDUMP_OK, replicate (unat (get_page_size h)) 0, h) else (KDUMP_ERR_NODATA, [], h))
       else do {
         pdmap \<leftarrow> pdmap;
         (ret, pd, h) \<leftarrow> read_flat D PAGE_DESC_SIZE (fidx pdmap) pd_pos h;
         if ret \<noteq> KDUMP_OK then Some (ret, [], h)
         else do {
           off \<leftarrow> dump_field 0 8 pd h;
           sz \<leftarrow> dump_field 8 4 pd h;
           flags \<leftarrow> dump_field 12 4 pd h;
           if flags AND DUMP_DH_COMPRESSED \<noteq> 0
           then do {
             (r, h) \<leftarrow> get_flat_chunk D (unat sz) (fidx pdmap) off h;
             case r of
               Inl ret \<Rightarrow> Some (ret, [], h)
             | Inr (fch, bs) \<Rightarrow> Some (uncompress_page C flags (unat (get_page_size h)) fch bs h)
           }
           else if sz \<noteq> get_page_size h then Some (KDUMP_ERR_CORRUPT, [], h)
           else read_flat D (unat sz) (fidx pdmap) off h
         }
       }
     }
   }"

subsection \<open>Notes and the bitmap\<close>

definition read_vmcoreinfo :: "ddenv \<Rightarrow> nat \<Rightarrow> u64 \<Rightarrow> nat \<Rightarrow> ddheap \<Rightarrow> (kstatus \<times> ddheap) option" where
  "read_vmcoreinfo D i off sz h = read_blob_attr D i off sz (GKI ''linux_vmcoreinfo_raw'') h"

definition read_eraseinfo :: "ddenv \<Rightarrow> nat \<Rightarrow> u64 \<Rightarrow> nat \<Rightarrow> ddheap \<Rightarrow> (kstatus \<times> ddheap) option" where
  "read_eraseinfo D i off sz h = read_blob_attr D i off sz (GKI ''file_eraseinfo_raw'') h"

definition read_notes :: "ddenv \<Rightarrow> u64 \<Rightarrow> nat \<Rightarrow> ddheap \<Rightarrow> (kstatus \<times> ddheap) option" where
  "read_notes D off sz h = do {
     (r, h) \<leftarrow> get_flat_chunk D sz 0 off h;
     case r of
       Inl ret \<Rightarrow> Some (ret, h)
     | Inr (fch, bs) \<Rightarrow> do {
         (ret, h) \<leftarrow> process_noarch_notes (de_attrs D) bs sz h;
         if ret \<noteq> KDUMP_OK then Some (ret, put_flat_chunk fch h)
         else do {
           isset \<leftarrow> isset_static (de_attrs D) ''arch_name'' h;
           (ret, h) \<leftarrow> (if isset then process_arch_notes (de_attrs D) bs sz h else Some (KDUMP_OK, h));
           Some (ret, put_flat_chunk fch h)
         }
       }
   }"

text \<open>
  \<open>None\<close> is also undefined behaviour of the searches. The numbers of blocks are 32-bit numbers, which are extended when they are multiplied by the size of a page.
\<close>

definition read_bitmap :: "ddenv \<Rightarrow> nat \<Rightarrow> int \<Rightarrow> int \<Rightarrow> ddheap \<Rightarrow> (kstatus \<times> ddheap) option" where
  "read_bitmap D i sub_hdr_size bitmap_blocks h = do {
     ddp \<leftarrow> fmtdata h;
     let pdmap = dd_pdmap ddp ! i;
     let off = of_int (1 + sub_hdr_size) * get_page_size h;
     h \<leftarrow> (if fidx pdmap = 0 then upd_fmtdata (\<lambda>p. p\<lparr>dd_mem_pagemap_off := off\<rparr>) h else Some h);
     let descoff = off + of_int bitmap_blocks * get_page_size h;
     let bitmapsize = of_int bitmap_blocks * get_page_size h;
     let max_bitmap_pfn = bitmapsize * 8;
     let partial = get_max_pfn h \<le> max_bitmap_pfn div 2;
     let blocks = (if bitmap_blocks < 0 then - (- bitmap_blocks div 2) else bitmap_blocks div 2);
     let off = (if partial then off + of_int blocks * get_page_size h else off);
     let bitmapsize = (if partial then of_int blocks * get_page_size h else bitmapsize);
     let max_bitmap_pfn = (if partial then bitmapsize * 8 else max_bitmap_pfn);
     h \<leftarrow> (if fidx pdmap = 0 then upd_fmtdata (\<lambda>p. p\<lparr>dd_mem_pagemap_size := unat bitmapsize\<rparr>) h else Some h);
     h \<leftarrow> (if get_max_pfn h > max_bitmap_pfn then set_max_pfn (de_attrs D) max_bitmap_pfn h else Some h);
     (r, h) \<leftarrow> get_flat_chunk D (unat bitmapsize) (fidx pdmap) off h;
     case r of
       Inl ret \<Rightarrow> Some (ret, h)
     | Inr (fch, bs) \<Rightarrow> do {
         let end' = (if max_bitmap_pfn > end_pfn pdmap then end_pfn pdmap else max_bitmap_pfn);
         (ret, pdmap) \<leftarrow> pfn_regions_from_bitmap (de_realloc D) (de_base D) pdmap bs False (start_pfn pdmap) end' descoff (of_nat PAGE_DESC_SIZE);
         h \<leftarrow> upd_fmtdata (\<lambda>p. p\<lparr>dd_pdmap := (dd_pdmap p)[i := pdmap]\<rparr>) h;
         Some (ret, put_flat_chunk fch h)
       }
   }"

definition try_header :: "ddenv \<Rightarrow> int \<Rightarrow> u64 \<Rightarrow> u64 \<Rightarrow> ddheap \<Rightarrow> (kstatus \<times> ddheap) option" where
  "try_header D block_size bitmap_blocks max_mapnr h =
     (if block_size < MIN_PAGE_SIZE \<or> block_size > MAX_PAGE_SIZE then Some (KDUMP_ERR_CORRUPT, h)
      else if 8 * bitmap_blocks * of_int block_size < max_mapnr then Some (KDUMP_ERR_CORRUPT, h)
      else do {
        (ret, h) \<leftarrow> set_page_size (de_attrs D) (of_int block_size) h;
        if ret \<noteq> KDUMP_OK then Some (ret, h)
        else do { h \<leftarrow> set_max_pfn (de_attrs D) max_mapnr h; Some (KDUMP_OK, h) }
      })"

subsection \<open>Sub-headers\<close>

text \<open>The version and the number of blocks are stored as 64-bit numbers from unsigned ones.\<close>

record setup_data =
  sd_note_off :: u64
  sd_note_sz :: nat
  sd_header_version :: int
  sd_sub_hdr_blocks :: int

text \<open>
  The positions and widths of the fields of a sub-header: the three structures differ in nothing else. \<open>sl_old\<close> is the width of \<open>phys_base\<close> and of the page
  frame numbers of version 2, \<open>sl_size\<close> that of the sizes.
\<close>

record sub_layout =
  sl_old :: nat
  sl_size :: nat
  sl_split :: nat
  sl_start :: nat
  sl_end :: nat
  sl_vmci :: nat
  sl_note :: nat
  sl_erase :: nat
  sl_start64 :: nat

definition kdump_sub_header_32pack :: sub_layout where
  "kdump_sub_header_32pack = \<lparr>sl_old = 4, sl_size = 4, sl_split = 8, sl_start = 12, sl_end = 16, sl_vmci = 20, sl_note = 32, sl_erase = 44, sl_start64 = 56\<rparr>"

definition kdump_sub_header_32pad :: sub_layout where
  "kdump_sub_header_32pad = \<lparr>sl_old = 4, sl_size = 4, sl_split = 8, sl_start = 12, sl_end = 16, sl_vmci = 24, sl_note = 40, sl_erase = 56, sl_start64 = 72\<rparr>"

definition kdump_sub_header_64 :: sub_layout where
  "kdump_sub_header_64 = \<lparr>sl_old = 8, sl_size = 8, sl_split = 12, sl_start = 16, sl_end = 24, sl_vmci = 32, sl_note = 48, sl_erase = 64, sl_start64 = 80\<rparr>"

text \<open>A blob of which the sub-header has the position and, behind it, the size.\<close>

definition sub_blob ::
  "(nat \<Rightarrow> u64 \<Rightarrow> nat \<Rightarrow> ddheap \<Rightarrow> (kstatus \<times> ddheap) option) \<Rightarrow> sub_layout \<Rightarrow> nat \<Rightarrow> nat \<Rightarrow> u8 list \<Rightarrow> ddheap \<Rightarrow> (kstatus \<times> ddheap) option" where
  "sub_blob f L i at sh h = do {
     off \<leftarrow> dump_field at 8 sh h;
     sz \<leftarrow> dump_field (at + 8) (sl_size L) sh h;
     f i off (unat sz) h
   }"

definition upd_pdmap :: "nat \<Rightarrow> (pfn_file_map \<Rightarrow> pfn_file_map) \<Rightarrow> ddheap \<Rightarrow> ddheap option" where
  "upd_pdmap i f h = upd_fmtdata (\<lambda>p. p\<lparr>dd_pdmap := (dd_pdmap p)[i := f (dd_pdmap p ! i)]\<rparr>) h"

text \<open>The range of page frames in a file, and the last one of the machine; the flag is tested as it is in memory.\<close>

definition parse_range :: "ddenv \<Rightarrow> sub_layout \<Rightarrow> int \<Rightarrow> nat \<Rightarrow> u8 list \<Rightarrow> ddheap \<Rightarrow> (kstatus \<times> ddheap) option" where
  "parse_range D L version i sh h = do {
     split \<leftarrow> field (sl_split L) 4 sh;
     let split = (split \<noteq> replicate 4 0);
     h \<leftarrow> upd_pdmap i (\<lambda>m. m\<lparr>start_pfn := 0, end_pfn := KDUMP_PFN_MAX\<rparr>) h;
     h \<leftarrow> (if version \<ge> 2 \<and> split
          then do {
            s \<leftarrow> dump_field (sl_start L) (sl_old L) sh h;
            e \<leftarrow> dump_field (sl_end L) (sl_old L) sh h;
            upd_pdmap i (\<lambda>m. m\<lparr>start_pfn := s, end_pfn := e\<rparr>) h
          }
          else Some h);
     if version \<ge> 6
     then do {
       h \<leftarrow> (if split
            then do {
              s \<leftarrow> dump_field (sl_start64 L) 8 sh h;
              e \<leftarrow> dump_field (sl_start64 L + 8) 8 sh h;
              upd_pdmap i (\<lambda>m. m\<lparr>start_pfn := s, end_pfn := e\<rparr>) h
            }
            else Some h);
       n \<leftarrow> dump_field (sl_start64 L + 16) 8 sh h;
       h \<leftarrow> set_max_pfn (de_attrs D) n h;
       Some (KDUMP_OK, h)
     }
     else Some (KDUMP_OK, h)
   }"

definition parse_sub_hdr ::
  "ddenv \<Rightarrow> sub_layout \<Rightarrow> nat \<Rightarrow> u8 list \<Rightarrow> setup_data \<Rightarrow> ddheap \<Rightarrow> (kstatus \<times> setup_data \<times> ddheap) option" where
  "parse_sub_hdr D L i sh sdp h = do {
     let version = sd_header_version sdp;
     base \<leftarrow> dump_field 0 (sl_old L) sh h;
     (_, h) \<leftarrow> set_static (de_attrs D) ''phys_base'' (Address base) h;
     off \<leftarrow> dump_field (sl_note L) 8 sh h;
     sz \<leftarrow> dump_field (sl_note L + 8) (sl_size L) sh h;
     let sdp = (if version \<ge> 4 then sdp\<lparr>sd_note_off := off, sd_note_sz := unat sz\<rparr> else sdp);
     (ret, h) \<leftarrow>
       steps ((if version \<ge> 3 \<and> version < 4 then [sub_blob (read_vmcoreinfo D) L i (sl_vmci L) sh] else [])
              @ (if version \<ge> 4 then [sub_blob (read_eraseinfo D) L i (sl_erase L) sh] else [])
              @ [parse_range D L version i sh]) h;
     Some (ret, sdp, h)
   }"

definition parse_sub_hdr_32pack :: "ddenv \<Rightarrow> nat \<Rightarrow> u8 list \<Rightarrow> setup_data \<Rightarrow> ddheap \<Rightarrow> (kstatus \<times> setup_data \<times> ddheap) option" where
  "parse_sub_hdr_32pack D = parse_sub_hdr D kdump_sub_header_32pack"

definition parse_sub_hdr_32pad :: "ddenv \<Rightarrow> nat \<Rightarrow> u8 list \<Rightarrow> setup_data \<Rightarrow> ddheap \<Rightarrow> (kstatus \<times> setup_data \<times> ddheap) option" where
  "parse_sub_hdr_32pad D = parse_sub_hdr D kdump_sub_header_32pad"

text \<open>The number of the file is the one in its map.\<close>

definition read_sub_hdr_32 :: "ddenv \<Rightarrow> nat \<Rightarrow> setup_data \<Rightarrow> ddheap \<Rightarrow> (kstatus \<times> setup_data \<times> ddheap) option" where
  "read_sub_hdr_32 D i sdp h =
     (if sd_header_version sdp < 0 then Some (KDUMP_ERR_CORRUPT, sdp, h)
      else if sd_header_version sdp < 1 then Some (KDUMP_OK, sdp, h)
      else do {
        (ret, sh, h) \<leftarrow> read_flat D 96 i (get_page_size h) h;
        if ret \<noteq> KDUMP_OK then Some (ret, sdp, h)
        else if sd_header_version sdp < 3 then parse_sub_hdr_32pack D i sh sdp h
        else do {
          let off_payload = get_page_size h * of_int (1 + sd_sub_hdr_blocks sdp);
          off_vmci \<leftarrow> dump_field 20 8 sh h;
          sz_vmci \<leftarrow> dump_field 28 4 sh h;
          if (off_vmci = 0 \<and> sz_vmci = 0) \<or> (off_vmci > get_page_size h \<and> off_vmci + sz_vmci \<le> off_payload)
          then parse_sub_hdr_32pack D i sh sdp h
          else parse_sub_hdr_32pad D i sh sdp h
        }
      })"

definition read_sub_hdr_64 :: "ddenv \<Rightarrow> nat \<Rightarrow> setup_data \<Rightarrow> ddheap \<Rightarrow> (kstatus \<times> setup_data \<times> ddheap) option" where
  "read_sub_hdr_64 D i sdp h =
     (if sd_header_version sdp < 0 then Some (KDUMP_ERR_CORRUPT, sdp, h)
      else if sd_header_version sdp < 1 then Some (KDUMP_OK, sdp, h)
      else do {
        (ret, sh, h) \<leftarrow> read_flat D 104 i (get_page_size h) h;
        if ret \<noteq> KDUMP_OK then Some (ret, sdp, h) else parse_sub_hdr D kdump_sub_header_64 i sh sdp h
      })"

subsection \<open>Headers\<close>

record header_layout =
  hl_size :: nat
  hl_block_size :: nat
  hl_sub_hdr_size :: nat
  hl_bitmap_blocks :: nat
  hl_max_mapnr :: nat
  hl_ptr_size :: u64

definition disk_dump_header_32 :: header_layout where
  "disk_dump_header_32 = \<lparr>hl_size = 452, hl_block_size = 416, hl_sub_hdr_size = 420, hl_bitmap_blocks = 424, hl_max_mapnr = 428, hl_ptr_size = 4\<rparr>"

definition disk_dump_header_64 :: header_layout where
  "disk_dump_header_64 = \<lparr>hl_size = 464, hl_block_size = 428, hl_sub_hdr_size = 432, hl_bitmap_blocks = 436, hl_max_mapnr = 440, hl_ptr_size = 8\<rparr>"

text \<open>The header of each file is read over the beginning of the buffer, as far as the read gets.\<close>

fun header_loop ::
  "ddenv \<Rightarrow> header_layout \<Rightarrow> (nat \<Rightarrow> setup_data \<Rightarrow> ddheap \<Rightarrow> (kstatus \<times> setup_data \<times> ddheap) option) \<Rightarrow> nat list \<Rightarrow> setup_data \<Rightarrow> u8 list \<Rightarrow> ddheap \<Rightarrow>
   (kstatus \<times> setup_data \<times> u8 list \<times> ddheap) option" where
  "header_loop D L read_sub [] sdp dh h = Some (KDUMP_OK, sdp, dh, h)"
| "header_loop D L read_sub (i # is) sdp dh h = do {
     h \<leftarrow> upd_pdmap i (\<lambda>m. m\<lparr>fidx := i\<rparr>) h;
     (ret, bs, h) \<leftarrow> read_flat D (hl_size L) i 0 h;
     let dh = bs @ drop (length bs) dh;
     if ret \<noteq> KDUMP_OK then Some (ret, sdp, dh, h)
     else do {
       bsize \<leftarrow> dump_field (hl_block_size L) 4 dh h;
       blocks \<leftarrow> dump_field (hl_bitmap_blocks L) 4 dh h;
       mapnr \<leftarrow> dump_field (hl_max_mapnr L) 4 dh h;
       (ret, h) \<leftarrow> try_header D (int32 bsize) blocks mapnr h;
       if ret \<noteq> KDUMP_OK then Some (ret, sdp, dh, h)
       else do {
         sub \<leftarrow> dump_field (hl_sub_hdr_size L) 4 dh h;
         let sdp = sdp\<lparr>sd_sub_hdr_blocks := uint sub\<rparr>;
         (ret, sdp, h) \<leftarrow> read_sub i sdp h;
         if ret \<noteq> KDUMP_OK then Some (ret, sdp, dh, h)
         else do {
           blocks \<leftarrow> dump_field (hl_bitmap_blocks L) 4 dh h;
           (ret, h) \<leftarrow> read_bitmap D i (int32 (of_int (sd_sub_hdr_blocks sdp))) (int32 blocks) h;
           if ret \<noteq> KDUMP_OK then Some (ret, sdp, dh, h) else header_loop D L read_sub is sdp dh h
         }
       }
     }
   }"

definition do_header ::
  "ddenv \<Rightarrow> header_layout \<Rightarrow> (nat \<Rightarrow> setup_data \<Rightarrow> ddheap \<Rightarrow> (kstatus \<times> setup_data \<times> ddheap) option) \<Rightarrow> u64 \<Rightarrow> setup_data \<Rightarrow> u8 list \<Rightarrow> ddheap \<Rightarrow>
   (kstatus \<times> setup_data \<times> u8 list \<times> ddheap) option" where
  "do_header D L read_sub byte_order sdp dh h = do {
     (_, h) \<leftarrow> set_static (de_attrs D) ''byte_order'' (Number byte_order) h;
     (_, h) \<leftarrow> set_static (de_attrs D) ''ptr_size'' (Number (hl_ptr_size L)) h;
     version \<leftarrow> dump_field 8 4 dh h;
     header_loop D L read_sub [0..<get_num_files h] (sdp\<lparr>sd_header_version := uint version\<rparr>) dh h
   }"

definition do_header_32 :: "ddenv \<Rightarrow> u64 \<Rightarrow> setup_data \<Rightarrow> u8 list \<Rightarrow> ddheap \<Rightarrow> (kstatus \<times> setup_data \<times> u8 list \<times> ddheap) option" where
  "do_header_32 D = do_header D disk_dump_header_32 (read_sub_hdr_32 D)"

definition do_header_64 :: "ddenv \<Rightarrow> u64 \<Rightarrow> setup_data \<Rightarrow> u8 list \<Rightarrow> ddheap \<Rightarrow> (kstatus \<times> setup_data \<times> u8 list \<times> ddheap) option" where
  "do_header_64 D = do_header D disk_dump_header_64 (read_sub_hdr_64 D)"

definition KDUMP_LITTLE_ENDIAN :: u64 where
  "KDUMP_LITTLE_ENDIAN = 1"

definition try_header_order :: "ddenv \<Rightarrow> header_layout \<Rightarrow> (u8 list \<Rightarrow> u64) \<Rightarrow> u8 list \<Rightarrow> ddheap \<Rightarrow> (kstatus \<times> ddheap) option" where
  "try_header_order D L toh dh h = do {
     bsize \<leftarrow> field (hl_block_size L) 4 dh;
     blocks \<leftarrow> field (hl_bitmap_blocks L) 4 dh;
     mapnr \<leftarrow> field (hl_max_mapnr L) 4 dh;
     try_header D (int32 (toh bsize)) (toh blocks) (toh mapnr) h
   }"

definition try_headers ::
  "ddenv \<Rightarrow> header_layout \<Rightarrow> (u64 \<Rightarrow> setup_data \<Rightarrow> u8 list \<Rightarrow> ddheap \<Rightarrow> (kstatus \<times> setup_data \<times> u8 list \<times> ddheap) option) \<Rightarrow> setup_data \<Rightarrow> u8 list \<Rightarrow> ddheap \<Rightarrow>
   (kstatus \<times> setup_data \<times> u8 list \<times> ddheap) option" where
  "try_headers D L do_it sdp dh h = do {
     (ret, h) \<leftarrow> try_header_order D L (\<lambda>bs. be_bytes (rev bs)) dh h;
     if ret = KDUMP_OK then do_it KDUMP_LITTLE_ENDIAN sdp dh h
     else if ret \<noteq> KDUMP_ERR_CORRUPT then Some (ret, sdp, dh, h)
     else do {
       (ret, h) \<leftarrow> try_header_order D L be_bytes dh h;
       if ret = KDUMP_OK then do_it KDUMP_BIG_ENDIAN sdp dh h else Some (ret, sdp, dh, h)
     }
   }"

definition try_header_32 :: "ddenv \<Rightarrow> setup_data \<Rightarrow> u8 list \<Rightarrow> ddheap \<Rightarrow> (kstatus \<times> setup_data \<times> u8 list \<times> ddheap) option" where
  "try_header_32 D = try_headers D disk_dump_header_32 (do_header_32 D)"

definition try_header_64 :: "ddenv \<Rightarrow> setup_data \<Rightarrow> u8 list \<Rightarrow> ddheap \<Rightarrow> (kstatus \<times> setup_data \<times> u8 list \<times> ddheap) option" where
  "try_header_64 D = try_headers D disk_dump_header_64 (do_header_64 D)"

subsection \<open>The page map of the memory\<close>

text \<open>
  The template of the attribute is overridden by one in the private data of the format, with operations of its own, at the address of these data. \<open>reval\<close> is the
  function that reads the map.
\<close>

definition mem_pagemap_revalidate :: "ddenv \<Rightarrow> nat \<Rightarrow> ddheap \<Rightarrow> (kstatus \<times> ddheap) option" where
  "mem_pagemap_revalidate D n h = do {
     ddp \<leftarrow> fmtdata h;
     (r, h) \<leftarrow> get_flat_chunk D (dd_mem_pagemap_size ddp) 0 (dd_mem_pagemap_off ddp) h;
     case r of
       Inl status \<Rightarrow> Some (status, h)
     | Inr (fch, bs) \<Rightarrow> do {
         let maxpfn = of_nat (dd_mem_pagemap_size ddp) * 8;
         (status, m) \<leftarrow> pfn_regions_from_bitmap (de_realloc D) (de_base D)
            ((dd_mem_pagemap ddp)\<lparr>start_pfn := 0, end_pfn := KDUMP_PFN_MAX\<rparr>) bs False 0 maxpfn 0 0;
         h \<leftarrow> upd_fmtdata (\<lambda>p. p\<lparr>dd_mem_pagemap := m\<rparr>) h;
         let h = put_flat_chunk fch h;
         t \<leftarrow> h_tmpls h (dd_addr ddp);
         q \<leftarrow> (case t_link t of Parent q \<Rightarrow> Some q | _ \<Rightarrow> None);
         parent \<leftarrow> h_tmpls h q;
         let parent_revalidate = hook_of revalidate h parent;
         (status, h) \<leftarrow>
           (case (status, parent_revalidate) of
              (KDUMP_OK, Some f) \<Rightarrow> run_revalidate (ke_hooks (de_attrs D)) f n h
            | _ \<Rightarrow> Some (status, h));
         if status = KDUMP_OK
         then do {
           let h = h\<lparr>h_ops := (h_ops h)(dd_addr ddp := (h_ops h (dd_addr ddp))\<lparr>revalidate := parent_revalidate\<rparr>)\<rparr>;
           h \<leftarrow> upd_node n (\<lambda>a. a\<lparr>at_flags := (at_flags a)\<lparr>invalid := False\<rparr>\<rparr>) h;
           Some (status, h)
         }
         else Some (status, h)
       }
   }"

text \<open>A new bitmap object with a reference to the shared data; what its operations do is given by the functions above.\<close>

definition bmp_new :: "'p kheap \<Rightarrow> nat option \<times> 'p kheap" where
  "bmp_new h =
     (case alloc h of
        (None, h) \<Rightarrow> (None, h)
      | (Some b, h) \<Rightarrow> (Some b, h\<lparr>h_bmps := (h_bmps h)(b \<mapsto> 1), h_shared := h_shared h + 1\<rparr>))"

definition init_mem_pagemap :: "ddenv \<Rightarrow> nat \<Rightarrow> ddheap \<Rightarrow> (kstatus \<times> ddheap) option" where
  "init_mem_pagemap D reval h = do {
     ddp \<leftarrow> fmtdata h;
     n \<leftarrow> gattr (de_attrs D) h (GKI ''memory_pagemap'');
     case bmp_new h of
       (None, h) \<Rightarrow> Some (KDUMP_ERR_SYSTEM, h)
     | (Some b, h) \<Rightarrow> do {
         h \<leftarrow> attr_add_override n (dd_addr ddp) (dd_addr ddp) h;
         let h = h\<lparr>h_ops := (h_ops h)(dd_addr ddp := (h_ops h (dd_addr ddp))\<lparr>revalidate := Some reval\<rparr>)\<rparr>;
         set_attr (ke_hooks (de_attrs D)) n ATTR_INVALID (Here (Bitmap b)) h
       }
   }"

subsection \<open>Opening and closing\<close>

definition empty_map :: pfn_file_map where
  "empty_map = \<lparr>regions = [], fidx = 0, start_pfn = 0, end_pfn = 0\<rparr>"

definition init_private :: "ddheap \<Rightarrow> kstatus \<times> ddheap" where
  "init_private h =
     (let n = get_num_files h
      in case alloc h of
           (None, h) \<Rightarrow> (KDUMP_ERR_SYSTEM, h)
         | (Some a, h) \<Rightarrow>
             (KDUMP_OK,
              upd_shared (\<lambda>s. s\<lparr>ks_fmtdata := Some \<lparr>dd_addr = a, dd_num_files = n, dd_mem_pagemap_off = 0, dd_mem_pagemap_size = 0,
                dd_mem_pagemap = empty_map, dd_pdmap = replicate n empty_map\<rparr>\<rparr>) h))"

text \<open>The private data are freed, and with them the template that overrides the one of the page map.\<close>

definition diskdump_cleanup :: "ddheap \<Rightarrow> ddheap" where
  "diskdump_cleanup h =
     (case fmtdata h of
        None \<Rightarrow> h
      | Some ddp \<Rightarrow> upd_shared (\<lambda>s. s\<lparr>ks_fmtdata := None\<rparr>) (h\<lparr>h_tmpls := (h_tmpls h)(dd_addr ddp := None)\<rparr>))"

definition diskdump_attr_cleanup :: "nat \<Rightarrow> ddheap \<Rightarrow> ddheap option" where
  "diskdump_attr_cleanup dict h = do {
     ddp \<leftarrow> fmtdata h;
     n \<leftarrow> dgattr h dict (GKI ''memory_pagemap'');
     attr_remove_override n (dd_addr ddp) h
   }"

text \<open>The names of the system are six arrays of 65 characters.\<close>

definition uts_at :: "nat \<Rightarrow> u8 list \<Rightarrow> new_utsname" where
  "uts_at off hdr =
     (let s = (\<lambda>i. chars (take (NEW_UTS_LEN + 1) (drop (off + i * (NEW_UTS_LEN + 1)) hdr)))
      in \<lparr>uts_sysname = s 0, uts_nodename = s 1, uts_release = s 2, uts_version = s 3, uts_machine = s 4, uts_domainname = s 5\<rparr>)"

text \<open>A failure of the heap is passed on through the setters.\<close>

fun uts_field :: "uts_key \<Rightarrow> string" where
  "uts_field UTS_sysname = ''linux_uts_sysname''"
| "uts_field UTS_nodename = ''linux_uts_nodename''"
| "uts_field UTS_release = ''linux_uts_release''"
| "uts_field UTS_version = ''linux_uts_version''"
| "uts_field UTS_machine = ''linux_uts_machine''"
| "uts_field UTS_domainname = ''linux_uts_domainname''"

definition set_uts_attr :: "'x kenv \<Rightarrow> uts_key \<Rightarrow> string \<Rightarrow> 'x attr_heap option \<Rightarrow> kstatus \<times> 'x attr_heap option" where
  "set_uts_attr E key s hp =
     (case Option.bind hp (set_global_string E (uts_field key) s) of
        None \<Rightarrow> (KDUMP_ERR_SYSTEM, None)
      | Some (ret, h) \<Rightarrow> (ret, Some h))"

definition set_uts_attrs :: "'x kenv \<Rightarrow> new_utsname \<Rightarrow> 'x attr_heap \<Rightarrow> 'x attr_heap option" where
  "set_uts_attrs E uts h = snd (set_uts (set_uts_attr E) uts (Some h))"

definition open_common :: "ddenv \<Rightarrow> nat \<Rightarrow> u8 list \<Rightarrow> ddheap \<Rightarrow> (kstatus \<times> ddheap) option" where
  "open_common D reval hdr h = do {
     let E = de_attrs D;
     let sd = \<lparr>sd_note_off = 0, sd_note_sz = 0, sd_header_version = 0, sd_sub_hdr_blocks = 0\<rparr>;
     let h = upd_shared (\<lambda>s. s\<lparr>ks_xlat_caps := ADDRXLAT_CAPS ADDRXLAT_MACHPHYSADDR\<rparr>) h;
     (ret, sd, hdr, h) \<leftarrow> try_header_32 D sd hdr h;
     (ret, sd, hdr, h) \<leftarrow> (if ret = KDUMP_ERR_CORRUPT then try_header_64 D sd hdr h else Some (ret, sd, hdr, h));
     let ret = (if ret = KDUMP_ERR_CORRUPT then KDUMP_ERR_NOTIMPL else ret);
     if ret \<noteq> KDUMP_OK then Some (ret, diskdump_cleanup h)
     else do {
       h \<leftarrow> upd_fmtdata (\<lambda>p. p\<lparr>dd_pdmap := sort_pfn_file_maps (dd_pdmap p)\<rparr>) h;
       case bmp_new h of
         (None, h) \<Rightarrow> Some (KDUMP_ERR_SYSTEM, diskdump_cleanup h)
       | (Some b, h) \<Rightarrow> do {
           (_, h) \<leftarrow> set_static E ''file_pagemap'' (Bitmap b) h;
           (ret, h) \<leftarrow> init_mem_pagemap D reval h;
           if ret \<noteq> KDUMP_OK then Some (ret, diskdump_cleanup h)
           else do {
             h \<leftarrow> (let uts = uts_at 12 hdr in if uts_looks_sane uts then set_uts_attrs E uts h else Some h);
             if sd_note_sz sd \<noteq> 0
             then do {
               (ret, h) \<leftarrow> read_notes D (sd_note_off sd) (sd_note_sz sd) h;
               Some (ret, if ret \<noteq> KDUMP_OK then diskdump_cleanup h else h)
             }
             else Some (ret, h)
           }
         }
     }
   }"

definition init_desc :: "ddheap \<Rightarrow> string" where
  "init_desc h =
     (let files = [0..<get_num_files h]; nflat = length (filter (flatmap_isflattened (ks_fm (h_ctx h))) files)
      in if nflat = length files then ''Flattened '' else if nflat \<noteq> 0 then ''Mixed '' else [])"

definition diskdump_probe :: "ddenv \<Rightarrow> nat \<Rightarrow> ddheap \<Rightarrow> (probe_result \<times> ddheap) option" where
  "diskdump_probe D reval h = do {
     (status, hdr, h) \<leftarrow> read_flat D (hl_size disk_dump_header_64) 0 0 h;
     if status \<noteq> KDUMP_OK then Some (Probed status, h)
     else if take 8 hdr \<noteq> bytes ''DISKDUMP'' \<and> take 8 hdr \<noteq> bytes ''KDUMP   '' then Some (Noprobe, diskdump_cleanup h)
     else do {
       let desc = init_desc h @ (if take 8 hdr = bytes ''DISKDUMP'' then ''Diskdump'' else ''Compressed KDUMP'');
       n \<leftarrow> gattr (de_attrs D) h (GKI ''file_description'');
       (status, h) \<leftarrow> set_attr_string (ke_hooks (de_attrs D)) n ATTR_DEFAULT desc h;
       if status \<noteq> KDUMP_OK then Some (Probed status, h)
       else (case init_private h of
               (KDUMP_OK, h) \<Rightarrow> do { (ret, h) \<leftarrow> open_common D reval hdr h; Some (Probed ret, h) }
             | (status, h) \<Rightarrow> Some (Probed status, h))
     }
   }"

end
