(* ===== verification/Diskdump_Facts.thy ===== *)
theory Diskdump_Facts
  imports Diskdump Pfn_Results Fcache_Pread Flatmap_Facts
begin

section \<open>Pages of compressed kdump files\<close>

text \<open>
  A page that the bitmap has is read through the descriptor of its rank. The proof puts together the searches of the page map, the file cache and
  the format.
\<close>

subsection \<open>Two reads in a row\<close>

lemma file_reads_next:
  assumes "os_ok os" and "never_fails os" and "file_reads os p tot fc" and "inside_file os p fc i pos len" and "tot + len < UINT_SIZE - 1"
  shows "\<exists>fc'. fcache_pread os len i pos fc = Some (KDUMP_OK, file_bytes os (fcache_fd fc i) (unat pos) len, fc')
    \<and> file_reads os p (tot + len) fc' \<and> fc_info fc' = fc_info fc"
proof -
  obtain m where m: "fc_ok os p m tot 0 fc"
    using file_reads_ok [OF assms(1,3)] by blast
  have pos: "0 < UINT_SIZE - 1"
    by simp
  obtain bs fc' where r: "fcache_pread os len i pos fc = Some (KDUMP_OK, bs, fc')" "bs = file_bytes os (fcache_fd fc i) (unat pos) len"
    using file_reads_pread [OF assms(1,3-5)] assms(2) by (fastforce simp: never_fails_def)
  moreover have "fc_info fc' = fc_info fc"
    using pread_transparent [OF assms(1) m assms(5) pos _ refl, of i pos] assms(4) r(1) unfolding inside_file_def by fastforce
  ultimately show ?thesis
    using file_reads.pread [OF assms(3-5)] by blast
qed

lemma read_flat_plain:
  assumes "fcache_pread (de_os D) len i pos (ks_fc (h_ctx h)) = Some (st, bs, fc')" and "\<not> flatmap_isflattened (ks_fm (h_ctx h)) i"
  shows "read_flat D len i pos h = Some (st, bs, upd_shared (\<lambda>s. s\<lparr>ks_fc := fc'\<rparr>) h)"
  using assms by (simp add: read_flat_def flatmap_pread_def)

lemma upd_shared_parts [simp]:
  "h_static (upd_shared f h) = h_static h" "h_ctx (upd_shared f h) = f (h_ctx h)" "get_number n (upd_shared f h) = get_number n h"
  "get_page_size (upd_shared f h) = get_page_size h" "dump_field off len bs (upd_shared f h) = dump_field off len bs h"
  by (simp_all add: upd_shared_def get_number_def get_static_def get_page_size_def dump_field_def dump_toh_def)

subsection \<open>The position of a descriptor\<close>

lemma pdpos_of_bitmap:
  assumes "pfn_regions_from_bitmap grow base m0 bitmap False s e pos (of_nat PAGE_DESC_SIZE) = Some (KDUMP_OK, m)" and "regions m0 = []"
    and "s \<le> e" and "unat e + 7 < 2 ^ 64" and "(unat e + 7) div 8 \<le> length bitmap" and "s \<le> pfn" and "pfn < e"
  shows "pfn_to_pdpos m pfn = (if bit_of False bitmap (unat pfn)
    then pos + of_nat (rank (bit_of False bitmap) (unat s) (unat pfn)) * of_nat PAGE_DESC_SIZE else - 1)"
proof -
  obtain st m' where "pfn_regions_from_bitmap grow base m0 bitmap False s e pos (of_nat PAGE_DESC_SIZE) = Some (st, m')"
    and "st = KDUMP_OK \<Longrightarrow> runs (\<not> False) (bit_of False bitmap) (of_nat PAGE_DESC_SIZE) (unat e) (unat s) pos (regions m')"
    using bitmap_map [OF assms(3-5,2), of grow base False pos "of_nat PAGE_DESC_SIZE"] by auto
  then have r: "runs True (bit_of False bitmap) (of_nat PAGE_DESC_SIZE) (unat e) (unat s) pos (regions m)"
    using assms(1) by simp
  have "unat s \<le> unat pfn" "unat pfn < unat e" "unat e < 2 ^ 64"
    using assms(6,7) u64_bound by (simp_all add: word_le_nat_alt word_less_nat_alt)
  from find_run [OF r this(3,1,2)] show ?thesis
    by (simp add: pfn_to_pdpos_def Let_def split: option.splits if_splits)
qed

subsection \<open>Reading a page\<close>

text \<open>What the descriptor of a page says.\<close>

definition descriptor :: "u8 list \<Rightarrow> ddheap \<Rightarrow> u64 \<times> u64 \<times> u64" where
  "descriptor pd h = (dump_toh (take 8 pd) h, dump_toh (take 4 (drop 8 pd)) h, dump_toh (take 4 (drop 12 pd)) h)"

text \<open>The map of the file that a page frame is in.\<close>

definition pdmap_of :: "ddheap \<Rightarrow> u64 \<Rightarrow> pfn_file_map \<Rightarrow> bool" where
  "pdmap_of h pfn m \<longleftrightarrow> (\<exists>ddp ms. fmtdata h = Some ddp \<and> find_pfn_file_map (dd_pdmap ddp) pfn = Some (m # ms)) \<and> start_pfn m \<le> pfn
     \<and> pfn < get_max_pfn h \<and> \<not> flatmap_isflattened (ks_fm (h_ctx h)) (fidx m)"

lemma page_excluded:
  assumes "pdmap_of h pfn m" and "pfn = drop_bit (unat (get_page_shift h)) addr" and "pfn_to_pdpos m pfn = - 1"
  shows "diskdump_read_page D C addr h =
    Some (if get_number ''zero_excluded'' h \<noteq> 0 then (KDUMP_OK, replicate (unat (get_page_size h)) 0, h) else (KDUMP_ERR_NODATA, [], h))"
  using assms by (auto simp: pdmap_of_def diskdump_read_page_def Let_def)

lemma page_of_descriptor:
  assumes "pdmap_of h pfn m" and "pfn = drop_bit (unat (get_page_shift h)) addr" and "pfn_to_pdpos m pfn = pos" and "pos \<noteq> - 1"
    and "read_flat D PAGE_DESC_SIZE (fidx m) pos h = Some (KDUMP_OK, pd, h1)" and "length pd = PAGE_DESC_SIZE"
    and "\<And>off n bs. dump_field off n bs h1 = dump_field off n bs h" and "get_page_size h1 = get_page_size h"
    and "descriptor pd h = (off, get_page_size h, flags)" and "flags AND DUMP_DH_COMPRESSED = 0"
  shows "diskdump_read_page D C addr h = read_flat D (unat (get_page_size h)) (fidx m) off h1"
proof -
  have "dump_field 0 8 pd h = Some off" "dump_field 8 4 pd h = Some (get_page_size h)" "dump_field 12 4 pd h = Some flags"
    using assms(6,9) by (simp_all add: dump_field_def field_def descriptor_def PAGE_DESC_SIZE_def)
  then show ?thesis
    using assms(1-5,7,8,10) by (auto simp: pdmap_of_def diskdump_read_page_def Let_def)
qed

text \<open>
  C38. Pages of a compressed kdump: when the map of a file was made from its bitmap, and reads do not fail, \<open>diskdump_read_page\<close> delivers for a page whose bit is
  set, and whose data are not compressed, the bytes at the position that the descriptor of its rank tells; a page whose bit is not set is zero or has no
  data, as the attribute \<open>file.zero_excluded\<close> says, and nothing is read.
\<close>

theorem diskdump_page_is_read:
  assumes "os_ok (de_os D)" and "never_fails (de_os D)" and "file_reads (de_os D) p tot fc" and "ks_fc (h_ctx h) = fc"
    and "tot + PAGE_DESC_SIZE + unat (get_page_size h) < UINT_SIZE - 1"
    and "pdmap_of h pfn m" and "pfn = drop_bit (unat (get_page_shift h)) addr" and "fd = fcache_fd fc (fidx m)"
    and "pfn_regions_from_bitmap grow base m0 bitmap False s e descs (of_nat PAGE_DESC_SIZE) = Some (KDUMP_OK, m)" and "regions m0 = []"
    and "s \<le> e" and "unat e + 7 < 2 ^ 64" and "(unat e + 7) div 8 \<le> length bitmap" and "s \<le> pfn" and "pfn < e"
    and "pos = descs + of_nat (rank (bit_of False bitmap) (unat s) (unat pfn)) * of_nat PAGE_DESC_SIZE"
    and "descriptor (file_bytes (de_os D) fd (unat pos) PAGE_DESC_SIZE) h = (off, sz, flags)"
  shows "if bit_of False bitmap (unat pfn)
    then inside_file (de_os D) p fc (fidx m) pos PAGE_DESC_SIZE \<and> sz = get_page_size h \<and> flags AND DUMP_DH_COMPRESSED = 0
      \<and> inside_file (de_os D) p fc (fidx m) off (unat sz)
      \<longrightarrow> (\<exists>h'. diskdump_read_page D C addr h = Some (KDUMP_OK, file_bytes (de_os D) fd (unat off) (unat sz), h'))
    else diskdump_read_page D C addr h =
      Some (if get_number ''zero_excluded'' h \<noteq> 0 then (KDUMP_OK, replicate (unat (get_page_size h)) 0, h) else (KDUMP_ERR_NODATA, [], h))"
proof (cases "bit_of False bitmap (unat pfn)")
  case False
  then show ?thesis
    using page_excluded [OF assms(6,7)] pdpos_of_bitmap [OF assms(9-15)] by simp
next
  case True
  then have pd: "pfn_to_pdpos m pfn = pos"
    using pdpos_of_bitmap [OF assms(9-15)] assms(16) by simp
  show ?thesis
  proof (simp only: True if_True, intro impI, elim conjE)
    assume i: "inside_file (de_os D) p fc (fidx m) pos PAGE_DESC_SIZE" "sz = get_page_size h" "flags AND DUMP_DH_COMPRESSED = 0"
      "inside_file (de_os D) p fc (fidx m) off (unat sz)"
    have flat: "\<not> flatmap_isflattened (ks_fm (h_ctx h)) (fidx m)"
      using assms(6) by (simp add: pdmap_of_def)
    have "tot + PAGE_DESC_SIZE < UINT_SIZE - 1"
      using assms(5) by simp
    then obtain fc1 where r1: "fcache_pread (de_os D) PAGE_DESC_SIZE (fidx m) pos fc = Some (KDUMP_OK, file_bytes (de_os D) fd (unat pos) PAGE_DESC_SIZE, fc1)"
      "file_reads (de_os D) p (tot + PAGE_DESC_SIZE) fc1" "fc_info fc1 = fc_info fc"
      using file_reads_next [OF assms(1-3) i(1)] assms(8) by blast
    have i2: "inside_file (de_os D) p fc1 (fidx m) off (unat sz)" "fcache_fd fc1 (fidx m) = fd"
      using i(4) r1(3) assms(8) by (simp_all add: inside_file_def fcache_fd_def)
    obtain fc2 where r2: "fcache_pread (de_os D) (unat sz) (fidx m) off fc1 = Some (KDUMP_OK, file_bytes (de_os D) fd (unat off) (unat sz), fc2)"
      using file_reads_next [OF assms(1,2) r1(2) i2(1)] assms(5) i(2) i2(2) by auto
    define h1 where "h1 = upd_shared (\<lambda>s. s\<lparr>ks_fc := fc1\<rparr>) h"
    have c1: "ks_fc (h_ctx h1) = fc1" "\<not> flatmap_isflattened (ks_fm (h_ctx h1)) (fidx m)"
      using flat by (simp_all add: h1_def)
    have rd: "read_flat D PAGE_DESC_SIZE (fidx m) pos h = Some (KDUMP_OK, file_bytes (de_os D) fd (unat pos) PAGE_DESC_SIZE, h1)"
      unfolding h1_def by (rule read_flat_plain [OF _ flat]) (simp add: r1(1) assms(4))
    have "pos \<noteq> - 1"
      using i(1) by (auto simp: inside_file_def unsigned_minus_1_eq_mask mask_eq_exp_minus_1)
    from page_of_descriptor [OF assms(6,7) pd this rd] have "diskdump_read_page D C addr h = read_flat D (unat sz) (fidx m) off h1"
      using assms(17) i(2,3) by (simp add: h1_def)
    also have "\<dots> = Some (KDUMP_OK, file_bytes (de_os D) fd (unat off) (unat sz), upd_shared (\<lambda>s. s\<lparr>ks_fc := fc2\<rparr>) h1)"
      by (rule read_flat_plain [OF _ c1(2)]) (simp add: r2 c1(1))
    finally show "\<exists>h'. diskdump_read_page D C addr h = Some (KDUMP_OK, file_bytes (de_os D) fd (unat off) (unat sz), h')"
      by blast
  qed
qed

text \<open>A file with one page of four bytes behind its descriptor, whose bitmap has the first of eight bits.\<close>

definition page_os :: os where
  "page_os = ex_os\<lparr>os_file := (\<lambda>_. [24, 0, 0, 0, 0, 0, 0, 0, 4, 0, 0, 0] @ [0, 0, 0, 0, 0, 0, 0, 0, 0, 0, 0, 0, 1, 2, 3, 4])\<rparr>"

definition page_fcache :: fcache where
  "page_fcache = the (fcache_new (\<lambda>d. Some (int (length (os_file page_os d)))) (2 ^ 12) True (Some ex_cache, 0) (Some ex_cache, 0, Some 4096)
     (\<lambda>_. []) [7] 2 2)"

definition page_map :: pfn_file_map where
  "page_map = \<lparr>regions = [], fidx = 0, start_pfn = 0, end_pfn = 8\<rparr>"

definition page_heap :: "pfn_file_map \<Rightarrow> ddheap" where
  "page_heap m = \<lparr>h_nodes = Map.empty, h_tmpls = Map.empty,
     h_ops = (\<lambda>_. \<lparr>pre_set = None, post_set = None, pre_clear = None, revalidate = None\<rparr>), h_dicts = Map.empty, h_static = (\<lambda>_. Number 4),
     h_blobs = Map.empty, h_bmps = Map.empty, h_shared = 1, h_fresh = 1, h_mem = (\<lambda>_. True),
     h_ctx = \<lparr>ks_fm = \<lparr>fm_cache = False, fm_files = []\<rparr>, ks_fc = page_fcache, ks_cache = None, ks_pages = (\<lambda>_. []),
       ks_fmtdata = Some \<lparr>dd_addr = 0, dd_num_files = 1, dd_mem_pagemap_off = 0, dd_mem_pagemap_size = 0, dd_mem_pagemap = page_map, dd_pdmap = [m]\<rparr>,
       ks_arch = None, ks_osdir = None, ks_dirty = False, ks_xlat_caps = 0\<rparr>\<rparr>"

lemma page_fcache_reads: "file_reads page_os 12 0 page_fcache \<and> fc_info page_fcache = [\<lparr>fi_fd = 7, fi_filesz = 28\<rparr>]"
proof -
  obtain fc where fc: "fcache_new (\<lambda>d. Some (int (length (os_file page_os d)))) (2 ^ 12) True (Some ex_cache, 0) (Some ex_cache, 0, Some 4096)
     (\<lambda>_. []) [7] 2 2 = Some fc" "fc_info fc = [\<lparr>fi_fd = 7, fi_filesz = 28\<rparr>]"
    by (simp add: fcache_new_def cache_alloc_def ex_cache_def page_os_def ex_os_def)
  then have "page_fcache = fc"
    by (simp add: page_fcache_def)
  then show ?thesis
    using file_reads.new [OF fc(1)] fc(2) by simp
qed

lemma page_numbers: "get_number n (page_heap m) = 4"
  by (simp add: get_number_def get_static_def page_heap_def)

lemma page_os_bytes: "file_bytes page_os 7 0 24 = [24, 0, 0, 0, 0, 0, 0, 0, 4, 0, 0, 0, 0, 0, 0, 0, 0, 0, 0, 0, 0, 0, 0, 0]" "file_bytes page_os 7 24 4 = [1, 2, 3, 4]"
  by (simp_all add: file_bytes_def page_os_def eval_nat_numeral)

lemma page_descriptor: "descriptor (file_bytes page_os 7 0 24) (page_heap m) = (24, 4, 0)"
  unfolding page_os_bytes by (simp add: descriptor_def dump_toh_def page_numbers KDUMP_BIG_ENDIAN_def be_bytes_def)

theorem diskdump_page_is_read_witness:
  "\<exists>m. \<forall>D C. \<exists>h'. diskdump_read_page (D\<lparr>de_os := page_os\<rparr>) C 0 (page_heap m) = Some (KDUMP_OK, [1, 2, 3, 4], h')"
proof -
  obtain m where m: "pfn_regions_from_bitmap (\<lambda>k. True) 0 page_map [1] False 0 8 0 (of_nat PAGE_DESC_SIZE) = Some (KDUMP_OK, m)" "m = page_map\<lparr>regions := regions m\<rparr>"
    using bitmap_map [of 0 8 "[1]" page_map "\<lambda>k. True" 0 False 0 "of_nat PAGE_DESC_SIZE"] by (auto simp: page_map_def)
  have parts: "fidx m = 0" "start_pfn m = 0" "end_pfn m = 8"
    by (subst m(2), simp add: page_map_def)+
  have c: "ks_fc (h_ctx (page_heap m)) = page_fcache" "pdmap_of (page_heap m) 0 m"
    by (simp_all add: pdmap_of_def page_numbers get_max_pfn_def) (simp_all add: page_heap_def parts fmtdata_def flatmap_isflattened_def)
  have b: "bit_of False [1] 0"
    by (simp add: bit_of_def bit_at_def lsb0_def)
  have ok: "os_ok page_os" "never_fails page_os" "7 = fcache_fd page_fcache 0"
    using page_fcache_reads by (simp_all add: os_ok_def never_fails_def page_os_def ex_os_def fcache_fd_def)
  have i: "inside_file page_os 12 page_fcache 0 0 24" "inside_file page_os 12 page_fcache 0 24 4"
    using page_fcache_reads by (simp_all add: inside_file_def file_end_def page_os_def)
  have "\<exists>h'. diskdump_read_page (D\<lparr>de_os := page_os\<rparr>) C 0 (page_heap m) = Some (KDUMP_OK, [1, 2, 3, 4], h')" for D C
    using diskdump_page_is_read [of "D\<lparr>de_os := page_os\<rparr>" 12 0 page_fcache "page_heap m" 0 m 0 7 "\<lambda>k. True" 0 page_map "[1]" 0 8 0 0 24 4 0 C]
      ok page_fcache_reads c m(1) b i page_descriptor [of m]
    by (simp add: parts page_numbers get_page_size_def page_map_def PAGE_DESC_SIZE_def rank_def page_os_bytes)
  then show ?thesis
    by blast
qed

subsection \<open>Old dumps\<close>

text \<open>
  The sub-header of version 0 is skipped, and with it the range of the page frames of the file, which stays empty: no page of such a dump is found.
\<close>

lemma version_0_sub_header:
  "sd_header_version sdp = 0 \<Longrightarrow> read_sub_hdr_32 D i sdp h = Some (KDUMP_OK, sdp, h)"
  "sd_header_version sdp = 0 \<Longrightarrow> read_sub_hdr_64 D i sdp h = Some (KDUMP_OK, sdp, h)"
  by (simp_all add: read_sub_hdr_32_def read_sub_hdr_64_def)

lemma empty_range_no_regions: "pfn_regions_from_bitmap grow base m bs False s 0 pos n = Some (KDUMP_OK, m)"
  by (simp add: pfn_regions_from_bitmap_def regions_loop.simps)

end
